(* ===== verification/Xet_Prelude.thy ===== *)
theory Xet_Prelude
  imports Main "HOL-Library.Word"
begin

text \<open>
  Shared vocabulary of the development: the machine types of the Rust sources, the error
  type of \<^verbatim>\<open>src/src/error.rs\<close>, the \<^verbatim>\<open>?\<close>-operator on results, the functions of
  third-party crates that the sources call (parameters of the model), and generic lemmas
  on lists and results that the components share.

  Conventions.
  \<^item> \<open>u32\<close>, \<open>u64\<close> are words: unchecked \<open>+\<close> and \<open>-\<close> wrap, as in a release build; an
    \<open>as u32\<close> cast is \<open>of_nat\<close> into the word type. Lengths and \<open>usize\<close> indices are \<open>nat\<close>.
  \<^item> \<open>Result\<close> is a sum, \<open>Inl\<close> for \<open>Err\<close>. The values formatted into an error message are
    dropped; its fixed text is kept, so distinct error branches stay distinct.
  \<^item> A slice or index operation that panics is the error branch \<open>Panic\<close>.
\<close>

type_synonym byte = "8 word"
type_synonym bytes = "byte list"
type_synonym u32 = "32 word"
type_synonym u64 = "64 word"

named_theorems result_simps \<open>inversion and evaluation of result-valued code\<close>
named_theorems codec_simps \<open>widths and round trips of binary encodings\<close>

section \<open>Errors and results\<close>

datatype io_kind = UnexpectedEof | InvalidData | NotFoundIo | OtherIo

datatype xet_error =
    InvalidHashFormat string
  | InvalidChunkSize nat nat nat
  | HashMismatch string string
  | ParseError string
  | IoError io_kind
  | Panic string

type_synonym 'a xresult = "xet_error + 'a"

fun rbind :: "'e + 'a \<Rightarrow> ('a \<Rightarrow> 'e + 'b) \<Rightarrow> 'e + 'b" where
  "rbind (Inl e) f = Inl e"
| "rbind (Inr x) f = f x"

fun map_err :: "('e \<Rightarrow> 'f) \<Rightarrow> 'e + 'a \<Rightarrow> 'f + 'a" where
  "map_err f (Inl e) = Inl (f e)"
| "map_err f (Inr x) = Inr x"

fun ok_or :: "'a option \<Rightarrow> 'e \<Rightarrow> 'e + 'a" where
  "ok_or None e = Inl e"
| "ok_or (Some x) e = Inr x"

lemma rbind_cong [fundef_cong]:
  "m = m' \<Longrightarrow> (\<And>x. m' = Inr x \<Longrightarrow> f x = f' x) \<Longrightarrow> rbind m f = rbind m' f'"
  by (cases m') auto

lemma rbind_eq_Inr [result_simps]: "rbind m f = Inr y \<longleftrightarrow> (\<exists>x. m = Inr x \<and> f x = Inr y)"
  by (cases m) auto

lemma rbind_eq_Inl [result_simps]:
  "rbind m f = Inl e \<longleftrightarrow> m = Inl e \<or> (\<exists>x. m = Inr x \<and> f x = Inl e)"
  by (cases m) auto

lemma map_err_eq_Inr [result_simps]: "map_err f m = Inr y \<longleftrightarrow> m = Inr y"
  by (cases m) auto

lemma map_err_eq_Inl [result_simps]: "map_err f m = Inl e \<longleftrightarrow> (\<exists>e'. m = Inl e' \<and> e = f e')"
  by (cases m) auto

lemma ok_or_eq_Inr [result_simps]: "ok_or x e = Inr y \<longleftrightarrow> x = Some y"
  by (cases x) auto

lemma ok_or_eq_Inl [result_simps]: "ok_or x e = Inl e' \<longleftrightarrow> x = None \<and> e' = e"
  by (cases x) auto

lemma if_Inl_eq_Inr [result_simps]: "(if b then Inl e else m) = Inr y \<longleftrightarrow> \<not> b \<and> m = Inr y"
  by auto

section \<open>Checked machine arithmetic\<close>

text \<open>Rust's \<open>checked_add\<close>, \<open>checked_sub\<close> and \<open>checked_mul\<close> on an unsigned type.\<close>

definition checked_add :: "'a::len word \<Rightarrow> 'a word \<Rightarrow> 'a word option" where
  "checked_add a b = (if unat a + unat b < 2 ^ LENGTH('a) then Some (a + b) else None)"

definition checked_sub :: "'a::len word \<Rightarrow> 'a word \<Rightarrow> 'a word option" where
  "checked_sub a b = (if b \<le> a then Some (a - b) else None)"

definition checked_mul :: "'a::len word \<Rightarrow> 'a word \<Rightarrow> 'a word option" where
  "checked_mul a b = (if unat a * unat b < 2 ^ LENGTH('a) then Some (a * b) else None)"

lemma checked_add_Some: "checked_add a b = Some c \<longleftrightarrow> unat a + unat b < 2 ^ LENGTH('a) \<and> c = a + b"
  for a b c :: "'a::len word"
  by (auto simp: checked_add_def)

lemma checked_sub_Some: "checked_sub a b = Some c \<longleftrightarrow> b \<le> a \<and> c = a - b"
  by (auto simp: checked_sub_def)

lemma checked_mul_Some: "checked_mul a b = Some c \<longleftrightarrow> unat a * unat b < 2 ^ LENGTH('a) \<and> c = a * b"
  for a b c :: "'a::len word"
  by (auto simp: checked_mul_def)

lemma unat_checked_add: "checked_add a b = Some c \<Longrightarrow> unat c = unat a + unat b"
  by (auto simp: checked_add_Some unat_word_ariths)

lemma unat_checked_sub: "checked_sub a b = Some c \<Longrightarrow> unat c = unat a - unat b"
  by (auto simp: checked_sub_Some unat_sub word_le_nat_alt)

lemma unat_checked_mul: "checked_mul a b = Some c \<Longrightarrow> unat c = unat a * unat b"
  by (auto simp: checked_mul_Some unat_word_ariths)

lemma unat_of_nat_small: "n < 2 ^ LENGTH('a) \<Longrightarrow> unat (of_nat n :: 'a::len word) = n"
  by (simp add: unat_of_nat)

lemma unat_of_nat_u32: "n < 4294967296 \<Longrightarrow> unat (of_nat n :: u32) = n"
  by (simp add: unat_of_nat_small)

lemma unat_of_nat_u64: "n < 18446744073709551616 \<Longrightarrow> unat (of_nat n :: u64) = n"
  by (simp add: unat_of_nat_small)

lemma unat_u32_less: "unat (w :: u32) < 4294967296"
  using unsigned_less [of w] by simp

lemma unat_u64_less: "unat (w :: u64) < 18446744073709551616"
  using unsigned_less [of w] by simp

section \<open>Third-party crates\<close>

text \<open>
  Functions of crates outside the repository, as one record of parameters:
  \<^verbatim>\<open>blake3::keyed_hash\<close>, \<^verbatim>\<open>sha2::Sha256::digest\<close>, \<^verbatim>\<open>hex::encode\<close> and \<^verbatim>\<open>hex::decode\<close>,
  and \<^verbatim>\<open>lz4_flex::compress_prepend_size\<close> and \<^verbatim>\<open>decompress_size_prepended\<close>. The contracts
  below state the documented behaviour that some theorems assume of them.
\<close>

record crates =
  keyed_hash :: "bytes \<Rightarrow> bytes \<Rightarrow> bytes"
  sha256 :: "bytes \<Rightarrow> bytes"
  hex_encode :: "bytes \<Rightarrow> string"
  hex_decode :: "string \<Rightarrow> unit + bytes"
  lz4_compress :: "bytes \<Rightarrow> bytes"
  lz4_decompress :: "bytes \<Rightarrow> unit + bytes"

definition blake3_contract :: "crates \<Rightarrow> bool" where
  "blake3_contract C \<longleftrightarrow> (\<forall>k d. length (keyed_hash C k d) = 32)"

definition hex_contract :: "crates \<Rightarrow> bool" where
  "hex_contract C \<longleftrightarrow>
     (\<forall>b. length (hex_encode C b) = 2 * length b) \<and>
     (\<forall>b. hex_decode C (hex_encode C b) = Inr b) \<and>
     (\<forall>s b. hex_decode C s = Inr b \<longrightarrow> length s = 2 * length b)"

section \<open>Lists\<close>

lemma take_length_append [simp]: "n = length xs \<Longrightarrow> take n (xs @ ys) = xs"
  by simp

lemma drop_length_append [simp]: "n = length xs \<Longrightarrow> drop n (xs @ ys) = ys"
  by simp

lemma take_add_append: "take (length xs + n) (xs @ ys) = xs @ take n ys"
  by simp

lemma drop_drop_add: "drop m (drop n xs) = drop (n + m) xs"
  by (simp add: add.commute)

lemma find_upt_Some:
  "find P [a..<b] = Some i \<longleftrightarrow> a \<le> i \<and> i < b \<and> P i \<and> (\<forall>j. a \<le> j \<and> j < i \<longrightarrow> \<not> P j)"
proof
  assume "find P [a..<b] = Some i"
  then obtain k where k: "k < b - a" "i = a + k" "P i" "\<forall>j<k. \<not> P ([a..<b] ! j)"
    by (auto simp: find_Some_iff)
  have "\<not> P j" if "a \<le> j" "j < i" for j
    using that k by (auto dest!: spec [of _ "j - a"])
  with k show "a \<le> i \<and> i < b \<and> P i \<and> (\<forall>j. a \<le> j \<and> j < i \<longrightarrow> \<not> P j)" by auto
next
  assume i: "a \<le> i \<and> i < b \<and> P i \<and> (\<forall>j. a \<le> j \<and> j < i \<longrightarrow> \<not> P j)"
  then show "find P [a..<b] = Some i"
    unfolding find_Some_iff by (intro exI [of _ "i - a"]) auto
qed

lemma find_upt_None: "find P [a..<b] = None \<longleftrightarrow> (\<forall>j. a \<le> j \<and> j < b \<longrightarrow> \<not> P j)"
  by (auto simp: find_None_iff)

lemma sum_list_map_concat: "sum_list (map f (concat xss)) = sum_list (map (\<lambda>xs. sum_list (map f xs)) xss)"
  by (induction xss) auto

end
