(* ===== verification/Byte_Codec.thy ===== *)
theory Byte_Codec
  imports Xet_Prelude
begin

text \<open>
  Byte-level input and output: \<^verbatim>\<open>std::io::Read::read_exact\<close> on an in-memory cursor, the
  little-endian integer encodings of the standard library, and the helpers of
  \<^verbatim>\<open>src/src/format/io_utils.rs\<close>.

  A reader is a function from the unread bytes to a result that carries the bytes left
  over. The interface \<open>byte_codec\<close> states what a fixed-width binary record promises its
  reader: decoding what was encoded returns the record and leaves the rest untouched.
  The facts about sequences of records are proved once, inside the interface; every record
  format of the program interprets it.
\<close>

type_synonym 'a reader = "bytes \<Rightarrow> xet_error + ('a \<times> bytes)"

section \<open>Readers\<close>

definition read_exact :: "nat \<Rightarrow> bytes reader" where
  "read_exact n bs =
     (if n \<le> length bs then Inr (take n bs, drop n bs) else Inl (IoError UnexpectedEof))"

text \<open>The loop \<^verbatim>\<open>for _ in 0..n { v.push(T::deserialize(reader)?); }\<close>.\<close>

fun read_n :: "'a reader \<Rightarrow> nat \<Rightarrow> 'a list reader" where
  "read_n d 0 bs = Inr ([], bs)"
| "read_n d (Suc n) bs =
     rbind (d bs) (\<lambda>(x, bs'). rbind (read_n d n bs') (\<lambda>(xs, bs''). Inr (x # xs, bs'')))"

section \<open>Little-endian integers\<close>

primrec le_bytes :: "nat \<Rightarrow> nat \<Rightarrow> bytes" where
  "le_bytes 0 x = []"
| "le_bytes (Suc n) x = of_nat x # le_bytes n (x div 256)"

primrec le_nat :: "bytes \<Rightarrow> nat" where
  "le_nat [] = 0"
| "le_nat (b # bs) = unat b + 256 * le_nat bs"

definition u32_to_le_bytes :: "u32 \<Rightarrow> bytes" where
  "u32_to_le_bytes w = le_bytes 4 (unat w)"

definition u64_to_le_bytes :: "u64 \<Rightarrow> bytes" where
  "u64_to_le_bytes w = le_bytes 8 (unat w)"

definition u32_from_le_bytes :: "bytes \<Rightarrow> u32" where
  "u32_from_le_bytes bs = of_nat (le_nat bs)"

definition u64_from_le_bytes :: "bytes \<Rightarrow> u64" where
  "u64_from_le_bytes bs = of_nat (le_nat bs)"

definition read_u32_le :: "u32 reader" where
  "read_u32_le r = rbind (read_exact 4 r) (\<lambda>(buf, r). Inr (u32_from_le_bytes buf, r))"

definition read_u64_le :: "u64 reader" where
  "read_u64_le r = rbind (read_exact 8 r) (\<lambda>(buf, r). Inr (u64_from_le_bytes buf, r))"

definition write_u32_le :: "bytes \<Rightarrow> u32 \<Rightarrow> bytes" where
  "write_u32_le w v = w @ u32_to_le_bytes v"

definition write_u64_le :: "bytes \<Rightarrow> u64 \<Rightarrow> bytes" where
  "write_u64_le w v = w @ u64_to_le_bytes v"

section \<open>Facts about readers and integers\<close>

lemma read_exact_Inr [result_simps]:
  "read_exact n bs = Inr (x, rest) \<longleftrightarrow> n \<le> length bs \<and> x = take n bs \<and> rest = drop n bs"
  by (auto simp: read_exact_def)

lemma read_exact_append [codec_simps]: "length xs = n \<Longrightarrow> read_exact n (xs @ rest) = Inr (xs, rest)"
  by (simp add: read_exact_def)

lemma read_exact_short [codec_simps]: "length bs < n \<Longrightarrow> read_exact n bs = Inl (IoError UnexpectedEof)"
  by (simp add: read_exact_def)

lemma le_bytes_length [simp, codec_simps]: "length (le_bytes n x) = n"
  by (induction n arbitrary: x) auto

lemma le_nat_le_bytes: "le_nat (le_bytes n x) = x mod 256 ^ n"
  by (induction n arbitrary: x) (auto simp: unat_of_nat mod_mult2_eq)

lemma le_nat_bound: "le_nat bs < 256 ^ length bs"
proof (induction bs)
  case (Cons b bs)
  have "unat b < 256" using unsigned_less [of b] by simp
  with Cons show ?case by simp
qed simp

lemma le_bytes_le_nat: "le_bytes (length bs) (le_nat bs) = bs"
proof (induction bs)
  case (Cons b bs)
  have "unat b < 256" using unsigned_less [of b] by simp
  then have "(unat b + 256 * le_nat bs) div 256 = le_nat bs" by simp
  moreover have "(of_nat (unat b + 256 * le_nat bs) :: byte) = b"
  proof -
    have "(256 :: byte) = 0" by simp
    then show ?thesis by (simp only: of_nat_add of_nat_mult of_nat_numeral mult_zero_left) simp
  qed
  ultimately show ?case using Cons by simp
qed simp

lemma le_nat_append: "le_nat (xs @ ys) = le_nat xs + 256 ^ length xs * le_nat ys"
  by (induction xs) (auto simp: algebra_simps)

lemma take_le_bytes: "k \<le> n \<Longrightarrow> take k (le_bytes n x) = le_bytes k x"
proof (induction n arbitrary: k x)
  case (Suc n)
  then show ?case by (cases k) auto
qed simp

lemma u32_to_le_bytes_length [simp, codec_simps]: "length (u32_to_le_bytes w) = 4"
  by (simp add: u32_to_le_bytes_def)

lemma u64_to_le_bytes_length [simp, codec_simps]: "length (u64_to_le_bytes w) = 8"
  by (simp add: u64_to_le_bytes_def)

lemma u32_from_to_le [simp, codec_simps]: "u32_from_le_bytes (u32_to_le_bytes w) = w"
  using unat_u32_less [of w] by (simp add: u32_from_le_bytes_def u32_to_le_bytes_def le_nat_le_bytes)

lemma u64_from_to_le [simp, codec_simps]: "u64_from_le_bytes (u64_to_le_bytes w) = w"
  using unat_u64_less [of w] by (simp add: u64_from_le_bytes_def u64_to_le_bytes_def le_nat_le_bytes)

lemma u32_to_from_le: "length bs = 4 \<Longrightarrow> u32_to_le_bytes (u32_from_le_bytes bs) = bs"
  using le_bytes_le_nat [of bs] le_nat_bound [of bs]
  by (simp add: u32_from_le_bytes_def u32_to_le_bytes_def unat_of_nat_u32)

lemma u64_to_from_le: "length bs = 8 \<Longrightarrow> u64_to_le_bytes (u64_from_le_bytes bs) = bs"
  using le_bytes_le_nat [of bs] le_nat_bound [of bs]
  by (simp add: u64_from_le_bytes_def u64_to_le_bytes_def unat_of_nat_u64)

lemma read_u32_le_append [codec_simps]: "read_u32_le (u32_to_le_bytes w @ rest) = Inr (w, rest)"
  by (simp add: read_u32_le_def codec_simps)

lemma read_u64_le_append [codec_simps]: "read_u64_le (u64_to_le_bytes w @ rest) = Inr (w, rest)"
  by (simp add: read_u64_le_def codec_simps)

lemma read_u32_le_Inr [result_simps]:
  "read_u32_le bs = Inr (w, rest) \<longleftrightarrow>
     4 \<le> length bs \<and> w = u32_from_le_bytes (take 4 bs) \<and> rest = drop 4 bs"
  by (auto simp: read_u32_le_def result_simps)

lemma read_u64_le_Inr [result_simps]:
  "read_u64_le bs = Inr (w, rest) \<longleftrightarrow>
     8 \<le> length bs \<and> w = u64_from_le_bytes (take 8 bs) \<and> rest = drop 8 bs"
  by (auto simp: read_u64_le_def result_simps)

section \<open>The interface of a fixed-width record\<close>

locale byte_codec =
  fixes ser :: "'a \<Rightarrow> bytes"
    and deser :: "'a reader"
    and wf :: "'a \<Rightarrow> bool"
    and width :: nat
  assumes deser_ser: "wf x \<Longrightarrow> deser (ser x @ rest) = Inr (x, rest)"
    and ser_width: "wf x \<Longrightarrow> length (ser x) = width"
    and deser_consumes: "deser bs = Inr (x, rest) \<Longrightarrow> width \<le> length bs \<and> rest = drop width bs"
begin

lemma ser_inj: "wf x \<Longrightarrow> wf y \<Longrightarrow> ser x = ser y \<Longrightarrow> x = y"
  using deser_ser [of x "[]"] deser_ser [of y "[]"] by simp

lemma sers_width: "list_all wf xs \<Longrightarrow> length (concat (map ser xs)) = width * length xs"
  by (induction xs) (auto simp: ser_width)

lemma read_n_sers:
  "list_all wf xs \<Longrightarrow> read_n deser (length xs) (concat (map ser xs) @ rest) = Inr (xs, rest)"
  by (induction xs) (auto simp: deser_ser)

lemma read_n_consumes:
  "read_n deser n bs = Inr (xs, rest) \<Longrightarrow>
     length xs = n \<and> width * n \<le> length bs \<and> rest = drop (width * n) bs"
proof (induction n arbitrary: bs xs rest)
  case (Suc n)
  then obtain x bs' xs' where x: "deser bs = Inr (x, bs')"
    and xs': "read_n deser n bs' = Inr (xs', rest)" and "xs = x # xs'"
    by (auto simp: result_simps)
  from Suc.IH [OF xs'] deser_consumes [OF x] \<open>xs = x # xs'\<close> show ?case
    by (auto simp: drop_drop_add add.commute)
qed simp

end

text \<open>A record whose decoder accepts every sufficiently long input.\<close>

locale total_codec = byte_codec +
  assumes deser_total: "width \<le> length bs \<Longrightarrow> \<exists>x. deser bs = Inr (x, drop width bs)"
begin

lemma read_n_total: "width * n \<le> length bs \<Longrightarrow> \<exists>xs. read_n deser n bs = Inr (xs, drop (width * n) bs)"
proof (induction n arbitrary: bs)
  case (Suc n)
  then obtain x where x: "deser bs = Inr (x, drop width bs)"
    using deser_total [of bs] by auto
  from Suc.prems have "width * n \<le> length (drop width bs)" by auto
  then obtain xs where "read_n deser n (drop width bs) = Inr (xs, drop (width * n) (drop width bs))"
    using Suc.IH by blast
  with x show ?case by (auto simp: drop_drop_add add.commute)
qed simp

end

text \<open>A reader that takes exactly \<open>n\<close> bytes and fails only when they are missing, built up by sequencing.\<close>

definition consumes :: "nat \<Rightarrow> bytes \<Rightarrow> ('a \<times> bytes) xresult \<Rightarrow> bool" where
  "consumes n bs m \<longleftrightarrow> (if n \<le> length bs then \<exists>x. m = Inr (x, drop n bs) else \<exists>e. m = Inl e)"

lemma consumes_bind:
  assumes "consumes k bs m" "\<And>x r. consumes l r (f x r)" "n = k + l"
  shows "consumes n bs (rbind m (\<lambda>(x, r). f x r))"
proof (cases "k \<le> length bs")
  case True
  with assms(1) obtain x where "m = Inr (x, drop k bs)" by (auto simp: consumes_def)
  with assms(2) [of "drop k bs" x] True assms(3) show ?thesis
    by (auto simp: consumes_def add.commute [of l k] split: if_splits)
next
  case False
  with assms show ?thesis by (auto simp: consumes_def)
qed

lemma consumes_ret: "consumes 0 bs (Inr (c, bs))"
  by (simp add: consumes_def)

lemma consumes_read_exact: "consumes n bs (read_exact n bs)"
  by (simp add: consumes_def read_exact_def)

lemma consumes_read_u32: "consumes 4 bs (read_u32_le bs)"
  by (simp add: consumes_def read_u32_le_def read_exact_def)

lemma consumes_read_u64: "consumes 8 bs (read_u64_le bs)"
  by (simp add: consumes_def read_u64_le_def read_exact_def)

lemmas consumes_intros =
  consumes_ret consumes_bind [OF consumes_read_exact] consumes_bind [OF consumes_read_u32]
  consumes_bind [OF consumes_read_u64]

lemma total_codec_consumes:
  assumes "\<And>bs. consumes width bs (deser bs)"
    and "\<And>x rest. P x \<Longrightarrow> deser (ser x @ rest) = Inr (x, rest)"
    and "\<And>x. P x \<Longrightarrow> length (ser x) = width"
  shows "total_codec ser deser P width"
proof
  fix bs x rest
  assume "deser bs = Inr (x, rest)"
  with assms(1) [of bs] show "width \<le> length bs \<and> rest = drop width bs"
    by (auto simp: consumes_def split: if_splits)
next
  fix bs :: bytes
  assume "width \<le> length bs"
  with assms(1) [of bs] show "\<exists>x. deser bs = Inr (x, drop width bs)"
    by (auto simp: consumes_def)
qed (use assms in auto)

text \<open>A record with a single encoding: the decoder accepts only what the encoder writes.\<close>

locale canonical_codec = byte_codec +
  assumes deser_canonical: "deser bs = Inr (x, rest) \<Longrightarrow> bs = ser x @ rest \<and> wf x"
begin

lemma read_n_canonical:
  "read_n deser n bs = Inr (xs, rest) \<Longrightarrow> bs = concat (map ser xs) @ rest \<and> list_all wf xs \<and> length xs = n"
proof (induction n arbitrary: bs xs rest)
  case (Suc n)
  then obtain x bs' xs' where x: "deser bs = Inr (x, bs')"
    and xs': "read_n deser n bs' = Inr (xs', rest)" and "xs = x # xs'"
    by (auto simp: result_simps)
  with Suc.IH [OF xs'] deser_canonical [OF x] show ?case by simp
qed simp

end

lemma read_exact_split: "read_exact n bs = Inr (x, rest) \<Longrightarrow> bs = x @ rest \<and> length x = n"
  by (auto simp: read_exact_Inr)

interpretation u32_codec: total_codec u32_to_le_bytes read_u32_le "\<lambda>_. True" 4
  by unfold_locales (auto simp: codec_simps result_simps)

interpretation u64_codec: total_codec u64_to_le_bytes read_u64_le "\<lambda>_. True" 8
  by unfold_locales (auto simp: codec_simps result_simps)

interpretation u32_canon: canonical_codec u32_to_le_bytes read_u32_le "\<lambda>_. True" 4
  by unfold_locales (auto simp: read_u32_le_Inr u32_to_from_le)

interpretation u64_canon: canonical_codec u64_to_le_bytes read_u64_le "\<lambda>_. True" 8
  by unfold_locales (auto simp: read_u64_le_Inr u64_to_from_le)

end
