(* ===== verification/Crate_Instance.thy ===== *)
theory Crate_Instance
  imports Byte_Codec
begin

text \<open>
  A concrete instance of the crate parameters, used only to evaluate witnesses: it shows
  that the contracts of \<open>Xet_Prelude\<close> can hold together. The digest pads or truncates its
  input to 32 bytes, hexadecimal coding is the real one (lower case out, either case in),
  and the compressor is the stored form: the four-byte length prefix that lz4_flex
  prepends, followed by the bytes themselves. No theorem about the program uses these
  definitions outside a witness.
\<close>

definition pad_digest :: "bytes \<Rightarrow> bytes" where
  "pad_digest d = take 32 (d @ replicate 32 0)"

definition hex_digits :: string where
  "hex_digits = ''0123456789abcdef''"

fun hex_val :: "char \<Rightarrow> nat option" where
  "hex_val c =
     (let n = of_char c :: nat in
      if 48 \<le> n \<and> n \<le> 57 then Some (n - 48)
      else if 97 \<le> n \<and> n \<le> 102 then Some (n - 87)
      else if 65 \<le> n \<and> n \<le> 70 then Some (n - 55)
      else None)"

fun hex_of_bytes :: "bytes \<Rightarrow> string" where
  "hex_of_bytes [] = []"
| "hex_of_bytes (b # bs) =
     hex_digits ! (unat b div 16) # hex_digits ! (unat b mod 16) # hex_of_bytes bs"

fun bytes_of_hex :: "string \<Rightarrow> unit + bytes" where
  "bytes_of_hex [] = Inr []"
| "bytes_of_hex [_] = Inl ()"
| "bytes_of_hex (c # d # s) =
     (case (hex_val c, hex_val d) of
        (Some h, Some l) \<Rightarrow> rbind (bytes_of_hex s) (\<lambda>bs. Inr (of_nat (16 * h + l) # bs))
      | _ \<Rightarrow> Inl ())"

definition stored_compress :: "bytes \<Rightarrow> bytes" where
  "stored_compress d = le_bytes 4 (length d) @ d"

definition stored_decompress :: "bytes \<Rightarrow> unit + bytes" where
  "stored_decompress d = (if 4 \<le> length d then Inr (drop 4 d) else Inl ())"

definition inst_crates :: crates where
  "inst_crates =
     \<lparr>keyed_hash = (\<lambda>k d. pad_digest d), sha256 = pad_digest,
      hex_encode = hex_of_bytes, hex_decode = bytes_of_hex,
      lz4_compress = stored_compress, lz4_decompress = stored_decompress\<rparr>"

lemma inst_crates_simps [simp]:
  "keyed_hash inst_crates k d = pad_digest d"
  "sha256 inst_crates d = pad_digest d"
  "hex_encode inst_crates d = hex_of_bytes d"
  "hex_decode inst_crates s = bytes_of_hex s"
  "lz4_compress inst_crates d = stored_compress d"
  "lz4_decompress inst_crates d = stored_decompress d"
  by (simp_all add: inst_crates_def)

lemma pad_digest_length [simp]: "length (pad_digest d) = 32"
  by (simp add: pad_digest_def)

lemma hex_val_digit: "n < 16 \<Longrightarrow> hex_val (hex_digits ! n) = Some n"
  by (auto simp: less_Suc_eq numeral_eq_Suc hex_digits_def)

lemma hex_of_bytes_length [simp]: "length (hex_of_bytes b) = 2 * length b"
  by (induction b rule: hex_of_bytes.induct) auto

lemma bytes_of_hex_length: "bytes_of_hex s = Inr b \<Longrightarrow> length s = 2 * length b"
  by (induction s arbitrary: b rule: bytes_of_hex.induct)
     (auto simp: result_simps split: option.splits simp del: hex_val.simps)

lemma unat_byte_less: "unat (x :: byte) < 256"
  using unsigned_less [of x] by simp

lemma bytes_of_hex_of_bytes [simp]: "bytes_of_hex (hex_of_bytes b) = Inr b"
proof (induction b)
  case (Cons x b)
  have "unat x div 16 < 16" "unat x mod 16 < 16"
    using unat_byte_less [of x] by (auto simp: div_less_iff_less_mult)
  moreover have "(of_nat (16 * (unat x div 16) + unat x mod 16) :: byte) = x"
    by (simp only: mult_div_mod_eq) simp
  ultimately show ?case using Cons
    by (simp add: hex_val_digit del: hex_val.simps of_nat_add of_nat_mult)
qed simp

lemma inst_blake3_contract [simp]: "blake3_contract inst_crates"
  by (simp add: blake3_contract_def)

lemma inst_hex_contract [simp]: "hex_contract inst_crates"
  by (auto simp: hex_contract_def dest: bytes_of_hex_length)

end
