(* ===== verification/Merkle_Hash.thy ===== *)
theory Merkle_Hash
  imports Byte_Codec Crate_Instance
begin

text \<open>
  The 256-bit hash value of \<^verbatim>\<open>src/src/types/merkle_hash.rs\<close> and the keyed BLAKE3 hashes of
  \<^verbatim>\<open>src/src/hash/blake3_hash.rs\<close>. A hash is four 64-bit words; its byte form is their
  little-endian concatenation, and its text form is the hexadecimal of the byte form.
  The streaming hashers of \<^verbatim>\<open>src/src/util/streaming_hash.rs\<close> accumulate the input and hash
  it at the end.
\<close>

datatype merkle_hash = MerkleHash u64 u64 u64 u64

section \<open>Conversions\<close>

definition mh_new :: merkle_hash where
  "mh_new = MerkleHash 0 0 0 0"

definition mh_from_bytes :: "bytes \<Rightarrow> merkle_hash" where
  "mh_from_bytes b =
     MerkleHash (u64_from_le_bytes (take 8 b))
       (u64_from_le_bytes (take 8 (drop 8 b)))
       (u64_from_le_bytes (take 8 (drop 16 b)))
       (u64_from_le_bytes (take 8 (drop 24 b)))"

fun mh_as_bytes :: "merkle_hash \<Rightarrow> bytes" where
  "mh_as_bytes (MerkleHash a b c d) =
     u64_to_le_bytes a @ u64_to_le_bytes b @ u64_to_le_bytes c @ u64_to_le_bytes d"

definition mh_from_hex :: "crates \<Rightarrow> string \<Rightarrow> xet_error + merkle_hash" where
  "mh_from_hex C hex_str =
     (if length hex_str \<noteq> 64 then Inl (InvalidHashFormat ''Expected 64 hex chars'')
      else case hex_decode C hex_str of
             Inl _ \<Rightarrow> Inl (InvalidHashFormat ''Invalid hex'')
           | Inr b \<Rightarrow> if length b \<noteq> 32 then Inl (Panic ''copy_from_slice: length mismatch'')
                      else Inr (mh_from_bytes b))"

definition mh_to_hex :: "crates \<Rightarrow> merkle_hash \<Rightarrow> string" where
  "mh_to_hex C h = hex_encode C (mh_as_bytes h)"

fun mh_first_u64 :: "merkle_hash \<Rightarrow> u64" where
  "mh_first_u64 (MerkleHash a b c d) = a"

fun mh_rem :: "merkle_hash \<Rightarrow> u64 \<Rightarrow> u64" where
  "mh_rem (MerkleHash a b c d) rhs = a mod rhs"

text \<open>Reading a hash field of a binary record.\<close>

definition read_hash :: "merkle_hash reader" where
  "read_hash r = rbind (read_exact 32 r) (\<lambda>(buf, r). Inr (mh_from_bytes buf, r))"

section \<open>Keyed hashes\<close>

definition DATA_KEY :: bytes where
  "DATA_KEY =
     [102, 151, 245, 119, 91, 149, 80, 222, 49, 53, 203, 172, 165, 151, 24, 28, 157, 228, 33, 16,
      155, 235, 43, 88, 180, 208, 176, 75, 147, 173, 242, 41]"

definition INTERNAL_NODE_KEY :: bytes where
  "INTERNAL_NODE_KEY =
     [1, 126, 197, 199, 165, 71, 41, 150, 253, 148, 102, 102, 180, 138, 2, 230, 93, 221, 83, 111, 55,
      199, 109, 210, 248, 99, 82, 230, 74, 83, 113, 63]"

definition compute_data_hash :: "crates \<Rightarrow> bytes \<Rightarrow> merkle_hash" where
  "compute_data_hash C data = mh_from_bytes (keyed_hash C DATA_KEY data)"

definition compute_internal_node_hash :: "crates \<Rightarrow> bytes \<Rightarrow> merkle_hash" where
  "compute_internal_node_hash C data = mh_from_bytes (keyed_hash C INTERNAL_NODE_KEY data)"

definition hmac_hash :: "crates \<Rightarrow> merkle_hash \<Rightarrow> merkle_hash \<Rightarrow> merkle_hash" where
  "hmac_hash C key message = mh_from_bytes (keyed_hash C (mh_as_bytes key) (mh_as_bytes message))"

section \<open>Streaming hashers\<close>

text \<open>
  The incremental state of \<^verbatim>\<open>blake3::Hasher\<close> and \<^verbatim>\<open>Sha256\<close> is the input absorbed so far:
  the crates document that finalizing after a sequence of updates equals hashing the
  concatenated input.
\<close>

record streaming_hasher =
  absorbed :: bytes
  bytes_processed :: u64

definition sh_new :: streaming_hasher where
  "sh_new = \<lparr>absorbed = [], bytes_processed = 0\<rparr>"

definition sh_update :: "streaming_hasher \<Rightarrow> bytes \<Rightarrow> streaming_hasher" where
  "sh_update h data =
     h\<lparr>absorbed := absorbed h @ data, bytes_processed := bytes_processed h + of_nat (length data)\<rparr>"

definition sh_finalize :: "crates \<Rightarrow> streaming_hasher \<Rightarrow> merkle_hash" where
  "sh_finalize C h = mh_from_bytes (keyed_hash C DATA_KEY (absorbed h))"

definition dual_finalize :: "crates \<Rightarrow> streaming_hasher \<Rightarrow> string \<times> string" where
  "dual_finalize C h =
     (hex_encode C (keyed_hash C DATA_KEY (absorbed h)), hex_encode C (sha256 C (absorbed h)))"

section \<open>Facts\<close>

lemma mh_as_bytes_length [simp, codec_simps]: "length (mh_as_bytes h) = 32"
  by (cases h) simp

lemma mh_from_as_bytes [simp, codec_simps]: "mh_from_bytes (mh_as_bytes h) = h"
  by (cases h) (simp add: mh_from_bytes_def)

lemma mh_as_from_bytes: "length b = 32 \<Longrightarrow> mh_as_bytes (mh_from_bytes b) = b"
proof -
  assume "length b = 32"
  then have "drop 32 b = []" by simp
  then have "b = take 8 b @ take 8 (drop 8 b) @ take 8 (drop 16 b) @ take 8 (drop 24 b)"
    using append_take_drop_id [of 8 b] append_take_drop_id [of 8 "drop 8 b"]
      append_take_drop_id [of 8 "drop 16 b"] append_take_drop_id [of 8 "drop 24 b"]
    by (simp add: drop_drop_add)
  with \<open>length b = 32\<close> show ?thesis
    by (simp add: mh_from_bytes_def u64_to_from_le)
qed

lemma mh_as_bytes_inject [simp]: "mh_as_bytes g = mh_as_bytes h \<longleftrightarrow> g = h"
  by (metis mh_from_as_bytes)

lemma read_hash_append [codec_simps]: "read_hash (mh_as_bytes h @ rest) = Inr (h, rest)"
  by (simp add: read_hash_def codec_simps)

lemma read_hash_Inr [result_simps]:
  "read_hash bs = Inr (h, rest) \<longleftrightarrow>
     32 \<le> length bs \<and> h = mh_from_bytes (take 32 bs) \<and> rest = drop 32 bs"
  by (auto simp: read_hash_def result_simps)

lemma consumes_read_hash: "consumes 32 bs (read_hash bs)"
  by (simp add: consumes_def read_hash_def read_exact_def)

interpretation hash_codec: total_codec mh_as_bytes read_hash "\<lambda>_. True" 32
  by unfold_locales (auto simp: codec_simps result_simps)

interpretation hash_canon: canonical_codec mh_as_bytes read_hash "\<lambda>_. True" 32
  by unfold_locales (auto simp: read_hash_Inr mh_as_from_bytes)

lemma mh_to_hex_length: "hex_contract C \<Longrightarrow> length (mh_to_hex C h) = 64"
  by (simp add: mh_to_hex_def hex_contract_def)

lemma mh_to_hex_inject: "hex_contract C \<Longrightarrow> mh_to_hex C g = mh_to_hex C h \<longleftrightarrow> g = h"
  unfolding mh_to_hex_def hex_contract_def by (metis mh_as_bytes_inject sum.inject(2))

lemma sh_absorbed_foldl: "absorbed (foldl sh_update h ds) = absorbed h @ concat ds"
  by (induction ds arbitrary: h) (auto simp: sh_update_def)

lemma sh_finalize_foldl:
  "sh_finalize C (foldl sh_update sh_new blocks) = compute_data_hash C (concat blocks)"
  by (simp add: sh_finalize_def compute_data_hash_def sh_absorbed_foldl sh_new_def)

section \<open>Properties\<close>

text \<open>
  The byte form of a hash is a bijection between hash values and 32-byte arrays:
  \<open>as_bytes\<close> always yields 32 bytes, \<open>from_bytes\<close> undoes it, and \<open>as_bytes\<close> undoes
  \<open>from_bytes\<close> on every 32-byte array.
\<close>

theorem merkle_hash_bytes_bijection:
  "length (mh_as_bytes h) = 32 \<and> mh_from_bytes (mh_as_bytes h) = h \<and>
   (length b = 32 \<longrightarrow> mh_as_bytes (mh_from_bytes b) = b)"
  by (simp add: mh_as_from_bytes)

theorem merkle_hash_bytes_bijection_witness:
  "mh_as_bytes (mh_from_bytes (replicate 31 0 @ [7])) = replicate 31 0 @ [7]"
  using merkle_hash_bytes_bijection [of "MerkleHash 1 2 3 4" "replicate 31 0 @ [7]"] by simp

text \<open>
  Text round trip and error behaviour of \<open>from_hex\<close>: it accepts the text form of every
  hash and returns that hash, it rejects every text whose length is not 64, and it never
  reaches the panicking copy.
\<close>

theorem from_hex_to_hex:
  assumes "hex_contract C"
  shows "mh_from_hex C (mh_to_hex C h) = Inr h \<and>
    (length s \<noteq> 64 \<longrightarrow> mh_from_hex C s = Inl (InvalidHashFormat ''Expected 64 hex chars'')) \<and>
    mh_from_hex C s \<noteq> Inl (Panic m)"
proof -
  have "length b = 32" if "hex_decode C s = Inr b" "length s = 64" for b
    using assms that by (fastforce simp: hex_contract_def)
  then have "mh_from_hex C s \<noteq> Inl (Panic m)"
    by (auto simp: mh_from_hex_def split: sum.splits)
  moreover have "mh_from_hex C (mh_to_hex C h) = Inr h"
    using assms by (simp add: mh_from_hex_def mh_to_hex_def hex_contract_def)
  ultimately show ?thesis by (simp add: mh_from_hex_def)
qed

theorem from_hex_to_hex_witness:
  "mh_from_hex inst_crates (mh_to_hex inst_crates (MerkleHash 1 2 3 4)) = Inr (MerkleHash 1 2 3 4) \<and>
   mh_from_hex inst_crates ''abc'' = Inl (InvalidHashFormat ''Expected 64 hex chars'')"
  using from_hex_to_hex [OF inst_hex_contract, of "MerkleHash 1 2 3 4" "''abc''"] by simp

end
