(* ===== verification/Merkle_Tree.thy ===== *)
theory Merkle_Tree
  imports Merkle_Hash
begin

text \<open>
  The aggregated hash of \<^verbatim>\<open>src/src/hash/merkle_tree.rs\<close>: a list of (hash, size) nodes is cut
  into groups at content-defined points, each group is replaced by one node, and the
  levels collapse until one node is left. \<open>xorb_hash\<close> is the root, \<open>file_hash\<close> the root
  under a keyed hash with an all-zero salt.

  The lemmas show that the cut points partition every level into groups of at most nine
  nodes, that a level shrinks by a factor of three, and that the text hashed for a group
  determines the group, so that the root binds the whole chunk list.
\<close>

type_synonym node = "merkle_hash \<times> u64"

section \<open>Cutting a level into groups\<close>

definition MEAN_BRANCHING_FACTOR :: u64 where
  "MEAN_BRANCHING_FACTOR = 4"

definition MIN_GROUP_SIZE :: nat where
  "MIN_GROUP_SIZE = 2"

definition MAX_GROUP_SIZE :: nat where
  "MAX_GROUP_SIZE = 2 * unat MEAN_BRANCHING_FACTOR + 1"

definition is_natural_cut :: "merkle_hash \<Rightarrow> bool" where
  "is_natural_cut h \<longleftrightarrow> mh_rem h MEAN_BRANCHING_FACTOR = 0"

definition next_merge_cut :: "node list \<Rightarrow> nat" where
  "next_merge_cut hashes =
     (if length hashes \<le> MIN_GROUP_SIZE then length hashes
      else let e = min MAX_GROUP_SIZE (length hashes)
           in case find (\<lambda>i. is_natural_cut (fst (hashes ! i))) [MIN_GROUP_SIZE..<e] of
                Some i \<Rightarrow> i + 1
              | None \<Rightarrow> e)"

section \<open>Hashing a group\<close>

text \<open>\<^verbatim>\<open>u64::to_string\<close>, and the bytes of a string.\<close>

fun dec_string :: "nat \<Rightarrow> string" where
  "dec_string n =
     (if n < 10 then [char_of (48 + n)] else dec_string (n div 10) @ [char_of (48 + n mod 10)])"

declare dec_string.simps [simp del]

definition str_bytes :: "string \<Rightarrow> bytes" where
  "str_bytes s = map (\<lambda>c. of_nat (of_char c)) s"

definition merge_line :: "crates \<Rightarrow> node \<Rightarrow> string" where
  "merge_line C n = mh_to_hex C (fst n) @ '' : '' @ dec_string (unat (snd n)) @ [CHR 0x0A]"

definition merge_buf :: "crates \<Rightarrow> node list \<Rightarrow> string" where
  "merge_buf C hashes = concat (map (merge_line C) hashes)"

definition merged_hash_of_sequence :: "crates \<Rightarrow> node list \<Rightarrow> node" where
  "merged_hash_of_sequence C hashes =
     (compute_internal_node_hash C (str_bytes (merge_buf C hashes)), sum_list (map snd hashes))"

lemmas next_merge_cut_unfold =
  next_merge_cut_def MIN_GROUP_SIZE_def MAX_GROUP_SIZE_def MEAN_BRANCHING_FACTOR_def Let_def

lemma next_merge_cut_pos: "hashes \<noteq> [] \<Longrightarrow> 0 < next_merge_cut hashes"
  by (auto simp: next_merge_cut_unfold split: option.split)

section \<open>Levels and the root\<close>

function merge_level :: "crates \<Rightarrow> node list \<Rightarrow> node list" where
  "merge_level C nodes =
     (if nodes = [] then []
      else merged_hash_of_sequence C (take (next_merge_cut nodes) nodes)
             # merge_level C (drop (next_merge_cut nodes) nodes))"
  by pat_completeness auto
termination
  by (relation "measure (\<lambda>(C, nodes). length nodes)") (auto simp: next_merge_cut_pos)

function merge_groups :: "node list \<Rightarrow> node list list" where
  "merge_groups nodes =
     (if nodes = [] then []
      else take (next_merge_cut nodes) nodes # merge_groups (drop (next_merge_cut nodes) nodes))"
  by pat_completeness auto
termination
  by (relation "measure length") (auto simp: next_merge_cut_pos)

declare merge_level.simps [simp del] merge_groups.simps [simp del]

lemma cut_ge_3: "2 < length hashes \<Longrightarrow> 3 \<le> next_merge_cut hashes"
  by (auto simp: next_merge_cut_unfold find_upt_Some split: option.split)

lemma cut_small: "length hashes \<le> 2 \<Longrightarrow> next_merge_cut hashes = length hashes"
  by (simp add: next_merge_cut_def MIN_GROUP_SIZE_def)

lemma merge_groups_Nil [simp]: "merge_groups [] = []"
  by (simp add: merge_groups.simps)

lemma merge_level_groups: "merge_level C nodes = map (merged_hash_of_sequence C) (merge_groups nodes)"
proof (induction nodes rule: merge_groups.induct)
  case (1 nodes)
  then show ?case by (simp add: merge_level.simps [of C nodes] merge_groups.simps [of nodes])
qed

lemma merge_groups_small: "nodes \<noteq> [] \<Longrightarrow> length nodes \<le> 2 \<Longrightarrow> merge_groups nodes = [nodes]"
  by (simp add: merge_groups.simps [of nodes] cut_small)

lemma merge_groups_length: "3 * length (merge_groups nodes) \<le> length nodes + 2"
proof (induction nodes rule: merge_groups.induct)
  case (1 nodes)
  show ?case
  proof (cases "length nodes \<le> 2")
    case True
    then show ?thesis by (cases "nodes = []") (simp_all add: merge_groups_small Suc_le_eq)
  next
    case False
    let ?rest = "merge_groups (drop (next_merge_cut nodes) nodes)"
    from False have ne: "nodes \<noteq> []" and ge: "3 \<le> next_merge_cut nodes" by (auto intro: cut_ge_3)
    have "3 * length ?rest \<le> length nodes - next_merge_cut nodes + 2"
      using 1 ne by simp
    moreover have "length (merge_groups nodes) = Suc (length ?rest)"
      using ne by (simp add: merge_groups.simps [of nodes])
    ultimately show ?thesis using ge False by arith
  qed
qed

lemma merge_level_length: "3 * length (merge_level C nodes) \<le> length nodes + 2"
  using merge_groups_length [of nodes] by (simp add: merge_level_groups)

lemma merge_level_less: "Suc 0 < length nodes \<Longrightarrow> length (merge_level C nodes) < length nodes"
  using merge_level_length [of C nodes] by arith

text \<open>The while loop of \<open>aggregated_node_hash\<close>; \<^verbatim>\<open>nodes[0].0\<close> is read with one node left.\<close>

function collapse_nodes :: "crates \<Rightarrow> node list \<Rightarrow> merkle_hash" where
  "collapse_nodes C nodes =
     (if 1 < length nodes then collapse_nodes C (merge_level C nodes)
      else case nodes of [] \<Rightarrow> mh_new | n # _ \<Rightarrow> fst n)"
  by pat_completeness auto
termination
  by (relation "measure (\<lambda>(C, nodes). length nodes)") (auto simp: merge_level_less)

declare collapse_nodes.simps [simp del]

definition aggregated_node_hash :: "crates \<Rightarrow> node list \<Rightarrow> merkle_hash" where
  "aggregated_node_hash C chunks = (if chunks = [] then mh_new else collapse_nodes C chunks)"

definition xorb_hash :: "crates \<Rightarrow> node list \<Rightarrow> merkle_hash" where
  "xorb_hash C chunks = aggregated_node_hash C chunks"

definition file_hash :: "crates \<Rightarrow> node list \<Rightarrow> merkle_hash" where
  "file_hash C chunks =
     (if chunks = [] then mh_new else hmac_hash C mh_new (aggregated_node_hash C chunks))"

definition file_hash_with_salt :: "crates \<Rightarrow> node list \<Rightarrow> merkle_hash \<Rightarrow> merkle_hash" where
  "file_hash_with_salt C chunks salt =
     (if chunks = [] then mh_new else hmac_hash C salt (aggregated_node_hash C chunks))"

text \<open>How many levels the loop collapses, and every text it hashes on the way.\<close>

function merge_rounds :: "crates \<Rightarrow> node list \<Rightarrow> nat" where
  "merge_rounds C nodes = (if 1 < length nodes then Suc (merge_rounds C (merge_level C nodes)) else 0)"
  by pat_completeness auto
termination
  by (relation "measure (\<lambda>(C, nodes). length nodes)") (auto simp: merge_level_less)

function merge_inputs :: "crates \<Rightarrow> node list \<Rightarrow> bytes list" where
  "merge_inputs C nodes =
     (if 1 < length nodes
      then map (\<lambda>g. str_bytes (merge_buf C g)) (merge_groups nodes) @ merge_inputs C (merge_level C nodes)
      else [])"
  by pat_completeness auto
termination
  by (relation "measure (\<lambda>(C, nodes). length nodes)") (auto simp: merge_level_less)

declare merge_rounds.simps [simp del] merge_inputs.simps [simp del]

section \<open>Facts about groups\<close>

lemma cut_le: "next_merge_cut hashes \<le> length hashes"
  by (auto simp: next_merge_cut_unfold find_upt_Some split: option.split)

lemma cut_le_9: "next_merge_cut hashes \<le> 9"
  by (auto simp: next_merge_cut_unfold find_upt_Some split: option.split)

lemma cut_natural:
  assumes "next_merge_cut hashes < length hashes" and "next_merge_cut hashes < 9"
  shows "is_natural_cut (fst (hashes ! (next_merge_cut hashes - 1)))"
proof -
  from assms have len: "\<not> length hashes \<le> 2" using cut_small [of hashes] by auto
  show ?thesis
  proof (cases "find (\<lambda>i. is_natural_cut (fst (hashes ! i))) [2..<min 9 (length hashes)]")
    case None
    with assms len show ?thesis by (simp add: next_merge_cut_unfold)
  next
    case (Some i)
    then have "is_natural_cut (fst (hashes ! i))" by (simp add: find_upt_Some)
    with Some len show ?thesis by (simp add: next_merge_cut_unfold)
  qed
qed

lemma cut_first:
  assumes "2 \<le> j" and "Suc j < next_merge_cut hashes"
  shows "\<not> is_natural_cut (fst (hashes ! j))"
  using assms
  by (auto simp: next_merge_cut_unfold find_upt_Some find_upt_None split: if_splits option.splits)

lemma concat_merge_groups: "concat (merge_groups nodes) = nodes"
proof (induction nodes rule: merge_groups.induct)
  case (1 nodes)
  then show ?case by (cases "nodes = []") (simp_all add: merge_groups.simps [of nodes])
qed

lemma merge_groups_eq_Nil [simp]: "merge_groups nodes = [] \<longleftrightarrow> nodes = []"
  using concat_merge_groups [of nodes] by auto

lemma merge_groups_elem:
  "g \<in> set (merge_groups nodes) \<Longrightarrow> g \<noteq> [] \<and> length g \<le> 9"
proof (induction nodes rule: merge_groups.induct)
  case (1 nodes)
  then show ?case
    using cut_le_9 [of nodes] next_merge_cut_pos [of nodes]
    by (cases "nodes = []") (auto simp: merge_groups.simps [of nodes] min_def)
qed

lemma merge_groups_butlast:
  "g \<in> set (butlast (merge_groups nodes)) \<Longrightarrow>
     3 \<le> length g \<and> (length g = 9 \<or> is_natural_cut (fst (last g))) \<and>
     (\<forall>j. 2 \<le> j \<and> Suc j < length g \<longrightarrow> \<not> is_natural_cut (fst (g ! j)))"
proof (induction nodes rule: merge_groups.induct)
  case (1 nodes)
  let ?k = "next_merge_cut nodes" and ?rest = "merge_groups (drop (next_merge_cut nodes) nodes)"
  from "1.prems" have ne: "nodes \<noteq> []" by (auto simp: merge_groups.simps [of nodes])
  have eq: "merge_groups nodes = take ?k nodes # ?rest"
    using ne by (simp add: merge_groups.simps [of nodes])
  show ?case
  proof (cases "g \<in> set (butlast ?rest)")
    case True
    with "1.IH" ne show ?thesis by blast
  next
    case False
    with "1.prems" eq have g: "g = take ?k nodes" and "?rest \<noteq> []" by (auto split: if_splits)
    then have less: "?k < length nodes" by simp
    then have len: "length g = ?k" using g by simp
    have "3 \<le> ?k" using less cut_small [of nodes] by (intro cut_ge_3) (rule ccontr, simp)
    moreover have "last g = nodes ! (?k - 1)"
      using g less \<open>3 \<le> ?k\<close> len last_conv_nth [of g] by force
    moreover have "?k = 9 \<or> is_natural_cut (fst (nodes ! (?k - 1)))"
      using cut_natural [OF less] cut_le_9 [of nodes] by linarith
    ultimately show ?thesis using g len cut_first [of _ nodes] by auto
  qed
qed

section \<open>The hashed text determines the group\<close>

fun dec_val :: "string \<Rightarrow> nat" where
  "dec_val s = foldl (\<lambda>v c. 10 * v + (of_char c - 48)) 0 s"

lemma dec_val_dec_string: "dec_val (dec_string n) = n"
proof (induction n rule: dec_string.induct)
  case (1 n)
  then show ?case by (subst dec_string.simps) (auto simp: of_char_of)
qed

lemma dec_string_inject: "dec_string m = dec_string n \<longleftrightarrow> m = n"
  by (metis dec_val_dec_string)

lemma dec_string_no_newline: "CHR 0x0A \<notin> set (dec_string n)"
proof (induction n rule: dec_string.induct)
  case (1 n)
  have ne: "CHR 0x0A \<noteq> char_of (48 + d)" if "d < 10" for d :: nat
  proof
    assume "CHR 0x0A = char_of (48 + d)"
    then have "(of_char (CHR 0x0A) :: nat) = of_char (char_of (48 + d) :: char)" by (rule arg_cong)
    with that show False by (simp add: of_char_of)
  qed
  show ?case
  proof (cases "n < 10")
    case True
    with ne [of n] show ?thesis unfolding dec_string.simps [of n] by (auto simp del: char_of_eq_iff)
  next
    case False
    with ne [of "n mod 10"] 1 show ?thesis
      unfolding dec_string.simps [of n] by (auto simp del: char_of_eq_iff)
  qed
qed

lemma str_bytes_inject: "str_bytes s = str_bytes t \<longleftrightarrow> s = t"
proof -
  have "inj (\<lambda>c. of_nat (of_char c) :: byte)"
  proof (rule injI)
    fix c d :: char
    assume "(of_nat (of_char c) :: byte) = of_nat (of_char d)"
    then have "unat (of_nat (of_char c) :: byte) = unat (of_nat (of_char d) :: byte)" by simp
    then show "c = d" by (simp add: unat_of_nat)
  qed
  then show ?thesis by (auto simp: str_bytes_def inj_map_eq_map)
qed

lemma append_newline_inject:
  "nl \<notin> set xs \<Longrightarrow> nl \<notin> set ys \<Longrightarrow> xs @ nl # us = ys @ nl # vs \<longleftrightarrow> xs = ys \<and> us = vs"
proof (induction xs arbitrary: ys)
  case Nil
  then show ?case by (cases ys) auto
next
  case (Cons x xs)
  then show ?case by (cases ys) auto
qed

lemma merge_line_inject:
  assumes "hex_contract C"
  shows "merge_line C m @ us = merge_line C n @ vs \<longleftrightarrow> m = n \<and> us = vs"
proof -
  have "mh_to_hex C (fst m) @ xs = mh_to_hex C (fst n) @ ys \<longleftrightarrow> fst m = fst n \<and> xs = ys" for xs ys
    using assms by (simp add: append_eq_append_conv mh_to_hex_length mh_to_hex_inject)
  then show ?thesis
    by (auto simp: merge_line_def append_newline_inject dec_string_no_newline dec_string_inject
        prod_eq_iff word_unat_eq_iff)
qed

lemma merge_line_ne_Nil: "merge_line C n \<noteq> []"
  by (simp add: merge_line_def)

lemma merge_buf_inject:
  assumes "hex_contract C"
  shows "merge_buf C g = merge_buf C h \<longleftrightarrow> g = h"
proof (induction g arbitrary: h)
  case Nil
  then show ?case by (cases h) (auto simp: merge_buf_def merge_line_ne_Nil)
next
  case (Cons n g)
  then show ?case
    by (cases h) (auto simp: merge_buf_def merge_line_inject [OF assms] merge_line_ne_Nil)
qed


section \<open>The root binds the list\<close>

text \<open>The messages a hash tree hashes determine the next level down.\<close>

lemma mh_from_bytes_inject: "length a = 32 \<Longrightarrow> length b = 32 \<Longrightarrow> mh_from_bytes a = mh_from_bytes b \<longleftrightarrow> a = b"
  by (metis mh_as_from_bytes)

definition no_collision :: "crates \<Rightarrow> bytes list \<Rightarrow> bool" where
  "no_collision C ms \<longleftrightarrow>
     (\<forall>a\<in>set ms. \<forall>b\<in>set ms. keyed_hash C INTERNAL_NODE_KEY a = keyed_hash C INTERNAL_NODE_KEY b \<longrightarrow> a = b)"

lemma no_collision_mono: "no_collision C ms \<Longrightarrow> set ms' \<subseteq> set ms \<Longrightarrow> no_collision C ms'"
  by (auto simp: no_collision_def)

lemma map_inj_on_eq:
  "map f xs = map f ys \<Longrightarrow> (\<And>x y. x \<in> set xs \<Longrightarrow> y \<in> set ys \<Longrightarrow> f x = f y \<Longrightarrow> x = y) \<Longrightarrow> xs = ys"
proof (induction xs arbitrary: ys)
  case (Cons x xs)
  then obtain y ys' where "ys = y # ys'" by auto
  with Cons.prems show ?case by (auto intro!: Cons.IH)
qed simp

lemma merged_hash_binds:
  assumes "blake3_contract C" "hex_contract C"
    and "no_collision C ms" "str_bytes (merge_buf C g) \<in> set ms" "str_bytes (merge_buf C h) \<in> set ms"
    and "fst (merged_hash_of_sequence C g) = fst (merged_hash_of_sequence C h)"
  shows "g = h"
proof -
  have "str_bytes (merge_buf C g) = str_bytes (merge_buf C h)"
    using assms
    by (auto simp: merged_hash_of_sequence_def compute_internal_node_hash_def mh_from_bytes_inject
        blake3_contract_def no_collision_def)
  then show ?thesis using assms(2) by (simp add: str_bytes_inject merge_buf_inject)
qed

lemma merge_level_binds:
  assumes "blake3_contract C" "hex_contract C" "no_collision C ms"
    and "\<forall>g\<in>set (merge_groups xs). str_bytes (merge_buf C g) \<in> set ms"
    and "\<forall>g\<in>set (merge_groups ys). str_bytes (merge_buf C g) \<in> set ms"
    and "map fst (merge_level C xs) = map fst (merge_level C ys)"
  shows "xs = ys"
proof -
  have "merge_groups xs = merge_groups ys"
    by (rule map_inj_on_eq [of "\<lambda>g. fst (merged_hash_of_sequence C g)"])
       (use assms merged_hash_binds in \<open>auto simp: merge_level_groups o_def\<close>)
  then show ?thesis by (metis concat_merge_groups)
qed

lemma merge_inputs_step:
  "1 < length nodes \<Longrightarrow>
     merge_inputs C nodes =
       map (\<lambda>g. str_bytes (merge_buf C g)) (merge_groups nodes) @ merge_inputs C (merge_level C nodes)"
  by (subst merge_inputs.simps) simp

lemma merge_rounds_pos: "merge_rounds C nodes = Suc r \<longleftrightarrow> 1 < length nodes \<and> merge_rounds C (merge_level C nodes) = r"
  by (subst merge_rounds.simps) auto

lemma merge_rounds_0: "merge_rounds C nodes = 0 \<longleftrightarrow> length nodes \<le> 1"
  by (subst merge_rounds.simps) auto

lemma merge_level_ne_Nil [simp]: "merge_level C nodes = [] \<longleftrightarrow> nodes = []"
  by (simp add: merge_level_groups)

lemma collapse_step: "1 < length nodes \<Longrightarrow> collapse_nodes C nodes = collapse_nodes C (merge_level C nodes)"
  by (subst collapse_nodes.simps) simp

lemma collapse_single: "collapse_nodes C [n] = fst n"
  by (subst collapse_nodes.simps) simp

text \<open>With equal round counts the roots agree only when the hash columns agree level by level.\<close>

lemma collapse_binds:
  assumes "blake3_contract C" "hex_contract C"
  shows "no_collision C (merge_inputs C xs @ merge_inputs C ys) \<Longrightarrow>
     merge_rounds C xs = r \<Longrightarrow> merge_rounds C ys = r \<Longrightarrow> xs \<noteq> [] \<Longrightarrow> ys \<noteq> [] \<Longrightarrow>
     collapse_nodes C xs = collapse_nodes C ys \<Longrightarrow> map fst xs = map fst ys"
proof (induction r arbitrary: xs ys)
  case 0
  then have "length xs = 1" "length ys = 1" by (auto simp: merge_rounds_0 le_Suc_eq)
  with "0.prems" show ?case by (auto simp: length_Suc_conv collapse_single)
next
  case (Suc r)
  let ?ms = "merge_inputs C xs @ merge_inputs C ys"
  from Suc.prems have len: "1 < length xs" "1 < length ys" by (simp_all add: merge_rounds_pos)
  have "map fst (merge_level C xs) = map fst (merge_level C ys)"
  proof (rule Suc.IH)
    show "no_collision C (merge_inputs C (merge_level C xs) @ merge_inputs C (merge_level C ys))"
      using Suc.prems(1) by (rule no_collision_mono) (auto simp: merge_inputs_step [OF len(1)] merge_inputs_step [OF len(2)])
  qed (use Suc.prems len in \<open>auto simp: merge_rounds_pos collapse_step\<close>)
  then have "xs = ys"
    by (intro merge_level_binds [OF assms Suc.prems(1)])
       (auto simp: merge_inputs_step [OF len(1)] merge_inputs_step [OF len(2)])
  then show ?case by simp
qed

lemma merge_rounds_log: "length nodes \<le> 3 ^ r \<Longrightarrow> merge_rounds C nodes \<le> r"
proof (induction r arbitrary: nodes)
  case (Suc r)
  show ?case
  proof (cases "merge_rounds C nodes")
    case k: (Suc k)
    have "length (merge_level C nodes) \<le> 3 ^ r"
      using merge_level_length [of C nodes] Suc.prems by simp
    moreover have "merge_rounds C (merge_level C nodes) = k" using k by (simp add: merge_rounds_pos)
    ultimately show ?thesis using k Suc.IH [of "merge_level C nodes"] by simp
  qed simp
qed (simp add: merge_rounds_0)

section \<open>Properties\<close>

text \<open>
  Grouping a level: the groups are consecutive and together are exactly the level, in
  order; every group is non-empty and has at most nine nodes; every group but the last
  has at least three nodes, ends at the first hash from position two on that is divisible
  by the branching factor, or is a full group of nine without such a hash before its end.
\<close>

theorem merge_groups_partition:
  "concat (merge_groups nodes) = nodes \<and>
   (\<forall>g\<in>set (merge_groups nodes). g \<noteq> [] \<and> length g \<le> MAX_GROUP_SIZE) \<and>
   (\<forall>g\<in>set (butlast (merge_groups nodes)). 3 \<le> length g \<and>
      (length g = MAX_GROUP_SIZE \<or> is_natural_cut (fst (last g))) \<and>
      (\<forall>j. MIN_GROUP_SIZE \<le> j \<and> Suc j < length g \<longrightarrow> \<not> is_natural_cut (fst (g ! j)))) \<and>
   merge_level C nodes = map (merged_hash_of_sequence C) (merge_groups nodes)"
proof -
  have "MAX_GROUP_SIZE = 9" "MIN_GROUP_SIZE = 2"
    by (simp_all add: MAX_GROUP_SIZE_def MIN_GROUP_SIZE_def MEAN_BRANCHING_FACTOR_def)
  then show ?thesis
    using concat_merge_groups merge_groups_elem merge_groups_butlast merge_level_groups by simp
qed

theorem merge_groups_partition_witness:
  "concat (merge_groups (replicate 12 (MerkleHash 1 0 0 0, 5))) = replicate 12 (MerkleHash 1 0 0 0, 5) \<and>
   list_all (\<lambda>g. g \<noteq> [] \<and> length g \<le> 9) (merge_groups (replicate 12 (MerkleHash 1 0 0 0, 5)))"
  using merge_groups_partition [of "replicate 12 (MerkleHash 1 0 0 0, 5)"]
  by (simp add: MAX_GROUP_SIZE_def MEAN_BRANCHING_FACTOR_def list_all_iff)

text \<open>
  The tree is shallow: a list of at most \<open>3 ^ r\<close> nodes collapses to its root in at most
  \<open>r\<close> levels, because every level has at most a third (rounded up) of the nodes below it.
\<close>

theorem tree_depth_logarithmic:
  "3 * length (merge_level C nodes) \<le> length nodes + 2 \<and>
   (length nodes \<le> 3 ^ r \<longrightarrow> merge_rounds C nodes \<le> r)"
  using merge_level_length merge_rounds_log by blast

theorem tree_depth_logarithmic_witness:
  "merge_rounds inst_crates (replicate 27 (MerkleHash 1 0 0 0, 5)) \<le> 3"
  using tree_depth_logarithmic [of inst_crates "replicate 27 (MerkleHash 1 0 0 0, 5)" 3] by simp

text \<open>
  The root binds the chunk list. Two lists of at least two chunks that collapse in the
  same number of levels and have the same \<open>xorb_hash\<close> are equal, hashes and sizes, unless
  two different texts hashed while building one of the two trees collide under the internal
  node key.
\<close>

theorem xorb_hash_binds_chunks:
  assumes "blake3_contract C" "hex_contract C"
    and "1 < length xs" "1 < length ys" "merge_rounds C xs = merge_rounds C ys"
    and "no_collision C (merge_inputs C xs @ merge_inputs C ys)"
    and "xorb_hash C xs = xorb_hash C ys"
  shows "xs = ys"
proof -
  have ne: "xs \<noteq> []" "ys \<noteq> []" using assms(3,4) by auto
  have "map fst (merge_level C xs) = map fst (merge_level C ys)"
  proof (rule collapse_binds [OF assms(1,2)])
    show "no_collision C (merge_inputs C (merge_level C xs) @ merge_inputs C (merge_level C ys))"
      using assms(6) by (rule no_collision_mono)
        (auto simp: merge_inputs_step [OF assms(3)] merge_inputs_step [OF assms(4)])
    show "merge_rounds C (merge_level C xs) = merge_rounds C xs - 1"
      using assms(3) merge_rounds_pos [of C xs] by (simp add: merge_rounds.simps [of C xs])
    show "merge_rounds C (merge_level C ys) = merge_rounds C xs - 1"
      using assms(4,5) by (simp add: merge_rounds.simps [of C ys])
  qed (use ne assms(3,4,7) in \<open>simp_all add: xorb_hash_def aggregated_node_hash_def collapse_step\<close>)
  then show ?thesis
    by (intro merge_level_binds [OF assms(1,2,6)])
       (auto simp: merge_inputs_step [OF assms(3)] merge_inputs_step [OF assms(4)])
qed

lemma pair_groups: "merge_groups [a, b] = [[a, b]]"
  by (simp add: merge_groups_small)

lemma pair_merge_facts:
  "merge_rounds C [a, b] = 1" "merge_inputs C [a, b] = [str_bytes (merge_buf C [a, b])]"
  "xorb_hash C [a, b] = compute_internal_node_hash C (str_bytes (merge_buf C [a, b]))"
  by (simp_all add: merge_rounds.simps merge_inputs.simps merge_level_groups pair_groups
      xorb_hash_def aggregated_node_hash_def collapse_nodes.simps merged_hash_of_sequence_def)

lemma pair_no_collision:
  "no_collision inst_crates
     [str_bytes (merge_buf inst_crates [(MerkleHash 1 0 0 0, 5), (MerkleHash 3 0 0 0, 6)]),
      str_bytes (merge_buf inst_crates [(MerkleHash 2 0 0 0, 5), (MerkleHash 3 0 0 0, 6)])]"
  by code_simp

theorem xorb_hash_binds_chunks_witness:
  "xorb_hash inst_crates [(MerkleHash 1 0 0 0, 5), (MerkleHash 3 0 0 0, 6)] \<noteq>
   xorb_hash inst_crates [(MerkleHash 2 0 0 0, 5), (MerkleHash 3 0 0 0, 6)]"
proof
  assume "xorb_hash inst_crates [(MerkleHash 1 0 0 0, 5), (MerkleHash 3 0 0 0, 6)] =
    xorb_hash inst_crates [(MerkleHash 2 0 0 0, 5), (MerkleHash 3 0 0 0, 6)]"
  then have "[(MerkleHash 1 0 0 0, 5 :: u64), (MerkleHash 3 0 0 0, 6)] =
    [(MerkleHash 2 0 0 0, 5), (MerkleHash 3 0 0 0, 6)]"
    by (intro xorb_hash_binds_chunks [of inst_crates])
       (use pair_no_collision in \<open>simp_all add: pair_merge_facts(1,2)\<close>)
  then show False by simp
qed

text \<open>
  An empty list has the all-zero root, a single chunk is its own root (its size does
  not enter), and the file hash is the keyed hash of the root under the salt.
\<close>

lemma hash_of_trivial_lists:
  "xorb_hash C [] = mh_new" "file_hash C [] = mh_new"
  "xorb_hash C [(h, sz)] = h" "file_hash C [(h, sz)] = hmac_hash C mh_new h"
  "file_hash C chunks = file_hash_with_salt C chunks mh_new"
  by (simp_all add: xorb_hash_def file_hash_def file_hash_with_salt_def aggregated_node_hash_def
      collapse_single)

end
