(* ===== verification/Shard_Format.thy ===== *)
theory Shard_Format
  imports Merkle_Tree
begin

text \<open>
  The shard file of \<^verbatim>\<open>src/src/format/shard.rs\<close>: its fixed-width records, the footer with the
  section offsets, and the parser that walks the sections and insists that they account for
  every byte between the header and the footer. \<open>Read + Seek\<close> over a file or a buffer is the
  byte list with an explicit position; offsets and lengths are natural numbers with the
  checked \<open>u64\<close> arithmetic written out.

  Every record interprets the interface \<open>total_codec\<close>. The lemmas give the round trip of the
  sections and show that an accepted shard is tiled by its sections.
\<close>

section \<open>Records\<close>

definition SHARD_HEADER_SIZE :: nat where "SHARD_HEADER_SIZE = 48"
definition SHARD_FOOTER_SIZE :: nat where "SHARD_FOOTER_SIZE = 208"
definition SEQUENCE_HEADER_SIZE :: nat where "SEQUENCE_HEADER_SIZE = 48"
definition SEQUENCE_ENTRY_SIZE :: nat where "SEQUENCE_ENTRY_SIZE = 48"
definition CHUNK_LOOKUP_ENTRY_SIZE :: nat where "CHUNK_LOOKUP_ENTRY_SIZE = 68"

lemmas shard_sizes =
  SHARD_HEADER_SIZE_def SHARD_FOOTER_SIZE_def SEQUENCE_HEADER_SIZE_def SEQUENCE_ENTRY_SIZE_def
  CHUNK_LOOKUP_ENTRY_SIZE_def

record MDBShardFileHeader =
  sh_tag :: bytes
  sh_version :: u64
  sh_footer_size :: u64

definition shard_header_default :: MDBShardFileHeader where
  "shard_header_default =
     \<lparr>sh_tag = [72, 70, 82, 101, 112, 111, 77, 101, 116, 97, 68, 97, 116, 97, 0, 85, 105, 103, 69,
                106, 123, 129, 87, 131, 165, 189, 217, 92, 205, 209, 74, 169],
      sh_version = 2, sh_footer_size = 208\<rparr>"

definition shard_header_serialize :: "MDBShardFileHeader \<Rightarrow> bytes" where
  "shard_header_serialize h = sh_tag h @ u64_to_le_bytes (sh_version h) @ u64_to_le_bytes (sh_footer_size h)"

definition shard_header_deserialize :: "MDBShardFileHeader reader" where
  "shard_header_deserialize r =
     rbind (read_exact 32 r) (\<lambda>(tag, r).
     rbind (read_u64_le r) (\<lambda>(version, r).
     rbind (read_u64_le r) (\<lambda>(footer_size, r).
     Inr (\<lparr>sh_tag = tag, sh_version = version, sh_footer_size = footer_size\<rparr>, r))))"

record MDBShardFileFooter =
  sf_version :: u64
  file_info_offset :: u64
  xorb_info_offset :: u64
  file_lookup_offset :: u64
  file_lookup_num_entry :: u64
  xorb_lookup_offset :: u64
  xorb_lookup_num_entry :: u64
  chunk_lookup_offset :: u64
  chunk_lookup_num_entry :: u64
  chunk_hash_hmac_key :: bytes
  shard_creation_timestamp :: u64
  shard_key_expiry :: u64
  stored_bytes_on_disk :: u64
  materialized_bytes :: u64
  stored_bytes :: u64
  footer_offset :: u64

definition shard_footer_serialize :: "MDBShardFileFooter \<Rightarrow> bytes" where
  "shard_footer_serialize f =
     u64_to_le_bytes (sf_version f) @ u64_to_le_bytes (file_info_offset f) @
     u64_to_le_bytes (xorb_info_offset f) @ u64_to_le_bytes (file_lookup_offset f) @
     u64_to_le_bytes (file_lookup_num_entry f) @ u64_to_le_bytes (xorb_lookup_offset f) @
     u64_to_le_bytes (xorb_lookup_num_entry f) @ u64_to_le_bytes (chunk_lookup_offset f) @
     u64_to_le_bytes (chunk_lookup_num_entry f) @ chunk_hash_hmac_key f @
     u64_to_le_bytes (shard_creation_timestamp f) @ u64_to_le_bytes (shard_key_expiry f) @
     replicate 56 0 @
     u64_to_le_bytes (stored_bytes_on_disk f) @ u64_to_le_bytes (materialized_bytes f) @
     u64_to_le_bytes (stored_bytes f) @ u64_to_le_bytes (footer_offset f)"

definition shard_footer_deserialize :: "MDBShardFileFooter reader" where
  "shard_footer_deserialize r =
     rbind (read_u64_le r) (\<lambda>(version, r).
     rbind (read_u64_le r) (\<lambda>(file_info, r).
     rbind (read_u64_le r) (\<lambda>(xorb_info, r).
     rbind (read_u64_le r) (\<lambda>(file_lookup, r).
     rbind (read_u64_le r) (\<lambda>(file_lookup_num, r).
     rbind (read_u64_le r) (\<lambda>(xorb_lookup, r).
     rbind (read_u64_le r) (\<lambda>(xorb_lookup_num, r).
     rbind (read_u64_le r) (\<lambda>(chunk_lookup, r).
     rbind (read_u64_le r) (\<lambda>(chunk_lookup_num, r).
     rbind (read_exact 32 r) (\<lambda>(hmac_key, r).
     rbind (read_u64_le r) (\<lambda>(creation, r).
     rbind (read_u64_le r) (\<lambda>(expiry, r).
     rbind (read_exact 56 r) (\<lambda>(_, r).
     rbind (read_u64_le r) (\<lambda>(on_disk, r).
     rbind (read_u64_le r) (\<lambda>(materialized, r).
     rbind (read_u64_le r) (\<lambda>(stored, r).
     rbind (read_u64_le r) (\<lambda>(offset, r).
     Inr (\<lparr>sf_version = version, file_info_offset = file_info, xorb_info_offset = xorb_info,
           file_lookup_offset = file_lookup, file_lookup_num_entry = file_lookup_num,
           xorb_lookup_offset = xorb_lookup, xorb_lookup_num_entry = xorb_lookup_num,
           chunk_lookup_offset = chunk_lookup, chunk_lookup_num_entry = chunk_lookup_num,
           chunk_hash_hmac_key = hmac_key, shard_creation_timestamp = creation, shard_key_expiry = expiry,
           stored_bytes_on_disk = on_disk, materialized_bytes = materialized, stored_bytes = stored,
           footer_offset = offset\<rparr>, r))))))))))))))))))"

record FileDataSequenceHeader =
  fh_file_hash :: merkle_hash
  fh_file_flags :: u32
  fh_num_entries :: u32

definition file_header_serialize :: "FileDataSequenceHeader \<Rightarrow> bytes" where
  "file_header_serialize h =
     mh_as_bytes (fh_file_hash h) @ u32_to_le_bytes (fh_file_flags h) @ u32_to_le_bytes (fh_num_entries h) @
     replicate 8 0"

definition file_header_deserialize :: "FileDataSequenceHeader reader" where
  "file_header_deserialize r =
     rbind (read_hash r) (\<lambda>(hash, r).
     rbind (read_u32_le r) (\<lambda>(flags, r).
     rbind (read_u32_le r) (\<lambda>(num, r).
     rbind (read_exact 8 r) (\<lambda>(_, r).
     Inr (\<lparr>fh_file_hash = hash, fh_file_flags = flags, fh_num_entries = num\<rparr>, r)))))"

record FileDataSequenceEntry =
  fe_xorb_hash :: merkle_hash
  fe_xorb_flags :: u32
  fe_unpacked_segment_bytes :: u32
  fe_chunk_index_start :: u32
  fe_chunk_index_end :: u32

definition file_entry_serialize :: "FileDataSequenceEntry \<Rightarrow> bytes" where
  "file_entry_serialize e =
     mh_as_bytes (fe_xorb_hash e) @ u32_to_le_bytes (fe_xorb_flags e) @
     u32_to_le_bytes (fe_unpacked_segment_bytes e) @ u32_to_le_bytes (fe_chunk_index_start e) @
     u32_to_le_bytes (fe_chunk_index_end e)"

definition file_entry_deserialize :: "FileDataSequenceEntry reader" where
  "file_entry_deserialize r =
     rbind (read_hash r) (\<lambda>(hash, r).
     rbind (read_u32_le r) (\<lambda>(flags, r).
     rbind (read_u32_le r) (\<lambda>(unpacked, r).
     rbind (read_u32_le r) (\<lambda>(cis, r).
     rbind (read_u32_le r) (\<lambda>(cie, r).
     Inr (\<lparr>fe_xorb_hash = hash, fe_xorb_flags = flags, fe_unpacked_segment_bytes = unpacked,
           fe_chunk_index_start = cis, fe_chunk_index_end = cie\<rparr>, r))))))"

record XorbChunkSequenceHeader =
  xh_xorb_hash :: merkle_hash
  xh_xorb_flags :: u32
  xh_num_entries :: u32
  xh_num_bytes_in_xorb :: u32
  xh_num_bytes_on_disk :: u32

definition xorb_header_serialize :: "XorbChunkSequenceHeader \<Rightarrow> bytes" where
  "xorb_header_serialize h =
     mh_as_bytes (xh_xorb_hash h) @ u32_to_le_bytes (xh_xorb_flags h) @ u32_to_le_bytes (xh_num_entries h) @
     u32_to_le_bytes (xh_num_bytes_in_xorb h) @ u32_to_le_bytes (xh_num_bytes_on_disk h)"

definition xorb_header_deserialize :: "XorbChunkSequenceHeader reader" where
  "xorb_header_deserialize r =
     rbind (read_hash r) (\<lambda>(hash, r).
     rbind (read_u32_le r) (\<lambda>(flags, r).
     rbind (read_u32_le r) (\<lambda>(num, r).
     rbind (read_u32_le r) (\<lambda>(in_xorb, r).
     rbind (read_u32_le r) (\<lambda>(on_disk, r).
     Inr (\<lparr>xh_xorb_hash = hash, xh_xorb_flags = flags, xh_num_entries = num,
           xh_num_bytes_in_xorb = in_xorb, xh_num_bytes_on_disk = on_disk\<rparr>, r))))))"

record XorbChunkSequenceEntry =
  xe_chunk_hash :: merkle_hash
  xe_chunk_byte_range_start :: u32
  xe_unpacked_segment_bytes :: u32
  xe_flags :: u32

definition xorb_entry_serialize :: "XorbChunkSequenceEntry \<Rightarrow> bytes" where
  "xorb_entry_serialize e =
     mh_as_bytes (xe_chunk_hash e) @ u32_to_le_bytes (xe_chunk_byte_range_start e) @
     u32_to_le_bytes (xe_unpacked_segment_bytes e) @ u32_to_le_bytes (xe_flags e) @ replicate 4 0"

definition xorb_entry_deserialize :: "XorbChunkSequenceEntry reader" where
  "xorb_entry_deserialize r =
     rbind (read_hash r) (\<lambda>(hash, r).
     rbind (read_u32_le r) (\<lambda>(start, r).
     rbind (read_u32_le r) (\<lambda>(unpacked, r).
     rbind (read_u32_le r) (\<lambda>(flags, r).
     rbind (read_exact 4 r) (\<lambda>(_, r).
     Inr (\<lparr>xe_chunk_hash = hash, xe_chunk_byte_range_start = start, xe_unpacked_segment_bytes = unpacked,
           xe_flags = flags\<rparr>, r))))))"

record ChunkLookupEntry =
  cl_chunk_hash :: merkle_hash
  cl_xorb_hash :: merkle_hash
  cl_chunk_index :: u32

definition lookup_entry_serialize :: "ChunkLookupEntry \<Rightarrow> bytes" where
  "lookup_entry_serialize e =
     mh_as_bytes (cl_chunk_hash e) @ mh_as_bytes (cl_xorb_hash e) @ u32_to_le_bytes (cl_chunk_index e)"

definition lookup_entry_deserialize :: "ChunkLookupEntry reader" where
  "lookup_entry_deserialize r =
     rbind (read_hash r) (\<lambda>(chunk_hash, r).
     rbind (read_hash r) (\<lambda>(xorb, r).
     rbind (read_u32_le r) (\<lambda>(index, r).
     Inr (\<lparr>cl_chunk_hash = chunk_hash, cl_xorb_hash = xorb, cl_chunk_index = index\<rparr>, r))))"

section \<open>The parser\<close>

record MDBShardFile =
  s_header :: MDBShardFileHeader
  s_footer :: MDBShardFileFooter
  file_entries :: "FileDataSequenceHeader list"
  file_data_entries :: "FileDataSequenceEntry list"
  xorb_entries :: "XorbChunkSequenceHeader list"
  xorb_chunk_entries :: "XorbChunkSequenceEntry list"
  chunk_lookup_entries :: "ChunkLookupEntry list"
  s_file_hashes :: "merkle_hash list"
  chunk_mappings :: "(merkle_hash \<times> merkle_hash \<times> u32) list"
  s_hash :: string

definition validate_section_bounds :: "string \<Rightarrow> nat \<Rightarrow> nat \<Rightarrow> nat \<Rightarrow> unit xresult" where
  "validate_section_bounds name start fin footer_start =
     (if start < SHARD_HEADER_SIZE \<or> fin < start \<or> fin > footer_start
      then Inl (ParseError (''Invalid section bounds: '' @ name)) else Inr ())"

definition ensure_record_fits :: "string \<Rightarrow> nat \<Rightarrow> nat \<Rightarrow> nat \<Rightarrow> unit xresult" where
  "ensure_record_fits name start len fin =
     (if 2 ^ 64 \<le> start + len then Inl (ParseError (name @ '' end offset overflow''))
      else if start + len > fin then Inl (ParseError (''Truncated '' @ name))
      else Inr ())"

text \<open>
  The two section loops, from the reader position \<open>pos\<close> to the section end. \<open>num_entries\<close> has
  32 bits, so its product with the entry size never overflows; the check is kept.
\<close>

function parse_file_section ::
  "bytes \<Rightarrow> nat \<Rightarrow> nat \<Rightarrow>
     (FileDataSequenceHeader list \<times> FileDataSequenceEntry list \<times> merkle_hash list) xresult" where
  "parse_file_section data pos fin =
     (if \<not> pos < fin then Inr ([], [], [])
      else
      rbind (ensure_record_fits ''file sequence header'' pos SEQUENCE_HEADER_SIZE fin) (\<lambda>_.
      rbind (file_header_deserialize (drop pos data)) (\<lambda>(header, _).
      let n = unat (fh_num_entries header); entries_start = pos + SEQUENCE_HEADER_SIZE in
      if 2 ^ 64 \<le> n * SEQUENCE_ENTRY_SIZE then Inl (ParseError ''File sequence entry byte length overflow'')
      else
      rbind (ensure_record_fits ''file sequence entries'' entries_start (n * SEQUENCE_ENTRY_SIZE) fin) (\<lambda>_.
      rbind (read_n file_entry_deserialize n (drop entries_start data)) (\<lambda>(entries, _).
      rbind (parse_file_section data (entries_start + n * SEQUENCE_ENTRY_SIZE) fin) (\<lambda>(hs, es, hashes).
      Inr (header # hs, entries @ es, fh_file_hash header # hashes)))))))"
  by pat_completeness auto
termination
  by (relation "measure (\<lambda>(data, pos, fin). fin - pos)") (auto simp: shard_sizes)

function parse_xorb_section ::
  "bytes \<Rightarrow> nat \<Rightarrow> nat \<Rightarrow> (XorbChunkSequenceHeader list \<times> XorbChunkSequenceEntry list) xresult" where
  "parse_xorb_section data pos fin =
     (if \<not> pos < fin then Inr ([], [])
      else
      rbind (ensure_record_fits ''xorb sequence header'' pos SEQUENCE_HEADER_SIZE fin) (\<lambda>_.
      rbind (xorb_header_deserialize (drop pos data)) (\<lambda>(header, _).
      let n = unat (xh_num_entries header); entries_start = pos + SEQUENCE_HEADER_SIZE in
      if 2 ^ 64 \<le> n * SEQUENCE_ENTRY_SIZE then Inl (ParseError ''Xorb sequence entry byte length overflow'')
      else
      rbind (ensure_record_fits ''xorb sequence entries'' entries_start (n * SEQUENCE_ENTRY_SIZE) fin) (\<lambda>_.
      rbind (read_n xorb_entry_deserialize n (drop entries_start data)) (\<lambda>(entries, _).
      rbind (parse_xorb_section data (entries_start + n * SEQUENCE_ENTRY_SIZE) fin) (\<lambda>(hs, es).
      Inr (header # hs, entries @ es)))))))"
  by pat_completeness auto
termination
  by (relation "measure (\<lambda>(data, pos, fin). fin - pos)") (auto simp: shard_sizes)

declare parse_file_section.simps [simp del] parse_xorb_section.simps [simp del]

text \<open>The file, xorb and lookup stages of \<open>parse_reader\<close>; each returns where the next section starts.\<close>

definition parse_file_stage ::
  "bytes \<Rightarrow> MDBShardFileFooter \<Rightarrow> nat \<Rightarrow> nat \<Rightarrow>
     ((FileDataSequenceHeader list \<times> FileDataSequenceEntry list \<times> merkle_hash list) \<times> nat) xresult" where
  "parse_file_stage data footer footer_start next_offset =
     (if file_info_offset footer = 0 then
        if file_lookup_offset footer \<noteq> 0 \<or> file_lookup_num_entry footer \<noteq> 0
        then Inl (ParseError ''File section metadata is inconsistent'')
        else Inr (([], [], []), next_offset)
      else if unat (file_info_offset footer) \<noteq> next_offset then Inl (ParseError ''File section must start at'')
      else
      rbind (validate_section_bounds ''file'' (unat (file_info_offset footer)) (unat (file_lookup_offset footer)) footer_start) (\<lambda>_.
      rbind (parse_file_section data (unat (file_info_offset footer)) (unat (file_lookup_offset footer))) (\<lambda>parsed.
      if length (fst parsed) \<noteq> unat (file_lookup_num_entry footer)
      then Inl (ParseError ''File sequence count mismatch'')
      else Inr (parsed, unat (file_lookup_offset footer)))))"

definition parse_xorb_stage ::
  "bytes \<Rightarrow> MDBShardFileFooter \<Rightarrow> nat \<Rightarrow> nat \<Rightarrow>
     ((XorbChunkSequenceHeader list \<times> XorbChunkSequenceEntry list) \<times> nat) xresult" where
  "parse_xorb_stage data footer footer_start next_offset =
     (if xorb_info_offset footer = 0 then
        if xorb_lookup_offset footer \<noteq> 0 \<or> xorb_lookup_num_entry footer \<noteq> 0
        then Inl (ParseError ''Xorb section metadata is inconsistent'')
        else Inr (([], []), next_offset)
      else if unat (xorb_info_offset footer) \<noteq> next_offset then Inl (ParseError ''Xorb section must start at'')
      else
      rbind (validate_section_bounds ''xorb'' (unat (xorb_info_offset footer)) (unat (xorb_lookup_offset footer)) footer_start) (\<lambda>_.
      rbind (parse_xorb_section data (unat (xorb_info_offset footer)) (unat (xorb_lookup_offset footer))) (\<lambda>parsed.
      if length (fst parsed) \<noteq> unat (xorb_lookup_num_entry footer)
      then Inl (ParseError ''Xorb sequence count mismatch'')
      else Inr (parsed, unat (xorb_lookup_offset footer)))))"

definition parse_lookup_stage ::
  "bytes \<Rightarrow> MDBShardFileFooter \<Rightarrow> nat \<Rightarrow> nat \<Rightarrow> bool \<Rightarrow> (ChunkLookupEntry list \<times> nat) xresult" where
  "parse_lookup_stage data footer footer_start next_offset has_chunks =
     (if chunk_lookup_offset footer = 0 then
        if chunk_lookup_num_entry footer \<noteq> 0
        then Inl (ParseError ''Chunk lookup count is non-zero but its offset is zero'')
        else if has_chunks then Inl (ParseError ''Shard missing required raw chunk lookup section'')
        else Inr ([], next_offset)
      else if chunk_lookup_num_entry footer = 0
      then Inl (ParseError ''Chunk lookup offset is non-zero but its count is zero'')
      else if unat (chunk_lookup_offset footer) \<noteq> next_offset
      then Inl (ParseError ''Chunk lookup section must start at'')
      else
      let byte_len = unat (chunk_lookup_num_entry footer) * CHUNK_LOOKUP_ENTRY_SIZE;
          fin = unat (chunk_lookup_offset footer) + byte_len in
      if 2 ^ 64 \<le> byte_len then Inl (ParseError ''Chunk lookup byte length overflow'')
      else if 2 ^ 64 \<le> fin then Inl (ParseError ''Chunk lookup end offset overflow'')
      else if fin \<noteq> footer_start then Inl (ParseError ''Chunk lookup section ends before footer'')
      else
      rbind (read_n lookup_entry_deserialize (unat (chunk_lookup_num_entry footer))
               (drop (unat (chunk_lookup_offset footer)) data)) (\<lambda>(entries, _).
      Inr (entries, fin)))"

definition parse_reader :: "bytes \<Rightarrow> nat \<Rightarrow> string \<Rightarrow> MDBShardFile xresult" where
  "parse_reader data file_len hash =
     (if file_len < SHARD_HEADER_SIZE + SHARD_FOOTER_SIZE then Inl (ParseError ''Shard is too small'')
      else
      let footer_start = file_len - SHARD_FOOTER_SIZE in
      rbind (shard_header_deserialize data) (\<lambda>(header, _).
      if sh_tag header \<noteq> sh_tag shard_header_default then Inl (ParseError ''Invalid shard magic tag'')
      else if sh_version header \<noteq> sh_version shard_header_default then Inl (ParseError ''Unsupported shard version'')
      else if unat (sh_footer_size header) \<noteq> SHARD_FOOTER_SIZE then Inl (ParseError ''Invalid footer size'')
      else
      rbind (shard_footer_deserialize (drop footer_start data)) (\<lambda>(footer, _).
      if sf_version footer \<noteq> sh_version header then Inl (ParseError ''Shard version mismatch'')
      else if unat (footer_offset footer) \<noteq> footer_start then Inl (ParseError ''Invalid footer offset'')
      else
      rbind (parse_file_stage data footer footer_start SHARD_HEADER_SIZE) (\<lambda>((fhs, fes, hashes), next1).
      rbind (parse_xorb_stage data footer footer_start next1) (\<lambda>((xhs, xes), next2).
      rbind (parse_lookup_stage data footer footer_start next2 (xes \<noteq> [])) (\<lambda>(lookups, next3).
      if next3 \<noteq> footer_start then Inl (ParseError ''Unaccounted shard bytes before footer'')
      else if length lookups \<noteq> length xes then Inl (ParseError ''Shard chunk lookup count mismatch'')
      else Inr \<lparr>s_header = header, s_footer = footer, file_entries = fhs, file_data_entries = fes,
                xorb_entries = xhs, xorb_chunk_entries = xes, chunk_lookup_entries = lookups,
                s_file_hashes = hashes,
                chunk_mappings = map (\<lambda>e. (cl_chunk_hash e, cl_xorb_hash e, cl_chunk_index e)) lookups,
                s_hash = hash\<rparr>))))))"

definition shard_parse :: "crates \<Rightarrow> bytes \<Rightarrow> MDBShardFile xresult" where
  "shard_parse C data =
     (if 2 ^ 64 \<le> length data then Inl (ParseError ''Shard length does not fit in u64'')
      else parse_reader data (length data) (mh_to_hex C (compute_data_hash C data)))"

text \<open>The incremental hash of a shard file, \<open>hash_reader\<close>, with its 64 KiB buffer.\<close>

function hash_reader_loop :: "bytes \<Rightarrow> nat \<Rightarrow> nat \<Rightarrow> streaming_hasher \<Rightarrow> streaming_hasher xresult" where
  "hash_reader_loop data pos remaining hasher =
     (if remaining = 0 then Inr hasher
      else let got = min (min remaining (64 * 1024)) (length data - pos) in
        if got = 0 then Inl (IoError UnexpectedEof)
        else hash_reader_loop data (pos + got) (remaining - got) (sh_update hasher (take got (drop pos data))))"
  by pat_completeness auto
termination
  by (relation "measure (\<lambda>(data, pos, remaining, hasher). remaining)") auto

declare hash_reader_loop.simps [simp del]

definition hash_reader :: "crates \<Rightarrow> bytes \<Rightarrow> nat \<Rightarrow> string xresult" where
  "hash_reader C data file_len =
     rbind (hash_reader_loop data 0 file_len sh_new) (\<lambda>hasher. Inr (mh_to_hex C (sh_finalize C hasher)))"

definition parse_from_file :: "crates \<Rightarrow> bytes option \<Rightarrow> MDBShardFile xresult" where
  "parse_from_file C path =
     rbind (ok_or path (IoError NotFoundIo)) (\<lambda>data.
     rbind (hash_reader C data (length data)) (\<lambda>hash.
     parse_reader data (length data) hash))"

definition compute_hash_from_file :: "crates \<Rightarrow> bytes option \<Rightarrow> string xresult" where
  "compute_hash_from_file C path =
     rbind (ok_or path (IoError NotFoundIo)) (\<lambda>data. hash_reader C data (length data))"

section \<open>Record codecs\<close>

lemmas record_codec_simps =
  read_u32_le_append read_u64_le_append read_hash_append read_exact_append

lemmas record_consumes = consumes_intros consumes_bind [OF consumes_read_hash]

lemma shard_header_consumes: "consumes 48 bs (shard_header_deserialize bs)"
  unfolding shard_header_deserialize_def by (rule record_consumes | simp)+

interpretation shard_header_codec: total_codec shard_header_serialize shard_header_deserialize "\<lambda>h. length (sh_tag h) = 32" 48
  by (rule total_codec_consumes [OF shard_header_consumes])
     (simp_all add: shard_header_serialize_def shard_header_deserialize_def record_codec_simps)

lemma file_header_consumes: "consumes 48 bs (file_header_deserialize bs)"
  unfolding file_header_deserialize_def by (rule record_consumes | simp)+

interpretation file_header_codec: total_codec file_header_serialize file_header_deserialize "\<lambda>_. True" 48
  by (rule total_codec_consumes [OF file_header_consumes])
     (simp_all add: file_header_serialize_def file_header_deserialize_def record_codec_simps)

lemma file_entry_consumes: "consumes 48 bs (file_entry_deserialize bs)"
  unfolding file_entry_deserialize_def by (rule record_consumes | simp)+

interpretation file_entry_codec: total_codec file_entry_serialize file_entry_deserialize "\<lambda>_. True" 48
  by (rule total_codec_consumes [OF file_entry_consumes])
     (simp_all add: file_entry_serialize_def file_entry_deserialize_def record_codec_simps)

lemma xorb_header_consumes: "consumes 48 bs (xorb_header_deserialize bs)"
  unfolding xorb_header_deserialize_def by (rule record_consumes | simp)+

interpretation xorb_header_codec: total_codec xorb_header_serialize xorb_header_deserialize "\<lambda>_. True" 48
  by (rule total_codec_consumes [OF xorb_header_consumes])
     (simp_all add: xorb_header_serialize_def xorb_header_deserialize_def record_codec_simps)

lemma xorb_entry_consumes: "consumes 48 bs (xorb_entry_deserialize bs)"
  unfolding xorb_entry_deserialize_def by (rule record_consumes | simp)+

interpretation xorb_entry_codec: total_codec xorb_entry_serialize xorb_entry_deserialize "\<lambda>_. True" 48
  by (rule total_codec_consumes [OF xorb_entry_consumes])
     (simp_all add: xorb_entry_serialize_def xorb_entry_deserialize_def record_codec_simps)

lemma lookup_entry_consumes: "consumes 68 bs (lookup_entry_deserialize bs)"
  unfolding lookup_entry_deserialize_def by (rule record_consumes | simp)+

interpretation lookup_entry_codec: total_codec lookup_entry_serialize lookup_entry_deserialize "\<lambda>_. True" 68
  by (rule total_codec_consumes [OF lookup_entry_consumes])
     (simp_all add: lookup_entry_serialize_def lookup_entry_deserialize_def record_codec_simps)

lemma shard_footer_consumes: "consumes 208 bs (shard_footer_deserialize bs)"
  unfolding shard_footer_deserialize_def by (rule record_consumes | simp)+

interpretation shard_footer_codec: total_codec shard_footer_serialize shard_footer_deserialize "\<lambda>f. length (chunk_hash_hmac_key f) = 32" 208
  by (rule total_codec_consumes [OF shard_footer_consumes])
     (simp_all add: shard_footer_serialize_def shard_footer_deserialize_def record_codec_simps)

section \<open>Sections as sequences of groups\<close>

text \<open>
  The file and the xorb section have the same shape: groups of a 48-byte header and as many
  48-byte entries as it declares. The interface states the loop once; both parsers
  interpret it.
\<close>

locale sequence_section =
  h: total_codec hser hdeser "\<lambda>_. True" 48 + e: total_codec eser edeser "\<lambda>_. True" 48
  for hser :: "'h \<Rightarrow> bytes" and hdeser and eser :: "'e \<Rightarrow> bytes" and edeser +
  fixes num :: "'h \<Rightarrow> nat"
    and parse :: "bytes \<Rightarrow> nat \<Rightarrow> nat \<Rightarrow> ('h list \<times> 'e list) xresult"
    and name1 name2 :: string and err :: xet_error
  assumes parse_done: "\<not> pos < fin \<Longrightarrow> parse data pos fin = Inr ([], [])"
    and parse_step: "pos < fin \<Longrightarrow> parse data pos fin =
      rbind (ensure_record_fits name1 pos 48 fin) (\<lambda>_.
      rbind (hdeser (drop pos data)) (\<lambda>(hd, _).
      if 2 ^ 64 \<le> num hd * 48 then Inl err
      else rbind (ensure_record_fits name2 (pos + 48) (num hd * 48) fin) (\<lambda>_.
      rbind (read_n edeser (num hd) (drop (pos + 48) data)) (\<lambda>(es, _).
      rbind (parse data (pos + 48 + num hd * 48) fin) (\<lambda>(hs, es').
      Inr (hd # hs, es @ es'))))))"
begin

lemma parse_sound:
  "parse data pos fin = Inr (hs, es) \<Longrightarrow> pos \<le> fin \<Longrightarrow>
     fin = pos + 48 * (length hs + length es) \<and> length es = sum_list (map num hs)"
proof (induction "fin - pos" arbitrary: pos hs es rule: less_induct)
  case less
  show ?case
  proof (cases "pos < fin")
    case True
    from less.prems(1) obtain hd r es1 r2 hs' es' where
      p: "ensure_record_fits name2 (pos + 48) (num hd * 48) fin = Inr ()"
      "read_n edeser (num hd) (drop (pos + 48) data) = Inr (es1, r2)"
      "parse data (pos + 48 + num hd * 48) fin = Inr (hs', es')"
      and eq: "hs = hd # hs'" "es = es1 @ es'"
      by (auto simp: parse_step [OF True] rbind_eq_Inr if_Inl_eq_Inr)
    have le: "pos + 48 + num hd * 48 \<le> fin" using p(1) by (auto simp: ensure_record_fits_def split: if_splits)
    have "length es1 = num hd" using e.read_n_consumes [OF p(2)] by simp
    moreover have "fin = pos + 48 + num hd * 48 + 48 * (length hs' + length es') \<and> length es' = sum_list (map num hs')"
      by (rule less.hyps [OF _ p(3) le]) (use True in linarith)
    ultimately show ?thesis using eq by simp
  next
    case False
    with less.prems show ?thesis by (simp add: parse_done)
  qed
qed

definition group_bytes :: "'h \<times> 'e list \<Rightarrow> bytes" where
  "group_bytes g = hser (fst g) @ concat (map eser (snd g))"

lemma group_bytes_length: "length (group_bytes g) = 48 + 48 * length (snd g)"
  by (simp add: group_bytes_def h.ser_width e.sers_width list_all_iff)

lemma parse_complete:
  assumes "fin < 2 ^ 64"
  shows "list_all (\<lambda>g. num (fst g) = length (snd g)) gs \<Longrightarrow>
    data = pre @ concat (map group_bytes gs) @ rest \<Longrightarrow> fin = length pre + length (concat (map group_bytes gs)) \<Longrightarrow>
    parse data (length pre) fin = Inr (map fst gs, concat (map snd gs))"
proof (induction gs arbitrary: pre)
  case Nil
  then show ?case by (simp add: parse_done)
next
  case (Cons g gs)
  let ?n = "length (snd g)"
  have n: "num (fst g) = ?n" using Cons.prems by simp
  have fin: "length pre < fin" "length pre + 48 + ?n * 48 \<le> fin" "?n * 48 < 2 ^ 64"
    using Cons.prems(3) assms by (simp_all add: group_bytes_length)
  have fits: "ensure_record_fits name1 (length pre) 48 fin = Inr ()"
    "ensure_record_fits name2 (length pre + 48) (?n * 48) fin = Inr ()"
    using fin assms by (auto simp: ensure_record_fits_def)
  have hd: "hdeser (drop (length pre) data) = Inr (fst g, concat (map eser (snd g)) @ concat (map group_bytes gs) @ rest)"
    using h.deser_ser [of "fst g"] Cons.prems(2) by (simp add: group_bytes_def [of g])
  have "drop (length pre + 48) data = concat (map eser (snd g)) @ concat (map group_bytes gs) @ rest"
    using Cons.prems(2) h.ser_width [of "fst g"] by (simp add: group_bytes_def [of g])
  then have es: "read_n edeser ?n (drop (length pre + 48) data) = Inr (snd g, concat (map group_bytes gs) @ rest)"
    using e.read_n_sers [of "snd g"] by (simp add: list_all_iff)
  have "parse data (length (pre @ group_bytes g)) fin = Inr (map fst gs, concat (map snd gs))"
    by (rule Cons.IH) (use Cons.prems in auto)
  moreover have "length (pre @ group_bytes g) = length pre + 48 + ?n * 48"
    by (simp add: group_bytes_length)
  ultimately have rec: "parse data (length pre + 48 + ?n * 48) fin = Inr (map fst gs, concat (map snd gs))"
    by (simp add: add.assoc)
  show ?case
    using fin(3) fits hd es rec n by (simp add: parse_step [OF fin(1)])
qed

end

definition parse_file_pair :: "bytes \<Rightarrow> nat \<Rightarrow> nat \<Rightarrow> (FileDataSequenceHeader list \<times> FileDataSequenceEntry list) xresult" where
  "parse_file_pair data pos fin = rbind (parse_file_section data pos fin) (\<lambda>(hs, es, hashes). Inr (hs, es))"

interpretation file_section: sequence_section file_header_serialize file_header_deserialize
  file_entry_serialize file_entry_deserialize "\<lambda>h. unat (fh_num_entries h)" parse_file_pair
  "''file sequence header''" "''file sequence entries''" "ParseError ''File sequence entry byte length overflow''"
proof
  fix pos fin :: nat and data
  assume "pos < fin"
  have assoc: "rbind (rbind m f) g = rbind m (\<lambda>x. rbind (f x) g)" for m :: "'x xresult" and f g
    by (cases m) auto
  have ifp: "rbind (if b then Inl x else m) g = (if b then Inl x else rbind m g)" for b x and m :: "'x xresult" and g
    by simp
  have casep: "rbind (case p of (a, b) \<Rightarrow> F a b) g = (case p of (a, b) \<Rightarrow> rbind (F a b) g)"
    for p :: "'p \<times> 'q" and F :: "'p \<Rightarrow> 'q \<Rightarrow> 'x xresult" and g
    by (cases p) simp
  show "parse_file_pair data pos fin =
      rbind (ensure_record_fits ''file sequence header'' pos 48 fin) (\<lambda>_.
      rbind (file_header_deserialize (drop pos data)) (\<lambda>(hd, _).
      if 2 ^ 64 \<le> unat (fh_num_entries hd) * 48 then Inl (ParseError ''File sequence entry byte length overflow'')
      else rbind (ensure_record_fits ''file sequence entries'' (pos + 48) (unat (fh_num_entries hd) * 48) fin) (\<lambda>_.
      rbind (read_n file_entry_deserialize (unat (fh_num_entries hd)) (drop (pos + 48) data)) (\<lambda>(es, _).
      rbind (parse_file_pair data (pos + 48 + unat (fh_num_entries hd) * 48) fin) (\<lambda>(hs, es').
      Inr (hd # hs, es @ es'))))))"
    unfolding parse_file_pair_def using \<open>pos < fin\<close>
    by (subst parse_file_section.simps)
       (unfold shard_sizes Let_def, simp only: not_True_eq_False if_False assoc ifp casep rbind.simps split_def fst_conv snd_conv)
qed (simp add: parse_file_pair_def parse_file_section.simps)

interpretation xorb_section: sequence_section xorb_header_serialize xorb_header_deserialize
  xorb_entry_serialize xorb_entry_deserialize "\<lambda>h. unat (xh_num_entries h)" parse_xorb_section
  "''xorb sequence header''" "''xorb sequence entries''" "ParseError ''Xorb sequence entry byte length overflow''"
proof
  fix pos fin :: nat and data
  assume "pos < fin"
  then show "parse_xorb_section data pos fin =
      rbind (ensure_record_fits ''xorb sequence header'' pos 48 fin) (\<lambda>_.
      rbind (xorb_header_deserialize (drop pos data)) (\<lambda>(hd, _).
      if 2 ^ 64 \<le> unat (xh_num_entries hd) * 48 then Inl (ParseError ''Xorb sequence entry byte length overflow'')
      else rbind (ensure_record_fits ''xorb sequence entries'' (pos + 48) (unat (xh_num_entries hd) * 48) fin) (\<lambda>_.
      rbind (read_n xorb_entry_deserialize (unat (xh_num_entries hd)) (drop (pos + 48) data)) (\<lambda>(es, _).
      rbind (parse_xorb_section data (pos + 48 + unat (xh_num_entries hd) * 48) fin) (\<lambda>(hs, es').
      Inr (hd # hs, es @ es'))))))"
    by (subst parse_xorb_section.simps) (unfold shard_sizes Let_def, simp only: not_True_eq_False if_False)
qed (simp add: parse_xorb_section.simps)

lemma parse_file_section_hashes:
  "parse_file_section data pos fin = Inr (hs, es, hashes) \<Longrightarrow> hashes = map fh_file_hash hs"
proof (induction "fin - pos" arbitrary: pos hs es hashes rule: less_induct)
  case less
  show ?case
  proof (cases "pos < fin")
    case False
    with less.prems show ?thesis by (simp add: parse_file_section.simps)
  next
    case True
    with less.prems obtain hd hs' es' hashes' where
      p: "parse_file_section data (pos + 48 + unat (fh_num_entries hd) * 48) fin = Inr (hs', es', hashes')"
      "hs = hd # hs'" "hashes = fh_file_hash hd # hashes'"
      by (subst (asm) parse_file_section.simps) (auto simp: Let_def rbind_eq_Inr if_Inl_eq_Inr shard_sizes)
    have "hashes' = map fh_file_hash hs'"
      by (rule less.hyps [OF _ p(1)]) (use True in linarith)
    with p show ?thesis by simp
  qed
qed

lemma parse_file_section_pair:
  "parse_file_section data pos fin = Inr (hs, es, hashes) \<longleftrightarrow>
     parse_file_pair data pos fin = Inr (hs, es) \<and> hashes = map fh_file_hash hs"
  using parse_file_section_hashes by (fastforce simp: parse_file_pair_def rbind_eq_Inr)

section \<open>Hashing a shard file\<close>

lemma hash_reader_loop_absorbs:
  "pos + left \<le> length data \<Longrightarrow>
     \<exists>h'. hash_reader_loop data pos left h = Inr h' \<and> absorbed h' = absorbed h @ take left (drop pos data)"
proof (induction data pos left h rule: hash_reader_loop.induct)
  case (1 data pos left h)
  show ?case
  proof (cases "left = 0")
    case False
    let ?n = "min (min left (64 * 1024)) (length data - pos)"
    have n: "?n \<noteq> 0" using False "1.prems" by auto
    have "pos + ?n + (left - ?n) \<le> length data" using "1.prems" by auto
    from "1.IH" [OF False refl n this] obtain h' where
      h': "hash_reader_loop data (pos + ?n) (left - ?n) (sh_update h (take ?n (drop pos data))) = Inr h'"
      "absorbed h' = absorbed (sh_update h (take ?n (drop pos data))) @ take (left - ?n) (drop (pos + ?n) data)"
      by blast
    have "take ?n (drop pos data) @ take (left - ?n) (drop (pos + ?n) data) = take left (drop pos data)"
      using take_add [of ?n "left - ?n" "drop pos data"] by (simp add: add.commute)
    with h' have "absorbed h' = absorbed h @ take left (drop pos data)" by (simp add: sh_update_def)
    moreover have "hash_reader_loop data pos left h = Inr h'"
      using h'(1) False n by (subst hash_reader_loop.simps) (simp only: Let_def if_False)
    ultimately show ?thesis by blast
  qed (simp add: hash_reader_loop.simps)
qed

lemma hash_reader_eq: "hash_reader C data (length data) = Inr (mh_to_hex C (compute_data_hash C data))"
  using hash_reader_loop_absorbs [of 0 "length data" data sh_new]
  by (auto simp: hash_reader_def sh_finalize_def compute_data_hash_def sh_new_def)

section \<open>Accepted shards\<close>

lemma validate_section_boundsD:
  "validate_section_bounds name start fin fs = Inr u \<Longrightarrow> 48 \<le> start \<and> start \<le> fin \<and> fin \<le> fs"
  by (auto simp: validate_section_bounds_def shard_sizes split: if_splits)

lemma parse_file_stage_sound:
  assumes "parse_file_stage data footer fs next = Inr ((hs, es, hashes), next')"
  shows "next' = next + 48 * (length hs + length es) \<and> hashes = map fh_file_hash hs \<and>
    length es = sum_list (map (\<lambda>h. unat (fh_num_entries h)) hs) \<and> length hs = unat (file_lookup_num_entry footer)"
proof (cases "file_info_offset footer = 0")
  case True
  with assms show ?thesis by (auto simp: parse_file_stage_def split: if_splits)
next
  case False
  with assms have p: "unat (file_info_offset footer) = next" "next' = unat (file_lookup_offset footer)"
    "parse_file_section data next next' = Inr (hs, es, hashes)" "length hs = unat (file_lookup_num_entry footer)"
    "next \<le> next'"
    by (auto simp: parse_file_stage_def rbind_eq_Inr if_Inl_eq_Inr dest: validate_section_boundsD split: if_splits)
  then have "parse_file_pair data next next' = Inr (hs, es)" "hashes = map fh_file_hash hs"
    by (simp_all add: parse_file_section_pair)
  with p file_section.parse_sound [OF this(1)] show ?thesis by simp
qed

lemma parse_xorb_stage_sound:
  assumes "parse_xorb_stage data footer fs next = Inr ((hs, es), next')"
  shows "next' = next + 48 * (length hs + length es) \<and>
    length es = sum_list (map (\<lambda>h. unat (xh_num_entries h)) hs) \<and> length hs = unat (xorb_lookup_num_entry footer)"
proof (cases "xorb_info_offset footer = 0")
  case True
  with assms show ?thesis by (auto simp: parse_xorb_stage_def split: if_splits)
next
  case False
  with assms have p: "unat (xorb_info_offset footer) = next" "next' = unat (xorb_lookup_offset footer)"
    "parse_xorb_section data next next' = Inr (hs, es)" "length hs = unat (xorb_lookup_num_entry footer)"
    "next \<le> next'"
    by (auto simp: parse_xorb_stage_def rbind_eq_Inr if_Inl_eq_Inr dest: validate_section_boundsD split: if_splits)
  with xorb_section.parse_sound [OF p(3)] show ?thesis by simp
qed

lemma parse_lookup_stage_sound:
  assumes "parse_lookup_stage data footer fs next b = Inr (es, next')"
  shows "next' = next + 68 * length es \<and> length es = unat (chunk_lookup_num_entry footer)"
proof (cases "chunk_lookup_offset footer = 0")
  case True
  with assms show ?thesis by (auto simp: parse_lookup_stage_def split: if_splits)
next
  case False
  with assms obtain r where "unat (chunk_lookup_offset footer) = next"
    "next' = next + unat (chunk_lookup_num_entry footer) * 68"
    "read_n lookup_entry_deserialize (unat (chunk_lookup_num_entry footer)) (drop next data) = Inr (es, r)"
    by (auto simp: parse_lookup_stage_def rbind_eq_Inr if_Inl_eq_Inr Let_def shard_sizes split: if_splits)
  with lookup_entry_codec.read_n_consumes [OF this(3)] show ?thesis by simp
qed

section \<open>Properties\<close>

text \<open>
  An accepted shard is tiled by its records: its length is the header, the footer and
  exactly the parsed file, xorb and lookup records, so no byte is unaccounted for; the
  declared entry counts add up to the parsed entries, the footer's counts are the parsed
  counts, and every xorb chunk has one lookup entry.
\<close>

theorem shard_parse_tiles:
  assumes "shard_parse C data = Inr s"
  shows "length data = 48 + 48 * (length (file_entries s) + length (file_data_entries s)) +
      48 * (length (xorb_entries s) + length (xorb_chunk_entries s)) + 68 * length (chunk_lookup_entries s) + 208 \<and>
    length (file_data_entries s) = sum_list (map (\<lambda>h. unat (fh_num_entries h)) (file_entries s)) \<and>
    length (xorb_chunk_entries s) = sum_list (map (\<lambda>h. unat (xh_num_entries h)) (xorb_entries s)) \<and>
    length (chunk_lookup_entries s) = length (xorb_chunk_entries s) \<and>
    s_file_hashes s = map fh_file_hash (file_entries s) \<and>
    chunk_mappings s = map (\<lambda>e. (cl_chunk_hash e, cl_xorb_hash e, cl_chunk_index e)) (chunk_lookup_entries s) \<and>
    length (file_entries s) = unat (file_lookup_num_entry (s_footer s)) \<and>
    length (xorb_entries s) = unat (xorb_lookup_num_entry (s_footer s)) \<and>
    s_hash s = mh_to_hex C (compute_data_hash C data)"
proof -
  let ?fs = "length data - 208"
  from assms obtain footer fhs fes hashes n1 xhs xes n2 lks where
    len: "48 + 208 \<le> length data" and
    p: "parse_file_stage data footer ?fs 48 = Inr ((fhs, fes, hashes), n1)"
    "parse_xorb_stage data footer ?fs n1 = Inr ((xhs, xes), n2)"
    "parse_lookup_stage data footer ?fs n2 (xes \<noteq> []) = Inr (lks, ?fs)" "length lks = length xes"
    and s: "s_footer s = footer" "file_entries s = fhs" "file_data_entries s = fes" "xorb_entries s = xhs"
      "xorb_chunk_entries s = xes" "chunk_lookup_entries s = lks" "s_file_hashes s = hashes"
      "chunk_mappings s = map (\<lambda>e. (cl_chunk_hash e, cl_xorb_hash e, cl_chunk_index e)) lks"
      "s_hash s = mh_to_hex C (compute_data_hash C data)"
    by (auto simp: shard_parse_def parse_reader_def Let_def rbind_eq_Inr if_Inl_eq_Inr shard_sizes)
  note st = parse_file_stage_sound [OF p(1)] parse_xorb_stage_sound [OF p(2)] parse_lookup_stage_sound [OF p(3)]
  have "length data = 48 + 48 * (length fhs + length fes) + 48 * (length xhs + length xes) + 68 * length lks + 208"
    using st len by linarith
  with st s p(4) show ?thesis by simp
qed

text \<open>
  Parsing a shard from disk, with its hash computed incrementally in 64 KiB blocks,
  gives the same result as parsing the bytes in memory, for every file whose length fits
  64 bits; and the incremental hash is the hash of the whole content.
\<close>

theorem parse_from_file_equals_parse:
  assumes "length data < 2 ^ 64"
  shows "parse_from_file C (Some data) = shard_parse C data \<and>
    compute_hash_from_file C (Some data) = Inr (mh_to_hex C (compute_data_hash C data))"
  using assms by (simp add: parse_from_file_def compute_hash_from_file_def shard_parse_def hash_reader_eq)

theorem parse_from_file_equals_parse_witness:
  "parse_from_file inst_crates (Some [1, 2, 3]) = shard_parse inst_crates [1, 2, 3]"
  using parse_from_file_equals_parse [of "[1, 2, 3]" inst_crates] by simp

end
