(* ===== verification/Shard_Builder.thy ===== *)
theory Shard_Builder
  imports Shard_Format
begin

text \<open>
  The shard builder of \<^verbatim>\<open>src/src/format/shard_builder.rs\<close>: it registers xorbs with their raw
  chunk hashes and files with their segments, and serializes them into a shard whose footer
  states the section offsets, re-parsing the result before it returns it.

  The lemmas show that the lookup section of every reachable builder matches its chunks, and
  that building succeeds and parses back to exactly the registered files, xorbs and hashes.
\<close>

record FileSegment =
  fs_xorb_hash :: merkle_hash
  fs_xorb_index :: nat
  fs_chunk_index_start :: u32
  fs_chunk_index_end :: u32
  fs_unpacked_segment_bytes :: u32

record FileBuildEntry =
  fb_file_hash :: merkle_hash
  fb_segments :: "FileSegment list"

record XorbChunkBuildEntry =
  xc_chunk_hash :: merkle_hash
  xc_chunk_byte_range_start :: u32
  xc_unpacked_segment_bytes :: u32

record XorbBuildEntry =
  xb_xorb_hash :: merkle_hash
  xb_num_bytes_in_xorb :: u32
  xb_num_bytes_on_disk :: u32
  xb_entry_chunks :: "XorbChunkBuildEntry list"

record ShardBuilder =
  sb_files :: "FileBuildEntry list"
  sb_xorbs :: "XorbBuildEntry list"
  sb_chunk_lookup_entries :: "ChunkLookupEntry list"

definition sb_new :: ShardBuilder where
  "sb_new = \<lparr>sb_files = [], sb_xorbs = [], sb_chunk_lookup_entries = []\<rparr>"

definition add_xorb_unchecked ::
  "ShardBuilder \<Rightarrow> merkle_hash \<Rightarrow> u32 \<Rightarrow> u32 \<Rightarrow> XorbChunkBuildEntry list \<Rightarrow> nat \<times> ShardBuilder" where
  "add_xorb_unchecked b hash in_xorb on_disk chunks =
     (length (sb_xorbs b),
      b\<lparr>sb_xorbs := sb_xorbs b @ [\<lparr>xb_xorb_hash = hash, xb_num_bytes_in_xorb = in_xorb,
           xb_num_bytes_on_disk = on_disk, xb_entry_chunks = chunks\<rparr>]\<rparr>)"

definition add_xorb_with_raw_chunk_hashes ::
  "ShardBuilder \<Rightarrow> merkle_hash \<Rightarrow> u32 \<Rightarrow> u32 \<Rightarrow> XorbChunkBuildEntry list \<Rightarrow> merkle_hash list \<Rightarrow>
     (nat \<times> ShardBuilder) xresult" where
  "add_xorb_with_raw_chunk_hashes b hash in_xorb on_disk chunks raw =
     (if length chunks \<noteq> length raw then Inl (ParseError ''raw chunk hash count mismatch'')
      else let (index, b') = add_xorb_unchecked b hash in_xorb on_disk chunks in
        Inr (index, b'\<lparr>sb_chunk_lookup_entries := sb_chunk_lookup_entries b' @
               map (\<lambda>(i, h). \<lparr>cl_chunk_hash = h, cl_xorb_hash = hash, cl_chunk_index = of_nat i\<rparr>)
                 (enumerate 0 raw)\<rparr>))"

definition add_file :: "ShardBuilder \<Rightarrow> merkle_hash \<Rightarrow> FileSegment list \<Rightarrow> ShardBuilder" where
  "add_file b hash segments = b\<lparr>sb_files := sb_files b @ [\<lparr>fb_file_hash = hash, fb_segments = segments\<rparr>]\<rparr>"

section \<open>Building\<close>

definition file_header_of :: "FileBuildEntry \<Rightarrow> FileDataSequenceHeader" where
  "file_header_of f = \<lparr>fh_file_hash = fb_file_hash f, fh_file_flags = 0, fh_num_entries = of_nat (length (fb_segments f))\<rparr>"

definition file_entry_of :: "FileSegment \<Rightarrow> FileDataSequenceEntry" where
  "file_entry_of seg = \<lparr>fe_xorb_hash = fs_xorb_hash seg, fe_xorb_flags = 0,
     fe_unpacked_segment_bytes = fs_unpacked_segment_bytes seg,
     fe_chunk_index_start = fs_chunk_index_start seg, fe_chunk_index_end = fs_chunk_index_end seg\<rparr>"

definition xorb_header_of :: "XorbBuildEntry \<Rightarrow> XorbChunkSequenceHeader" where
  "xorb_header_of x = \<lparr>xh_xorb_hash = xb_xorb_hash x, xh_xorb_flags = 0,
     xh_num_entries = of_nat (length (xb_entry_chunks x)),
     xh_num_bytes_in_xorb = xb_num_bytes_in_xorb x, xh_num_bytes_on_disk = xb_num_bytes_on_disk x\<rparr>"

definition xorb_entry_of :: "XorbChunkBuildEntry \<Rightarrow> XorbChunkSequenceEntry" where
  "xorb_entry_of c = \<lparr>xe_chunk_hash = xc_chunk_hash c, xe_chunk_byte_range_start = xc_chunk_byte_range_start c,
     xe_unpacked_segment_bytes = xc_unpacked_segment_bytes c, xe_flags = 0\<rparr>"

definition file_section_size :: "ShardBuilder \<Rightarrow> nat" where
  "file_section_size b = sum_list (map (\<lambda>f. 48 + length (fb_segments f) * 48) (sb_files b))"

definition xorb_section_size :: "ShardBuilder \<Rightarrow> nat" where
  "xorb_section_size b = sum_list (map (\<lambda>x. 48 + length (xb_entry_chunks x) * 48) (sb_xorbs b))"

definition chunk_lookup_section_size :: "ShardBuilder \<Rightarrow> nat" where
  "chunk_lookup_section_size b = length (sb_chunk_lookup_entries b) * 68"

definition sb_total_size :: "ShardBuilder \<Rightarrow> nat" where
  "sb_total_size b = 48 + file_section_size b + xorb_section_size b + chunk_lookup_section_size b + 208"

definition sb_footer :: "ShardBuilder \<Rightarrow> MDBShardFileFooter" where
  "sb_footer b =
     (let xorb_off = of_nat (48 + file_section_size b);
          lookup_off = of_nat (48 + file_section_size b + xorb_section_size b);
          footer_off = of_nat (48 + file_section_size b + xorb_section_size b + chunk_lookup_section_size b);
          no_files = (sb_files b = []); no_xorbs = (sb_xorbs b = []); no_lookup = (sb_chunk_lookup_entries b = [])
      in \<lparr>sf_version = 2,
          file_info_offset = (if no_files then 0 else 48),
          xorb_info_offset = (if no_xorbs then 0 else xorb_off),
          file_lookup_offset = (if no_files then 0 else xorb_off),
          file_lookup_num_entry = of_nat (length (sb_files b)),
          xorb_lookup_offset = (if no_xorbs then 0 else if no_lookup then footer_off else lookup_off),
          xorb_lookup_num_entry = of_nat (length (sb_xorbs b)),
          chunk_lookup_offset = (if no_lookup then 0 else lookup_off),
          chunk_lookup_num_entry = of_nat (length (sb_chunk_lookup_entries b)),
          chunk_hash_hmac_key = replicate 32 0, shard_creation_timestamp = 0, shard_key_expiry = 0,
          stored_bytes_on_disk = sum_list (map (\<lambda>x. ucast (xb_num_bytes_on_disk x)) (sb_xorbs b)),
          materialized_bytes =
            sum_list (map (\<lambda>s. ucast (fs_unpacked_segment_bytes s)) (concat (map fb_segments (sb_files b)))),
          stored_bytes = sum_list (map (\<lambda>x. ucast (xb_num_bytes_in_xorb x)) (sb_xorbs b)),
          footer_offset = footer_off\<rparr>)"

definition sb_bytes :: "ShardBuilder \<Rightarrow> bytes" where
  "sb_bytes b =
     shard_header_serialize shard_header_default @
     concat (map (\<lambda>f. file_header_serialize (file_header_of f) @
                      concat (map (\<lambda>s. file_entry_serialize (file_entry_of s)) (fb_segments f))) (sb_files b)) @
     concat (map (\<lambda>x. xorb_header_serialize (xorb_header_of x) @
                      concat (map (\<lambda>c. xorb_entry_serialize (xorb_entry_of c)) (xb_entry_chunks x))) (sb_xorbs b)) @
     concat (map lookup_entry_serialize (sb_chunk_lookup_entries b)) @
     shard_footer_serialize (sb_footer b)"

definition sb_build :: "crates \<Rightarrow> ShardBuilder \<Rightarrow> bytes xresult" where
  "sb_build C b =
     (let buf = sb_bytes b in
      if length buf \<noteq> sb_total_size b then Inl (ParseError ''shard binary size mismatch'')
      else rbind (map_err (\<lambda>_. ParseError ''ShardBuilder::build() produced invalid shard data'') (shard_parse C buf))
             (\<lambda>_. Inr buf))"

section \<open>Reachable builders\<close>

inductive sb_reach :: "ShardBuilder \<Rightarrow> bool" where
  sb_reach_new: "sb_reach sb_new"
| sb_reach_xorb: "sb_reach b \<Longrightarrow> add_xorb_with_raw_chunk_hashes b h n d cs raw = Inr (i, b') \<Longrightarrow> sb_reach b'"
| sb_reach_file: "sb_reach b \<Longrightarrow> sb_reach (add_file b h segs)"

definition sb_inv :: "ShardBuilder \<Rightarrow> bool" where
  "sb_inv b \<longleftrightarrow>
     map (\<lambda>e. (cl_xorb_hash e, cl_chunk_index e)) (sb_chunk_lookup_entries b) =
     concat (map (\<lambda>x. map (\<lambda>i. (xb_xorb_hash x, of_nat i)) [0..<length (xb_entry_chunks x)]) (sb_xorbs b))"

lemma map_enumerate_fst: "map (\<lambda>(i, h). f i) (enumerate n xs) = map f [n..<n + length xs]"
  using map_fst_enumerate [of n xs, symmetric] by (simp add: split_def del: map_fst_enumerate)

lemma sb_inv_new: "sb_inv sb_new"
  by (simp add: sb_inv_def sb_new_def)

lemma sb_inv_add_file: "sb_inv b \<Longrightarrow> sb_inv (add_file b h segs)"
  by (simp add: sb_inv_def add_file_def)

lemma sb_inv_add_xorb:
  assumes "sb_inv b" "add_xorb_with_raw_chunk_hashes b h n d cs raw = Inr (i, b')"
  shows "sb_inv b'"
proof -
  have "length cs = length raw" and b': "b' = b\<lparr>sb_xorbs := sb_xorbs b @ [\<lparr>xb_xorb_hash = h, xb_num_bytes_in_xorb = n,
      xb_num_bytes_on_disk = d, xb_entry_chunks = cs\<rparr>],
      sb_chunk_lookup_entries := sb_chunk_lookup_entries b @
        map (\<lambda>(i, k). \<lparr>cl_chunk_hash = k, cl_xorb_hash = h, cl_chunk_index = of_nat i\<rparr>) (enumerate 0 raw)\<rparr>"
    using assms(2)
    by (auto simp: add_xorb_with_raw_chunk_hashes_def add_xorb_unchecked_def Let_def split: if_splits)
  moreover have "map (\<lambda>e. (cl_xorb_hash e, cl_chunk_index e))
      (map (\<lambda>(i, k). \<lparr>cl_chunk_hash = k, cl_xorb_hash = h, cl_chunk_index = of_nat i\<rparr>) (enumerate 0 raw)) =
      map (\<lambda>i. (h, of_nat i)) [0..<length raw]"
    using map_enumerate_fst [of "\<lambda>i. (h, of_nat i :: u32)" 0 raw] by (simp add: o_def split_def)
  ultimately show ?thesis using assms(1) by (simp add: sb_inv_def)
qed

lemma sb_reach_inv: "sb_reach b \<Longrightarrow> sb_inv b"
  by (induction rule: sb_reach.induct) (auto intro: sb_inv_new sb_inv_add_file sb_inv_add_xorb)

lemma sb_inv_length:
  assumes "sb_inv b"
  shows "length (sb_chunk_lookup_entries b) = sum_list (map (\<lambda>x. length (xb_entry_chunks x)) (sb_xorbs b))"
proof -
  have "length (sb_chunk_lookup_entries b) =
      length (concat (map (\<lambda>x. map (\<lambda>i. (xb_xorb_hash x, of_nat i :: u32)) [0..<length (xb_entry_chunks x)]) (sb_xorbs b)))"
    using assms unfolding sb_inv_def by (metis length_map)
  then show ?thesis by (simp add: length_concat o_def)
qed

section \<open>Round trip\<close>

abbreviation file_groups :: "ShardBuilder \<Rightarrow> (FileDataSequenceHeader \<times> FileDataSequenceEntry list) list" where
  "file_groups b \<equiv> map (\<lambda>f. (file_header_of f, map file_entry_of (fb_segments f))) (sb_files b)"

abbreviation xorb_groups :: "ShardBuilder \<Rightarrow> (XorbChunkSequenceHeader \<times> XorbChunkSequenceEntry list) list" where
  "xorb_groups b \<equiv> map (\<lambda>x. (xorb_header_of x, map xorb_entry_of (xb_entry_chunks x))) (sb_xorbs b)"

abbreviation file_part :: "ShardBuilder \<Rightarrow> bytes" where
  "file_part b \<equiv> concat (map file_section.group_bytes (file_groups b))"

abbreviation xorb_part :: "ShardBuilder \<Rightarrow> bytes" where
  "xorb_part b \<equiv> concat (map xorb_section.group_bytes (xorb_groups b))"

abbreviation lookup_part :: "ShardBuilder \<Rightarrow> bytes" where
  "lookup_part b \<equiv> concat (map lookup_entry_serialize (sb_chunk_lookup_entries b))"

abbreviation header_part :: bytes where
  "header_part \<equiv> shard_header_serialize shard_header_default"

lemma sb_bytes_parts:
  "sb_bytes b = header_part @ file_part b @ xorb_part b @ lookup_part b @ shard_footer_serialize (sb_footer b)"
  by (simp add: sb_bytes_def file_section.group_bytes_def xorb_section.group_bytes_def o_def)

lemma header_part_length: "length header_part = 48"
  by (rule shard_header_codec.ser_width) (simp add: shard_header_default_def)

lemma footer_part_length: "length (shard_footer_serialize (sb_footer b)) = 208"
  by (rule shard_footer_codec.ser_width) (simp add: sb_footer_def Let_def)

lemma part_lengths:
  "length (file_part b) = file_section_size b" "length (xorb_part b) = xorb_section_size b"
  "length (lookup_part b) = chunk_lookup_section_size b"
  by (simp_all add: length_concat o_def file_section.group_bytes_length xorb_section.group_bytes_length
      file_section_size_def xorb_section_size_def chunk_lookup_section_size_def mult.commute
      lookup_entry_codec.ser_width sum_list_triv)

lemma sb_bytes_length: "length (sb_bytes b) = sb_total_size b"
  unfolding sb_bytes_parts length_append part_lengths header_part_length footer_part_length sb_total_size_def
  by simp

text \<open>The counts fit their fields.\<close>

definition sb_fits :: "ShardBuilder \<Rightarrow> bool" where
  "sb_fits b \<longleftrightarrow> list_all (\<lambda>f. length (fb_segments f) < 2 ^ 32) (sb_files b) \<and>
     list_all (\<lambda>x. length (xb_entry_chunks x) < 2 ^ 32) (sb_xorbs b) \<and> sb_total_size b < 2 ^ 64"

lemma groups_counts:
  assumes "sb_fits b"
  shows "list_all (\<lambda>g. unat (fh_num_entries (fst g)) = length (snd g)) (file_groups b)"
    "list_all (\<lambda>g. unat (xh_num_entries (fst g)) = length (snd g)) (xorb_groups b)"
  using assms
  by (auto simp: sb_fits_def list_all_iff file_header_of_def xorb_header_of_def unat_of_nat_u32)

lemma length_le_sum48: "length xs \<le> sum_list (map (\<lambda>x. 48 + f x) xs)" for f :: "'x \<Rightarrow> nat"
  by (induction xs) auto

lemma count_le_size:
  "length (sb_files b) \<le> file_section_size b" "length (sb_xorbs b) \<le> xorb_section_size b"
  "length (sb_chunk_lookup_entries b) \<le> chunk_lookup_section_size b"
  unfolding file_section_size_def xorb_section_size_def chunk_lookup_section_size_def
  by (rule length_le_sum48, rule length_le_sum48, simp)

lemma footer_fields:
  assumes "sb_fits b"
  shows "unat (footer_offset (sb_footer b)) = sb_total_size b - 208"
    "sb_files b \<noteq> [] \<Longrightarrow> unat (file_info_offset (sb_footer b)) = 48 \<and> unat (file_lookup_offset (sb_footer b)) = 48 + file_section_size b"
    "sb_xorbs b \<noteq> [] \<Longrightarrow> unat (xorb_info_offset (sb_footer b)) = 48 + file_section_size b \<and>
       unat (xorb_lookup_offset (sb_footer b)) = 48 + file_section_size b + xorb_section_size b"
    "sb_chunk_lookup_entries b \<noteq> [] \<Longrightarrow> unat (chunk_lookup_offset (sb_footer b)) = 48 + file_section_size b + xorb_section_size b"
    "unat (file_lookup_num_entry (sb_footer b)) = length (sb_files b)"
    "unat (xorb_lookup_num_entry (sb_footer b)) = length (sb_xorbs b)"
    "unat (chunk_lookup_num_entry (sb_footer b)) = length (sb_chunk_lookup_entries b)"
proof -
  have small: "n \<le> sb_total_size b \<Longrightarrow> unat (of_nat n :: u64) = n" for n
    using assms by (intro unat_of_nat_u64) (simp add: sb_fits_def)
  note c = count_le_size [of b]
  have le: "48 + file_section_size b \<le> sb_total_size b" "48 + file_section_size b + xorb_section_size b \<le> sb_total_size b"
    "48 + file_section_size b + xorb_section_size b + chunk_lookup_section_size b \<le> sb_total_size b"
    "length (sb_files b) \<le> sb_total_size b" "length (sb_xorbs b) \<le> sb_total_size b"
    "length (sb_chunk_lookup_entries b) \<le> sb_total_size b"
    using c by (simp_all add: sb_total_size_def)
  note sm = le [THEN small]
  show "unat (footer_offset (sb_footer b)) = sb_total_size b - 208"
    using sm(3) by (simp add: sb_footer_def Let_def sb_total_size_def del: of_nat_add)
  show "sb_files b \<noteq> [] \<Longrightarrow> unat (file_info_offset (sb_footer b)) = 48 \<and> unat (file_lookup_offset (sb_footer b)) = 48 + file_section_size b"
    using sm(1) by (simp add: sb_footer_def Let_def del: of_nat_add)
  show "sb_xorbs b \<noteq> [] \<Longrightarrow> unat (xorb_info_offset (sb_footer b)) = 48 + file_section_size b \<and>
       unat (xorb_lookup_offset (sb_footer b)) = 48 + file_section_size b + xorb_section_size b"
    using sm(1-3) by (simp add: sb_footer_def Let_def chunk_lookup_section_size_def del: of_nat_add)
  show "sb_chunk_lookup_entries b \<noteq> [] \<Longrightarrow> unat (chunk_lookup_offset (sb_footer b)) = 48 + file_section_size b + xorb_section_size b"
    using sm(2) by (simp add: sb_footer_def Let_def del: of_nat_add)
  show "unat (file_lookup_num_entry (sb_footer b)) = length (sb_files b)"
    "unat (xorb_lookup_num_entry (sb_footer b)) = length (sb_xorbs b)"
    "unat (chunk_lookup_num_entry (sb_footer b)) = length (sb_chunk_lookup_entries b)"
    using sm(4-6) by (simp_all add: sb_footer_def Let_def)
qed

lemma footer_zero:
  "sb_files b = [] \<Longrightarrow> file_info_offset (sb_footer b) = 0 \<and> file_lookup_offset (sb_footer b) = 0 \<and> file_lookup_num_entry (sb_footer b) = 0"
  "sb_xorbs b = [] \<Longrightarrow> xorb_info_offset (sb_footer b) = 0 \<and> xorb_lookup_offset (sb_footer b) = 0 \<and> xorb_lookup_num_entry (sb_footer b) = 0"
  "sb_chunk_lookup_entries b = [] \<Longrightarrow> chunk_lookup_offset (sb_footer b) = 0 \<and> chunk_lookup_num_entry (sb_footer b) = 0"
  by (simp_all add: sb_footer_def Let_def)

lemma file_stage_built:
  assumes "sb_fits b"
  shows "parse_file_stage (sb_bytes b) (sb_footer b) (sb_total_size b - 208) 48 =
    Inr ((map fst (file_groups b), concat (map snd (file_groups b)), map (fh_file_hash \<circ> fst) (file_groups b)),
         48 + file_section_size b)"
proof (cases "sb_files b = []")
  case True
  then show ?thesis by (simp add: parse_file_stage_def footer_zero file_section_size_def)
next
  case False
  have lt: "48 + file_section_size b < 2 ^ 64" "48 + file_section_size b \<le> sb_total_size b - 208"
    using assms by (simp_all add: sb_fits_def sb_total_size_def)
  have "parse_file_pair (sb_bytes b) (length header_part) (48 + file_section_size b) =
      Inr (map fst (file_groups b), concat (map snd (file_groups b)))"
    by (rule file_section.parse_complete [OF lt(1) groups_counts(1) [OF assms] sb_bytes_parts])
       (simp only: header_part_length part_lengths)
  then have "parse_file_section (sb_bytes b) 48 (48 + file_section_size b) =
      Inr (map fst (file_groups b), concat (map snd (file_groups b)), map fh_file_hash (map fst (file_groups b)))"
    unfolding parse_file_section_pair header_part_length by simp
  moreover have "file_info_offset (sb_footer b) \<noteq> 0" using False by (simp add: sb_footer_def Let_def)
  ultimately show ?thesis
    using footer_fields(2) [OF assms False] footer_fields(5) [OF assms] lt(2)
    by (simp add: parse_file_stage_def validate_section_bounds_def shard_sizes)
qed

lemma xorb_stage_built:
  assumes "sb_fits b"
  shows "parse_xorb_stage (sb_bytes b) (sb_footer b) (sb_total_size b - 208) (48 + file_section_size b) =
    Inr ((map fst (xorb_groups b), concat (map snd (xorb_groups b))), 48 + file_section_size b + xorb_section_size b)"
proof (cases "sb_xorbs b = []")
  case True
  then show ?thesis by (simp add: parse_xorb_stage_def footer_zero xorb_section_size_def)
next
  case False
  let ?e = "48 + file_section_size b + xorb_section_size b"
  have lt: "?e < 2 ^ 64" "?e \<le> sb_total_size b - 208"
    using assms by (simp_all add: sb_fits_def sb_total_size_def)
  have pre: "sb_bytes b = (header_part @ file_part b) @ xorb_part b @ lookup_part b @ shard_footer_serialize (sb_footer b)"
    by (simp only: sb_bytes_parts append_assoc)
  have "parse_xorb_section (sb_bytes b) (length (header_part @ file_part b)) ?e =
      Inr (map fst (xorb_groups b), concat (map snd (xorb_groups b)))"
    by (rule xorb_section.parse_complete [OF lt(1) groups_counts(2) [OF assms] pre])
       (simp only: header_part_length part_lengths length_append)
  then have "parse_xorb_section (sb_bytes b) (48 + file_section_size b) ?e =
      Inr (map fst (xorb_groups b), concat (map snd (xorb_groups b)))"
    unfolding length_append header_part_length part_lengths .
  moreover have "xorb_info_offset (sb_footer b) \<noteq> 0"
    using footer_fields(3) [OF assms False] by (auto simp: unat_eq_zero)
  ultimately show ?thesis
    using footer_fields(3) [OF assms False] footer_fields(6) [OF assms] lt(2)
    by (simp add: parse_xorb_stage_def validate_section_bounds_def shard_sizes)
qed

lemma lookup_stage_built:
  assumes "sb_fits b" "has_chunks \<longleftrightarrow> sb_chunk_lookup_entries b \<noteq> []"
  shows "parse_lookup_stage (sb_bytes b) (sb_footer b) (sb_total_size b - 208)
      (48 + file_section_size b + xorb_section_size b) has_chunks =
    Inr (sb_chunk_lookup_entries b, sb_total_size b - 208)"
proof (cases "sb_chunk_lookup_entries b = []")
  case True
  then show ?thesis using assms
    by (simp add: parse_lookup_stage_def footer_zero sb_total_size_def chunk_lookup_section_size_def)
next
  case False
  let ?o = "48 + file_section_size b + xorb_section_size b"
  have len: "length (header_part @ file_part b @ xorb_part b) = ?o"
    by (simp only: length_append header_part_length part_lengths add.assoc)
  have pre: "sb_bytes b = (header_part @ file_part b @ xorb_part b) @ lookup_part b @ shard_footer_serialize (sb_footer b)"
    by (simp only: sb_bytes_parts append_assoc)
  have "drop ?o (sb_bytes b) = lookup_part b @ shard_footer_serialize (sb_footer b)"
    unfolding pre len [symmetric] by (rule drop_length_append [OF refl])
  then have rd: "read_n lookup_entry_deserialize (length (sb_chunk_lookup_entries b)) (drop ?o (sb_bytes b)) =
      Inr (sb_chunk_lookup_entries b, shard_footer_serialize (sb_footer b))"
    using lookup_entry_codec.read_n_sers [of "sb_chunk_lookup_entries b"] by (simp add: list_all_iff)
  have fin: "?o + length (sb_chunk_lookup_entries b) * 68 = sb_total_size b - 208" "sb_total_size b < 2 ^ 64"
    using assms by (simp_all add: sb_total_size_def chunk_lookup_section_size_def sb_fits_def)
  have nz: "chunk_lookup_offset (sb_footer b) \<noteq> 0" "chunk_lookup_num_entry (sb_footer b) \<noteq> 0"
    using footer_fields(4,7) [OF assms(1)] False by (auto simp: unat_eq_zero)
  have small: "length (sb_chunk_lookup_entries b) * 68 < 2 ^ 64" "sb_total_size b - 208 < 2 ^ 64"
    using fin by linarith+
  show ?thesis
    using footer_fields(4,7) [OF assms(1)] False rd fin(1) nz small
    by (simp add: parse_lookup_stage_def shard_sizes Let_def)
qed

lemma parse_built:
  assumes fits: "sb_fits b" and inv: "sb_inv b"
  shows "shard_parse C (sb_bytes b) =
    Inr \<lparr>s_header = shard_header_default, s_footer = sb_footer b,
      file_entries = map file_header_of (sb_files b),
      file_data_entries = map file_entry_of (concat (map fb_segments (sb_files b))),
      xorb_entries = map xorb_header_of (sb_xorbs b),
      xorb_chunk_entries = map xorb_entry_of (concat (map xb_entry_chunks (sb_xorbs b))),
      chunk_lookup_entries = sb_chunk_lookup_entries b, s_file_hashes = map fb_file_hash (sb_files b),
      chunk_mappings = map (\<lambda>e. (cl_chunk_hash e, cl_xorb_hash e, cl_chunk_index e)) (sb_chunk_lookup_entries b),
      s_hash = mh_to_hex C (compute_data_hash C (sb_bytes b))\<rparr>"
proof -
  let ?fs = "sb_total_size b - 208"
  have total: "sb_total_size b < 2 ^ 64" "256 \<le> sb_total_size b"
    using fits by (simp_all add: sb_fits_def sb_total_size_def)
  have hd: "shard_header_deserialize (sb_bytes b) = Inr (shard_header_default, drop 48 (sb_bytes b))"
    using shard_header_codec.deser_ser [of shard_header_default] shard_header_codec.deser_consumes
    unfolding sb_bytes_parts by (simp add: shard_header_default_def header_part_length [unfolded shard_header_default_def])
  have len: "length (header_part @ file_part b @ xorb_part b @ lookup_part b) = ?fs"
    unfolding length_append header_part_length part_lengths by (simp add: sb_total_size_def)
  have pre: "sb_bytes b = (header_part @ file_part b @ xorb_part b @ lookup_part b) @ shard_footer_serialize (sb_footer b)"
    by (simp only: sb_bytes_parts append_assoc)
  have "drop ?fs (sb_bytes b) = shard_footer_serialize (sb_footer b)"
    unfolding pre len [symmetric] by (rule drop_length_append [OF refl])
  then have ft: "shard_footer_deserialize (drop ?fs (sb_bytes b)) = Inr (sb_footer b, [])"
    using shard_footer_codec.deser_ser [of "sb_footer b" "[]"] by (simp add: sb_footer_def Let_def)
  have lens: "length (sb_chunk_lookup_entries b) = length (concat (map xb_entry_chunks (sb_xorbs b)))"
    using sb_inv_length [OF inv] by (simp add: length_concat o_def)
  have maps: "concat (map snd (file_groups b)) = map file_entry_of (concat (map fb_segments (sb_files b)))"
    "concat (map snd (xorb_groups b)) = map xorb_entry_of (concat (map xb_entry_chunks (sb_xorbs b)))"
    "map fst (file_groups b) = map file_header_of (sb_files b)" "map fst (xorb_groups b) = map xorb_header_of (sb_xorbs b)"
    "map (fh_file_hash \<circ> fst) (file_groups b) = map fb_file_hash (sb_files b)"
    by (simp_all add: map_concat o_def file_header_of_def)
  have ne: "concat (map snd (xorb_groups b)) \<noteq> [] \<longleftrightarrow> sb_chunk_lookup_entries b \<noteq> []"
    unfolding maps using lens by (metis length_0_conv length_map)
  note stages = file_stage_built [OF fits] xorb_stage_built [OF fits] lookup_stage_built [OF fits ne]
  have vers: "sf_version (sb_footer b) = 2" "sh_version shard_header_default = 2"
    "unat (sh_footer_size shard_header_default) = 208"
    by (simp_all add: sb_footer_def Let_def shard_header_default_def)
  show ?thesis
    using total hd ft stages footer_fields(1) [OF fits] vers lens
    unfolding shard_parse_def parse_reader_def sb_bytes_length shard_sizes Let_def maps
    by simp
qed

section \<open>Properties\<close>

text \<open>
  C36. Shard round trip: whatever sequence of registrations produced a builder, if its counts
  fit their fields then building succeeds, and parsing the result yields exactly the
  registered files with their segments, the xorbs with their chunks, the raw chunk hashes
  with their positions, and the content hash of the bytes.
\<close>

theorem shard_build_parse_roundtrip:
  assumes "sb_reach b" "sb_fits b"
  shows "\<exists>buf s. sb_build C b = Inr buf \<and> shard_parse C buf = Inr s \<and>
    file_entries s = map file_header_of (sb_files b) \<and>
    file_data_entries s = map file_entry_of (concat (map fb_segments (sb_files b))) \<and>
    xorb_entries s = map xorb_header_of (sb_xorbs b) \<and>
    xorb_chunk_entries s = map xorb_entry_of (concat (map xb_entry_chunks (sb_xorbs b))) \<and>
    chunk_mappings s = map (\<lambda>e. (cl_chunk_hash e, cl_xorb_hash e, cl_chunk_index e)) (sb_chunk_lookup_entries b) \<and>
    s_file_hashes s = map fb_file_hash (sb_files b) \<and> s_hash s = mh_to_hex C (compute_data_hash C buf)"
  using parse_built [OF assms(2) sb_reach_inv [OF assms(1)], of C] by (simp add: sb_build_def sb_bytes_length)

definition demo_shard_builder :: ShardBuilder where
  "demo_shard_builder =
     add_file (snd (projr (add_xorb_with_raw_chunk_hashes sb_new (MerkleHash 1 0 0 0) 256 128
       [\<lparr>xc_chunk_hash = MerkleHash 2 0 0 0, xc_chunk_byte_range_start = 0, xc_unpacked_segment_bytes = 256\<rparr>]
       [MerkleHash 3 0 0 0]))) (MerkleHash 4 0 0 0)
       [\<lparr>fs_xorb_hash = MerkleHash 1 0 0 0, fs_xorb_index = 0, fs_chunk_index_start = 0, fs_chunk_index_end = 1,
         fs_unpacked_segment_bytes = 256\<rparr>]"

lemma sb_reach_projr:
  assumes "sb_reach b" "length cs = length raw"
  shows "sb_reach (snd (projr (add_xorb_with_raw_chunk_hashes b h n d cs raw)))"
  by (rule sb_reach_xorb [OF assms(1), of h n d cs raw "length (sb_xorbs b)"])
     (simp add: add_xorb_with_raw_chunk_hashes_def add_xorb_unchecked_def assms(2))

lemma demo_shard_reach: "sb_reach demo_shard_builder"
  unfolding demo_shard_builder_def by (intro sb_reach_file sb_reach_projr sb_reach_new) simp

lemma demo_shard_fits: "sb_fits demo_shard_builder"
  by (simp add: sb_fits_def demo_shard_builder_def add_file_def add_xorb_with_raw_chunk_hashes_def
      add_xorb_unchecked_def sb_new_def sb_total_size_def file_section_size_def xorb_section_size_def
      chunk_lookup_section_size_def)

theorem shard_build_parse_roundtrip_witness:
  "\<exists>buf s. sb_build inst_crates demo_shard_builder = Inr buf \<and> shard_parse inst_crates buf = Inr s \<and>
    s_file_hashes s = [MerkleHash 4 0 0 0] \<and> chunk_mappings s = [(MerkleHash 3 0 0 0, MerkleHash 1 0 0 0, 0)]"
  using shard_build_parse_roundtrip [OF demo_shard_reach demo_shard_fits, of inst_crates]
  by (auto simp: demo_shard_builder_def add_file_def add_xorb_with_raw_chunk_hashes_def add_xorb_unchecked_def sb_new_def)

text \<open>The tiling theorem of the parser at a built shard.\<close>

theorem shard_parse_tiles_witness:
  "\<exists>buf s. sb_build inst_crates demo_shard_builder = Inr buf \<and> shard_parse inst_crates buf = Inr s \<and>
    length (chunk_lookup_entries s) = length (xorb_chunk_entries s)"
proof -
  obtain s where "shard_parse inst_crates (sb_bytes demo_shard_builder) = Inr s"
    "sb_build inst_crates demo_shard_builder = Inr (sb_bytes demo_shard_builder)"
    using parse_built [OF demo_shard_fits sb_reach_inv [OF demo_shard_reach], of inst_crates]
    by (simp add: sb_build_def sb_bytes_length)
  with shard_parse_tiles [OF this(1)] show ?thesis by blast
qed

text \<open>
  Builder invariant: in every reachable builder the lookup section lists, for each
  registered xorb in order, one entry per chunk with that xorb's hash and the chunk's index;
  registering a xorb with the wrong number of raw hashes is refused.
\<close>

theorem builder_lookup_matches_chunks:
  "(sb_reach b \<longrightarrow>
     map (\<lambda>e. (cl_xorb_hash e, cl_chunk_index e)) (sb_chunk_lookup_entries b) =
     concat (map (\<lambda>x. map (\<lambda>i. (xb_xorb_hash x, of_nat i)) [0..<length (xb_entry_chunks x)]) (sb_xorbs b))) \<and>
   (length cs \<noteq> length raw \<longrightarrow>
     add_xorb_with_raw_chunk_hashes b h n d cs raw = Inl (ParseError ''raw chunk hash count mismatch''))"
  using sb_reach_inv [of b] by (simp add: sb_inv_def add_xorb_with_raw_chunk_hashes_def)

theorem builder_lookup_matches_chunks_witness:
  "map (\<lambda>e. (cl_xorb_hash e, cl_chunk_index e)) (sb_chunk_lookup_entries demo_shard_builder) = [(MerkleHash 1 0 0 0, 0)]"
  using builder_lookup_matches_chunks [of demo_shard_builder "[]" "[mh_new]"] demo_shard_reach
  by (simp add: demo_shard_builder_def add_file_def add_xorb_with_raw_chunk_hashes_def add_xorb_unchecked_def sb_new_def)

end
