(* ===== verification/Reconstruction_Plan.thy ===== *)
theory Reconstruction_Plan
  imports Shard_Builder
begin

text \<open>
  The chunk plan of \<^verbatim>\<open>src/src/reconstruction_plan.rs\<close>: from a parsed shard and a file hash, the
  list of chunks to read, each with its xorb, its position in it and its two hashes. The
  hash maps of the source are partial functions; \<open>usize\<close> sums keep their overflow checks.

  The lemmas show what an accepted plan says: its chunks are the shard's table entries of the
  file's segments, in order, with their raw hashes, and its byte total is the sum of the
  chunk lengths and of the declared segment lengths.
\<close>

record PlannedChunk =
  pc_xorb_hash :: merkle_hash
  pc_xorb_chunk_index :: u32
  pc_chunk_byte_range_start :: u32
  pc_unpacked_segment_bytes :: u32
  pc_serialized_chunk_hash :: merkle_hash
  pc_raw_chunk_hash :: merkle_hash

record PlannedFile =
  pf_file_hash :: merkle_hash
  pf_file_index :: nat
  pf_chunks :: "PlannedChunk list"
  pf_total_unpacked_bytes :: nat

text \<open>\<open>checked_add\<close> on \<open>usize\<close> and \<open>u64\<close> quantities held as naturals.\<close>

definition nat_checked_add :: "nat \<Rightarrow> nat \<Rightarrow> nat option" where
  "nat_checked_add a b = (if a + b < 2 ^ 64 then Some (a + b) else None)"

lemma nat_checked_add_Some: "nat_checked_add a b = Some c \<longleftrightarrow> a + b < 2 ^ 64 \<and> c = a + b"
  by (auto simp: nat_checked_add_def)

section \<open>Building the plan\<close>

definition plan_file_index :: "MDBShardFile \<Rightarrow> merkle_hash \<Rightarrow> nat option \<Rightarrow> nat xresult" where
  "plan_file_index shard hash expected =
     (case expected of
        Some index \<Rightarrow>
          if \<not> index < length (file_entries shard) then Inl (ParseError ''Expected file index out of bounds'')
          else if fh_file_hash (file_entries shard ! index) \<noteq> hash
          then Inl (ParseError ''Expected file index to contain file'')
          else Inr index
      | None \<Rightarrow>
          ok_or (find (\<lambda>i. fh_file_hash (file_entries shard ! i) = hash) [0..<length (file_entries shard)])
            (ParseError ''File not found in shard''))"

fun entries_before :: "FileDataSequenceHeader list \<Rightarrow> nat \<Rightarrow> nat xresult" where
  "entries_before [] acc = Inr acc"
| "entries_before (e # es) acc =
     rbind (ok_or (nat_checked_add acc (unat (fh_num_entries e))) (ParseError ''File entry offset overflow''))
       (entries_before es)"

fun collect_xorb_offsets ::
  "nat \<Rightarrow> XorbChunkSequenceHeader list \<Rightarrow> nat \<Rightarrow> (merkle_hash \<rightharpoonup> nat \<times> nat) \<Rightarrow> (merkle_hash \<rightharpoonup> nat \<times> nat) xresult" where
  "collect_xorb_offsets table_len [] off m = Inr m"
| "collect_xorb_offsets table_len (x # xs) off m =
     (if m (xh_xorb_hash x) \<noteq> None then Inl (ParseError ''duplicate xorb hash in shard reconstruction plan'')
      else let n = unat (xh_num_entries x) in
        if (case nat_checked_add off n of None \<Rightarrow> True | Some e \<Rightarrow> e > table_len)
        then Inl (ParseError ''Xorb chunk entries exceed shard chunk table'')
        else collect_xorb_offsets table_len xs (off + n) (m(xh_xorb_hash x \<mapsto> (off, n))))"

fun collect_raw_lookup ::
  "ChunkLookupEntry list \<Rightarrow> (merkle_hash \<times> u32 \<rightharpoonup> merkle_hash) \<Rightarrow> (merkle_hash \<times> u32 \<rightharpoonup> merkle_hash) xresult" where
  "collect_raw_lookup [] m = Inr m"
| "collect_raw_lookup (e # es) m =
     (let key = (cl_xorb_hash e, cl_chunk_index e) in
      if m key \<noteq> None then Inl (ParseError ''duplicate raw chunk lookup'')
      else collect_raw_lookup es (m(key \<mapsto> cl_chunk_hash e)))"

text \<open>The chunk loop of one segment, over the local indices.\<close>

fun plan_segment_chunks ::
  "MDBShardFile \<Rightarrow> (merkle_hash \<times> u32 \<rightharpoonup> merkle_hash) \<Rightarrow> FileDataSequenceEntry \<Rightarrow> nat \<Rightarrow> nat list \<Rightarrow> nat \<Rightarrow>
     (PlannedChunk list \<times> nat) xresult" where
  "plan_segment_chunks shard raw seg global_start [] bytes_so_far = Inr ([], bytes_so_far)"
| "plan_segment_chunks shard raw seg global_start (i # is) bytes_so_far =
     rbind (ok_or (nat_checked_add global_start i) (ParseError ''Global chunk index overflow'')) (\<lambda>g.
     rbind (ok_or (if g < length (xorb_chunk_entries shard) then Some (xorb_chunk_entries shard ! g) else None)
              (ParseError ''Global chunk index out of bounds'')) (\<lambda>ce.
     rbind (ok_or (raw (fe_xorb_hash seg, of_nat i)) (ParseError ''Missing raw chunk hash'')) (\<lambda>raw_hash.
     rbind (ok_or (nat_checked_add bytes_so_far (unat (xe_unpacked_segment_bytes ce)))
              (ParseError ''Segment byte total overflow'')) (\<lambda>bytes_so_far.
     rbind (plan_segment_chunks shard raw seg global_start is bytes_so_far) (\<lambda>(cs, tot).
     Inr (\<lparr>pc_xorb_hash = fe_xorb_hash seg, pc_xorb_chunk_index = of_nat i,
           pc_chunk_byte_range_start = xe_chunk_byte_range_start ce,
           pc_unpacked_segment_bytes = xe_unpacked_segment_bytes ce,
           pc_serialized_chunk_hash = xe_chunk_hash ce, pc_raw_chunk_hash = raw_hash\<rparr> # cs, tot))))))"

fun plan_segments ::
  "MDBShardFile \<Rightarrow> (merkle_hash \<rightharpoonup> nat \<times> nat) \<Rightarrow> (merkle_hash \<times> u32 \<rightharpoonup> merkle_hash) \<Rightarrow>
     FileDataSequenceEntry list \<Rightarrow> nat \<Rightarrow> (PlannedChunk list \<times> nat) xresult" where
  "plan_segments shard offs raw [] tot = Inr ([], tot)"
| "plan_segments shard offs raw (seg # segs) tot =
     (if fe_chunk_index_end seg < fe_chunk_index_start seg then Inl (ParseError ''File has invalid chunk range'')
      else
      rbind (ok_or (offs (fe_xorb_hash seg)) (ParseError ''File references missing xorb'')) (\<lambda>(global_start, n).
      let local_start = unat (fe_chunk_index_start seg); local_end = unat (fe_chunk_index_end seg) in
      if local_end > n then Inl (ParseError ''File references xorb chunk range beyond chunks'')
      else
      rbind (plan_segment_chunks shard raw seg global_start [local_start..<local_end] 0) (\<lambda>(cs, seg_bytes).
      if seg_bytes \<noteq> unat (fe_unpacked_segment_bytes seg) then Inl (ParseError ''File segment byte total mismatch'')
      else
      rbind (ok_or (nat_checked_add tot seg_bytes) (ParseError ''File byte total overflow'')) (\<lambda>tot.
      rbind (plan_segments shard offs raw segs tot) (\<lambda>(rest, tot).
      Inr (cs @ rest, tot))))))"

definition build_file_chunk_plan :: "MDBShardFile \<Rightarrow> merkle_hash \<Rightarrow> nat option \<Rightarrow> PlannedFile xresult" where
  "build_file_chunk_plan shard hash expected_file_index =
     rbind (plan_file_index shard hash expected_file_index) (\<lambda>file_index.
     rbind (entries_before (take file_index (file_entries shard)) 0) (\<lambda>file_entry_start.
     rbind (ok_or (nat_checked_add file_entry_start (unat (fh_num_entries (file_entries shard ! file_index))))
              (ParseError ''File entry end offset overflow'')) (\<lambda>file_entry_end.
     if file_entry_end > length (file_data_entries shard)
     then Inl (ParseError ''File entries exceed shard file data entries'')
     else
     rbind (collect_xorb_offsets (length (xorb_chunk_entries shard)) (xorb_entries shard) 0 Map.empty) (\<lambda>offs.
     rbind (collect_raw_lookup (chunk_lookup_entries shard) Map.empty) (\<lambda>raw.
     rbind (plan_segments shard offs raw
              (take (file_entry_end - file_entry_start) (drop file_entry_start (file_data_entries shard))) 0) (\<lambda>(chunks, tot).
     Inr \<lparr>pf_file_hash = hash, pf_file_index = file_index, pf_chunks = chunks,
          pf_total_unpacked_bytes = tot\<rparr>))))))"

section \<open>The tables a plan uses\<close>

lemma collect_raw_lookup_Inr:
  assumes "collect_raw_lookup es m = Inr m'"
  shows "m' k = Some h \<longleftrightarrow> m k = Some h \<or> (\<exists>e\<in>set es. (cl_xorb_hash e, cl_chunk_index e) = k \<and> cl_chunk_hash e = h)"
  using assms
proof (induction es arbitrary: m)
  case (Cons e es)
  let ?k = "(cl_xorb_hash e, cl_chunk_index e)"
  from Cons.prems have m: "m ?k = None" and rec: "collect_raw_lookup es (m(?k \<mapsto> cl_chunk_hash e)) = Inr m'"
    by (auto simp: Let_def split: if_splits)
  from Cons.IH [OF rec] m show ?case by auto
qed simp

lemma collect_raw_lookup_distinct:
  "collect_raw_lookup es m = Inr m' \<Longrightarrow> distinct (map (\<lambda>e. (cl_xorb_hash e, cl_chunk_index e)) es) \<and>
     (\<forall>e\<in>set es. m (cl_xorb_hash e, cl_chunk_index e) = None)"
proof (induction es arbitrary: m)
  case (Cons e es)
  let ?k = "(cl_xorb_hash e, cl_chunk_index e)"
  from Cons.prems have m: "m ?k = None" and rec: "collect_raw_lookup es (m(?k \<mapsto> cl_chunk_hash e)) = Inr m'"
    by (auto simp: Let_def split: if_splits)
  from Cons.IH [OF rec] m show ?case by (auto split: if_splits)
qed simp

lemma entries_before_Inr: "entries_before es acc = Inr n \<Longrightarrow> n = acc + sum_list (map (\<lambda>e. unat (fh_num_entries e)) es)"
proof (induction es arbitrary: acc)
  case (Cons e es)
  then have "entries_before es (acc + unat (fh_num_entries e)) = Inr n"
    by (auto simp: rbind_eq_Inr ok_or_eq_Inr nat_checked_add_Some)
  from Cons.IH [OF this] show ?case by simp
qed simp

text \<open>Where the chunk table of each xorb starts: the counts of the xorbs before it.\<close>

definition xorb_start :: "XorbChunkSequenceHeader list \<Rightarrow> nat \<Rightarrow> nat" where
  "xorb_start xs k = sum_list (map (\<lambda>x. unat (xh_num_entries x)) (take k xs))"

lemma collect_xorb_offsets_Inr:
  assumes "collect_xorb_offsets len xs off m = Inr m'" "m' h = Some (g, n)"
  shows "m h = Some (g, n) \<or> (\<exists>k<length xs. xh_xorb_hash (xs ! k) = h \<and> n = unat (xh_num_entries (xs ! k)) \<and>
    g = off + xorb_start xs k \<and> g + n \<le> len)"
  using assms
proof (induction xs arbitrary: off m)
  case (Cons x xs)
  let ?n = "unat (xh_num_entries x)"
  from Cons.prems have rec: "collect_xorb_offsets len xs (off + ?n) (m(xh_xorb_hash x \<mapsto> (off, ?n))) = Inr m'"
    and le: "off + ?n \<le> len"
    by (auto simp: Let_def nat_checked_add_def split: if_splits option.splits)
  from Cons.IH [OF rec Cons.prems(2)] show ?case
  proof
    assume "(m(xh_xorb_hash x \<mapsto> (off, ?n))) h = Some (g, n)"
    then show ?thesis using le by (auto simp: xorb_start_def split: if_splits intro: exI [of _ 0])
  next
    assume "\<exists>k<length xs. xh_xorb_hash (xs ! k) = h \<and> n = unat (xh_num_entries (xs ! k)) \<and>
      g = off + ?n + xorb_start xs k \<and> g + n \<le> len"
    then obtain k where "k < length xs" "xh_xorb_hash (xs ! k) = h" "n = unat (xh_num_entries (xs ! k))"
      "g = off + ?n + xorb_start xs k" "g + n \<le> len" by blast
    then show ?thesis by (intro disjI2 exI [of _ "Suc k"]) (simp add: xorb_start_def)
  qed
qed simp

section \<open>What a plan says\<close>

text \<open>A planned chunk is the shard's entry for that chunk of that xorb, with its raw hash.\<close>

definition planned_ok :: "MDBShardFile \<Rightarrow> PlannedChunk \<Rightarrow> bool" where
  "planned_ok shard c \<longleftrightarrow>
     (\<exists>k<length (xorb_entries shard). xh_xorb_hash (xorb_entries shard ! k) = pc_xorb_hash c \<and>
       unat (pc_xorb_chunk_index c) < unat (xh_num_entries (xorb_entries shard ! k)) \<and>
       (let g = xorb_start (xorb_entries shard) k + unat (pc_xorb_chunk_index c) in
        g < length (xorb_chunk_entries shard) \<and>
        pc_chunk_byte_range_start c = xe_chunk_byte_range_start (xorb_chunk_entries shard ! g) \<and>
        pc_unpacked_segment_bytes c = xe_unpacked_segment_bytes (xorb_chunk_entries shard ! g) \<and>
        pc_serialized_chunk_hash c = xe_chunk_hash (xorb_chunk_entries shard ! g))) \<and>
     (\<exists>e\<in>set (chunk_lookup_entries shard). cl_xorb_hash e = pc_xorb_hash c \<and>
        cl_chunk_index e = pc_xorb_chunk_index c \<and> cl_chunk_hash e = pc_raw_chunk_hash c)"

lemma plan_segment_chunks_Inr:
  assumes "plan_segment_chunks shard raw seg g0 is b0 = Inr (cs, b)" "\<forall>i\<in>set is. i < 2 ^ 32"
  shows "map (\<lambda>c. unat (pc_xorb_chunk_index c)) cs = is \<and>
    b = b0 + sum_list (map (\<lambda>c. unat (pc_unpacked_segment_bytes c)) cs) \<and>
    (\<forall>c\<in>set cs. pc_xorb_hash c = fe_xorb_hash seg \<and>
      (let g = g0 + unat (pc_xorb_chunk_index c) in g < length (xorb_chunk_entries shard) \<and>
        pc_chunk_byte_range_start c = xe_chunk_byte_range_start (xorb_chunk_entries shard ! g) \<and>
        pc_unpacked_segment_bytes c = xe_unpacked_segment_bytes (xorb_chunk_entries shard ! g) \<and>
        pc_serialized_chunk_hash c = xe_chunk_hash (xorb_chunk_entries shard ! g)) \<and>
      raw (fe_xorb_hash seg, pc_xorb_chunk_index c) = Some (pc_raw_chunk_hash c))"
  using assms
proof (induction "is" arbitrary: b0 cs)
  case (Cons i "is")
  have i: "unat (of_nat i :: u32) = i" using Cons.prems(2) by (simp add: unat_of_nat_u32)
  from Cons.prems(1) obtain raw_hash cs' where
    c: "g0 + i < length (xorb_chunk_entries shard)" "raw (fe_xorb_hash seg, of_nat i) = Some raw_hash"
    "plan_segment_chunks shard raw seg g0 is (b0 + unat (xe_unpacked_segment_bytes (xorb_chunk_entries shard ! (g0 + i)))) = Inr (cs', b)"
    "cs = \<lparr>pc_xorb_hash = fe_xorb_hash seg, pc_xorb_chunk_index = of_nat i,
           pc_chunk_byte_range_start = xe_chunk_byte_range_start (xorb_chunk_entries shard ! (g0 + i)),
           pc_unpacked_segment_bytes = xe_unpacked_segment_bytes (xorb_chunk_entries shard ! (g0 + i)),
           pc_serialized_chunk_hash = xe_chunk_hash (xorb_chunk_entries shard ! (g0 + i)),
           pc_raw_chunk_hash = raw_hash\<rparr> # cs'"
    by (auto simp: rbind_eq_Inr ok_or_eq_Inr nat_checked_add_Some split: if_splits)
  have "\<forall>i\<in>set is. i < 2 ^ 32" using Cons.prems(2) by simp
  from Cons.IH [OF c(3) this] show ?case using c i by (simp add: Let_def)
qed simp

lemma plan_segments_Inr:
  assumes offs: "\<And>h g n. offs h = Some (g, n) \<Longrightarrow> \<exists>k<length (xorb_entries shard). xh_xorb_hash (xorb_entries shard ! k) = h \<and>
      n = unat (xh_num_entries (xorb_entries shard ! k)) \<and> g = xorb_start (xorb_entries shard) k"
    and raw: "\<And>k h. raw k = Some h \<Longrightarrow> \<exists>e\<in>set (chunk_lookup_entries shard). (cl_xorb_hash e, cl_chunk_index e) = k \<and> cl_chunk_hash e = h"
  shows "plan_segments shard offs raw segs t0 = Inr (cs, t) \<Longrightarrow>
    list_all (planned_ok shard) cs \<and> t = t0 + sum_list (map (\<lambda>c. unat (pc_unpacked_segment_bytes c)) cs) \<and>
    t = t0 + sum_list (map (\<lambda>s. unat (fe_unpacked_segment_bytes s)) segs) \<and>
    map (\<lambda>c. (pc_xorb_hash c, unat (pc_xorb_chunk_index c))) cs =
      concat (map (\<lambda>s. map (Pair (fe_xorb_hash s)) [unat (fe_chunk_index_start s)..<unat (fe_chunk_index_end s)]) segs)"
proof (induction segs arbitrary: t0 cs)
  case (Cons seg segs)
  let ?is = "[unat (fe_chunk_index_start seg)..<unat (fe_chunk_index_end seg)]"
  from Cons.prems obtain g n cs1 b cs2 where
    p: "offs (fe_xorb_hash seg) = Some (g, n)" "unat (fe_chunk_index_end seg) \<le> n"
    "plan_segment_chunks shard raw seg g ?is 0 = Inr (cs1, b)" "b = unat (fe_unpacked_segment_bytes seg)"
    "plan_segments shard offs raw segs (t0 + b) = Inr (cs2, t)" "cs = cs1 @ cs2"
    by (auto simp: rbind_eq_Inr ok_or_eq_Inr nat_checked_add_Some Let_def if_Inl_eq_Inr not_less split: if_splits)
  have small: "\<forall>i\<in>set ?is. i < 2 ^ 32" using unat_u32_less [of "fe_chunk_index_end seg"] by auto
  note seg = plan_segment_chunks_Inr [OF p(3) small]
  obtain k where k: "k < length (xorb_entries shard)" "xh_xorb_hash (xorb_entries shard ! k) = fe_xorb_hash seg"
    "n = unat (xh_num_entries (xorb_entries shard ! k))" "g = xorb_start (xorb_entries shard) k"
    using offs [OF p(1)] by blast
  have idx: "unat (pc_xorb_chunk_index c) < n" if "c \<in> set cs1" for c
  proof -
    have "unat (pc_xorb_chunk_index c) \<in> set (map (\<lambda>c. unat (pc_xorb_chunk_index c)) cs1)" using that by simp
    then have "unat (pc_xorb_chunk_index c) \<in> set ?is" using seg by simp
    then show ?thesis using p(2) by simp
  qed
  have ok: "planned_ok shard c" if "c \<in> set cs1" for c
    using seg that idx [OF that] k raw [of "(pc_xorb_hash c, pc_xorb_chunk_index c)" "pc_raw_chunk_hash c"]
    unfolding planned_ok_def by (intro conjI exI [of _ k]) (auto simp: Let_def)
  have hashes: "map (\<lambda>c. (pc_xorb_hash c, unat (pc_xorb_chunk_index c))) cs1 = map (Pair (fe_xorb_hash seg)) ?is"
  proof -
    have "map (\<lambda>c. (pc_xorb_hash c, unat (pc_xorb_chunk_index c))) cs1 =
        map (\<lambda>c. (fe_xorb_hash seg, unat (pc_xorb_chunk_index c))) cs1" using seg by simp
    also have "\<dots> = map (Pair (fe_xorb_hash seg)) (map (\<lambda>c. unat (pc_xorb_chunk_index c)) cs1)" by simp
    finally show ?thesis using seg by simp
  qed
  have "list_all (planned_ok shard) cs1" using ok by (simp add: list_all_iff)
  with Cons.IH [OF p(5)] seg p(4,6) hashes show ?case by simp
qed simp

lemma build_plan_Inr:
  assumes "build_file_chunk_plan shard hash expected = Inr plan"
  obtains start offs raw where
    "pf_file_index plan < length (file_entries shard)" "fh_file_hash (file_entries shard ! pf_file_index plan) = hash"
    "pf_file_hash plan = hash" "expected = None \<or> expected = Some (pf_file_index plan)"
    "start = sum_list (map (\<lambda>e. unat (fh_num_entries e)) (take (pf_file_index plan) (file_entries shard)))"
    "start + unat (fh_num_entries (file_entries shard ! pf_file_index plan)) \<le> length (file_data_entries shard)"
    "collect_xorb_offsets (length (xorb_chunk_entries shard)) (xorb_entries shard) 0 Map.empty = Inr offs"
    "collect_raw_lookup (chunk_lookup_entries shard) Map.empty = Inr raw"
    "plan_segments shard offs raw (take (unat (fh_num_entries (file_entries shard ! pf_file_index plan)))
       (drop start (file_data_entries shard))) 0 = Inr (pf_chunks plan, pf_total_unpacked_bytes plan)"
proof -
  from assms obtain i start offs raw where
    i: "plan_file_index shard hash expected = Inr i" and
    p: "entries_before (take i (file_entries shard)) 0 = Inr start"
    "start + unat (fh_num_entries (file_entries shard ! i)) \<le> length (file_data_entries shard)"
    "collect_xorb_offsets (length (xorb_chunk_entries shard)) (xorb_entries shard) 0 Map.empty = Inr offs"
    "collect_raw_lookup (chunk_lookup_entries shard) Map.empty = Inr raw"
    "plan_segments shard offs raw (take (unat (fh_num_entries (file_entries shard ! i)))
       (drop start (file_data_entries shard))) 0 = Inr (pf_chunks plan, pf_total_unpacked_bytes plan)"
    "pf_file_hash plan = hash" "pf_file_index plan = i"
    by (auto simp: build_file_chunk_plan_def rbind_eq_Inr ok_or_eq_Inr nat_checked_add_Some not_less split: if_splits)
  have "i < length (file_entries shard)" "fh_file_hash (file_entries shard ! i) = hash" "expected = None \<or> expected = Some i"
    using i by (auto simp: plan_file_index_def ok_or_eq_Inr find_upt_Some split: option.splits if_splits)
  with p entries_before_Inr [OF p(1)] that show ?thesis by simp
qed

definition file_segments :: "MDBShardFile \<Rightarrow> nat \<Rightarrow> FileDataSequenceEntry list" where
  "file_segments shard i =
     take (unat (fh_num_entries (file_entries shard ! i)))
       (drop (sum_list (map (\<lambda>e. unat (fh_num_entries e)) (take i (file_entries shard)))) (file_data_entries shard))"

lemma build_plan_sound:
  assumes "build_file_chunk_plan shard hash expected = Inr plan"
  shows "pf_file_index plan < length (file_entries shard) \<and>
    fh_file_hash (file_entries shard ! pf_file_index plan) = hash \<and>
    list_all (planned_ok shard) (pf_chunks plan) \<and>
    map (\<lambda>c. (pc_xorb_hash c, unat (pc_xorb_chunk_index c))) (pf_chunks plan) =
      concat (map (\<lambda>s. map (Pair (fe_xorb_hash s)) [unat (fe_chunk_index_start s)..<unat (fe_chunk_index_end s)])
        (file_segments shard (pf_file_index plan))) \<and>
    pf_total_unpacked_bytes plan = sum_list (map (\<lambda>c. unat (pc_unpacked_segment_bytes c)) (pf_chunks plan)) \<and>
    pf_total_unpacked_bytes plan = sum_list (map (\<lambda>s. unat (fe_unpacked_segment_bytes s)) (file_segments shard (pf_file_index plan)))"
proof -
  from assms obtain start offs raw where
    p: "pf_file_index plan < length (file_entries shard)" "fh_file_hash (file_entries shard ! pf_file_index plan) = hash"
    "start = sum_list (map (\<lambda>e. unat (fh_num_entries e)) (take (pf_file_index plan) (file_entries shard)))"
    "collect_xorb_offsets (length (xorb_chunk_entries shard)) (xorb_entries shard) 0 Map.empty = Inr offs"
    "collect_raw_lookup (chunk_lookup_entries shard) Map.empty = Inr raw"
    "plan_segments shard offs raw (take (unat (fh_num_entries (file_entries shard ! pf_file_index plan)))
       (drop start (file_data_entries shard))) 0 = Inr (pf_chunks plan, pf_total_unpacked_bytes plan)"
    by (rule build_plan_Inr)
  have offs: "\<exists>k<length (xorb_entries shard). xh_xorb_hash (xorb_entries shard ! k) = h \<and>
      n = unat (xh_num_entries (xorb_entries shard ! k)) \<and> g = xorb_start (xorb_entries shard) k"
    if "offs h = Some (g, n)" for h g n
    using collect_xorb_offsets_Inr [OF p(4) that] by auto
  have raw: "\<exists>e\<in>set (chunk_lookup_entries shard). (cl_xorb_hash e, cl_chunk_index e) = k \<and> cl_chunk_hash e = h"
    if "raw k = Some h" for k h
    using collect_raw_lookup_Inr [OF p(5), of k h] that by simp
  from plan_segments_Inr [OF offs raw p(6)] p show ?thesis by (simp add: file_segments_def)
qed

section \<open>Properties\<close>

text \<open>
  Soundness of the reconstruction plan: an accepted plan is for the file with the
  requested hash; its chunks are, in order, exactly the chunk ranges of that file's segments,
  each with the byte offset, length and serialized hash the shard's xorb table states for it
  and the raw hash the lookup section states; and its byte total is both the sum of the
  chunk lengths and the sum of the declared segment lengths.
\<close>

theorem reconstruction_plan_sound:
  assumes "build_file_chunk_plan shard hash expected = Inr plan"
  shows "pf_file_index plan < length (file_entries shard) \<and>
    fh_file_hash (file_entries shard ! pf_file_index plan) = hash \<and>
    list_all (planned_ok shard) (pf_chunks plan) \<and>
    map (\<lambda>c. (pc_xorb_hash c, unat (pc_xorb_chunk_index c))) (pf_chunks plan) =
      concat (map (\<lambda>s. map (Pair (fe_xorb_hash s)) [unat (fe_chunk_index_start s)..<unat (fe_chunk_index_end s)])
        (file_segments shard (pf_file_index plan))) \<and>
    pf_total_unpacked_bytes plan = sum_list (map (\<lambda>c. unat (pc_unpacked_segment_bytes c)) (pf_chunks plan)) \<and>
    pf_total_unpacked_bytes plan = sum_list (map (\<lambda>s. unat (fe_unpacked_segment_bytes s)) (file_segments shard (pf_file_index plan)))"
  by (rule build_plan_sound [OF assms])

definition demo_shard :: MDBShardFile where
  "demo_shard =
     \<lparr>s_header = shard_header_default, s_footer = sb_footer sb_new,
      file_entries = [\<lparr>fh_file_hash = MerkleHash 4 0 0 0, fh_file_flags = 0, fh_num_entries = 1\<rparr>],
      file_data_entries = [\<lparr>fe_xorb_hash = MerkleHash 1 0 0 0, fe_xorb_flags = 0, fe_unpacked_segment_bytes = 7,
        fe_chunk_index_start = 1, fe_chunk_index_end = 2\<rparr>],
      xorb_entries = [\<lparr>xh_xorb_hash = MerkleHash 1 0 0 0, xh_xorb_flags = 0, xh_num_entries = 2,
        xh_num_bytes_in_xorb = 12, xh_num_bytes_on_disk = 12\<rparr>],
      xorb_chunk_entries = [\<lparr>xe_chunk_hash = MerkleHash 5 0 0 0, xe_chunk_byte_range_start = 0, xe_unpacked_segment_bytes = 5, xe_flags = 0\<rparr>,
        \<lparr>xe_chunk_hash = MerkleHash 6 0 0 0, xe_chunk_byte_range_start = 13, xe_unpacked_segment_bytes = 7, xe_flags = 0\<rparr>],
      chunk_lookup_entries = [\<lparr>cl_chunk_hash = MerkleHash 7 0 0 0, cl_xorb_hash = MerkleHash 1 0 0 0, cl_chunk_index = 0\<rparr>,
        \<lparr>cl_chunk_hash = MerkleHash 8 0 0 0, cl_xorb_hash = MerkleHash 1 0 0 0, cl_chunk_index = 1\<rparr>],
      s_file_hashes = [MerkleHash 4 0 0 0], chunk_mappings = [], s_hash = []\<rparr>"

theorem reconstruction_plan_sound_witness:
  "\<exists>plan. build_file_chunk_plan demo_shard (MerkleHash 4 0 0 0) None = Inr plan \<and>
    map (\<lambda>c. (pc_xorb_hash c, unat (pc_xorb_chunk_index c))) (pf_chunks plan) = [(MerkleHash 1 0 0 0, 1)] \<and>
    pf_total_unpacked_bytes plan = 7"
proof -
  have "\<exists>plan. build_file_chunk_plan demo_shard (MerkleHash 4 0 0 0) None = Inr plan \<and> pf_file_index plan = 0"
    by (simp add: build_file_chunk_plan_def demo_shard_def plan_file_index_def nat_checked_add_def Let_def upt_conv_Cons)
  then obtain plan where plan: "build_file_chunk_plan demo_shard (MerkleHash 4 0 0 0) None = Inr plan" "pf_file_index plan = 0"
    by blast
  have "file_segments demo_shard 0 = [\<lparr>fe_xorb_hash = MerkleHash 1 0 0 0, fe_xorb_flags = 0, fe_unpacked_segment_bytes = 7,
        fe_chunk_index_start = 1, fe_chunk_index_end = 2\<rparr>]"
    by (simp add: file_segments_def demo_shard_def)
  with reconstruction_plan_sound [OF plan(1)] plan show ?thesis by (auto simp: upt_conv_Cons)
qed

end
