(* ===== verification/Compression.thy ===== *)
theory Compression
  imports Merkle_Hash "HOL-Library.Multiset"
begin

text \<open>
  Chunk compression, \<^verbatim>\<open>src/src/format/compression.rs\<close>: the scheme byte, the four-way byte
  grouping, the guard on the length prefix of LZ4 data, and the two entry points. LZ4
  itself is a parameter (\<open>lz4_compress\<close> and \<open>lz4_decompress\<close> of the crate record).

  The lemmas show that byte grouping is a permutation that regrouping undoes in both
  directions without reaching an index panic, that decompression inverts compression for
  every scheme, and that whatever decompresses successfully has the declared size.
\<close>

datatype CompressionScheme = CNone | LZ4 | ByteGrouping4LZ4

definition scheme_to_u8 :: "CompressionScheme \<Rightarrow> byte" where
  "scheme_to_u8 s = (case s of CNone \<Rightarrow> 0 | LZ4 \<Rightarrow> 1 | ByteGrouping4LZ4 \<Rightarrow> 2)"

definition scheme_try_from :: "byte \<Rightarrow> CompressionScheme xresult" where
  "scheme_try_from v =
     (if v = 0 then Inr CNone
      else if v = 1 then Inr LZ4
      else if v = 2 then Inr ByteGrouping4LZ4
      else Inl (ParseError ''Invalid compression scheme''))"

section \<open>Byte grouping\<close>

text \<open>One group loop of \<open>bg4_split\<close>: the bytes at positions \<open>g\<close>, \<open>g + 4\<close>, ...\<close>

definition bg4_push :: "bytes \<Rightarrow> nat \<Rightarrow> nat \<Rightarrow> bytes" where
  "bg4_push data g cnt = map ((!) data) (filter (\<lambda>pos. pos < length data) (map (\<lambda>i. i * 4 + g) [0..<cnt]))"

definition bg4_split :: "bytes \<Rightarrow> bytes" where
  "bg4_split data =
     (let len = length data in
      if len = 0 then []
      else let base_size = len div 4; remainder = len mod 4
           in bg4_push data 0 (base_size + (if remainder > 0 then 1 else 0)) @
              bg4_push data 1 (base_size + (if remainder > 1 then 1 else 0)) @
              bg4_push data 2 (base_size + (if remainder > 2 then 1 else 0)) @
              bg4_push data 3 base_size)"

text \<open>One group loop of \<open>bg4_regroup\<close>, over the loop indices, with the running offset.\<close>

fun bg4_restore :: "bytes \<Rightarrow> nat \<Rightarrow> nat \<Rightarrow> nat list \<Rightarrow> bytes \<times> nat \<Rightarrow> (bytes \<times> nat) xresult" where
  "bg4_restore data original_len g [] s = Inr s"
| "bg4_restore data original_len g (i # is) (result, offset) =
     (let pos = i * 4 + g in
      if pos < original_len then
        if offset < length data
        then bg4_restore data original_len g is (result[pos := data ! offset], offset + 1)
        else Inl (Panic ''index out of bounds'')
      else bg4_restore data original_len g is (result, offset))"

definition bg4_regroup :: "bytes \<Rightarrow> nat \<Rightarrow> bytes xresult" where
  "bg4_regroup data original_len =
     (if original_len = 0 then
        if data \<noteq> [] then Inl (ParseError ''BG4 regroup: expected empty data'') else Inr []
      else
        let base_size = original_len div 4; remainder = original_len mod 4;
            group0_size = base_size + (if remainder > 0 then 1 else 0);
            group1_size = base_size + (if remainder > 1 then 1 else 0);
            group2_size = base_size + (if remainder > 2 then 1 else 0);
            group3_size = base_size;
            expected_len = group0_size + group1_size + group2_size + group3_size
        in if length data \<noteq> expected_len then Inl (ParseError ''BG4 regroup: data length mismatch'')
           else rbind (bg4_restore data original_len 0 [0..<group0_size] (replicate original_len 0, 0))
             (\<lambda>s. rbind (bg4_restore data original_len 1 [0..<group1_size] s)
             (\<lambda>s. rbind (bg4_restore data original_len 2 [0..<group2_size] s)
             (\<lambda>s. rbind (bg4_restore data original_len 3 [0..<group3_size] s)
             (\<lambda>(result, offset).
                if offset \<noteq> length data then Inl (ParseError ''BG4 regroup: data consumption error'')
                else Inr result)))))"

section \<open>Compression and decompression\<close>

definition MAX_DECOMPRESSED_SIZE :: nat where
  "MAX_DECOMPRESSED_SIZE = 16 * 1024 * 1024"

definition check_lz4_prefix :: "bytes \<Rightarrow> nat \<Rightarrow> unit xresult" where
  "check_lz4_prefix data original_size =
     (if original_size > MAX_DECOMPRESSED_SIZE
      then Inl (ParseError ''Declared uncompressed size exceeds maximum'')
      else if length data < 4 then Inl (ParseError ''LZ4 data too short for size prefix'')
      else if unat (u32_from_le_bytes (take 4 data)) \<noteq> original_size
      then Inl (ParseError ''LZ4 size prefix does not match expected uncompressed size'')
      else Inr ())"

definition compress :: "crates \<Rightarrow> CompressionScheme \<Rightarrow> bytes \<Rightarrow> bytes xresult" where
  "compress C scheme data =
     (case scheme of
        CNone \<Rightarrow> Inr data
      | LZ4 \<Rightarrow> Inr (lz4_compress C data)
      | ByteGrouping4LZ4 \<Rightarrow> Inr (lz4_compress C (bg4_split data)))"

definition decompress :: "crates \<Rightarrow> CompressionScheme \<Rightarrow> bytes \<Rightarrow> nat \<Rightarrow> bytes xresult" where
  "decompress C scheme data original_size =
     (case scheme of
        CNone \<Rightarrow>
          if length data \<noteq> original_size then Inl (ParseError ''Uncompressed data size != expected'')
          else Inr data
      | LZ4 \<Rightarrow>
          rbind (check_lz4_prefix data original_size) (\<lambda>_.
          rbind (map_err (\<lambda>_. ParseError ''LZ4 decompression failed'') (lz4_decompress C data)) (\<lambda>out.
          if length out \<noteq> original_size then Inl (ParseError ''LZ4 output size != expected'')
          else Inr out))
      | ByteGrouping4LZ4 \<Rightarrow>
          rbind (check_lz4_prefix data original_size) (\<lambda>_.
          rbind (map_err (\<lambda>_. ParseError ''BG4-LZ4 decompression failed'') (lz4_decompress C data))
            (\<lambda>decompressed. bg4_regroup decompressed original_size)))"

text \<open>
  What the LZ4 crate documents: the size-prepended format starts with the little-endian
  32-bit length of the input, decompression inverts compression, and the output is at most
  the worst case of the LZ4 block format (one length byte per 255 literals) plus a constant.
\<close>

definition lz4_contract :: "crates \<Rightarrow> bool" where
  "lz4_contract C \<longleftrightarrow>
     (\<forall>d. length d < 2 ^ 32 \<longrightarrow>
        lz4_decompress C (lz4_compress C d) = Inr d \<and>
        4 \<le> length (lz4_compress C d) \<and>
        take 4 (lz4_compress C d) = le_bytes 4 (length d) \<and>
        length (lz4_compress C d) \<le> length d + length d div 255 + 20)"

lemma inst_lz4_contract [simp]: "lz4_contract inst_crates"
  by (simp add: lz4_contract_def stored_compress_def stored_decompress_def)

section \<open>The permutation behind byte grouping\<close>

definition bg4_group_size :: "nat \<Rightarrow> nat \<Rightarrow> nat" where
  "bg4_group_size n g = n div 4 + (if n mod 4 > g then 1 else 0)"

definition bg4_group_positions :: "nat \<Rightarrow> nat \<Rightarrow> nat list" where
  "bg4_group_positions n g = filter (\<lambda>pos. pos < n) (map (\<lambda>i. i * 4 + g) [0..<bg4_group_size n g])"

definition bg4_positions :: "nat \<Rightarrow> nat list" where
  "bg4_positions n = concat (map (bg4_group_positions n) [0, 1, 2, 3])"

lemma bg4_group_size_3 [simp]: "bg4_group_size n 3 = n div 4"
proof -
  have "\<not> n mod 4 > 3" using mod_less_divisor [of 4 n] by linarith
  then show ?thesis by (simp add: bg4_group_size_def)
qed

lemma bg4_group_positions_set: "g < 4 \<Longrightarrow> set (bg4_group_positions n g) = {p. p < n \<and> p mod 4 = g}"
proof (intro subset_antisym subsetI)
  fix p assume "g < 4" and p: "p \<in> {p. p < n \<and> p mod 4 = g}"
  then have "p = (p div 4) * 4 + g" using div_mult_mod_eq [of p 4] by simp
  moreover have "p div 4 < bg4_group_size n g"
  proof (rule ccontr)
    assume "\<not> p div 4 < bg4_group_size n g"
    then have "bg4_group_size n g \<le> p div 4" by simp
    then have le: "n div 4 + (if n mod 4 > g then 1 else 0) \<le> p div 4"
      by (simp only: bg4_group_size_def)
    have arith: "n \<le> b * 4 + g" if "q + (if r > g then 1 else 0) \<le> b" "n = q * 4 + r" "r < 4" for b q r
      using that by (cases "r > g") auto
    have "n \<le> p div 4 * 4 + g" by (rule arith [OF le]) simp_all
    with \<open>p = (p div 4) * 4 + g\<close> p show False by simp
  qed
  ultimately show "p \<in> set (bg4_group_positions n g)"
    using p by (auto simp: bg4_group_positions_def image_iff)
qed (auto simp: bg4_group_positions_def)

lemma bg4_group_positions_distinct: "distinct (bg4_group_positions n g)"
  by (auto simp: bg4_group_positions_def distinct_map inj_on_def intro!: distinct_filter)

lemma bg4_positions_set [simp]: "set (bg4_positions n) = {..<n}"
proof -
  have small: "x \<in> {0, 1, 2, 3}" if "x < 4" for x :: nat
    using that by (auto simp: less_Suc_eq numeral_eq_Suc)
  have "p mod 4 \<in> {0, 1, 2, 3}" for p :: nat by (rule small) simp
  then show ?thesis by (auto simp: bg4_positions_def bg4_group_positions_set)
qed

lemma bg4_positions_distinct [simp]: "distinct (bg4_positions n)"
  by (auto simp: bg4_positions_def bg4_group_positions_set bg4_group_positions_distinct)

lemma bg4_positions_length [simp]: "length (bg4_positions n) = n"
  using distinct_card [OF bg4_positions_distinct, of n] by simp

lemma bg4_push_positions:
  "bg4_push data g (bg4_group_size (length data) g) = map ((!) data) (bg4_group_positions (length data) g)"
  unfolding bg4_push_def bg4_group_positions_def by (rule refl)

lemma bg4_split_positions: "bg4_split data = map ((!) data) (bg4_positions (length data))"
proof (cases "length data = 0")
  case True
  then show ?thesis using bg4_positions_length [of 0] by (simp add: bg4_split_def del: bg4_positions_length)
next
  case False
  then show ?thesis
    unfolding bg4_split_def bg4_positions_def Let_def bg4_group_size_def [symmetric]
    by (simp add: bg4_push_positions [symmetric])
qed

lemma bg4_sizes_sum:
  "bg4_group_size n 0 + bg4_group_size n 1 + bg4_group_size n 2 + n div 4 = n"
proof -
  define q r where "q = n div 4" and "r = n mod 4"
  then have "n = 4 * q + r" "r < 4" using div_mult_mod_eq [of n 4] by simp_all
  moreover have "q + (if r > 0 then 1 else 0) + (q + (if r > 1 then 1 else 0)) +
    (q + (if r > 2 then 1 else 0)) + q = 4 * q + r"
    using \<open>r < 4\<close> by (simp split: if_split)
  ultimately show ?thesis by (simp add: bg4_group_size_def q_def r_def)
qed

section \<open>Filling along a list of positions\<close>

fun bg4_fill :: "bytes \<Rightarrow> nat list \<Rightarrow> bytes \<times> nat \<Rightarrow> (bytes \<times> nat) xresult" where
  "bg4_fill data [] s = Inr s"
| "bg4_fill data (p # ps) (result, offset) =
     (if offset < length data then bg4_fill data ps (result[p := data ! offset], offset + 1)
      else Inl (Panic ''index out of bounds''))"

lemma bg4_restore_fill:
  "bg4_restore data n g is s = bg4_fill data (filter (\<lambda>pos. pos < n) (map (\<lambda>i. i * 4 + g) is)) s"
  by (induction data n g "is" s rule: bg4_restore.induct) (auto simp: Let_def)

lemma bg4_fill_append: "bg4_fill data (ps @ qs) s = rbind (bg4_fill data ps s) (bg4_fill data qs)"
  by (induction data ps s rule: bg4_fill.induct) auto

lemma bg4_fill_spec:
  "distinct ps \<Longrightarrow> set ps \<subseteq> {..<length r} \<Longrightarrow> off + length ps \<le> length data \<Longrightarrow>
   \<exists>r'. bg4_fill data ps (r, off) = Inr (r', off + length ps) \<and> length r' = length r \<and>
        (\<forall>k<length ps. r' ! (ps ! k) = data ! (off + k)) \<and>
        (\<forall>q. q \<notin> set ps \<longrightarrow> r' ! q = r ! q)"
proof (induction ps arbitrary: r off)
  case (Cons p ps)
  from Cons.prems obtain r' where
    r': "bg4_fill data ps (r[p := data ! off], Suc off) = Inr (r', Suc off + length ps)"
    "length r' = length r" "\<forall>k<length ps. r' ! (ps ! k) = data ! (Suc off + k)"
    "\<forall>q. q \<notin> set ps \<longrightarrow> r' ! q = r[p := data ! off] ! q"
    using Cons.IH [of "r[p := data ! off]" "Suc off"] by auto
  have "r' ! ((p # ps) ! k) = data ! (off + k)" if "k < length (p # ps)" for k
    using that r' Cons.prems by (cases k) auto
  with r' Cons.prems show ?case by (auto intro!: exI [of _ r'])
qed simp

text \<open>\<open>bg4_regroup\<close> is a fill along the positions of the permutation, between its two guards.\<close>

lemma bg4_regroup_fill:
  "bg4_regroup data n =
     (if n = 0 then if data \<noteq> [] then Inl (ParseError ''BG4 regroup: expected empty data'') else Inr []
      else if length data \<noteq> n then Inl (ParseError ''BG4 regroup: data length mismatch'')
      else rbind (bg4_fill data (bg4_positions n) (replicate n 0, 0))
             (\<lambda>(result, offset).
                if offset \<noteq> length data then Inl (ParseError ''BG4 regroup: data consumption error'')
                else Inr result))"
proof -
  have assoc: "rbind (rbind m f) g = rbind m (\<lambda>x. rbind (f x) g)" for m :: "'x xresult" and f g
    by (cases m) auto
  show ?thesis
    using bg4_sizes_sum [of n]
    by (simp add: bg4_regroup_def Let_def bg4_restore_fill bg4_positions_def bg4_fill_append assoc
        bg4_group_positions_def bg4_group_size_def [symmetric])
qed


lemma bg4_regroup_Inr:
  "bg4_regroup data n = Inr r \<longleftrightarrow>
     length data = n \<and> length r = n \<and> (\<forall>k<n. r ! (bg4_positions n ! k) = data ! k)"
proof (cases "length data = n \<and> n \<noteq> 0")
  case False
  then show ?thesis by (auto simp: bg4_regroup_fill)
next
  case True
  from bg4_fill_spec [of "bg4_positions n" "replicate n 0" 0 data] True
  obtain r' where fill: "bg4_fill data (bg4_positions n) (replicate n 0, 0) = Inr (r', n)"
    and r': "length r' = n" "\<forall>k<n. r' ! (bg4_positions n ! k) = data ! k"
    by auto
  have "r = r'" if "length r = n" "\<forall>k<n. r ! (bg4_positions n ! k) = data ! k"
  proof (rule nth_equalityI)
    fix i assume "i < length r"
    then have "i \<in> set (bg4_positions n)" using that by simp
    then obtain k where "k < n" "i = bg4_positions n ! k"
      by (auto simp: in_set_conv_nth simp del: bg4_positions_set)
    then show "r ! i = r' ! i" using that r' by simp
  qed (use that r' in simp)
  with True fill r' show ?thesis by (auto simp: bg4_regroup_fill)
qed

lemma bg4_split_length [simp]: "length (bg4_split data) = length data"
  by (simp add: bg4_split_positions)

lemma bg4_regroup_split: "bg4_regroup data n = Inr r \<longleftrightarrow> length r = n \<and> data = bg4_split r"
  by (auto simp: bg4_regroup_Inr bg4_split_positions intro: nth_equalityI)

lemma bg4_regroup_no_panic: "bg4_regroup data n \<noteq> Inl (Panic m)"
proof (cases "length data = n \<and> n \<noteq> 0")
  case True
  then show ?thesis
    using bg4_fill_spec [of "bg4_positions n" "replicate n 0" 0 data] by (auto simp: bg4_regroup_fill)
qed (auto simp: bg4_regroup_fill)

lemma mset_bg4_split: "mset (bg4_split data) = mset data"
proof -
  have "mset (bg4_positions n) = mset [0..<n]" for n
    by (rule set_eq_iff_mset_eq_distinct [THEN iffD1]) (auto simp del: upt_Suc)
  then have "mset (map ((!) data) (bg4_positions (length data))) = mset (map ((!) data) [0..<length data])"
    by (simp only: mset_map)
  then show ?thesis by (simp only: bg4_split_positions map_nth)
qed

section \<open>The interface of a chunk compressor\<close>

text \<open>
  What the xorb builder and the xorb reader rely on: compression of a chunk that fits the
  three-byte length fields succeeds and is undone by decompression with the same declared
  size, and no successful decompression returns another number of bytes than declared.
\<close>

locale chunk_compressor =
  fixes comp :: "bytes \<Rightarrow> bytes xresult"
    and decomp :: "bytes \<Rightarrow> nat \<Rightarrow> bytes xresult"
    and maxsize :: nat
  assumes comp_decomp: "length d \<le> maxsize \<Longrightarrow> \<exists>c. comp d = Inr c \<and> decomp c (length d) = Inr d"
    and decomp_length: "decomp c n = Inr d \<Longrightarrow> length d = n"
begin

lemma comp_inj: "length d \<le> maxsize \<Longrightarrow> length d = length e \<Longrightarrow> comp d = comp e \<Longrightarrow> d = e"
  using comp_decomp [of d] comp_decomp [of e] by auto

lemma wrong_size_rejected: "length d \<le> maxsize \<Longrightarrow> comp d = Inr c \<Longrightarrow> decomp c n = Inr d \<Longrightarrow> n = length d"
  using decomp_length [of c n d] by simp

end

lemma check_lz4_prefix_Inr:
  "check_lz4_prefix data n = Inr u \<longleftrightarrow>
     n \<le> MAX_DECOMPRESSED_SIZE \<and> 4 \<le> length data \<and> unat (u32_from_le_bytes (take 4 data)) = n"
  by (auto simp: check_lz4_prefix_def)

lemma check_lz4_prefix_compressed:
  assumes "lz4_contract C" "length d \<le> MAX_DECOMPRESSED_SIZE"
  shows "check_lz4_prefix (lz4_compress C d) (length d) = Inr ()"
proof -
  from assms(2) have small: "length d < 4294967296" by (simp add: MAX_DECOMPRESSED_SIZE_def)
  with assms(1) have "4 \<le> length (lz4_compress C d)" "take 4 (lz4_compress C d) = le_bytes 4 (length d)"
    by (auto simp: lz4_contract_def)
  with small assms(2) show ?thesis
    by (simp add: check_lz4_prefix_Inr u32_from_le_bytes_def le_nat_le_bytes unat_of_nat_u32)
qed

lemma lz4_inverse:
  "lz4_contract C \<Longrightarrow> length d \<le> MAX_DECOMPRESSED_SIZE \<Longrightarrow> lz4_decompress C (lz4_compress C d) = Inr d"
  by (simp add: lz4_contract_def MAX_DECOMPRESSED_SIZE_def)

lemma decompress_compress:
  assumes "lz4_contract C" "length d \<le> MAX_DECOMPRESSED_SIZE"
  shows "\<exists>c. compress C s d = Inr c \<and> decompress C s c (length d) = Inr d"
proof (cases s)
  case CNone
  then show ?thesis by (simp add: compress_def decompress_def)
next
  case LZ4
  with assms show ?thesis
    by (simp add: compress_def decompress_def check_lz4_prefix_compressed lz4_inverse)
next
  case ByteGrouping4LZ4
  moreover have "check_lz4_prefix (lz4_compress C (bg4_split d)) (length d) = Inr ()"
    using check_lz4_prefix_compressed [of C "bg4_split d"] assms by simp
  ultimately show ?thesis using assms
    by (simp add: compress_def decompress_def lz4_inverse bg4_regroup_split)
qed

lemma decompress_length: "decompress C s c n = Inr d \<Longrightarrow> length d = n"
  by (auto simp: decompress_def result_simps bg4_regroup_split split: CompressionScheme.splits if_splits)

text \<open>Every instance of the crate that keeps the LZ4 contract gives a compressor for each scheme.\<close>

locale lz4_crate =
  fixes C :: crates
  assumes contract: "lz4_contract C"

sublocale lz4_crate \<subseteq> chunk_compressor "compress C s" "decompress C s" MAX_DECOMPRESSED_SIZE for s
  by unfold_locales (auto simp: decompress_compress [OF contract] decompress_length)

interpretation stored: lz4_crate inst_crates
  by unfold_locales simp

interpretation plain: chunk_compressor "compress C CNone" "decompress C CNone" MAX_DECOMPRESSED_SIZE for C
  by unfold_locales (auto simp: compress_def decompress_def split: if_splits)

section \<open>Properties\<close>

text \<open>
  Byte grouping is a permutation with \<open>bg4_regroup\<close> as its exact inverse: splitting keeps
  the multiset of bytes, regrouping succeeds with result \<open>r\<close> precisely when \<open>r\<close> has the
  declared length and the grouped data is the split of \<open>r\<close>, and no input drives the
  regrouping loops to an out-of-range index.
\<close>

theorem bg4_permutation_inverse:
  "mset (bg4_split data) = mset data \<and>
   (bg4_regroup grouped n = Inr r \<longleftrightarrow> length r = n \<and> grouped = bg4_split r) \<and>
   bg4_regroup grouped n \<noteq> Inl (Panic m)"
  by (simp add: mset_bg4_split bg4_regroup_split bg4_regroup_no_panic)

text \<open>
  Compression round trip: for every scheme, a chunk of at most 16 MiB compresses and
  decompresses with its own length to itself; whatever decompresses successfully has
  exactly the declared length; and with LZ4 data a declared length above 16 MiB is always
  refused before the decompressor runs.
\<close>

theorem decompress_inverts_compress:
  assumes "lz4_contract C"
  shows "(length d \<le> MAX_DECOMPRESSED_SIZE \<longrightarrow>
            (\<exists>c. compress C s d = Inr c \<and> decompress C s c (length d) = Inr d)) \<and>
    (decompress C s data n = Inr out \<longrightarrow> length out = n) \<and>
    (s \<noteq> CNone \<and> MAX_DECOMPRESSED_SIZE < n \<longrightarrow>
       decompress C s data n = Inl (ParseError ''Declared uncompressed size exceeds maximum''))"
proof -
  have "decompress C s data n = Inl (ParseError ''Declared uncompressed size exceeds maximum'')"
    if "s \<noteq> CNone" "MAX_DECOMPRESSED_SIZE < n"
    using that by (cases s) (simp_all add: decompress_def check_lz4_prefix_def)
  then show ?thesis using decompress_compress [OF assms] decompress_length by blast
qed

theorem decompress_inverts_compress_witness:
  "\<exists>c. compress inst_crates ByteGrouping4LZ4 [1, 2, 3, 4, 5, 6] = Inr c \<and>
       decompress inst_crates ByteGrouping4LZ4 c 6 = Inr [1, 2, 3, 4, 5, 6]"
proof -
  have len: "length [1, 2, 3, 4, 5, 6 :: byte] = 6" by simp
  show ?thesis
    using decompress_inverts_compress
      [OF inst_lz4_contract, of "[1, 2, 3, 4, 5, 6]" ByteGrouping4LZ4 "[]" 0 "[]"]
    unfolding len MAX_DECOMPRESSED_SIZE_def by simp
qed

end
