(* ===== verification/Xorb_Format.thy ===== *)
theory Xorb_Format
  imports Merkle_Tree Compression
begin

text \<open>
  The xorb container of \<^verbatim>\<open>src/src/format/xorb.rs\<close>: chunk headers, the footer
  \<open>XorbObjectInfoV1\<close>, and the two verifiers, over bytes in memory and over a file read
  piece by piece. A file is its bytes, or \<open>None\<close> when it cannot be opened; file offsets and
  lengths (\<open>u64\<close> in the source) are natural numbers, with the one checked addition written out.

  The lemmas give the codec of headers and footers, the exact layout of a file the file
  verifier accepts, and the agreement of the two verifiers.
\<close>

section \<open>Chunk headers\<close>

record XorbChunkHeader =
  h_version :: byte
  compressed_length :: u32
  compression_scheme :: CompressionScheme
  uncompressed_length :: u32

definition HEADER_SIZE :: nat where
  "HEADER_SIZE = 8"

definition header_serialize :: "XorbChunkHeader \<Rightarrow> bytes" where
  "header_serialize h =
     [h_version h] @ take 3 (u32_to_le_bytes (compressed_length h)) @
     [scheme_to_u8 (compression_scheme h)] @ take 3 (u32_to_le_bytes (uncompressed_length h))"

definition header_deserialize :: "XorbChunkHeader reader" where
  "header_deserialize r =
     rbind (read_exact 1 r) (\<lambda>(version_buf, r).
     rbind (read_exact 3 r) (\<lambda>(cl_buf, r).
     rbind (read_exact 1 r) (\<lambda>(scheme_buf, r).
     rbind (map_err (\<lambda>_. IoError InvalidData) (scheme_try_from (hd scheme_buf))) (\<lambda>scheme.
     rbind (read_exact 3 r) (\<lambda>(ul_buf, r).
     Inr (\<lparr>h_version = hd version_buf, compressed_length = u32_from_le_bytes (cl_buf @ [0]),
           compression_scheme = scheme, uncompressed_length = u32_from_le_bytes (ul_buf @ [0])\<rparr>, r))))))"

section \<open>Footers\<close>

record XorbObjectInfoV1 =
  xi_xorb_hash :: merkle_hash
  chunk_hashes :: "merkle_hash list"
  chunk_boundary_offsets :: "u32 list"
  unpacked_chunk_offsets :: "u32 list"

definition IDENT_MAIN :: bytes where
  "IDENT_MAIN = [88, 69, 84, 66, 76, 79, 66]"

definition IDENT_HASHES :: bytes where
  "IDENT_HASHES = [88, 66, 76, 66, 72, 83, 72]"

definition IDENT_BOUNDARIES :: bytes where
  "IDENT_BOUNDARIES = [88, 66, 76, 66, 66, 78, 68]"

definition MAX_CHUNKS_PER_XORB :: u32 where
  "MAX_CHUNKS_PER_XORB = 100000"

definition serialized_len_for_num_chunks :: "nat \<Rightarrow> nat" where
  "serialized_len_for_num_chunks num_chunks = 60 + 40 * num_chunks"

definition max_serialized_len :: nat where
  "max_serialized_len = serialized_len_for_num_chunks (unat MAX_CHUNKS_PER_XORB)"

definition footer_serialized_len :: "XorbObjectInfoV1 \<Rightarrow> nat" where
  "footer_serialized_len f = serialized_len_for_num_chunks (length (chunk_hashes f))"

definition footer_serialize :: "XorbObjectInfoV1 \<Rightarrow> bytes" where
  "footer_serialize f =
     (let num_chunks = (of_nat (length (chunk_hashes f)) :: u32) in
      IDENT_HASHES @ [0] @ u32_to_le_bytes num_chunks @ concat (map mh_as_bytes (chunk_hashes f)) @
      IDENT_BOUNDARIES @ [1] @ concat (map u32_to_le_bytes (chunk_boundary_offsets f)) @
      concat (map u32_to_le_bytes (unpacked_chunk_offsets f)) @
      IDENT_MAIN @ [1] @ mh_as_bytes (xi_xorb_hash f))"

definition footer_deserialize :: "XorbObjectInfoV1 reader" where
  "footer_deserialize r =
     rbind (read_exact 7 r) (\<lambda>(ident, r).
     if ident \<noteq> IDENT_HASHES then Inl (ParseError ''Expected hashes section'') else
     rbind (read_exact 1 r) (\<lambda>(version, r).
     if version \<noteq> [0] then Inl (ParseError ''Unsupported hashes section version'') else
     rbind (read_u32_le r) (\<lambda>(num_chunks, r).
     if num_chunks > MAX_CHUNKS_PER_XORB then Inl (ParseError ''Too many chunks'') else
     rbind (read_n read_hash (unat num_chunks) r) (\<lambda>(hashes, r).
     rbind (read_exact 7 r) (\<lambda>(ident, r).
     if ident \<noteq> IDENT_BOUNDARIES then Inl (ParseError ''Expected boundaries section'') else
     rbind (read_exact 1 r) (\<lambda>(version, r).
     if version \<noteq> [1] then Inl (ParseError ''Unsupported boundaries section version'') else
     rbind (read_n read_u32_le (unat num_chunks) r) (\<lambda>(boundaries, r).
     rbind (read_n read_u32_le (unat num_chunks) r) (\<lambda>(unpacked, r).
     rbind (read_exact 7 r) (\<lambda>(ident, r).
     if ident \<noteq> IDENT_MAIN then Inl (ParseError ''Expected main ident'') else
     rbind (read_exact 1 r) (\<lambda>(version, r).
     if version \<noteq> [1] then Inl (ParseError ''Unsupported xorb footer version'') else
     rbind (read_hash r) (\<lambda>(hash, r).
     Inr (\<lparr>xi_xorb_hash = hash, chunk_hashes = hashes, chunk_boundary_offsets = boundaries,
           unpacked_chunk_offsets = unpacked\<rparr>, r))))))))))))"

definition footer_to_bytes :: "XorbObjectInfoV1 \<Rightarrow> bytes" where
  "footer_to_bytes f = footer_serialize f"

definition footer_from_bytes :: "bytes \<Rightarrow> XorbObjectInfoV1 xresult" where
  "footer_from_bytes data = rbind (footer_deserialize data) (\<lambda>(f, _). Inr f)"

section \<open>The in-memory verifier\<close>

text \<open>The backward scan; slicing past the end of the data panics.\<close>

fun scan_back :: "bytes \<Rightarrow> nat list \<Rightarrow> nat option xresult" where
  "scan_back data [] = Inr None"
| "scan_back data (i # is) =
     (if length data < i + 7 then Inl (Panic ''range end index out of range'')
      else if take 7 (drop i data) = IDENT_HASHES then Inr (Some i)
      else scan_back data is)"

definition find_footer :: "bytes \<Rightarrow> nat option xresult" where
  "find_footer data = scan_back data (rev [0..<Suc (length data - 7)])"

text \<open>\<open>chunk_end\<close> of both verifiers.\<close>

definition chunk_end_at :: "XorbObjectInfoV1 \<Rightarrow> nat \<Rightarrow> nat \<Rightarrow> nat" where
  "chunk_end_at footer footer_start i =
     (if i < length (chunk_boundary_offsets footer) then unat (chunk_boundary_offsets footer ! i)
      else footer_start)"

fun verify_chunks ::
  "crates \<Rightarrow> bytes \<Rightarrow> XorbObjectInfoV1 \<Rightarrow> nat \<Rightarrow> nat \<Rightarrow> merkle_hash list \<Rightarrow> nat \<Rightarrow> node list xresult" where
  "verify_chunks C data footer footer_start i [] current_offset = Inr []"
| "verify_chunks C data footer footer_start i (expected_hash # hs) current_offset =
     (let chunk_end = chunk_end_at footer footer_start i in
      if length data < chunk_end \<or> chunk_end < current_offset then Inl (ParseError ''Invalid chunk boundary'')
      else
        let chunk_data = take (chunk_end - current_offset) (drop current_offset data);
            actual_hash = compute_data_hash C chunk_data
        in if actual_hash \<noteq> expected_hash then Inl (ParseError ''Chunk hash mismatch'')
           else rbind (verify_chunks C data footer footer_start (i + 1) hs chunk_end)
                  (\<lambda>rest. Inr ((actual_hash, of_nat (length chunk_data)) # rest)))"

definition verify_xorb :: "crates \<Rightarrow> bytes \<Rightarrow> unit xresult" where
  "verify_xorb C data =
     rbind (find_footer data) (\<lambda>found.
     rbind (ok_or found (ParseError ''Could not find xorb footer'')) (\<lambda>footer_start.
     rbind (footer_from_bytes (drop footer_start data)) (\<lambda>footer.
     rbind (verify_chunks C data footer footer_start 0 (chunk_hashes footer) 0) (\<lambda>chunk_info.
     if xorb_hash C chunk_info \<noteq> xi_xorb_hash footer then Inl (ParseError ''Xorb hash mismatch'')
     else Inr ()))))"

section \<open>The file verifier\<close>

record VerifiedXorbChunkInfo =
  serialized_chunk_hash :: merkle_hash
  serialized_start :: nat
  serialized_end :: nat
  serialized_len :: nat
  unpacked_start :: nat
  unpacked_len :: nat
  compressed_payload_len :: nat

record VerifiedXorbInfo =
  v_xorb_hash :: merkle_hash
  v_file_len :: nat
  v_footer_start :: nat
  v_chunks :: "VerifiedXorbChunkInfo list"
  v_total_unpacked_bytes :: nat
  v_total_compressed_payload_bytes :: nat

text \<open>The read loop with its 64 KiB buffer; \<open>pos\<close> is the file position.\<close>

function hash_payload :: "bytes \<Rightarrow> nat \<Rightarrow> nat \<Rightarrow> streaming_hasher \<Rightarrow> streaming_hasher xresult" where
  "hash_payload file pos remaining hasher =
     (if remaining = 0 then Inr hasher
      else let n = min (min remaining (64 * 1024)) (length file - pos) in
        if n = 0 then Inl (ParseError ''Unexpected EOF reading chunk'')
        else hash_payload file (pos + n) (remaining - n) (sh_update hasher (take n (drop pos file))))"
  by pat_completeness auto
termination
  by (relation "measure (\<lambda>(file, pos, remaining, hasher). remaining)") auto

declare hash_payload.simps [simp del]

definition verify_file_chunk ::
  "crates \<Rightarrow> bytes \<Rightarrow> XorbObjectInfoV1 \<Rightarrow> nat \<Rightarrow> nat \<Rightarrow> merkle_hash \<Rightarrow> nat \<Rightarrow> nat \<Rightarrow> VerifiedXorbChunkInfo xresult" where
  "verify_file_chunk C file footer footer_start i expected_hash current_offset current_unpacked =
     (let chunk_end = chunk_end_at footer footer_start i in
      if chunk_end > footer_start \<or> chunk_end < current_offset then Inl (ParseError ''Invalid chunk boundary'')
      else
        let chunk_size = chunk_end - current_offset in
        rbind (map_err (\<lambda>_. IoError OtherIo) (read_exact HEADER_SIZE (drop current_offset file)))
          (\<lambda>(header_bytes, _).
        rbind (header_deserialize header_bytes) (\<lambda>(header, _).
        if chunk_size \<noteq> HEADER_SIZE + unat (compressed_length header)
        then Inl (ParseError ''Chunk serialized length mismatch'')
        else
        rbind (ok_or (if i < length (unpacked_chunk_offsets footer)
                      then Some (unpacked_chunk_offsets footer ! i) else None)
                 (ParseError ''Missing unpacked offset for chunk'')) (\<lambda>off.
        if unat off \<noteq> current_unpacked then Inl (ParseError ''Chunk unpacked offset mismatch'')
        else
        rbind (hash_payload file (current_offset + HEADER_SIZE) (unat (compressed_length header))
                 (sh_update sh_new header_bytes)) (\<lambda>hasher.
        let actual_hash = sh_finalize C hasher in
        if actual_hash \<noteq> expected_hash then Inl (ParseError ''Chunk hash mismatch'')
        else Inr \<lparr>serialized_chunk_hash = actual_hash, serialized_start = current_offset,
                  serialized_end = chunk_end, serialized_len = chunk_size,
                  unpacked_start = unat off, unpacked_len = unat (uncompressed_length header),
                  compressed_payload_len = unat (compressed_length header)\<rparr>)))))"

fun verify_file_chunks ::
  "crates \<Rightarrow> bytes \<Rightarrow> XorbObjectInfoV1 \<Rightarrow> nat \<Rightarrow> nat \<Rightarrow> merkle_hash list \<Rightarrow> nat \<Rightarrow> nat \<Rightarrow>
     (VerifiedXorbChunkInfo list \<times> nat) xresult" where
  "verify_file_chunks C file footer footer_start i [] current_offset current_unpacked = Inr ([], current_offset)"
| "verify_file_chunks C file footer footer_start i (h # hs) current_offset current_unpacked =
     rbind (verify_file_chunk C file footer footer_start i h current_offset current_unpacked) (\<lambda>ci.
     rbind (verify_file_chunks C file footer footer_start (i + 1) hs (serialized_end ci)
              (current_unpacked + unpacked_len ci)) (\<lambda>(cis, e). Inr (ci # cis, e)))"

definition verify_xorb_from_file_with_info :: "crates \<Rightarrow> bytes option \<Rightarrow> VerifiedXorbInfo xresult" where
  "verify_xorb_from_file_with_info C path =
     rbind (ok_or path (IoError OtherIo)) (\<lambda>file.
     let file_len = length file in
     if file_len < 8 then Inl (ParseError ''Xorb file too small'')
     else
     let scan_size = min file_len max_serialized_len;
         tail_file_offset = file_len - scan_size;
         tail_buf = drop tail_file_offset file
     in
     rbind (find_footer tail_buf) (\<lambda>found.
     rbind (ok_or (map_option (\<lambda>i. tail_file_offset + i) found)
              (ParseError ''Could not find xorb footer in file'')) (\<lambda>footer_start.
     rbind (footer_from_bytes (drop (footer_start - tail_file_offset) tail_buf)) (\<lambda>footer.
     if 2 ^ 64 \<le> footer_start + footer_serialized_len footer
     then Inl (ParseError ''Xorb footer end offset overflow'')
     else if footer_start + footer_serialized_len footer \<noteq> file_len
     then Inl (ParseError ''Xorb footer/trailing bytes mismatch'')
     else
     rbind (verify_file_chunks C file footer footer_start 0 (chunk_hashes footer) 0 0) (\<lambda>(infos, current_offset).
     if current_offset \<noteq> footer_start then Inl (ParseError ''Xorb has unverified bytes before footer'')
     else
     let computed = xorb_hash C (map (\<lambda>ci. (serialized_chunk_hash ci, of_nat (serialized_len ci))) infos) in
     if computed \<noteq> xi_xorb_hash footer then Inl (ParseError ''Xorb hash mismatch'')
     else Inr \<lparr>v_xorb_hash = computed, v_file_len = file_len, v_footer_start = footer_start,
               v_chunks = infos, v_total_unpacked_bytes = sum_list (map unpacked_len infos),
               v_total_compressed_payload_bytes = sum_list (map compressed_payload_len infos)\<rparr>)))))"

definition verify_xorb_from_file :: "crates \<Rightarrow> bytes option \<Rightarrow> unit xresult" where
  "verify_xorb_from_file C path = rbind (verify_xorb_from_file_with_info C path) (\<lambda>_. Inr ())"

section \<open>Header codec\<close>

definition header_wf :: "XorbChunkHeader \<Rightarrow> bool" where
  "header_wf h \<longleftrightarrow> unat (compressed_length h) < 2 ^ 24 \<and> unat (uncompressed_length h) < 2 ^ 24"

lemma scheme_try_from_u8 [simp]: "scheme_try_from (scheme_to_u8 s) = Inr s"
  by (cases s) (simp_all add: scheme_try_from_def scheme_to_u8_def)

lemma scheme_try_from_Inr: "scheme_try_from v = Inr s \<Longrightarrow> v = scheme_to_u8 s"
  by (auto simp: scheme_try_from_def scheme_to_u8_def split: if_splits)

lemma u32_from_3: "length b = 3 \<Longrightarrow> unat (u32_from_le_bytes (b @ [0])) = le_nat b \<and> le_nat b < 2 ^ 24"
  using le_nat_bound [of b] by (simp add: u32_from_le_bytes_def le_nat_append unat_of_nat_u32)

lemma take_3_u32: "take 3 (u32_to_le_bytes w) = le_bytes 3 (unat w)"
  by (simp add: u32_to_le_bytes_def take_le_bytes)

lemma u32_3_truncate: "u32_from_le_bytes (le_bytes 3 (unat w) @ [0]) = of_nat (unat w mod 2 ^ 24)"
  by (simp add: u32_from_le_bytes_def le_nat_append le_nat_le_bytes)

lemma take_3_u32_from: "length b = 3 \<Longrightarrow> take 3 (u32_to_le_bytes (u32_from_le_bytes (b @ [0]))) = b"
  by (simp add: u32_to_from_le)

lemma header_serialize_length [simp, codec_simps]: "length (header_serialize h) = 8"
  by (simp add: header_serialize_def)

lemma header_deserialize_serialize:
  "header_deserialize (header_serialize h @ rest) =
     Inr (h\<lparr>compressed_length := of_nat (unat (compressed_length h) mod 2 ^ 24),
            uncompressed_length := of_nat (unat (uncompressed_length h) mod 2 ^ 24)\<rparr>, rest)"
proof -
  have "read_exact 1 (x # xs) = Inr ([x], xs)" for x and xs :: bytes
    by (simp add: read_exact_def)
  then show ?thesis
    by (simp add: header_deserialize_def header_serialize_def take_3_u32 read_exact_append u32_3_truncate)
qed

lemma header_deserialize_canonical:
  assumes "header_deserialize bs = Inr (h, rest)"
  shows "bs = header_serialize h @ rest \<and> header_wf h"
proof -
  from assms obtain vb r1 cl r2 sb r3 s ul where
    r: "read_exact 1 bs = Inr (vb, r1)" "read_exact 3 r1 = Inr (cl, r2)"
    "read_exact 1 r2 = Inr (sb, r3)" "scheme_try_from (hd sb) = Inr s" "read_exact 3 r3 = Inr (ul, rest)"
    and h: "h = \<lparr>h_version = hd vb, compressed_length = u32_from_le_bytes (cl @ [0]),
      compression_scheme = s, uncompressed_length = u32_from_le_bytes (ul @ [0])\<rparr>"
    by (auto simp: header_deserialize_def rbind_eq_Inr map_err_eq_Inr)
  note sp = r(1,2,3,5) [THEN read_exact_split]
  have "vb = [hd vb]" "sb = [hd sb]" using sp by (auto simp: length_Suc_conv)
  moreover have "hd sb = scheme_to_u8 s" by (rule scheme_try_from_Inr [OF r(4)])
  ultimately have "bs = header_serialize h @ rest"
    using sp h by (simp add: header_serialize_def take_3_u32_from)
  then show ?thesis using sp h u32_from_3 by (simp add: header_wf_def)
qed

interpretation header_codec: canonical_codec header_serialize header_deserialize header_wf 8
proof unfold_locales
  fix x rest
  assume "header_wf x"
  then show "header_deserialize (header_serialize x @ rest) = Inr (x, rest)"
    by (simp add: header_deserialize_serialize header_wf_def)
next
  fix bs x rest
  assume "header_deserialize bs = Inr (x, rest)"
  from header_deserialize_canonical [OF this]
  show "8 \<le> length bs \<and> rest = drop 8 bs" by simp
qed (simp_all add: header_deserialize_canonical)

section \<open>Footer codec\<close>

definition footer_wf :: "XorbObjectInfoV1 \<Rightarrow> bool" where
  "footer_wf f \<longleftrightarrow> length (chunk_hashes f) \<le> unat MAX_CHUNKS_PER_XORB \<and>
     length (chunk_boundary_offsets f) = length (chunk_hashes f) \<and>
     length (unpacked_chunk_offsets f) = length (chunk_hashes f)"

lemma ident_lengths [simp]:
  "length IDENT_HASHES = 7" "length IDENT_BOUNDARIES = 7" "length IDENT_MAIN = 7"
  by (simp_all add: IDENT_HASHES_def IDENT_BOUNDARIES_def IDENT_MAIN_def)

lemma read_exact_byte: "read_exact (Suc 0) (b # rest) = Inr ([b], rest)"
  by (simp add: read_exact_def)

lemma footer_serialize_length:
  assumes "footer_wf f"
  shows "length (footer_serialize f) = footer_serialized_len f"
  using assms
  by (simp add: footer_wf_def footer_serialize_def footer_serialized_len_def serialized_len_for_num_chunks_def
      Let_def hash_codec.sers_width u32_codec.sers_width list_all_iff)

lemma footer_deserialize_serialize:
  assumes "footer_wf f"
  shows "footer_deserialize (footer_serialize f @ rest) = Inr (f, rest)"
proof -
  let ?n = "length (chunk_hashes f)"
  have n: "unat (of_nat ?n :: u32) = ?n" "\<not> (of_nat ?n :: u32) > MAX_CHUNKS_PER_XORB"
    using assms by (simp_all add: footer_wf_def MAX_CHUNKS_PER_XORB_def unat_of_nat_u32 word_less_nat_alt)
  have b: "length (chunk_boundary_offsets f) = ?n" "length (unpacked_chunk_offsets f) = ?n"
    using assms by (simp_all add: footer_wf_def)
  have hs: "read_n read_hash ?n (concat (map mh_as_bytes (chunk_hashes f)) @ r) = Inr (chunk_hashes f, r)" for r
    by (rule hash_codec.read_n_sers) (simp add: list_all_iff)
  have bo: "read_n read_u32_le ?n (concat (map u32_to_le_bytes (chunk_boundary_offsets f)) @ r) =
      Inr (chunk_boundary_offsets f, r)" for r
    using u32_codec.read_n_sers [of "chunk_boundary_offsets f" r] b by (simp add: list_all_iff)
  have un: "read_n read_u32_le ?n (concat (map u32_to_le_bytes (unpacked_chunk_offsets f)) @ r) =
      Inr (unpacked_chunk_offsets f, r)" for r
    using u32_codec.read_n_sers [of "unpacked_chunk_offsets f" r] b by (simp add: list_all_iff)
  show ?thesis
    using n by (simp add: footer_deserialize_def footer_serialize_def Let_def read_exact_append
        read_exact_byte read_u32_le_append read_hash_append hs bo un)
qed

lemma footer_deserialize_canonical:
  assumes "footer_deserialize bs = Inr (f, rest)"
  shows "bs = footer_serialize f @ rest \<and> footer_wf f"
proof -
  from assms obtain r1 r2 nc r3 hs r4 r5 r6 bo r7 un r8 r9 r10 hash where
    r: "read_exact 7 bs = Inr (IDENT_HASHES, r1)" "read_exact 1 r1 = Inr ([0], r2)"
    "read_u32_le r2 = Inr (nc, r3)" "\<not> nc > MAX_CHUNKS_PER_XORB"
    "read_n read_hash (unat nc) r3 = Inr (hs, r4)"
    "read_exact 7 r4 = Inr (IDENT_BOUNDARIES, r5)" "read_exact 1 r5 = Inr ([1], r6)"
    "read_n read_u32_le (unat nc) r6 = Inr (bo, r7)" "read_n read_u32_le (unat nc) r7 = Inr (un, r8)"
    "read_exact 7 r8 = Inr (IDENT_MAIN, r9)" "read_exact 1 r9 = Inr ([1], r10)"
    "read_hash r10 = Inr (hash, rest)"
    and f: "f = \<lparr>xi_xorb_hash = hash, chunk_hashes = hs, chunk_boundary_offsets = bo, unpacked_chunk_offsets = un\<rparr>"
    unfolding footer_deserialize_def
    by (simp only: rbind_eq_Inr split_paired_Ex prod.case if_Inl_eq_Inr not_not sum.inject prod.inject) blast
  note ex = r(1,2,6,7,10,11) [THEN read_exact_split, THEN conjunct1]
  have nc: "r2 = u32_to_le_bytes nc @ r3" using u32_canon.deser_canonical [OF r(3)] by simp
  have hs: "r3 = concat (map mh_as_bytes hs) @ r4" "length hs = unat nc"
    using hash_canon.read_n_canonical [OF r(5)] by simp_all
  have bo: "r6 = concat (map u32_to_le_bytes bo) @ r7" "length bo = unat nc"
    using u32_canon.read_n_canonical [OF r(8)] by simp_all
  have un: "r7 = concat (map u32_to_le_bytes un) @ r8" "length un = unat nc"
    using u32_canon.read_n_canonical [OF r(9)] by simp_all
  have ha: "r10 = mh_as_bytes hash @ rest" using hash_canon.deser_canonical [OF r(12)] by simp
  have "bs = footer_serialize f @ rest"
    unfolding ex nc hs(1) bo(1) un(1) ha f using hs(2)
    by (simp add: footer_serialize_def Let_def)
  moreover have "footer_wf f"
    using r(4) hs(2) bo(2) un(2) f by (simp add: footer_wf_def word_le_nat_alt not_less)
  ultimately show ?thesis by simp
qed

section \<open>The backward scan\<close>

abbreviation ident_at :: "bytes \<Rightarrow> nat \<Rightarrow> bool" where
  "ident_at data i \<equiv> take 7 (drop i data) = IDENT_HASHES"

lemma find_rev_upt:
  "find P (rev [0..<n]) = Some i \<longleftrightarrow> i < n \<and> P i \<and> (\<forall>j. i < j \<and> j < n \<longrightarrow> \<not> P j)"
proof (induction n)
  case (Suc n)
  then show ?case by (auto simp: less_Suc_eq)
qed simp

lemma scan_back_find: "\<forall>i\<in>set is. i + 7 \<le> length data \<Longrightarrow> scan_back data is = Inr (find (ident_at data) is)"
  by (induction "is") auto

lemma find_footer_eq:
  "7 \<le> length data \<Longrightarrow> find_footer data = Inr (find (ident_at data) (rev [0..<Suc (length data - 7)]))"
  unfolding find_footer_def by (rule scan_back_find) (auto simp del: upt_Suc)

lemma find_footer_short: "length data < 7 \<Longrightarrow> find_footer data = Inl (Panic ''range end index out of range'')"
  by (simp add: find_footer_def)

lemma find_footer_Some:
  "find_footer data = Inr (Some i) \<longleftrightarrow>
     i + 7 \<le> length data \<and> ident_at data i \<and> (\<forall>j. i < j \<and> j + 7 \<le> length data \<longrightarrow> \<not> ident_at data j)"
proof (cases "7 \<le> length data")
  case True
  have "i < Suc (length data - 7) \<longleftrightarrow> i + 7 \<le> length data" for i using True by auto
  then show ?thesis
    unfolding find_footer_eq [OF True] sum.inject find_rev_upt by simp
next
  case False
  then show ?thesis by (simp add: find_footer_short)
qed

lemma find_footer_tail:
  assumes "find_footer (drop k data) = Inr (Some i)"
  shows "find_footer data = Inr (Some (k + i))"
proof -
  from assms have i: "i + 7 \<le> length (drop k data)" "ident_at (drop k data) i"
    and last: "\<And>j. i < j \<Longrightarrow> j + 7 \<le> length (drop k data) \<Longrightarrow> \<not> ident_at (drop k data) j"
    by (auto simp: find_footer_Some)
  have "\<not> ident_at data j" if "k + i < j" "j + 7 \<le> length data" for j
    using last [of "j - k"] that by (simp add: drop_drop_add)
  with i show ?thesis by (auto simp: find_footer_Some add.commute [of i k])
qed

section \<open>Chunk verification\<close>

lemma hash_payload_absorbs:
  "hash_payload fl pos left h = Inr h' \<Longrightarrow>
     pos + left \<le> length fl \<or> left = 0 \<and> h' = h \<Longrightarrow>
     absorbed h' = absorbed h @ take left (drop pos fl)"
proof (induction fl pos left h rule: hash_payload.induct)
  case (1 fl pos left h)
  show ?case
  proof (cases "left = 0")
    case True
    with "1.prems" show ?thesis by (simp add: hash_payload.simps)
  next
    case False
    let ?n = "min (min left (64 * 1024)) (length fl - pos)"
    from False "1.prems" have n: "?n \<noteq> 0" by (auto simp: hash_payload.simps [of fl pos left] Let_def split: if_splits)
    have rec: "hash_payload fl (pos + ?n) (left - ?n) (sh_update h (take ?n (drop pos fl))) = Inr h'"
      using "1.prems"(1) False n
      by (subst (asm) hash_payload.simps) (simp only: Let_def if_False)
    have "absorbed h' = absorbed (sh_update h (take ?n (drop pos fl))) @ take (left - ?n) (drop (pos + ?n) fl)"
      using "1.IH" [OF False refl n rec] "1.prems"(2) False by auto
    moreover have "take ?n (drop pos fl) @ take (left - ?n) (drop (pos + ?n) fl) = take left (drop pos fl)"
      using take_add [of ?n "left - ?n" "drop pos fl"] by (simp add: drop_drop_add add.commute)
    ultimately show ?thesis by (simp add: sh_update_def)
  qed
qed

lemma hash_payload_total:
  "pos + left \<le> length fl \<Longrightarrow> \<exists>h'. hash_payload fl pos left h = Inr h'"
proof (induction fl pos left h rule: hash_payload.induct)
  case (1 fl pos left h)
  show ?case
  proof (cases "left = 0")
    case False
    let ?n = "min (min left (64 * 1024)) (length fl - pos)"
    have n: "?n \<noteq> 0" using False "1.prems" by auto
    from "1.IH" [OF False refl n] "1.prems" False n show ?thesis
      by (simp add: hash_payload.simps [of fl pos left] Let_def)
  qed (simp add: hash_payload.simps)
qed

text \<open>The bytes of a verified chunk, and what the verifier has established about them.\<close>

definition chunk_region :: "bytes \<Rightarrow> VerifiedXorbChunkInfo \<Rightarrow> bytes" where
  "chunk_region file ci = take (serialized_len ci) (drop (serialized_start ci) file)"

definition chunk_info_ok :: "crates \<Rightarrow> bytes \<Rightarrow> VerifiedXorbChunkInfo \<Rightarrow> bool" where
  "chunk_info_ok C file ci \<longleftrightarrow>
     compute_data_hash C (chunk_region file ci) = serialized_chunk_hash ci \<and>
     (case header_deserialize (chunk_region file ci) of
        Inl _ \<Rightarrow> False
      | Inr (header, payload) \<Rightarrow>
          length payload = compressed_payload_len ci \<and> unat (compressed_length header) = compressed_payload_len ci \<and>
          unat (uncompressed_length header) = unpacked_len ci)"

primrec contiguous :: "nat \<Rightarrow> nat \<Rightarrow> VerifiedXorbChunkInfo list \<Rightarrow> bool" where
  "contiguous a u [] \<longleftrightarrow> True"
| "contiguous a u (c # cs) \<longleftrightarrow> serialized_start c = a \<and> unpacked_start c = u \<and>
     serialized_end c = a + serialized_len c \<and> contiguous (serialized_end c) (u + unpacked_len c) cs"

lemma verify_file_chunk_ok:
  assumes ok: "verify_file_chunk C file footer fs i h co cu = Inr ci" and fs: "fs \<le> length file"
  shows "serialized_start ci = co \<and> unpacked_start ci = cu \<and> serialized_end ci = co + serialized_len ci \<and>
    serialized_end ci = chunk_end_at footer fs i \<and> serialized_end ci \<le> fs \<and> serialized_chunk_hash ci = h \<and>
    chunk_info_ok C file ci"
proof -
  let ?e = "chunk_end_at footer fs i"
  from ok obtain hb r1 hdr r2 off hh where
    e: "\<not> (?e > fs \<or> ?e < co)" and r: "read_exact HEADER_SIZE (drop co file) = Inr (hb, r1)"
    "header_deserialize hb = Inr (hdr, r2)" "?e - co = HEADER_SIZE + unat (compressed_length hdr)"
    "unat (off :: u32) = cu"
    "hash_payload file (co + HEADER_SIZE) (unat (compressed_length hdr)) (sh_update sh_new hb) = Inr hh"
    "sh_finalize C hh = h"
    and ci: "ci = \<lparr>serialized_chunk_hash = h, serialized_start = co, serialized_end = ?e, serialized_len = ?e - co,
      unpacked_start = cu, unpacked_len = unat (uncompressed_length hdr),
      compressed_payload_len = unat (compressed_length hdr)\<rparr>"
    by (auto simp: verify_file_chunk_def Let_def rbind_eq_Inr map_err_eq_Inr if_Inl_eq_Inr)
  let ?n = "unat (compressed_length hdr)" and ?region = "take (?e - co) (drop co file)"
  have hb: "hb = take 8 (drop co file)" using r(1) by (simp add: read_exact_Inr HEADER_SIZE_def)
  have region: "?region = hb @ take ?n (drop (co + 8) file)"
    using r(3) take_add [of 8 ?n "drop co file"] by (simp add: hb HEADER_SIZE_def add.commute [of 8 co])
  have "co + 8 + ?n \<le> length file" using e r(3) fs unfolding HEADER_SIZE_def by linarith
  then have "absorbed hh = ?region"
    using hash_payload_absorbs [OF r(5)] region by (simp add: HEADER_SIZE_def sh_update_def sh_new_def)
  then have hash: "compute_data_hash C ?region = h"
    using r(6) by (simp add: sh_finalize_def compute_data_hash_def)
  have "hb = header_serialize hdr @ r2" "header_wf hdr" using header_deserialize_canonical [OF r(2)] by auto
  moreover have "length hb = 8" using read_exact_split [OF r(1)] by (simp add: HEADER_SIZE_def)
  ultimately have "hb = header_serialize hdr" by simp
  then have "header_deserialize ?region = Inr (hdr, take ?n (drop (co + 8) file))"
    using region header_codec.deser_ser [OF \<open>header_wf hdr\<close>] by simp
  with hash e \<open>co + 8 + ?n \<le> length file\<close> show ?thesis
    by (simp add: ci chunk_info_ok_def chunk_region_def)
qed

lemma verify_file_chunks_ok:
  assumes "fs \<le> length file"
  shows "verify_file_chunks C file footer fs i hs co cu = Inr (cis, e) \<Longrightarrow> co \<le> fs \<Longrightarrow>
    co \<le> e \<and> e \<le> fs \<and> contiguous co cu cis \<and> map serialized_chunk_hash cis = hs \<and> list_all (chunk_info_ok C file) cis \<and>
    concat (map (chunk_region file) cis) = take (e - co) (drop co file) \<and>
    verify_chunks C file footer fs i hs co = Inr (map (\<lambda>ci. (serialized_chunk_hash ci, of_nat (serialized_len ci))) cis)"
proof (induction hs arbitrary: i co cu cis)
  case (Cons h hs)
  from Cons.prems(1) obtain ci cis' where
    ci: "verify_file_chunk C file footer fs i h co cu = Inr ci" and
    rest: "verify_file_chunks C file footer fs (i + 1) hs (serialized_end ci) (cu + unpacked_len ci) = Inr (cis', e)"
    and cis: "cis = ci # cis'"
    by (auto simp: rbind_eq_Inr)
  note o = verify_file_chunk_ok [OF ci assms]
  then have fs: "serialized_end ci \<le> fs" by simp
  note IH = Cons.IH [OF rest fs]
  have se: "serialized_end ci = co + serialized_len ci" using o by simp
  have "take (e - co) (drop co file) =
      take (serialized_len ci) (drop co file) @ take (e - serialized_end ci) (drop (serialized_end ci) file)"
    using IH se take_add [of "serialized_len ci" "e - serialized_end ci" "drop co file"]
    by (simp add: drop_drop_add add.commute)
  moreover have "length (take (serialized_len ci) (drop co file)) = serialized_len ci"
    using se fs assms by simp
  ultimately have region: "concat (map (chunk_region file) cis) = take (e - co) (drop co file)"
    using o IH by (simp add: cis chunk_region_def [where ci = ci])
  have "chunk_end_at footer fs i = serialized_end ci" "compute_data_hash C (take (serialized_len ci) (drop co file)) = h"
    using o unfolding chunk_info_ok_def chunk_region_def by auto
  then have "verify_chunks C file footer fs i (h # hs) co =
      rbind (verify_chunks C file footer fs (i + 1) hs (serialized_end ci))
        (\<lambda>rest. Inr ((h, of_nat (serialized_len ci)) # rest))"
    using se fs assms by (simp add: Let_def)
  with o IH se region show ?case by (simp add: cis)
qed simp

lemma file_verifier_Inr:
  assumes "verify_xorb_from_file_with_info C (Some file) = Inr info"
  obtains footer cis fs where
    "find_footer file = Inr (Some fs)" "footer_from_bytes (drop fs file) = Inr footer"
    "fs + footer_serialized_len footer = length file" "length file < 2 ^ 64"
    "verify_file_chunks C file footer fs 0 (chunk_hashes footer) 0 0 = Inr (cis, fs)"
    "xorb_hash C (map (\<lambda>ci. (serialized_chunk_hash ci, of_nat (serialized_len ci))) cis) = xi_xorb_hash footer"
    "info = \<lparr>v_xorb_hash = xi_xorb_hash footer, v_file_len = length file, v_footer_start = fs, v_chunks = cis,
       v_total_unpacked_bytes = sum_list (map unpacked_len cis),
       v_total_compressed_payload_bytes = sum_list (map compressed_payload_len cis)\<rparr>"
proof -
  let ?t = "length file - min (length file) max_serialized_len"
  from assms obtain i footer cis where
    i: "find_footer (drop ?t file) = Inr (Some i)" and
    f: "footer_from_bytes (drop i (drop ?t file)) = Inr footer" and
    rest: "?t + i + footer_serialized_len footer = length file" "length file < 2 ^ 64"
    "verify_file_chunks C file footer (?t + i) 0 (chunk_hashes footer) 0 0 = Inr (cis, ?t + i)"
    "xorb_hash C (map (\<lambda>ci. (serialized_chunk_hash ci, of_nat (serialized_len ci))) cis) = xi_xorb_hash footer"
    "info = \<lparr>v_xorb_hash = xi_xorb_hash footer, v_file_len = length file, v_footer_start = ?t + i, v_chunks = cis,
       v_total_unpacked_bytes = sum_list (map unpacked_len cis),
       v_total_compressed_payload_bytes = sum_list (map compressed_payload_len cis)\<rparr>"
    by (auto simp: verify_xorb_from_file_with_info_def Let_def rbind_eq_Inr ok_or_eq_Inr if_Inl_eq_Inr
        simp del: drop_drop)
  from f have "footer_from_bytes (drop (?t + i) file) = Inr footer" by (simp add: add.commute)
  with that find_footer_tail [OF i] rest show ?thesis by blast
qed

lemma footer_from_bytes_Inr: "footer_from_bytes bs = Inr f \<longleftrightarrow> (\<exists>rest. bs = footer_serialize f @ rest \<and> footer_wf f)"
proof
  assume "footer_from_bytes bs = Inr f"
  then obtain rest where "footer_deserialize bs = Inr (f, rest)"
    by (auto simp: footer_from_bytes_def rbind_eq_Inr)
  with footer_deserialize_canonical show "\<exists>rest. bs = footer_serialize f @ rest \<and> footer_wf f" by blast
next
  assume "\<exists>rest. bs = footer_serialize f @ rest \<and> footer_wf f"
  then show "footer_from_bytes bs = Inr f"
    by (auto simp: footer_from_bytes_def footer_deserialize_serialize)
qed

section \<open>Absence of panics\<close>

definition no_panic :: "'a xresult \<Rightarrow> bool" where
  "no_panic m \<longleftrightarrow> (case m of Inl (Panic _) \<Rightarrow> False | _ \<Rightarrow> True)"

lemma no_panic_simps [simp]:
  "no_panic (Inr x)" "no_panic (Inl (ParseError s))" "no_panic (Inl (IoError k))" "\<not> no_panic (Inl (Panic s))"
  by (simp_all add: no_panic_def)

lemma no_panic_rbind: "no_panic m \<Longrightarrow> (\<And>x. m = Inr x \<Longrightarrow> no_panic (f x)) \<Longrightarrow> no_panic (rbind m f)"
  by (cases m) (auto simp: no_panic_def split: xet_error.splits)

lemma no_panic_map_err: "(\<And>e. no_panic (Inl (f e) :: 'a xresult)) \<Longrightarrow> no_panic (map_err f m :: 'a xresult)"
  by (cases m) auto

lemma no_panic_ok_or: "no_panic (Inl e :: 'a xresult) \<Longrightarrow> no_panic (ok_or x e :: 'a xresult)"
  by (cases x) auto

lemma no_panic_rbind_pair:
  "no_panic m \<Longrightarrow> (\<And>x y. m = Inr (x, y) \<Longrightarrow> no_panic (f x y)) \<Longrightarrow> no_panic (rbind m (\<lambda>(x, y). f x y))"
  by (rule no_panic_rbind) auto

lemmas no_panic_intros = no_panic_rbind_pair no_panic_rbind no_panic_map_err no_panic_ok_or

lemma no_panic_read_exact [simp]: "no_panic (read_exact n bs)"
  by (simp add: read_exact_def)

lemma no_panic_read_n: "(\<And>bs. no_panic (d bs)) \<Longrightarrow> no_panic (read_n d n bs)"
  by (induction n arbitrary: bs) (auto intro!: no_panic_intros)

lemma no_panic_readers [simp]: "no_panic (read_u32_le bs)" "no_panic (read_hash bs)"
  by (auto simp: read_u32_le_def read_hash_def intro!: no_panic_intros)

lemma no_panic_header: "no_panic (header_deserialize bs)"
  unfolding header_deserialize_def by (auto intro!: no_panic_intros)

lemma no_panic_footer: "no_panic (footer_from_bytes bs)"
  unfolding footer_from_bytes_def footer_deserialize_def
  by (auto intro!: no_panic_intros no_panic_read_n)

lemma no_panic_verify_chunks: "no_panic (verify_chunks C data footer fs i hs co)"
  by (induction hs arbitrary: i co) (auto simp: Let_def intro!: no_panic_intros)

lemma no_panic_hash_payload: "no_panic (hash_payload fl pos n h)"
proof (induction fl pos n h rule: hash_payload.induct)
  case (1 fl pos n h)
  then show ?case by (subst hash_payload.simps) (simp add: Let_def)
qed

lemma no_panic_verify_file_chunk: "no_panic (verify_file_chunk C file footer fs i h co cu)"
  unfolding verify_file_chunk_def Let_def
  by (auto intro!: no_panic_intros simp: no_panic_header no_panic_hash_payload)

lemma no_panic_verify_file_chunks: "no_panic (verify_file_chunks C file footer fs i hs co cu)"
  by (induction hs arbitrary: i co cu) (auto intro!: no_panic_intros simp: no_panic_verify_file_chunk)

lemma no_panic_find_footer: "7 \<le> length data \<Longrightarrow> no_panic (find_footer data)"
  by (simp add: find_footer_eq del: upt_Suc)

section \<open>Completeness of the file verifier\<close>

text \<open>
  A serialized chunk: a header followed by the payload it declares, with the given unpacked
  length. The list of chunk ends and of unpacked starts that a footer has to state.
\<close>

definition piece_ok :: "bytes \<Rightarrow> nat \<Rightarrow> bool" where
  "piece_ok p u \<longleftrightarrow>
     (case header_deserialize p of
        Inl _ \<Rightarrow> False
      | Inr (header, payload) \<Rightarrow> length payload = unat (compressed_length header) \<and> unat (uncompressed_length header) = u)"

primrec running_ends :: "nat \<Rightarrow> nat list \<Rightarrow> nat list" where
  "running_ends a [] = []"
| "running_ends a (n # ns) = (a + n) # running_ends (a + n) ns"

primrec running_starts :: "nat \<Rightarrow> nat list \<Rightarrow> nat list" where
  "running_starts a [] = []"
| "running_starts a (n # ns) = a # running_starts (a + n) ns"

lemma running_length [simp]: "length (running_ends a ns) = length ns" "length (running_starts a ns) = length ns"
  by (induction ns arbitrary: a) auto

lemma running_ends_bound: "x \<in> set (running_ends a ns) \<Longrightarrow> x \<le> a + sum_list ns"
  by (induction ns arbitrary: a) fastforce+

lemma running_starts_bound: "x \<in> set (running_starts a ns) \<Longrightarrow> x \<le> a + sum_list ns"
  by (induction ns arbitrary: a) fastforce+

lemma verify_file_chunk_complete:
  assumes fl: "fl = pre @ p @ rest" and p: "piece_ok p u"
    and e: "chunk_end_at footer fs i = length pre + length p" "length pre + length p \<le> fs"
    and un: "i < length (unpacked_chunk_offsets footer)" "unat (unpacked_chunk_offsets footer ! i) = cu"
  shows "verify_file_chunk C fl footer fs i (compute_data_hash C p) (length pre) cu =
    Inr \<lparr>serialized_chunk_hash = compute_data_hash C p, serialized_start = length pre,
         serialized_end = length pre + length p, serialized_len = length p, unpacked_start = cu,
         unpacked_len = u, compressed_payload_len = length p - 8\<rparr>"
proof -
  from p obtain h payload where h: "header_deserialize p = Inr (h, payload)"
    and l: "length payload = unat (compressed_length h)" "unat (uncompressed_length h) = u"
    by (auto simp: piece_ok_def split: sum.splits)
  from header_deserialize_canonical [OF h] have ser: "p = header_serialize h @ payload" and wf: "header_wf h" by auto
  have rd: "read_exact HEADER_SIZE (drop (length pre) fl) = Inr (header_serialize h, payload @ rest)"
    by (simp add: fl ser HEADER_SIZE_def read_exact_append)
  have dh: "header_deserialize (header_serialize h) = Inr (h, [])"
    using header_codec.deser_ser [OF wf, of "[]"] by simp
  obtain hh where hh: "hash_payload fl (length pre + 8) (length payload) (sh_update sh_new (header_serialize h)) = Inr hh"
    using hash_payload_total [of "length pre + 8" "length payload" fl] by (auto simp: fl ser)
  have "absorbed hh = p"
    using hash_payload_absorbs [OF hh] by (simp add: fl ser sh_update_def sh_new_def)
  then have "sh_finalize C hh = compute_data_hash C p" by (simp add: sh_finalize_def compute_data_hash_def)
  with rd dh hh e un l show ?thesis
    by (simp add: verify_file_chunk_def Let_def) (simp add: ser HEADER_SIZE_def)
qed

text \<open>The chunk infos of laid-out pieces.\<close>

primrec piece_infos :: "crates \<Rightarrow> nat \<Rightarrow> nat \<Rightarrow> (bytes \<times> nat) list \<Rightarrow> VerifiedXorbChunkInfo list" where
  "piece_infos C a cu [] = []"
| "piece_infos C a cu (pu # ps) =
     \<lparr>serialized_chunk_hash = compute_data_hash C (fst pu), serialized_start = a,
      serialized_end = a + length (fst pu), serialized_len = length (fst pu), unpacked_start = cu,
      unpacked_len = snd pu, compressed_payload_len = length (fst pu) - 8\<rparr>
     # piece_infos C (a + length (fst pu)) (cu + snd pu) ps"

lemma verify_file_chunks_complete:
  assumes "length (chunk_boundary_offsets footer) = n" "length (unpacked_chunk_offsets footer) = n"
  shows "fl = pre @ concat (map fst ps) @ rest \<Longrightarrow> fs = length pre + length (concat (map fst ps)) \<Longrightarrow>
    list_all (\<lambda>(p, u). piece_ok p u) ps \<Longrightarrow> i + length ps = n \<Longrightarrow>
    map unat (drop i (chunk_boundary_offsets footer)) = running_ends (length pre) (map (length \<circ> fst) ps) \<Longrightarrow>
    map unat (drop i (unpacked_chunk_offsets footer)) = running_starts cu (map snd ps) \<Longrightarrow>
    verify_file_chunks C fl footer fs i (map (compute_data_hash C \<circ> fst) ps) (length pre) cu =
      Inr (piece_infos C (length pre) cu ps, fs)"
proof (induction ps arbitrary: pre i cu)
  case (Cons pu ps)
  obtain p u where pu: "pu = (p, u)" by (cases pu)
  have i: "i < n" using Cons.prems(4) by simp
  have db: "drop i (chunk_boundary_offsets footer) = chunk_boundary_offsets footer ! i # drop (Suc i) (chunk_boundary_offsets footer)"
    and du: "drop i (unpacked_chunk_offsets footer) = unpacked_chunk_offsets footer ! i # drop (Suc i) (unpacked_chunk_offsets footer)"
    using i assms by (simp_all add: Cons_nth_drop_Suc)
  have e: "chunk_end_at footer fs i = length pre + length p"
    using Cons.prems(5) db i assms pu by (simp add: chunk_end_at_def)
  have first: "verify_file_chunk C fl footer fs i (compute_data_hash C p) (length pre) cu =
    Inr \<lparr>serialized_chunk_hash = compute_data_hash C p, serialized_start = length pre,
         serialized_end = length pre + length p, serialized_len = length p, unpacked_start = cu,
         unpacked_len = u, compressed_payload_len = length p - 8\<rparr>"
    by (rule verify_file_chunk_complete) (use Cons.prems du i assms pu e in auto)
  have "verify_file_chunks C fl footer fs (Suc i) (map (compute_data_hash C \<circ> fst) ps) (length (pre @ p)) (cu + u) =
      Inr (piece_infos C (length (pre @ p)) (cu + u) ps, fs)"
    by (rule Cons.IH) (use Cons.prems db du pu in auto)
  with first show ?case by (simp add: pu o_def)
qed simp

lemma find_footer_at_end:
  assumes "7 \<le> length ftr" "ident_at ftr 0" "\<forall>j. 0 < j \<and> j + 7 \<le> length ftr \<longrightarrow> \<not> ident_at ftr j" "k \<le> length body"
  shows "find_footer (drop k (body @ ftr)) = Inr (Some (length body - k))"
proof -
  have "\<not> ident_at (drop k body @ ftr) j" if "length body - k < j" "j + 7 \<le> length (drop k body @ ftr)" for j
    using assms(3) that by (auto dest!: spec [of _ "j - (length body - k)"])
  then show ?thesis using assms by (auto simp: find_footer_Some)
qed

lemma ident_at_footer: "ident_at (footer_serialize f) 0"
  by (simp add: footer_serialize_def Let_def)

lemma footer_serialize_ge: "footer_wf f \<Longrightarrow> 60 \<le> length (footer_serialize f)"
  by (simp add: footer_serialize_length footer_serialized_len_def serialized_len_for_num_chunks_def)

lemma footer_serialize_le: "footer_wf f \<Longrightarrow> length (footer_serialize f) \<le> max_serialized_len"
  by (simp add: footer_serialize_length footer_serialized_len_def serialized_len_for_num_chunks_def
      max_serialized_len_def footer_wf_def)

text \<open>A footer that states what the pieces are, and in which the magic does not recur.\<close>

definition footer_for :: "crates \<Rightarrow> (bytes \<times> nat) list \<Rightarrow> XorbObjectInfoV1 \<Rightarrow> bool" where
  "footer_for C ps f \<longleftrightarrow> footer_wf f \<and> length (chunk_hashes f) = length ps \<and>
     chunk_hashes f = map (compute_data_hash C \<circ> fst) ps \<and>
     map unat (chunk_boundary_offsets f) = running_ends 0 (map (length \<circ> fst) ps) \<and>
     map unat (unpacked_chunk_offsets f) = running_starts 0 (map snd ps) \<and>
     xi_xorb_hash f = xorb_hash C (map (\<lambda>(p, u). (compute_data_hash C p, of_nat (length p))) ps)"

definition magic_once :: "bytes \<Rightarrow> bool" where
  "magic_once ftr \<longleftrightarrow> list_all (\<lambda>j. \<not> ident_at ftr j) [1..<length ftr - 6]"

lemma magic_onceD: "magic_once ftr \<Longrightarrow> 0 < j \<and> j + 7 \<le> length ftr \<longrightarrow> \<not> ident_at ftr j"
  by (auto simp: magic_once_def list_all_iff)

lemma piece_infos_nodes:
  "map (\<lambda>ci. (serialized_chunk_hash ci, of_nat (serialized_len ci))) (piece_infos C a cu ps) =
     map (\<lambda>(p, u). (compute_data_hash C p, of_nat (length p))) ps"
  by (induction ps arbitrary: a cu) auto

lemma piece_infos_unpacked: "map unpacked_len (piece_infos C a cu ps) = map snd ps"
  by (induction ps arbitrary: a cu) auto

lemma verify_file_complete:
  assumes ps: "list_all (\<lambda>(p, u). piece_ok p u) ps" and f: "footer_for C ps f"
    and once: "magic_once (footer_serialize f)"
    and fl: "fl = concat (map fst ps) @ footer_serialize f" "length fl < 2 ^ 64"
  shows "verify_xorb_from_file_with_info C (Some fl) =
    Inr \<lparr>v_xorb_hash = xi_xorb_hash f, v_file_len = length fl, v_footer_start = length (concat (map fst ps)),
         v_chunks = piece_infos C 0 0 ps, v_total_unpacked_bytes = sum_list (map snd ps),
         v_total_compressed_payload_bytes = sum_list (map compressed_payload_len (piece_infos C 0 0 ps))\<rparr>"
proof -
  let ?body = "concat (map fst ps)" and ?ftr = "footer_serialize f"
  let ?t = "length fl - min (length fl) max_serialized_len"
  have wf: "footer_wf f" using f by (simp add: footer_for_def)
  note ge = footer_serialize_ge [OF wf] and le = footer_serialize_le [OF wf]
  have t: "?t \<le> length ?body" using le fl by simp
  have find: "find_footer (drop ?t fl) = Inr (Some (length ?body - ?t))"
    unfolding fl(1)
    by (rule find_footer_at_end) (use ge t fl(1) ident_at_footer magic_onceD [OF once] in auto)
  have "drop (length ?body - ?t) (drop ?t fl) = ?ftr" using t by (simp add: fl(1))
  then have from_bytes: "footer_from_bytes (drop (length ?body - ?t) (drop ?t fl)) = Inr f"
    using wf by (simp add: footer_from_bytes_Inr)
  have len: "length ?body + footer_serialized_len f = length fl"
    using footer_serialize_length [OF wf] by (simp add: fl(1))
  have chunks: "verify_file_chunks C fl f (length ?body) 0 (chunk_hashes f) 0 0 =
      Inr (piece_infos C 0 0 ps, length ?body)"
  proof -
    have "verify_file_chunks C fl f (length ?body) 0 (map (compute_data_hash C \<circ> fst) ps) (length ([] :: bytes)) 0 =
      Inr (piece_infos C (length ([] :: bytes)) 0 ps, length ?body)"
      by (rule verify_file_chunks_complete [of f "length ps"])
         (use f ps fl(1) in \<open>auto simp: footer_for_def footer_wf_def\<close>)
    then show ?thesis using f by (simp add: footer_for_def)
  qed
  show ?thesis
    using ge find from_bytes len fl(2) chunks f t
    by (simp add: verify_xorb_from_file_with_info_def Let_def footer_for_def piece_infos_nodes
        piece_infos_unpacked fl(1) [symmetric] del: drop_drop)
       (use fl(1) in simp)
qed

section \<open>What acceptance says about the footer\<close>

lemma verify_file_chunk_unpacked:
  assumes "verify_file_chunk C fl footer fs i h co cu = Inr ci"
  shows "i < length (unpacked_chunk_offsets footer) \<and> unat (unpacked_chunk_offsets footer ! i) = cu"
  using assms
  by (auto simp: verify_file_chunk_def Let_def rbind_eq_Inr map_err_eq_Inr if_Inl_eq_Inr ok_or_eq_Inr
      split: if_splits)

lemma verify_file_chunks_offsets:
  assumes "fs \<le> length fl" "length (chunk_boundary_offsets footer) = n" "length (unpacked_chunk_offsets footer) = n"
  shows "verify_file_chunks C fl footer fs i hs co cu = Inr (cis, e) \<Longrightarrow> i + length hs = n \<Longrightarrow>
    map unat (drop i (chunk_boundary_offsets footer)) = running_ends co (map serialized_len cis) \<and>
    map unat (drop i (unpacked_chunk_offsets footer)) = running_starts cu (map unpacked_len cis)"
proof (induction hs arbitrary: i co cu cis)
  case (Cons h hs)
  from Cons.prems(1) obtain ci cis' where
    ci: "verify_file_chunk C fl footer fs i h co cu = Inr ci" and
    rest: "verify_file_chunks C fl footer fs (i + 1) hs (serialized_end ci) (cu + unpacked_len ci) = Inr (cis', e)"
    and cis: "cis = ci # cis'"
    by (auto simp: rbind_eq_Inr)
  note o = verify_file_chunk_ok [OF ci assms(1)] and u = verify_file_chunk_unpacked [OF ci]
  have i: "i < n" using Cons.prems(2) by simp
  have drops: "drop i (chunk_boundary_offsets footer) = chunk_boundary_offsets footer ! i # drop (Suc i) (chunk_boundary_offsets footer)"
    "drop i (unpacked_chunk_offsets footer) = unpacked_chunk_offsets footer ! i # drop (Suc i) (unpacked_chunk_offsets footer)"
    using i assms by (simp_all add: Cons_nth_drop_Suc)
  have "unat (chunk_boundary_offsets footer ! i) = co + serialized_len ci"
    using o i assms(2) by (simp add: chunk_end_at_def)
  moreover have "serialized_end ci = co + serialized_len ci" using o by simp
  ultimately show ?case
    using Cons.IH [OF rest] Cons.prems(2) u by (simp add: drops cis)
qed (use assms in simp)

lemma map_region_fst:
  "map fst (map (\<lambda>ci. (chunk_region fl ci, unpacked_len ci)) cis) = map (chunk_region fl) cis"
  by simp

lemma chunk_region_length: "chunk_info_ok C fl ci \<Longrightarrow> serialized_start ci + serialized_len ci \<le> length fl \<Longrightarrow>
    length (chunk_region fl ci) = serialized_len ci"
  by (simp add: chunk_region_def)

lemma contiguous_end_le:
  "contiguous a u cis \<Longrightarrow> ci \<in> set cis \<Longrightarrow> serialized_start ci + serialized_len ci \<le> a + sum_list (map serialized_len cis)"
  by (induction cis arbitrary: a u) fastforce+

lemma chunk_info_ok_piece: "chunk_info_ok C fl ci \<Longrightarrow> piece_ok (chunk_region fl ci) (unpacked_len ci)"
  by (auto simp: chunk_info_ok_def piece_ok_def split: sum.splits)

lemma verify_file_chunks_end:
  assumes "fs \<le> length fl"
  shows "verify_file_chunks C fl footer fs i hs co cu = Inr (cis, e) \<Longrightarrow> e = co + sum_list (map serialized_len cis)"
proof (induction hs arbitrary: i co cu cis)
  case (Cons h hs)
  then show ?case
    using verify_file_chunk_ok [OF _ assms, of C footer i h co cu]
    by (fastforce simp: rbind_eq_Inr)
qed simp

lemma verify_file_layout:
  assumes "verify_xorb_from_file_with_info C (Some fl) = Inr info"
  shows "\<exists>ps f. list_all (\<lambda>(p, u). piece_ok p u) ps \<and> footer_for C ps f \<and> magic_once (footer_serialize f) \<and>
    fl = concat (map fst ps) @ footer_serialize f \<and> length fl < 2 ^ 64"
proof -
  from assms obtain f cis fs where
    p: "find_footer fl = Inr (Some fs)" "footer_from_bytes (drop fs fl) = Inr f"
    "fs + footer_serialized_len f = length fl" "length fl < 2 ^ 64"
    "verify_file_chunks C fl f fs 0 (chunk_hashes f) 0 0 = Inr (cis, fs)"
    "xorb_hash C (map (\<lambda>ci. (serialized_chunk_hash ci, of_nat (serialized_len ci))) cis) = xi_xorb_hash f"
    by (rule file_verifier_Inr)
  let ?ps = "map (\<lambda>ci. (chunk_region fl ci, unpacked_len ci)) cis"
  have fs: "fs \<le> length fl" using p(3) by simp
  obtain rest where f: "drop fs fl = footer_serialize f @ rest" and wf: "footer_wf f"
    using p(2) by (auto simp: footer_from_bytes_Inr)
  have "length (drop fs fl) = footer_serialized_len f" using p(3) by simp
  then have ftr: "drop fs fl = footer_serialize f" using f footer_serialize_length [OF wf] by simp
  note ok = verify_file_chunks_ok [OF fs p(5), simplified]
  have wfl: "length (chunk_boundary_offsets f) = length (chunk_hashes f)"
    "length (unpacked_chunk_offsets f) = length (chunk_hashes f)" using wf by (simp_all add: footer_wf_def)
  note off = verify_file_chunks_offsets [OF fs wfl p(5), simplified]
  have len: "length (chunk_region fl ci) = serialized_len ci" if "ci \<in> set cis" for ci
    using contiguous_end_le [of 0 0 cis ci] ok verify_file_chunks_end [OF fs p(5)] fs that
    by (simp add: chunk_region_def)
  then have lens: "map (length \<circ> fst) ?ps = map serialized_len cis" by simp
  have hash: "compute_data_hash C (chunk_region fl ci) = serialized_chunk_hash ci" if "ci \<in> set cis" for ci
    using ok that by (simp add: list_all_iff chunk_info_ok_def)
  have "map (compute_data_hash C \<circ> fst) ?ps = map serialized_chunk_hash cis" using hash by simp
  with ok have hashes: "map (compute_data_hash C \<circ> fst) ?ps = chunk_hashes f" by simp
  have "map (\<lambda>(p, u). (compute_data_hash C p, of_nat (length p) :: u64)) ?ps =
      map (\<lambda>ci. (serialized_chunk_hash ci, of_nat (serialized_len ci))) cis"
    using hash len by simp
  then have root: "xi_xorb_hash f = xorb_hash C (map (\<lambda>(p, u). (compute_data_hash C p, of_nat (length p))) ?ps)"
    using p(6) by (simp only:)
  have "length ?ps = length (chunk_hashes f)" by (metis hashes length_map)
  then have "footer_for C ?ps f"
    unfolding footer_for_def lens using wf hashes off root by (simp add: o_def)
  moreover have "list_all (\<lambda>(p, u). piece_ok p u) ?ps"
    using ok chunk_info_ok_piece by (auto simp: list_all_iff)
  moreover have "magic_once (footer_serialize f)"
  proof -
    have "\<not> ident_at (footer_serialize f) j" if "0 < j" "j + 7 \<le> length (footer_serialize f)" for j
    proof -
      have "\<not> ident_at fl (fs + j)" using p(1,3) that footer_serialize_length [OF wf] by (simp add: find_footer_Some)
      then show ?thesis unfolding ftr [symmetric] by (simp add: add.commute)
    qed
    then show ?thesis by (auto simp: magic_once_def list_all_iff)
  qed
  moreover have "fl = concat (map fst ?ps) @ footer_serialize f"
    using ok ftr append_take_drop_id [of fs fl] by (simp add: o_def)
  ultimately show ?thesis using p(4) by blast
qed

section \<open>Properties\<close>

text \<open>
  Chunk headers: reading back a serialized header keeps version and scheme and reduces
  both lengths modulo \<open>2 ^ 24\<close> (the three-byte fields), so it is the identity below 16 MiB;
  conversely any eight bytes that parse are the serialization of what was parsed.
\<close>

theorem header_codec_exact:
  "header_deserialize (header_serialize h @ rest) =
     Inr (h\<lparr>compressed_length := of_nat (unat (compressed_length h) mod 2 ^ 24),
            uncompressed_length := of_nat (unat (uncompressed_length h) mod 2 ^ 24)\<rparr>, rest) \<and>
   (header_deserialize bs = Inr (h, rest) \<longleftrightarrow> header_wf h \<and> bs = header_serialize h @ rest)"
  using header_deserialize_serialize header_deserialize_canonical header_codec.deser_ser by blast

text \<open>
  Footers: the serialization of a footer with matching lists and at most 100000 chunks
  has the announced length and parses back to the footer; and the parser accepts no other
  bytes, so a footer has exactly one encoding.
\<close>

theorem footer_codec_exact:
  "(footer_deserialize bs = Inr (f, rest) \<longleftrightarrow> footer_wf f \<and> bs = footer_serialize f @ rest) \<and>
   (footer_wf f \<longrightarrow> length (footer_to_bytes f) = footer_serialized_len f \<and> footer_from_bytes (footer_to_bytes f) = Inr f)"
  using footer_deserialize_canonical footer_deserialize_serialize footer_serialize_length
  by (auto simp: footer_to_bytes_def footer_from_bytes_Inr)

theorem footer_codec_exact_witness:
  "footer_from_bytes (footer_to_bytes \<lparr>xi_xorb_hash = mh_new, chunk_hashes = [MerkleHash 1 2 3 4],
     chunk_boundary_offsets = [9], unpacked_chunk_offsets = [0]\<rparr>) =
   Inr \<lparr>xi_xorb_hash = mh_new, chunk_hashes = [MerkleHash 1 2 3 4],
     chunk_boundary_offsets = [9], unpacked_chunk_offsets = [0]\<rparr>"
  using footer_codec_exact [of "[]" "\<lparr>xi_xorb_hash = mh_new, chunk_hashes = [MerkleHash 1 2 3 4],
     chunk_boundary_offsets = [9], unpacked_chunk_offsets = [0]\<rparr>" "[]"]
  by (simp add: footer_wf_def MAX_CHUNKS_PER_XORB_def)

text \<open>
  Soundness of the file verifier: a file it accepts is exactly the concatenation of the
  reported chunk regions followed by one well-formed footer; the regions are contiguous from
  offset 0 in file and unpacked space, each region is a header and the payload it declares
  and hashes to the footer's hash for that chunk, and the reported xorb hash is both the
  footer's and the tree hash of the regions.
\<close>

theorem verify_file_sound:
  assumes "verify_xorb_from_file_with_info C (Some file) = Inr info"
  shows "\<exists>footer. footer_wf footer \<and>
    file = concat (map (chunk_region file) (v_chunks info)) @ footer_serialize footer \<and>
    contiguous 0 0 (v_chunks info) \<and> list_all (chunk_info_ok C file) (v_chunks info) \<and>
    map serialized_chunk_hash (v_chunks info) = chunk_hashes footer \<and>
    v_xorb_hash info = xi_xorb_hash footer \<and>
    v_xorb_hash info = xorb_hash C (map (\<lambda>ci. (serialized_chunk_hash ci, of_nat (serialized_len ci))) (v_chunks info)) \<and>
    v_footer_start info + footer_serialized_len footer = v_file_len info \<and> v_file_len info = length file"
proof -
  from assms obtain footer cis fs where
    p: "footer_from_bytes (drop fs file) = Inr footer" "fs + footer_serialized_len footer = length file"
    "verify_file_chunks C file footer fs 0 (chunk_hashes footer) 0 0 = Inr (cis, fs)"
    "xorb_hash C (map (\<lambda>ci. (serialized_chunk_hash ci, of_nat (serialized_len ci))) cis) = xi_xorb_hash footer"
    "info = \<lparr>v_xorb_hash = xi_xorb_hash footer, v_file_len = length file, v_footer_start = fs, v_chunks = cis,
       v_total_unpacked_bytes = sum_list (map unpacked_len cis),
       v_total_compressed_payload_bytes = sum_list (map compressed_payload_len cis)\<rparr>"
    by (rule file_verifier_Inr)
  obtain rest where f: "drop fs file = footer_serialize footer @ rest" "footer_wf footer"
    using p(1) by (auto simp: footer_from_bytes_Inr)
  have "length (drop fs file) = footer_serialized_len footer" using p(2) by simp
  then have "drop fs file = footer_serialize footer"
    using f footer_serialize_length [OF f(2)] by simp
  moreover have "concat (map (chunk_region file) cis) = take fs file"
    using verify_file_chunks_ok [OF _ p(3)] p(2) by simp
  ultimately have "file = concat (map (chunk_region file) cis) @ footer_serialize footer"
    by (metis append_take_drop_id)
  then show ?thesis
    using f(2) p verify_file_chunks_ok [OF _ p(3)] by (intro exI [of _ footer]) simp
qed

lemma memory_verifier_of_file:
  assumes "verify_xorb_from_file_with_info C (Some file) = Inr info"
  shows "verify_xorb C file = Inr ()"
proof -
  from assms obtain footer cis fs where
    p: "find_footer file = Inr (Some fs)" "footer_from_bytes (drop fs file) = Inr footer"
    "fs + footer_serialized_len footer = length file"
    "verify_file_chunks C file footer fs 0 (chunk_hashes footer) 0 0 = Inr (cis, fs)"
    "xorb_hash C (map (\<lambda>ci. (serialized_chunk_hash ci, of_nat (serialized_len ci))) cis) = xi_xorb_hash footer"
    by (rule file_verifier_Inr)
  then show ?thesis
    using verify_file_chunks_ok [OF _ p(4)] by (simp add: verify_xorb_def)
qed

text \<open>
  The two verifiers agree: every file the file verifier accepts, reading only a window
  at its end and each chunk incrementally, is accepted by the in-memory verifier.
\<close>

theorem file_verifier_implies_memory_verifier:
  assumes "verify_xorb_from_file_with_info C (Some file) = Inr info"
  shows "verify_xorb C file = Inr ()"
  using assms by (rule memory_verifier_of_file)

text \<open>
  Panics: the in-memory verifier panics exactly on inputs shorter than seven bytes,
  where its scan slices past the end; the file verifier never panics.
\<close>

theorem verifier_panics_exactly_on_short_input:
  "(no_panic (verify_xorb C data) \<longleftrightarrow> 7 \<le> length data) \<and>
   no_panic (verify_xorb_from_file_with_info C path)"
proof
  have "no_panic (verify_xorb C data)" if "7 \<le> length data"
    unfolding verify_xorb_def
    by (auto intro!: no_panic_intros simp: that no_panic_find_footer no_panic_footer no_panic_verify_chunks)
  moreover have "7 \<le> length data" if "no_panic (verify_xorb C data)"
    using that by (rule contrapos_pp) (simp add: verify_xorb_def find_footer_short)
  ultimately show "no_panic (verify_xorb C data) \<longleftrightarrow> 7 \<le> length data" by blast
next
  have "7 \<le> length (drop (length fl - min (length fl) max_serialized_len) fl)" if "\<not> length fl < 8" for fl :: bytes
    using that by (simp add: max_serialized_len_def serialized_len_for_num_chunks_def)
  then show "no_panic (verify_xorb_from_file_with_info C path)"
    unfolding verify_xorb_from_file_with_info_def Let_def
    by (auto intro!: no_panic_intros simp: no_panic_find_footer no_panic_footer no_panic_verify_file_chunks)
qed


section \<open>An accepted file\<close>

text \<open>One uncompressed chunk with a one-byte payload, for the witnesses.\<close>

definition demo_piece :: bytes where
  "demo_piece = [1, 1, 0, 0, 0, 1, 0, 0, 5]"

definition demo_footer :: XorbObjectInfoV1 where
  "demo_footer = \<lparr>xi_xorb_hash = compute_data_hash inst_crates demo_piece,
     chunk_hashes = [compute_data_hash inst_crates demo_piece], chunk_boundary_offsets = [9], unpacked_chunk_offsets = [0]\<rparr>"

definition demo_file :: bytes where
  "demo_file = demo_piece @ footer_serialize demo_footer"

lemma demo_footer_bytes:
  "footer_serialize demo_footer =
     IDENT_HASHES @ [0, 1, 0, 0, 0] @ pad_digest demo_piece @ IDENT_BOUNDARIES @ [1, 9, 0, 0, 0, 0, 0, 0, 0] @
     IDENT_MAIN @ [1] @ pad_digest demo_piece"
proof -
  have le: "u32_to_le_bytes 1 = [1, 0, 0, 0]" "u32_to_le_bytes 9 = [9, 0, 0, 0]" "u32_to_le_bytes 0 = [0, 0, 0, 0]"
    by code_simp+
  show ?thesis
    by (simp add: footer_serialize_def demo_footer_def compute_data_hash_def mh_as_from_bytes Let_def le)
qed

lemma demo_layout:
  "list_all (\<lambda>(p, u). piece_ok p u) [(demo_piece, 1)]" "footer_for inst_crates [(demo_piece, 1)] demo_footer"
  "magic_once (footer_serialize demo_footer)" "length demo_file < 2 ^ 64"
proof -
  show "list_all (\<lambda>(p, u). piece_ok p u) [(demo_piece, 1)]"
    by code_simp
  show f: "footer_for inst_crates [(demo_piece, 1)] demo_footer"
    by (simp add: footer_for_def footer_wf_def demo_footer_def demo_piece_def MAX_CHUNKS_PER_XORB_def
        xorb_hash_def aggregated_node_hash_def collapse_single)
  show "magic_once (footer_serialize demo_footer)"
    unfolding demo_footer_bytes by code_simp
  show "length demo_file < 2 ^ 64"
    using footer_serialize_length f
    by (simp add: demo_file_def demo_piece_def footer_for_def footer_serialized_len_def
        serialized_len_for_num_chunks_def demo_footer_def)
qed

lemma demo_file_accepted: "\<exists>info. verify_xorb_from_file_with_info inst_crates (Some demo_file) = Inr info"
  using verify_file_complete [OF demo_layout(1-3), of demo_file] demo_layout(4)
  by (simp add: demo_file_def)

theorem verify_file_sound_witness:
  "\<exists>info footer. verify_xorb_from_file_with_info inst_crates (Some demo_file) = Inr info \<and> footer_wf footer \<and>
    demo_file = concat (map (chunk_region demo_file) (v_chunks info)) @ footer_serialize footer"
  using demo_file_accepted verify_file_sound [of inst_crates demo_file] by blast

theorem file_verifier_implies_memory_verifier_witness: "verify_xorb inst_crates demo_file = Inr ()"
  using demo_file_accepted file_verifier_implies_memory_verifier [of inst_crates demo_file] by blast


end
