(* ===== verification/Chunking.thy ===== *)
theory Chunking
  imports Xet_Prelude
begin

text \<open>
  Content-defined chunking, \<^verbatim>\<open>src/src/chunking/cdc.rs\<close>: the configuration, the one-shot
  \<open>Chunker\<close> and the \<open>StreamingChunker\<close> that is fed block by block. The rolling hash of the
  gearhash crate is a parameter: from a hash state, a buffer and a mask it returns the
  position after the first match, if any, and the new state.

  The lemmas show that both chunkers terminate, that the chunks tile the input, that every
  chunk but the last is between the minimum and the maximum size, and that streaming yields
  the chunks of the one-shot chunker however the input is split into blocks.
\<close>

type_synonym gear = "u64 \<Rightarrow> bytes \<Rightarrow> u64 \<Rightarrow> nat option \<times> u64"

text \<open>Documented behaviour of \<open>next_match\<close>: a match position lies after a byte of the buffer.\<close>

definition gear_contract :: "gear \<Rightarrow> bool" where
  "gear_contract next_match \<longleftrightarrow>
     (\<forall>h d m. case fst (next_match h d m) of None \<Rightarrow> True | Some pos \<Rightarrow> 0 < pos \<and> pos \<le> length d)"

section \<open>Configuration\<close>

record ChunkConfig =
  target_chunk_size :: nat
  min_chunk_divisor :: nat
  max_chunk_multiplier :: nat

definition config_new :: ChunkConfig where
  "config_new = \<lparr>target_chunk_size = 64 * 1024, min_chunk_divisor = 8, max_chunk_multiplier = 2\<rparr>"

definition min_chunk_size :: "ChunkConfig \<Rightarrow> nat xresult" where
  "min_chunk_size c =
     (if min_chunk_divisor c = 0 then Inl (Panic ''attempt to divide by zero'')
      else Inr (target_chunk_size c div min_chunk_divisor c))"

definition max_chunk_size :: "ChunkConfig \<Rightarrow> nat" where
  "max_chunk_size c = target_chunk_size c * max_chunk_multiplier c"

definition is_power_of_two :: "nat \<Rightarrow> bool" where
  "is_power_of_two n \<longleftrightarrow> list_ex (\<lambda>k. n = 2 ^ k) [0..<64]"

definition leading_zeros :: "u64 \<Rightarrow> nat" where
  "leading_zeros w = length (takeWhile (\<lambda>i. \<not> bit w i) (rev [0..<64]))"

text \<open>The shift amount is taken modulo 64, as a release build does.\<close>

definition chunk_mask :: "nat \<Rightarrow> u64" where
  "chunk_mask target =
     (let w = of_nat (target - 1) in push_bit (leading_zeros w mod 64) w)"

record chunk =
  c_offset :: nat
  c_size :: nat

section \<open>One-shot chunking\<close>

record Chunker =
  ck_hash :: u64
  ck_config :: ChunkConfig
  ck_mask :: u64
  ck_min_chunk :: nat
  ck_max_chunk :: nat

definition chunker_new :: "ChunkConfig \<Rightarrow> Chunker xresult" where
  "chunker_new config =
     rbind (min_chunk_size config) (\<lambda>min_chunk.
       if \<not> is_power_of_two (target_chunk_size config)
       then Inl (Panic ''chunk target size must be a power of two'')
       else Inr \<lparr>ck_hash = 0, ck_config = config, ck_mask = chunk_mask (target_chunk_size config),
                 ck_min_chunk = min_chunk, ck_max_chunk = max_chunk_size config\<rparr>)"

text \<open>
  The loop of \<open>chunk_data\<close>, and with the offsets shifted by \<open>base\<close> that of \<open>finalize\<close>.
  It returns the chunks and the hash state; \<open>None\<close> is a loop that never ends.
\<close>

partial_function (option) chunk_loop ::
  "gear \<Rightarrow> u64 \<Rightarrow> nat \<Rightarrow> nat \<Rightarrow> bytes \<Rightarrow> nat \<Rightarrow> nat \<Rightarrow> u64 \<Rightarrow> (chunk list \<times> u64) option" where
  "chunk_loop next_match msk min_chunk max_chunk data base offset hash =
     (if offset < length data then
        (let remaining = length data - offset in
         if remaining < min_chunk then Some ([\<lparr>c_offset = base + offset, c_size = remaining\<rparr>], hash)
         else
           (let search_start = offset + (min_chunk - (64 + 1));
                search_end = min (offset + max_chunk) (length data)
            in if length data \<le> search_start \<or> search_end \<le> search_start
               then Some ([\<lparr>c_offset = base + offset, c_size = remaining\<rparr>], hash)
               else
                 (let search_data = take (search_end - search_start) (drop search_start data);
                      boundary = fst (next_match hash search_data msk);
                      found_size = (case boundary of Some pos \<Rightarrow> search_start + pos - offset
                                                   | None \<Rightarrow> search_end - offset);
                      chunk_size = max found_size (min min_chunk remaining)
                  in Option.bind
                       (chunk_loop next_match msk min_chunk max_chunk data base (offset + chunk_size) 0)
                       (\<lambda>r. Some (\<lparr>c_offset = base + offset, c_size = chunk_size\<rparr> # fst r, snd r)))))
      else Some ([], hash))"

definition chunk_data :: "gear \<Rightarrow> Chunker \<Rightarrow> bytes \<Rightarrow> (chunk list \<times> Chunker) option" where
  "chunk_data next_match ck data =
     (if data = [] then Some ([], ck)
      else Option.bind
             (chunk_loop next_match (ck_mask ck) (ck_min_chunk ck) (ck_max_chunk ck) data 0 0 (ck_hash ck))
             (\<lambda>(chunks, hash). Some (chunks, ck\<lparr>ck_hash := hash\<rparr>)))"

section \<open>Streaming chunking\<close>

record StreamingChunker =
  sc_hash :: u64
  sc_config :: ChunkConfig
  sc_mask :: u64
  sc_min_chunk :: nat
  sc_max_chunk :: nat
  sc_buffer :: bytes
  sc_total_offset :: nat

definition streaming_new :: "ChunkConfig \<Rightarrow> StreamingChunker xresult" where
  "streaming_new config =
     rbind (min_chunk_size config) (\<lambda>min_chunk.
       if \<not> is_power_of_two (target_chunk_size config)
       then Inl (Panic ''chunk target size must be a power of two'')
       else Inr \<lparr>sc_hash = 0, sc_config = config, sc_mask = chunk_mask (target_chunk_size config),
                 sc_min_chunk = min_chunk, sc_max_chunk = max_chunk_size config,
                 sc_buffer = [], sc_total_offset = 0\<rparr>)"

partial_function (option) drain_complete_chunks ::
  "gear \<Rightarrow> StreamingChunker \<Rightarrow> (xet_error + (chunk list \<times> StreamingChunker)) option" where
  "drain_complete_chunks next_match s =
     (let remaining = length (sc_buffer s) in
      if remaining < sc_min_chunk s then Some (Inr ([], s))
      else if remaining < sc_max_chunk s then Some (Inr ([], s))
      else
        (let search_start = sc_min_chunk s - (64 + 1); search_end = sc_max_chunk s in
         if search_end < search_start then Some (Inl (Panic ''slice index starts past its end''))
         else
           (let search_data = take (search_end - search_start) (drop search_start (sc_buffer s));
                boundary = fst (next_match (sc_hash s) search_data (sc_mask s));
                found_size = (case boundary of Some pos \<Rightarrow> search_start + pos | None \<Rightarrow> search_end);
                chunk_size = max found_size (min (sc_min_chunk s) remaining)
            in if remaining < chunk_size then Some (Inl (Panic ''drain range out of bounds''))
               else Option.bind
                      (drain_complete_chunks next_match
                        (s\<lparr>sc_total_offset := sc_total_offset s + chunk_size,
                           sc_buffer := drop chunk_size (sc_buffer s), sc_hash := 0\<rparr>))
                      (\<lambda>r. Some (rbind r (\<lambda>r.
                        Inr (\<lparr>c_offset = sc_total_offset s, c_size = chunk_size\<rparr> # fst r, snd r)))))))"

definition next_block ::
  "gear \<Rightarrow> StreamingChunker \<Rightarrow> bytes \<Rightarrow> (xet_error + (chunk list \<times> StreamingChunker)) option" where
  "next_block next_match s data = drain_complete_chunks next_match (s\<lparr>sc_buffer := sc_buffer s @ data\<rparr>)"

definition sc_finalize :: "gear \<Rightarrow> StreamingChunker \<Rightarrow> chunk list option" where
  "sc_finalize next_match s =
     (if sc_buffer s = [] then Some []
      else map_option fst
             (chunk_loop next_match (sc_mask s) (sc_min_chunk s) (sc_max_chunk s) (sc_buffer s)
               (sc_total_offset s) 0 (sc_hash s)))"

definition total_bytes :: "StreamingChunker \<Rightarrow> nat" where
  "total_bytes s = sc_total_offset s + length (sc_buffer s)"

declare chunk_loop.simps [code] drain_complete_chunks.simps [code]

text \<open>A whole stream: every block through \<open>next_block\<close>, then \<open>finalize\<close>.\<close>

fun stream_chunks :: "gear \<Rightarrow> StreamingChunker \<Rightarrow> bytes list \<Rightarrow> (xet_error + chunk list) option" where
  "stream_chunks next_match s [] = map_option Inr (sc_finalize next_match s)"
| "stream_chunks next_match s (b # bs) =
     (case next_block next_match s b of
        None \<Rightarrow> None
      | Some (Inl e) \<Rightarrow> Some (Inl e)
      | Some (Inr (chunks, s')) \<Rightarrow>
          map_option (\<lambda>r. rbind r (\<lambda>rest. Inr (chunks @ rest))) (stream_chunks next_match s' bs))"

section \<open>The reference cut\<close>

text \<open>
  The size of the first chunk as a function of the unchunked data alone, and the chunk list
  it gives. The \<open>max 1\<close> only makes the recursion total; \<open>cut_size_pos\<close> shows it is vacuous.
\<close>

definition cut_size :: "gear \<Rightarrow> u64 \<Rightarrow> nat \<Rightarrow> nat \<Rightarrow> bytes \<Rightarrow> nat" where
  "cut_size next_match msk mn mx d =
     (if length d < mn then length d
      else let e = min mx (length d) in
        max (case fst (next_match 0 (take (e - (mn - 65)) (drop (mn - 65) d)) msk) of
               Some pos \<Rightarrow> (mn - 65) + pos | None \<Rightarrow> e) mn)"

function ref_chunks :: "gear \<Rightarrow> u64 \<Rightarrow> nat \<Rightarrow> nat \<Rightarrow> nat \<Rightarrow> bytes \<Rightarrow> chunk list" where
  "ref_chunks next_match msk mn mx base d =
     (if d = [] then []
      else let k = max 1 (cut_size next_match msk mn mx d)
           in \<lparr>c_offset = base, c_size = k\<rparr> # ref_chunks next_match msk mn mx (base + k) (drop k d))"
  by pat_completeness auto
termination
  by (relation "measure (\<lambda>(next_match, msk, mn, mx, base, d). length d)") auto

declare ref_chunks.simps [simp del]

lemma gear_pos:
  assumes "gear_contract next_match" "fst (next_match h d m) = Some pos"
  shows "0 < pos \<and> pos \<le> length d"
  using assms unfolding gear_contract_def by (metis option.simps(5))

lemma cut_size_bounds:
  assumes "gear_contract g" "0 < mn" "mn \<le> mx" "d \<noteq> []"
  shows "0 < cut_size g msk mn mx d" "cut_size g msk mn mx d \<le> length d"
    "cut_size g msk mn mx d \<le> mx" "mn \<le> length d \<Longrightarrow> mn \<le> cut_size g msk mn mx d"
proof -
  let ?s = "take (min mx (length d) - (mn - 65)) (drop (mn - 65) d)"
  have len: "length ?s = min mx (length d) - (mn - 65)" by auto
  have pos: "mn - 65 + p \<le> min mx (length d)"
    if "fst (g 0 ?s msk) = Some p" "mn \<le> length d" for p
    using gear_pos [OF assms(1) that(1)] len that(2) assms(3) by linarith
  show "0 < cut_size g msk mn mx d" using assms by (auto simp: cut_size_def Let_def less_max_iff_disj)
  show "cut_size g msk mn mx d \<le> length d" "cut_size g msk mn mx d \<le> mx"
    using assms pos by (fastforce simp: cut_size_def Let_def split: option.split)+
  show "mn \<le> cut_size g msk mn mx d" if "mn \<le> length d"
    using that by (simp add: cut_size_def Let_def)
qed

lemma cut_size_append: "mx \<le> length d \<Longrightarrow> mn \<le> mx \<Longrightarrow> cut_size g msk mn mx (d @ e) = cut_size g msk mn mx d"
  by (simp add: cut_size_def Let_def min_absorb1)

lemma ref_chunks_step:
  assumes "gear_contract g" "0 < mn" "mn \<le> mx" "d \<noteq> []"
  shows "ref_chunks g msk mn mx base d =
    \<lparr>c_offset = base, c_size = cut_size g msk mn mx d\<rparr>
      # ref_chunks g msk mn mx (base + cut_size g msk mn mx d) (drop (cut_size g msk mn mx d) d)"
proof -
  have "max 1 (cut_size g msk mn mx d) = cut_size g msk mn mx d"
    using cut_size_bounds(1) [OF assms] by (simp add: Suc_le_eq max_absorb2)
  then show ?thesis using assms(4) by (simp add: ref_chunks.simps [of g msk mn mx base d] Let_def)
qed

lemma ref_chunks_Nil [simp]: "ref_chunks g msk mn mx base [] = []"
  by (simp add: ref_chunks.simps)

lemma chunk_loop_ref:
  assumes "gear_contract g" "0 < mn" "mn \<le> mx" "offset \<le> length data"
  shows "chunk_loop g msk mn mx data base offset 0 =
    Some (ref_chunks g msk mn mx (base + offset) (drop offset data), 0)"
  using assms(4)
proof (induction "length data - offset" arbitrary: offset rule: less_induct)
  case less
  let ?d = "drop offset data" and ?k = "cut_size g msk mn mx (drop offset data)"
  show ?case
  proof (cases "offset < length data")
    case False
    then show ?thesis by (simp add: chunk_loop.simps)
  next
    case True
    then have ne: "?d \<noteq> []" by simp
    note b = cut_size_bounds [OF assms(1-3) ne, of msk] and st = ref_chunks_step [OF assms(1-3) ne, of msk]
    show ?thesis
    proof (cases "length data - offset < mn")
      case small: True
      then have "?k = length ?d" by (simp add: cut_size_def)
      then show ?thesis using True small st [of "base + offset"] by (simp add: chunk_loop.simps)
    next
      case False
      let ?ss = "offset + (mn - 65)" and ?se = "min (offset + mx) (length data)"
      have se: "?se - ?ss = min mx (length ?d) - (mn - 65)" using True by auto
      have nd: "\<not> (length data \<le> ?ss \<or> ?se \<le> ?ss)" using False assms(2,3) True by auto
      have "min mn (length data - offset) = mn" using False by simp
      then have k: "max (case fst (g 0 (take (?se - ?ss) (drop ?ss data)) msk) of
          Some pos \<Rightarrow> ?ss + pos - offset | None \<Rightarrow> ?se - offset) (min mn (length data - offset)) = ?k"
        using False True unfolding se
        by (auto simp: cut_size_def Let_def drop_drop_add add.commute [of "mn - 65" offset]
            split: option.split)
      have IH: "chunk_loop g msk mn mx data base (offset + ?k) 0 =
          Some (ref_chunks g msk mn mx (base + (offset + ?k)) (drop (offset + ?k) data), 0)"
        using b True by (intro less) auto
      show ?thesis
        using True False nd k IH st [of "base + offset"]
        by (subst chunk_loop.simps) (simp add: Let_def add.assoc add.commute [of offset ?k])
    qed
  qed
qed

text \<open>Draining emits exactly the reference chunks that no further input can change.\<close>

definition sc_wf :: "StreamingChunker \<Rightarrow> bool" where
  "sc_wf s \<longleftrightarrow> sc_hash s = 0 \<and> 0 < sc_min_chunk s \<and> sc_min_chunk s \<le> sc_max_chunk s"

abbreviation sc_ref :: "gear \<Rightarrow> StreamingChunker \<Rightarrow> nat \<Rightarrow> bytes \<Rightarrow> chunk list" where
  "sc_ref g s \<equiv> ref_chunks g (sc_mask s) (sc_min_chunk s) (sc_max_chunk s)"

definition same_params :: "StreamingChunker \<Rightarrow> StreamingChunker \<Rightarrow> bool" where
  "same_params s t \<longleftrightarrow> sc_hash t = 0 \<and> sc_mask t = sc_mask s \<and> sc_min_chunk t = sc_min_chunk s \<and>
     sc_max_chunk t = sc_max_chunk s \<and> sc_config t = sc_config s"

lemma drain_ref:
  assumes "gear_contract g"
  shows "sc_wf s \<Longrightarrow> \<exists>cs t. drain_complete_chunks g s = Some (Inr (cs, t)) \<and> same_params s t \<and>
    length (sc_buffer t) < sc_max_chunk s \<and> total_bytes t = total_bytes s \<and>
    (\<forall>e. sc_ref g s (sc_total_offset s) (sc_buffer s @ e) = cs @ sc_ref g s (sc_total_offset t) (sc_buffer t @ e))"
proof (induction "length (sc_buffer s)" arbitrary: s rule: less_induct)
  case less
  let ?mn = "sc_min_chunk s" and ?mx = "sc_max_chunk s" and ?d = "sc_buffer s"
  let ?k = "cut_size g (sc_mask s) ?mn ?mx ?d"
  have wf: "sc_hash s = 0" "0 < ?mn" "?mn \<le> ?mx" using less.prems by (auto simp: sc_wf_def)
  show ?case
  proof (cases "length ?d < ?mx")
    case True
    then have "drain_complete_chunks g s = Some (Inr ([], s))"
      by (subst drain_complete_chunks.simps) (simp add: Let_def)
    with True wf show ?thesis by (intro exI [of _ "[]"] exI [of _ s]) (auto simp: same_params_def)
  next
    case False
    then have ne: "?d \<noteq> []" and mx: "?mx \<le> length ?d" using wf by auto
    note b = cut_size_bounds [OF assms wf(2,3) ne, of "sc_mask s"]
    let ?t = "s\<lparr>sc_total_offset := sc_total_offset s + ?k, sc_buffer := drop ?k ?d, sc_hash := 0\<rparr>"
    obtain cs t where t: "drain_complete_chunks g ?t = Some (Inr (cs, t))" "same_params ?t t"
      "length (sc_buffer t) < ?mx" "total_bytes t = total_bytes ?t"
      "\<forall>e. sc_ref g s (sc_total_offset s + ?k) (drop ?k ?d @ e) = cs @ sc_ref g s (sc_total_offset t) (sc_buffer t @ e)"
      using less.hyps [of ?t] b ne wf by (auto simp: sc_wf_def)
    have k: "max (case fst (g (sc_hash s) (take (?mx - (?mn - 65)) (drop (?mn - 65) ?d)) (sc_mask s)) of
        Some pos \<Rightarrow> (?mn - 65) + pos | None \<Rightarrow> ?mx) (min ?mn (length ?d)) = ?k"
      using mx wf by (simp add: cut_size_def Let_def min_absorb1)
    have "drain_complete_chunks g s = Some (Inr (\<lparr>c_offset = sc_total_offset s, c_size = ?k\<rparr> # cs, t))"
      using False wf k b(2) t(1) by (subst drain_complete_chunks.simps) (simp add: Let_def)
    moreover have "sc_ref g s (sc_total_offset s) (?d @ e) =
        \<lparr>c_offset = sc_total_offset s, c_size = ?k\<rparr> # sc_ref g s (sc_total_offset s + ?k) (drop ?k ?d @ e)" for e
      using ref_chunks_step [OF assms wf(2,3), of "?d @ e"] ne b(2) cut_size_append [OF mx wf(3)] by simp
    ultimately show ?thesis using t b(2)
      by (intro exI [of _ "_ # cs"] exI [of _ t]) (auto simp: same_params_def total_bytes_def)
  qed
qed

lemma same_params_wf: "sc_wf s \<Longrightarrow> same_params s t \<Longrightarrow> sc_wf t"
  by (simp add: sc_wf_def same_params_def)

lemma same_params_ref: "same_params s t \<Longrightarrow> sc_ref g t = sc_ref g s"
  by (simp add: same_params_def)

lemma next_block_ref:
  assumes "gear_contract g" "sc_wf s"
  shows "\<exists>cs t. next_block g s b = Some (Inr (cs, t)) \<and> same_params s t \<and>
    length (sc_buffer t) < sc_max_chunk s \<and> total_bytes t = total_bytes s + length b \<and>
    (\<forall>e. sc_ref g s (sc_total_offset s) (sc_buffer s @ b @ e) = cs @ sc_ref g s (sc_total_offset t) (sc_buffer t @ e))"
  using drain_ref [OF assms(1), of "s\<lparr>sc_buffer := sc_buffer s @ b\<rparr>"] assms(2)
  by (simp add: next_block_def sc_wf_def same_params_def total_bytes_def add.assoc)

lemma sc_finalize_ref:
  assumes "gear_contract g" "sc_wf s"
  shows "sc_finalize g s = Some (sc_ref g s (sc_total_offset s) (sc_buffer s))"
  using assms chunk_loop_ref [of g "sc_min_chunk s" "sc_max_chunk s" 0 "sc_buffer s"]
  by (simp add: sc_finalize_def sc_wf_def)

lemma stream_chunks_ref:
  assumes "gear_contract g"
  shows "sc_wf s \<Longrightarrow> stream_chunks g s blocks =
    Some (Inr (sc_ref g s (sc_total_offset s) (sc_buffer s @ concat blocks)))"
proof (induction blocks arbitrary: s)
  case Nil
  then show ?case by (simp add: sc_finalize_ref [OF assms])
next
  case (Cons b bs)
  obtain cs t where t: "next_block g s b = Some (Inr (cs, t))" "same_params s t"
    "\<forall>e. sc_ref g s (sc_total_offset s) (sc_buffer s @ b @ e) = cs @ sc_ref g s (sc_total_offset t) (sc_buffer t @ e)"
    using next_block_ref [OF assms Cons.prems, of b] by blast
  with Cons show ?case
    by (simp add: Cons.IH [OF same_params_wf [OF Cons.prems t(2)]] same_params_ref [OF t(2)])
qed

section \<open>Shape of the reference chunks\<close>

primrec tiles :: "nat \<Rightarrow> chunk list \<Rightarrow> nat \<Rightarrow> bool" where
  "tiles a [] b \<longleftrightarrow> a = b"
| "tiles a (c # cs) b \<longleftrightarrow> c_offset c = a \<and> 0 < c_size c \<and> tiles (a + c_size c) cs b"

definition chunk_slice :: "bytes \<Rightarrow> nat \<Rightarrow> chunk \<Rightarrow> bytes" where
  "chunk_slice data base c = take (c_size c) (drop (c_offset c - base) data)"

lemma ref_chunks_shape:
  assumes "gear_contract g" "0 < mn" "mn \<le> mx"
  shows "tiles base (ref_chunks g msk mn mx base d) (base + length d) \<and>
    (\<forall>c\<in>set (ref_chunks g msk mn mx base d). c_size c \<le> mx) \<and>
    (\<forall>c\<in>set (butlast (ref_chunks g msk mn mx base d)). mn \<le> c_size c)"
proof (induction "length d" arbitrary: base d rule: less_induct)
  case less
  show ?case
  proof (cases "d = []")
    case False
    let ?k = "cut_size g msk mn mx d"
    note b = cut_size_bounds [OF assms False, of msk] and st = ref_chunks_step [OF assms False, of msk base]
    have IH: "tiles (base + ?k) (ref_chunks g msk mn mx (base + ?k) (drop ?k d)) (base + ?k + length (drop ?k d)) \<and>
      (\<forall>c\<in>set (ref_chunks g msk mn mx (base + ?k) (drop ?k d)). c_size c \<le> mx) \<and>
      (\<forall>c\<in>set (butlast (ref_chunks g msk mn mx (base + ?k) (drop ?k d))). mn \<le> c_size c)"
      using less [of "drop ?k d" "base + ?k"] b False by auto
    have "mn \<le> ?k" if "ref_chunks g msk mn mx (base + ?k) (drop ?k d) \<noteq> []"
    proof (rule ccontr)
      assume "\<not> mn \<le> ?k"
      then have "length d < mn" using b(4) by linarith
      then have "?k = length d" by (simp add: cut_size_def)
      with that show False by simp
    qed
    then show ?thesis using IH b unfolding st by simp
  qed simp
qed

lemma tiles_offset_le: "tiles a cs b \<Longrightarrow> c \<in> set cs \<Longrightarrow> a \<le> c_offset c"
  by (induction cs arbitrary: a) fastforce+

lemma tiles_append_left: "tiles a (xs @ ys) c \<Longrightarrow> tiles b ys c \<Longrightarrow> tiles a xs b"
proof (induction xs arbitrary: a)
  case Nil
  have sum: "tiles a ys c \<Longrightarrow> c = a + sum_list (map c_size ys)" for a
    by (induction ys arbitrary: a) (fastforce simp: add.assoc)+
  from sum [of a] sum [of b] Nil show ?case by simp
qed auto

lemma tiles_concat:
  "tiles a cs (a + length d) \<Longrightarrow> concat (map (chunk_slice d a) cs) = d"
proof (induction cs arbitrary: a d)
  case (Cons c cs)
  let ?k = "c_size c"
  have le: "tiles x ys y \<Longrightarrow> x \<le> y" for x ys y
    by (induction ys arbitrary: x) fastforce+
  from Cons.prems have t: "tiles (a + ?k) cs (a + length d)" and c: "c_offset c = a" by simp_all
  then have k: "?k \<le> length d" using le by fastforce
  have "chunk_slice d a e = chunk_slice (drop ?k d) (a + ?k) e" if "e \<in> set cs" for e
    using tiles_offset_le [OF t that] by (simp add: chunk_slice_def drop_drop_add)
  then have "map (chunk_slice d a) cs = map (chunk_slice (drop ?k d) (a + ?k)) cs" by simp
  moreover have "concat (map (chunk_slice (drop ?k d) (a + ?k)) cs) = drop ?k d"
    using t k by (intro Cons.IH) simp
  moreover have "chunk_slice d a c = take ?k d" using c by (simp add: chunk_slice_def)
  ultimately show ?case by (simp only: list.map concat.simps append_take_drop_id)
qed simp

section \<open>Properties\<close>

definition chunker_wf :: "Chunker \<Rightarrow> bool" where
  "chunker_wf ck \<longleftrightarrow> ck_hash ck = 0 \<and> 0 < ck_min_chunk ck \<and> ck_min_chunk ck \<le> ck_max_chunk ck"

lemma chunk_mask_default: "chunk_mask 65536 = 0xFFFF000000000000"
proof -
  have "leading_zeros 65535 = 48" by (simp add: leading_zeros_def upt_conv_Cons)
  then show ?thesis by (simp add: chunk_mask_def)
qed

lemma is_power_of_two_default: "is_power_of_two 65536"
  by (auto simp: is_power_of_two_def list_ex_iff intro!: bexI [of _ 16])

lemma config_parts:
  "min_chunk_size config_new = Inr 8192" "max_chunk_size config_new = 131072"
  "is_power_of_two (target_chunk_size config_new)"
  "chunk_mask (target_chunk_size config_new) = 0xFFFF000000000000"
  using chunk_mask_default is_power_of_two_default
  by (simp_all add: config_new_def min_chunk_size_def max_chunk_size_def)

lemma chunker_new_default:
  "chunker_new config_new = Inr \<lparr>ck_hash = 0, ck_config = config_new, ck_mask = 0xFFFF000000000000,
     ck_min_chunk = 8192, ck_max_chunk = 131072\<rparr>"
  by (simp add: chunker_new_def config_parts)

lemma streaming_new_default:
  "streaming_new config_new = Inr \<lparr>sc_hash = 0, sc_config = config_new, sc_mask = 0xFFFF000000000000,
     sc_min_chunk = 8192, sc_max_chunk = 131072, sc_buffer = [], sc_total_offset = 0\<rparr>"
  by (simp add: streaming_new_def config_parts)

lemma chunk_data_ref:
  assumes "gear_contract g" "chunker_wf ck"
  shows "chunk_data g ck data =
    Some (ref_chunks g (ck_mask ck) (ck_min_chunk ck) (ck_max_chunk ck) 0 data, ck)"
  using assms chunk_loop_ref [of g "ck_min_chunk ck" "ck_max_chunk ck" 0 data "ck_mask ck" 0]
  by (auto simp: chunk_data_def chunker_wf_def)

text \<open>
  The one-shot chunker terminates on every input and leaves the chunker as it was; its
  chunks are contiguous and non-empty from offset 0 to the end of the data, so the slices
  they describe concatenate to the data; none is larger than the maximum, and all but the
  last have at least the minimum size.
\<close>

theorem chunk_data_partition:
  assumes "gear_contract next_match" "chunker_wf ck"
  shows "\<exists>chunks. chunk_data next_match ck data = Some (chunks, ck) \<and>
    tiles 0 chunks (length data) \<and> concat (map (chunk_slice data 0) chunks) = data \<and>
    (\<forall>c\<in>set chunks. c_size c \<le> ck_max_chunk ck) \<and>
    (\<forall>c\<in>set (butlast chunks). ck_min_chunk ck \<le> c_size c)"
proof -
  have w: "0 < ck_min_chunk ck" "ck_min_chunk ck \<le> ck_max_chunk ck"
    using assms(2) by (simp_all add: chunker_wf_def)
  show ?thesis
    using ref_chunks_shape [OF assms(1) w, of 0 "ck_mask ck" data]
    by (auto simp: chunk_data_ref [OF assms] intro: tiles_concat [of 0, simplified])
qed

text \<open>A matcher for witnesses: it matches after every 70th byte.\<close>

definition gear_every70 :: gear where
  "gear_every70 h d m = (if 70 \<le> length d then (Some 70, h) else (None, h))"

lemma gear_every70_contract [simp]: "gear_contract gear_every70"
  by (auto simp: gear_contract_def gear_every70_def)

definition small_chunker :: Chunker where
  "small_chunker = \<lparr>ck_hash = 0, ck_config = config_new, ck_mask = 0, ck_min_chunk = 2, ck_max_chunk = 3\<rparr>"

theorem chunk_data_partition_witness:
  "\<exists>chunks. chunk_data gear_every70 small_chunker [1, 2, 3, 4, 5] = Some (chunks, small_chunker) \<and>
    tiles 0 chunks 5 \<and> concat (map (chunk_slice [1, 2, 3, 4, 5] 0) chunks) = [1, 2, 3, 4, 5]"
proof -
  have "chunker_wf small_chunker" by (simp add: chunker_wf_def small_chunker_def)
  then show ?thesis
    using chunk_data_partition [OF gear_every70_contract, of small_chunker "[1, 2, 3, 4, 5]"]
    by (auto simp: eval_nat_numeral)
qed

text \<open>
  C17. Streaming equals one-shot chunking: for every way of splitting the input into blocks,
  feeding the blocks and finalizing terminates without a panic and yields exactly the
  chunks of the one-shot chunker with the same parameters on the concatenated input.
\<close>

theorem streaming_equals_oneshot:
  assumes "gear_contract next_match" "chunker_wf ck"
    and "s = \<lparr>sc_hash = 0, sc_config = ck_config ck, sc_mask = ck_mask ck, sc_min_chunk = ck_min_chunk ck,
              sc_max_chunk = ck_max_chunk ck, sc_buffer = [], sc_total_offset = 0\<rparr>"
  shows "\<exists>chunks. stream_chunks next_match s blocks = Some (Inr chunks) \<and>
    chunk_data next_match ck (concat blocks) = Some (chunks, ck)"
proof -
  have "sc_wf s" using assms(2,3) by (simp add: sc_wf_def chunker_wf_def)
  then show ?thesis
    using stream_chunks_ref [OF assms(1)] chunk_data_ref [OF assms(1,2)] assms(3) by simp
qed

theorem streaming_equals_oneshot_witness:
  "\<exists>chunks. stream_chunks gear_every70
      \<lparr>sc_hash = 0, sc_config = config_new, sc_mask = 0, sc_min_chunk = 2, sc_max_chunk = 3,
       sc_buffer = [], sc_total_offset = 0\<rparr> [[1], [2, 3, 4], [5]] = Some (Inr chunks) \<and>
    chunk_data gear_every70 small_chunker [1, 2, 3, 4, 5] = Some (chunks, small_chunker)"
proof -
  have "chunker_wf small_chunker" by (simp add: chunker_wf_def small_chunker_def)
  from streaming_equals_oneshot [OF gear_every70_contract this refl, of "[[1], [2, 3, 4], [5]]"]
  show ?thesis by (simp add: small_chunker_def)
qed

text \<open>
  Memory bound of the streaming chunker: feeding a block always returns, keeps the
  parameters, leaves fewer than \<open>max_chunk\<close> bytes buffered, and accounts for every byte
  fed; the emitted chunks tile the bytes that left the buffer.
\<close>

theorem next_block_bounded_buffer:
  assumes "gear_contract next_match" "sc_wf s"
  shows "\<exists>chunks s'. next_block next_match s b = Some (Inr (chunks, s')) \<and> sc_wf s' \<and>
    length (sc_buffer s') < sc_max_chunk s \<and> total_bytes s' = total_bytes s + length b \<and>
    tiles (sc_total_offset s) chunks (sc_total_offset s')"
proof -
  obtain cs t where t: "next_block next_match s b = Some (Inr (cs, t))" "same_params s t"
    "length (sc_buffer t) < sc_max_chunk s" "total_bytes t = total_bytes s + length b"
    "sc_ref next_match s (sc_total_offset s) (sc_buffer s @ b) =
       cs @ sc_ref next_match s (sc_total_offset t) (sc_buffer t)"
    using next_block_ref [OF assms, of b] by (metis append_Nil2)
  have w: "0 < sc_min_chunk s" "sc_min_chunk s \<le> sc_max_chunk s" using assms(2) by (simp_all add: sc_wf_def)
  note sh = ref_chunks_shape [OF assms(1) w, THEN conjunct1]
  have "sc_total_offset s + length (sc_buffer s @ b) = sc_total_offset t + length (sc_buffer t)"
    using t(4) by (simp add: total_bytes_def)
  then have "tiles (sc_total_offset s) (cs @ sc_ref next_match s (sc_total_offset t) (sc_buffer t))
      (sc_total_offset t + length (sc_buffer t))"
    using sh [of "sc_total_offset s" "sc_mask s" "sc_buffer s @ b"] by (simp only: t(5))
  then have "tiles (sc_total_offset s) cs (sc_total_offset t)"
    by (rule tiles_append_left) (rule sh)
  with t(1,3,4) same_params_wf [OF assms(2) t(2)] show ?thesis by blast
qed

theorem next_block_bounded_buffer_witness:
  "\<exists>chunks s'. next_block gear_every70
      \<lparr>sc_hash = 0, sc_config = config_new, sc_mask = 0, sc_min_chunk = 2, sc_max_chunk = 3,
       sc_buffer = [9], sc_total_offset = 4\<rparr> [1, 2, 3] = Some (Inr (chunks, s')) \<and>
    length (sc_buffer s') < 3 \<and> total_bytes s' = 8"
  using next_block_bounded_buffer [OF gear_every70_contract,
      of "\<lparr>sc_hash = 0, sc_config = config_new, sc_mask = 0, sc_min_chunk = 2, sc_max_chunk = 3,
       sc_buffer = [9], sc_total_offset = 4\<rparr>" "[1, 2, 3]"]
  by (auto simp: sc_wf_def total_bytes_def)

end
