(* ===== verification/Xorb_Builder.thy ===== *)
theory Xorb_Builder
  imports Xorb_Format Chunking
begin

text \<open>
  Writing and reading xorbs: the builder of \<^verbatim>\<open>src/src/format/xorb_builder.rs\<close>, which
  compresses chunks, keeps running offsets in 32-bit counters and verifies its output, and
  the chunk reader of \<^verbatim>\<open>src/src/xorb_reader.rs\<close>, which extracts one chunk of a stored xorb
  and checks it against the hash and length a shard states.

  The lemmas show that building succeeds and yields a file both verifiers accept, that the
  reader only returns bytes bound to the expected hash and length, and that reading back
  any chunk of a built xorb returns the bytes that were added.
\<close>

section \<open>The builder\<close>

record ChunkData =
  cd_chunk_hash :: merkle_hash
  serialized_chunk :: bytes
  compressed_len :: u32
  uncompressed_size :: u32
  boundary_offset :: u32
  unpacked_offset :: u32

record XorbBuilder =
  xb_chunks :: "ChunkData list"
  xb_scheme :: CompressionScheme
  next_boundary_offset :: u32
  next_unpacked_offset :: u32

record XorbBuildResult =
  xr_data :: bytes
  xr_xorb_hash :: merkle_hash
  xr_chunk_hashes :: "merkle_hash list"
  total_uncompressed_size :: u64
  total_compressed_size :: u64

definition builder_new :: "CompressionScheme \<Rightarrow> XorbBuilder" where
  "builder_new scheme = \<lparr>xb_chunks = [], xb_scheme = scheme, next_boundary_offset = 0, next_unpacked_offset = 0\<rparr>"

definition add_chunk :: "crates \<Rightarrow> XorbBuilder \<Rightarrow> bytes \<Rightarrow> ((merkle_hash \<times> u32) \<times> XorbBuilder) xresult" where
  "add_chunk C b data =
     (let uncompressed = of_nat (length data) in
      rbind (compress C (xb_scheme b) data) (\<lambda>compressed_data.
      let header = \<lparr>h_version = 1, compressed_length = of_nat (length compressed_data),
                    compression_scheme = xb_scheme b, uncompressed_length = uncompressed\<rparr>;
          chunk_bytes = header_serialize header @ compressed_data;
          chunk_hash = compute_data_hash C chunk_bytes;
          boundary = next_boundary_offset b + of_nat (length chunk_bytes);
          unpacked = next_unpacked_offset b;
          clen = of_nat (length compressed_data)
      in Inr ((chunk_hash, clen),
              b\<lparr>xb_chunks := xb_chunks b @ [\<lparr>cd_chunk_hash = chunk_hash, serialized_chunk = chunk_bytes,
                   compressed_len = clen, uncompressed_size = uncompressed,
                   boundary_offset = boundary, unpacked_offset = unpacked\<rparr>],
                next_boundary_offset := boundary,
                next_unpacked_offset := next_unpacked_offset b + uncompressed\<rparr>)))"

definition builder_xorb_hash :: "crates \<Rightarrow> XorbBuilder \<Rightarrow> merkle_hash" where
  "builder_xorb_hash C b =
     xorb_hash C (map (\<lambda>c. (cd_chunk_hash c, of_nat (length (serialized_chunk c)))) (xb_chunks b))"

definition builder_chunk_info :: "XorbBuilder \<Rightarrow> node list" where
  "builder_chunk_info b = map (\<lambda>c. (cd_chunk_hash c, ucast (uncompressed_size c))) (xb_chunks b)"

definition build :: "crates \<Rightarrow> XorbBuilder \<Rightarrow> XorbBuildResult xresult" where
  "build C b =
     (let chunks = xb_chunks b;
          hashes = map cd_chunk_hash chunks;
          xorb_hash_val = xorb_hash C (map (\<lambda>c. (cd_chunk_hash c, of_nat (length (serialized_chunk c)))) chunks);
          footer = \<lparr>xi_xorb_hash = xorb_hash_val, chunk_hashes = hashes,
                    chunk_boundary_offsets = map boundary_offset chunks,
                    unpacked_chunk_offsets = map unpacked_offset chunks\<rparr>;
          buf = concat (map serialized_chunk chunks) @ footer_serialize footer
      in rbind (verify_xorb C buf) (\<lambda>_.
         Inr \<lparr>xr_data = buf, xr_xorb_hash = xorb_hash_val, xr_chunk_hashes = hashes,
              total_uncompressed_size = sum_list (map (\<lambda>c. ucast (uncompressed_size c)) chunks),
              total_compressed_size = sum_list (map (\<lambda>c. ucast (compressed_len c)) chunks)\<rparr>))"

section \<open>The chunk reader\<close>

definition max_compressed_len_for_chunk :: "CompressionScheme \<Rightarrow> nat \<Rightarrow> nat" where
  "max_compressed_len_for_chunk scheme expected_uncompressed_len =
     (case scheme of
        CNone \<Rightarrow> expected_uncompressed_len
      | _ \<Rightarrow> expected_uncompressed_len + expected_uncompressed_len div 255 + 20)"

definition extract_chunk_verified_from_file ::
  "crates \<Rightarrow> bytes \<Rightarrow> nat \<Rightarrow> u32 \<Rightarrow> merkle_hash \<Rightarrow> string + bytes" where
  "extract_chunk_verified_from_file C xorb_file chunk_offset_bytes expected_uncompressed_len expected_hash =
     rbind (map_err (\<lambda>_. ''Failed to read chunk header'')
              (read_exact HEADER_SIZE (drop chunk_offset_bytes xorb_file))) (\<lambda>(header_bytes, r).
     rbind (map_err (\<lambda>_. ''Failed to parse chunk header'') (header_deserialize header_bytes)) (\<lambda>(chunk_header, _).
     let max_uncompressed_len = max_chunk_size config_new in
     if unat expected_uncompressed_len > max_uncompressed_len then Inl ''Shard chunk length exceeds maximum''
     else if uncompressed_length chunk_header \<noteq> expected_uncompressed_len then Inl ''Chunk length mismatch''
     else
     let max_compressed_len =
           max_compressed_len_for_chunk (compression_scheme chunk_header) (unat expected_uncompressed_len) in
     if unat (compressed_length chunk_header) > max_compressed_len then Inl ''Chunk compressed length exceeds maximum''
     else
     rbind (map_err (\<lambda>_. ''Failed to read chunk data'')
              (read_exact (unat (compressed_length chunk_header)) r)) (\<lambda>(compressed_data, _).
     let actual_hash = sh_finalize C (sh_update (sh_update sh_new header_bytes) compressed_data) in
     if actual_hash \<noteq> expected_hash then Inl ''Chunk hash mismatch: stored data is corrupted''
     else
     map_err (\<lambda>_. ''Failed to decompress chunk'')
       (decompress C (compression_scheme chunk_header) compressed_data (unat (uncompressed_length chunk_header))))))"

text \<open>Adding a list of chunks in order.\<close>

fun add_chunks :: "crates \<Rightarrow> XorbBuilder \<Rightarrow> bytes list \<Rightarrow> XorbBuilder xresult" where
  "add_chunks C b [] = Inr b"
| "add_chunks C b (d # ds) = rbind (add_chunk C b d) (\<lambda>(_, b'). add_chunks C b' ds)"

section \<open>What the builder accumulates\<close>

definition compressed_of :: "crates \<Rightarrow> CompressionScheme \<Rightarrow> bytes \<Rightarrow> bytes" where
  "compressed_of C s d = (case compress C s d of Inr c \<Rightarrow> c | Inl _ \<Rightarrow> [])"

definition piece_of :: "crates \<Rightarrow> CompressionScheme \<Rightarrow> bytes \<Rightarrow> bytes" where
  "piece_of C s d =
     header_serialize \<lparr>h_version = 1, compressed_length = of_nat (length (compressed_of C s d)),
                       compression_scheme = s, uncompressed_length = of_nat (length d)\<rparr> @ compressed_of C s d"

abbreviation pieces :: "crates \<Rightarrow> CompressionScheme \<Rightarrow> bytes list \<Rightarrow> (bytes \<times> nat) list" where
  "pieces C s ds \<equiv> map (\<lambda>d. (piece_of C s d, length d)) ds"

primrec chunk_datas :: "crates \<Rightarrow> CompressionScheme \<Rightarrow> u32 \<Rightarrow> u32 \<Rightarrow> bytes list \<Rightarrow> ChunkData list" where
  "chunk_datas C s bo uo [] = []"
| "chunk_datas C s bo uo (d # ds) =
     \<lparr>cd_chunk_hash = compute_data_hash C (piece_of C s d), serialized_chunk = piece_of C s d,
      compressed_len = of_nat (length (compressed_of C s d)), uncompressed_size = of_nat (length d),
      boundary_offset = bo + of_nat (length (piece_of C s d)), unpacked_offset = uo\<rparr>
     # chunk_datas C s (bo + of_nat (length (piece_of C s d))) (uo + of_nat (length d)) ds"

lemma compress_total: "compress C s d = Inr (compressed_of C s d)"
  by (cases s) (simp_all add: compress_def compressed_of_def)

lemma add_chunk_eq:
  "add_chunk C b d =
     Inr ((compute_data_hash C (piece_of C (xb_scheme b) d), of_nat (length (compressed_of C (xb_scheme b) d))),
       b\<lparr>xb_chunks := xb_chunks b @ chunk_datas C (xb_scheme b) (next_boundary_offset b) (next_unpacked_offset b) [d],
         next_boundary_offset := next_boundary_offset b + of_nat (length (piece_of C (xb_scheme b) d)),
         next_unpacked_offset := next_unpacked_offset b + of_nat (length d)\<rparr>)"
  by (simp add: add_chunk_def compress_total Let_def piece_of_def)

lemma add_chunks_result:
  "\<exists>b'. add_chunks C b ds = Inr b' \<and> xb_scheme b' = xb_scheme b \<and>
     xb_chunks b' = xb_chunks b @ chunk_datas C (xb_scheme b) (next_boundary_offset b) (next_unpacked_offset b) ds"
proof (induction ds arbitrary: b)
  case (Cons d ds)
  show ?case
    using Cons.IH [of "snd (projr (add_chunk C b d))"] by (simp add: add_chunk_eq)
qed simp

lemma chunk_datas_maps:
  "map cd_chunk_hash (chunk_datas C s bo uo ds) = map (compute_data_hash C \<circ> fst) (pieces C s ds)"
  "map serialized_chunk (chunk_datas C s bo uo ds) = map fst (pieces C s ds)"
  "map (\<lambda>c. (cd_chunk_hash c, of_nat (length (serialized_chunk c)) :: u64)) (chunk_datas C s bo uo ds) =
     map (\<lambda>(p, u). (compute_data_hash C p, of_nat (length p))) (pieces C s ds)"
  "length (chunk_datas C s bo uo ds) = length ds"
  by (induction ds arbitrary: bo uo) auto

lemma chunk_datas_boundaries:
  "unat bo + sum_list (map (length \<circ> fst) (pieces C s ds)) < 2 ^ 32 \<Longrightarrow>
     map (unat \<circ> boundary_offset) (chunk_datas C s bo uo ds) = running_ends (unat bo) (map (length \<circ> fst) (pieces C s ds))"
proof (induction ds arbitrary: bo uo)
  case (Cons d ds)
  let ?n = "length (piece_of C s d)"
  have "unat (bo + of_nat ?n) = unat bo + ?n"
    using Cons.prems by (simp add: unat_word_ariths unat_of_nat_u32)
  with Cons show ?case by simp
qed simp

lemma chunk_datas_unpacked:
  "unat uo + sum_list (map length ds) < 2 ^ 32 \<Longrightarrow>
     map (unat \<circ> unpacked_offset) (chunk_datas C s bo uo ds) = running_starts (unat uo) (map length ds)"
proof (induction ds arbitrary: bo uo)
  case (Cons d ds)
  have "unat (uo + of_nat (length d)) = unat uo + length d"
    using Cons.prems by (simp add: unat_word_ariths unat_of_nat_u32)
  with Cons show ?case by simp
qed simp

text \<open>Chunks of the default chunker fit the three-byte header fields.\<close>

definition chunk_fits :: "crates \<Rightarrow> CompressionScheme \<Rightarrow> bytes \<Rightarrow> bool" where
  "chunk_fits C s d \<longleftrightarrow> length d < 2 ^ 24 \<and> length (compressed_of C s d) < 2 ^ 24"

lemma piece_of_deserialize:
  assumes "chunk_fits C s d"
  shows "header_deserialize (piece_of C s d @ rest) =
    Inr (\<lparr>h_version = 1, compressed_length = of_nat (length (compressed_of C s d)),
          compression_scheme = s, uncompressed_length = of_nat (length d)\<rparr>, compressed_of C s d @ rest)"
  using assms
  by (simp add: piece_of_def chunk_fits_def header_deserialize_serialize unat_of_nat_u32)

lemma piece_of_ok: "chunk_fits C s d \<Longrightarrow> piece_ok (piece_of C s d) (length d)"
  using piece_of_deserialize [of C s d "[]"] by (simp add: piece_ok_def chunk_fits_def unat_of_nat_u32)

section \<open>Building succeeds\<close>

definition build_footer :: "crates \<Rightarrow> XorbBuilder \<Rightarrow> XorbObjectInfoV1" where
  "build_footer C b = \<lparr>xi_xorb_hash = builder_xorb_hash C b, chunk_hashes = map cd_chunk_hash (xb_chunks b),
     chunk_boundary_offsets = map boundary_offset (xb_chunks b),
     unpacked_chunk_offsets = map unpacked_offset (xb_chunks b)\<rparr>"

text \<open>The chunk list fits one xorb: header fields, 32-bit offsets, chunk limit, one footer magic.\<close>

definition xorb_fits :: "crates \<Rightarrow> CompressionScheme \<Rightarrow> bytes list \<Rightarrow> XorbObjectInfoV1 \<Rightarrow> bool" where
  "xorb_fits C s ds f \<longleftrightarrow> list_all (chunk_fits C s) ds \<and> length ds \<le> unat MAX_CHUNKS_PER_XORB \<and>
     length (concat (map (piece_of C s) ds)) < 2 ^ 32 \<and> length (concat ds) < 2 ^ 32 \<and> magic_once (footer_serialize f)"

lemma length_concat_sum: "length (concat xss) = sum_list (map length xss)"
  by (induction xss) auto

lemma built_footer_for:
  assumes b: "add_chunks C (builder_new s) ds = Inr b" and fits: "xorb_fits C s ds (build_footer C b)"
  shows "footer_for C (pieces C s ds) (build_footer C b) \<and> map serialized_chunk (xb_chunks b) = map (piece_of C s) ds"
proof -
  have cs: "xb_chunks b = chunk_datas C s 0 0 ds"
    using add_chunks_result [of C "builder_new s" ds] b by (auto simp: builder_new_def)
  have "map (unat \<circ> boundary_offset) (chunk_datas C s 0 0 ds) = running_ends 0 (map (length \<circ> fst) (pieces C s ds))"
    using chunk_datas_boundaries [of 0 C s ds 0] fits by (simp add: xorb_fits_def length_concat_sum o_def)
  moreover have "map (unat \<circ> unpacked_offset) (chunk_datas C s 0 0 ds) = running_starts 0 (map length ds)"
    using chunk_datas_unpacked [of 0 ds C s 0] fits by (simp add: xorb_fits_def length_concat_sum)
  ultimately show ?thesis
    using fits chunk_datas_maps [of C s 0 0 ds]
    by (simp add: footer_for_def footer_wf_def build_footer_def builder_xorb_hash_def cs xorb_fits_def o_def)
qed

lemma built_verifies:
  assumes b: "add_chunks C (builder_new s) ds = Inr b" and fits: "xorb_fits C s ds (build_footer C b)"
  shows "verify_xorb_from_file_with_info C (Some (concat (map (piece_of C s) ds) @ footer_serialize (build_footer C b))) =
    Inr \<lparr>v_xorb_hash = builder_xorb_hash C b,
         v_file_len = length (concat (map (piece_of C s) ds) @ footer_serialize (build_footer C b)),
         v_footer_start = length (concat (map (piece_of C s) ds)), v_chunks = piece_infos C 0 0 (pieces C s ds),
         v_total_unpacked_bytes = sum_list (map length ds),
         v_total_compressed_payload_bytes = sum_list (map compressed_payload_len (piece_infos C 0 0 (pieces C s ds)))\<rparr>"
proof -
  let ?f = "build_footer C b"
  let ?fl = "concat (map fst (pieces C s ds)) @ footer_serialize ?f"
  note f = built_footer_for [OF assms]
  have wf: "footer_wf ?f" using f by (simp add: footer_for_def)
  have "length (footer_serialize ?f) \<le> 4000060"
    using footer_serialize_le [OF wf]
    by (simp add: max_serialized_len_def serialized_len_for_num_chunks_def MAX_CHUNKS_PER_XORB_def)
  then have "length ?fl < 2 ^ 64" using fits by (simp add: xorb_fits_def o_def)
  moreover have "list_all (\<lambda>(p, u). piece_ok p u) (pieces C s ds)"
    using fits piece_of_ok by (auto simp: xorb_fits_def list_all_iff)
  ultimately have "verify_xorb_from_file_with_info C (Some ?fl) =
    Inr \<lparr>v_xorb_hash = xi_xorb_hash ?f, v_file_len = length ?fl, v_footer_start = length (concat (map fst (pieces C s ds))),
         v_chunks = piece_infos C 0 0 (pieces C s ds), v_total_unpacked_bytes = sum_list (map snd (pieces C s ds)),
         v_total_compressed_payload_bytes = sum_list (map compressed_payload_len (piece_infos C 0 0 (pieces C s ds)))\<rparr>"
    using f fits by (intro verify_file_complete) (auto simp: xorb_fits_def)
  then show ?thesis by (simp add: o_def build_footer_def)
qed

lemma build_ok:
  assumes b: "add_chunks C (builder_new s) ds = Inr b" and fits: "xorb_fits C s ds (build_footer C b)"
  shows "\<exists>r info. build C b = Inr r \<and> xr_data r = concat (map (piece_of C s) ds) @ footer_serialize (build_footer C b) \<and>
    xr_xorb_hash r = builder_xorb_hash C b \<and>
    verify_xorb C (xr_data r) = Inr () \<and> verify_xorb_from_file_with_info C (Some (xr_data r)) = Inr info \<and>
    v_xorb_hash info = xr_xorb_hash r \<and> v_chunks info = piece_infos C 0 0 (pieces C s ds)"
proof -
  let ?fl = "concat (map (piece_of C s) ds) @ footer_serialize (build_footer C b)"
  note ver = built_verifies [OF assms]
  have mem: "verify_xorb C ?fl = Inr ()" by (rule memory_verifier_of_file [OF ver])
  have buf: "concat (map serialized_chunk (xb_chunks b)) @ footer_serialize (build_footer C b) = ?fl"
    using built_footer_for [OF assms] by (simp add: o_def)
  have "\<exists>r. build C b = Inr r \<and> xr_data r = ?fl \<and> xr_xorb_hash r = builder_xorb_hash C b"
    using mem unfolding build_def Let_def builder_xorb_hash_def [symmetric] build_footer_def [symmetric] buf by simp
  with ver mem show ?thesis by auto
qed

section \<open>Reading back\<close>

lemma max_chunk_default: "max_chunk_size config_new = 131072"
  by (simp add: max_chunk_size_def config_new_def)

lemma compressed_of_bound:
  assumes "lz4_contract C" "length d \<le> 131072"
  shows "length (compressed_of C s d) \<le> max_compressed_len_for_chunk s (length d)"
proof -
  have "length (lz4_compress C e) \<le> length e + length e div 255 + 20" if "length e \<le> 131072" for e
    using assms(1) that by (simp add: lz4_contract_def)
  from this [of d] this [of "bg4_split d"] assms(2) show ?thesis
    by (cases s) (auto simp: compressed_of_def compress_def max_compressed_len_for_chunk_def)
qed

lemma extract_piece:
  assumes lz4: "lz4_contract C" and len: "length d \<le> 131072"
  shows "extract_chunk_verified_from_file C (pre @ piece_of C s d @ rest) (length pre) (of_nat (length d))
    (compute_data_hash C (piece_of C s d)) = Inr d"
proof -
  let ?c = "compressed_of C s d"
  let ?h = "\<lparr>h_version = 1, compressed_length = of_nat (length ?c), compression_scheme = s,
    uncompressed_length = of_nat (length d)\<rparr>"
  note bound = compressed_of_bound [OF assms, of s]
  then have "length ?c \<le> 131072 + 131072 div 255 + 20"
    using len div_le_mono [OF len, of 255] by (cases s) (auto simp: max_compressed_len_for_chunk_def)
  then have fits: "chunk_fits C s d" using len by (simp add: chunk_fits_def)
  have n: "unat (of_nat (length ?c) :: u32) = length ?c" "unat (of_nat (length d) :: u32) = length d"
    using fits by (simp_all add: chunk_fits_def unat_of_nat_u32)
  have "header_wf ?h" using fits n by (simp add: header_wf_def chunk_fits_def)
  then have hd: "header_deserialize (header_serialize ?h) = Inr (?h, [])"
    using header_codec.deser_ser [of ?h "[]"] by simp
  have rd: "read_exact HEADER_SIZE (piece_of C s d @ rest) = Inr (header_serialize ?h, ?c @ rest)"
    by (simp add: piece_of_def HEADER_SIZE_def read_exact_append)
  have "decompress C s ?c (length d) = Inr d"
    using decompress_compress [OF lz4, of d s] len compress_total [of C s d] by (simp add: MAX_DECOMPRESSED_SIZE_def)
  then show ?thesis
    using rd hd n bound len
    by (simp add: extract_chunk_verified_from_file_def Let_def max_chunk_default read_exact_append
        sh_finalize_def sh_update_def sh_new_def compute_data_hash_def piece_of_def)
qed

lemma extract_Inr:
  assumes "extract_chunk_verified_from_file C fl off len h = Inr d"
  shows "\<exists>hdr payload rest. drop off fl = header_serialize hdr @ payload @ rest \<and>
    compute_data_hash C (header_serialize hdr @ payload) = h \<and> uncompressed_length hdr = len \<and>
    length payload = unat (compressed_length hdr) \<and>
    decompress C (compression_scheme hdr) payload (unat len) = Inr d \<and>
    length d = unat len \<and> unat len \<le> max_chunk_size config_new"
proof -
  from assms obtain hb r hdr r2 payload rest where
    r: "read_exact HEADER_SIZE (drop off fl) = Inr (hb, r)" "header_deserialize hb = Inr (hdr, r2)"
    "\<not> unat len > max_chunk_size config_new" "uncompressed_length hdr = len"
    "read_exact (unat (compressed_length hdr)) r = Inr (payload, rest)"
    "sh_finalize C (sh_update (sh_update sh_new hb) payload) = h"
    "decompress C (compression_scheme hdr) payload (unat (uncompressed_length hdr)) = Inr d"
    by (auto simp: extract_chunk_verified_from_file_def Let_def rbind_eq_Inr map_err_eq_Inr if_Inl_eq_Inr)
  have "hb = header_serialize hdr @ r2" using header_deserialize_canonical [OF r(2)] by simp
  moreover have "length hb = 8" using read_exact_split [OF r(1)] by (simp add: HEADER_SIZE_def)
  ultimately have hb: "hb = header_serialize hdr" by simp
  have "drop off fl = header_serialize hdr @ payload @ rest"
    using read_exact_split [OF r(1)] read_exact_split [OF r(5)] hb by simp
  moreover have "compute_data_hash C (header_serialize hdr @ payload) = h"
    using r(6) hb by (simp add: sh_finalize_def sh_update_def sh_new_def compute_data_hash_def)
  ultimately show ?thesis
    using r decompress_length [OF r(7)] read_exact_split [OF r(5)]
    by (intro exI [of _ hdr] exI [of _ payload] exI [of _ rest]) simp
qed

section \<open>Properties\<close>

text \<open>
  C35. Building succeeds: adding any chunks and building them yields a xorb, provided the
  chunks fit the header fields, the offsets fit 32 bits, there are at most 100000 chunks and
  the footer magic does not recur inside the footer. The result passes both verifiers and
  the file verifier reports exactly the added chunks in order.
\<close>

theorem build_succeeds_and_verifies:
  assumes "add_chunks C (builder_new s) ds = Inr b" "xorb_fits C s ds (build_footer C b)"
  shows "\<exists>r info. build C b = Inr r \<and> verify_xorb C (xr_data r) = Inr () \<and>
    verify_xorb_from_file_with_info C (Some (xr_data r)) = Inr info \<and> v_xorb_hash info = xr_xorb_hash r \<and>
    v_chunks info = piece_infos C 0 0 (pieces C s ds)"
  using build_ok [OF assms] by blast

text \<open>A builder with one uncompressed chunk, for the witnesses.\<close>

definition demo_builder :: XorbBuilder where
  "demo_builder = projr (add_chunks inst_crates (builder_new CNone) [[5]])"

lemma demo_builder_eq: "add_chunks inst_crates (builder_new CNone) [[5]] = Inr demo_builder"
  using add_chunks_result [of inst_crates "builder_new CNone" "[[5]]"] by (auto simp: demo_builder_def)

lemma demo_piece_of: "piece_of inst_crates CNone [5] = demo_piece"
  by code_simp

lemma demo_build_footer: "build_footer inst_crates demo_builder = demo_footer"
proof -
  have "xb_chunks demo_builder = chunk_datas inst_crates CNone 0 0 [[5]]"
    using add_chunks_result [of inst_crates "builder_new CNone" "[[5]]"]
    unfolding demo_builder_eq by (simp add: builder_new_def)
  then show ?thesis
    by (simp add: build_footer_def builder_xorb_hash_def demo_footer_def demo_piece_of hash_of_trivial_lists)
       (simp add: demo_piece_def)
qed

lemma demo_fits: "xorb_fits inst_crates CNone [[5]] (build_footer inst_crates demo_builder)"
  using demo_layout(3)
  by (simp add: xorb_fits_def demo_build_footer demo_piece_of chunk_fits_def compressed_of_def compress_def
      MAX_CHUNKS_PER_XORB_def) (simp add: demo_piece_def)

theorem build_succeeds_and_verifies_witness:
  "\<exists>r. build inst_crates demo_builder = Inr r \<and> verify_xorb inst_crates (xr_data r) = Inr ()"
  using build_succeeds_and_verifies [OF demo_builder_eq demo_fits] by blast

text \<open>
  Soundness of the chunk reader: bytes it returns have exactly the expected length, which
  is at most 128 KiB, and are the decompression of a payload that stands at the requested
  offset behind its header, where header and payload together hash to the expected hash.
\<close>

theorem extract_chunk_sound:
  assumes "extract_chunk_verified_from_file C xorb_file off len h = Inr d"
  shows "\<exists>hdr payload rest. drop off xorb_file = header_serialize hdr @ payload @ rest \<and>
    compute_data_hash C (header_serialize hdr @ payload) = h \<and> uncompressed_length hdr = len \<and>
    length payload = unat (compressed_length hdr) \<and>
    decompress C (compression_scheme hdr) payload (unat len) = Inr d \<and>
    length d = unat len \<and> unat len \<le> 131072"
  using extract_Inr [OF assms] by (simp add: max_chunk_default)

theorem extract_chunk_sound_witness:
  "\<exists>hdr payload rest. demo_piece = header_serialize hdr @ payload @ rest \<and>
    compute_data_hash inst_crates (header_serialize hdr @ payload) = compute_data_hash inst_crates demo_piece \<and>
    length payload = unat (compressed_length hdr)"
proof -
  have "extract_chunk_verified_from_file inst_crates demo_piece 0 1 (compute_data_hash inst_crates demo_piece) = Inr [5]"
    using extract_piece [of inst_crates "[5]" "[]" CNone "[]"] by (simp add: demo_piece_of)
  from extract_chunk_sound [OF this] show ?thesis by auto
qed

text \<open>
  Store and read back: in a xorb built from chunks of at most 128 KiB, extracting chunk
  \<open>i\<close> at the end of the preceding chunks, with its own length and the hash the build
  reported for it, returns exactly the bytes that were added.
\<close>

theorem extract_built_chunk:
  assumes "lz4_contract C" "add_chunks C (builder_new s) ds = Inr b" "xorb_fits C s ds (build_footer C b)"
    and "i < length ds" "length (ds ! i) \<le> 131072"
  shows "\<exists>r. build C b = Inr r \<and>
    extract_chunk_verified_from_file C (xr_data r) (length (concat (map (piece_of C s) (take i ds))))
      (of_nat (length (ds ! i))) (xr_chunk_hashes r ! i) = Inr (ds ! i)"
proof -
  obtain r where r: "build C b = Inr r"
    "xr_data r = concat (map (piece_of C s) ds) @ footer_serialize (build_footer C b)"
    using build_ok [OF assms(2,3)] by blast
  have "xr_chunk_hashes r = map cd_chunk_hash (xb_chunks b)"
    using r(1) by (auto simp: build_def Let_def rbind_eq_Inr)
  also have "\<dots> = map (compute_data_hash C \<circ> piece_of C s) ds"
    using built_footer_for [OF assms(2,3)] by (simp add: footer_for_def build_footer_def o_def)
  finally have h: "xr_chunk_hashes r ! i = compute_data_hash C (piece_of C s (ds ! i))"
    using assms(4) by simp
  have "ds = take i ds @ ds ! i # drop (Suc i) ds" using assms(4) by (rule id_take_nth_drop)
  then have "concat (map (piece_of C s) ds) =
      concat (map (piece_of C s) (take i ds)) @ piece_of C s (ds ! i) @ concat (map (piece_of C s) (drop (Suc i) ds))"
    by (metis concat.simps(2) concat_append list.simps(9) map_append)
  then show ?thesis
    using r h extract_piece [OF assms(1,5), of "concat (map (piece_of C s) (take i ds))" s] by simp
qed

theorem extract_built_chunk_witness:
  "\<exists>r. build inst_crates demo_builder = Inr r \<and>
    extract_chunk_verified_from_file inst_crates (xr_data r) 0 1 (xr_chunk_hashes r ! 0) = Inr [5]"
  using extract_built_chunk [OF inst_lz4_contract demo_builder_eq demo_fits, of 0] by simp

end
