(* ===== verification/Storage_Access.thy ===== *)
theory Storage_Access
  imports Shard_Format
begin

text \<open>
  Access to stored objects with bounded retries: the error type and the retry policy of
  \<^verbatim>\<open>src/src/storage/mod.rs\<close> and the shard loader of \<^verbatim>\<open>src/src/shard_io.rs\<close>. The storage
  backend is the environment: an attempt is a function from the attempt number to its
  outcome, so a transient failure is an outcome that changes between attempts. The delays
  slept between attempts are part of the result.

  The lemmas characterise the loop: it ends after at most three attempts and 600 ms, it
  returns the outcome of the first attempt that need not be retried, and an object that is
  missing is asked for once only.
\<close>

datatype StorageError =
    NotFound string
  | Internal string
  | InvalidArgument string
  | Quota

definition is_transient_storage_error :: "StorageError \<Rightarrow> bool" where
  "is_transient_storage_error e = (case e of NotFound _ \<Rightarrow> False | _ \<Rightarrow> True)"

text \<open>In milliseconds.\<close>

definition TRANSIENT_STORAGE_RETRY_DELAYS :: "nat list" where
  "TRANSIENT_STORAGE_RETRY_DELAYS = [100, 500]"

text \<open>The retry loop of both callers; the result carries the delays slept.\<close>

function retry_loop ::
  "('e \<Rightarrow> bool) \<Rightarrow> (nat \<Rightarrow> 'e + 'a) \<Rightarrow> nat \<Rightarrow> ('e + 'a) \<times> nat list" where
  "retry_loop retryable once attempt =
     (case once (Suc attempt) of
        Inr x \<Rightarrow> (Inr x, [])
      | Inl e \<Rightarrow>
          if Suc attempt \<le> length TRANSIENT_STORAGE_RETRY_DELAYS \<and> retryable e
          then (let (res, slept) = retry_loop retryable once (Suc attempt)
                in (res, TRANSIENT_STORAGE_RETRY_DELAYS ! attempt # slept))
          else (Inl e, []))"
  by pat_completeness auto
termination
  by (relation "measure (\<lambda>(retryable, once, attempt). length TRANSIENT_STORAGE_RETRY_DELAYS - attempt)") auto

declare retry_loop.simps [simp del]

definition download_to_path_with_retries :: "(nat \<Rightarrow> StorageError + bytes) \<Rightarrow> (StorageError + bytes) \<times> nat list" where
  "download_to_path_with_retries download_to_path = retry_loop is_transient_storage_error download_to_path 0"

section \<open>Loading a shard\<close>

datatype ShardIoError =
    ShardStorage string StorageError
  | ShardTempIo string
  | ShardParse string xet_error
  | ShardParseTask string string

text \<open>
  Where one attempt finds the shard: a backend with files gives the path of the object, whose
  file may be missing; another backend is downloaded from.
\<close>

datatype shard_source = DirectPath "bytes option" | Downloaded bytes

definition parse_path :: "crates \<Rightarrow> string \<Rightarrow> bytes option \<Rightarrow> ShardIoError + MDBShardFile" where
  "parse_path C key path = map_err (ShardParse key) (parse_from_file C path)"

definition parse_shard_once ::
  "crates \<Rightarrow> string \<Rightarrow> StorageError + shard_source \<Rightarrow> ShardIoError + MDBShardFile" where
  "parse_shard_once C key src =
     rbind (map_err (ShardStorage key) src) (\<lambda>path.
     case path of
       DirectPath file \<Rightarrow> parse_path C key file
     | Downloaded data \<Rightarrow> parse_path C key (Some data))"

definition is_retryable_shard_fetch_error :: "ShardIoError \<Rightarrow> bool" where
  "is_retryable_shard_fetch_error error =
     (case error of ShardStorage _ source \<Rightarrow> is_transient_storage_error source | _ \<Rightarrow> False)"

definition parse_shard_from_storage ::
  "crates \<Rightarrow> string \<Rightarrow> (nat \<Rightarrow> StorageError + shard_source) \<Rightarrow> (ShardIoError + MDBShardFile) \<times> nat list" where
  "parse_shard_from_storage C key attempts =
     retry_loop is_retryable_shard_fetch_error (\<lambda>n. parse_shard_once C key (attempts n)) 0"

section \<open>The retry loop\<close>

lemma retry_delays_length [simp]: "length TRANSIENT_STORAGE_RETRY_DELAYS = 2"
  by (simp add: TRANSIENT_STORAGE_RETRY_DELAYS_def)

definition gives_up :: "('e \<Rightarrow> bool) \<Rightarrow> 'e + 'a \<Rightarrow> bool" where
  "gives_up retryable res = (case res of Inr _ \<Rightarrow> True | Inl e \<Rightarrow> \<not> retryable e)"

text \<open>The three attempts written out.\<close>

lemma retry_loop_unrolled:
  "retry_loop retryable once 0 =
     (if gives_up retryable (once 1) then (once 1, [])
      else if gives_up retryable (once 2) then (once 2, [100])
      else (once 3, [100, 500]))"
  by (simp add: retry_loop.simps gives_up_def TRANSIENT_STORAGE_RETRY_DELAYS_def numeral_2_eq_2 numeral_3_eq_3
      split: sum.split)

lemma retry_loop_const: "fst (retry_loop retryable (\<lambda>_. r) 0) = r"
  by (simp add: retry_loop_unrolled)

lemma parse_shard_const: "fst (parse_shard_from_storage C key (\<lambda>_. src)) = parse_shard_once C key src"
  by (simp add: parse_shard_from_storage_def retry_loop_const)

section \<open>Properties\<close>



text \<open>
  Loading a shard survives transient storage errors and never retries a corrupt shard: if
  the storage answers at some attempt up to the third and failed only transiently before, the
  loader returns what parsing that answer gives, and a parse error ends the loop at once.
\<close>

theorem shard_load_survives_transients:
  assumes "n \<in> {1, 2, 3}" "attempts n = Inr src"
    and "list_all (\<lambda>k. \<exists>e. attempts k = Inl e \<and> is_transient_storage_error e) [1..<n]"
  shows "fst (parse_shard_from_storage C key attempts) = parse_shard_once C key (Inr src) \<and>
    length (snd (parse_shard_from_storage C key attempts)) = n - 1"
proof -
  let ?once = "\<lambda>k. parse_shard_once C key (attempts k)"
  have stop: "gives_up is_retryable_shard_fetch_error (?once n)"
    using assms(2) by (auto simp: gives_up_def parse_shard_once_def parse_path_def is_retryable_shard_fetch_error_def
      split: sum.splits shard_source.splits ShardIoError.splits elim!: map_err.elims)
  have go: "\<not> gives_up is_retryable_shard_fetch_error (?once k)" if "k \<in> set [1..<n]" for k
  proof -
    from assms(3) that obtain e where "attempts k = Inl e" "is_transient_storage_error e"
      unfolding list_all_iff by blast
    then show ?thesis by (simp add: gives_up_def parse_shard_once_def is_retryable_shard_fetch_error_def)
  qed
  from assms(1) consider "n = 1" | "n = 2" | "n = 3" by blast
  then show ?thesis
    using stop go [of 1] go [of 2] assms(2)
    by cases (simp_all add: parse_shard_from_storage_def retry_loop_unrolled)
qed

theorem shard_load_survives_transients_witness:
  "fst (parse_shard_from_storage inst_crates ''shards/x'' (\<lambda>n. if n < 3 then Inl Quota else Inr (Downloaded [1, 2, 3]))) =
     parse_shard_once inst_crates ''shards/x'' (Inr (Downloaded [1, 2, 3]))"
  using shard_load_survives_transients [of 3 "\<lambda>n. if n < 3 then Inl Quota else Inr (Downloaded [1, 2, 3])" "Downloaded [1, 2, 3]"]
  by (simp add: is_transient_storage_error_def upt_rec)

end
