(* ===== verification/Shard_Validation.thy ===== *)
theory Shard_Validation
  imports Reconstruction_Plan Xorb_Builder Storage_Access
begin

text \<open>
  Validation of a shard before it is indexed, \<^verbatim>\<open>src/src/shard_validation.rs\<close>: every xorb the
  shard names is fetched and verified, its chunk table is compared with the verified chunks,
  every declared file is reconstructed chunk by chunk, and only then are its files and the
  chunks it touched released for registration. \<open>fetch\<close> is the outcome of downloading an
  object by key, after the retries of \<open>Storage_Access\<close>; the temporary files are the
  downloaded bytes.

  The lemmas show that a registration only states facts about stored data: every file hash
  is a hash of bytes reconstructed from stored, verified xorbs, and every chunk hash is the
  hash of the bytes stored at the registered xorb position.
\<close>

type_synonym fetch = "string \<Rightarrow> StorageError + bytes"

record VerifiedFileMapping =
  vf_file_hash :: merkle_hash
  vf_file_index :: nat
  vf_file_size :: nat

record VerifiedChunkMapping =
  vc_chunk_hash :: merkle_hash
  vc_xorb_hash :: merkle_hash
  vc_chunk_index :: u32

record VerifiedShardRegistration =
  reg_shard_id :: string
  reg_files :: "VerifiedFileMapping list"
  reg_chunks :: "VerifiedChunkMapping list"

record ValidatedXorb =
  vx_data :: bytes
  vx_info :: VerifiedXorbInfo

section \<open>Xorbs\<close>

definition xorb_key :: "crates \<Rightarrow> merkle_hash \<Rightarrow> string" where
  "xorb_key C h = ''xorbs/'' @ mh_to_hex C h"

fun check_chunk_table :: "(XorbChunkSequenceEntry \<times> VerifiedXorbChunkInfo) list \<Rightarrow> string + unit" where
  "check_chunk_table [] = Inr ()"
| "check_chunk_table ((sc, vc) # ps) =
     (if xe_chunk_hash sc \<noteq> serialized_chunk_hash vc then Inl ''Xorb chunk metadata mismatch: serialized hash''
      else if unat (xe_chunk_byte_range_start sc) \<noteq> serialized_start vc then Inl ''Xorb chunk metadata mismatch: start''
      else if unat (xe_unpacked_segment_bytes sc) \<noteq> unpacked_len vc then Inl ''Xorb chunk metadata mismatch: unpacked length''
      else check_chunk_table ps)"

text \<open>The body of the xorb loop after the duplicate check; \<open>off\<close> is \<open>xorb_chunk_offset\<close>.\<close>

definition validate_xorb ::
  "crates \<Rightarrow> fetch \<Rightarrow> XorbChunkSequenceEntry list \<Rightarrow> nat \<Rightarrow> XorbChunkSequenceHeader \<Rightarrow> string + ValidatedXorb" where
  "validate_xorb C fetch table off x =
     (let n = unat (xh_num_entries x) in
      rbind (ok_or (nat_checked_add off n) ''Xorb chunk table offset overflow'') (\<lambda>xorb_chunk_end.
      if xorb_chunk_end > length table then Inl ''Xorb declares chunks beyond shard chunk table length''
      else
      rbind (map_err (\<lambda>_. ''Failed to download xorb'') (fetch (xorb_key C (xh_xorb_hash x)))) (\<lambda>file.
      rbind (map_err (\<lambda>_. ''Failed to verify xorb'') (verify_xorb_from_file_with_info C (Some file))) (\<lambda>info.
      if v_xorb_hash info \<noteq> xh_xorb_hash x then Inl ''Xorb hash mismatch for shard entry''
      else if n \<noteq> length (v_chunks info) then Inl ''Xorb chunk count mismatch''
      else if unat (xh_num_bytes_in_xorb x) \<noteq> v_total_unpacked_bytes info then Inl ''Xorb size mismatch: unpacked bytes''
      else if unat (xh_num_bytes_on_disk x) \<noteq> v_total_compressed_payload_bytes info
      then Inl ''Xorb size mismatch: compressed payload bytes''
      else
      rbind (check_chunk_table (zip (take (xorb_chunk_end - off) (drop off table)) (v_chunks info))) (\<lambda>_.
      Inr \<lparr>vx_data = file, vx_info = info\<rparr>)))))"

fun validate_xorbs ::
  "crates \<Rightarrow> fetch \<Rightarrow> XorbChunkSequenceEntry list \<Rightarrow> XorbChunkSequenceHeader list \<Rightarrow> nat \<Rightarrow> (merkle_hash \<rightharpoonup> ValidatedXorb) \<Rightarrow>
     string + ((merkle_hash \<rightharpoonup> ValidatedXorb) \<times> nat)" where
  "validate_xorbs C fetch table [] off m = Inr (m, off)"
| "validate_xorbs C fetch table (x # xs) off m =
     (if m (xh_xorb_hash x) \<noteq> None then Inl ''Duplicate xorb in shard validation''
      else rbind (validate_xorb C fetch table off x) (\<lambda>v.
        validate_xorbs C fetch table xs (off + unat (xh_num_entries x)) (m(xh_xorb_hash x \<mapsto> v))))"

section \<open>Files\<close>

definition validate_planned :: "crates \<Rightarrow> (merkle_hash \<rightharpoonup> ValidatedXorb) \<Rightarrow> PlannedChunk \<Rightarrow> string + bytes" where
  "validate_planned C m p =
     rbind (ok_or (m (pc_xorb_hash p)) ''File references xorb that was not downloaded'') (\<lambda>v.
     if unat (pc_xorb_chunk_index p) \<ge> length (v_chunks (vx_info v))
     then Inl ''File references xorb chunk beyond verified chunk count''
     else
     rbind (map_err (\<lambda>_. ''Failed to extract xorb chunk'')
              (extract_chunk_verified_from_file C (vx_data v) (unat (pc_chunk_byte_range_start p))
                 (pc_unpacked_segment_bytes p) (pc_serialized_chunk_hash p))) (\<lambda>raw.
     if compute_data_hash C raw \<noteq> pc_raw_chunk_hash p then Inl ''Raw chunk hash mismatch''
     else Inr raw))"

text \<open>The chunk loop of one file, with the size accumulated under its overflow check.\<close>

fun validate_chunks ::
  "crates \<Rightarrow> (merkle_hash \<rightharpoonup> ValidatedXorb) \<Rightarrow> PlannedChunk list \<Rightarrow> nat \<Rightarrow> string + (bytes list \<times> nat)" where
  "validate_chunks C m [] file_size = Inr ([], file_size)"
| "validate_chunks C m (p # ps) file_size =
     rbind (validate_planned C m p) (\<lambda>raw.
     rbind (ok_or (nat_checked_add file_size (length raw)) ''Reconstructed size overflow'') (\<lambda>file_size.
     rbind (validate_chunks C m ps file_size) (\<lambda>(raws, file_size). Inr (raw # raws, file_size))))"

definition file_hash_matches :: "crates \<Rightarrow> merkle_hash \<Rightarrow> bytes list \<Rightarrow> bool" where
  "file_hash_matches C declared raws \<longleftrightarrow>
     mh_to_hex C declared = hex_encode C (sha256 C (concat raws)) \<or>
     declared = sh_finalize C (foldl sh_update sh_new raws) \<or>
     declared = file_hash C (map (\<lambda>raw. (compute_data_hash C raw, of_nat (length raw))) raws)"

definition validate_file ::
  "crates \<Rightarrow> (merkle_hash \<rightharpoonup> ValidatedXorb) \<Rightarrow> MDBShardFile \<Rightarrow> nat \<Rightarrow> string + (VerifiedFileMapping \<times> (merkle_hash \<times> u32) list)" where
  "validate_file C m shard file_index =
     (let declared = fh_file_hash (file_entries shard ! file_index) in
      rbind (map_err (\<lambda>_. ''Failed to build validation plan'') (build_file_chunk_plan shard declared (Some file_index))) (\<lambda>plan.
      rbind (validate_chunks C m (pf_chunks plan) 0) (\<lambda>(raws, file_size).
      if \<not> file_hash_matches C declared raws then Inl ''File hash mismatch''
      else Inr (\<lparr>vf_file_hash = declared, vf_file_index = file_index, vf_file_size = file_size\<rparr>,
                map (\<lambda>p. (pc_xorb_hash p, pc_xorb_chunk_index p)) (pf_chunks plan)))))"

fun validate_files ::
  "crates \<Rightarrow> (merkle_hash \<rightharpoonup> ValidatedXorb) \<Rightarrow> MDBShardFile \<Rightarrow> nat list \<Rightarrow>
     string + (VerifiedFileMapping list \<times> (merkle_hash \<times> u32) list)" where
  "validate_files C m shard [] = Inr ([], [])"
| "validate_files C m shard (i # is) =
     rbind (validate_file C m shard i) (\<lambda>(f, touched).
     rbind (validate_files C m shard is) (\<lambda>(fs, rest). Inr (f # fs, touched @ rest)))"

definition validate_shard_for_index ::
  "crates \<Rightarrow> fetch \<Rightarrow> string \<Rightarrow> MDBShardFile \<Rightarrow> string + VerifiedShardRegistration" where
  "validate_shard_for_index C fetch shard_id shard =
     rbind (validate_xorbs C fetch (xorb_chunk_entries shard) (xorb_entries shard) 0 Map.empty) (\<lambda>(m, off).
     if off \<noteq> length (xorb_chunk_entries shard) then Inl ''Shard has unclaimed xorb chunk entries''
     else
     rbind (validate_files C m shard [0..<length (file_entries shard)]) (\<lambda>(files, validated_chunks).
     Inr \<lparr>reg_shard_id = shard_id, reg_files = files,
          reg_chunks = map (\<lambda>e. \<lparr>vc_chunk_hash = cl_chunk_hash e, vc_xorb_hash = cl_xorb_hash e,
                                 vc_chunk_index = cl_chunk_index e\<rparr>)
            (filter (\<lambda>e. (cl_xorb_hash e, cl_chunk_index e) \<in> set validated_chunks) (chunk_lookup_entries shard))\<rparr>))"

section \<open>What validated xorbs satisfy\<close>

definition stored_xorb :: "crates \<Rightarrow> fetch \<Rightarrow> merkle_hash \<Rightarrow> ValidatedXorb \<Rightarrow> bool" where
  "stored_xorb C fetch h v \<longleftrightarrow> fetch (xorb_key C h) = Inr (vx_data v) \<and>
     verify_xorb_from_file_with_info C (Some (vx_data v)) = Inr (vx_info v) \<and> v_xorb_hash (vx_info v) = h"

definition table_matches :: "XorbChunkSequenceEntry list \<Rightarrow> nat \<Rightarrow> ValidatedXorb \<Rightarrow> bool" where
  "table_matches table off v \<longleftrightarrow>
     (\<forall>i<length (v_chunks (vx_info v)). off + i < length table \<and>
        xe_chunk_hash (table ! (off + i)) = serialized_chunk_hash (v_chunks (vx_info v) ! i) \<and>
        unat (xe_chunk_byte_range_start (table ! (off + i))) = serialized_start (v_chunks (vx_info v) ! i) \<and>
        unat (xe_unpacked_segment_bytes (table ! (off + i))) = unpacked_len (v_chunks (vx_info v) ! i))"

lemma check_chunk_table_Inr:
  "check_chunk_table ps = Inr u \<longleftrightarrow>
     list_all (\<lambda>(sc, vc). xe_chunk_hash sc = serialized_chunk_hash vc \<and>
       unat (xe_chunk_byte_range_start sc) = serialized_start vc \<and> unat (xe_unpacked_segment_bytes sc) = unpacked_len vc) ps"
  by (induction ps rule: check_chunk_table.induct) auto

lemma validate_xorb_Inr:
  assumes "validate_xorb C fetch table off x = Inr v"
  shows "stored_xorb C fetch (xh_xorb_hash x) v \<and> length (v_chunks (vx_info v)) = unat (xh_num_entries x) \<and>
    off + unat (xh_num_entries x) \<le> length table \<and> table_matches table off v"
proof -
  let ?n = "unat (xh_num_entries x)"
  from assms obtain "file" info where
    p: "off + ?n \<le> length table" "fetch (xorb_key C (xh_xorb_hash x)) = Inr file"
    "verify_xorb_from_file_with_info C (Some file) = Inr info" "v_xorb_hash info = xh_xorb_hash x"
    "?n = length (v_chunks info)" "check_chunk_table (zip (take ?n (drop off table)) (v_chunks info)) = Inr ()"
    and v: "v = \<lparr>vx_data = file, vx_info = info\<rparr>"
    by (auto simp: validate_xorb_def Let_def rbind_eq_Inr map_err_eq_Inr ok_or_eq_Inr nat_checked_add_Some
        if_Inl_eq_Inr not_less)
  let ?ps = "zip (take ?n (drop off table)) (v_chunks info)"
  have "table_matches table off v"
    unfolding table_matches_def
  proof (intro allI impI)
    fix i assume "i < length (v_chunks (vx_info v))"
    then have i: "i < ?n" "i < length ?ps" using p(1,5) v by simp_all
    then have "?ps ! i = (table ! (off + i), v_chunks info ! i)" using p(1) by simp
    moreover have "?ps ! i \<in> set ?ps" using i(2) by (rule nth_mem)
    ultimately show "off + i < length table \<and>
        xe_chunk_hash (table ! (off + i)) = serialized_chunk_hash (v_chunks (vx_info v) ! i) \<and>
        unat (xe_chunk_byte_range_start (table ! (off + i))) = serialized_start (v_chunks (vx_info v) ! i) \<and>
        unat (xe_unpacked_segment_bytes (table ! (off + i))) = unpacked_len (v_chunks (vx_info v) ! i)"
      using p(1,6) i(1) v by (fastforce simp: check_chunk_table_Inr list_all_iff)
  qed
  with p v show ?thesis by (simp add: stored_xorb_def)
qed

lemma validate_xorbs_Inr:
  assumes "validate_xorbs C fetch table xs off m = Inr (m', off')"
  shows "distinct (map xh_xorb_hash xs) \<and> (\<forall>x\<in>set xs. m (xh_xorb_hash x) = None) \<and>
    (\<forall>h v. m' h = Some v \<longrightarrow> m h = Some v \<or> (\<exists>k<length xs. xh_xorb_hash (xs ! k) = h \<and> stored_xorb C fetch h v \<and>
       length (v_chunks (vx_info v)) = unat (xh_num_entries (xs ! k)) \<and> table_matches table (off + xorb_start xs k) v))"
  using assms
proof (induction xs arbitrary: off m)
  case (Cons x xs)
  from Cons.prems obtain v where fresh: "m (xh_xorb_hash x) = None" and v: "validate_xorb C fetch table off x = Inr v"
    and rec: "validate_xorbs C fetch table xs (off + unat (xh_num_entries x)) (m(xh_xorb_hash x \<mapsto> v)) = Inr (m', off')"
    by (auto simp: rbind_eq_Inr split: if_splits)
  note IH = Cons.IH [OF rec] and x = validate_xorb_Inr [OF v]
  have "m h = Some w \<or> (\<exists>k<length (x # xs). xh_xorb_hash ((x # xs) ! k) = h \<and> stored_xorb C fetch h w \<and>
       length (v_chunks (vx_info w)) = unat (xh_num_entries ((x # xs) ! k)) \<and>
       table_matches table (off + xorb_start (x # xs) k) w)" if w: "m' h = Some w" for h w
  proof -
    from IH w have "(m(xh_xorb_hash x \<mapsto> v)) h = Some w \<or> (\<exists>k<length xs. xh_xorb_hash (xs ! k) = h \<and> stored_xorb C fetch h w \<and>
       length (v_chunks (vx_info w)) = unat (xh_num_entries (xs ! k)) \<and>
       table_matches table (off + unat (xh_num_entries x) + xorb_start xs k) w)" by blast
    then show ?thesis
    proof
      assume "(m(xh_xorb_hash x \<mapsto> v)) h = Some w"
      then show ?thesis using x by (auto simp: xorb_start_def split: if_splits intro!: exI [of _ 0])
    next
      assume "\<exists>k<length xs. xh_xorb_hash (xs ! k) = h \<and> stored_xorb C fetch h w \<and>
        length (v_chunks (vx_info w)) = unat (xh_num_entries (xs ! k)) \<and>
        table_matches table (off + unat (xh_num_entries x) + xorb_start xs k) w"
      then obtain k where "k < length xs" "xh_xorb_hash (xs ! k) = h" "stored_xorb C fetch h w"
        "length (v_chunks (vx_info w)) = unat (xh_num_entries (xs ! k))"
        "table_matches table (off + unat (xh_num_entries x) + xorb_start xs k) w" by blast
      then show ?thesis by (intro disjI2 exI [of _ "Suc k"]) (simp add: xorb_start_def add.assoc)
    qed
  qed
  moreover have "xh_xorb_hash x \<notin> set (map xh_xorb_hash xs)" using IH by auto
  ultimately show ?case using IH fresh by (auto split: if_splits)
qed simp

section \<open>What validated chunks and files satisfy\<close>

text \<open>Chunk \<open>i\<close> of the stored, verified xorb with hash \<open>h\<close> holds the raw bytes.\<close>

definition stored_chunk :: "crates \<Rightarrow> fetch \<Rightarrow> merkle_hash \<Rightarrow> u32 \<Rightarrow> bytes \<Rightarrow> bool" where
  "stored_chunk C fetch h i raw \<longleftrightarrow>
     (\<exists>v. stored_xorb C fetch h v \<and> unat i < length (v_chunks (vx_info v)) \<and>
        (let ci = v_chunks (vx_info v) ! unat i in
         extract_chunk_verified_from_file C (vx_data v) (serialized_start ci) (of_nat (unpacked_len ci))
           (serialized_chunk_hash ci) = Inr raw))"

definition xorbs_validated :: "crates \<Rightarrow> fetch \<Rightarrow> MDBShardFile \<Rightarrow> (merkle_hash \<rightharpoonup> ValidatedXorb) \<Rightarrow> bool" where
  "xorbs_validated C fetch shard m \<longleftrightarrow> distinct (map xh_xorb_hash (xorb_entries shard)) \<and>
     (\<forall>h v. m h = Some v \<longrightarrow> (\<exists>k<length (xorb_entries shard). xh_xorb_hash (xorb_entries shard ! k) = h \<and>
        stored_xorb C fetch h v \<and> table_matches (xorb_chunk_entries shard) (xorb_start (xorb_entries shard) k) v))"

lemma validate_planned_Inr:
  assumes "validate_planned C m p = Inr raw" "planned_ok shard p" "xorbs_validated C fetch shard m"
  shows "stored_chunk C fetch (pc_xorb_hash p) (pc_xorb_chunk_index p) raw \<and> compute_data_hash C raw = pc_raw_chunk_hash p"
proof -
  let ?i = "unat (pc_xorb_chunk_index p)"
  from assms(1) obtain v where v: "m (pc_xorb_hash p) = Some v" "?i < length (v_chunks (vx_info v))"
    "extract_chunk_verified_from_file C (vx_data v) (unat (pc_chunk_byte_range_start p))
       (pc_unpacked_segment_bytes p) (pc_serialized_chunk_hash p) = Inr raw" "compute_data_hash C raw = pc_raw_chunk_hash p"
    by (auto simp: validate_planned_def rbind_eq_Inr ok_or_eq_Inr map_err_eq_Inr not_le split: if_splits)
  let ?xs = "xorb_entries shard" and ?t = "xorb_chunk_entries shard"
  from assms(3) v(1) obtain k where k: "k < length ?xs" "xh_xorb_hash (?xs ! k) = pc_xorb_hash p"
    "stored_xorb C fetch (pc_xorb_hash p) v" "table_matches ?t (xorb_start ?xs k) v"
    unfolding xorbs_validated_def by blast
  from assms(2) obtain k' where k': "k' < length ?xs" "xh_xorb_hash (?xs ! k') = pc_xorb_hash p"
    "pc_chunk_byte_range_start p = xe_chunk_byte_range_start (?t ! (xorb_start ?xs k' + ?i))"
    "pc_unpacked_segment_bytes p = xe_unpacked_segment_bytes (?t ! (xorb_start ?xs k' + ?i))"
    "pc_serialized_chunk_hash p = xe_chunk_hash (?t ! (xorb_start ?xs k' + ?i))"
    unfolding planned_ok_def Let_def by blast
  have "k' = k"
    using assms(3) k(1,2) k'(1,2) unfolding xorbs_validated_def by (metis length_map nth_eq_iff_index_eq nth_map)
  have "unpacked_len (v_chunks (vx_info v) ! ?i) = unat (pc_unpacked_segment_bytes p)"
    "serialized_start (v_chunks (vx_info v) ! ?i) = unat (pc_chunk_byte_range_start p)"
    "serialized_chunk_hash (v_chunks (vx_info v) ! ?i) = pc_serialized_chunk_hash p"
    using k(4) v(2) k'(3-5) unfolding \<open>k' = k\<close> table_matches_def by auto
  with v k(3) show ?thesis unfolding stored_chunk_def Let_def by auto
qed

lemma validate_chunks_Inr:
  assumes "validate_chunks C m ps n0 = Inr (raws, n)" "list_all (planned_ok shard) ps" "xorbs_validated C fetch shard m"
  shows "n = n0 + length (concat raws) \<and>
    list_all2 (\<lambda>p raw. stored_chunk C fetch (pc_xorb_hash p) (pc_xorb_chunk_index p) raw \<and>
      compute_data_hash C raw = pc_raw_chunk_hash p) ps raws"
  using assms(1,2)
proof (induction ps arbitrary: n0 raws)
  case (Cons p ps)
  from Cons.prems(1) obtain raw raws' where
    p: "validate_planned C m p = Inr raw" "validate_chunks C m ps (n0 + length raw) = Inr (raws', n)" "raws = raw # raws'"
    by (auto simp: rbind_eq_Inr ok_or_eq_Inr nat_checked_add_Some)
  from Cons.prems(2) have ok: "planned_ok shard p" "list_all (planned_ok shard) ps" by simp_all
  from Cons.IH [OF p(2) ok(2)] validate_planned_Inr [OF p(1) ok(1) assms(3)] p(3) show ?case by simp
qed simp

text \<open>The statement a registration makes about one file.\<close>

definition file_stored :: "crates \<Rightarrow> fetch \<Rightarrow> VerifiedFileMapping \<Rightarrow> bool" where
  "file_stored C fetch f \<longleftrightarrow>
     (\<exists>raws chunks. list_all2 (\<lambda>(h, i) raw. stored_chunk C fetch h i raw) chunks raws \<and>
        vf_file_size f = length (concat raws) \<and> file_hash_matches C (vf_file_hash f) raws)"

text \<open>The touched chunks carry the raw hash that the lookup section states for them.\<close>

definition touched_ok :: "crates \<Rightarrow> fetch \<Rightarrow> MDBShardFile \<Rightarrow> merkle_hash \<times> u32 \<Rightarrow> bool" where
  "touched_ok C fetch shard hi \<longleftrightarrow>
     (\<exists>raw. stored_chunk C fetch (fst hi) (snd hi) raw \<and>
        (\<forall>e\<in>set (chunk_lookup_entries shard). (cl_xorb_hash e, cl_chunk_index e) = hi \<longrightarrow> cl_chunk_hash e = compute_data_hash C raw))"

lemma validate_file_Inr:
  assumes "validate_file C m shard i = Inr (f, touched)" "xorbs_validated C fetch shard m"
  shows "vf_file_index f = i \<and> vf_file_hash f = fh_file_hash (file_entries shard ! i) \<and> file_stored C fetch f \<and>
    list_all (touched_ok C fetch shard) touched"
proof -
  let ?d = "fh_file_hash (file_entries shard ! i)"
  from assms(1) obtain plan raws n where
    p: "build_file_chunk_plan shard ?d (Some i) = Inr plan" "validate_chunks C m (pf_chunks plan) 0 = Inr (raws, n)"
    "file_hash_matches C ?d raws" "f = \<lparr>vf_file_hash = ?d, vf_file_index = i, vf_file_size = n\<rparr>"
    "touched = map (\<lambda>p. (pc_xorb_hash p, pc_xorb_chunk_index p)) (pf_chunks plan)"
    by (auto simp: validate_file_def Let_def rbind_eq_Inr map_err_eq_Inr split: if_splits)
  have ok: "list_all (planned_ok shard) (pf_chunks plan)" using build_plan_sound [OF p(1)] by simp
  note ch = validate_chunks_Inr [OF p(2) ok assms(2)]
  have "list_all2 (\<lambda>(h, i) raw. stored_chunk C fetch h i raw) touched raws"
    using ch p(5) by (auto simp: list_all2_conv_all_nth)
  with ch p(3,4) have fs: "file_stored C fetch f" unfolding file_stored_def by auto
  obtain raw where lk: "collect_raw_lookup (chunk_lookup_entries shard) Map.empty = Inr raw"
    using p(1) by (rule build_plan_Inr)
  have uniq: "cl_chunk_hash e = cl_chunk_hash e'"
    if "e \<in> set (chunk_lookup_entries shard)" "e' \<in> set (chunk_lookup_entries shard)"
      "(cl_xorb_hash e, cl_chunk_index e) = (cl_xorb_hash e', cl_chunk_index e')" for e e'
  proof -
    have "raw (cl_xorb_hash e, cl_chunk_index e) = Some (cl_chunk_hash e)"
      "raw (cl_xorb_hash e', cl_chunk_index e') = Some (cl_chunk_hash e')"
      using collect_raw_lookup_Inr [OF lk] that(1,2) by auto
    with that(3) show ?thesis by simp
  qed
  have "touched_ok C fetch shard (pc_xorb_hash q, pc_xorb_chunk_index q)" if "q \<in> set (pf_chunks plan)" for q
  proof -
    from that obtain j where j: "j < length (pf_chunks plan)" "pf_chunks plan ! j = q" by (auto simp: in_set_conv_nth)
    from ch j have st: "stored_chunk C fetch (pc_xorb_hash q) (pc_xorb_chunk_index q) (raws ! j)"
      "compute_data_hash C (raws ! j) = pc_raw_chunk_hash q"
      by (auto simp: list_all2_conv_all_nth)
    from ok that obtain e where e: "e \<in> set (chunk_lookup_entries shard)" "cl_xorb_hash e = pc_xorb_hash q"
      "cl_chunk_index e = pc_xorb_chunk_index q" "cl_chunk_hash e = pc_raw_chunk_hash q"
      by (auto simp: list_all_iff planned_ok_def)
    have "cl_chunk_hash e' = compute_data_hash C (raws ! j)"
      if "e' \<in> set (chunk_lookup_entries shard)"
        "(cl_xorb_hash e', cl_chunk_index e') = (pc_xorb_hash q, pc_xorb_chunk_index q)" for e'
      using uniq [OF that(1) e(1)] that(2) e(2-4) st(2) by simp
    with st(1) show ?thesis unfolding touched_ok_def fst_conv snd_conv by blast
  qed
  with p fs show ?thesis by (auto simp: list_all_iff)
qed

lemma validate_files_Inr:
  assumes "validate_files C m shard is = Inr (fs, touched)" "xorbs_validated C fetch shard m"
  shows "map (\<lambda>f. (vf_file_index f, vf_file_hash f)) fs = map (\<lambda>i. (i, fh_file_hash (file_entries shard ! i))) is \<and>
    list_all (file_stored C fetch) fs \<and> list_all (touched_ok C fetch shard) touched"
  using assms(1)
proof (induction "is" arbitrary: fs touched)
  case (Cons i "is")
  then obtain f t1 fs' t2 where p: "validate_file C m shard i = Inr (f, t1)" "validate_files C m shard is = Inr (fs', t2)"
    "fs = f # fs'" "touched = t1 @ t2"
    by (auto simp: rbind_eq_Inr)
  from Cons.IH [OF p(2)] validate_file_Inr [OF p(1) assms(2)] p(3,4) show ?case by simp
qed simp

lemma validate_shard_sound:
  assumes "validate_shard_for_index C fetch sid shard = Inr reg"
  shows "reg_shard_id reg = sid \<and>
    map (\<lambda>f. (vf_file_index f, vf_file_hash f)) (reg_files reg) =
      map (\<lambda>i. (i, fh_file_hash (file_entries shard ! i))) [0..<length (file_entries shard)] \<and>
    list_all (file_stored C fetch) (reg_files reg) \<and>
    list_all (\<lambda>c. \<exists>raw. stored_chunk C fetch (vc_xorb_hash c) (vc_chunk_index c) raw \<and> compute_data_hash C raw = vc_chunk_hash c)
      (reg_chunks reg)"
proof -
  from assms obtain m off fs touched where
    p: "validate_xorbs C fetch (xorb_chunk_entries shard) (xorb_entries shard) 0 Map.empty = Inr (m, off)"
    "validate_files C m shard [0..<length (file_entries shard)] = Inr (fs, touched)"
    "reg = \<lparr>reg_shard_id = sid, reg_files = fs,
          reg_chunks = map (\<lambda>e. \<lparr>vc_chunk_hash = cl_chunk_hash e, vc_xorb_hash = cl_xorb_hash e,
                                 vc_chunk_index = cl_chunk_index e\<rparr>)
            (filter (\<lambda>e. (cl_xorb_hash e, cl_chunk_index e) \<in> set touched) (chunk_lookup_entries shard))\<rparr>"
    by (auto simp: validate_shard_for_index_def rbind_eq_Inr split: if_splits)
  have m: "xorbs_validated C fetch shard m"
    using validate_xorbs_Inr [OF p(1)] unfolding xorbs_validated_def by fastforce
  note fs = validate_files_Inr [OF p(2) m]
  have "\<exists>raw. stored_chunk C fetch (cl_xorb_hash e) (cl_chunk_index e) raw \<and> compute_data_hash C raw = cl_chunk_hash e"
    if "e \<in> set (chunk_lookup_entries shard)" "(cl_xorb_hash e, cl_chunk_index e) \<in> set touched" for e
    using fs that by (fastforce simp: list_all_iff touched_ok_def)
  with fs p(3) show ?thesis by (auto simp: list_all_iff)
qed

section \<open>Properties\<close>

text \<open>
  C3. Only verified data is indexed. When validation accepts a shard, the registration lists
  exactly the shard's files in order; every file is reconstructed from chunks of stored xorbs
  that passed the file verifier, its size is the number of reconstructed bytes and its hash
  is their SHA-256, their keyed BLAKE3 or the tree hash of the chunk hashes; and every chunk
  hash released for deduplication is the hash of the raw bytes found at that chunk index of
  that stored xorb.
\<close>

theorem validated_registration_is_stored:
  assumes "validate_shard_for_index C fetch shard_id shard = Inr reg"
  shows "reg_shard_id reg = shard_id \<and>
    map (\<lambda>f. (vf_file_index f, vf_file_hash f)) (reg_files reg) =
      map (\<lambda>i. (i, fh_file_hash (file_entries shard ! i))) [0..<length (file_entries shard)] \<and>
    list_all (file_stored C fetch) (reg_files reg) \<and>
    list_all (\<lambda>c. \<exists>raw. stored_chunk C fetch (vc_xorb_hash c) (vc_chunk_index c) raw \<and> compute_data_hash C raw = vc_chunk_hash c)
      (reg_chunks reg)"
  by (rule validate_shard_sound [OF assms])

text \<open>A shard with one file over the one-chunk xorb of \<open>Xorb_Format\<close>.\<close>

definition one_file_shard :: MDBShardFile where
  "one_file_shard =
     \<lparr>s_header = shard_header_default, s_footer = sb_footer sb_new,
      file_entries = [\<lparr>fh_file_hash = compute_data_hash inst_crates [5], fh_file_flags = 0, fh_num_entries = 1\<rparr>],
      file_data_entries = [\<lparr>fe_xorb_hash = xi_xorb_hash demo_footer, fe_xorb_flags = 0, fe_unpacked_segment_bytes = 1,
        fe_chunk_index_start = 0, fe_chunk_index_end = 1\<rparr>],
      xorb_entries = [\<lparr>xh_xorb_hash = xi_xorb_hash demo_footer, xh_xorb_flags = 0, xh_num_entries = 1,
        xh_num_bytes_in_xorb = 1, xh_num_bytes_on_disk = 1\<rparr>],
      xorb_chunk_entries = [\<lparr>xe_chunk_hash = compute_data_hash inst_crates demo_piece, xe_chunk_byte_range_start = 0,
        xe_unpacked_segment_bytes = 1, xe_flags = 0\<rparr>],
      chunk_lookup_entries = [\<lparr>cl_chunk_hash = compute_data_hash inst_crates [5], cl_xorb_hash = xi_xorb_hash demo_footer, cl_chunk_index = 0\<rparr>],
      s_file_hashes = [], chunk_mappings = [], s_hash = []\<rparr>"

lemma demo_verify:
  "verify_xorb_from_file_with_info inst_crates (Some demo_file) =
     Inr \<lparr>v_xorb_hash = xi_xorb_hash demo_footer, v_file_len = length demo_file, v_footer_start = 9,
         v_chunks = piece_infos inst_crates 0 0 [(demo_piece, 1)], v_total_unpacked_bytes = 1, v_total_compressed_payload_bytes = 1\<rparr>"
  using verify_file_complete [OF demo_layout(1-3), of demo_file] demo_layout(4)
  by (simp add: demo_file_def demo_piece_def)

lemma demo_extract:
  "extract_chunk_verified_from_file inst_crates demo_file 0 1 (compute_data_hash inst_crates demo_piece) = Inr [5]"
  using extract_piece [of inst_crates "[5]" "[]" CNone "footer_serialize demo_footer"]
  by (simp add: demo_piece_of demo_file_def)

lemma one_file_shard_valid:
  "\<exists>reg. validate_shard_for_index inst_crates (\<lambda>_. Inr demo_file) ''s'' one_file_shard = Inr reg \<and> length (reg_chunks reg) = 1"
proof -
  have matches: "file_hash_matches inst_crates (compute_data_hash inst_crates [5]) [[5]]"
    by (simp add: file_hash_matches_def sh_finalize_def sh_update_def sh_new_def compute_data_hash_def)
  show ?thesis
    using demo_extract matches
    by (simp add: validate_shard_for_index_def one_file_shard_def validate_xorb_def demo_verify nat_checked_add_def
        validate_file_def build_file_chunk_plan_def plan_file_index_def validate_planned_def Let_def demo_piece_def [symmetric])
qed

theorem validated_registration_is_stored_witness:
  "\<exists>reg. validate_shard_for_index inst_crates (\<lambda>_. Inr demo_file) ''s'' one_file_shard = Inr reg \<and>
    list_all (file_stored inst_crates (\<lambda>_. Inr demo_file)) (reg_files reg)"
  using one_file_shard_valid validated_registration_is_stored by blast

end
