(* ===== verification/Metadata_Index.thy ===== *)
theory Metadata_Index
  imports Shard_Validation
begin

text \<open>
  The in-memory metadata index of \<^verbatim>\<open>src/src/index.rs\<close>: from file hashes to the shard
  references that reconstruct them and from chunk hashes to xorb positions, with the
  registration of a verified shard under the write lock and the rebuild from storage at
  startup. The rebuild lists shard keys, processes them in batches of ten, and registers
  each validated shard.

  The lemmas show that registration is atomic, consistent and idempotent, that batching does
  not change the outcome of a rebuild, and that every entry of an index built from validated
  shards is backed by stored data.
\<close>

record FileShardRef =
  fr_shard_id :: string
  fr_file_index :: nat
  fr_file_size :: nat

datatype IndexRegistrationError = FileSizeConflict merkle_hash nat nat

record MetadataIndex =
  file_to_shards :: "merkle_hash \<rightharpoonup> FileShardRef list"
  chunk_to_xorb :: "merkle_hash \<rightharpoonup> merkle_hash \<times> u32"

definition index_new :: MetadataIndex where
  "index_new = \<lparr>file_to_shards = Map.empty, chunk_to_xorb = Map.empty\<rparr>"

section \<open>Registration\<close>

definition first_ref :: "(merkle_hash \<rightharpoonup> FileShardRef list) \<Rightarrow> merkle_hash \<Rightarrow> FileShardRef option" where
  "first_ref file_map h = Option.bind (file_map h) (\<lambda>refs. if refs = [] then None else Some (hd refs))"

definition conflicting :: "nat option \<Rightarrow> nat \<Rightarrow> nat option" where
  "conflicting existing sz =
     (case existing of None \<Rightarrow> None | Some e \<Rightarrow> if e \<noteq> sz then Some e else None)"

text \<open>The validation loop: sizes seen in this registration, then the first existing reference.\<close>

fun check_sizes ::
  "(merkle_hash \<rightharpoonup> FileShardRef list) \<Rightarrow> (merkle_hash \<rightharpoonup> nat) \<Rightarrow> VerifiedFileMapping list \<Rightarrow> IndexRegistrationError + unit" where
  "check_sizes file_map registration_sizes [] = Inr ()"
| "check_sizes file_map registration_sizes (f # fs) =
     (case conflicting (registration_sizes (vf_file_hash f)) (vf_file_size f) of
        Some existing \<Rightarrow> Inl (FileSizeConflict (vf_file_hash f) existing (vf_file_size f))
      | None \<Rightarrow>
          (case conflicting (map_option fr_file_size (first_ref file_map (vf_file_hash f))) (vf_file_size f) of
             Some existing \<Rightarrow> Inl (FileSizeConflict (vf_file_hash f) existing (vf_file_size f))
           | None \<Rightarrow> check_sizes file_map (registration_sizes(vf_file_hash f \<mapsto> vf_file_size f)) fs))"

definition add_file_ref ::
  "string \<Rightarrow> (merkle_hash \<rightharpoonup> FileShardRef list) \<Rightarrow> VerifiedFileMapping \<Rightarrow> (merkle_hash \<rightharpoonup> FileShardRef list)" where
  "add_file_ref shard_id file_map f =
     (let entry = (case file_map (vf_file_hash f) of None \<Rightarrow> [] | Some refs \<Rightarrow> refs);
          r = \<lparr>fr_shard_id = shard_id, fr_file_index = vf_file_index f, fr_file_size = vf_file_size f\<rparr>
      in file_map(vf_file_hash f \<mapsto> (if r \<in> set entry then entry else entry @ [r])))"

definition add_chunk_mapping ::
  "(merkle_hash \<rightharpoonup> merkle_hash \<times> u32) \<Rightarrow> VerifiedChunkMapping \<Rightarrow> (merkle_hash \<rightharpoonup> merkle_hash \<times> u32)" where
  "add_chunk_mapping m c = m(vc_chunk_hash c \<mapsto> (vc_xorb_hash c, vc_chunk_index c))"

definition register_verified_shard ::
  "MetadataIndex \<Rightarrow> VerifiedShardRegistration \<Rightarrow> (IndexRegistrationError + unit) \<times> MetadataIndex" where
  "register_verified_shard idx reg =
     (case check_sizes (file_to_shards idx) Map.empty (reg_files reg) of
        Inl e \<Rightarrow> (Inl e, idx)
      | Inr _ \<Rightarrow>
          (Inr (), \<lparr>file_to_shards = foldl (add_file_ref (reg_shard_id reg)) (file_to_shards idx) (reg_files reg),
                    chunk_to_xorb = foldl add_chunk_mapping (chunk_to_xorb idx) (reg_chunks reg)\<rparr>))"

section \<open>Queries\<close>

definition get_file_refs :: "MetadataIndex \<Rightarrow> merkle_hash \<Rightarrow> FileShardRef list option" where
  "get_file_refs idx h = file_to_shards idx h"

definition get_file_size :: "MetadataIndex \<Rightarrow> merkle_hash \<Rightarrow> nat option" where
  "get_file_size idx h =
     (case file_to_shards idx h of
        None \<Rightarrow> None
      | Some refs \<Rightarrow> if refs = [] then None else Some (fr_file_size (hd refs)))"

text \<open>\<open>get_shards_for_file\<close> collects the ids in a \<open>BTreeSet\<close>; the result is that set.\<close>

definition get_shards_for_file :: "MetadataIndex \<Rightarrow> merkle_hash \<Rightarrow> string set option" where
  "get_shards_for_file idx h = map_option (\<lambda>refs. fr_shard_id ` set refs) (get_file_refs idx h)"

definition get_xorb_for_chunk :: "MetadataIndex \<Rightarrow> merkle_hash \<Rightarrow> (merkle_hash \<times> u32) option" where
  "get_xorb_for_chunk idx h = chunk_to_xorb idx h"

definition chunk_exists :: "MetadataIndex \<Rightarrow> merkle_hash \<Rightarrow> bool" where
  "chunk_exists idx h \<longleftrightarrow> chunk_to_xorb idx h \<noteq> None"

section \<open>Rebuild from storage\<close>

definition BATCH_SIZE :: nat where
  "BATCH_SIZE = 10"

definition strip_shards_prefix :: "string \<Rightarrow> string" where
  "strip_shards_prefix key = (if take 7 key = ''shards/'' then drop 7 key else key)"

text \<open>
  The task of one shard: fetch and parse, then validate; a failure is \<open>None\<close>. During one
  rebuild the outcome of fetching a key is fixed.
\<close>

definition fetched :: "StorageError + bytes \<Rightarrow> StorageError + shard_source" where
  "fetched res = rbind res (\<lambda>data. Inr (Downloaded data))"

definition process_shard :: "crates \<Rightarrow> fetch \<Rightarrow> string \<Rightarrow> VerifiedShardRegistration option" where
  "process_shard C fetch key =
     (case fst (parse_shard_from_storage C key (\<lambda>_. fetched (fetch key))) of
        Inl _ \<Rightarrow> None
      | Inr shard \<Rightarrow>
          (case validate_shard_for_index C fetch (strip_shards_prefix key) shard of
             Inl _ \<Rightarrow> None
           | Inr reg \<Rightarrow> Some reg))"

text \<open>Up to \<open>n\<close> keys from the listing, the rest of it, and whether the listing failed.\<close>

fun take_batch :: "nat \<Rightarrow> (string + string) list \<Rightarrow> string list \<times> (string + string) list \<times> bool" where
  "take_batch 0 items = ([], items, False)"
| "take_batch (Suc n) [] = ([], [], False)"
| "take_batch (Suc n) (Inl e # items) = ([], items, True)"
| "take_batch (Suc n) (Inr key # items) =
     (let (keys, rest, failed) = take_batch n items in (key # keys, rest, failed))"

datatype rebuild_error = RebuildIncomplete nat nat bool

record rebuild_state =
  rb_index :: MetadataIndex
  rb_total_count :: nat
  rb_failure_count :: nat

definition register_result :: "rebuild_state \<Rightarrow> VerifiedShardRegistration option \<Rightarrow> rebuild_state" where
  "register_result st outcome =
     (case outcome of
        None \<Rightarrow> st\<lparr>rb_failure_count := rb_failure_count st + 1\<rparr>
      | Some reg \<Rightarrow>
          (case register_verified_shard (rb_index st) reg of
             (Inr _, idx) \<Rightarrow> st\<lparr>rb_index := idx, rb_total_count := rb_total_count st + 1\<rparr>
           | (Inl _, idx) \<Rightarrow> st\<lparr>rb_index := idx, rb_failure_count := rb_failure_count st + 1\<rparr>))"

lemma take_batch_le: "length (fst (snd (take_batch n items))) \<le> length items"
  by (induction n items rule: take_batch.induct) (auto simp: Let_def split_def)

lemma take_batch_rest:
  assumes "take_batch n items = (keys, rest, failed)" "keys \<noteq> []"
  shows "length rest < length items"
proof (cases "(n, items)" rule: take_batch.cases)
  case (4 m key items')
  have "rest = fst (snd (take_batch n items))" by (simp only: assms(1) fst_conv snd_conv)
  also have "take_batch n items = take_batch (Suc m) (Inr key # items')" using 4 by (simp only: prod.inject)
  also have "fst (snd \<dots>) = fst (snd (take_batch m items'))" by (simp add: Let_def split_def)
  finally have "length rest \<le> length items'" using take_batch_le [of m items'] by simp
  moreover have "items = Inr key # items'" using 4 by (simp only: prod.inject)
  ultimately show ?thesis by simp
qed (use assms in simp_all)

function rebuild_loop ::
  "(string \<Rightarrow> VerifiedShardRegistration option) \<Rightarrow> (string + string) list \<Rightarrow> rebuild_state \<Rightarrow> rebuild_state \<times> bool" where
  "rebuild_loop process items st =
     (case take_batch BATCH_SIZE items of
        (batch, rest, listing_failed) \<Rightarrow>
          if batch = [] then (st, listing_failed)
          else
            let st' = foldl register_result st (map process batch) in
            if listing_failed then (st', True) else rebuild_loop process rest st')"
  by pat_completeness auto
termination
  by (relation "measure (\<lambda>(process, items, st). length items)") (auto intro!: take_batch_rest [OF sym])

declare rebuild_loop.simps [simp del]

definition rebuild_from_storage ::
  "crates \<Rightarrow> fetch \<Rightarrow> (string + string) list \<Rightarrow> MetadataIndex \<Rightarrow> (rebuild_error + nat) \<times> MetadataIndex" where
  "rebuild_from_storage C fetch listing idx =
     (let (st, listing_failed) = rebuild_loop (process_shard C fetch) listing
            \<lparr>rb_index = idx, rb_total_count = 0, rb_failure_count = 0\<rparr>
      in (if rb_failure_count st > 0 \<or> listing_failed
          then Inl (RebuildIncomplete (rb_total_count st) (rb_failure_count st) listing_failed)
          else Inr (rb_total_count st), rb_index st))"

section \<open>Size consistency\<close>

definition sizes_agree :: "(merkle_hash \<rightharpoonup> FileShardRef list) \<Rightarrow> VerifiedFileMapping list \<Rightarrow> bool" where
  "sizes_agree file_map fs \<longleftrightarrow>
     (\<forall>f\<in>set fs. \<forall>g\<in>set fs. vf_file_hash f = vf_file_hash g \<longrightarrow> vf_file_size f = vf_file_size g) \<and>
     (\<forall>f\<in>set fs. \<forall>r. first_ref file_map (vf_file_hash f) = Some r \<longrightarrow> fr_file_size r = vf_file_size f)"

lemma conflicting_None: "conflicting x sz = None \<longleftrightarrow> (\<forall>e. x = Some e \<longrightarrow> e = sz)"
  by (cases x) (auto simp: conflicting_def)

lemma check_sizes_Cons:
  "check_sizes fm seen (f # fs) = Inr () \<longleftrightarrow>
     conflicting (seen (vf_file_hash f)) (vf_file_size f) = None \<and>
     conflicting (map_option fr_file_size (first_ref fm (vf_file_hash f))) (vf_file_size f) = None \<and>
     check_sizes fm (seen(vf_file_hash f \<mapsto> vf_file_size f)) fs = Inr ()"
  by (simp split: option.splits)

lemma all_pairs_insert:
  assumes "\<And>a b. P a b \<longleftrightarrow> P b a" "\<And>a. P a a"
  shows "(\<forall>f\<in>insert x S. \<forall>g\<in>insert x S. P f g) \<longleftrightarrow> (\<forall>f\<in>S. \<forall>g\<in>S. P f g) \<and> (\<forall>g\<in>S. P g x)"
  using assms by blast

lemma sizes_agree_Cons:
  "sizes_agree fm (f # fs) \<longleftrightarrow> sizes_agree fm fs \<and>
     (\<forall>r. first_ref fm (vf_file_hash f) = Some r \<longrightarrow> fr_file_size r = vf_file_size f) \<and>
     (\<forall>g\<in>set fs. vf_file_hash g = vf_file_hash f \<longrightarrow> vf_file_size g = vf_file_size f)"
proof -
  let ?P = "\<lambda>f g :: VerifiedFileMapping. vf_file_hash f = vf_file_hash g \<longrightarrow> vf_file_size f = vf_file_size g"
  have "(\<forall>a\<in>set (f # fs). \<forall>b\<in>set (f # fs). ?P a b) \<longleftrightarrow> (\<forall>a\<in>set fs. \<forall>b\<in>set fs. ?P a b) \<and> (\<forall>g\<in>set fs. ?P g f)"
    unfolding list.set by (rule all_pairs_insert) (metis, simp)
  then show ?thesis unfolding sizes_agree_def by (simp only: list.set ball_simps(7)) blast
qed

lemma check_sizes_Inr:
  "check_sizes fm seen fs = Inr () \<longleftrightarrow> sizes_agree fm fs \<and>
     (\<forall>f\<in>set fs. \<forall>sz. seen (vf_file_hash f) = Some sz \<longrightarrow> sz = vf_file_size f)"
proof (induction fs arbitrary: seen)
  case (Cons f fs)
  have seen: "(\<forall>g\<in>set fs. \<forall>sz. (seen(vf_file_hash f \<mapsto> vf_file_size f)) (vf_file_hash g) = Some sz \<longrightarrow> sz = vf_file_size g)
     \<longleftrightarrow> (\<forall>g\<in>set fs. if vf_file_hash g = vf_file_hash f then vf_file_size g = vf_file_size f
          else \<forall>sz. seen (vf_file_hash g) = Some sz \<longrightarrow> sz = vf_file_size g)"
    by (rule ball_cong) auto
  show ?case
    unfolding check_sizes_Cons Cons.IH seen sizes_agree_Cons conflicting_None by (auto split: if_splits)
qed (simp add: sizes_agree_def)

text \<open>The index invariant, relative to the size each file hash stands for.\<close>

definition sized :: "(merkle_hash \<Rightarrow> nat) \<Rightarrow> (merkle_hash \<rightharpoonup> FileShardRef list) \<Rightarrow> bool" where
  "sized \<sigma> fm \<longleftrightarrow> (\<forall>h refs. fm h = Some refs \<longrightarrow> refs \<noteq> [] \<and> distinct refs \<and> (\<forall>r\<in>set refs. fr_file_size r = \<sigma> h))"

definition index_inv :: "MetadataIndex \<Rightarrow> bool" where
  "index_inv idx \<longleftrightarrow> (\<exists>\<sigma>. sized \<sigma> (file_to_shards idx))"

lemma sized_add_file_ref: "sized \<sigma> fm \<Longrightarrow> vf_file_size f = \<sigma> (vf_file_hash f) \<Longrightarrow> sized \<sigma> (add_file_ref sid fm f)"
  by (auto simp: sized_def add_file_ref_def Let_def split: option.splits)

lemma sized_add_file_refs:
  "sized \<sigma> fm \<Longrightarrow> \<forall>f\<in>set fs. vf_file_size f = \<sigma> (vf_file_hash f) \<Longrightarrow> sized \<sigma> (foldl (add_file_ref sid) fm fs)"
  by (induction fs arbitrary: fm) (auto simp: sized_add_file_ref)

text \<open>References are only appended, and every registered file gets its reference.\<close>

definition refs_extend :: "(merkle_hash \<rightharpoonup> FileShardRef list) \<Rightarrow> (merkle_hash \<rightharpoonup> FileShardRef list) \<Rightarrow> bool" where
  "refs_extend fm fm' \<longleftrightarrow> (\<forall>h refs. fm h = Some refs \<longrightarrow> (\<exists>more. fm' h = Some (refs @ more)))"

definition ref_of :: "string \<Rightarrow> VerifiedFileMapping \<Rightarrow> FileShardRef" where
  "ref_of sid f = \<lparr>fr_shard_id = sid, fr_file_index = vf_file_index f, fr_file_size = vf_file_size f\<rparr>"

lemma refs_extend_refl: "refs_extend fm fm"
  by (simp add: refs_extend_def)

lemma refs_extend_trans: "refs_extend a b \<Longrightarrow> refs_extend b c \<Longrightarrow> refs_extend a c"
  unfolding refs_extend_def by (metis append_assoc)

lemma refs_extend_add: "refs_extend fm (add_file_ref sid fm f)"
  by (auto simp: refs_extend_def add_file_ref_def Let_def)

lemma refs_extend_adds: "refs_extend fm (foldl (add_file_ref sid) fm fs)"
  by (induction fs arbitrary: fm) (auto intro: refs_extend_refl refs_extend_trans refs_extend_add)

lemma add_file_ref_has: "\<exists>refs. add_file_ref sid fm f (vf_file_hash f) = Some refs \<and> ref_of sid f \<in> set refs"
  by (auto simp: add_file_ref_def Let_def ref_of_def)

lemma add_file_refs_has:
  "f \<in> set fs \<Longrightarrow> \<exists>refs. foldl (add_file_ref sid) fm fs (vf_file_hash f) = Some refs \<and> ref_of sid f \<in> set refs"
proof (induction fs arbitrary: fm)
  case (Cons g fs)
  show ?case
  proof (cases "f \<in> set fs")
    case True
    then show ?thesis using Cons.IH by simp
  next
    case False
    with Cons.prems have "f = g" by simp
    with add_file_ref_has [of sid fm f] obtain refs where
      r: "add_file_ref sid fm g (vf_file_hash f) = Some refs" "ref_of sid f \<in> set refs" by auto
    from refs_extend_adds [of "add_file_ref sid fm g" sid fs] r(1)
    obtain more where "foldl (add_file_ref sid) (add_file_ref sid fm g) fs (vf_file_hash f) = Some (refs @ more)"
      unfolding refs_extend_def by blast
    with r(2) show ?thesis by simp
  qed
qed simp

lemma add_file_ref_same: "fm (vf_file_hash f) = Some refs \<Longrightarrow> ref_of sid f \<in> set refs \<Longrightarrow> add_file_ref sid fm f = fm"
  by (auto simp: add_file_ref_def Let_def ref_of_def)

lemma add_file_refs_same:
  "\<forall>f\<in>set fs. \<exists>refs. fm (vf_file_hash f) = Some refs \<and> ref_of sid f \<in> set refs \<Longrightarrow> foldl (add_file_ref sid) fm fs = fm"
  by (induction fs) (auto simp: add_file_ref_same)

lemma add_chunk_mappings_eq:
  "foldl add_chunk_mapping m cs = m ++ map_of (rev (map (\<lambda>c. (vc_chunk_hash c, (vc_xorb_hash c, vc_chunk_index c))) cs))"
proof (induction cs rule: rev_induct)
  case (snoc c cs)
  then show ?case by (simp add: add_chunk_mapping_def map_add_def fun_eq_iff split: option.splits)
qed simp

section \<open>Registering\<close>

abbreviation registered :: "MetadataIndex \<Rightarrow> VerifiedShardRegistration \<Rightarrow> MetadataIndex" where
  "registered idx reg \<equiv>
     \<lparr>file_to_shards = foldl (add_file_ref (reg_shard_id reg)) (file_to_shards idx) (reg_files reg),
      chunk_to_xorb = foldl add_chunk_mapping (chunk_to_xorb idx) (reg_chunks reg)\<rparr>"

lemma check_sizes_agree: "check_sizes fm Map.empty fs = Inr u \<longleftrightarrow> sizes_agree fm fs"
  using check_sizes_Inr [of fm Map.empty fs] by simp

lemma register_ok:
  "sizes_agree (file_to_shards idx) (reg_files reg) \<Longrightarrow> register_verified_shard idx reg = (Inr (), registered idx reg)"
  using check_sizes_agree [of "file_to_shards idx" "reg_files reg" "()"] by (simp add: register_verified_shard_def)

lemma register_conflict:
  assumes "\<not> sizes_agree (file_to_shards idx) (reg_files reg)"
  obtains e where "register_verified_shard idx reg = (Inl e, idx)"
proof (cases "check_sizes (file_to_shards idx) Map.empty (reg_files reg)")
  case (Inl e)
  with that show ?thesis by (simp add: register_verified_shard_def)
next
  case (Inr u)
  with assms check_sizes_agree show ?thesis by blast
qed

lemma sizes_agree_sized:
  assumes "sized \<sigma> fm" "sizes_agree fm fs"
  shows "\<exists>\<sigma>'. sized \<sigma>' fm \<and> (\<forall>f\<in>set fs. vf_file_size f = \<sigma>' (vf_file_hash f))"
proof -
  define \<sigma>' where "\<sigma>' h = (case find (\<lambda>f. vf_file_hash f = h) fs of Some f \<Rightarrow> vf_file_size f | None \<Rightarrow> \<sigma> h)" for h
  have f: "vf_file_size f = \<sigma>' (vf_file_hash f)" if "f \<in> set fs" for f
  proof (cases "find (\<lambda>g. vf_file_hash g = vf_file_hash f) fs")
    case None
    with that show ?thesis by (auto simp: find_None_iff)
  next
    case (Some g)
    then have "g \<in> set fs" "vf_file_hash g = vf_file_hash f" by (auto simp: find_Some_iff)
    with assms(2) that have "vf_file_size f = vf_file_size g" unfolding sizes_agree_def by metis
    with Some show ?thesis by (simp add: \<sigma>'_def)
  qed
  have "fr_file_size r = \<sigma>' h" if "fm h = Some refs" "r \<in> set refs" for h refs r
  proof (cases "find (\<lambda>g. vf_file_hash g = h) fs")
    case None
    with assms(1) that show ?thesis by (auto simp: sized_def \<sigma>'_def)
  next
    case (Some g)
    then have g: "g \<in> set fs" "vf_file_hash g = h" by (auto simp: find_Some_iff)
    have "refs \<noteq> []" "\<forall>r\<in>set refs. fr_file_size r = \<sigma> h" using assms(1) that by (auto simp: sized_def)
    moreover from this that(1) have "first_ref fm h = Some (hd refs)" by (simp add: first_ref_def)
    moreover from this assms(2) g have "fr_file_size (hd refs) = vf_file_size g" unfolding sizes_agree_def by metis
    ultimately show ?thesis using that(2) Some by (simp add: \<sigma>'_def)
  qed
  then have "sized \<sigma>' fm" using assms(1) by (auto simp: sized_def)
  with f show ?thesis by blast
qed

lemma register_inv:
  assumes "index_inv idx" shows "index_inv (snd (register_verified_shard idx reg))"
proof (cases "sizes_agree (file_to_shards idx) (reg_files reg)")
  case True
  from assms obtain \<sigma> where "sized \<sigma> (file_to_shards idx)" by (auto simp: index_inv_def)
  from sizes_agree_sized [OF this True] obtain \<sigma>' where
    "sized \<sigma>' (file_to_shards idx)" "\<forall>f\<in>set (reg_files reg). vf_file_size f = \<sigma>' (vf_file_hash f)" by blast
  then have "sized \<sigma>' (file_to_shards (registered idx reg))" by (simp add: sized_add_file_refs)
  then show ?thesis unfolding register_ok [OF True] index_inv_def snd_conv by blast
next
  case False
  from register_conflict [OF False] obtain e where "register_verified_shard idx reg = (Inl e, idx)" by blast
  with assms show ?thesis by simp
qed

section \<open>Rebuild equals sequential registration\<close>

text \<open>The keys listed before the first listing error, and whether there is one.\<close>

fun listed :: "(string + string) list \<Rightarrow> string list" where
  "listed [] = []"
| "listed (Inl e # items) = []"
| "listed (Inr key # items) = key # listed items"

definition listing_error :: "(string + string) list \<Rightarrow> bool" where
  "listing_error items \<longleftrightarrow> (\<exists>item\<in>set items. case item of Inl _ \<Rightarrow> True | Inr _ \<Rightarrow> False)"

lemma take_batch_listed:
  "take_batch n items = (keys, rest, failed) \<Longrightarrow>
     (if failed then listed items = keys \<and> listing_error items
      else listed items = keys @ listed rest \<and> listing_error items = listing_error rest)"
  by (induction n items arbitrary: keys rest failed rule: take_batch.induct)
     (auto simp: listing_error_def Let_def split: prod.splits if_splits)

lemma take_batch_empty: "take_batch (Suc n) items = ([], rest, False) \<Longrightarrow> items = []"
  by (cases "(Suc n, items)" rule: take_batch.cases) (auto simp: Let_def split: prod.splits)

lemma rebuild_loop_eq:
  "rebuild_loop process items st = (foldl register_result st (map process (listed items)), listing_error items)"
proof (induction process items st rule: rebuild_loop.induct)
  case (1 process items st)
  obtain keys rest failed where t: "take_batch BATCH_SIZE items = (keys, rest, failed)" by (metis prod_cases3)
  note l = take_batch_listed [OF t]
  show ?case
  proof (cases "keys = []")
    case True
    have "items = []" if "\<not> failed"
      using take_batch_empty [of 9 items rest] t True that by (simp add: BATCH_SIZE_def numeral_eq_Suc)
    with l True show ?thesis
      by (subst rebuild_loop.simps) (auto simp: t listing_error_def split: if_splits)
  next
    case False
    with l 1 [OF t [symmetric] refl False refl] show ?thesis
      by (subst rebuild_loop.simps) (auto simp: t Let_def split: if_splits)
  qed
qed

section \<open>What every entry of an index satisfies\<close>

definition all_entries :: "('k \<Rightarrow> 'v \<Rightarrow> bool) \<Rightarrow> ('k \<rightharpoonup> 'v) \<Rightarrow> bool" where
  "all_entries P m \<longleftrightarrow> (\<forall>k v. m k = Some v \<longrightarrow> P k v)"

lemma all_entries_upd: "all_entries P m \<Longrightarrow> P k v \<Longrightarrow> all_entries P (m(k \<mapsto> v))"
  by (simp add: all_entries_def)

definition entries_ok ::
  "(merkle_hash \<Rightarrow> FileShardRef \<Rightarrow> bool) \<Rightarrow> (merkle_hash \<Rightarrow> merkle_hash \<times> u32 \<Rightarrow> bool) \<Rightarrow> MetadataIndex \<Rightarrow> bool" where
  "entries_ok ref_ok chunk_ok idx \<longleftrightarrow>
     all_entries (\<lambda>h. list_all (ref_ok h)) (file_to_shards idx) \<and> all_entries chunk_ok (chunk_to_xorb idx)"

definition reg_ok ::
  "(merkle_hash \<Rightarrow> FileShardRef \<Rightarrow> bool) \<Rightarrow> (merkle_hash \<Rightarrow> merkle_hash \<times> u32 \<Rightarrow> bool) \<Rightarrow> VerifiedShardRegistration \<Rightarrow> bool" where
  "reg_ok ref_ok chunk_ok reg \<longleftrightarrow>
     list_all (\<lambda>f. ref_ok (vf_file_hash f) (ref_of (reg_shard_id reg) f)) (reg_files reg) \<and>
     list_all (\<lambda>c. chunk_ok (vc_chunk_hash c) (vc_xorb_hash c, vc_chunk_index c)) (reg_chunks reg)"

lemma entries_ok_new: "entries_ok ref_ok chunk_ok index_new"
  by (simp add: entries_ok_def index_new_def all_entries_def)

lemma chunk_mappings_ok:
  "all_entries P m \<Longrightarrow> list_all (\<lambda>c. P (vc_chunk_hash c) (vc_xorb_hash c, vc_chunk_index c)) cs \<Longrightarrow>
     all_entries P (foldl add_chunk_mapping m cs)"
  by (induction cs arbitrary: m) (simp_all add: add_chunk_mapping_def all_entries_upd)

lemma add_file_ref_ok:
  assumes "all_entries (\<lambda>h. list_all (P h)) fm" "P (vf_file_hash f) (ref_of sid f)"
  shows "all_entries (\<lambda>h. list_all (P h)) (add_file_ref sid fm f)"
proof -
  have "list_all (P (vf_file_hash f)) (case fm (vf_file_hash f) of None \<Rightarrow> [] | Some refs \<Rightarrow> refs)"
    using assms(1) by (simp add: all_entries_def split: option.split)
  with assms(2) show ?thesis
    unfolding add_file_ref_def Let_def by (intro all_entries_upd assms(1)) (simp add: ref_of_def)
qed

lemma file_refs_ok:
  "all_entries (\<lambda>h. list_all (P h)) fm \<Longrightarrow> list_all (\<lambda>f. P (vf_file_hash f) (ref_of sid f)) fs \<Longrightarrow>
     all_entries (\<lambda>h. list_all (P h)) (foldl (add_file_ref sid) fm fs)"
  by (induction fs arbitrary: fm) (simp_all add: add_file_ref_ok)

lemma register_entries_ok:
  assumes "entries_ok ref_ok chunk_ok idx" "reg_ok ref_ok chunk_ok reg"
  shows "entries_ok ref_ok chunk_ok (snd (register_verified_shard idx reg))"
proof (cases "sizes_agree (file_to_shards idx) (reg_files reg)")
  case True
  with assms show ?thesis
    by (simp add: register_ok entries_ok_def reg_ok_def chunk_mappings_ok file_refs_ok)
next
  case False
  from register_conflict [OF False] obtain e where "register_verified_shard idx reg = (Inl e, idx)" by blast
  with assms(1) show ?thesis by simp
qed

text \<open>
  The contract between the shard source of a rebuild and the index: whatever the source
  releases satisfies a policy on references and chunk entries.
\<close>

locale shard_source_policy =
  fixes process :: "string \<Rightarrow> VerifiedShardRegistration option"
    and keys :: "string set"
    and ref_ok :: "merkle_hash \<Rightarrow> FileShardRef \<Rightarrow> bool"
    and chunk_ok :: "merkle_hash \<Rightarrow> merkle_hash \<times> u32 \<Rightarrow> bool"
  assumes released: "key \<in> keys \<Longrightarrow> process key = Some reg \<Longrightarrow> reg_ok ref_ok chunk_ok reg"
begin

lemma register_result_ok:
  assumes "entries_ok ref_ok chunk_ok (rb_index st)" "key \<in> keys"
  shows "entries_ok ref_ok chunk_ok (rb_index (register_result st (process key)))"
proof (cases "process key")
  case (Some reg)
  obtain res idx where r: "register_verified_shard (rb_index st) reg = (res, idx)" by (metis surj_pair)
  from register_entries_ok [OF assms(1) released [OF assms(2) Some]] show ?thesis
    by (cases res) (simp_all add: register_result_def Some r)
qed (simp add: register_result_def assms)

lemma rebuild_entries_ok:
  assumes "entries_ok ref_ok chunk_ok (rb_index st)" "set (listed items) \<subseteq> keys"
  shows "entries_ok ref_ok chunk_ok (rb_index (fst (rebuild_loop process items st)))"
proof -
  have "entries_ok ref_ok chunk_ok (rb_index (foldl register_result st (map process ks)))" if "set ks \<subseteq> keys" for ks
    using assms(1) that by (induction ks arbitrary: st) (auto simp: register_result_ok)
  with assms(2) show ?thesis by (simp add: rebuild_loop_eq)
qed

end

section \<open>Entries are backed by storage\<close>

definition chunk_backed :: "crates \<Rightarrow> fetch \<Rightarrow> merkle_hash \<Rightarrow> merkle_hash \<times> u32 \<Rightarrow> bool" where
  "chunk_backed C fetch h pos \<longleftrightarrow>
     (\<exists>raw. stored_chunk C fetch (fst pos) (snd pos) raw \<and> compute_data_hash C raw = h)"

definition ref_backed :: "crates \<Rightarrow> fetch \<Rightarrow> merkle_hash \<Rightarrow> FileShardRef \<Rightarrow> bool" where
  "ref_backed C fetch h r \<longleftrightarrow>
     file_stored C fetch \<lparr>vf_file_hash = h, vf_file_index = fr_file_index r, vf_file_size = fr_file_size r\<rparr>"

definition index_backed :: "crates \<Rightarrow> fetch \<Rightarrow> MetadataIndex \<Rightarrow> bool" where
  "index_backed C fetch idx \<longleftrightarrow> index_inv idx \<and> entries_ok (ref_backed C fetch) (chunk_backed C fetch) idx"

lemma file_mapping_eta: "\<lparr>vf_file_hash = vf_file_hash f, vf_file_index = vf_file_index f, vf_file_size = vf_file_size f\<rparr> = f"
  by (cases f) simp

lemma validated_backed:
  "validate_shard_for_index C fetch sid shard = Inr reg \<Longrightarrow> reg_ok (ref_backed C fetch) (chunk_backed C fetch) reg"
  using validate_shard_sound [of C fetch sid shard reg]
  by (simp add: reg_ok_def chunk_backed_def ref_backed_def ref_of_def file_mapping_eta)

lemma process_shard_eq:
  "process_shard C fetch key =
     (case rbind (map_err (ShardStorage key) (fetch key)) (\<lambda>data. parse_path C key (Some data)) of
        Inl _ \<Rightarrow> None
      | Inr shard \<Rightarrow> (case validate_shard_for_index C fetch (strip_shards_prefix key) shard of Inl _ \<Rightarrow> None | Inr reg \<Rightarrow> Some reg))"
  by (cases "fetch key") (simp_all add: process_shard_def parse_shard_const parse_shard_once_def fetched_def)

interpretation backed: shard_source_policy "process_shard C fetch" UNIV "ref_backed C fetch" "chunk_backed C fetch" for C fetch
  by unfold_locales (auto simp: process_shard_eq intro: validated_backed split: sum.splits)

text \<open>Where a reference comes from: a shard that was fetched under its key and validated.\<close>

definition ref_released :: "crates \<Rightarrow> fetch \<Rightarrow> merkle_hash \<Rightarrow> FileShardRef \<Rightarrow> bool" where
  "ref_released C fetch h r \<longleftrightarrow>
     (\<exists>sid reg f. process_shard C fetch (''shards/'' @ sid) = Some reg \<and> f \<in> set (reg_files reg) \<and>
        vf_file_hash f = h \<and> r = ref_of (reg_shard_id reg) f)"

abbreviation shard_keys :: "string set" where
  "shard_keys \<equiv> range (\<lambda>sid. ''shards/'' @ sid)"

interpretation provenance: shard_source_policy "process_shard C fetch" shard_keys "ref_released C fetch" "\<lambda>_ _. True" for C fetch
proof unfold_locales
  fix key reg
  assume "key \<in> shard_keys" "process_shard C fetch key = Some reg"
  then show "reg_ok (ref_released C fetch) (\<lambda>_ _. True) reg"
    unfolding reg_ok_def ref_released_def list_all_iff by blast
qed

text \<open>The size agreement of references is kept by every registration, whatever it contains.\<close>

lemma register_result_inv: "index_inv (rb_index st) \<Longrightarrow> index_inv (rb_index (register_result st out))"
proof (cases out)
  case (Some reg)
  assume inv: "index_inv (rb_index st)"
  obtain res idx where r: "register_verified_shard (rb_index st) reg = (res, idx)" by (metis surj_pair)
  from register_inv [OF inv, of reg] show ?thesis by (cases res) (simp_all add: register_result_def Some r)
qed (simp add: register_result_def)

lemma rebuild_inv: "index_inv (rb_index st) \<Longrightarrow> index_inv (rb_index (fst (rebuild_loop process items st)))"
proof -
  have "index_inv (rb_index st) \<Longrightarrow> index_inv (rb_index (foldl register_result st outs))" for outs
    by (induction outs arbitrary: st) (auto simp: register_result_inv)
  then show "index_inv (rb_index st) \<Longrightarrow> ?thesis" by (simp add: rebuild_loop_eq)
qed

lemma rebuild_snd:
  "snd (rebuild_from_storage C fetch listing idx) =
     rb_index (fst (rebuild_loop (process_shard C fetch) listing \<lparr>rb_index = idx, rb_total_count = 0, rb_failure_count = 0\<rparr>))"
  by (simp add: rebuild_from_storage_def Let_def split: prod.split)

section \<open>Completeness of a successful rebuild\<close>

definition index_le :: "MetadataIndex \<Rightarrow> MetadataIndex \<Rightarrow> bool" where
  "index_le idx idx' \<longleftrightarrow> refs_extend (file_to_shards idx) (file_to_shards idx') \<and>
     dom (chunk_to_xorb idx) \<subseteq> dom (chunk_to_xorb idx')"

definition indexed :: "VerifiedShardRegistration \<Rightarrow> MetadataIndex \<Rightarrow> bool" where
  "indexed reg idx \<longleftrightarrow>
     list_all (\<lambda>f. \<exists>refs. get_file_refs idx (vf_file_hash f) = Some refs \<and> ref_of (reg_shard_id reg) f \<in> set refs) (reg_files reg) \<and>
     list_all (\<lambda>c. chunk_exists idx (vc_chunk_hash c)) (reg_chunks reg)"

lemma index_le_refl: "index_le idx idx"
  by (simp add: index_le_def refs_extend_refl)

lemma index_le_trans: "index_le a b \<Longrightarrow> index_le b c \<Longrightarrow> index_le a c"
  unfolding index_le_def using refs_extend_trans by blast

lemma refs_extend_mem: "refs_extend fm fm' \<Longrightarrow> \<exists>refs. fm h = Some refs \<and> r \<in> set refs \<Longrightarrow> \<exists>refs. fm' h = Some refs \<and> r \<in> set refs"
  unfolding refs_extend_def by (metis Un_iff set_append)

lemma indexed_mono:
  assumes "indexed reg idx" "index_le idx idx'" shows "indexed reg idx'"
proof -
  have "refs_extend (file_to_shards idx) (file_to_shards idx')" "dom (chunk_to_xorb idx) \<subseteq> dom (chunk_to_xorb idx')"
    using assms(2) by (simp_all add: index_le_def)
  with assms(1) show ?thesis
    unfolding indexed_def list_all_iff get_file_refs_def chunk_exists_def using refs_extend_mem by blast
qed

lemma register_le: "index_le idx (registered idx reg)"
  by (auto simp: index_le_def refs_extend_adds add_chunk_mappings_eq)

lemma register_indexed: "indexed reg (registered idx reg)"
  by (auto simp: indexed_def list_all_iff get_file_refs_def add_file_refs_has chunk_exists_def add_chunk_mappings_eq
      map_add_None map_of_eq_None_iff image_image)

lemma register_result_cases:
  obtains (ok) reg where "outcome = Some reg" "sizes_agree (file_to_shards (rb_index st)) (reg_files reg)"
      "register_result st outcome = st\<lparr>rb_index := registered (rb_index st) reg, rb_total_count := rb_total_count st + 1\<rparr>"
  | (failed) "register_result st outcome = st\<lparr>rb_failure_count := rb_failure_count st + 1\<rparr>"
proof (cases outcome)
  case None
  then show ?thesis using failed by (simp add: register_result_def)
next
  case (Some reg)
  show ?thesis
  proof (cases "sizes_agree (file_to_shards (rb_index st)) (reg_files reg)")
    case True
    with Some show ?thesis using ok by (simp add: register_result_def register_ok)
  next
    case False
    from register_conflict [OF False] obtain e where "register_verified_shard (rb_index st) reg = (Inl e, rb_index st)" by blast
    with Some show ?thesis using failed by (simp add: register_result_def)
  qed
qed

lemma register_fold_counts:
  "rb_total_count (foldl register_result st os) + rb_failure_count (foldl register_result st os) =
     rb_total_count st + rb_failure_count st + length os \<and>
   rb_failure_count st \<le> rb_failure_count (foldl register_result st os) \<and>
   index_le (rb_index st) (rb_index (foldl register_result st os))"
proof (induction os arbitrary: st)
  case (Cons out os)
  show ?case
  proof (cases out st rule: register_result_cases)
    case (ok reg)
    from Cons.IH [of "register_result st out"] show ?thesis
      by (auto simp: ok(3) intro: index_le_trans [OF register_le])
  next
    case failed
    from Cons.IH [of "register_result st out"] show ?thesis by (auto simp: failed)
  qed
qed (simp add: index_le_refl)

lemma register_fold_complete:
  assumes "rb_failure_count (foldl register_result st os) = rb_failure_count st"
  shows "list_all (\<lambda>out. \<exists>reg. out = Some reg \<and> indexed reg (rb_index (foldl register_result st os))) os"
  using assms
proof (induction os arbitrary: st)
  case (Cons out os)
  note mono = register_fold_counts [of "register_result st out" os]
  show ?case
  proof (cases out st rule: register_result_cases)
    case (ok reg)
    have "index_le (registered (rb_index st) reg) (rb_index (foldl register_result st (out # os)))"
      using mono by (simp add: ok(3))
    from indexed_mono [OF register_indexed this] have "indexed reg (rb_index (foldl register_result st (out # os)))" .
    moreover have "rb_failure_count (register_result st out) = rb_failure_count st" by (simp add: ok(3))
    ultimately show ?thesis using Cons.IH [of "register_result st out"] Cons.prems ok(1) by simp
  next
    case failed
    with mono Cons.prems show ?thesis by simp
  qed
qed simp

lemma listed_all: "\<not> listing_error items \<Longrightarrow> map Inr (listed items) = items"
  by (induction items rule: listed.induct) (simp_all add: listing_error_def)

lemma get_file_size_sized:
  "sized \<sigma> (file_to_shards idx) \<Longrightarrow> get_file_refs idx h = Some refs \<Longrightarrow> r \<in> set refs \<Longrightarrow> get_file_size idx h = Some (fr_file_size r)"
  by (auto simp: sized_def get_file_size_def get_file_refs_def)

section \<open>Properties\<close>

text \<open>
  C21. Registration is atomic and consistent. On an index whose references agree on the size
  of each file, a registration either fails with the index unchanged, exactly when some file
  hash would get two sizes, or succeeds; then no reference is lost, every registered file has
  its reference and its size is what \<open>get_file_size\<close> reports, and the chunk table is
  overridden by the registration's chunks, the last one winning. The invariant is kept.
\<close>

theorem registration_atomic:
  assumes "index_inv idx" "register_verified_shard idx reg = (res, idx')"
  shows "index_inv idx' \<and>
    (res = Inr () \<longleftrightarrow> sizes_agree (file_to_shards idx) (reg_files reg)) \<and>
    (res \<noteq> Inr () \<longrightarrow> idx' = idx) \<and>
    (res = Inr () \<longrightarrow> refs_extend (file_to_shards idx) (file_to_shards idx') \<and> indexed reg idx' \<and>
       list_all (\<lambda>f. get_file_size idx' (vf_file_hash f) = Some (vf_file_size f)) (reg_files reg) \<and>
       chunk_to_xorb idx' = chunk_to_xorb idx ++
         map_of (rev (map (\<lambda>c. (vc_chunk_hash c, (vc_xorb_hash c, vc_chunk_index c))) (reg_chunks reg))))"
proof (cases "sizes_agree (file_to_shards idx) (reg_files reg)")
  case True
  have inv: "index_inv idx'" using register_inv [OF assms(1), of reg] assms(2) by simp
  have i: "idx' = registered idx reg" "res = Inr ()" using assms(2) register_ok [OF True] by simp_all
  have "get_file_size idx' (vf_file_hash f) = Some (vf_file_size f)" if "f \<in> set (reg_files reg)" for f
    using inv register_indexed [of reg idx] that get_file_size_sized [of _ idx' "vf_file_hash f"]
    unfolding i(1) [symmetric] index_inv_def indexed_def list_all_iff ref_of_def by fastforce
  with inv True register_indexed [of reg idx] refs_extend_adds show ?thesis
    by (simp add: i(2) list_all_iff) (simp add: i(1) add_chunk_mappings_eq)
next
  case False
  from register_conflict [OF False] obtain e where "register_verified_shard idx reg = (Inl e, idx)" by blast
  with assms(2) have "res = Inl e" "idx' = idx" by simp_all
  with assms(1) False show ?thesis by simp
qed

definition demo_reg :: VerifiedShardRegistration where
  "demo_reg = \<lparr>reg_shard_id = ''s'', reg_files = [\<lparr>vf_file_hash = MerkleHash 1 0 0 0, vf_file_index = 0, vf_file_size = 7\<rparr>],
     reg_chunks = [\<lparr>vc_chunk_hash = MerkleHash 2 0 0 0, vc_xorb_hash = MerkleHash 3 0 0 0, vc_chunk_index = 4\<rparr>]\<rparr>"

lemma index_new_inv: "index_inv index_new"
  by (simp add: index_new_def index_inv_def sized_def)

lemma demo_reg_agrees: "sizes_agree (file_to_shards index_new) (reg_files demo_reg)"
  by (simp add: sizes_agree_def demo_reg_def first_ref_def index_new_def)

theorem registration_atomic_witness:
  "register_verified_shard index_new demo_reg = (Inr (), registered index_new demo_reg) \<and>
   get_file_size (registered index_new demo_reg) (MerkleHash 1 0 0 0) = Some 7"
proof -
  have "list_all (\<lambda>f. get_file_size (registered index_new demo_reg) (vf_file_hash f) = Some (vf_file_size f)) (reg_files demo_reg)"
    using registration_atomic [OF index_new_inv register_ok [OF demo_reg_agrees]] by blast
  moreover have "reg_files demo_reg = [\<lparr>vf_file_hash = MerkleHash 1 0 0 0, vf_file_index = 0, vf_file_size = 7\<rparr>]"
    by (simp add: demo_reg_def)
  ultimately show ?thesis using register_ok [OF demo_reg_agrees] by simp
qed

text \<open>
  Registration is idempotent: registering the same verified shard again succeeds and
  changes nothing, so a retried upload or a second rebuild cannot duplicate references.
\<close>

theorem registration_idempotent:
  assumes "index_inv idx" "register_verified_shard idx reg = (Inr (), idx')"
  shows "register_verified_shard idx' reg = (Inr (), idx')"
proof -
  have agree: "sizes_agree (file_to_shards idx) (reg_files reg)"
  proof (rule ccontr)
    assume "\<not> ?thesis"
    from register_conflict [OF this] obtain e where "register_verified_shard idx reg = (Inl e, idx)" by blast
    with assms(2) show False by simp
  qed
  have i: "idx' = registered idx reg" using assms(2) register_ok [OF agree] by simp
  have ind: "indexed reg idx'" unfolding i by (rule register_indexed)
  have "index_inv idx'" using register_inv [OF assms(1), of reg] assms(2) by simp
  then obtain \<sigma> where sz: "sized \<sigma> (file_to_shards idx')" by (auto simp: index_inv_def)
  have size: "vf_file_size f = \<sigma> (vf_file_hash f)" if "f \<in> set (reg_files reg)" for f
    using ind that sz by (fastforce simp: indexed_def list_all_iff sized_def ref_of_def get_file_refs_def)
  then have "sizes_agree (file_to_shards idx') (reg_files reg)"
    using sz by (auto simp: sizes_agree_def first_ref_def sized_def bind_eq_Some_conv split: if_splits)
  then have "register_verified_shard idx' reg = (Inr (), registered idx' reg)" by (rule register_ok)
  moreover have "foldl (add_file_ref (reg_shard_id reg)) (file_to_shards idx') (reg_files reg) = file_to_shards idx'"
    using ind by (intro add_file_refs_same) (simp add: indexed_def list_all_iff get_file_refs_def)
  moreover have "foldl add_chunk_mapping (chunk_to_xorb idx') (reg_chunks reg) = chunk_to_xorb idx'"
    by (auto simp: i add_chunk_mappings_eq map_add_def fun_eq_iff split: option.splits)
  ultimately show ?thesis by simp
qed

theorem registration_idempotent_witness:
  "register_verified_shard (registered index_new demo_reg) demo_reg = (Inr (), registered index_new demo_reg)"
  using registration_idempotent [OF index_new_inv register_ok [OF demo_reg_agrees]] by simp

text \<open>
  Batching is transparent: a rebuild that reads the listing in batches of ten gives
  exactly the result of registering, one after the other, the outcomes of all keys listed
  before the first listing error, and it reports the counts of that run.
\<close>

theorem rebuild_batches_sequential:
  "rebuild_from_storage C fetch listing idx =
     (let st = foldl register_result \<lparr>rb_index = idx, rb_total_count = 0, rb_failure_count = 0\<rparr>
                 (map (process_shard C fetch) (listed listing))
      in (if rb_failure_count st > 0 \<or> listing_error listing
          then Inl (RebuildIncomplete (rb_total_count st) (length (listed listing) - rb_total_count st) (listing_error listing))
          else Inr (length listing), rb_index st))"
proof -
  let ?st0 = "\<lparr>rb_index = idx, rb_total_count = 0, rb_failure_count = 0\<rparr>"
  let ?os = "map (process_shard C fetch) (listed listing)"
  have c: "rb_total_count (foldl register_result ?st0 ?os) + rb_failure_count (foldl register_result ?st0 ?os) = length (listed listing)"
    using register_fold_counts [of ?st0 ?os] by simp
  have l: "length (listed listing) = length listing" if "\<not> listing_error listing"
    using listed_all [OF that] by (metis length_map)
  show ?thesis
    unfolding rebuild_from_storage_def rebuild_loop_eq Let_def prod.case using c l by (auto simp flip: c)
qed

text \<open>
  C31. A rebuild never puts unverified data into the index, whatever storage returns and
  whether or not it reports success: every chunk entry points to a chunk of a stored, verified
  xorb whose raw bytes have that hash, and every file reference stands for a file that is
  reconstructed from such chunks with that size and hash; the references of each file agree.
\<close>

theorem rebuilt_index_is_backed:
  "index_backed C fetch (snd (rebuild_from_storage C fetch listing index_new))"
  unfolding index_backed_def rebuild_snd
  by (simp add: rebuild_inv index_new_inv backed.rebuild_entries_ok entries_ok_new)

text \<open>
  A rebuild that reports success is complete: it reports the number of listed shards, the
  listing had no error, and every listed shard was fetched, parsed and validated, and all its
  files and chunks can be looked up in the resulting index.
\<close>

theorem successful_rebuild_is_complete:
  assumes "rebuild_from_storage C fetch listing idx = (Inr n, idx')"
  shows "\<exists>keys. listing = map Inr keys \<and> n = length keys \<and>
    list_all (\<lambda>key. \<exists>reg. process_shard C fetch key = Some reg \<and> indexed reg idx') keys"
proof -
  let ?st0 = "\<lparr>rb_index = idx, rb_total_count = 0, rb_failure_count = 0\<rparr>"
  let ?os = "map (process_shard C fetch) (listed listing)"
  from assms have r: "rb_failure_count (foldl register_result ?st0 ?os) = 0" "\<not> listing_error listing"
    "n = rb_total_count (foldl register_result ?st0 ?os)" "idx' = rb_index (foldl register_result ?st0 ?os)"
    unfolding rebuild_from_storage_def rebuild_loop_eq Let_def prod.case by (simp_all split: if_splits)
  have "list_all (\<lambda>out. \<exists>reg. out = Some reg \<and> indexed reg idx') ?os"
    unfolding r(4) by (rule register_fold_complete) (simp add: r(1))
  moreover have "n = length (listed listing)"
    using register_fold_counts [of ?st0 ?os] r(1,3) by simp
  ultimately show ?thesis
    using listed_all [OF r(2)] by (intro exI [of _ "listed listing"]) (simp add: list_all_iff)
qed

text \<open>A storage holding one shard and the one-chunk xorb it refers to.\<close>

definition stored_builder :: ShardBuilder where
  "stored_builder =
     add_file (snd (projr (add_xorb_with_raw_chunk_hashes sb_new (xi_xorb_hash demo_footer) 1 1
       [\<lparr>xc_chunk_hash = compute_data_hash inst_crates demo_piece, xc_chunk_byte_range_start = 0, xc_unpacked_segment_bytes = 1\<rparr>]
       [compute_data_hash inst_crates [5]]))) (compute_data_hash inst_crates [5])
       [\<lparr>fs_xorb_hash = xi_xorb_hash demo_footer, fs_xorb_index = 0, fs_chunk_index_start = 0, fs_chunk_index_end = 1,
         fs_unpacked_segment_bytes = 1\<rparr>]"

lemmas stored_builder_simps = stored_builder_def add_file_def add_xorb_with_raw_chunk_hashes_def add_xorb_unchecked_def sb_new_def

definition demo_storage :: fetch where
  "demo_storage key = (if key = ''shards/s'' then Inr (sb_bytes stored_builder) else Inr demo_file)"

lemma stored_builder_ok: "sb_inv stored_builder" "sb_fits stored_builder"
proof -
  have "sb_reach stored_builder"
    unfolding stored_builder_def by (intro sb_reach_file sb_reach_projr sb_reach_new) simp
  then show "sb_inv stored_builder" by (rule sb_reach_inv)
  show "sb_fits stored_builder"
    by (simp add: sb_fits_def stored_builder_simps sb_total_size_def file_section_size_def xorb_section_size_def
        chunk_lookup_section_size_def)
qed

lemma stored_shard_parses:
  obtains shard where "parse_from_file inst_crates (Some (sb_bytes stored_builder)) = Inr shard"
    "file_entries shard = file_entries one_file_shard"
    "file_data_entries shard = file_data_entries one_file_shard" "xorb_entries shard = xorb_entries one_file_shard"
    "xorb_chunk_entries shard = xorb_chunk_entries one_file_shard"
    "chunk_lookup_entries shard = chunk_lookup_entries one_file_shard"
proof -
  have "length (sb_bytes stored_builder) < 2 ^ 64"
    using stored_builder_ok(2) by (simp add: sb_bytes_length sb_fits_def)
  then have "parse_from_file inst_crates (Some (sb_bytes stored_builder)) = shard_parse inst_crates (sb_bytes stored_builder)"
    by (simp add: parse_from_file_def shard_parse_def hash_reader_eq)
  note p = this [unfolded parse_built [OF stored_builder_ok(2,1)]]
  show ?thesis
    by (rule that, rule p)
       (simp_all add: stored_builder_simps one_file_shard_def file_header_of_def file_entry_of_def xorb_header_of_def xorb_entry_of_def)
qed

lemma demo_storage_valid:
  "\<exists>reg. process_shard inst_crates demo_storage ''shards/s'' = Some reg \<and> length (reg_files reg) = 1 \<and> length (reg_chunks reg) = 1"
proof -
  obtain shard where p: "parse_from_file inst_crates (Some (sb_bytes stored_builder)) = Inr shard"
    and fields: "file_entries shard = file_entries one_file_shard"
    "file_data_entries shard = file_data_entries one_file_shard" "xorb_entries shard = xorb_entries one_file_shard"
    "xorb_chunk_entries shard = xorb_chunk_entries one_file_shard"
    "chunk_lookup_entries shard = chunk_lookup_entries one_file_shard"
    by (rule stored_shard_parses)
  have key: "demo_storage (xorb_key inst_crates h) = Inr demo_file" for h
    by (simp add: demo_storage_def xorb_key_def)
  have matches: "file_hash_matches inst_crates (compute_data_hash inst_crates [5]) [[5]]"
    by (simp add: file_hash_matches_def sh_finalize_def sh_update_def sh_new_def compute_data_hash_def)
  have valid: "\<exists>reg. validate_shard_for_index inst_crates demo_storage ''s'' shard = Inr reg \<and>
      length (reg_files reg) = 1 \<and> length (reg_chunks reg) = 1"
    using demo_extract matches
    by (simp add: validate_shard_for_index_def fields key one_file_shard_def validate_xorb_def demo_verify nat_checked_add_def
        validate_file_def build_file_chunk_plan_def plan_file_index_def validate_planned_def Let_def demo_piece_def [symmetric])
  have "demo_storage ''shards/s'' = Inr (sb_bytes stored_builder)" "strip_shards_prefix ''shards/s'' = ''s''"
    by (simp_all add: demo_storage_def strip_shards_prefix_def)
  with valid p show ?thesis by (auto simp: process_shard_eq parse_path_def)
qed

lemma demo_rebuild:
  obtains reg f where "process_shard inst_crates demo_storage ''shards/s'' = Some reg" "reg_files reg = [f]"
    "length (reg_chunks reg) = 1"
    "rebuild_from_storage inst_crates demo_storage [Inr ''shards/s''] index_new = (Inr 1, registered index_new reg)"
proof -
  from demo_storage_valid obtain reg where reg: "process_shard inst_crates demo_storage ''shards/s'' = Some reg"
    "length (reg_files reg) = 1" "length (reg_chunks reg) = 1" by blast
  from reg(2) obtain f where f: "reg_files reg = [f]" by (auto simp: length_Suc_conv)
  then have "sizes_agree (file_to_shards index_new) (reg_files reg)"
    by (simp add: sizes_agree_def first_ref_def index_new_def)
  from register_ok [OF this] have
    "rebuild_from_storage inst_crates demo_storage [Inr ''shards/s''] index_new = (Inr 1, registered index_new reg)"
    unfolding rebuild_from_storage_def rebuild_loop_eq
    by (simp add: reg(1) register_result_def listing_error_def)
  with reg f that show ?thesis by blast
qed

theorem successful_rebuild_is_complete_witness:
  "\<exists>idx' reg. rebuild_from_storage inst_crates demo_storage [Inr ''shards/s''] index_new = (Inr 1, idx') \<and>
     process_shard inst_crates demo_storage ''shards/s'' = Some reg \<and> length (reg_chunks reg) = 1 \<and> indexed reg idx'"
proof -
  obtain reg f where reg: "process_shard inst_crates demo_storage ''shards/s'' = Some reg" "length (reg_chunks reg) = 1"
    and r: "rebuild_from_storage inst_crates demo_storage [Inr ''shards/s''] index_new = (Inr 1, registered index_new reg)"
    by (rule demo_rebuild)
  from successful_rebuild_is_complete [OF r] have "indexed reg (registered index_new reg)"
  proof (elim exE conjE)
    fix keys
    assume k: "[Inr ''shards/s''] = map Inr keys"
      "list_all (\<lambda>key. \<exists>reg'. process_shard inst_crates demo_storage key = Some reg' \<and> indexed reg' (registered index_new reg)) keys"
    from k(1) have "keys = [''shards/s'']" by (cases keys) auto
    with k(2) reg(1) show ?thesis by simp
  qed
  with r reg show ?thesis by blast
qed

end
