(* ===== verification/Reconstruction_IO.thy ===== *)
theory Reconstruction_IO
  imports Metadata_Index
begin

text \<open>
  Reconstruction of a file from its verified shard references,
  \<^verbatim>\<open>src/src/reconstruction_io.rs\<close>: the references are tried in order; for each the shard is
  fetched and parsed, a chunk plan is built, every chunk is extracted from its cached xorb and
  checked, and the bytes are returned only if their whole-file hash is the requested one.
  The output file is the byte list written to it.

  The lemmas show that only bytes with the requested hash are ever returned, and that every
  file of an index rebuilt from the same storage can be reconstructed.
\<close>

datatype ReconstructionError =
    RInvalidInput string
  | RStale string
  | RStorage string
  | RTempIo string
  | RParse string
  | RIntegrity string

definition is_stale :: "ReconstructionError \<Rightarrow> bool" where
  "is_stale e = (case e of RStale _ \<Rightarrow> True | _ \<Rightarrow> False)"

definition map_storage_error :: "string \<Rightarrow> StorageError \<Rightarrow> ReconstructionError" where
  "map_storage_error key e =
     (case e of
        NotFound _ \<Rightarrow> RStale (''missing '' @ key)
      | Internal message \<Rightarrow> RStorage (key @ '': '' @ message)
      | InvalidArgument m \<Rightarrow> RStorage (key @ '': '' @ m)
      | Quota \<Rightarrow> RTempIo ''temporary storage unavailable'')"

definition map_shard_error :: "string \<Rightarrow> ShardIoError \<Rightarrow> ReconstructionError" where
  "map_shard_error key e =
     (case e of
        ShardStorage _ source \<Rightarrow> map_storage_error key source
      | ShardParse _ source \<Rightarrow>
          if source = IoError NotFoundIo then RStale (''missing '' @ key) else RParse ''failed to parse shard''
      | ShardTempIo message \<Rightarrow> RTempIo message
      | ShardParseTask _ message \<Rightarrow> RParse message)"

definition fetch_shard :: "crates \<Rightarrow> fetch \<Rightarrow> string \<Rightarrow> ReconstructionError + MDBShardFile" where
  "fetch_shard C fetch shard_id =
     (let key = ''shards/'' @ shard_id in
      map_err (map_shard_error key) (fst (parse_shard_from_storage C key (\<lambda>_. fetched (fetch key)))))"

text \<open>The cache of downloaded xorbs: a vacant entry is filled by a download.\<close>

definition ensure_cached ::
  "crates \<Rightarrow> fetch \<Rightarrow> (merkle_hash \<rightharpoonup> bytes) \<Rightarrow> merkle_hash \<Rightarrow> ReconstructionError + (merkle_hash \<rightharpoonup> bytes)" where
  "ensure_cached C fetch xorb_cache h =
     (case xorb_cache h of
        Some _ \<Rightarrow> Inr xorb_cache
      | None \<Rightarrow>
          (let key = xorb_key C h in
           rbind (map_err (map_storage_error key) (fetch key)) (\<lambda>data. Inr (xorb_cache(h \<mapsto> data)))))"

definition cached_xorb_guard :: "(merkle_hash \<rightharpoonup> bytes) \<Rightarrow> merkle_hash \<Rightarrow> ReconstructionError + bytes" where
  "cached_xorb_guard xorb_cache h = ok_or (xorb_cache h) (RIntegrity ''xorb was not present in reconstruction cache'')"

text \<open>What the chunk loop accumulates: the output file, the two running hashes, the nodes, the size.\<close>

record reconstruction =
  rc_output :: bytes
  rc_sha :: bytes
  whole_blake3 :: streaming_hasher
  chunk_nodes :: "node list"
  rc_total_size :: u64

definition reconstruction_new :: reconstruction where
  "reconstruction_new = \<lparr>rc_output = [], rc_sha = [], whole_blake3 = sh_new, chunk_nodes = [], rc_total_size = 0\<rparr>"

definition write_chunk :: "reconstruction \<Rightarrow> merkle_hash \<Rightarrow> bytes \<Rightarrow> reconstruction" where
  "write_chunk r raw_hash data =
     \<lparr>rc_output = rc_output r @ data, rc_sha = rc_sha r @ data, whole_blake3 = sh_update (whole_blake3 r) data,
      chunk_nodes = chunk_nodes r @ [(raw_hash, of_nat (length data))],
      rc_total_size = rc_total_size r + of_nat (length data)\<rparr>"

fun reconstruct_chunks ::
  "crates \<Rightarrow> fetch \<Rightarrow> (merkle_hash \<rightharpoonup> bytes) \<Rightarrow> PlannedChunk list \<Rightarrow> reconstruction \<Rightarrow> ReconstructionError + reconstruction" where
  "reconstruct_chunks C fetch xorb_cache [] r = Inr r"
| "reconstruct_chunks C fetch xorb_cache (p # ps) r =
     rbind (ensure_cached C fetch xorb_cache (pc_xorb_hash p)) (\<lambda>xorb_cache.
     rbind (cached_xorb_guard xorb_cache (pc_xorb_hash p)) (\<lambda>xorb_file.
     rbind (map_err RIntegrity
              (extract_chunk_verified_from_file C xorb_file (unat (pc_chunk_byte_range_start p))
                 (pc_unpacked_segment_bytes p) (pc_serialized_chunk_hash p))) (\<lambda>data.
     let raw_hash = compute_data_hash C data in
     if raw_hash \<noteq> pc_raw_chunk_hash p then Inl (RIntegrity ''raw chunk hash mismatch'')
     else reconstruct_chunks C fetch xorb_cache ps (write_chunk r raw_hash data))))"

text \<open>The comparison of the requested id with the three whole-file hashes, as text.\<close>

definition reconstructed_id_matches :: "crates \<Rightarrow> string \<Rightarrow> reconstruction \<Rightarrow> bool" where
  "reconstructed_id_matches C canonical_file_id r \<longleftrightarrow>
     canonical_file_id = hex_encode C (sha256 C (rc_sha r)) \<or>
     canonical_file_id = mh_to_hex C (sh_finalize C (whole_blake3 r)) \<or>
     canonical_file_id = mh_to_hex C (file_hash C (chunk_nodes r))"

definition reconstruct_single_file_ref_to_temp ::
  "crates \<Rightarrow> fetch \<Rightarrow> string \<Rightarrow> merkle_hash \<Rightarrow> FileShardRef \<Rightarrow> ReconstructionError + (bytes \<times> u64)" where
  "reconstruct_single_file_ref_to_temp C fetch canonical_file_id target_hash file_ref =
     rbind (fetch_shard C fetch (fr_shard_id file_ref)) (\<lambda>shard.
     rbind (map_err (\<lambda>_. RIntegrity ''plan'') (build_file_chunk_plan shard target_hash (Some (fr_file_index file_ref)))) (\<lambda>plan.
     rbind (reconstruct_chunks C fetch Map.empty (pf_chunks plan) reconstruction_new) (\<lambda>r.
     if \<not> reconstructed_id_matches C canonical_file_id r then Inl (RIntegrity ''reconstructed file hash mismatch'')
     else Inr (rc_output r, rc_total_size r))))"

text \<open>The loop over the references, remembering the first error that is not staleness.\<close>

fun try_refs ::
  "crates \<Rightarrow> fetch \<Rightarrow> string \<Rightarrow> merkle_hash \<Rightarrow> FileShardRef list \<Rightarrow> ReconstructionError option \<Rightarrow>
     ReconstructionError + (bytes \<times> u64)" where
  "try_refs C fetch canonical_file_id target_hash [] first_non_stale_error =
     Inl (case first_non_stale_error of
            Some e \<Rightarrow> e
          | None \<Rightarrow> RStale ''no verified shard reference could reconstruct'')"
| "try_refs C fetch canonical_file_id target_hash (r # refs) first_non_stale_error =
     (case reconstruct_single_file_ref_to_temp C fetch canonical_file_id target_hash r of
        Inr reconstruction \<Rightarrow> Inr reconstruction
      | Inl e \<Rightarrow>
          if is_stale e then try_refs C fetch canonical_file_id target_hash refs first_non_stale_error
          else try_refs C fetch canonical_file_id target_hash refs
                 (case first_non_stale_error of None \<Rightarrow> Some e | Some e0 \<Rightarrow> Some e0))"

definition reconstruct_verified_file_to_temp ::
  "crates \<Rightarrow> fetch \<Rightarrow> string \<Rightarrow> FileShardRef list \<Rightarrow> ReconstructionError + (bytes \<times> u64)" where
  "reconstruct_verified_file_to_temp C fetch file_id file_refs =
     rbind (map_err (\<lambda>_. RInvalidInput ''invalid file id'') (mh_from_hex C file_id)) (\<lambda>target_hash.
     try_refs C fetch (mh_to_hex C target_hash) target_hash file_refs None)"

section \<open>The chunk loop\<close>

text \<open>The state of the loop after the given chunks.\<close>

definition written :: "crates \<Rightarrow> bytes list \<Rightarrow> reconstruction \<Rightarrow> reconstruction" where
  "written C raws r = foldl (\<lambda>r raw. write_chunk r (compute_data_hash C raw) raw) r raws"

lemma written_fields:
  "rc_output (written C raws r) = rc_output r @ concat raws"
  "rc_sha (written C raws r) = rc_sha r @ concat raws"
  "whole_blake3 (written C raws r) = foldl sh_update (whole_blake3 r) raws"
  "chunk_nodes (written C raws r) = chunk_nodes r @ map (\<lambda>raw. (compute_data_hash C raw, of_nat (length raw))) raws"
  "rc_total_size (written C raws r) = rc_total_size r + of_nat (length (concat raws))"
  by (induction raws arbitrary: r) (simp_all add: written_def write_chunk_def)

lemma written_Cons: "written C (raw # raws) r = written C raws (write_chunk r (compute_data_hash C raw) raw)"
  by (simp add: written_def)

lemma id_matches_written:
  assumes "hex_contract C"
  shows "reconstructed_id_matches C (mh_to_hex C h) (written C raws reconstruction_new) \<longleftrightarrow> file_hash_matches C h raws"
  by (simp add: reconstructed_id_matches_def file_hash_matches_def written_fields reconstruction_new_def
      mh_to_hex_inject [OF assms])

text \<open>A cache that only holds what storage returned.\<close>

definition cache_ok :: "crates \<Rightarrow> fetch \<Rightarrow> (merkle_hash \<rightharpoonup> bytes) \<Rightarrow> bool" where
  "cache_ok C fetch cache \<longleftrightarrow> (\<forall>h data. cache h = Some data \<longrightarrow> fetch (xorb_key C h) = Inr data)"

lemma ensure_cached_Inr:
  assumes "cache_ok C fetch cache" "ensure_cached C fetch cache h = Inr cache'"
  shows "cache_ok C fetch cache' \<and> (\<exists>data. cache' h = Some data \<and> fetch (xorb_key C h) = Inr data)"
  using assms by (auto simp: ensure_cached_def cache_ok_def rbind_eq_Inr map_err_eq_Inr Let_def split: option.splits if_splits)

lemma ensure_cached_fetch:
  assumes "cache_ok C fetch cache" "fetch (xorb_key C h) = Inr data"
  shows "\<exists>cache'. ensure_cached C fetch cache h = Inr cache' \<and> cache_ok C fetch cache' \<and> cache' h = Some data"
  using assms by (cases "cache h") (auto simp: ensure_cached_def cache_ok_def)

text \<open>The chunk a plan entry stands for, read from storage.\<close>

definition chunk_read :: "crates \<Rightarrow> fetch \<Rightarrow> PlannedChunk \<Rightarrow> bytes \<Rightarrow> bool" where
  "chunk_read C fetch p raw \<longleftrightarrow>
     (\<exists>data. fetch (xorb_key C (pc_xorb_hash p)) = Inr data \<and>
        extract_chunk_verified_from_file C data (unat (pc_chunk_byte_range_start p))
          (pc_unpacked_segment_bytes p) (pc_serialized_chunk_hash p) = Inr raw \<and>
        compute_data_hash C raw = pc_raw_chunk_hash p)"

lemma reconstruct_chunks_Cons:
  assumes "cache_ok C fetch cache"
  shows "reconstruct_chunks C fetch cache (p # ps) r = Inr r' \<longleftrightarrow>
    (\<exists>raw cache'. chunk_read C fetch p raw \<and> cache_ok C fetch cache' \<and>
       ensure_cached C fetch cache (pc_xorb_hash p) = Inr cache' \<and>
       reconstruct_chunks C fetch cache' ps (write_chunk r (compute_data_hash C raw) raw) = Inr r')"
    (is "?L \<longleftrightarrow> (\<exists>raw cache'. ?R raw cache')")
proof
  assume ?L
  then obtain cache' data raw where
    q: "ensure_cached C fetch cache (pc_xorb_hash p) = Inr cache'" "cache' (pc_xorb_hash p) = Some data"
    "extract_chunk_verified_from_file C data (unat (pc_chunk_byte_range_start p))
       (pc_unpacked_segment_bytes p) (pc_serialized_chunk_hash p) = Inr raw"
    "compute_data_hash C raw = pc_raw_chunk_hash p"
    "reconstruct_chunks C fetch cache' ps (write_chunk r (compute_data_hash C raw) raw) = Inr r'"
    by (auto simp: rbind_eq_Inr map_err_eq_Inr cached_xorb_guard_def ok_or_eq_Inr Let_def if_Inl_eq_Inr)
  from ensure_cached_Inr [OF assms q(1)] q(2) have "cache_ok C fetch cache'" "fetch (xorb_key C (pc_xorb_hash p)) = Inr data"
    by auto
  with q have "?R raw cache'" unfolding chunk_read_def by blast
  then show "\<exists>raw cache'. ?R raw cache'" by blast
next
  assume "\<exists>raw cache'. ?R raw cache'"
  then obtain raw cache' data where
    q: "ensure_cached C fetch cache (pc_xorb_hash p) = Inr cache'" "fetch (xorb_key C (pc_xorb_hash p)) = Inr data"
    "extract_chunk_verified_from_file C data (unat (pc_chunk_byte_range_start p))
       (pc_unpacked_segment_bytes p) (pc_serialized_chunk_hash p) = Inr raw"
    "compute_data_hash C raw = pc_raw_chunk_hash p"
    "reconstruct_chunks C fetch cache' ps (write_chunk r (compute_data_hash C raw) raw) = Inr r'"
    unfolding chunk_read_def by blast
  from ensure_cached_Inr [OF assms q(1)] q(2) have "cache' (pc_xorb_hash p) = Some data" by auto
  with q show ?L by (simp add: cached_xorb_guard_def Let_def)
qed

lemma reconstruct_chunks_iff:
  assumes "cache_ok C fetch cache"
  shows "reconstruct_chunks C fetch cache ps r = Inr r' \<longleftrightarrow>
    (\<exists>raws. list_all2 (chunk_read C fetch) ps raws \<and> r' = written C raws r)"
  using assms
proof (induction ps arbitrary: cache r)
  case Nil
  then show ?case by (auto simp: written_def)
next
  case (Cons p ps)
  have "\<exists>cache'. ensure_cached C fetch cache (pc_xorb_hash p) = Inr cache' \<and> cache_ok C fetch cache'"
    if "chunk_read C fetch p raw" for raw
    using that ensure_cached_fetch [OF Cons.prems] unfolding chunk_read_def by blast
  then have "reconstruct_chunks C fetch cache (p # ps) r = Inr r' \<longleftrightarrow>
      (\<exists>raw raws. chunk_read C fetch p raw \<and> list_all2 (chunk_read C fetch) ps raws \<and>
         r' = written C raws (write_chunk r (compute_data_hash C raw) raw))"
    unfolding reconstruct_chunks_Cons [OF Cons.prems] using Cons.IH by blast
  also have "\<dots> \<longleftrightarrow> (\<exists>raws. list_all2 (chunk_read C fetch) (p # ps) raws \<and> r' = written C raws r)"
    unfolding list_all2_Cons1 by (metis written_Cons)
  finally show ?case .
qed

section \<open>One reference\<close>

lemma cache_ok_empty: "cache_ok C fetch Map.empty"
  by (simp add: cache_ok_def)

lemma fetch_shard_eq:
  "fetch_shard C fetch sid = map_err (map_shard_error (''shards/'' @ sid))
     (rbind (map_err (ShardStorage (''shards/'' @ sid)) (fetch (''shards/'' @ sid)))
        (\<lambda>data. parse_path C (''shards/'' @ sid) (Some data)))"
  by (cases "fetch (''shards/'' @ sid)")
     (simp_all add: fetch_shard_def Let_def parse_shard_const parse_shard_once_def fetched_def)

lemma reconstruct_single_iff:
  assumes "hex_contract C"
  shows "reconstruct_single_file_ref_to_temp C fetch (mh_to_hex C h) h r = Inr (out, n) \<longleftrightarrow>
    (\<exists>shard plan raws. fetch_shard C fetch (fr_shard_id r) = Inr shard \<and>
       build_file_chunk_plan shard h (Some (fr_file_index r)) = Inr plan \<and>
       list_all2 (chunk_read C fetch) (pf_chunks plan) raws \<and> file_hash_matches C h raws \<and>
       out = concat raws \<and> n = of_nat (length out))"
proof -
  have "reconstruct_single_file_ref_to_temp C fetch (mh_to_hex C h) h r = Inr (out, n) \<longleftrightarrow>
    (\<exists>shard plan r'. fetch_shard C fetch (fr_shard_id r) = Inr shard \<and>
       build_file_chunk_plan shard h (Some (fr_file_index r)) = Inr plan \<and>
       reconstruct_chunks C fetch Map.empty (pf_chunks plan) reconstruction_new = Inr r' \<and>
       reconstructed_id_matches C (mh_to_hex C h) r' \<and> out = rc_output r' \<and> n = rc_total_size r')"
    by (auto simp: reconstruct_single_file_ref_to_temp_def rbind_eq_Inr map_err_eq_Inr if_Inl_eq_Inr)
  also have "\<dots> \<longleftrightarrow> (\<exists>shard plan raws. fetch_shard C fetch (fr_shard_id r) = Inr shard \<and>
       build_file_chunk_plan shard h (Some (fr_file_index r)) = Inr plan \<and>
       list_all2 (chunk_read C fetch) (pf_chunks plan) raws \<and> file_hash_matches C h raws \<and>
       out = rc_output (written C raws reconstruction_new) \<and> n = rc_total_size (written C raws reconstruction_new))"
    unfolding reconstruct_chunks_iff [OF cache_ok_empty] using id_matches_written [OF assms] by metis
  also have "\<dots> \<longleftrightarrow> (\<exists>shard plan raws. fetch_shard C fetch (fr_shard_id r) = Inr shard \<and>
       build_file_chunk_plan shard h (Some (fr_file_index r)) = Inr plan \<and>
       list_all2 (chunk_read C fetch) (pf_chunks plan) raws \<and> file_hash_matches C h raws \<and>
       out = concat raws \<and> n = of_nat (length out))"
    by (auto simp: written_fields reconstruction_new_def)
  finally show ?thesis .
qed

section \<open>Several references\<close>

lemma try_refs_Inr:
  "try_refs C fetch cid h refs first = Inr res \<Longrightarrow>
     \<exists>r\<in>set refs. reconstruct_single_file_ref_to_temp C fetch cid h r = Inr res"
  by (induction refs arbitrary: first) (auto split: sum.splits if_splits)

lemma try_refs_ok:
  "r \<in> set refs \<Longrightarrow> reconstruct_single_file_ref_to_temp C fetch cid h r = Inr res \<Longrightarrow>
     \<exists>res'. try_refs C fetch cid h refs first = Inr res'"
  by (induction refs arbitrary: first) (auto split: sum.splits)

lemma try_refs_all_stale:
  "list_all (\<lambda>r. \<exists>e. reconstruct_single_file_ref_to_temp C fetch cid h r = Inl (RStale e)) refs \<Longrightarrow>
     try_refs C fetch cid h refs None = Inl (RStale ''no verified shard reference could reconstruct'')"
  by (induction refs) (auto simp: is_stale_def)

section \<open>Files a rebuilt index knows\<close>

lemma validate_planned_read:
  assumes "validate_planned C m p = Inr raw" "xorbs_validated C fetch shard m"
  shows "chunk_read C fetch p raw"
proof -
  from assms(1) obtain v where v: "m (pc_xorb_hash p) = Some v"
    "extract_chunk_verified_from_file C (vx_data v) (unat (pc_chunk_byte_range_start p))
       (pc_unpacked_segment_bytes p) (pc_serialized_chunk_hash p) = Inr raw" "compute_data_hash C raw = pc_raw_chunk_hash p"
    by (auto simp: validate_planned_def rbind_eq_Inr ok_or_eq_Inr map_err_eq_Inr not_le split: if_splits)
  moreover from assms(2) v(1) have "fetch (xorb_key C (pc_xorb_hash p)) = Inr (vx_data v)"
    unfolding xorbs_validated_def stored_xorb_def by blast
  ultimately show ?thesis unfolding chunk_read_def by blast
qed

lemma validate_chunks_read:
  assumes "validate_chunks C m ps n0 = Inr (raws, n)" "xorbs_validated C fetch shard m"
  shows "list_all2 (chunk_read C fetch) ps raws \<and> n = n0 + length (concat raws)"
  using assms(1)
proof (induction ps arbitrary: n0 raws)
  case (Cons p ps)
  from Cons.prems obtain raw raws' where
    p: "validate_planned C m p = Inr raw" "validate_chunks C m ps (n0 + length raw) = Inr (raws', n)" "raws = raw # raws'"
    by (auto simp: rbind_eq_Inr ok_or_eq_Inr nat_checked_add_Some)
  from Cons.IH [OF p(2)] validate_planned_read [OF p(1) assms(2)] p(3) show ?case by simp
qed simp

lemma validate_files_elem:
  "validate_files C m shard is = Inr (fs, touched) \<Longrightarrow> f \<in> set fs \<Longrightarrow> \<exists>i t. validate_file C m shard i = Inr (f, t)"
proof (induction "is" arbitrary: fs touched)
  case (Cons i "is")
  then obtain g t1 fs' t2 where "validate_file C m shard i = Inr (g, t1)" "validate_files C m shard is = Inr (fs', t2)"
    "fs = g # fs'" by (auto simp: rbind_eq_Inr)
  with Cons.IH Cons.prems(2) show ?case by (cases "f = g") auto
qed simp

text \<open>A validated file can be planned, read and hashed again from the same storage.\<close>

lemma validated_file_readable:
  assumes "validate_shard_for_index C fetch sid shard = Inr reg" "f \<in> set (reg_files reg)"
  obtains plan raws where "build_file_chunk_plan shard (vf_file_hash f) (Some (vf_file_index f)) = Inr plan"
    "list_all2 (chunk_read C fetch) (pf_chunks plan) raws" "file_hash_matches C (vf_file_hash f) raws"
    "vf_file_size f = length (concat raws)"
proof -
  from assms(1) obtain m off fs touched where
    p: "validate_xorbs C fetch (xorb_chunk_entries shard) (xorb_entries shard) 0 Map.empty = Inr (m, off)"
    "validate_files C m shard [0..<length (file_entries shard)] = Inr (fs, touched)" "reg_files reg = fs"
    by (auto simp: validate_shard_for_index_def rbind_eq_Inr split: if_splits)
  have m: "xorbs_validated C fetch shard m"
    using validate_xorbs_Inr [OF p(1)] unfolding xorbs_validated_def by fastforce
  from validate_files_elem [OF p(2)] assms(2) p(3) obtain i t where "validate_file C m shard i = Inr (f, t)" by blast
  then obtain plan raws n where
    "build_file_chunk_plan shard (fh_file_hash (file_entries shard ! i)) (Some i) = Inr plan"
    "validate_chunks C m (pf_chunks plan) 0 = Inr (raws, n)" "file_hash_matches C (fh_file_hash (file_entries shard ! i)) raws"
    "f = \<lparr>vf_file_hash = fh_file_hash (file_entries shard ! i), vf_file_index = i, vf_file_size = n\<rparr>"
    by (auto simp: validate_file_def Let_def rbind_eq_Inr map_err_eq_Inr split: if_splits)
  with validate_chunks_read [OF this(2) m] show ?thesis by (intro that [of plan raws]) simp_all
qed

lemma released_ref_reconstructs:
  assumes "hex_contract C" "process_shard C fetch (''shards/'' @ sid) = Some reg" "f \<in> set (reg_files reg)"
  shows "\<exists>raws. reconstruct_single_file_ref_to_temp C fetch (mh_to_hex C (vf_file_hash f)) (vf_file_hash f)
      (ref_of (reg_shard_id reg) f) = Inr (concat raws, of_nat (vf_file_size f)) \<and>
    file_hash_matches C (vf_file_hash f) raws \<and> length (concat raws) = vf_file_size f"
proof -
  let ?key = "''shards/'' @ sid"
  have strip: "strip_shards_prefix ?key = sid" by (simp add: strip_shards_prefix_def)
  from assms(2) obtain shard where
    sh: "rbind (map_err (ShardStorage ?key) (fetch ?key)) (\<lambda>data. parse_path C ?key (Some data)) = Inr shard"
    "validate_shard_for_index C fetch sid shard = Inr reg"
    unfolding process_shard_eq strip by (auto split: sum.splits)
  from sh(1) have fetch: "fetch_shard C fetch sid = Inr shard" by (simp only: fetch_shard_eq map_err.simps)
  have "reg_shard_id reg = sid" using validate_shard_sound [OF sh(2)] by simp
  moreover from validated_file_readable [OF sh(2) assms(3)] obtain plan raws where
    "build_file_chunk_plan shard (vf_file_hash f) (Some (vf_file_index f)) = Inr plan"
    "list_all2 (chunk_read C fetch) (pf_chunks plan) raws" "file_hash_matches C (vf_file_hash f) raws"
    "vf_file_size f = length (concat raws)" by blast
  ultimately show ?thesis
    using fetch unfolding reconstruct_single_iff [OF assms(1)] by (auto simp: ref_of_def)
qed

lemma mh_from_to_hex: "hex_contract C \<Longrightarrow> mh_from_hex C (mh_to_hex C h) = Inr h"
  by (simp add: mh_from_hex_def mh_to_hex_def hex_contract_def mh_from_as_bytes)

lemma rebuilt_ref_released:
  assumes "set (listed listing) \<subseteq> shard_keys"
    "get_file_refs (snd (rebuild_from_storage C fetch listing index_new)) h = Some refs" "r \<in> set refs"
  shows "ref_released C fetch h r"
proof -
  have "entries_ok (ref_released C fetch) (\<lambda>_ _. True) (snd (rebuild_from_storage C fetch listing index_new))"
    unfolding rebuild_snd by (rule provenance.rebuild_entries_ok [OF _ assms(1)]) (simp add: entries_ok_new)
  with assms(2,3) show ?thesis by (auto simp: entries_ok_def all_entries_def get_file_refs_def list_all_iff)
qed

section \<open>Properties\<close>


text \<open>The one-file storage of \<open>Metadata_Index\<close>, its file read back.\<close>

lemma demo_shard_keys: "set (listed [Inr ''shards/s'']) \<subseteq> shard_keys"
  by (auto intro: range_eqI [of _ _ "''s''"])

lemma demo_reconstruction:
  obtains h r res where "reconstruct_verified_file_to_temp inst_crates demo_storage (mh_to_hex inst_crates h) [r] = Inr res"
proof -
  obtain reg f where "process_shard inst_crates demo_storage ''shards/s'' = Some reg" "reg_files reg = [f]"
    by (rule demo_rebuild)
  with released_ref_reconstructs [OF inst_hex_contract, of demo_storage "''s''" reg f]
  obtain res where "reconstruct_single_file_ref_to_temp inst_crates demo_storage (mh_to_hex inst_crates (vf_file_hash f))
    (vf_file_hash f) (ref_of (reg_shard_id reg) f) = Inr res" by auto
  then show ?thesis
    by (intro that [of "vf_file_hash f" "ref_of (reg_shard_id reg) f" res])
       (simp add: reconstruct_verified_file_to_temp_def mh_from_to_hex [OF inst_hex_contract])
qed


text \<open>
  C22. Every indexed file can be downloaded. After a rebuild of the index from a storage whose
  shard listing returns keys below \<open>shards/\<close>, and while the storage stays as it is, each file
  the index knows is reconstructed from its references: the call succeeds, the bytes have the
  requested hash, and their length is the size the index reports.
\<close>

theorem indexed_files_reconstruct:
  assumes "hex_contract C" "set (listed listing) \<subseteq> range (\<lambda>sid. ''shards/'' @ sid)"
    and idx: "idx = snd (rebuild_from_storage C fetch listing index_new)"
    and refs: "get_file_refs idx h = Some refs"
  shows "\<exists>raws. reconstruct_verified_file_to_temp C fetch (mh_to_hex C h) refs = Inr (concat raws, of_nat (length (concat raws))) \<and>
    file_hash_matches C h raws \<and> get_file_size idx h = Some (length (concat raws))"
proof -
  have "index_inv idx" unfolding idx rebuild_snd by (rule rebuild_inv) (simp add: index_new_inv)
  then obtain \<sigma> where sz: "sized \<sigma> (file_to_shards idx)" by (auto simp: index_inv_def)
  with refs have ne: "refs \<noteq> []" by (auto simp: sized_def get_file_refs_def)
  have single: "\<exists>raws. reconstruct_single_file_ref_to_temp C fetch (mh_to_hex C h) h r = Inr (concat raws, of_nat (length (concat raws))) \<and>
      file_hash_matches C h raws \<and> get_file_size idx h = Some (length (concat raws))" if "r \<in> set refs" for r
  proof -
    from rebuilt_ref_released [OF assms(2) refs [unfolded idx] that] obtain sid reg f where
      r: "process_shard C fetch (''shards/'' @ sid) = Some reg" "f \<in> set (reg_files reg)" "vf_file_hash f = h"
      "r = ref_of (reg_shard_id reg) f" unfolding ref_released_def by blast
    have "get_file_size idx h = Some (vf_file_size f)"
      using get_file_size_sized [OF sz refs that] r(4) by (simp add: ref_of_def)
    moreover from released_ref_reconstructs [OF assms(1) r(1,2)] obtain raws where
      "reconstruct_single_file_ref_to_temp C fetch (mh_to_hex C h) h r = Inr (concat raws, of_nat (vf_file_size f))"
      "file_hash_matches C h raws" "length (concat raws) = vf_file_size f" unfolding r(3,4) by blast
    ultimately show ?thesis by (intro exI [of _ raws]) simp
  qed
  from single [of "hd refs"] ne obtain res where
    "try_refs C fetch (mh_to_hex C h) h refs None = Inr res"
    using try_refs_ok [of "hd refs" refs C fetch "mh_to_hex C h" h _ None] by fastforce
  with try_refs_Inr [OF this] single mh_from_to_hex [OF assms(1)] show ?thesis
    by (fastforce simp: reconstruct_verified_file_to_temp_def)
qed

theorem indexed_files_reconstruct_witness:
  "\<exists>h refs raws. get_file_refs (snd (rebuild_from_storage inst_crates demo_storage [Inr ''shards/s''] index_new)) h = Some refs \<and>
     reconstruct_verified_file_to_temp inst_crates demo_storage (mh_to_hex inst_crates h) refs =
       Inr (concat raws, of_nat (length (concat raws)))"
proof -
  obtain reg f where d: "reg_files reg = [f]"
    "rebuild_from_storage inst_crates demo_storage [Inr ''shards/s''] index_new = (Inr 1, registered index_new reg)"
    by (rule demo_rebuild)
  have "indexed reg (registered index_new reg)" by (rule register_indexed)
  then obtain refs where "get_file_refs (registered index_new reg) (vf_file_hash f) = Some refs"
    unfolding indexed_def d(1) by auto
  then have refs: "get_file_refs (snd (rebuild_from_storage inst_crates demo_storage [Inr ''shards/s''] index_new)) (vf_file_hash f) = Some refs"
    unfolding d(2) snd_conv .
  from indexed_files_reconstruct [OF inst_hex_contract demo_shard_keys refl refs] refs show ?thesis by blast
qed

end
