(* ===== verification/Object_Store.thy ===== *)
theory Object_Store
  imports Storage_Access
begin

text \<open>
  The storage interface, the trait \<^verbatim>\<open>StorageBackend\<close> of \<^verbatim>\<open>src/src/storage/mod.rs\<close>: a record of
  the operations its clients call, with the state of the backend passed explicitly, and the
  contract of a store of named objects as a locale. A write takes a token, the unique suffix
  under which it stages its data.
\<close>

record ('s, 'u) StorageBackend =
  put :: "'u \<Rightarrow> 's \<Rightarrow> string \<Rightarrow> bytes \<Rightarrow> (StorageError + unit) \<times> 's"
  get :: "'s \<Rightarrow> string \<Rightarrow> StorageError + bytes"
  get_path :: "'s \<Rightarrow> string \<Rightarrow> StorageError + bytes option option"
  obj_exists :: "'s \<Rightarrow> string \<Rightarrow> StorageError + bool"
  delete :: "'s \<Rightarrow> string \<Rightarrow> (StorageError + unit) \<times> 's"
  get_size :: "'s \<Rightarrow> string \<Rightarrow> StorageError + nat"
  download_to_path :: "'s \<Rightarrow> string \<Rightarrow> StorageError + bytes"

text \<open>
  The contract, relative to an invariant of the backend's state and the objects it holds:
  several keys may name one object (\<open>same\<close>), a write is all or nothing, and the reading
  operations report exactly the stored content. \<open>fresh\<close> says that a token is not in use.
\<close>

locale object_store =
  fixes S :: "('s, 'u) StorageBackend"
    and inv :: "'s \<Rightarrow> bool"
    and same :: "string \<Rightarrow> string \<Rightarrow> bool"
    and content :: "'s \<Rightarrow> string \<Rightarrow> bytes option"
    and fresh :: "'u \<Rightarrow> 's \<Rightarrow> string \<Rightarrow> bool"
  assumes put_Inr:
      "inv s \<Longrightarrow> fresh u s k \<Longrightarrow> put S u s k d = (Inr r, s') \<Longrightarrow>
         inv s' \<and> same k k \<and> (\<forall>k'. content s' k' = (if same k k' then Some d else content s k'))"
    and put_Inl:
      "inv s \<Longrightarrow> fresh u s k \<Longrightarrow> put S u s k d = (Inl e, s') \<Longrightarrow> inv s' \<and> content s' = content s"
    and get_Inr: "inv s \<Longrightarrow> get S s k = Inr d \<longleftrightarrow> content s k = Some d"
    and download_Inr: "inv s \<Longrightarrow> download_to_path S s k = Inr d \<longleftrightarrow> content s k = Some d"
    and exists_content: "inv s \<Longrightarrow> content s k = Some d \<Longrightarrow> obj_exists S s k = Inr True"
    and exists_False: "inv s \<Longrightarrow> obj_exists S s k = Inr False \<Longrightarrow> content s k = None"
    and delete_Inr:
      "inv s \<Longrightarrow> delete S s k = (Inr r, s') \<Longrightarrow>
         inv s' \<and> (\<forall>k'. content s' k' = (if same k k' then None else content s k'))"
    and delete_Inl: "inv s \<Longrightarrow> delete S s k = (Inl e, s') \<Longrightarrow> inv s' \<and> content s' = content s"
    and content_same: "same k k' \<Longrightarrow> content s k = content s k'"
    and size_content: "inv s \<Longrightarrow> content s k = Some d \<Longrightarrow> get_size S s k = Inr (length d)"
    and path_content: "inv s \<Longrightarrow> content s k = Some d \<Longrightarrow> get_path S s k = Inr (Some p) \<Longrightarrow> p = Some d"
begin

lemma put_get:
  assumes "inv s" "fresh u s k" "put S u s k d = (Inr r, s')"
  shows "get S s' k = Inr d" "\<not> same k k' \<Longrightarrow> get S s' k' = Inr d' \<longleftrightarrow> get S s k' = Inr d'"
proof -
  from put_Inr [OF assms] have p: "inv s'" "same k k" "content s' k' = (if same k k' then Some d else content s k')" for k'
    by blast+
  show "get S s' k = Inr d" using p by (simp add: get_Inr)
  show "\<not> same k k' \<Longrightarrow> get S s' k' = Inr d' \<longleftrightarrow> get S s k' = Inr d'" using p assms(1) by (simp add: get_Inr)
qed

lemma put_delete_get:
  assumes "inv s" "fresh u s k" "put S u s k d = (Inr r, s')" "delete S s' k = (Inr r', s'')"
  shows "get S s'' k \<noteq> Inr d'"
proof -
  from put_Inr [OF assms(1-3)] have p: "inv s'" "same k k" by blast+
  from delete_Inr [OF p(1) assms(4)] p(2) show ?thesis by (auto simp: get_Inr)
qed

end

end
