(* ===== verification/Temp_Quota.thy ===== *)
theory Temp_Quota
  imports Xet_Prelude
begin

text \<open>
  The ledger for temporary disk usage, \<^verbatim>\<open>src/xet-common/src/lib.rs\<close>: bytes are reserved before
  they are written, a reservation is committed as bytes are written and gives everything back
  when it is dropped. The counters are 64-bit atomics; their unchecked subtractions wrap.

  Operations are first modelled as uninterrupted calls. The lemmas show that over every
  sequence of calls the counters equal what the live reservations hold, that no subtraction
  wraps, and that the budget is kept. Then the calls are split into their atomic accesses and
  interleaved: the counters still account for every byte, but the budget can be exceeded.
\<close>

record TempQuotaLedger =
  quota_bytes :: u64
  min_free_bytes :: u64
  charged_bytes :: u64
  reserved_bytes :: u64

datatype TempQuotaError = QuotaExhausted | InsufficientFreeSpace | QuotaOverflow

record TempReservation =
  tr_reserved :: u64
  tr_charged :: u64

definition ledger_new :: "u64 \<Rightarrow> u64 \<Rightarrow> TempQuotaError + TempQuotaLedger" where
  "ledger_new quota min_free =
     (if quota = 0 \<or> min_free = 0 then Inl QuotaOverflow
      else Inr \<lparr>quota_bytes = quota, min_free_bytes = min_free, charged_bytes = 0, reserved_bytes = 0\<rparr>)"

text \<open>\<open>fetch_update\<close> returns the previous value, and that is what the code compares.\<close>

definition account_existing :: "TempQuotaLedger \<Rightarrow> u64 \<Rightarrow> (TempQuotaError + unit) \<times> TempQuotaLedger" where
  "account_existing l n =
     (case checked_add (charged_bytes l) n of
        None \<Rightarrow> (Inl QuotaOverflow, l)
      | Some updated \<Rightarrow>
          (let next = charged_bytes l; l' = l\<lparr>charged_bytes := updated\<rparr> in
           if next > quota_bytes l'
           then (Inl QuotaExhausted, l'\<lparr>charged_bytes := charged_bytes l' - n\<rparr>)
           else (Inr (), l')))"

definition total_with :: "u64 \<Rightarrow> u64 \<Rightarrow> u64 \<Rightarrow> u64 option" where
  "total_with charged reserved n = Option.bind (checked_add charged reserved) (\<lambda>v. checked_add v n)"

definition reserve :: "TempQuotaLedger \<Rightarrow> u64 \<Rightarrow> (TempQuotaError + TempReservation) \<times> TempQuotaLedger" where
  "reserve l n =
     (if n = 0 then (Inr \<lparr>tr_reserved = 0, tr_charged = 0\<rparr>, l)
      else case total_with (charged_bytes l) (reserved_bytes l) n of
        None \<Rightarrow> (Inl QuotaOverflow, l)
      | Some t \<Rightarrow>
          if t > quota_bytes l then (Inl QuotaExhausted, l)
          else (Inr \<lparr>tr_reserved = n, tr_charged = 0\<rparr>, l\<lparr>reserved_bytes := reserved_bytes l + n\<rparr>))"

definition commit :: "TempQuotaLedger \<Rightarrow> u64 \<Rightarrow> (TempQuotaError + unit) \<times> TempQuotaLedger" where
  "commit l n =
     (if n = 0 then (Inr (), l)
      else
        let l1 = l\<lparr>reserved_bytes := reserved_bytes l - n\<rparr> in
        case checked_add (charged_bytes l1) n of
          None \<Rightarrow> (Inl QuotaOverflow, l1)
        | Some c \<Rightarrow> (Inr (), l1\<lparr>charged_bytes := c\<rparr>))"

definition release_reserved :: "TempQuotaLedger \<Rightarrow> u64 \<Rightarrow> TempQuotaLedger" where
  "release_reserved l n = (if n \<noteq> 0 then l\<lparr>reserved_bytes := reserved_bytes l - n\<rparr> else l)"

definition release_charged :: "TempQuotaLedger \<Rightarrow> u64 \<Rightarrow> TempQuotaLedger" where
  "release_charged l n = (if n \<noteq> 0 then l\<lparr>charged_bytes := charged_bytes l - n\<rparr> else l)"

definition drop_reservation :: "TempQuotaLedger \<Rightarrow> TempReservation \<Rightarrow> TempQuotaLedger" where
  "drop_reservation l r = release_charged (release_reserved l (tr_reserved r)) (tr_charged r)"

text \<open>When the sum overflows, the additional reservation is dropped on the way out.\<close>

definition reserve_additional ::
  "TempQuotaLedger \<Rightarrow> TempReservation \<Rightarrow> u64 \<Rightarrow> (TempQuotaError + unit) \<times> TempReservation \<times> TempQuotaLedger" where
  "reserve_additional l r n =
     (case reserve l n of
        (Inl e, l') \<Rightarrow> (Inl e, r, l')
      | (Inr additional, l') \<Rightarrow>
          (case checked_add (tr_reserved r) (tr_reserved additional) of
             None \<Rightarrow> (Inl QuotaOverflow, r, drop_reservation l' additional)
           | Some t \<Rightarrow> (Inr (), r\<lparr>tr_reserved := t\<rparr>, l')))"

definition commit_written ::
  "TempQuotaLedger \<Rightarrow> TempReservation \<Rightarrow> u64 \<Rightarrow> (TempQuotaError + unit) \<times> TempReservation \<times> TempQuotaLedger" where
  "commit_written l r n =
     (if n > tr_reserved r then (Inl QuotaOverflow, r, l)
      else case commit l n of
        (Inl e, l') \<Rightarrow> (Inl e, r, l')
      | (Inr _, l') \<Rightarrow>
          (let r1 = r\<lparr>tr_reserved := tr_reserved r - n\<rparr> in
           case checked_add (tr_charged r1) n of
             None \<Rightarrow> (Inl QuotaOverflow, r1, l')
           | Some c \<Rightarrow> (Inr (), r1\<lparr>tr_charged := c\<rparr>, l')))"

definition release_written ::
  "TempQuotaLedger \<Rightarrow> TempReservation \<Rightarrow> u64 \<Rightarrow> (TempQuotaError + unit) \<times> TempReservation \<times> TempQuotaLedger" where
  "release_written l r n =
     (if n > tr_charged r then (Inl QuotaOverflow, r, l)
      else (Inr (), r\<lparr>tr_charged := tr_charged r - n\<rparr>, release_charged l n))"

text \<open>The directory manager: \<open>available\<close> is the free space the host reports, if it does.\<close>

definition manager_reserve ::
  "u64 option \<Rightarrow> TempQuotaLedger \<Rightarrow> u64 \<Rightarrow> (TempQuotaError + TempReservation) \<times> TempQuotaLedger" where
  "manager_reserve available l n =
     (case total_with (min_free_bytes l) (reserved_bytes l) n of
        None \<Rightarrow> (Inl QuotaOverflow, l)
      | Some needed \<Rightarrow>
          if (case available of Some a \<Rightarrow> a | None \<Rightarrow> - 1) < needed then (Inl InsufficientFreeSpace, l)
          else reserve l n)"

definition NANOS_PER_MINUTE :: nat where
  "NANOS_PER_MINUTE = 60000000000"

definition rate_limit_period :: "u32 \<Rightarrow> nat option" where
  "rate_limit_period rpm = (if rpm = 0 then None else Some ((NANOS_PER_MINUTE + unat rpm - 1) div unat rpm))"

section \<open>Sequences of calls\<close>

record quota_system =
  qs_ledger :: TempQuotaLedger
  qs_live :: "TempReservation list"

datatype quota_call =
    Reserve u64
  | ReserveAdditional nat u64
  | CommitWritten nat u64
  | ReleaseWritten nat u64
  | DropReservation nat

definition set_live :: "nat \<Rightarrow> TempReservation \<Rightarrow> TempQuotaLedger \<Rightarrow> quota_system \<Rightarrow> quota_system" where
  "set_live i r l qs = \<lparr>qs_ledger = l, qs_live = (qs_live qs)[i := r]\<rparr>"

fun run_call :: "quota_call \<Rightarrow> quota_system \<Rightarrow> quota_system" where
  "run_call (Reserve n) qs =
     (case reserve (qs_ledger qs) n of
        (Inl _, l) \<Rightarrow> qs\<lparr>qs_ledger := l\<rparr>
      | (Inr r, l) \<Rightarrow> \<lparr>qs_ledger = l, qs_live = qs_live qs @ [r]\<rparr>)"
| "run_call (ReserveAdditional i n) qs =
     (if i < length (qs_live qs)
      then (case reserve_additional (qs_ledger qs) (qs_live qs ! i) n of (_, r, l) \<Rightarrow> set_live i r l qs) else qs)"
| "run_call (CommitWritten i n) qs =
     (if i < length (qs_live qs)
      then (case commit_written (qs_ledger qs) (qs_live qs ! i) n of (_, r, l) \<Rightarrow> set_live i r l qs) else qs)"
| "run_call (ReleaseWritten i n) qs =
     (if i < length (qs_live qs)
      then (case release_written (qs_ledger qs) (qs_live qs ! i) n of (_, r, l) \<Rightarrow> set_live i r l qs) else qs)"
| "run_call (DropReservation i) qs =
     (if i < length (qs_live qs)
      then \<lparr>qs_ledger = drop_reservation (qs_ledger qs) (qs_live qs ! i),
            qs_live = take i (qs_live qs) @ drop (Suc i) (qs_live qs)\<rparr> else qs)"

abbreviation held_reserved :: "TempReservation list \<Rightarrow> nat" where
  "held_reserved rs \<equiv> sum_list (map (\<lambda>r. unat (tr_reserved r)) rs)"

abbreviation held_charged :: "TempReservation list \<Rightarrow> nat" where
  "held_charged rs \<equiv> sum_list (map (\<lambda>r. unat (tr_charged r)) rs)"

text \<open>The counters say what is held, plus what was accounted at startup, within the bound.\<close>

definition quota_inv :: "nat \<Rightarrow> quota_system \<Rightarrow> bool" where
  "quota_inv existing qs \<longleftrightarrow>
     unat (reserved_bytes (qs_ledger qs)) = held_reserved (qs_live qs) \<and>
     unat (charged_bytes (qs_ledger qs)) = existing + held_charged (qs_live qs) \<and>
     unat (charged_bytes (qs_ledger qs)) + unat (reserved_bytes (qs_ledger qs)) \<le> max (unat (quota_bytes (qs_ledger qs))) existing"

lemma total_with_Some: "total_with a b n = Some t \<longleftrightarrow> unat a + unat b + unat n < 2 ^ 64 \<and> t = a + b + n"
  by (auto simp: total_with_def checked_add_Some unat_word_ariths bind_eq_Some_conv)

lemma unat_total_with: "total_with a b n = Some t \<Longrightarrow> unat t = unat a + unat b + unat n"
  by (auto simp: total_with_Some unat_word_ariths)

lemma reserve_Inr:
  assumes "reserve l n = (Inr r, l')"
  shows "r = \<lparr>tr_reserved = n, tr_charged = 0\<rparr> \<and> unat (reserved_bytes l') = unat (reserved_bytes l) + unat n \<and>
    charged_bytes l' = charged_bytes l \<and> quota_bytes l' = quota_bytes l \<and>
    (n = 0 \<or> unat (charged_bytes l) + unat (reserved_bytes l) + unat n \<le> unat (quota_bytes l))"
proof (cases "n = 0")
  case True
  with assms show ?thesis by (simp add: reserve_def)
next
  case False
  with assms obtain t where t: "total_with (charged_bytes l) (reserved_bytes l) n = Some t" "t \<le> quota_bytes l"
    "r = \<lparr>tr_reserved = n, tr_charged = 0\<rparr>" "l' = l\<lparr>reserved_bytes := reserved_bytes l + n\<rparr>"
    by (auto simp: reserve_def not_less split: option.splits if_splits)
  from t(1) have "unat (reserved_bytes l + n) = unat (reserved_bytes l) + unat n"
    by (auto simp: total_with_Some unat_word_ariths)
  with t unat_total_with [OF t(1)] show ?thesis by (simp add: word_le_nat_alt)
qed

lemma reserve_Inl: "reserve l n = (Inl e, l') \<Longrightarrow> l' = l"
  by (auto simp: reserve_def split: option.splits if_splits)

lemma held_le: "i < length rs \<Longrightarrow> unat (tr_reserved (rs ! i)) \<le> held_reserved rs \<and> unat (tr_charged (rs ! i)) \<le> held_charged rs"
  by (auto intro: member_le_sum_list)

lemma held_update:
  assumes "i < length rs"
  shows "held_reserved (rs[i := r]) + unat (tr_reserved (rs ! i)) = held_reserved rs + unat (tr_reserved r)"
    "held_charged (rs[i := r]) + unat (tr_charged (rs ! i)) = held_charged rs + unat (tr_charged r)"
  using assms held_le [OF assms] by (simp_all add: map_update sum_list_update)

lemma held_remove:
  assumes "i < length rs"
  shows "held_reserved (take i rs @ drop (Suc i) rs) + unat (tr_reserved (rs ! i)) = held_reserved rs"
    "held_charged (take i rs @ drop (Suc i) rs) + unat (tr_charged (rs ! i)) = held_charged rs"
proof -
  have "map f rs = map f (take i rs) @ f (rs ! i) # map f (drop (Suc i) rs)" for f :: "TempReservation \<Rightarrow> nat"
    using arg_cong [OF id_take_nth_drop [OF assms], of "map f"] by simp
  from this [of "\<lambda>r. unat (tr_reserved r)"] this [of "\<lambda>r. unat (tr_charged r)"]
  show "held_reserved (take i rs @ drop (Suc i) rs) + unat (tr_reserved (rs ! i)) = held_reserved rs"
    "held_charged (take i rs @ drop (Suc i) rs) + unat (tr_charged (rs ! i)) = held_charged rs" by simp_all
qed

lemma unat_minus: "unat b \<le> unat a \<Longrightarrow> unat (a - b) = unat a - unat b" for a b :: u64
  by (simp add: unat_sub word_le_nat_alt)

text \<open>What a call does to the counters and to its reservation, when the counters cover it.\<close>

definition covers :: "TempQuotaLedger \<Rightarrow> TempReservation \<Rightarrow> bool" where
  "covers l r \<longleftrightarrow> unat (tr_reserved r) \<le> unat (reserved_bytes l) \<and> unat (tr_charged r) \<le> unat (charged_bytes l) \<and>
     unat (charged_bytes l) + unat (reserved_bytes l) < 2 ^ 64"

lemma commit_written_spec:
  assumes "covers l r" "commit_written l r n = (res, r', l')"
  shows "quota_bytes l' = quota_bytes l \<and>
    (if n \<le> tr_reserved r
     then res = Inr () \<and> unat (tr_reserved r') = unat (tr_reserved r) - unat n \<and> unat (tr_charged r') = unat (tr_charged r) + unat n \<and>
       unat (reserved_bytes l') = unat (reserved_bytes l) - unat n \<and> unat (charged_bytes l') = unat (charged_bytes l) + unat n
     else r' = r \<and> l' = l \<and> res = Inl QuotaOverflow)"
proof (cases "n \<le> tr_reserved r")
  case True
  then have n: "unat n \<le> unat (tr_reserved r)" "unat n \<le> unat (reserved_bytes l)"
    using assms(1) by (auto simp: word_le_nat_alt covers_def)
  have c: "checked_add (charged_bytes l) n = Some (charged_bytes l + n)" "checked_add (tr_charged r) n = Some (tr_charged r + n)"
    using assms(1) n by (simp_all add: checked_add_def covers_def)
  have commit: "commit l n = (Inr (), l\<lparr>reserved_bytes := reserved_bytes l - n, charged_bytes := charged_bytes l + n\<rparr>)"
    using c(1) by (auto simp: commit_def)
  have "r' = r\<lparr>tr_reserved := tr_reserved r - n, tr_charged := tr_charged r + n\<rparr>" "res = Inr ()"
    "l' = l\<lparr>reserved_bytes := reserved_bytes l - n, charged_bytes := charged_bytes l + n\<rparr>"
    using assms(2) leD [OF True] c(2) by (simp_all add: commit_written_def commit Let_def)
  with True n unat_checked_add [OF c(1)] unat_checked_add [OF c(2)] show ?thesis by (simp add: unat_minus)
next
  case False
  then have "tr_reserved r < n" by simp
  with assms(2) False show ?thesis by (simp add: commit_written_def)
qed

lemma release_written_spec:
  assumes "covers l r" "release_written l r n = (res, r', l')"
  shows "quota_bytes l' = quota_bytes l \<and> tr_reserved r' = tr_reserved r \<and> reserved_bytes l' = reserved_bytes l \<and>
    (if n \<le> tr_charged r
     then unat (tr_charged r') = unat (tr_charged r) - unat n \<and> unat (charged_bytes l') = unat (charged_bytes l) - unat n
     else r' = r \<and> l' = l)"
proof (cases "n \<le> tr_charged r")
  case True
  then have "unat n \<le> unat (tr_charged r)" "unat n \<le> unat (charged_bytes l)"
    using assms(1) by (auto simp: word_le_nat_alt covers_def)
  moreover from leD [OF True] assms(2) have "r' = r\<lparr>tr_charged := tr_charged r - n\<rparr>" "l' = release_charged l n"
    by (auto simp: release_written_def)
  ultimately show ?thesis using True by (simp add: release_charged_def unat_minus)
next
  case False
  then have "tr_charged r < n" by simp
  with assms(2) False show ?thesis by (simp add: release_written_def)
qed

lemma drop_reservation_spec:
  assumes "covers l r"
  shows "quota_bytes (drop_reservation l r) = quota_bytes l \<and>
    unat (reserved_bytes (drop_reservation l r)) = unat (reserved_bytes l) - unat (tr_reserved r) \<and>
    unat (charged_bytes (drop_reservation l r)) = unat (charged_bytes l) - unat (tr_charged r)"
  using assms by (simp add: drop_reservation_def release_reserved_def release_charged_def unat_minus covers_def)

lemma reserve_additional_spec:
  assumes "reserve_additional l r n = (res, r', l')" "covers l r"
  shows "quota_bytes l' = quota_bytes l \<and> tr_charged r' = tr_charged r \<and> charged_bytes l' = charged_bytes l \<and>
    (res = Inr () \<and> unat (tr_reserved r') = unat (tr_reserved r) + unat n \<and>
      unat (reserved_bytes l') = unat (reserved_bytes l) + unat n \<and>
      (n = 0 \<or> unat (charged_bytes l) + unat (reserved_bytes l) + unat n \<le> unat (quota_bytes l)) \<or>
     r' = r \<and> unat (reserved_bytes l') = unat (reserved_bytes l))"
proof (cases "reserve l n")
  case (Pair a l1)
  show ?thesis
  proof (cases a)
    case (Inl e)
    with Pair assms(1) reserve_Inl show ?thesis by (auto simp: reserve_additional_def)
  next
    case (Inr add)
    with Pair reserve_Inr [of l n add l1] have
      r: "tr_reserved add = n" "unat (reserved_bytes l1) = unat (reserved_bytes l) + unat n"
      "charged_bytes l1 = charged_bytes l" "quota_bytes l1 = quota_bytes l"
      "n = 0 \<or> unat (charged_bytes l) + unat (reserved_bytes l) + unat n \<le> unat (quota_bytes l)" by auto
    have "unat (tr_reserved r) + unat n < 2 ^ 64"
      using assms(2) r(2) unat_u64_less [of "reserved_bytes l1"] by (simp add: covers_def)
    then have c: "checked_add (tr_reserved r) n = Some (tr_reserved r + n)" by (simp add: checked_add_def)
    with assms(1) Pair Inr r(1) have "res = Inr ()" "r' = r\<lparr>tr_reserved := tr_reserved r + n\<rparr>" "l' = l1"
      by (simp_all add: reserve_additional_def)
    with r unat_checked_add [OF c] show ?thesis by simp
  qed
qed

lemma quota_inv_covers: "quota_inv e qs \<Longrightarrow> e < 2 ^ 64 \<Longrightarrow> i < length (qs_live qs) \<Longrightarrow> covers (qs_ledger qs) (qs_live qs ! i)"
  using held_le [of i "qs_live qs"] unat_u64_less [of "quota_bytes (qs_ledger qs)"]
  by (auto simp: quota_inv_def covers_def)

lemma run_call_inv:
  assumes "quota_inv e qs" "e < 2 ^ 64"
  shows "quota_inv e (run_call c qs) \<and> quota_bytes (qs_ledger (run_call c qs)) = quota_bytes (qs_ledger qs)"
proof (cases c)
  case (Reserve n)
  obtain a l where r: "reserve (qs_ledger qs) n = (a, l)" by (metis surj_pair)
  show ?thesis
  proof (cases a)
    case (Inl x)
    with r reserve_Inl [of "qs_ledger qs" n x l] assms(1) Reserve show ?thesis by (simp add: quota_inv_def)
  next
    case (Inr y)
    with r reserve_Inr [of "qs_ledger qs" n y l] assms(1) Reserve show ?thesis
      by (auto simp: quota_inv_def)
  qed
next
  case (ReserveAdditional i n)
  show ?thesis
  proof (cases "i < length (qs_live qs)")
    case True
    obtain res r l where r: "reserve_additional (qs_ledger qs) (qs_live qs ! i) n = (res, r, l)" by (metis prod_cases3)
    note cov = quota_inv_covers [OF assms True]
    from reserve_additional_spec [OF r cov] held_update [OF True, of r] cov assms(1) True ReserveAdditional r show ?thesis
      by (auto simp: quota_inv_def set_live_def covers_def)
  qed (use assms ReserveAdditional in simp)
next
  case (CommitWritten i n)
  show ?thesis
  proof (cases "i < length (qs_live qs)")
    case True
    obtain res r l where r: "commit_written (qs_ledger qs) (qs_live qs ! i) n = (res, r, l)" by (metis prod_cases3)
    note cov = quota_inv_covers [OF assms True]
    from commit_written_spec [OF cov r] held_update [OF True, of r] cov assms(1) True CommitWritten r show ?thesis
      by (auto simp: quota_inv_def set_live_def covers_def word_le_nat_alt split: if_splits)
  qed (use assms CommitWritten in simp)
next
  case (ReleaseWritten i n)
  show ?thesis
  proof (cases "i < length (qs_live qs)")
    case True
    obtain res r l where r: "release_written (qs_ledger qs) (qs_live qs ! i) n = (res, r, l)" by (metis prod_cases3)
    note cov = quota_inv_covers [OF assms True]
    from release_written_spec [OF cov r] held_update [OF True, of r] cov assms(1) True ReleaseWritten r show ?thesis
      by (auto simp: quota_inv_def set_live_def covers_def word_le_nat_alt split: if_splits)
  qed (use assms ReleaseWritten in simp)
next
  case (DropReservation i)
  show ?thesis
  proof (cases "i < length (qs_live qs)")
    case True
    note cov = quota_inv_covers [OF assms True]
    from drop_reservation_spec [OF cov] held_remove [OF True] cov assms(1) True DropReservation show ?thesis
      by (auto simp: quota_inv_def covers_def)
  qed (use assms DropReservation in simp)
qed

section \<open>Interleaved atomic accesses\<close>

text \<open>
  Where a call of one reservation stands between its accesses to the shared counters: a
  reserve that has loaded one or both counters, a commit that has left the reserved counter
  but not yet entered the charged one, a drop that has given back the reserved part.
\<close>

datatype pc = Idle | LoadedCharged u64 u64 | LoadedBoth u64 u64 u64 | Committing u64 | Dropping

record holder =
  h_res :: TempReservation
  h_pc :: pc

record quota_config =
  qc_ledger :: TempQuotaLedger
  qc_holders :: "holder list"

definition set_holder :: "nat \<Rightarrow> holder \<Rightarrow> TempQuotaLedger \<Rightarrow> quota_config \<Rightarrow> quota_config" where
  "set_holder i h l q = \<lparr>qc_ledger = l, qc_holders = (qc_holders q)[i := h]\<rparr>"

text \<open>One atomic access of holder \<open>h\<close>: its new state and the new counters.\<close>

inductive access :: "TempQuotaLedger \<Rightarrow> holder \<Rightarrow> TempQuotaLedger \<Rightarrow> holder \<Rightarrow> bool" where
  load_charged: "n \<noteq> 0 \<Longrightarrow> h_pc h = Idle \<Longrightarrow> access l h l (h\<lparr>h_pc := LoadedCharged n (charged_bytes l)\<rparr>)"
| load_reserved: "h_pc h = LoadedCharged n c \<Longrightarrow> access l h l (h\<lparr>h_pc := LoadedBoth n c (reserved_bytes l)\<rparr>)"
| refused: "h_pc h = LoadedBoth n c r \<Longrightarrow> (\<And>t. total_with c r n = Some t \<Longrightarrow> quota_bytes l < t) \<Longrightarrow> access l h l (h\<lparr>h_pc := Idle\<rparr>)"
| exchanged: "h_pc h = LoadedBoth n c r \<Longrightarrow> total_with c r n = Some t \<Longrightarrow> t \<le> quota_bytes l \<Longrightarrow> reserved_bytes l = r \<Longrightarrow>
    access l h (l\<lparr>reserved_bytes := r + n\<rparr>) \<lparr>h_res = (h_res h)\<lparr>tr_reserved := tr_reserved (h_res h) + n\<rparr>, h_pc = Idle\<rparr>"
| lost_race: "h_pc h = LoadedBoth n c r \<Longrightarrow> reserved_bytes l \<noteq> r \<Longrightarrow> access l h l (h\<lparr>h_pc := LoadedCharged n (charged_bytes l)\<rparr>)"
| commit_leave: "h_pc h = Idle \<Longrightarrow> n \<noteq> 0 \<Longrightarrow> n \<le> tr_reserved (h_res h) \<Longrightarrow>
    access l h (l\<lparr>reserved_bytes := reserved_bytes l - n\<rparr>) (h\<lparr>h_pc := Committing n\<rparr>)"
| commit_enter: "h_pc h = Committing n \<Longrightarrow> checked_add (charged_bytes l) n = Some c \<Longrightarrow>
    access l h (l\<lparr>charged_bytes := c\<rparr>)
      \<lparr>h_res = \<lparr>tr_reserved = tr_reserved (h_res h) - n, tr_charged = tr_charged (h_res h) + n\<rparr>, h_pc = Idle\<rparr>"
| commit_overflow: "h_pc h = Committing n \<Longrightarrow> checked_add (charged_bytes l) n = None \<Longrightarrow> access l h l (h\<lparr>h_pc := Idle\<rparr>)"
| released: "h_pc h = Idle \<Longrightarrow> n \<le> tr_charged (h_res h) \<Longrightarrow>
    access l h (release_charged l n) (h\<lparr>h_res := (h_res h)\<lparr>tr_charged := tr_charged (h_res h) - n\<rparr>\<rparr>)"
| drop_leave: "h_pc h = Idle \<Longrightarrow>
    access l h (release_reserved l (tr_reserved (h_res h))) \<lparr>h_res = (h_res h)\<lparr>tr_reserved := 0\<rparr>, h_pc = Dropping\<rparr>"
| drop_end: "h_pc h = Dropping \<Longrightarrow>
    access l h (release_charged l (tr_charged (h_res h))) \<lparr>h_res = (h_res h)\<lparr>tr_charged := 0\<rparr>, h_pc = Idle\<rparr>"

inductive quota_reach :: "TempQuotaLedger \<Rightarrow> nat \<Rightarrow> quota_config \<Rightarrow> bool" for l0 m where
  start: "quota_reach l0 m \<lparr>qc_ledger = l0, qc_holders = replicate m \<lparr>h_res = \<lparr>tr_reserved = 0, tr_charged = 0\<rparr>, h_pc = Idle\<rparr>\<rparr>"
| step: "quota_reach l0 m q \<Longrightarrow> i < length (qc_holders q) \<Longrightarrow> access (qc_ledger q) (qc_holders q ! i) l' h' \<Longrightarrow>
    quota_reach l0 m (set_holder i h' l' q)"

text \<open>What a holder has in the reserved counter: not the bytes that have left it.\<close>

definition in_reserved :: "holder \<Rightarrow> nat" where
  "in_reserved h = unat (tr_reserved (h_res h)) - (case h_pc h of Committing n \<Rightarrow> unat n | _ \<Rightarrow> 0)"

definition in_charged :: "holder \<Rightarrow> nat" where
  "in_charged h = unat (tr_charged (h_res h))"

text \<open>A holder never holds more than the budget, and what it loaded covers what it has charged.\<close>

definition holder_ok :: "u64 \<Rightarrow> holder \<Rightarrow> bool" where
  "holder_ok quota h \<longleftrightarrow> unat (tr_reserved (h_res h)) + unat (tr_charged (h_res h)) \<le> unat quota \<and>
     (case h_pc h of
        LoadedCharged n c \<Rightarrow> unat (tr_charged (h_res h)) \<le> unat c
      | LoadedBoth n c r \<Rightarrow> unat (tr_charged (h_res h)) \<le> unat c
      | Committing n \<Rightarrow> n \<le> tr_reserved (h_res h)
      | _ \<Rightarrow> True)"

definition config_inv :: "u64 \<Rightarrow> nat \<Rightarrow> quota_config \<Rightarrow> bool" where
  "config_inv quota m q \<longleftrightarrow> length (qc_holders q) = m \<and> quota_bytes (qc_ledger q) = quota \<and>
     list_all (holder_ok quota) (qc_holders q) \<and>
     unat (reserved_bytes (qc_ledger q)) = sum_list (map in_reserved (qc_holders q)) \<and>
     unat (charged_bytes (qc_ledger q)) = sum_list (map in_charged (qc_holders q))"

text \<open>The effect of one access on the counters, given what the other holders have there.\<close>

definition step_ok :: "TempQuotaLedger \<Rightarrow> holder \<Rightarrow> TempQuotaLedger \<Rightarrow> holder \<Rightarrow> bool" where
  "step_ok l h l' h' \<longleftrightarrow> quota_bytes l' = quota_bytes l \<and> holder_ok (quota_bytes l) h' \<and>
     unat (reserved_bytes l') + in_reserved h = unat (reserved_bytes l) + in_reserved h' \<and>
     unat (charged_bytes l') + in_charged h = unat (charged_bytes l) + in_charged h'"

lemma access_ok:
  assumes "access l h l' h'" "holder_ok (quota_bytes l) h" "in_reserved h \<le> unat (reserved_bytes l)" "in_charged h \<le> unat (charged_bytes l)"
    and room: "unat (charged_bytes l) + unat (tr_reserved (h_res h)) < 2 ^ 64"
  shows "step_ok l h l' h'"
  using assms(1)
proof cases
  case (exchanged n c r t)
  note t = unat_total_with [OF exchanged(4)]
  have "unat (r + n) = unat r + unat n" using exchanged(4) by (auto simp: total_with_Some unat_word_ariths)
  moreover have sum: "unat (tr_reserved (h_res h)) + unat n + unat (tr_charged (h_res h)) \<le> unat (quota_bytes l)"
    using assms(2,3) exchanged(3,5,6) t by (simp add: holder_ok_def in_reserved_def word_le_nat_alt)
  then have "unat (tr_reserved (h_res h) + n) = unat (tr_reserved (h_res h)) + unat n"
    using unat_u64_less [of "quota_bytes l"] by (simp add: unat_word_ariths)
  ultimately show ?thesis using exchanged sum by (simp add: step_ok_def holder_ok_def in_reserved_def in_charged_def)
next
  case (commit_leave n)
  then have "unat n \<le> unat (tr_reserved (h_res h))" "unat n \<le> unat (reserved_bytes l)"
    using assms(3) by (auto simp: word_le_nat_alt in_reserved_def)
  with commit_leave assms(2) show ?thesis
    by (simp add: step_ok_def holder_ok_def in_reserved_def in_charged_def unat_minus assms(3) [unfolded in_reserved_def])
next
  case (commit_enter n c)
  have n: "unat n \<le> unat (tr_reserved (h_res h))" using assms(2) commit_enter(3) by (simp add: holder_ok_def word_le_nat_alt)
  have "unat (tr_charged (h_res h) + n) = unat (tr_charged (h_res h)) + unat n"
    using n assms(2) unat_u64_less [of "quota_bytes l"] by (simp add: holder_ok_def unat_word_ariths)
  with n commit_enter unat_checked_add [OF commit_enter(4)] assms(2) show ?thesis
    by (simp add: step_ok_def holder_ok_def in_reserved_def in_charged_def unat_minus)
next
  case (commit_overflow n)
  then have "unat n \<le> unat (tr_reserved (h_res h))" using assms(2) by (simp add: holder_ok_def word_le_nat_alt)
  with commit_overflow(4) room show ?thesis by (simp add: checked_add_def split: if_splits)
next
  case (released n)
  then have "unat n \<le> unat (tr_charged (h_res h))" "unat n \<le> unat (charged_bytes l)"
    using assms(4) by (auto simp: word_le_nat_alt in_charged_def)
  with released assms(2) show ?thesis
    by (simp add: step_ok_def holder_ok_def in_reserved_def in_charged_def unat_minus release_charged_def le_trans [OF diff_le_self])
next
  case drop_leave
  with assms(2,3) show ?thesis
    by (simp add: step_ok_def holder_ok_def in_reserved_def in_charged_def unat_minus release_reserved_def)
next
  case drop_end
  with assms(2,4) show ?thesis
    by (simp add: step_ok_def holder_ok_def in_reserved_def in_charged_def unat_minus release_charged_def)
qed (use assms(2,4) in \<open>auto simp: step_ok_def holder_ok_def in_reserved_def in_charged_def\<close>)

lemma sum_update:
  assumes "i < length xs"
  shows "sum_list (map f (xs[i := x])) + f (xs ! i) = sum_list (map f xs) + (f x :: nat)"
  using assms member_le_sum_list [of "f (xs ! i)" "map f xs"] by (simp add: map_update sum_list_update)

lemma holders_total:
  "list_all (holder_ok quota) hs \<Longrightarrow>
     sum_list (map in_charged hs) + sum_list (map (\<lambda>h. unat (tr_reserved (h_res h))) hs) \<le> length hs * unat quota"
  by (induction hs) (auto simp: holder_ok_def in_charged_def)

lemma quota_reach_inv:
  assumes "quota_reach l0 m q" "charged_bytes l0 = 0" "reserved_bytes l0 = 0" "m * unat (quota_bytes l0) < 2 ^ 64"
  shows "config_inv (quota_bytes l0) m q"
  using assms(1)
proof (induction rule: quota_reach.induct)
  case start
  show ?case using assms(2,3)
    by (simp add: config_inv_def list_all_iff holder_ok_def in_reserved_def in_charged_def sum_list_replicate map_replicate_const)
next
  case (step q i l' h')
  let ?h = "qc_holders q ! i"
  from step.IH have inv: "length (qc_holders q) = m" "quota_bytes (qc_ledger q) = quota_bytes l0"
    "list_all (holder_ok (quota_bytes l0)) (qc_holders q)"
    "unat (reserved_bytes (qc_ledger q)) = sum_list (map in_reserved (qc_holders q))"
    "unat (charged_bytes (qc_ledger q)) = sum_list (map in_charged (qc_holders q))"
    by (simp_all add: config_inv_def)
  have "in_reserved ?h \<le> unat (reserved_bytes (qc_ledger q))" "in_charged ?h \<le> unat (charged_bytes (qc_ledger q))"
    unfolding inv(4,5) using step.hyps(2) by (auto intro: member_le_sum_list)
  moreover have "unat (tr_reserved (h_res ?h)) \<le> sum_list (map (\<lambda>h. unat (tr_reserved (h_res h))) (qc_holders q))"
    using step.hyps(2) by (auto intro: member_le_sum_list)
  then have "unat (charged_bytes (qc_ledger q)) + unat (tr_reserved (h_res ?h)) < 2 ^ 64"
    using holders_total [OF inv(3)] inv(1,5) assms(4) by simp
  ultimately have "step_ok (qc_ledger q) ?h l' h'"
    using access_ok [OF step.hyps(3)] inv(2,3) step.hyps(2) by (simp add: list_all_length)
  with inv sum_update [OF step.hyps(2), of in_reserved h'] sum_update [OF step.hyps(2), of in_charged h'] step.hyps(2)
  show ?case by (auto simp: config_inv_def step_ok_def set_holder_def list_all_length nth_list_update)
qed

lemma config_total:
  assumes "config_inv quota m q"
  shows "unat (charged_bytes (qc_ledger q)) + unat (reserved_bytes (qc_ledger q)) \<le> m * unat quota"
proof -
  have "sum_list (map in_charged hs) + sum_list (map in_reserved hs) \<le> length hs * unat quota"
    if "list_all (holder_ok quota) hs" for hs
    using that by (induction hs) (auto simp: holder_ok_def in_charged_def in_reserved_def)
  from this [of "qc_holders q"] assms show ?thesis by (simp add: config_inv_def)
qed

section \<open>Properties\<close>

text \<open>
  The ledger under uninterrupted calls. After any sequence of reservations, extensions,
  commits, releases and drops on a ledger that accounted some existing bytes, the reserved
  counter is exactly what the live reservations have reserved, the charged counter is the
  existing bytes plus what they have written, and the sum stays within the budget, or within
  the existing bytes where those already exceed it. In particular no subtraction wraps and
  nothing leaks.
\<close>

theorem ledger_accounts_exactly:
  assumes "quota_inv existing qs" "existing < 2 ^ 64"
  shows "quota_inv existing (foldl (\<lambda>qs c. run_call c qs) qs calls)"
  using assms(1)
proof (induction calls arbitrary: qs)
  case (Cons c calls)
  from run_call_inv [OF Cons.prems assms(2)] Cons.IH show ?case by simp
qed simp

definition demo_system :: quota_system where
  "demo_system = \<lparr>qs_ledger = \<lparr>quota_bytes = 10, min_free_bytes = 1, charged_bytes = 0, reserved_bytes = 0\<rparr>, qs_live = []\<rparr>"

theorem ledger_accounts_exactly_witness:
  "quota_inv 0 (foldl (\<lambda>qs c. run_call c qs) demo_system [Reserve 6, CommitWritten 0 4, Reserve 5, DropReservation 0, Reserve 5])"
proof -
  have "quota_inv 0 demo_system" by (simp add: quota_inv_def demo_system_def)
  then show ?thesis by (rule ledger_accounts_exactly) simp
qed


text \<open>The interleaving: one reservation is between the two accesses of its commit while the other reserves.\<close>

abbreviation at_pc :: "u64 \<Rightarrow> u64 \<Rightarrow> pc \<Rightarrow> holder" where
  "at_pc r c p \<equiv> \<lparr>h_res = \<lparr>tr_reserved = r, tr_charged = c\<rparr>, h_pc = p\<rparr>"

definition race_ledger :: TempQuotaLedger where
  "race_ledger = \<lparr>quota_bytes = 10, min_free_bytes = 1, charged_bytes = 0, reserved_bytes = 0\<rparr>"

lemma race_step:
  assumes "quota_reach race_ledger 2 \<lparr>qc_ledger = l, qc_holders = hs\<rparr>" "access l (hs ! i) l1 h1" "i < length hs"
    "l' = l1" "hs' = hs[i := h1]"
  shows "quota_reach race_ledger 2 \<lparr>qc_ledger = l', qc_holders = hs'\<rparr>"
  using quota_reach.step [OF assms(1), of i l1 h1] assms(2-5) by (simp add: set_holder_def)

lemma race_reserve:
  assumes "quota_reach race_ledger 2 \<lparr>qc_ledger = race_ledger, qc_holders = hs\<rparr>" "i < length hs" "hs ! i = at_pc 0 0 Idle"
  shows "quota_reach race_ledger 2 \<lparr>qc_ledger = race_ledger\<lparr>reserved_bytes := 10\<rparr>, qc_holders = hs[i := at_pc 10 0 Idle]\<rparr>"
proof -
  have 1: "quota_reach race_ledger 2 \<lparr>qc_ledger = race_ledger, qc_holders = hs[i := at_pc 0 0 (LoadedCharged 10 0)]\<rparr>"
    by (rule race_step [OF assms(1) load_charged [of 10], where i = i]) (simp_all add: assms(2,3) race_ledger_def)
  have 2: "quota_reach race_ledger 2 \<lparr>qc_ledger = race_ledger, qc_holders = hs[i := at_pc 0 0 (LoadedBoth 10 0 0)]\<rparr>"
    by (rule race_step [OF 1 load_reserved, where i = i]) (simp_all add: assms(2) race_ledger_def)
  show ?thesis
    by (rule race_step [OF 2 exchanged [where n = 10 and c = 0 and r = 0 and t = 10], where i = i]) (simp_all add: assms(2) race_ledger_def total_with_def checked_add_def)
qed

lemma race_reachable:
  "quota_reach race_ledger 2 \<lparr>qc_ledger = race_ledger\<lparr>reserved_bytes := 10, charged_bytes := 10\<rparr>,
     qc_holders = [at_pc 0 10 Idle, at_pc 10 0 Idle]\<rparr>"
proof -
  have 0: "quota_reach race_ledger 2 \<lparr>qc_ledger = race_ledger, qc_holders = [at_pc 0 0 Idle, at_pc 0 0 Idle]\<rparr>"
    using quota_reach.start [of race_ledger 2] by (simp add: numeral_2_eq_2)
  have 1: "quota_reach race_ledger 2 \<lparr>qc_ledger = race_ledger\<lparr>reserved_bytes := 10\<rparr>, qc_holders = [at_pc 10 0 Idle, at_pc 0 0 Idle]\<rparr>"
    using race_reserve [OF 0, of 0] by simp
  have 2: "quota_reach race_ledger 2 \<lparr>qc_ledger = race_ledger, qc_holders = [at_pc 10 0 (Committing 10), at_pc 0 0 Idle]\<rparr>"
    by (rule race_step [OF 1 commit_leave [of _ 10], where i = 0]) (simp_all add: race_ledger_def)
  have 3: "quota_reach race_ledger 2 \<lparr>qc_ledger = race_ledger\<lparr>reserved_bytes := 10\<rparr>, qc_holders = [at_pc 10 0 (Committing 10), at_pc 10 0 Idle]\<rparr>"
    using race_reserve [OF 2, of 1] by simp
  show ?thesis
    by (rule race_step [OF 3 commit_enter [of _ 10], where i = 0]) (simp_all add: race_ledger_def checked_add_def)
qed


text \<open>
  The budget itself is not kept under concurrent calls, and the bound above is tight: with two
  reservations on a ledger with a budget of ten bytes, one committing ten bytes while the
  other reserves ten, both calls succeed and the counters add up to twice the budget.
\<close>

theorem concurrent_budget_exceeded:
  "\<exists>q. quota_reach race_ledger 2 q \<and> list_all (\<lambda>h. h_pc h = Idle) (qc_holders q) \<and>
     unat (charged_bytes (qc_ledger q)) + unat (reserved_bytes (qc_ledger q)) = 2 * unat (quota_bytes race_ledger) \<and>
     unat (quota_bytes race_ledger) = 10"
  by (rule exI, rule conjI, rule race_reachable) (simp add: race_ledger_def)

text \<open>
  Accounting for bytes left by an earlier run compares the previous value of the counter,
  not the new one: on a ledger that is within its budget every amount that does not overflow
  is accepted, even one far above the budget, and after that every reservation is refused.
\<close>

theorem account_existing_accepts_any_amount:
  assumes "charged_bytes l \<le> quota_bytes l" "unat (charged_bytes l) + unat n < 2 ^ 64"
  shows "account_existing l n = (Inr (), l\<lparr>charged_bytes := charged_bytes l + n\<rparr>) \<and>
    (unat (charged_bytes l) + unat n > unat (quota_bytes l) \<longrightarrow> k \<noteq> 0 \<longrightarrow>
      (\<exists>e. fst (reserve (snd (account_existing l n)) k) = Inl e))"
proof -
  have a: "account_existing l n = (Inr (), l\<lparr>charged_bytes := charged_bytes l + n\<rparr>)"
    using assms by (simp add: account_existing_def checked_add_def Let_def leD)
  moreover have "\<exists>e. fst (reserve (l\<lparr>charged_bytes := charged_bytes l + n\<rparr>) k) = Inl e"
    if big: "unat (charged_bytes l) + unat n > unat (quota_bytes l)" "k \<noteq> 0"
  proof (cases "reserve (l\<lparr>charged_bytes := charged_bytes l + n\<rparr>) k")
    case (Pair res l')
    have sum: "unat (charged_bytes l + n) = unat (charged_bytes l) + unat n" using assms(2) by (simp add: unat_word_ariths)
    show ?thesis
    proof (cases res)
      case (Inr r)
      with Pair reserve_Inr [of "l\<lparr>charged_bytes := charged_bytes l + n\<rparr>" k r l'] big sum show ?thesis by simp
    qed (use Pair in simp)
  qed
  ultimately show ?thesis by simp
qed

theorem account_existing_accepts_any_amount_witness:
  "account_existing race_ledger 1000 = (Inr (), race_ledger\<lparr>charged_bytes := 1000\<rparr>)"
  using account_existing_accepts_any_amount [of race_ledger 1000 1] by (simp add: race_ledger_def)

end
