(* ===== verification/Conversion.thy ===== *)
theory Conversion
  imports Reconstruction_IO Object_Store Temp_Quota
begin

text \<open>
  The conversion pipeline of \<^verbatim>\<open>src/src/conversion/mod.rs\<close>: a raw blob is read in blocks, cut into
  chunks by the streaming chunker, packed into one xorb, described by a shard, both are stored
  and registered in the index, and the raw blob is deleted. The storage backend, the metadata
  index and the ledger for temporary space are the state; how the host splits a file into
  reads and the free space it reports are parameters. The writes of the temporary directory
  do not fail, and an object key that names a directory is treated as a missing object.

  The lemmas follow the data from the blob to the stored objects, and the last section
  composes them with the reconstruction: whatever happens during a conversion, the bytes of
  the blob stay available.
\<close>

section \<open>Configuration, errors and state\<close>

record ConversionConfig =
  cc_enabled :: bool
  cc_compression_scheme :: string
  delete_raw_after_conversion :: bool
  min_conversion_size :: u64
  max_conversion_size :: u64
  cc_concurrency :: nat
  cc_queue_capacity :: nat

definition to_lowercase :: "string \<Rightarrow> string" where
  "to_lowercase = map (\<lambda>c. let n = of_char c :: nat in if 65 \<le> n \<and> n \<le> 90 then char_of (n + 32) else c)"

definition scheme :: "ConversionConfig \<Rightarrow> CompressionScheme xresult" where
  "scheme config =
     (let name = to_lowercase (cc_compression_scheme config) in
      if name = ''none'' then Inr CNone
      else if name = ''lz4'' then Inr LZ4
      else if name = ''bg4lz4'' then Inr ByteGrouping4LZ4
      else Inl (Panic ''conversion scheme must be validated at configuration load time''))"

datatype ConversionError =
    CNotFound string
  | CStorageError string
  | CChunkingError string
  | CBuildError string
  | TooSmall nat
  | TooLarge nat
  | CDisabled
  | CPanic string

record ConversionResult =
  cr_xorb_hash :: string
  cr_shard_hash :: string
  cr_num_chunks :: nat
  cr_num_deduped_chunks :: nat
  cr_raw_size :: nat
  cr_xorb_size :: u64

record 's ConversionPipeline =
  pl_storage :: 's
  pl_index :: MetadataIndex
  pl_ledger :: TempQuotaLedger

text \<open>What the pipeline calls: crates, rolling hash, backend, and the host's answers.\<close>

record ('s, 'u) conversion_env =
  ce_crates :: crates
  ce_gear :: gear
  ce_backend :: "('s, 'u) StorageBackend"
  ce_reads :: "bytes \<Rightarrow> bytes list"
  ce_available :: "u64 option"

definition CONVERSION_BLOCK_SIZE :: nat where
  "CONVERSION_BLOCK_SIZE = 1024 * 1024"

text \<open>Reading a file to its end returns its content in non-empty blocks no longer than the buffer.\<close>

definition read_contract :: "(bytes \<Rightarrow> bytes list) \<Rightarrow> bool" where
  "read_contract reads \<longleftrightarrow>
     (\<forall>d. concat (reads d) = d \<and> list_all (\<lambda>b. b \<noteq> [] \<and> length b \<le> CONVERSION_BLOCK_SIZE) (reads d))"

section \<open>Opening the blob\<close>

definition quota_message :: "TempQuotaError \<Rightarrow> string" where
  "quota_message e = (case e of QuotaOverflow \<Rightarrow> ''temporary quota arithmetic overflow'' | _ \<Rightarrow> ''temporary storage unavailable'')"

text \<open>
  The path to read, as the content found there, the reservation of the temporary copy, and
  the ledger. A reservation is dropped on every error path.
\<close>

definition open_blob_for_streaming ::
  "('s, 'u) conversion_env \<Rightarrow> 's ConversionPipeline \<Rightarrow> string \<Rightarrow>
     (ConversionError + (bytes option \<times> TempReservation option)) \<times> TempQuotaLedger" where
  "open_blob_for_streaming E pl object_key =
     (let S = ce_backend E; s = pl_storage pl; l = pl_ledger pl in
      case get_path S s object_key of
        Inr (Some path) \<Rightarrow> (Inr (path, None), l)
      | _ \<Rightarrow>
          (case get_size S s object_key of
             Inl _ \<Rightarrow> (Inl (CStorageError ''Failed to stat blob''), l)
           | Inr expected_size \<Rightarrow>
               (case manager_reserve (ce_available E) l (of_nat expected_size) of
                  (Inl e, l1) \<Rightarrow> (Inl (CStorageError (quota_message e)), l1)
                | (Inr reservation, l1) \<Rightarrow>
                    (case fst (download_to_path_with_retries (\<lambda>_. download_to_path S s object_key)) of
                       Inl _ \<Rightarrow> (Inl (CStorageError ''Failed to download blob to temp file''), drop_reservation l1 reservation)
                     | Inr data \<Rightarrow>
                         if length data \<noteq> expected_size
                         then (Inl (CStorageError ''downloaded blob size mismatch''), drop_reservation l1 reservation)
                         else
                           (case commit_written l1 reservation (of_nat expected_size) of
                              (Inl _, reservation, l2) \<Rightarrow>
                                (Inl (CStorageError ''temporary quota''), drop_reservation l2 reservation)
                            | (Inr _, reservation, l2) \<Rightarrow> (Inr (Some data, Some reservation), l2))))))"

section \<open>Chunking the blob\<close>

record conversion_state =
  cv_builder :: XorbBuilder
  cv_num_deduped :: nat
  cv_num_chunks :: nat
  cv_chunk_entries :: "XorbChunkBuildEntry list"
  cv_raw_chunk_hashes :: "merkle_hash list"
  cv_cumulative_uncompressed :: u32
  cv_xorb_offset :: u32
  cv_chunk_data_buf :: bytes

definition conversion_state_new :: "CompressionScheme \<Rightarrow> conversion_state" where
  "conversion_state_new sch = \<lparr>cv_builder = builder_new sch, cv_num_deduped = 0, cv_num_chunks = 0, cv_chunk_entries = [],
     cv_raw_chunk_hashes = [], cv_cumulative_uncompressed = 0, cv_xorb_offset = 0, cv_chunk_data_buf = []\<rparr>"

text \<open>One chunk: its data stands at the start of the buffer and is drained from it.\<close>

definition process_chunk ::
  "crates \<Rightarrow> MetadataIndex \<Rightarrow> conversion_state \<Rightarrow> chunk \<Rightarrow> ConversionError + conversion_state" where
  "process_chunk C idx st chunk =
     (if c_size chunk > length (cv_chunk_data_buf st) then Inl (CPanic ''range end index out of range'')
      else
        let chunk_data = take (c_size chunk) (cv_chunk_data_buf st);
            unpacked_size = of_nat (c_size chunk);
            chunk_hash = compute_data_hash C chunk_data
        in rbind (map_err (\<lambda>_. CBuildError ''Add chunk failed'') (add_chunk C (cv_builder st) chunk_data))
             (\<lambda>((serialized_chunk_hash, compressed_len), builder).
             Inr \<lparr>cv_builder = builder,
                  cv_num_deduped = cv_num_deduped st + (if chunk_exists idx chunk_hash then 1 else 0),
                  cv_num_chunks = cv_num_chunks st + 1,
                  cv_chunk_entries = cv_chunk_entries st @
                    [\<lparr>xc_chunk_hash = serialized_chunk_hash, xc_chunk_byte_range_start = cv_xorb_offset st,
                      xc_unpacked_segment_bytes = unpacked_size\<rparr>],
                  cv_raw_chunk_hashes = cv_raw_chunk_hashes st @ [chunk_hash],
                  cv_cumulative_uncompressed = cv_cumulative_uncompressed st + unpacked_size,
                  cv_xorb_offset = cv_xorb_offset st + (8 + compressed_len),
                  cv_chunk_data_buf = drop (c_size chunk) (cv_chunk_data_buf st)\<rparr>))"

fun process_chunks ::
  "crates \<Rightarrow> MetadataIndex \<Rightarrow> conversion_state \<Rightarrow> chunk list \<Rightarrow> ConversionError + conversion_state" where
  "process_chunks C idx st [] = Inr st"
| "process_chunks C idx st (c # cs) = rbind (process_chunk C idx st c) (\<lambda>st. process_chunks C idx st cs)"

text \<open>The read loop and the finalization; \<open>None\<close> is a chunker that does not return.\<close>

fun read_loop ::
  "crates \<Rightarrow> gear \<Rightarrow> MetadataIndex \<Rightarrow> StreamingChunker \<Rightarrow> conversion_state \<Rightarrow> bytes list \<Rightarrow>
     (ConversionError + conversion_state) option" where
  "read_loop C g idx sc st [] =
     map_option (process_chunks C idx st) (sc_finalize g sc)"
| "read_loop C g idx sc st (block # blocks) =
     (case next_block g sc block of
        None \<Rightarrow> None
      | Some (Inl _) \<Rightarrow> Some (Inl (CPanic ''streaming chunker''))
      | Some (Inr (new_chunks, sc)) \<Rightarrow>
          (case process_chunks C idx (st\<lparr>cv_chunk_data_buf := cv_chunk_data_buf st @ block\<rparr>) new_chunks of
             Inl e \<Rightarrow> Some (Inl e)
           | Inr st \<Rightarrow> read_loop C g idx sc st blocks))"

definition chunk_blob ::
  "('s, 'u) conversion_env \<Rightarrow> ConversionConfig \<Rightarrow> MetadataIndex \<Rightarrow> bytes \<Rightarrow> (ConversionError + conversion_state) option" where
  "chunk_blob E config idx blob =
     (case rbind (scheme config) (\<lambda>sch. rbind (streaming_new config_new) (\<lambda>sc. Inr (sch, sc))) of
        Inl _ \<Rightarrow> Some (Inl (CPanic ''conversion setup''))
      | Inr (sch, sc) \<Rightarrow>
          read_loop (ce_crates E) (ce_gear E) idx sc (conversion_state_new sch) (ce_reads E blob))"

section \<open>Storing the result\<close>

definition store_xorb ::
  "('s, 'u) StorageBackend \<Rightarrow> 'u \<Rightarrow> 's \<Rightarrow> string \<Rightarrow> bytes \<Rightarrow> (ConversionError + unit) \<times> 's" where
  "store_xorb S u s key data =
     (case obj_exists S s key of
        Inl _ \<Rightarrow> (Inl (CStorageError ''exists''), s)
      | Inr True \<Rightarrow> (Inr (), s)
      | Inr False \<Rightarrow>
          (case put S u s key data of
             (Inl _, s') \<Rightarrow> (Inl (CStorageError ''Failed to store xorb''), s')
           | (Inr _, s') \<Rightarrow> (Inr (), s')))"

definition verified_chunks_of :: "merkle_hash \<Rightarrow> merkle_hash list \<Rightarrow> VerifiedChunkMapping list" where
  "verified_chunks_of xorb raw_chunk_hashes =
     map (\<lambda>(i, h). \<lparr>vc_chunk_hash = h, vc_xorb_hash = xorb, vc_chunk_index = of_nat i\<rparr>) (enumerate 0 raw_chunk_hashes)"

definition shard_of_conversion ::
  "crates \<Rightarrow> XorbBuildResult \<Rightarrow> conversion_state \<Rightarrow> merkle_hash \<Rightarrow> ConversionError + bytes" where
  "shard_of_conversion C xr cv target =
     rbind (map_err (\<lambda>_. CBuildError ''Add xorb to shard failed'')
       (add_xorb_with_raw_chunk_hashes sb_new (xr_xorb_hash xr) (ucast (total_uncompressed_size xr))
          (ucast (total_compressed_size xr)) (cv_chunk_entries cv) (cv_raw_chunk_hashes cv)))
       (\<lambda>(xorb_index, shard_builder).
     let segment = \<lparr>fs_xorb_hash = xr_xorb_hash xr, fs_xorb_index = xorb_index, fs_chunk_index_start = 0,
                    fs_chunk_index_end = of_nat (cv_num_chunks cv),
                    fs_unpacked_segment_bytes = cv_cumulative_uncompressed cv\<rparr>
     in map_err (\<lambda>_. CBuildError ''Shard build failed'') (sb_build C (add_file shard_builder target [segment])))"

definition object_key_of :: "string \<Rightarrow> string" where
  "object_key_of oid = ''lfs/objects/'' @ oid"

text \<open>Steps 4 to 10: build and store the xorb and the shard, register, delete the raw blob.\<close>

definition store_converted ::
  "('s, 'u) conversion_env \<Rightarrow> ConversionConfig \<Rightarrow> 'u \<Rightarrow> 'u \<Rightarrow> string \<Rightarrow> nat \<Rightarrow> conversion_state \<Rightarrow>
     's ConversionPipeline \<Rightarrow> (ConversionError + ConversionResult) \<times> 's ConversionPipeline" where
  "store_converted E config u1 u2 oid raw_size cv pl =
     (let C = ce_crates E; S = ce_backend E in
      case build C (cv_builder cv) of
        Inl _ \<Rightarrow> (Inl (CBuildError ''Xorb build failed''), pl)
      | Inr xr \<Rightarrow>
      (case store_xorb S u1 (pl_storage pl) (xorb_key C (xr_xorb_hash xr)) (xr_data xr) of
        (Inl e, s1) \<Rightarrow> (Inl e, pl\<lparr>pl_storage := s1\<rparr>)
      | (Inr _, s1) \<Rightarrow>
      (case mh_from_hex C oid of
        Inl _ \<Rightarrow> (Inl (CBuildError ''Invalid OID as MerkleHash''), pl\<lparr>pl_storage := s1\<rparr>)
      | Inr target \<Rightarrow>
      (case shard_of_conversion C xr cv target of
        Inl e \<Rightarrow> (Inl e, pl\<lparr>pl_storage := s1\<rparr>)
      | Inr shard_data \<Rightarrow>
      (let shard_hash = mh_to_hex C (compute_data_hash C shard_data) in
      case put S u2 s1 (''shards/'' @ shard_hash) shard_data of
        (Inl _, s2) \<Rightarrow> (Inl (CStorageError ''Failed to store shard''), pl\<lparr>pl_storage := s2\<rparr>)
      | (Inr _, s2) \<Rightarrow>
      (case register_verified_shard (pl_index pl)
              \<lparr>reg_shard_id = shard_hash,
               reg_files = [\<lparr>vf_file_hash = target, vf_file_index = 0, vf_file_size = raw_size\<rparr>],
               reg_chunks = verified_chunks_of (xr_xorb_hash xr) (cv_raw_chunk_hashes cv)\<rparr> of
        (Inl _, idx) \<Rightarrow>
          (Inl (CBuildError ''Metadata index rejected converted file''), pl\<lparr>pl_storage := s2, pl_index := idx\<rparr>)
      | (Inr _, idx) \<Rightarrow>
          (Inr \<lparr>cr_xorb_hash = mh_to_hex C (xr_xorb_hash xr), cr_shard_hash = shard_hash, cr_num_chunks = cv_num_chunks cv,
                cr_num_deduped_chunks = cv_num_deduped cv, cr_raw_size = raw_size, cr_xorb_size = total_compressed_size xr\<rparr>,
           pl\<lparr>pl_storage := if delete_raw_after_conversion config then snd (delete S s2 (object_key_of oid)) else s2,
              pl_index := idx\<rparr>)))))))"

definition check_bounds :: "ConversionConfig \<Rightarrow> nat \<Rightarrow> ConversionError + unit" where
  "check_bounds config sz =
     (if sz < unat (min_conversion_size config) then Inl (TooSmall sz)
      else if sz > unat (max_conversion_size config) then Inl (TooLarge sz)
      else Inr ())"

text \<open>Before a remote object is staged, its size is checked; a backend with paths is checked after opening.\<close>

definition check_remote :: "('s, 'u) conversion_env \<Rightarrow> ConversionConfig \<Rightarrow> 's \<Rightarrow> string \<Rightarrow> ConversionError + unit" where
  "check_remote E config s object_key =
     (case get_path (ce_backend E) s object_key of
        Inr (Some _) \<Rightarrow> Inr ()
      | _ \<Rightarrow>
          rbind (map_err (\<lambda>_. CStorageError ''Failed to stat blob'') (get_size (ce_backend E) s object_key))
            (check_bounds config))"

definition release_guard :: "TempReservation option \<Rightarrow> 's ConversionPipeline \<Rightarrow> 's ConversionPipeline" where
  "release_guard guard pl =
     (case guard of None \<Rightarrow> pl | Some reservation \<Rightarrow> pl\<lparr>pl_ledger := drop_reservation (pl_ledger pl) reservation\<rparr>)"

definition convert ::
  "('s, 'u) conversion_env \<Rightarrow> ConversionConfig \<Rightarrow> 'u \<Rightarrow> 'u \<Rightarrow> string \<Rightarrow> 's ConversionPipeline \<Rightarrow>
     ((ConversionError + ConversionResult) \<times> 's ConversionPipeline) option" where
  "convert E config u1 u2 oid pl =
     (if \<not> cc_enabled config then Some (Inl CDisabled, pl)
      else
        let object_key = object_key_of oid in
        case check_remote E config (pl_storage pl) object_key of
          Inl e \<Rightarrow> Some (Inl e, pl)
        | Inr _ \<Rightarrow>
            (case open_blob_for_streaming E pl object_key of
               (Inl e, l) \<Rightarrow> Some (Inl e, pl\<lparr>pl_ledger := l\<rparr>)
             | (Inr (path, guard), l) \<Rightarrow>
                 map_option (map_prod id (release_guard guard))
                   (let pl = pl\<lparr>pl_ledger := l\<rparr> in
                    case path of
                      None \<Rightarrow> Some (Inl (CStorageError ''Failed to stat blob''), pl)
                    | Some blob \<Rightarrow>
                        (case check_bounds config (length blob) of
                           Inl e \<Rightarrow> Some (Inl e, pl)
                         | Inr _ \<Rightarrow>
                             (case chunk_blob E config (pl_index pl) blob of
                                None \<Rightarrow> None
                              | Some (Inl e) \<Rightarrow> Some (Inl e, pl)
                              | Some (Inr cv) \<Rightarrow> Some (store_converted E config u1 u2 oid (length blob) cv pl))))))"

section \<open>What the chunk loop computes\<close>

text \<open>The chunks of a byte string cut at the given sizes.\<close>

fun cut_by :: "nat list \<Rightarrow> bytes \<Rightarrow> bytes list" where
  "cut_by [] d = []"
| "cut_by (n # ns) d = take n d # cut_by ns (drop n d)"

lemma cut_by_append: "cut_by (ms @ ns) d = cut_by ms d @ cut_by ns (drop (sum_list ms) d)"
  by (induction ms arbitrary: d) (simp_all add: add.commute)

lemma cut_by_prefix: "sum_list ns \<le> length d \<Longrightarrow> cut_by ns (d @ e) = cut_by ns d"
  by (induction ns arbitrary: d) simp_all

lemma concat_cut_by: "concat (cut_by ns d) = take (sum_list ns) d"
  by (induction ns arbitrary: d) (simp_all add: take_add)

lemma cut_by_lengths: "sum_list ns \<le> length d \<Longrightarrow> map length (cut_by ns d) = ns"
  by (induction ns arbitrary: d) simp_all

text \<open>The effect of one chunk, as a function of its bytes.\<close>

definition push_raw :: "crates \<Rightarrow> MetadataIndex \<Rightarrow> conversion_state \<Rightarrow> bytes \<Rightarrow> conversion_state" where
  "push_raw C idx st raw =
     (let s = xb_scheme (cv_builder st); h = compute_data_hash C raw in
      \<lparr>cv_builder = snd (projr (add_chunk C (cv_builder st) raw)),
       cv_num_deduped = cv_num_deduped st + (if chunk_exists idx h then 1 else 0),
       cv_num_chunks = cv_num_chunks st + 1,
       cv_chunk_entries = cv_chunk_entries st @
         [\<lparr>xc_chunk_hash = compute_data_hash C (piece_of C s raw), xc_chunk_byte_range_start = cv_xorb_offset st,
           xc_unpacked_segment_bytes = of_nat (length raw)\<rparr>],
       cv_raw_chunk_hashes = cv_raw_chunk_hashes st @ [h],
       cv_cumulative_uncompressed = cv_cumulative_uncompressed st + of_nat (length raw),
       cv_xorb_offset = cv_xorb_offset st + of_nat (length (piece_of C s raw)),
       cv_chunk_data_buf = drop (length raw) (cv_chunk_data_buf st)\<rparr>)"

lemma piece_of_length: "length (piece_of C s d) = 8 + length (compressed_of C s d)"
  by (simp add: piece_of_def)

lemma process_chunk_eq:
  "c_size c \<le> length (cv_chunk_data_buf st) \<Longrightarrow>
     process_chunk C idx st c = Inr (push_raw C idx st (take (c_size c) (cv_chunk_data_buf st)))"
  by (simp add: process_chunk_def push_raw_def add_chunk_eq Let_def piece_of_length min_absorb2)

lemma push_raw_buf [simp]: "cv_chunk_data_buf (push_raw C idx st raw) = drop (length raw) (cv_chunk_data_buf st)"
  by (simp add: push_raw_def Let_def)

lemma process_chunks_eq:
  "sum_list (map c_size cs) \<le> length (cv_chunk_data_buf st) \<Longrightarrow>
     process_chunks C idx st cs = Inr (foldl (push_raw C idx) st (cut_by (map c_size cs) (cv_chunk_data_buf st)))"
proof (induction cs arbitrary: st)
  case (Cons c cs)
  have "c_size c \<le> length (cv_chunk_data_buf st)" using Cons.prems by simp
  with Cons show ?case by (simp add: process_chunk_eq min_absorb2)
qed simp

lemma push_raws_buf:
  "cv_chunk_data_buf (foldl (push_raw C idx) st raws) = drop (length (concat raws)) (cv_chunk_data_buf st)"
  by (induction raws arbitrary: st) (simp_all add: add.commute)

text \<open>The chunker's own buffer loses exactly the emitted chunks.\<close>

lemma drain_buffer:
  "drain_complete_chunks g s = Some (Inr (cs, t)) \<Longrightarrow>
     sc_buffer t = drop (sum_list (map c_size cs)) (sc_buffer s) \<and> sum_list (map c_size cs) \<le> length (sc_buffer s)"
proof -
  have "\<forall>cs t. r = Inr (cs, t) \<longrightarrow>
      sc_buffer t = drop (sum_list (map c_size cs)) (sc_buffer s) \<and> sum_list (map c_size cs) \<le> length (sc_buffer s)"
    if "drain_complete_chunks g s = Some r" for r
    using that
  proof (induction rule: drain_complete_chunks.raw_induct [rotated, consumes 1])
    case (1 drain g s r)
    show ?case
    proof (intro allI impI)
      fix cs t assume r: "r = Inr (cs, t)"
      show "sc_buffer t = drop (sum_list (map c_size cs)) (sc_buffer s) \<and> sum_list (map c_size cs) \<le> length (sc_buffer s)"
      proof (cases "length (sc_buffer s) < sc_max_chunk s")
        case True
        then show ?thesis using 1(2) r by (auto simp: Let_def split: if_splits)
      next
        case False
        define k where "k = max (case fst (g (sc_hash s) (take (sc_max_chunk s - (sc_min_chunk s - (64 + 1)))
            (drop (sc_min_chunk s - (64 + 1)) (sc_buffer s))) (sc_mask s)) of
            Some pos \<Rightarrow> sc_min_chunk s - (64 + 1) + pos | None \<Rightarrow> sc_max_chunk s) (min (sc_min_chunk s) (length (sc_buffer s)))"
        let ?s = "s\<lparr>sc_total_offset := sc_total_offset s + k, sc_buffer := drop k (sc_buffer s), sc_hash := 0\<rparr>"
        show ?thesis
        proof (cases "length (sc_buffer s) < sc_min_chunk s")
          case True
          then show ?thesis using 1(2) r by (simp add: Let_def)
        next
          case ge: False
          obtain x where x: "drain g ?s = Some x" "k \<le> length (sc_buffer s)"
            "rbind x (\<lambda>r. Inr (\<lparr>c_offset = sc_total_offset s, c_size = k\<rparr> # fst r, snd r)) = Inr (cs, t)"
            using 1(2) False ge unfolding r Let_def k_def [symmetric]
            by (simp add: bind_eq_Some_conv not_less split: if_split_asm) blast
          then obtain cs' where "x = Inr (cs', t)" "cs = \<lparr>c_offset = sc_total_offset s, c_size = k\<rparr> # cs'"
            by (auto simp: rbind_eq_Inr)
          with 1(1) [OF x(1)] x(2) show ?thesis by (auto simp: add.commute)
        qed
      qed
    qed
  qed
  then show "drain_complete_chunks g s = Some (Inr (cs, t)) \<Longrightarrow> ?thesis" by blast
qed

lemma next_block_buffer:
  "next_block g s b = Some (Inr (cs, t)) \<Longrightarrow>
     sc_buffer t = drop (sum_list (map c_size cs)) (sc_buffer s @ b) \<and> sum_list (map c_size cs) \<le> length (sc_buffer s @ b)"
  using drain_buffer [of g "s\<lparr>sc_buffer := sc_buffer s @ b\<rparr>" cs t] by (simp add: next_block_def)

text \<open>Everything but the buffer depends on the chunks only.\<close>

abbreviation no_buf :: "conversion_state \<Rightarrow> conversion_state" where
  "no_buf st \<equiv> st\<lparr>cv_chunk_data_buf := []\<rparr>"

lemma push_raws_no_buf: "no_buf (foldl (push_raw C idx) st raws) = foldl (push_raw C idx) (no_buf st) raws"
proof (induction raws arbitrary: st)
  case (Cons raw raws)
  have "no_buf (push_raw C idx st raw) = push_raw C idx (no_buf st) raw" by (simp add: push_raw_def Let_def)
  with Cons show ?case by simp
qed simp

lemma ref_sizes:
  assumes "gear_contract g" "sc_wf sc"
  shows "sum_list (map c_size (sc_ref g sc base d)) = length d"
proof -
  have "tiles a cs b \<Longrightarrow> b = a + sum_list (map c_size cs)" for a b cs
    by (induction cs arbitrary: a) (fastforce simp: add.assoc)+
  from this [of base "sc_ref g sc base d" "base + length d"]
  show ?thesis using ref_chunks_shape [OF assms(1), of "sc_min_chunk sc" "sc_max_chunk sc"] assms(2) by (simp add: sc_wf_def)
qed

lemma read_loop_ref:
  assumes g: "gear_contract g"
  shows "sc_wf sc \<Longrightarrow> cv_chunk_data_buf st = sc_buffer sc \<Longrightarrow>
    \<exists>st'. read_loop C g idx sc st blocks = Some (Inr st') \<and> cv_chunk_data_buf st' = [] \<and>
      st' = foldl (push_raw C idx) (no_buf st)
        (cut_by (map c_size (sc_ref g sc (sc_total_offset sc) (sc_buffer sc @ concat blocks))) (sc_buffer sc @ concat blocks))"
proof (induction blocks arbitrary: sc st)
  case Nil
  let ?cs = "sc_ref g sc (sc_total_offset sc) (sc_buffer sc)"
  let ?st = "foldl (push_raw C idx) st (cut_by (map c_size ?cs) (sc_buffer sc))"
  have sum: "sum_list (map c_size ?cs) = length (sc_buffer sc)" by (rule ref_sizes [OF g Nil.prems(1)])
  have "read_loop C g idx sc st [] = Some (Inr ?st)"
    using Nil.prems sum by (simp add: sc_finalize_ref [OF g] process_chunks_eq)
  moreover have "cv_chunk_data_buf ?st = []" using sum Nil.prems by (simp add: push_raws_buf concat_cut_by)
  moreover from this have "no_buf ?st = ?st" by simp
  ultimately show ?case unfolding push_raws_no_buf by auto
next
  case (Cons b bs)
  obtain cs t where t: "next_block g sc b = Some (Inr (cs, t))" "same_params sc t"
    "\<forall>e. sc_ref g sc (sc_total_offset sc) (sc_buffer sc @ b @ e) = cs @ sc_ref g sc (sc_total_offset t) (sc_buffer t @ e)"
    using next_block_ref [OF g Cons.prems(1), of b] by blast
  note buf = next_block_buffer [OF t(1)]
  let ?d = "sc_buffer sc @ b" and ?st = "st\<lparr>cv_chunk_data_buf := cv_chunk_data_buf st @ b\<rparr>"
  let ?raws = "cut_by (map c_size cs) ?d"
  let ?st1 = "foldl (push_raw C idx) ?st ?raws"
  have p: "process_chunks C idx ?st cs = Inr ?st1" using buf Cons.prems(2) by (simp add: process_chunks_eq)
  have "cv_chunk_data_buf ?st1 = sc_buffer t" 
    using buf Cons.prems(2) by (simp add: push_raws_buf concat_cut_by min_absorb2 del: drop_append take_append length_append)
  from Cons.IH [OF same_params_wf [OF Cons.prems(1) t(2)] this] obtain st' where
    IH: "read_loop C g idx t ?st1 bs = Some (Inr st')" "cv_chunk_data_buf st' = []"
    "st' = foldl (push_raw C idx) (no_buf ?st1)
       (cut_by (map c_size (sc_ref g sc (sc_total_offset t) (sc_buffer t @ concat bs))) (sc_buffer t @ concat bs))"
    unfolding same_params_ref [OF t(2)] by blast
  have "no_buf ?st1 = foldl (push_raw C idx) (no_buf st) ?raws" unfolding push_raws_no_buf by simp
  moreover have "cut_by (map c_size (sc_ref g sc (sc_total_offset sc) (?d @ concat bs))) (?d @ concat bs) =
      ?raws @ cut_by (map c_size (sc_ref g sc (sc_total_offset t) (sc_buffer t @ concat bs))) (sc_buffer t @ concat bs)"
    using buf t(3) [rule_format, of "concat bs"] cut_by_prefix [of "map c_size cs" ?d "concat bs"] by (simp add: cut_by_append)
  ultimately show ?case using IH t(1) p by (simp del: cut_by.simps)
qed

section \<open>The state after all chunks\<close>

lemma add_chunks_snoc:
  "add_chunks C b (ds @ [d]) = rbind (add_chunks C b ds) (\<lambda>b. rbind (add_chunk C b d) (\<lambda>r. Inr (snd r)))"
  by (induction ds arbitrary: b) (simp_all add: add_chunk_eq)

definition entry_at :: "crates \<Rightarrow> CompressionScheme \<Rightarrow> bytes list \<Rightarrow> nat \<Rightarrow> XorbChunkBuildEntry" where
  "entry_at C s raws i = \<lparr>xc_chunk_hash = compute_data_hash C (piece_of C s (raws ! i)),
     xc_chunk_byte_range_start = of_nat (length (concat (map (piece_of C s) (take i raws)))),
     xc_unpacked_segment_bytes = of_nat (length (raws ! i))\<rparr>"

lemma push_raws_new:
  fixes raws :: "bytes list" and C idx s
  defines "cv \<equiv> foldl (push_raw C idx) (conversion_state_new s) raws"
  shows "add_chunks C (builder_new s) raws = Inr (cv_builder cv)" "xb_scheme (cv_builder cv) = s"
    "cv_num_chunks cv = length raws" "cv_raw_chunk_hashes cv = map (compute_data_hash C) raws"
    "cv_cumulative_uncompressed cv = of_nat (length (concat raws))"
    "cv_xorb_offset cv = of_nat (length (concat (map (piece_of C s) raws)))"
    "cv_chunk_entries cv = map (entry_at C s raws) [0..<length raws]"
proof -
  have "add_chunks C (builder_new s) raws = Inr (cv_builder cv) \<and> xb_scheme (cv_builder cv) = s \<and>
    cv_num_chunks cv = length raws \<and> cv_raw_chunk_hashes cv = map (compute_data_hash C) raws \<and>
    cv_cumulative_uncompressed cv = of_nat (length (concat raws)) \<and>
    cv_xorb_offset cv = of_nat (length (concat (map (piece_of C s) raws))) \<and>
    cv_chunk_entries cv = map (entry_at C s raws) [0..<length raws]"
    unfolding cv_def
  proof (induction raws rule: rev_induct)
    case Nil
    show ?case by (simp add: conversion_state_new_def builder_new_def)
  next
    case (snoc raw raws)
    let ?cv = "foldl (push_raw C idx) (conversion_state_new s) raws"
    have old: "map (entry_at C s (raws @ [raw])) [0..<length raws] = map (entry_at C s raws) [0..<length raws]"
      by (simp add: entry_at_def nth_append)
    from snoc have s: "xb_scheme (cv_builder ?cv) = s" by blast
    show ?case using snoc s old
      by (simp add: add_chunks_snoc push_raw_def Let_def add_chunk_eq entry_at_def nth_append)
  qed
  then show "add_chunks C (builder_new s) raws = Inr (cv_builder cv)" "xb_scheme (cv_builder cv) = s"
    "cv_num_chunks cv = length raws" "cv_raw_chunk_hashes cv = map (compute_data_hash C) raws"
    "cv_cumulative_uncompressed cv = of_nat (length (concat raws))"
    "cv_xorb_offset cv = of_nat (length (concat (map (piece_of C s) raws)))"
    "cv_chunk_entries cv = map (entry_at C s raws) [0..<length raws]"
    by blast+
qed

text \<open>The chunks of a blob, cut by the default configuration.\<close>

definition blob_chunks :: "gear \<Rightarrow> bytes \<Rightarrow> bytes list" where
  "blob_chunks g blob = cut_by (map c_size (ref_chunks g 0xFFFF000000000000 8192 131072 0 blob)) blob"

definition chunked :: "('s, 'u) conversion_env \<Rightarrow> CompressionScheme \<Rightarrow> MetadataIndex \<Rightarrow> bytes \<Rightarrow> conversion_state" where
  "chunked E s idx blob = foldl (push_raw (ce_crates E) idx) (conversion_state_new s) (blob_chunks (ce_gear E) blob)"

lemma chunk_blob_eq:
  assumes "gear_contract (ce_gear E)" "read_contract (ce_reads E)"
  shows "chunk_blob E config idx blob =
    (case scheme config of Inl _ \<Rightarrow> Some (Inl (CPanic ''conversion setup'')) | Inr s \<Rightarrow> Some (Inr (chunked E s idx blob)))"
proof (cases "scheme config")
  case (Inr s)
  let ?sc = "\<lparr>sc_hash = 0, sc_config = config_new, sc_mask = 0xFFFF000000000000,
     sc_min_chunk = 8192, sc_max_chunk = 131072, sc_buffer = [], sc_total_offset = 0\<rparr> :: StreamingChunker"
  have wf: "sc_wf ?sc" by (simp add: sc_wf_def)
  have "concat (ce_reads E blob) = blob" using assms(2) by (simp add: read_contract_def)
  moreover have nb: "no_buf (conversion_state_new s) = conversion_state_new s" by (simp add: conversion_state_new_def)
  moreover have "cv_chunk_data_buf (conversion_state_new s) = sc_buffer ?sc" by (simp add: conversion_state_new_def)
  ultimately show ?thesis
    using read_loop_ref [OF assms(1) wf, of "conversion_state_new s" "ce_crates E" idx "ce_reads E blob", unfolded nb] Inr
    by (simp add: chunk_blob_def streaming_new_default chunked_def blob_chunks_def)
qed (simp add: chunk_blob_def)

lemma blob_chunks_shape:
  assumes "gear_contract g"
  shows "concat (blob_chunks g blob) = blob" "\<And>raw. raw \<in> set (blob_chunks g blob) \<Longrightarrow> length raw \<le> 131072"
    "length (blob_chunks g blob) \<le> Suc (length blob div 8192)"
proof -
  let ?cs = "ref_chunks g 0xFFFF000000000000 8192 131072 0 blob"
  have sh: "tiles 0 ?cs (length blob)" "\<And>c. c \<in> set ?cs \<Longrightarrow> c_size c \<le> 131072" "\<And>c. c \<in> set (butlast ?cs) \<Longrightarrow> 8192 \<le> c_size c"
    using ref_chunks_shape [OF assms, of 8192 131072 0 "0xFFFF000000000000" blob] by auto
  let ?sc = "\<lparr>sc_hash = 0, sc_config = config_new, sc_mask = 0xFFFF000000000000,
     sc_min_chunk = 8192, sc_max_chunk = 131072, sc_buffer = [], sc_total_offset = 0\<rparr> :: StreamingChunker"
  have sum: "sum_list (map c_size ?cs) = length blob"
    using ref_sizes [OF assms, of ?sc 0 blob] by (simp add: sc_wf_def)
  then show "concat (blob_chunks g blob) = blob" by (simp add: blob_chunks_def concat_cut_by)
  have lens: "map length (blob_chunks g blob) = map c_size ?cs"
    using sum by (simp add: blob_chunks_def cut_by_lengths)
  show "length raw \<le> 131072" if "raw \<in> set (blob_chunks g blob)" for raw
  proof -
    from that have "length raw \<in> set (map c_size ?cs)" by (metis imageI lens list.set_map)
    then show ?thesis using sh(2) by auto
  qed
  have "length xs * 8192 \<le> sum_list (map c_size xs)" if "\<And>c. c \<in> set xs \<Longrightarrow> 8192 \<le> c_size c" for xs
    using that by (induction xs) fastforce+
  from this [of "butlast ?cs"] sh(3) have "length (butlast ?cs) * 8192 \<le> sum_list (map c_size (butlast ?cs))" by blast
  also have "\<dots> \<le> sum_list (map c_size ?cs)" by (cases ?cs rule: rev_cases) simp_all
  finally have "length ?cs - 1 \<le> length blob div 8192" using sum by (simp add: less_eq_div_iff_mult_less_eq)
  moreover have "length (blob_chunks g blob) = length ?cs" using lens by (metis length_map)
  ultimately show "length (blob_chunks g blob) \<le> Suc (length blob div 8192)" by linarith
qed

text \<open>Within the default limit of 512 MiB the chunks and their serialization fit one xorb.\<close>

lemma pieces_length_bound:
  assumes "lz4_contract C" "\<And>raw. raw \<in> set raws \<Longrightarrow> length raw \<le> 131072"
  shows "length (concat (map (piece_of C s) raws)) \<le> length (concat raws) + length raws * 542"
  using assms(2)
proof (induction raws)
  case (Cons raw raws)
  have len: "length raw \<le> 131072" using Cons.prems by simp
  then have "length raw div 255 \<le> 514" using div_le_mono [OF len, of 255] by simp
  with compressed_of_bound [OF assms(1) len, of s] have "length (piece_of C s raw) \<le> length raw + 542"
    by (cases s) (simp_all add: piece_of_length max_compressed_len_for_chunk_def)
  with Cons show ?case by simp
qed simp

lemma blob_fits:
  assumes "lz4_contract C" "gear_contract g" "length blob \<le> 536870912"
  shows "length (blob_chunks g blob) \<le> 65537" "length (concat (map (piece_of C s) (blob_chunks g blob))) < 2 ^ 32"
    "list_all (chunk_fits C s) (blob_chunks g blob)"
proof -
  show n: "length (blob_chunks g blob) \<le> 65537"
    using blob_chunks_shape(3) [OF assms(2), of blob] div_le_mono [OF assms(3), of 8192] by simp
  have "length (concat (map (piece_of C s) (blob_chunks g blob))) \<le>
      length (concat (blob_chunks g blob)) + length (blob_chunks g blob) * 542"
    by (rule pieces_length_bound [OF assms(1)]) (rule blob_chunks_shape(2) [OF assms(2)])
  then show "length (concat (map (piece_of C s) (blob_chunks g blob))) < 2 ^ 32"
    using n assms(3) by (simp add: blob_chunks_shape(1) [OF assms(2)])
  have "chunk_fits C s raw" if "length raw \<le> 131072" for raw
    using compressed_of_bound [OF assms(1) that, of s] that div_le_mono [OF that, of 255]
    by (cases s) (simp_all add: chunk_fits_def max_compressed_len_for_chunk_def)
  then show "list_all (chunk_fits C s) (blob_chunks g blob)" using blob_chunks_shape(2) [OF assms(2)] by (simp add: list_all_iff)
qed

section \<open>The shard of a conversion\<close>

definition converted_builder ::
  "crates \<Rightarrow> CompressionScheme \<Rightarrow> bytes list \<Rightarrow> XorbBuildResult \<Rightarrow> merkle_hash \<Rightarrow> ShardBuilder" where
  "converted_builder C s raws xr target =
     \<lparr>sb_files = [\<lparr>fb_file_hash = target, fb_segments =
        [\<lparr>fs_xorb_hash = xr_xorb_hash xr, fs_xorb_index = 0, fs_chunk_index_start = 0,
          fs_chunk_index_end = of_nat (length raws), fs_unpacked_segment_bytes = of_nat (length (concat raws))\<rparr>]\<rparr>],
      sb_xorbs = [\<lparr>xb_xorb_hash = xr_xorb_hash xr, xb_num_bytes_in_xorb = ucast (total_uncompressed_size xr),
        xb_num_bytes_on_disk = ucast (total_compressed_size xr),
        xb_entry_chunks = map (entry_at C s raws) [0..<length raws]\<rparr>],
      sb_chunk_lookup_entries =
        map (\<lambda>(i, k). \<lparr>cl_chunk_hash = k, cl_xorb_hash = xr_xorb_hash xr, cl_chunk_index = of_nat i\<rparr>)
          (enumerate 0 (map (compute_data_hash C) raws))\<rparr>"

lemma converted_builder_ok:
  assumes "length raws < 2 ^ 32"
  shows "sb_inv (converted_builder C s raws xr target)" "sb_fits (converted_builder C s raws xr target)"
proof -
  have "map (\<lambda>e. (cl_xorb_hash e, cl_chunk_index e)) (sb_chunk_lookup_entries (converted_builder C s raws xr target)) =
      map (\<lambda>(i, k). (xr_xorb_hash xr, of_nat i)) (enumerate 0 (map (compute_data_hash C) raws))"
    by (simp add: converted_builder_def o_def split_def)
  also have "\<dots> = map (\<lambda>i. (xr_xorb_hash xr, of_nat i)) [0..<length raws]"
    by (simp only: map_enumerate_fst length_map add_0)
  finally show "sb_inv (converted_builder C s raws xr target)" by (simp add: sb_inv_def converted_builder_def)
  show "sb_fits (converted_builder C s raws xr target)" using assms
    by (simp add: converted_builder_def sb_fits_def sb_total_size_def file_section_size_def xorb_section_size_def
        chunk_lookup_section_size_def)
qed

lemma shard_of_conversion_eq:
  assumes "length raws < 2 ^ 32"
  shows "shard_of_conversion C xr (foldl (push_raw C idx) (conversion_state_new s) raws) target =
    Inr (sb_bytes (converted_builder C s raws xr target))"
proof -
  let ?b = "converted_builder C s raws xr target"
  have "sb_build C ?b = Inr (sb_bytes ?b)"
    using parse_built [OF converted_builder_ok(2,1) [OF assms, of C s xr target], of C] by (simp add: sb_build_def sb_bytes_length)
  then show ?thesis
    by (simp add: shard_of_conversion_def push_raws_new add_xorb_with_raw_chunk_hashes_def add_xorb_unchecked_def sb_new_def
        add_file_def converted_builder_def)
qed

section \<open>The plan of a converted file\<close>

definition planned_at :: "crates \<Rightarrow> CompressionScheme \<Rightarrow> bytes list \<Rightarrow> merkle_hash \<Rightarrow> nat \<Rightarrow> PlannedChunk" where
  "planned_at C s raws x i = \<lparr>pc_xorb_hash = x, pc_xorb_chunk_index = of_nat i,
     pc_chunk_byte_range_start = xc_chunk_byte_range_start (entry_at C s raws i),
     pc_unpacked_segment_bytes = xc_unpacked_segment_bytes (entry_at C s raws i),
     pc_serialized_chunk_hash = xc_chunk_hash (entry_at C s raws i), pc_raw_chunk_hash = compute_data_hash C (raws ! i)\<rparr>"

lemma collect_raw_lookup_complete:
  "distinct (map (\<lambda>e. (cl_xorb_hash e, cl_chunk_index e)) es) \<Longrightarrow> (\<And>e. e \<in> set es \<Longrightarrow> m (cl_xorb_hash e, cl_chunk_index e) = None) \<Longrightarrow>
     \<exists>m'. collect_raw_lookup es m = Inr m'"
proof (induction es arbitrary: m)
  case (Cons e es)
  let ?m = "m((cl_xorb_hash e, cl_chunk_index e) \<mapsto> cl_chunk_hash e)"
  have "?m (cl_xorb_hash e', cl_chunk_index e') = None" if "e' \<in> set es" for e'
  proof -
    have "(cl_xorb_hash e', cl_chunk_index e') \<noteq> (cl_xorb_hash e, cl_chunk_index e)"
      using that Cons.prems(1) by (force simp: image_iff)
    with that Cons.prems(2) [of e'] show ?thesis by simp
  qed
  with Cons show ?case by (simp add: Let_def)
qed simp

lemma of_nat_inj_on_u32: "inj_on (of_nat :: nat \<Rightarrow> u32) {..<2 ^ 32}"
  by (rule inj_on_inverseI [of _ unat]) (simp add: unat_of_nat_u32)

lemma converted_raw_lookup:
  assumes "length raws < 2 ^ 32"
  obtains m where "collect_raw_lookup (sb_chunk_lookup_entries (converted_builder C s raws xr target)) Map.empty = Inr m"
    "\<And>i. i < length raws \<Longrightarrow> m (xr_xorb_hash xr, of_nat i) = Some (compute_data_hash C (raws ! i))"
proof -
  let ?es = "sb_chunk_lookup_entries (converted_builder C s raws xr target)"
  have "distinct (map (\<lambda>e. (cl_xorb_hash e, cl_chunk_index e)) ?es)"
  proof -
    have "map (\<lambda>e. (cl_xorb_hash e, cl_chunk_index e)) ?es = map (\<lambda>i. (xr_xorb_hash xr, of_nat i)) [0..<length raws]"
      using converted_builder_ok(1) [OF assms, of C s xr target] by (simp add: sb_inv_def) (simp add: converted_builder_def)
    moreover have "inj_on (\<lambda>i. (xr_xorb_hash xr, of_nat i :: u32)) {0..<length raws}"
      using assms by (intro inj_onI) (auto dest!: inj_onD [OF of_nat_inj_on_u32])
    ultimately show ?thesis by (simp add: distinct_map)
  qed
  then obtain m where m: "collect_raw_lookup ?es Map.empty = Inr m" using collect_raw_lookup_complete [of ?es Map.empty] by auto
  have "m (xr_xorb_hash xr, of_nat i) = Some (compute_data_hash C (raws ! i))" if "i < length raws" for i
  proof -
    have "(i, compute_data_hash C (raws ! i)) \<in> set (enumerate 0 (map (compute_data_hash C) raws))"
      using that by (auto simp: in_set_enumerate_eq)
    then show ?thesis unfolding collect_raw_lookup_Inr [OF m] by (force simp: converted_builder_def)
  qed
  with m show thesis by (rule that)
qed

lemma plan_segment_chunks_complete:
  assumes "\<And>i. i \<in> set is \<Longrightarrow> i < length (xorb_chunk_entries shard) \<and> i < 2 ^ 64 \<and>
      xorb_chunk_entries shard ! i = xorb_entry_of (entry_at C s raws i) \<and>
      raw (fe_xorb_hash seg, of_nat i) = Some (compute_data_hash C (raws ! i)) \<and> length (raws ! i) < 2 ^ 32"
    and "acc + sum_list (map (\<lambda>i. length (raws ! i)) is) < 2 ^ 64"
  shows "plan_segment_chunks shard raw seg 0 is acc =
    Inr (map (planned_at C s raws (fe_xorb_hash seg)) is, acc + sum_list (map (\<lambda>i. length (raws ! i)) is))"
  using assms
proof (induction "is" arbitrary: acc)
  case (Cons i "is")
  have i: "i < length (xorb_chunk_entries shard)" "i < 18446744073709551616" "xorb_chunk_entries shard ! i = xorb_entry_of (entry_at C s raws i)"
      "raw (fe_xorb_hash seg, of_nat i) = Some (compute_data_hash C (raws ! i))"
      "unat (of_nat (length (raws ! i)) :: u32) = length (raws ! i)"
    using Cons.prems(1) [of i] by (auto simp: unat_of_nat_u32)
  have "acc + length (raws ! i) < 18446744073709551616" using Cons.prems(2) by simp
  moreover have "plan_segment_chunks shard raw seg 0 is (acc + length (raws ! i)) =
      Inr (map (planned_at C s raws (fe_xorb_hash seg)) is, acc + length (raws ! i) + sum_list (map (\<lambda>i. length (raws ! i)) is))"
    using Cons.prems by (intro Cons.IH) auto
  ultimately show ?case using i
    by (simp add: nat_checked_add_def xorb_entry_of_def planned_at_def entry_at_def)
qed simp

lemma sum_lengths_nth: "sum_list (map (\<lambda>i. length (raws ! i)) [0..<length raws]) = length (concat raws)"
proof -
  have "map (\<lambda>i. length (raws ! i)) [0..<length raws] = map length (map ((!) raws) [0..<length raws])" by simp
  then show ?thesis by (simp only: map_nth length_concat)
qed

lemma converted_shard_fields:
  assumes n: "length raws < 2 ^ 32" and parse: "shard_parse C (sb_bytes (converted_builder C s raws xr target)) = Inr shard"
  shows "file_entries shard = [\<lparr>fh_file_hash = target, fh_file_flags = 0, fh_num_entries = 1\<rparr>]"
    "file_data_entries shard = [file_entry_of \<lparr>fs_xorb_hash = xr_xorb_hash xr, fs_xorb_index = 0, fs_chunk_index_start = 0,
          fs_chunk_index_end = of_nat (length raws), fs_unpacked_segment_bytes = of_nat (length (concat raws))\<rparr>]"
    "xorb_entries shard = [\<lparr>xh_xorb_hash = xr_xorb_hash xr, xh_xorb_flags = 0, xh_num_entries = of_nat (length raws),
       xh_num_bytes_in_xorb = ucast (total_uncompressed_size xr), xh_num_bytes_on_disk = ucast (total_compressed_size xr)\<rparr>]"
    "xorb_chunk_entries shard = map (\<lambda>i. xorb_entry_of (entry_at C s raws i)) [0..<length raws]"
    "chunk_lookup_entries shard = sb_chunk_lookup_entries (converted_builder C s raws xr target)"
  using parse parse_built [OF converted_builder_ok(2,1) [OF n, of C s xr target], of C]
  by (auto simp: converted_builder_def file_header_of_def xorb_header_of_def)

lemma converted_plan:
  assumes n: "length raws < 2 ^ 32" and total: "length (concat raws) < 2 ^ 32"
    and parse: "shard_parse C (sb_bytes (converted_builder C s raws xr target)) = Inr shard"
  shows "\<exists>plan. build_file_chunk_plan shard target (Some 0) = Inr plan \<and>
    pf_chunks plan = map (planned_at C s raws (xr_xorb_hash xr)) [0..<length raws]"
proof -
  let ?b = "converted_builder C s raws xr target"
  let ?seg = "file_entry_of \<lparr>fs_xorb_hash = xr_xorb_hash xr, fs_xorb_index = 0, fs_chunk_index_start = 0,
          fs_chunk_index_end = of_nat (length raws), fs_unpacked_segment_bytes = of_nat (length (concat raws))\<rparr>"
  note sh = converted_shard_fields [OF n parse]
  obtain m where m: "collect_raw_lookup (sb_chunk_lookup_entries ?b) Map.empty = Inr m"
    "\<And>i. i < length raws \<Longrightarrow> m (xr_xorb_hash xr, of_nat i) = Some (compute_data_hash C (raws ! i))"
    by (rule converted_raw_lookup [OF n, of C s xr target]) blast
  have each: "length (raws ! i) < 4294967296" if "i < length raws" for i
    using elem_le_sum_list [of i "map length raws"] that total by (simp add: length_concat)
  have seg: "plan_segment_chunks shard m ?seg 0 [0..<length raws] 0 =
      Inr (map (planned_at C s raws (xr_xorb_hash xr)) [0..<length raws], length (concat raws))"
    using plan_segment_chunks_complete [of "[0..<length raws]" shard C s raws m ?seg 0] n total m(2) each sh(4)
    by (simp add: sum_lengths_nth file_entry_of_def)
  have u: "unat (of_nat (length raws) :: u32) = length raws" "unat (of_nat (length (concat raws)) :: u32) = length (concat raws)"
    using n total by (simp_all add: unat_of_nat_u32)
  have segs: "plan_segments shard [xr_xorb_hash xr \<mapsto> (0, length raws)] m [?seg] 0 =
      Inr (map (planned_at C s raws (xr_xorb_hash xr)) [0..<length raws], length (concat raws))"
    using seg u total by (simp add: file_entry_of_def nat_checked_add_def)
  have offs: "collect_xorb_offsets (length (xorb_chunk_entries shard)) (xorb_entries shard) 0 Map.empty =
      Inr [xr_xorb_hash xr \<mapsto> (0, length raws)]"
    using n u by (simp add: sh(3,4) nat_checked_add_def)
  show ?thesis
    using segs offs m(1) by (simp add: build_file_chunk_plan_def plan_file_index_def sh(1,2,5) nat_checked_add_def)
qed

section \<open>Reading a converted file back\<close>

lemma build_data:
  assumes "add_chunks C (builder_new s) raws = Inr b" "build C b = Inr xr"
  shows "\<exists>footer. xr_data xr = concat (map (piece_of C s) raws) @ footer"
proof -
  have "xb_chunks b = chunk_datas C s 0 0 raws"
    using add_chunks_result [of C "builder_new s" raws] assms(1) by (auto simp: builder_new_def)
  then have "map serialized_chunk (xb_chunks b) = map (piece_of C s) raws" by (simp add: chunk_datas_maps o_def)
  with assms(2) show ?thesis by (auto simp: build_def Let_def rbind_eq_Inr)
qed

lemma converted_chunk_read:
  assumes lz4: "lz4_contract C" and xorb: "fetch (xorb_key C x) = Inr (concat (map (piece_of C s) raws) @ footer)"
    and i: "i < length raws" "length (raws ! i) \<le> 131072" and fits: "length (concat (map (piece_of C s) raws)) < 2 ^ 32"
  shows "chunk_read C fetch (planned_at C s raws x i) (raws ! i)"
proof -
  let ?pre = "concat (map (piece_of C s) (take i raws))"
  have split: "concat (map (piece_of C s) raws) = ?pre @ piece_of C s (raws ! i) @ concat (map (piece_of C s) (drop (Suc i) raws))"
    using arg_cong [OF id_take_nth_drop [OF i(1)], of "\<lambda>r. concat (map (piece_of C s) r)"] by simp
  have "length ?pre < 4294967296" using fits unfolding split by simp
  then have "unat (of_nat (length ?pre) :: u32) = length ?pre" by (rule unat_of_nat_u32)
  then show ?thesis
    using extract_piece [OF lz4 i(2), of ?pre s "concat (map (piece_of C s) (drop (Suc i) raws)) @ footer"] xorb split
    by (simp add: chunk_read_def planned_at_def entry_at_def)
qed

lemma converted_reconstructs:
  assumes "lz4_contract C" "hex_contract C" "gear_contract g" "length blob \<le> 536870912"
    and "build C (cv_builder (foldl (push_raw C idx) (conversion_state_new s) (blob_chunks g blob))) = Inr xr"
    and "fetch (xorb_key C (xr_xorb_hash xr)) = Inr (xr_data xr)"
    and "fetch (''shards/'' @ sid) = Inr (sb_bytes (converted_builder C s (blob_chunks g blob) xr target))"
    and "mh_to_hex C target = hex_encode C (sha256 C blob)"
  shows "reconstruct_single_file_ref_to_temp C fetch (mh_to_hex C target) target
      \<lparr>fr_shard_id = sid, fr_file_index = 0, fr_file_size = length blob\<rparr> = Inr (blob, of_nat (length blob))"
proof -
  let ?raws = "blob_chunks g blob"
  note shape = blob_chunks_shape(1) [OF assms(3), of blob] blob_chunks_shape(2) [OF assms(3)]
    and fits = blob_fits [OF assms(1,3,4)]
  have n: "length ?raws < 2 ^ 32" "length (concat ?raws) < 2 ^ 32" using fits(1) assms(4) by (simp_all add: shape(1))
  obtain shard where sh: "shard_parse C (sb_bytes (converted_builder C s ?raws xr target)) = Inr shard"
    using parse_built [OF converted_builder_ok(2,1) [OF n(1)]] by blast
  then have "parse_from_file C (Some (sb_bytes (converted_builder C s ?raws xr target))) = Inr shard"
    by (simp add: parse_from_file_def shard_parse_def hash_reader_eq split: if_splits)
  then have fetch: "fetch_shard C fetch sid = Inr shard"
    unfolding fetch_shard_eq assms(7) by (simp add: parse_path_def)
  obtain plan where plan: "build_file_chunk_plan shard target (Some 0) = Inr plan"
    "pf_chunks plan = map (planned_at C s ?raws (xr_xorb_hash xr)) [0..<length ?raws]"
    using converted_plan [OF n sh] by blast
  obtain footer where "xr_data xr = concat (map (piece_of C s) ?raws) @ footer"
    using build_data [OF push_raws_new(1) assms(5)] by blast
  with assms(6) have "chunk_read C fetch (planned_at C s ?raws (xr_xorb_hash xr) i) (?raws ! i)" if "i < length ?raws" for i
    using that fits(2) shape(2) [of "?raws ! i" blob] by (intro converted_chunk_read [OF assms(1)]) simp_all
  then have "list_all2 (chunk_read C fetch) (pf_chunks plan) ?raws"
    unfolding plan(2) by (simp add: list_all2_conv_all_nth)
  moreover have "file_hash_matches C target ?raws" using assms(8) by (simp add: file_hash_matches_def shape(1))
  ultimately show ?thesis
    using fetch plan(1) unfolding reconstruct_single_iff [OF assms(2)] by (auto simp: shape(1))
qed

section \<open>Storing over any backend\<close>

definition key_families :: "string list" where
  "key_families = [''xorbs/'', ''shards/'', ''lfs/objects/'']"

text \<open>What a conversion needs: the contracts, a fresh token per write, and no foreign object under the xorb's key.\<close>

definition conversion_ready ::
  "('s \<Rightarrow> string \<Rightarrow> bytes option) \<Rightarrow> ('u \<Rightarrow> 's \<Rightarrow> string \<Rightarrow> bool) \<Rightarrow> ('s, 'u) conversion_env \<Rightarrow> CompressionScheme \<Rightarrow> MetadataIndex \<Rightarrow> bytes \<Rightarrow> 
     'u \<Rightarrow> 'u \<Rightarrow> 's \<Rightarrow> bool" where
  "conversion_ready content fresh E sch idx blob u1 u2 s \<longleftrightarrow>
     lz4_contract (ce_crates E) \<and> hex_contract (ce_crates E) \<and> gear_contract (ce_gear E) \<and>
     (\<forall>a. fresh u1 s (''xorbs/'' @ a)) \<and> (\<forall>y. fresh u2 s (''shards/'' @ y)) \<and>
     (\<forall>xr. build (ce_crates E) (cv_builder (chunked E sch idx blob)) = Inr xr \<longrightarrow>
        obj_exists (ce_backend E) s (xorb_key (ce_crates E) (xr_xorb_hash xr)) = Inr True \<longrightarrow>
        content s (xorb_key (ce_crates E) (xr_xorb_hash xr)) = Some (xr_data xr))"

text \<open>
  What the pipeline relies on besides the object store contract: keys of different families
  name different objects, and writing a xorb does not use up the token of the shard's write.
\<close>

locale conversion_store = object_store +
  assumes families: "p \<in> set key_families \<Longrightarrow> q \<in> set key_families \<Longrightarrow> p \<noteq> q \<Longrightarrow> \<not> same (p @ a) (q @ b)"
    and fresh_shard: "inv s \<Longrightarrow> fresh u s (''xorbs/'' @ a) \<Longrightarrow> fresh u' s (''shards/'' @ b) \<Longrightarrow>
      fresh u' (snd (put S u s (''xorbs/'' @ a) d)) (''shards/'' @ b)"
begin

abbreviation fetch_of where
  "fetch_of s \<equiv> download_to_path S s"

lemma store_xorb_cases:
  assumes "inv s" "fresh u s (''xorbs/'' @ a)" "store_xorb S u s (''xorbs/'' @ a) d = (res, s')"
    and "obj_exists S s (''xorbs/'' @ a) = Inr True \<Longrightarrow> content s (''xorbs/'' @ a) = Some d"
  shows "inv s' \<and> content s' (''lfs/objects/'' @ b) = content s (''lfs/objects/'' @ b) \<and>
    (\<forall>r. res = Inr r \<longrightarrow> content s' (''xorbs/'' @ a) = Some d) \<and>
    (\<forall>u' y. fresh u' s (''shards/'' @ y) \<longrightarrow> fresh u' s' (''shards/'' @ y))"
proof -
  have ns: "\<not> same (''xorbs/'' @ a) (''lfs/objects/'' @ b)" by (rule families) (simp_all add: key_families_def)
  consider (no) e where "obj_exists S s (''xorbs/'' @ a) = Inl e" | (yes) "obj_exists S s (''xorbs/'' @ a) = Inr True"
    | (absent) "obj_exists S s (''xorbs/'' @ a) = Inr False"
    by (metis (full_types) obj_sumE)
  then show ?thesis
  proof cases
    case no
    with assms show ?thesis by (auto simp: store_xorb_def)
  next
    case yes
    with assms show ?thesis by (auto simp: store_xorb_def)
  next
    case absent
    obtain r s1 where p: "put S u s (''xorbs/'' @ a) d = (r, s1)" by (metis surj_pair)
    have fr: "fresh u' s1 (''shards/'' @ y)" if "fresh u' s (''shards/'' @ y)" for u' y
      using fresh_shard [OF assms(1,2) that, of d] p by simp
    show ?thesis
    proof (cases r)
      case (Inl e)
      with put_Inl [OF assms(1,2)] p have "inv s1 \<and> content s1 = content s" by blast
      with Inl p absent assms(3) fr show ?thesis by (auto simp: store_xorb_def)
    next
      case (Inr x)
      with put_Inr [OF assms(1,2)] p have "inv s1 \<and> same (''xorbs/'' @ a) (''xorbs/'' @ a) \<and>
        (\<forall>k'. content s1 k' = (if same (''xorbs/'' @ a) k' then Some d else content s k'))" by blast
      with Inr p absent assms(3) fr ns show ?thesis by (auto simp: store_xorb_def)
    qed
  qed
qed

lemma put_shard_cases:
  assumes "inv s" "fresh u s (''shards/'' @ y)" "put S u s (''shards/'' @ y) d = (res, s')"
  shows "inv s' \<and> content s' (''lfs/objects/'' @ b) = content s (''lfs/objects/'' @ b) \<and>
    content s' (''xorbs/'' @ a) = content s (''xorbs/'' @ a) \<and> (\<forall>r. res = Inr r \<longrightarrow> content s' (''shards/'' @ y) = Some d)"
proof -
  have "\<not> same (''shards/'' @ y) (''lfs/objects/'' @ b)" "\<not> same (''shards/'' @ y) (''xorbs/'' @ a)"
    by (rule families; simp add: key_families_def)+
  with put_Inl [OF assms(1,2)] put_Inr [OF assms(1,2)] assms(3) show ?thesis by (cases res) fastforce+
qed

lemma delete_raw_cases:
  assumes "inv s"
  shows "inv (snd (delete S s (''lfs/objects/'' @ b))) \<and>
    content (snd (delete S s (''lfs/objects/'' @ b))) (''xorbs/'' @ a) = content s (''xorbs/'' @ a) \<and>
    content (snd (delete S s (''lfs/objects/'' @ b))) (''shards/'' @ y) = content s (''shards/'' @ y)"
proof -
  have "\<not> same (''lfs/objects/'' @ b) (''shards/'' @ y)" "\<not> same (''lfs/objects/'' @ b) (''xorbs/'' @ a)"
    by (rule families; simp add: key_families_def)+
  moreover obtain r s' where d: "delete S s (''lfs/objects/'' @ b) = (r, s')" by (metis surj_pair)
  ultimately show ?thesis
    using delete_Inl [OF assms] delete_Inr [OF assms] d by (cases r) fastforce+
qed

lemma store_converted_safe:
  assumes S: "ce_backend E = S" and ready: "conversion_ready content fresh E sch idx blob u1 u2 (pl_storage pl)" and inv: "inv (pl_storage pl)"
    and blob: "content (pl_storage pl) (object_key_of oid) = Some blob"
    and oid: "oid = hex_encode (ce_crates E) (sha256 (ce_crates E) blob)" and len: "length blob \<le> 536870912"
    and run: "store_converted E config u1 u2 oid (length blob) (chunked E sch idx blob) pl = (res, pl')"
  shows "inv (pl_storage pl') \<and>
    (case res of
       Inl e \<Rightarrow> content (pl_storage pl') (object_key_of oid) = Some blob \<and> pl_index pl' = pl_index pl
     | Inr r \<Rightarrow> \<exists>h refs. mh_from_hex (ce_crates E) oid = Inr h \<and> get_file_refs (pl_index pl') h = Some refs \<and>
         \<lparr>fr_shard_id = cr_shard_hash r, fr_file_index = 0, fr_file_size = length blob\<rparr> \<in> set refs \<and>
         reconstruct_single_file_ref_to_temp (ce_crates E) (fetch_of (pl_storage pl')) oid h
           \<lparr>fr_shard_id = cr_shard_hash r, fr_file_index = 0, fr_file_size = length blob\<rparr> = Inr (blob, of_nat (length blob)))"
proof -
  let ?C = "ce_crates E" and ?cv = "chunked E sch idx blob"
  note rd = ready [unfolded conversion_ready_def S] S len
  have n: "length (blob_chunks (ce_gear E) blob) < 2 ^ 32" using blob_fits(1) [of ?C "ce_gear E" blob] rd by simp
  show ?thesis
  proof (cases "build ?C (cv_builder ?cv)")
    case (Inl e)
    with run inv blob show ?thesis by (auto simp: store_converted_def)
  next
    case b: (Inr xr)
    obtain r1 s1 where x: "store_xorb S u1 (pl_storage pl) (xorb_key ?C (xr_xorb_hash xr)) (xr_data xr) = (r1, s1)"
      by (metis surj_pair)
    have s1: "inv s1" "content s1 (object_key_of oid) = Some blob"
      "\<And>r. r1 = Inr r \<Longrightarrow> content s1 (xorb_key ?C (xr_xorb_hash xr)) = Some (xr_data xr)" "\<And>y. fresh u2 s1 (''shards/'' @ y)"
      using store_xorb_cases [OF inv _ x [unfolded xorb_key_def], of oid] rd b blob by (auto simp: xorb_key_def object_key_of_def)
    show ?thesis
    proof (cases "(\<exists>e. r1 = Inl e) \<or> (\<exists>e. mh_from_hex ?C oid = Inl e)")
      case True
      with run b x rd s1 show ?thesis
        by (cases r1; cases "mh_from_hex ?C oid") (auto simp: store_converted_def)
    next
      case False
      then obtain r2 h where r1: "r1 = Inr r2" and h: "mh_from_hex ?C oid = Inr h"
        by (cases r1; cases "mh_from_hex ?C oid") auto
      let ?b = "converted_builder ?C sch (blob_chunks (ce_gear E) blob) xr h"
      define sid where "sid = mh_to_hex ?C (compute_data_hash ?C (sb_bytes ?b))"
      have sh: "shard_of_conversion ?C xr ?cv h = Inr (sb_bytes ?b)"
        using shard_of_conversion_eq [OF n] by (simp add: chunked_def)
      obtain r3 s2 where p: "put S u2 s1 (''shards/'' @ sid) (sb_bytes ?b) = (r3, s2)" by (metis surj_pair)
      note s2 = put_shard_cases [OF s1(1,4) p]
      show ?thesis
      proof (cases r3)
        case (Inl e)
        with run b x rd r1 h sh p s2 s1 show ?thesis by (auto simp: store_converted_def sid_def object_key_of_def)
      next
        case (Inr r4)
        define reg where "reg = \<lparr>reg_shard_id = sid,
          reg_files = [\<lparr>vf_file_hash = h, vf_file_index = 0, vf_file_size = length blob\<rparr>],
          reg_chunks = verified_chunks_of (xr_xorb_hash xr) (cv_raw_chunk_hashes ?cv)\<rparr>"
        define s3 where "s3 = (if delete_raw_after_conversion config then snd (delete S s2 (object_key_of oid)) else s2)"
        define ref where "ref = \<lparr>fr_shard_id = sid, fr_file_index = 0, fr_file_size = length blob\<rparr>"
        have kept: "inv s3" "content s3 (xorb_key ?C (xr_xorb_hash xr)) = Some (xr_data xr)"
          "content s3 (''shards/'' @ sid) = Some (sb_bytes ?b)"
          using delete_raw_cases [of s2] s2 Inr s1(3) [OF r1] by (auto simp: s3_def object_key_of_def xorb_key_def)
        have unfold: "store_converted E config u1 u2 oid (length blob) ?cv pl =
          (case register_verified_shard (pl_index pl) reg of
             (Inl _, idx) \<Rightarrow> (Inl (CBuildError ''Metadata index rejected converted file''), pl\<lparr>pl_storage := s2, pl_index := idx\<rparr>)
           | (Inr _, idx) \<Rightarrow>
               (Inr \<lparr>cr_xorb_hash = mh_to_hex ?C (xr_xorb_hash xr), cr_shard_hash = sid, cr_num_chunks = cv_num_chunks ?cv,
                 cr_num_deduped_chunks = cv_num_deduped ?cv, cr_raw_size = length blob, cr_xorb_size = total_compressed_size xr\<rparr>,
                pl\<lparr>pl_storage := s3, pl_index := idx\<rparr>))"
          unfolding store_converted_def Let_def S
          by (simp only: b x h sh p Inr r1 sum.case prod.case sid_def [symmetric] reg_def s3_def)
        show ?thesis
        proof (cases "sizes_agree (file_to_shards (pl_index pl)) (reg_files reg)")
          case False
          then obtain e where "register_verified_shard (pl_index pl) reg = (Inl e, pl_index pl)" by (rule register_conflict)
          with run unfold s2 s1 show ?thesis by (auto simp: object_key_of_def)
        next
          case True
          note reg = register_ok [OF True]
          obtain refs where refs: "get_file_refs (registered (pl_index pl) reg) h = Some refs" "ref \<in> set refs"
            using add_file_refs_has [of "hd (reg_files reg)" "reg_files reg" sid "file_to_shards (pl_index pl)"]
            by (auto simp: get_file_refs_def reg_def ref_of_def ref_def)
          have hex: "mh_to_hex ?C h = oid"
            using h rd oid by (auto simp: mh_from_hex_def mh_to_hex_def hex_contract_def mh_as_from_bytes split: sum.splits if_splits)
          have "reconstruct_single_file_ref_to_temp ?C (fetch_of s3) (mh_to_hex ?C h) h ref = Inr (blob, of_nat (length blob))"
            unfolding ref_def
            by (rule converted_reconstructs [of ?C "ce_gear E" blob idx sch xr])
               (use rd b kept hex oid in \<open>auto simp: download_Inr chunked_def\<close>)
          moreover have "pl_storage pl' = s3" "pl_index pl' = registered (pl_index pl) reg" "\<exists>r. res = Inr r \<and> cr_shard_hash r = sid"
            using run unfolding unfold reg by auto
          ultimately show ?thesis using kept(1) refs h hex by (auto simp: ref_def)
        qed
      qed
    qed
  qed
qed

lemma open_blob_content:
  assumes "ce_backend E = S" "inv (pl_storage pl)" "content (pl_storage pl) key = Some blob"
    "open_blob_for_streaming E pl key = (Inr (path, guard), l)"
  shows "path = Some blob"
proof -
  have d: "download_to_path S (pl_storage pl) key = Inr blob" using assms(2,3) by (simp add: download_Inr)
  then have retried: "fst (download_to_path_with_retries (\<lambda>_. download_to_path S (pl_storage pl) key)) = Inr blob"
    by (simp add: download_to_path_with_retries_def retry_loop.simps)
  show ?thesis
  proof (cases "\<exists>p. get_path S (pl_storage pl) key = Inr (Some p)")
    case True
    with path_content [OF assms(2,3)] assms(1,4) show ?thesis by (auto simp: open_blob_for_streaming_def)
  next
    case False
    then have "open_blob_for_streaming E pl key = (Inr (path, guard), l) \<Longrightarrow> path = Some blob"
      unfolding open_blob_for_streaming_def Let_def assms(1) retried
      by (cases "get_path S (pl_storage pl) key") (auto split: option.splits sum.splits prod.splits if_splits)
    with assms(4) show ?thesis by blast
  qed
qed

end

section \<open>The temporary copy\<close>

text \<open>Whatever the outcome, the ledger is as before once the guard is gone.\<close>

lemma reserve_commit_drop:
  assumes "manager_reserve avail l n = (Inr r, l1)"
  shows "drop_reservation l1 r = l" "\<exists>r2 l2. commit_written l1 r n = (Inr (), r2, l2) \<and> drop_reservation l2 r2 = l"
proof -
  have res: "reserve l n = (Inr r, l1)"
    using assms by (auto simp: manager_reserve_def split: option.splits if_splits)
  have "drop_reservation l1 r = l \<and> (\<exists>r2 l2. commit_written l1 r n = (Inr (), r2, l2) \<and> drop_reservation l2 r2 = l)"
  proof (cases "n = 0")
    case True
    with res show ?thesis
      by (auto simp: reserve_def commit_written_def commit_def drop_reservation_def release_reserved_def release_charged_def checked_add_def)
  next
    case False
    with res obtain t where t: "total_with (charged_bytes l) (reserved_bytes l) n = Some t"
      and r: "r = \<lparr>tr_reserved = n, tr_charged = 0\<rparr>" and l1: "l1 = l\<lparr>reserved_bytes := reserved_bytes l + n\<rparr>"
      by (auto simp: reserve_def split: option.splits if_splits)
    from t have "checked_add (charged_bytes l) n = Some (charged_bytes l + n)"
      by (auto simp: total_with_def checked_add_def unat_word_ariths split: if_splits)
    moreover have "checked_add 0 n = Some n" using unat_u64_less [of n] by (simp add: checked_add_def)
    ultimately show ?thesis using False
      by (simp add: r l1 commit_written_def commit_def drop_reservation_def release_reserved_def release_charged_def Let_def)
  qed
  then show "drop_reservation l1 r = l" "\<exists>r2 l2. commit_written l1 r n = (Inr (), r2, l2) \<and> drop_reservation l2 r2 = l"
    by blast+
qed

lemma manager_reserve_Inl: "manager_reserve avail l n = (Inl e, l1) \<Longrightarrow> l1 = l"
  by (auto simp: manager_reserve_def reserve_def split: option.splits if_splits)

lemma open_blob_ledger:
  assumes "open_blob_for_streaming E pl key = (res, l)"
  shows "(\<forall>e. res = Inl e \<longrightarrow> l = pl_ledger pl) \<and>
    (\<forall>path guard. res = Inr (path, guard) \<longrightarrow> release_guard guard (pl'\<lparr>pl_ledger := l\<rparr>) = pl'\<lparr>pl_ledger := pl_ledger pl\<rparr>)"
proof (cases "\<exists>p. get_path (ce_backend E) (pl_storage pl) key = Inr (Some p)")
  case True
  with assms show ?thesis by (auto simp: open_blob_for_streaming_def release_guard_def)
next
  case no: False
  let ?down = "fst (download_to_path_with_retries (\<lambda>_. download_to_path (ce_backend E) (pl_storage pl) key))"
  have eq: "open_blob_for_streaming E pl key =
    (case get_size (ce_backend E) (pl_storage pl) key of
       Inl _ \<Rightarrow> (Inl (CStorageError ''Failed to stat blob''), pl_ledger pl)
     | Inr n \<Rightarrow> (case manager_reserve (ce_available E) (pl_ledger pl) (of_nat n) of
          (Inl e, l1) \<Rightarrow> (Inl (CStorageError (quota_message e)), l1)
        | (Inr r, l1) \<Rightarrow> (case ?down of
             Inl _ \<Rightarrow> (Inl (CStorageError ''Failed to download blob to temp file''), drop_reservation l1 r)
           | Inr d \<Rightarrow> if length d \<noteq> n then (Inl (CStorageError ''downloaded blob size mismatch''), drop_reservation l1 r)
               else (case commit_written l1 r (of_nat n) of
                    (Inl _, r, l2) \<Rightarrow> (Inl (CStorageError ''temporary quota''), drop_reservation l2 r)
                  | (Inr _, r, l2) \<Rightarrow> (Inr (Some d, Some r), l2)))))"
    using no by (cases "get_path (ce_backend E) (pl_storage pl) key") (auto simp: open_blob_for_streaming_def Let_def split: option.splits)
  show ?thesis
  proof (cases "get_size (ce_backend E) (pl_storage pl) key")
    case (Inl e)
    with assms eq show ?thesis by auto
  next
    case n: (Inr n)
    obtain x l1 where m: "manager_reserve (ce_available E) (pl_ledger pl) (of_nat n) = (x, l1)" by (metis surj_pair)
    show ?thesis
    proof (cases x)
      case (Inl e)
      with m manager_reserve_Inl have "l1 = pl_ledger pl" by blast
      with assms n m Inl show ?thesis unfolding eq by auto
    next
      case (Inr r)
      note rc = reserve_commit_drop [OF m [unfolded Inr]]
      from rc(2) obtain r2 l2 where "commit_written l1 r (of_nat n) = (Inr (), r2, l2)" "drop_reservation l2 r2 = pl_ledger pl" by blast
      with assms n m Inr rc(1) show ?thesis unfolding eq
        by (cases ?down) (auto simp: release_guard_def split: if_splits)
    qed
  qed
qed

section \<open>The whole conversion\<close>

text \<open>Everything before storing only changes the ledger, and restores it.\<close>

lemma convert_cases:
  assumes g: "gear_contract (ce_gear E)" and rd: "read_contract (ce_reads E)"
    and blob: "\<forall>path guard l. open_blob_for_streaming E pl (object_key_of oid) = (Inr (path, guard), l) \<longrightarrow> path = Some blob"
  shows "(\<exists>e. convert E config u1 u2 oid pl = Some (Inl e, pl) \<and>
       (cc_enabled config \<and> check_bounds config (length blob) = Inr () \<and> scheme config = Inr sch0 \<and>
          check_remote E config (pl_storage pl) (object_key_of oid) = Inr () \<longrightarrow> (\<exists>m. e = CStorageError m))) \<or>
    (\<exists>sch l res pl'. scheme config = Inr sch \<and> check_bounds config (length blob) = Inr () \<and>
       store_converted E config u1 u2 oid (length blob) (chunked E sch (pl_index pl) blob) (pl\<lparr>pl_ledger := l\<rparr>) = (res, pl') \<and>
       convert E config u1 u2 oid pl = Some (res, pl'\<lparr>pl_ledger := pl_ledger pl\<rparr>))"
proof (cases "cc_enabled config \<and> check_remote E config (pl_storage pl) (object_key_of oid) = Inr ()")
  case False
  then show ?thesis by (cases "check_remote E config (pl_storage pl) (object_key_of oid)") (auto simp: convert_def Let_def)
next
  case on: True
  obtain x l where x: "open_blob_for_streaming E pl (object_key_of oid) = (x, l)" by (metis surj_pair)
  note led = open_blob_ledger [OF x]
  have open_err: "\<exists>m. e = CStorageError m" if "x = Inl e" for e
    using x that by (auto simp: open_blob_for_streaming_def Let_def split: sum.splits option.splits prod.splits if_splits)
  show ?thesis
  proof (cases x)
    case (Inl e)
    with led [of pl] have "l = pl_ledger pl" by blast
    with on x Inl open_err show ?thesis by (auto simp: convert_def Let_def)
  next
    case (Inr pg)
    then obtain guard where pg: "x = Inr (Some blob, guard)" using blob x by (cases pg) auto
    have rel: "release_guard guard (q\<lparr>pl_ledger := l\<rparr>) = q\<lparr>pl_ledger := pl_ledger pl\<rparr>" for q
      using led [of q] pg by blast
    have ledger: "pl_ledger pl' = l" if "store_converted E config u1 u2 oid n cv (pl\<lparr>pl_ledger := l\<rparr>) = (res, pl')" for n cv res pl'
      using that by (auto simp: store_converted_def Let_def split: sum.splits prod.splits)
    have same: "release_guard guard pl' = pl'\<lparr>pl_ledger := pl_ledger pl\<rparr>" if "pl_ledger pl' = l" for pl'
    proof -
      have "pl'\<lparr>pl_ledger := l\<rparr> = pl'" using that by (cases pl') auto
      with rel [of pl'] show ?thesis by simp
    qed
    have run: "convert E config u1 u2 oid pl = map_option (map_prod id (release_guard guard))
       (case check_bounds config (length blob) of
          Inl e \<Rightarrow> Some (Inl e, pl\<lparr>pl_ledger := l\<rparr>)
        | Inr _ \<Rightarrow> (case scheme config of Inl _ \<Rightarrow> Some (Inl (CPanic ''conversion setup''), pl\<lparr>pl_ledger := l\<rparr>)
           | Inr sch \<Rightarrow> Some (store_converted E config u1 u2 oid (length blob) (chunked E sch (pl_index pl) blob) (pl\<lparr>pl_ledger := l\<rparr>))))"
      using on x pg by (cases "check_bounds config (length blob)"; cases "scheme config")
        (simp_all add: convert_def Let_def chunk_blob_eq [OF g rd])
    show ?thesis
    proof (cases "(\<exists>e. check_bounds config (length blob) = Inl e) \<or> (\<exists>e. scheme config = Inl e)")
      case True
      with run rel [of pl] show ?thesis by (cases "check_bounds config (length blob)"; cases "scheme config") auto
    next
      case False
      then obtain u sch where cb: "check_bounds config (length blob) = Inr ()" "scheme config = Inr sch"
        by (cases "check_bounds config (length blob)"; cases "scheme config") auto
      obtain res pl' where st: "store_converted E config u1 u2 oid (length blob) (chunked E sch (pl_index pl) blob) (pl\<lparr>pl_ledger := l\<rparr>) = (res, pl')"
        by (metis surj_pair)
      with run cb same [OF ledger [OF st]] show ?thesis by auto
    qed
  qed
qed

context conversion_store
begin

lemma convert_safe:
  assumes S: "ce_backend E = S" and inv: "inv (pl_storage pl)" and reads: "read_contract (ce_reads E)"
    and blob: "content (pl_storage pl) (object_key_of oid) = Some blob"
    and oid: "oid = hex_encode (ce_crates E) (sha256 (ce_crates E) blob)"
    and limit: "unat (max_conversion_size config) \<le> 536870912"
    and ready: "\<And>sch. conversion_ready content fresh E sch (pl_index pl) blob u1 u2 (pl_storage pl)"
  shows "\<exists>res pl'. convert E config u1 u2 oid pl = Some (res, pl') \<and> inv (pl_storage pl') \<and> pl_ledger pl' = pl_ledger pl \<and>
    (case res of
       Inl e \<Rightarrow> content (pl_storage pl') (object_key_of oid) = Some blob \<and> pl_index pl' = pl_index pl
     | Inr r \<Rightarrow> \<exists>h refs. mh_from_hex (ce_crates E) oid = Inr h \<and> get_file_refs (pl_index pl') h = Some refs \<and>
         \<lparr>fr_shard_id = cr_shard_hash r, fr_file_index = 0, fr_file_size = length blob\<rparr> \<in> set refs \<and>
         reconstruct_single_file_ref_to_temp (ce_crates E) (fetch_of (pl_storage pl')) oid h
           \<lparr>fr_shard_id = cr_shard_hash r, fr_file_index = 0, fr_file_size = length blob\<rparr> = Inr (blob, of_nat (length blob)))"
proof -
  have "gear_contract (ce_gear E)" using ready by (simp add: conversion_ready_def)
  moreover have "\<forall>path guard l. open_blob_for_streaming E pl (object_key_of oid) = (Inr (path, guard), l) \<longrightarrow> path = Some blob"
    using open_blob_content [OF S inv blob] by blast
  ultimately
  consider (early) e where "convert E config u1 u2 oid pl = Some (Inl e, pl)"
    | (stored) sch l res pl' where "check_bounds config (length blob) = Inr ()"
        "store_converted E config u1 u2 oid (length blob) (chunked E sch (pl_index pl) blob) (pl\<lparr>pl_ledger := l\<rparr>) = (res, pl')"
        "convert E config u1 u2 oid pl = Some (res, pl'\<lparr>pl_ledger := pl_ledger pl\<rparr>)"
    using convert_cases [of E pl oid blob config u1 u2 CNone] reads by blast
  then show ?thesis
  proof cases
    case early
    with inv blob show ?thesis by simp
  next
    case stored
    have "length blob \<le> 536870912" using stored(1) limit by (auto simp: check_bounds_def split: if_splits)
    from store_converted_safe [OF S _ _ _ oid this stored(2)] ready inv blob stored(3) show ?thesis
      by (cases res) simp_all
  qed
qed

lemma check_remote_content:
  assumes "ce_backend E = S" "inv (pl_storage pl)" "content (pl_storage pl) key = Some blob" "check_bounds config (length blob) = Inr ()"
  shows "check_remote E config (pl_storage pl) key = Inr ()"
  using assms size_content [OF assms(2,3)] by (auto simp: check_remote_def split: sum.split option.split)

lemma convert_error:
  assumes S: "ce_backend E = S" and inv: "inv (pl_storage pl)" and reads: "read_contract (ce_reads E)" and gear: "gear_contract (ce_gear E)"
    and blob: "content (pl_storage pl) (object_key_of oid) = Some blob"
    and on: "cc_enabled config" "check_bounds config (length blob) = Inr ()" "scheme config = Inr sch"
    and stores: "\<And>l e pl'. store_converted E config u1 u2 oid (length blob) (chunked E sch (pl_index pl) blob) (pl\<lparr>pl_ledger := l\<rparr>) =
      (Inl e, pl') \<Longrightarrow> \<exists>m. e = CStorageError m"
    and run: "convert E config u1 u2 oid pl = Some (Inl e, pl')"
  shows "\<exists>m. e = CStorageError m"
proof -
  have "\<forall>path guard l. open_blob_for_streaming E pl (object_key_of oid) = (Inr (path, guard), l) \<longrightarrow> path = Some blob"
    using open_blob_content [OF S inv blob] by blast
  from convert_cases [OF gear reads this, of config u1 u2 sch] check_remote_content [OF S inv blob on(2)]
  show ?thesis using on run stores by auto
qed

end

text \<open>With sound data and a consistent index, the building steps succeed.\<close>

lemma store_converted_error:
  assumes lz4: "lz4_contract (ce_crates E)" and hex: "hex_contract (ce_crates E)" and gear: "gear_contract (ce_gear E)"
    and len: "length blob \<le> 536870912" and sha: "length (sha256 (ce_crates E) blob) = 32"
    and oid: "oid = hex_encode (ce_crates E) (sha256 (ce_crates E) blob)"
    and magic: "magic_once (footer_serialize (build_footer (ce_crates E) (cv_builder (chunked E sch idx blob))))"
    and sizes: "\<And>h r. first_ref (file_to_shards (pl_index pl)) h = Some r \<Longrightarrow> mh_from_hex (ce_crates E) oid = Inr h \<Longrightarrow>
      fr_file_size r = length blob"
    and run: "store_converted E config u1 u2 oid (length blob) (chunked E sch idx blob) pl = (Inl e, pl')"
  shows "\<exists>m. e = CStorageError m"
proof -
  let ?C = "ce_crates E" and ?cv = "chunked E sch idx blob" and ?raws = "blob_chunks (ce_gear E) blob"
  note fits = blob_fits [OF lz4 gear len]
  have "xorb_fits ?C sch ?raws (build_footer ?C (cv_builder ?cv))"
    using fits magic len by (simp add: xorb_fits_def MAX_CHUNKS_PER_XORB_def blob_chunks_shape(1) [OF gear])
  then obtain xr where xr: "build ?C (cv_builder ?cv) = Inr xr"
    using build_ok [of ?C sch ?raws "cv_builder ?cv"] push_raws_new(1) [of ?C sch ?raws idx] by (auto simp: chunked_def)
  obtain h where h: "mh_from_hex ?C oid = Inr h" using hex sha by (auto simp: oid mh_from_hex_def hex_contract_def)
  have sh: "shard_of_conversion ?C xr ?cv h = Inr (sb_bytes (converted_builder ?C sch ?raws xr h))"
    using shard_of_conversion_eq [of ?raws ?C xr idx sch h] fits(1) by (simp add: chunked_def)
  have "conflicting (map_option fr_file_size (first_ref (file_to_shards (pl_index pl)) h)) (length blob) = None"
    using sizes [OF _ h] by (cases "first_ref (file_to_shards (pl_index pl)) h") (simp_all add: conflicting_def)
  then have reg: "check_sizes (file_to_shards (pl_index pl)) Map.empty
      [\<lparr>vf_file_hash = h, vf_file_index = 0, vf_file_size = length blob\<rparr>] = Inr ()"
    by (simp add: conflicting_def)
  show ?thesis
    using run unfolding store_converted_def Let_def xr
    by (auto simp: h sh store_xorb_def register_verified_shard_def reg simp del: check_sizes.simps
        split: sum.splits prod.splits bool.splits)
qed

end
