(* ===== verification/Local_Storage.thy ===== *)
theory Local_Storage
  imports Object_Store
begin

text \<open>
  The local filesystem backend, \<^verbatim>\<open>src/src/storage/local.rs\<close>. A filesystem below the storage
  root is a map from paths, lists of components relative to the root, to nodes; the root is
  the empty path. A symbolic link is a node of its own, since the code refuses to follow one.
  Host errors other than a missing file, a file used as a directory and a directory used as a
  file are not modelled.

  The lemmas show that no key leaves the root, that a write is atomic at every point where
  the process can stop, and that the backend meets the contract of \<open>Object_Store\<close>.
\<close>

type_synonym path = "string list"

datatype fs_node = FFile bytes | FDir | FLink

type_synonym fs = "path \<rightharpoonup> fs_node"

section \<open>Keys and paths\<close>

fun split_on :: "(char \<Rightarrow> bool) \<Rightarrow> string \<Rightarrow> string list" where
  "split_on sep [] = [[]]"
| "split_on sep (c # cs) =
     (if sep c then [] # split_on sep cs
      else case split_on sep cs of [] \<Rightarrow> [[c]] | w # ws \<Rightarrow> (c # w) # ws)"

definition BACKSLASH :: char where
  "BACKSLASH = CHR 0x5C"

definition NUL :: char where
  "NUL = CHR 0x00"

text \<open>The components of a path: empty parts and single dots are dropped.\<close>

definition path_components :: "string \<Rightarrow> path" where
  "path_components key = filter (\<lambda>c. c \<noteq> [] \<and> c \<noteq> ''.'') (split_on (\<lambda>c. c = CHR ''/'') key)"

definition object_path :: "string \<Rightarrow> StorageError + path" where
  "object_path key =
     (if (case key of [] \<Rightarrow> False | c # _ \<Rightarrow> c = CHR ''/'' \<or> c = BACKSLASH)
      then Inl (InvalidArgument ''Invalid key: absolute path not allowed'')
      else if NUL \<in> set key then Inl (InvalidArgument ''Invalid key: contains null bytes'')
      else if key = [] then Inl (InvalidArgument ''Invalid key: empty key'')
      else if ''..'' \<in> set (split_on (\<lambda>c. c = CHR ''/'' \<or> c = BACKSLASH) key)
      then Inl (InvalidArgument ''Invalid key: path traversal detected'')
      else Inr (path_components key))"

text \<open>\<open>with_extension\<close>: the text after the last dot is replaced, unless the name starts with its only dot.\<close>

definition file_stem :: "string \<Rightarrow> string" where
  "file_stem name =
     (case dropWhile (\<lambda>c. c \<noteq> CHR ''.'') (rev name) of
        [] \<Rightarrow> name
      | _ # stem \<Rightarrow> if stem = [] then name else rev stem)"

definition unique_temp_path :: "string \<Rightarrow> path \<Rightarrow> path" where
  "unique_temp_path uuid dest = butlast dest @ [file_stem (last dest) @ ''.'' @ uuid @ ''.tmp'']"

section \<open>Looking up paths\<close>

datatype lookup = LNotFound | LNotDir | LNode fs_node

definition is_file :: "fs_node option \<Rightarrow> bool" where
  "is_file n = (case n of Some (FFile _) \<Rightarrow> True | _ \<Rightarrow> False)"

text \<open>\<open>symlink_metadata\<close> of a path none of whose proper prefixes is a link.\<close>

definition symlink_metadata :: "fs \<Rightarrow> path \<Rightarrow> lookup" where
  "symlink_metadata fs p =
     (case fs p of
        Some n \<Rightarrow> LNode n
      | None \<Rightarrow> if list_ex (\<lambda>k. is_file (fs (take k p))) [0..<length p] then LNotDir else LNotFound)"

fun reject_links_from :: "fs \<Rightarrow> path \<Rightarrow> nat list \<Rightarrow> StorageError + unit" where
  "reject_links_from fs p [] = Inr ()"
| "reject_links_from fs p (k # ks) =
     (case symlink_metadata fs (take k p) of
        LNode FLink \<Rightarrow> Inl (InvalidArgument ''Object key contains a symbolic-link path component'')
      | LNode _ \<Rightarrow> reject_links_from fs p ks
      | LNotFound \<Rightarrow> Inr ()
      | LNotDir \<Rightarrow> Inl (Internal ''Failed to inspect local storage path''))"

definition reject_symlink_components :: "fs \<Rightarrow> path \<Rightarrow> StorageError + unit" where
  "reject_symlink_components fs p =
     (case fs [] of
        None \<Rightarrow> Inl (InvalidArgument ''Configured local storage root no longer exists'')
      | Some FDir \<Rightarrow> reject_links_from fs p [1..<Suc (length p)]
      | Some _ \<Rightarrow> Inl (InvalidArgument ''Configured local storage root is no longer a directory''))"

text \<open>Without links on the way a path that exists is its own canonical form.\<close>

definition canonicalize_confined :: "fs \<Rightarrow> path \<Rightarrow> StorageError + path" where
  "canonicalize_confined fs p =
     rbind (reject_symlink_components fs p) (\<lambda>_.
     case symlink_metadata fs p of
       LNode _ \<Rightarrow> Inr p
     | LNotFound \<Rightarrow> Inl (NotFound (concat p))
     | LNotDir \<Rightarrow> Inl (Internal ''Failed to resolve local storage path''))"

definition not_found_key :: "string \<Rightarrow> StorageError \<Rightarrow> StorageError" where
  "not_found_key key e = (case e of NotFound _ \<Rightarrow> NotFound key | _ \<Rightarrow> e)"

section \<open>Writing\<close>

text \<open>\<open>create_dir_all\<close>: the directories made one after the other, from the root down.\<close>

fun create_dirs :: "fs \<Rightarrow> path \<Rightarrow> nat list \<Rightarrow> (StorageError + fs) \<times> fs list" where
  "create_dirs fs p [] = (Inr fs, [])"
| "create_dirs fs p (k # ks) =
     (case fs (take k p) of
        None \<Rightarrow> (let fs' = fs(take k p \<mapsto> FDir); (res, trace) = create_dirs fs' p ks in (res, fs' # trace))
      | Some FDir \<Rightarrow> create_dirs fs p ks
      | Some _ \<Rightarrow> (Inl (Internal ''Failed to create dirs''), []))"

definition create_dir_all :: "fs \<Rightarrow> path \<Rightarrow> (StorageError + fs) \<times> fs list" where
  "create_dir_all fs p = create_dirs fs p [1..<Suc (length p)]"

text \<open>The result with the states the filesystem goes through.\<close>

definition prepare_parent :: "fs \<Rightarrow> path \<Rightarrow> (StorageError + fs) \<times> fs list" where
  "prepare_parent fs p =
     (if p = [] then (Inl (InvalidArgument ''Object key resolves outside the configured local storage root''), [])
      else
        case reject_symlink_components fs (butlast p) of
          Inl e \<Rightarrow> (Inl e, [])
        | Inr _ \<Rightarrow>
            (case create_dir_all fs (butlast p) of
               (Inl e, trace) \<Rightarrow> (Inl e, trace)
             | (Inr fs', trace) \<Rightarrow> (rbind (canonicalize_confined fs' (butlast p)) (\<lambda>_. Inr fs'), trace)))"

text \<open>\<open>rename\<close> of a file over a path; a directory is not replaced.\<close>

definition fs_rename :: "fs \<Rightarrow> path \<Rightarrow> path \<Rightarrow> fs option" where
  "fs_rename fs source dest =
     (case (fs source, fs dest) of
        (_, Some FDir) \<Rightarrow> None
      | (Some n, _) \<Rightarrow> Some (fs(source := None, dest \<mapsto> n))
      | (None, _) \<Rightarrow> None)"

definition fs_after :: "fs \<Rightarrow> fs list \<Rightarrow> fs" where
  "fs_after fs trace = last (fs # trace)"

text \<open>
  \<open>put\<close> with every intermediate state: the directories, the temporary file growing to its
  full content, the rename; on a failed rename the guard removes the temporary file.
\<close>

definition local_put_trace :: "string \<Rightarrow> fs \<Rightarrow> string \<Rightarrow> bytes \<Rightarrow> (StorageError + unit) \<times> fs list" where
  "local_put_trace uuid fs key data =
     (case rbind (object_path key) (\<lambda>p. rbind (reject_symlink_components fs p) (\<lambda>_. Inr p)) of
        Inl e \<Rightarrow> (Inl e, [])
      | Inr p \<Rightarrow>
          (case prepare_parent fs p of
             (Inl e, trace) \<Rightarrow> (Inl e, trace)
           | (Inr fs1, trace) \<Rightarrow>
               (let temp = unique_temp_path uuid p;
                    writing = map (\<lambda>n. fs1(temp \<mapsto> FFile (take n data))) [0..<Suc (length data)];
                    fs2 = fs1(temp \<mapsto> FFile data)
                in case fs_rename fs2 temp p of
                     Some fs3 \<Rightarrow> (Inr (), trace @ writing @ [fs3])
                   | None \<Rightarrow> (Inl (Internal ''Failed to rename temp to final''), trace @ writing @ [fs2(temp := None)]))))"

definition local_put :: "string \<Rightarrow> fs \<Rightarrow> string \<Rightarrow> bytes \<Rightarrow> (StorageError + unit) \<times> fs" where
  "local_put uuid fs key data = (case local_put_trace uuid fs key data of (res, trace) \<Rightarrow> (res, fs_after fs trace))"

text \<open>
  \<open>put_from_path\<close> moves a file from outside the root into the store. Whether the two are on one
  file system, so that the rename succeeds, is a parameter; otherwise the content is copied to
  a temporary file beside the destination first. The last component of the result is what is
  left at the source.
\<close>

definition copy_then_rename :: "string \<Rightarrow> fs \<Rightarrow> bytes option \<Rightarrow> path \<Rightarrow> (StorageError + unit) \<times> fs" where
  "copy_then_rename uuid fs source dest =
     (case source of
        None \<Rightarrow> (Inl (Internal ''Failed to copy''), fs)
      | Some data \<Rightarrow>
          (let temp = unique_temp_path uuid dest;
               fs2 = fs(temp \<mapsto> FFile data)
           in case fs_rename fs2 temp dest of
                Some fs3 \<Rightarrow> (Inr (), fs3)
              | None \<Rightarrow> (Inl (Internal ''Failed to rename''), fs2(temp := None))))"

definition local_put_from_path ::
  "string \<Rightarrow> bool \<Rightarrow> fs \<Rightarrow> string \<Rightarrow> bytes option \<Rightarrow> (StorageError + unit) \<times> fs \<times> bytes option" where
  "local_put_from_path uuid same_device fs key source =
     (case rbind (object_path key) (\<lambda>p. rbind (reject_symlink_components fs p) (\<lambda>_. Inr p)) of
        Inl e \<Rightarrow> (Inl e, fs, source)
      | Inr dest \<Rightarrow>
          (case prepare_parent fs dest of
             (Inl e, trace) \<Rightarrow> (Inl e, fs_after fs trace, source)
           | (Inr fs1, trace) \<Rightarrow>
               (case (if same_device \<and> fs1 dest \<noteq> Some FDir then source else None) of
                  Some data \<Rightarrow> (Inr (), fs1(dest \<mapsto> FFile data), None)
                | None \<Rightarrow>
                    (case copy_then_rename uuid fs1 source dest of
                       (Inl e, fs2) \<Rightarrow> (Inl e, fs2, source)
                     | (Inr _, fs2) \<Rightarrow> (Inr (), fs2, None)))))"

section \<open>Reading and deleting\<close>

definition local_get :: "fs \<Rightarrow> string \<Rightarrow> StorageError + bytes" where
  "local_get fs key =
     rbind (object_path key) (\<lambda>p.
     rbind (map_err (not_found_key key) (canonicalize_confined fs p)) (\<lambda>p.
     case fs p of
       Some (FFile data) \<Rightarrow> Inr data
     | None \<Rightarrow> Inl (NotFound key)
     | _ \<Rightarrow> Inl (Internal ''Failed to read'')))"

text \<open>The path of an object, given as what opening that path finds.\<close>

definition open_path :: "fs \<Rightarrow> path \<Rightarrow> bytes option" where
  "open_path fs p = (case fs p of Some (FFile data) \<Rightarrow> Some data | _ \<Rightarrow> None)"

definition local_get_path :: "fs \<Rightarrow> string \<Rightarrow> StorageError + bytes option option" where
  "local_get_path fs key =
     rbind (object_path key) (\<lambda>p.
     rbind (reject_symlink_components fs p) (\<lambda>_.
     case canonicalize_confined fs p of
       Inr p \<Rightarrow> Inr (Some (open_path fs p))
     | Inl (NotFound _) \<Rightarrow> Inr (Some (open_path fs p))
     | Inl e \<Rightarrow> Inl e))"

definition local_download_to_path :: "fs \<Rightarrow> string \<Rightarrow> StorageError + bytes" where
  "local_download_to_path fs key =
     rbind (object_path key) (\<lambda>p.
     rbind (map_err (not_found_key key) (canonicalize_confined fs p)) (\<lambda>p.
     case fs p of
       Some (FFile data) \<Rightarrow> Inr data
     | None \<Rightarrow> Inl (NotFound key)
     | _ \<Rightarrow> Inl (Internal ''Object path is not a file'')))"

definition local_exists :: "fs \<Rightarrow> string \<Rightarrow> StorageError + bool" where
  "local_exists fs key =
     rbind (object_path key) (\<lambda>p.
     rbind (reject_symlink_components fs p) (\<lambda>_.
     case canonicalize_confined fs p of
       Inr _ \<Rightarrow> Inr True
     | Inl (NotFound _) \<Rightarrow> Inr False
     | Inl e \<Rightarrow> Inl e))"

definition local_delete :: "fs \<Rightarrow> string \<Rightarrow> (StorageError + unit) \<times> fs" where
  "local_delete fs key =
     (case object_path key of
        Inl e \<Rightarrow> (Inl e, fs)
      | Inr p \<Rightarrow>
          (case canonicalize_confined fs p of
             Inl (NotFound _) \<Rightarrow> (Inr (), fs)
           | Inl e \<Rightarrow> (Inl e, fs)
           | Inr p \<Rightarrow>
               (case fs p of
                  Some FDir \<Rightarrow> (Inl (Internal ''Failed to delete''), fs)
                | None \<Rightarrow> (Inr (), fs)
                | Some _ \<Rightarrow> (Inr (), fs(p := None)))))"

text \<open>The length the host reports for a directory is a parameter.\<close>

definition local_get_size :: "nat \<Rightarrow> fs \<Rightarrow> string \<Rightarrow> StorageError + nat" where
  "local_get_size dir_len fs key =
     rbind (object_path key) (\<lambda>p.
     rbind (map_err (not_found_key key) (canonicalize_confined fs p)) (\<lambda>p.
     case fs p of
       Some (FFile data) \<Rightarrow> Inr (length data)
     | None \<Rightarrow> Inl (NotFound key)
     | _ \<Rightarrow> Inr dir_len))"

text \<open>
  The listing below a prefix, as the set of keys it yields: every file below the root of the
  listing that is reached through directories. The order is the host's.
\<close>

definition key_of_path :: "path \<Rightarrow> string" where
  "key_of_path p = (case p of [] \<Rightarrow> [] | c # cs \<Rightarrow> c @ concat (map (\<lambda>d. CHR ''/'' # d) cs))"

definition listed_below :: "fs \<Rightarrow> path \<Rightarrow> path set" where
  "listed_below fs root =
     {p. \<exists>cs data. p = root @ cs \<and> cs \<noteq> [] \<and> fs p = Some (FFile data) \<and>
        (\<forall>k<length cs. fs (root @ take k cs) = Some FDir)}"

definition list_objects :: "fs \<Rightarrow> string \<Rightarrow> StorageError + string set" where
  "list_objects fs prefix =
     rbind (if prefix = [] then Inr [] else object_path prefix) (\<lambda>root.
     case canonicalize_confined fs root of
       Inl (NotFound _) \<Rightarrow> Inr {}
     | Inl e \<Rightarrow> Inl e
     | Inr root \<Rightarrow>
         (case fs root of
            Some FDir \<Rightarrow> Inr (key_of_path ` listed_below fs root)
          | _ \<Rightarrow> Inl (Internal ''Failed to read dir'')))"

definition local_backend :: "nat \<Rightarrow> (fs, string) StorageBackend" where
  "local_backend dir_len =
     \<lparr>put = local_put, get = local_get, get_path = local_get_path, obj_exists = local_exists,
      delete = local_delete, get_size = local_get_size dir_len, download_to_path = local_download_to_path\<rparr>"

section \<open>Confinement of keys\<close>

lemma split_on_ne [simp]: "split_on sep s \<noteq> []"
  by (induction s) (auto split: list.split)

lemma split_on_no_sep: "w \<in> set (split_on sep s) \<Longrightarrow> c \<in> set w \<Longrightarrow> \<not> sep c"
proof (induction s arbitrary: w)
  case (Cons a s)
  obtain v vs where s: "split_on sep s = v # vs" by (cases "split_on sep s") auto
  from Cons.prems Cons.IH [of v] Cons.IH [of w] show ?case
    by (auto simp: s split: if_splits)
qed simp

text \<open>A part between slashes splits further at other separators, so it is itself a part or contains one.\<close>

lemma split_on_coarser:
  assumes "\<And>c. c \<in> set w \<Longrightarrow> \<not> sep' c" "\<And>c. sep c \<Longrightarrow> sep' c" "w \<in> set (split_on sep s)"
  shows "w \<in> set (split_on sep' s)"
proof -
  have "(hd (split_on sep s) = w \<longrightarrow> hd (split_on sep' s) = w) \<and>
      (w \<in> set (tl (split_on sep s)) \<longrightarrow> w \<in> set (tl (split_on sep' s)))"
    if "\<And>c. c \<in> set w \<Longrightarrow> \<not> sep' c" for w
    using that
  proof (induction s arbitrary: w)
    case (Cons a s)
    obtain v vs where s: "split_on sep s = v # vs" by (cases "split_on sep s") auto
    obtain v' vs' where s': "split_on sep' s = v' # vs'" by (cases "split_on sep' s") auto
    note IH = Cons.IH [unfolded s s' list.sel]
    have tl: "w \<in> set vs' " if "w \<in> set vs" using IH [of w] Cons.prems that by auto
    have hd: "v' = v" if "\<And>c. c \<in> set v \<Longrightarrow> \<not> sep' c" using IH [of v] that by auto
    show ?case
    proof (cases "sep a")
      case True
      have "w = v \<Longrightarrow> v' = v" using hd Cons.prems by blast
      then show ?thesis using True assms(2) tl by (auto simp: s s')
    next
      case False
      have "a # v = w \<Longrightarrow> \<not> sep' a \<and> v' = v" using hd Cons.prems by auto
      then show ?thesis using False tl Cons.prems by (auto simp: s s')
    qed
  qed simp
  from this [OF assms(1)] assms(3) show ?thesis
    by (cases "split_on sep s"; cases "split_on sep' s") auto
qed

lemma object_path_components:
  assumes "object_path key = Inr p" "c \<in> set p"
  shows "c \<noteq> [] \<and> c \<noteq> ''.'' \<and> c \<noteq> ''..'' \<and> CHR ''/'' \<notin> set c \<and> NUL \<notin> set c"
proof -
  from assms have c: "c \<in> set (split_on (\<lambda>c. c = CHR ''/'') key)" "c \<noteq> []" "c \<noteq> ''.''"
    and nul: "NUL \<notin> set key" and dots: "''..'' \<notin> set (split_on (\<lambda>c. c = CHR ''/'' \<or> c = BACKSLASH) key)"
    by (auto simp: object_path_def path_components_def split: if_splits)
  have "c \<noteq> ''..''"
    using split_on_coarser [of "''..''" "\<lambda>c. c = CHR ''/'' \<or> c = BACKSLASH" "\<lambda>c. c = CHR ''/''" key] c(1) dots
    by (auto simp: BACKSLASH_def)
  moreover have "set w \<subseteq> set s" if "w \<in> set (split_on sep s)" for w :: string and sep s
    using that by (induction s arbitrary: w) (auto split: if_splits list.splits, blast+)
  ultimately show ?thesis using c nul split_on_no_sep [OF c(1)] by blast
qed

section \<open>Well-formed filesystems\<close>

definition fs_ok :: "fs \<Rightarrow> bool" where
  "fs_ok fs \<longleftrightarrow> fs [] = Some FDir \<and> (\<forall>p. p \<noteq> [] \<longrightarrow> fs p \<noteq> None \<longrightarrow> fs (butlast p) = Some FDir)"

lemma fs_ok_prefix:
  assumes "fs_ok fs" "fs p \<noteq> None" "k < length p"
  shows "fs (take k p) = Some FDir"
  using assms(2,3)
proof (induction p rule: rev_induct)
  case (snoc c p)
  have "fs p = Some FDir" using assms(1) snoc.prems(1) unfolding fs_ok_def by (metis append_is_Nil_conv butlast_snoc not_Cons_self2)
  with snoc show ?case by (cases "k = length p") simp_all
qed simp

lemma reject_links_dirs:
  "(\<And>k. k \<in> set ks \<Longrightarrow> \<exists>n. fs (take k p) = Some n \<and> n \<noteq> FLink) \<Longrightarrow> reject_links_from fs p ks = Inr ()"
proof (induction ks)
  case (Cons k ks)
  from Cons.prems [of k] obtain n where n: "fs (take k p) = Some n" "n \<noteq> FLink" by auto
  with Cons show ?case by (cases n) (simp_all add: symlink_metadata_def)
qed simp

lemma reject_existing:
  assumes "fs_ok fs" "fs p = Some n" "n \<noteq> FLink"
  shows "reject_symlink_components fs p = Inr ()"
proof -
  have root: "fs [] = Some FDir" using assms(1) by (simp add: fs_ok_def)
  have "reject_links_from fs p [1..<Suc (length p)] = Inr ()"
  proof (rule reject_links_dirs)
    fix k assume "k \<in> set [1..<Suc (length p)]"
    then have "k < length p \<or> take k p = p" by auto
    with fs_ok_prefix [OF assms(1), of p k] assms(2,3) show "\<exists>n. fs (take k p) = Some n \<and> n \<noteq> FLink" by auto
  qed
  with root show ?thesis by (simp add: reject_symlink_components_def)
qed

lemma canonicalize_existing:
  assumes "fs_ok fs" "fs p = Some n" "n \<noteq> FLink"
  shows "canonicalize_confined fs p = Inr p"
  using reject_existing [OF assms] assms(2) by (simp add: canonicalize_confined_def symlink_metadata_def)

lemma canonicalize_Inr: "canonicalize_confined fs p = Inr q \<Longrightarrow> q = p \<and> fs p \<noteq> None"
  by (auto simp: canonicalize_confined_def symlink_metadata_def rbind_eq_Inr split: lookup.splits option.splits if_splits)

lemma canonicalize_NotFound: "canonicalize_confined fs p = Inl (NotFound m) \<Longrightarrow> fs p = None"
proof -
  have "reject_links_from fs p ks \<noteq> Inl (NotFound m)" for ks
    by (induction ks) (auto split: lookup.splits fs_node.splits)
  then have "reject_symlink_components fs p \<noteq> Inl (NotFound m)"
    by (simp add: reject_symlink_components_def split: option.splits fs_node.splits)
  then show "canonicalize_confined fs p = Inl (NotFound m) \<Longrightarrow> ?thesis"
    by (cases "reject_symlink_components fs p")
       (auto simp: canonicalize_confined_def symlink_metadata_def split: lookup.splits option.splits if_splits)
qed

section \<open>The content of the store\<close>

definition obj_content :: "fs \<Rightarrow> string \<Rightarrow> bytes option" where
  "obj_content fs key = (case object_path key of Inl _ \<Rightarrow> None | Inr p \<Rightarrow> open_path fs p)"

definition same_object :: "string \<Rightarrow> string \<Rightarrow> bool" where
  "same_object k k' \<longleftrightarrow> (\<exists>p. object_path k = Inr p \<and> object_path k' = Inr p)"

definition temp_fresh :: "string \<Rightarrow> fs \<Rightarrow> string \<Rightarrow> bool" where
  "temp_fresh uuid fs key \<longleftrightarrow> (\<forall>p. object_path key = Inr p \<longrightarrow> fs (unique_temp_path uuid p) = None)"

lemma open_path_Some: "open_path fs p = Some d \<longleftrightarrow> fs p = Some (FFile d)"
  by (auto simp: open_path_def split: option.splits fs_node.splits)

lemma obj_content_Some: "obj_content fs k = Some d \<longleftrightarrow> (\<exists>p. object_path k = Inr p \<and> fs p = Some (FFile d))"
  by (auto simp: obj_content_def open_path_Some split: sum.splits)

lemma node_case_Inr:
  "(case n of Some (FFile data) \<Rightarrow> Inr data | None \<Rightarrow> Inl e | Some FDir \<Rightarrow> Inl e' | Some FLink \<Rightarrow> Inl e'') = Inr d \<longleftrightarrow> n = Some (FFile d)"
  by (auto split: option.splits fs_node.splits)

lemma canonicalize_file: "fs_ok fs \<Longrightarrow> canonicalize_confined fs p = Inr q \<and> fs q = Some (FFile d) \<longleftrightarrow> q = p \<and> fs p = Some (FFile d)"
  using canonicalize_Inr canonicalize_existing by blast

lemma local_get_iff: "fs_ok fs \<Longrightarrow> local_get fs k = Inr d \<longleftrightarrow> obj_content fs k = Some d"
  by (simp add: local_get_def obj_content_Some rbind_eq_Inr map_err_eq_Inr node_case_Inr canonicalize_file)

lemma local_download_iff: "fs_ok fs \<Longrightarrow> local_download_to_path fs k = Inr d \<longleftrightarrow> obj_content fs k = Some d"
  by (simp add: local_download_to_path_def obj_content_Some rbind_eq_Inr map_err_eq_Inr node_case_Inr canonicalize_file)

lemma local_exists_content: "fs_ok fs \<Longrightarrow> obj_content fs k = Some d \<Longrightarrow> local_exists fs k = Inr True"
  by (auto simp: local_exists_def obj_content_Some canonicalize_existing reject_existing)

lemma local_size_content: "fs_ok fs \<Longrightarrow> obj_content fs k = Some d \<Longrightarrow> local_get_size n fs k = Inr (length d)"
  by (auto simp: local_get_size_def obj_content_Some canonicalize_existing)

lemma local_path_content: "fs_ok fs \<Longrightarrow> obj_content fs k = Some d \<Longrightarrow> local_get_path fs k = Inr (Some (Some d))"
  by (auto simp: local_get_path_def obj_content_Some canonicalize_existing reject_existing open_path_def)

section \<open>Creating directories\<close>

text \<open>A state that differs from the original only in added directories on the way to \<open>p\<close>.\<close>

definition dirs_added :: "path \<Rightarrow> fs \<Rightarrow> fs \<Rightarrow> bool" where
  "dirs_added p fs st \<longleftrightarrow> fs_ok st \<and>
     (\<forall>q. st q = fs q \<or> fs q = None \<and> st q = Some FDir \<and> (\<exists>k\<le>length p. q = take k p))"

lemma dirs_added_refl: "fs_ok fs \<Longrightarrow> dirs_added p fs fs"
  by (simp add: dirs_added_def)

lemma dirs_added_trans: "dirs_added p a b \<Longrightarrow> dirs_added p b c \<Longrightarrow> dirs_added p a c"
  unfolding dirs_added_def by (metis option.distinct(1))

lemma dirs_added_step:
  assumes "fs_ok fs" "fs (take (Suc j) p) = None" "fs (take j p) = Some FDir" "Suc j \<le> length p"
  shows "dirs_added p fs (fs(take (Suc j) p \<mapsto> FDir))"
proof -
  have parent: "butlast (take (Suc j) p) = take j p" using assms(4) by (simp add: butlast_take)
  have "take (Suc j) p \<noteq> []" using assms(4) by auto
  then have "fs_ok (fs(take (Suc j) p \<mapsto> FDir))"
    using assms(1,3) parent unfolding fs_ok_def by auto
  with assms(2,4) show ?thesis by (auto simp: dirs_added_def)
qed

lemma create_dirs_spec:
  assumes "create_dirs fs p [Suc j..<Suc n] = (res, trace)" "fs_ok fs" "n \<le> length p" "fs (take j p) = Some FDir"
  shows "list_all (dirs_added p fs) trace \<and>
    (\<forall>fs'. res = Inr fs' \<longrightarrow> dirs_added p fs fs' \<and> fs' = fs_after fs trace \<and> (j \<le> n \<longrightarrow> fs' (take n p) = Some FDir))"
  using assms
  supply upt_Suc [simp del]
proof (induction "n - j" arbitrary: j fs trace)
  case 0
  then have "[Suc j..<Suc n] = []" by simp
  with 0 show ?case by (auto simp: fs_after_def dirs_added_refl)
next
  case (Suc m)
  have ks: "[Suc j..<Suc n] = Suc j # [Suc (Suc j)..<Suc n]" using Suc.hyps(2) by (simp add: upt_conv_Cons del: upt_Suc)
  have m: "m = n - Suc j" using Suc.hyps(2) by simp
  show ?case
  proof (cases "fs (take (Suc j) p)")
    case None
    let ?fs = "fs(take (Suc j) p \<mapsto> FDir)"
    obtain trace' where t: "create_dirs ?fs p [Suc (Suc j)..<Suc n] = (res, trace')" "trace = ?fs # trace'"
      using Suc.prems(1) None by (auto simp: ks Let_def split: prod.splits)
    have st: "dirs_added p fs ?fs" using Suc.prems None Suc.hyps(2) by (intro dirs_added_step) auto
    then have "fs_ok ?fs" by (simp add: dirs_added_def)
    from Suc.hyps(1) [OF m t(1) this Suc.prems(3)] have IH: "list_all (dirs_added p ?fs) trace'"
      "\<forall>fs'. res = Inr fs' \<longrightarrow> dirs_added p ?fs fs' \<and> fs' = fs_after ?fs trace' \<and> (Suc j \<le> n \<longrightarrow> fs' (take n p) = Some FDir)"
      by simp_all
    with st t(2) dirs_added_trans [OF st] Suc.hyps(2) show ?thesis by (auto simp: list_all_iff fs_after_def)
  next
    case (Some nd)
    show ?thesis
    proof (cases "nd = FDir")
      case True
      then have "create_dirs fs p [Suc (Suc j)..<Suc n] = (res, trace)" using Suc.prems(1) Some by (simp add: ks)
      from Suc.hyps(1) [OF m this Suc.prems(2,3)] Some True Suc.hyps(2) show ?thesis by simp
    next
      case False
      then show ?thesis using Suc.prems(1) Some by (cases nd) (auto simp: ks)
    qed
  qed
qed

lemma create_dir_all_spec:
  assumes "create_dir_all fs p = (res, trace)" "fs_ok fs"
  shows "list_all (dirs_added p fs) trace \<and>
    (\<forall>fs'. res = Inr fs' \<longrightarrow> dirs_added p fs fs' \<and> fs' = fs_after fs trace \<and> fs' p = Some FDir)"
  using create_dirs_spec [of fs p 0 "length p" res trace] assms
  by (simp add: create_dir_all_def fs_ok_def)

lemma prepare_parent_spec:
  assumes "prepare_parent fs p = (res, trace)" "fs_ok fs"
  shows "list_all (dirs_added (butlast p) fs) trace \<and>
    (\<forall>fs'. res = Inr fs' \<longrightarrow> p \<noteq> [] \<and> dirs_added (butlast p) fs fs' \<and> fs' = fs_after fs trace \<and> fs' (butlast p) = Some FDir)"
proof (cases "p = [] \<or> (\<exists>e. reject_symlink_components fs (butlast p) = Inl e)")
  case True
  with assms(1) show ?thesis by (auto simp: prepare_parent_def split: if_splits)
next
  case False
  then obtain u where r: "p \<noteq> []" "reject_symlink_components fs (butlast p) = Inr u"
    by (cases "reject_symlink_components fs (butlast p)") auto
  obtain res' trace' where c: "create_dir_all fs (butlast p) = (res', trace')" by (metis surj_pair)
  note spec = create_dir_all_spec [OF c assms(2)]
  show ?thesis
  proof (cases res')
    case (Inl e)
    with assms(1) r c spec show ?thesis by (simp add: prepare_parent_def)
  next
    case (Inr fs1)
    with spec have d: "dirs_added (butlast p) fs fs1" "fs1 (butlast p) = Some FDir" "fs1 = fs_after fs trace'" by blast+
    from d(1,2) have "canonicalize_confined fs1 (butlast p) = Inr (butlast p)"
      by (intro canonicalize_existing) (auto simp: dirs_added_def)
    with assms(1) r c Inr have "res = Inr fs1" "trace = trace'" by (simp_all add: prepare_parent_def)
    with spec d r show ?thesis by simp
  qed
qed

section \<open>Putting an object\<close>

lemma temp_not_prefix: "p \<noteq> [] \<Longrightarrow> k \<le> length (butlast p) \<Longrightarrow> unique_temp_path uuid p \<noteq> take k (butlast p)"
proof
  assume p: "p \<noteq> []" "k \<le> length (butlast p)" "unique_temp_path uuid p = take k (butlast p)"
  have "length (unique_temp_path uuid p) = length p" using p(1) by (simp add: unique_temp_path_def)
  moreover have "length (take k (butlast p)) < length p" using p(1,2) by (simp add: Suc_diff_1 le_less_trans [of k "length p - 1"])
  ultimately show False using p(3) by (metis less_irrefl)
qed

lemma temp_name_ne: "file_stem name @ ''.'' @ uuid @ ''.tmp'' \<noteq> name"
proof
  assume eq: "file_stem name @ ''.'' @ uuid @ ''.tmp'' = name"
  define stem where "stem = file_stem name"
  have "rev name = ''pmt.'' @ rev uuid @ ''.'' @ rev stem"
    using arg_cong [OF eq, of rev] by (simp add: stem_def)
  then have "dropWhile (\<lambda>c. c \<noteq> CHR ''.'') (rev name) = ''.'' @ rev uuid @ ''.'' @ rev stem" by simp
  then have "file_stem name = rev (rev uuid @ ''.'' @ rev stem)" by (simp add: file_stem_def)
  then have "length stem = length (rev uuid @ ''.'' @ rev stem)" unfolding stem_def [symmetric] by (metis length_rev)
  then show False by simp
qed

lemma temp_ne_dest: "p \<noteq> [] \<Longrightarrow> unique_temp_path uuid p \<noteq> p"
  using temp_name_ne [of "last p" uuid] unfolding unique_temp_path_def by (metis append_butlast_last_id same_append_eq list.inject)

lemma dirs_added_temp:
  assumes "dirs_added (butlast p) fs st" "p \<noteq> []" "fs (unique_temp_path uuid p) = None"
  shows "st (unique_temp_path uuid p) = None"
  using assms temp_not_prefix [OF assms(2)] unfolding dirs_added_def by (metis min.cobounded2 take_all_iff linorder_linear)

lemma dirs_added_open: "dirs_added q fs st \<Longrightarrow> open_path st p = open_path fs p"
  unfolding dirs_added_def open_path_def
  by (metis (no_types, lifting) fs_node.simps(9) option.simps(4) option.simps(5))

text \<open>The states of a write: added directories, then the temporary file, then the outcome.\<close>

lemma local_put_trace_cases:
  assumes "local_put_trace uuid fs key data = (res, trace)" "fs_ok fs"
  obtains (early) e d where "res = Inl e" "list_all (dirs_added d fs) trace" "d = [] \<or> rbind (object_path key) (\<lambda>p. Inr (butlast p)) = Inr d"
  | (staged) p fs1 dirs writing where "object_path key = Inr p" "p \<noteq> []" "dirs_added (butlast p) fs fs1" "fs1 (butlast p) = Some FDir"
      "list_all (dirs_added (butlast p) fs) dirs"
      "writing = map (\<lambda>n. fs1(unique_temp_path uuid p \<mapsto> FFile (take n data))) [0..<Suc (length data)]"
      "res = Inr () \<and> fs1 p \<noteq> Some FDir \<and>
         trace = dirs @ writing @ [fs1(unique_temp_path uuid p := None, p \<mapsto> FFile data)] \<or>
       res \<noteq> Inr () \<and> fs1 p = Some FDir \<and> trace = dirs @ writing @ [fs1(unique_temp_path uuid p := None)]"
proof (cases "rbind (object_path key) (\<lambda>p. rbind (reject_symlink_components fs p) (\<lambda>_. Inr p))")
  case (Inl e)
  with assms(1) show ?thesis by (intro early [of e "[]"]) (auto simp: local_put_trace_def)
next
  case (Inr p)
  then have p: "object_path key = Inr p" by (auto simp: rbind_eq_Inr)
  obtain res' dirs where pp: "prepare_parent fs p = (res', dirs)" by (metis surj_pair)
  note spec = prepare_parent_spec [OF pp assms(2)]
  show ?thesis
  proof (cases res')
    case (Inl e)
    with assms(1) Inr pp spec p show ?thesis by (intro early [of e "butlast p"]) (simp_all add: local_put_trace_def)
  next
    case (Inr fs1)
    let ?t = "unique_temp_path uuid p"
    have "res = Inr () \<and> fs1 p \<noteq> Some FDir \<and>
         trace = dirs @ map (\<lambda>n. fs1(?t \<mapsto> FFile (take n data))) [0..<Suc (length data)] @ [fs1(?t := None, p \<mapsto> FFile data)] \<or>
       res \<noteq> Inr () \<and> fs1 p = Some FDir \<and>
         trace = dirs @ map (\<lambda>n. fs1(?t \<mapsto> FFile (take n data))) [0..<Suc (length data)] @ [fs1(?t := None)]"
      using assms(1) \<open>rbind _ _ = Inr p\<close> pp Inr spec temp_ne_dest [of p uuid]
      by (auto simp: local_put_trace_def fs_rename_def Let_def simp del: upt_Suc split: option.splits fs_node.splits)
    with spec Inr p show ?thesis by (intro staged [of p fs1 dirs]) auto
  qed
qed

lemma fs_ok_file:
  assumes "fs_ok fs" "p \<noteq> []" "fs (butlast p) = Some FDir" "fs p \<noteq> Some FDir"
  shows "fs_ok (fs(p \<mapsto> FFile d))"
  using assms unfolding fs_ok_def by (metis fun_upd_apply)

lemma fs_ok_remove:
  assumes "fs_ok fs" "p \<noteq> []" "fs p \<noteq> Some FDir"
  shows "fs_ok (fs(p := None))"
  using assms unfolding fs_ok_def by (metis fun_upd_apply)

lemma butlast_temp [simp]: "butlast (unique_temp_path uuid p) = butlast p"
  by (simp add: unique_temp_path_def)

lemma temp_ne_Nil [simp]: "unique_temp_path uuid p \<noteq> []"
  by (simp add: unique_temp_path_def)

lemma obj_content_upd:
  "object_path k = Inr p \<Longrightarrow> (\<And>q. open_path st q = (if q = p then x else open_path fs q)) \<Longrightarrow>
     obj_content st k' = (if same_object k k' then x else obj_content fs k')"
  by (auto simp: obj_content_def same_object_def split: sum.splits)

lemma open_path_upd: "open_path (fs(p := n)) q = (if q = p then (case n of Some (FFile d) \<Rightarrow> Some d | _ \<Rightarrow> None) else open_path fs q)"
  by (simp add: open_path_def)

lemma dirs_added_content: "dirs_added p fs st \<Longrightarrow> obj_content st = obj_content fs"
  by (auto simp: obj_content_def dirs_added_open fun_eq_iff split: sum.split)

lemma local_put_Inr:
  assumes "fs_ok fs" "temp_fresh u fs k" "local_put u fs k d = (Inr r, fs')"
  shows "fs_ok fs' \<and> same_object k k \<and> (\<forall>k'. obj_content fs' k' = (if same_object k k' then Some d else obj_content fs k'))"
proof -
  obtain trace where t: "local_put_trace u fs k d = (Inr r, trace)" "fs' = fs_after fs trace"
    using assms(3) by (auto simp: local_put_def split: prod.splits)
  from t(1) assms(1) show ?thesis
  proof (cases rule: local_put_trace_cases)
    case (staged p fs1 dirs writing)
    let ?t = "unique_temp_path u p"
    have ok1: "fs_ok fs1" using staged(3) by (simp add: dirs_added_def)
    have "fs1 ?t = None"
      using dirs_added_temp [OF staged(3,2)] assms(2) staged(1) by (simp add: temp_fresh_def)
    then have "fs1(?t := None) = fs1" by auto
    with staged(7) t(2) have f: "fs1 p \<noteq> Some FDir" "fs' = fs1(p \<mapsto> FFile d)" by (auto simp: fs_after_def)
    then have "fs_ok fs'" using fs_ok_file [OF ok1 staged(2,4)] by simp
    moreover have "obj_content fs' k' = (if same_object k k' then Some d else obj_content fs k')" for k'
      by (rule obj_content_upd [OF staged(1)]) (simp add: f(2) open_path_upd dirs_added_open [OF staged(3)])
    moreover have "same_object k k" using staged(1) by (simp add: same_object_def)
    ultimately show ?thesis by blast
  qed simp
qed

lemma fs_after_dirs: "fs_ok fs \<Longrightarrow> list_all (dirs_added p fs) trace \<Longrightarrow> dirs_added p fs (fs_after fs trace)"
  by (cases trace rule: rev_cases) (auto simp: fs_after_def dirs_added_refl)

lemma local_put_Inl:
  assumes "fs_ok fs" "temp_fresh u fs k" "local_put u fs k d = (Inl e, fs')"
  shows "fs_ok fs' \<and> obj_content fs' = obj_content fs"
proof -
  obtain trace where t: "local_put_trace u fs k d = (Inl e, trace)" "fs' = fs_after fs trace"
    using assms(3) by (auto simp: local_put_def split: prod.splits)
  from t(1) assms(1) have "\<exists>p. dirs_added p fs fs'"
  proof (cases rule: local_put_trace_cases)
    case (early e p)
    with fs_after_dirs [OF assms(1)] t(2) show ?thesis by blast
  next
    case (staged p fs1 dirs writing)
    have "fs1 (unique_temp_path u p) = None"
      using dirs_added_temp [OF staged(3,2)] assms(2) staged(1) by (simp add: temp_fresh_def)
    then have "fs1(unique_temp_path u p := None) = fs1" by auto
    with staged(3,7) t(2) show ?thesis by (auto simp: fs_after_def)
  qed
  then show ?thesis using dirs_added_content unfolding dirs_added_def by blast
qed

lemma local_delete_content:
  assumes "fs_ok fs" "local_delete fs k = (res, fs')"
  shows "fs_ok fs' \<and> (case res of Inl _ \<Rightarrow> fs' = fs
     | Inr _ \<Rightarrow> \<forall>k'. obj_content fs' k' = (if same_object k k' then None else obj_content fs k'))"
proof (cases "object_path k")
  case (Inl e)
  with assms show ?thesis by (auto simp: local_delete_def)
next
  case (Inr p)
  have none: "obj_content fs k' = None" if "fs p = None" "same_object k k'" for k'
    using that Inr by (auto simp: same_object_def obj_content_def open_path_def)
  have gone: "fs_ok (fs(p := None)) \<and> (\<forall>k'. obj_content (fs(p := None)) k' = (if same_object k k' then None else obj_content fs k'))"
    if "fs p \<noteq> Some FDir"
  proof -
    from that assms(1) have "p \<noteq> []" by (auto simp: fs_ok_def)
    then have "fs_ok (fs(p := None))" using fs_ok_remove [OF assms(1)] that by blast
    moreover have "obj_content (fs(p := None)) k' = (if same_object k k' then None else obj_content fs k')" for k'
      by (rule obj_content_upd [OF Inr]) (simp add: open_path_upd)
    ultimately show ?thesis by blast
  qed
  show ?thesis
  proof (cases "canonicalize_confined fs p")
    case c: (Inl e)
    show ?thesis
    proof (cases e)
      case (NotFound m)
      with c have "fs p = None" using canonicalize_NotFound by blast
      moreover from assms(2) Inr c NotFound have "res = Inr ()" "fs' = fs" by (simp_all add: local_delete_def)
      ultimately show ?thesis using none assms(1) by simp
    qed (use assms Inr c in \<open>auto simp: local_delete_def\<close>)
  next
    case c: (Inr q)
    with canonicalize_Inr have q: "q = p" by blast
    show ?thesis
    proof (cases "fs p")
      case None
      moreover with assms(2) Inr c q have "res = Inr ()" "fs' = fs" by (simp_all add: local_delete_def)
      ultimately show ?thesis using none assms(1) by simp
    next
      case (Some n)
      with gone assms Inr c q show ?thesis by (cases n) (auto simp: local_delete_def)
    qed
  qed
qed

text \<open>
  Moving a file into the store has the effect of writing its content, on either path: the same
  final file system, success in the same cases, and the source is consumed exactly on success.
\<close>

lemma put_from_path_as_put:
  assumes "fs_ok fs" "temp_fresh uuid fs key"
  shows "\<exists>res fs' left. local_put_from_path uuid same_device fs key (Some data) = (res, fs', left) \<and>
    fs' = snd (local_put uuid fs key data) \<and>
    (res = Inr () \<longleftrightarrow> fst (local_put uuid fs key data) = Inr ()) \<and>
    left = (if res = Inr () then None else Some data)"
proof (cases "rbind (object_path key) (\<lambda>p. rbind (reject_symlink_components fs p) (\<lambda>_. Inr p))")
  case (Inl e)
  then show ?thesis by (simp add: local_put_from_path_def local_put_def local_put_trace_def fs_after_def)
next
  case (Inr p)
  then have p: "object_path key = Inr p" by (auto simp: rbind_eq_Inr)
  obtain r trace where pp: "prepare_parent fs p = (r, trace)" by (metis surj_pair)
  note spec = prepare_parent_spec [OF pp assms(1)]
  show ?thesis
  proof (cases r)
    case (Inl e)
    with \<open>rbind _ _ = Inr p\<close> pp show ?thesis by (simp add: local_put_from_path_def local_put_def local_put_trace_def)
  next
    case (Inr fs1)
    let ?t = "unique_temp_path uuid p"
    have d: "dirs_added (butlast p) fs fs1" "p \<noteq> []" "fs1 = fs_after fs trace" using spec Inr by blast+
    have "fs1 ?t = None" using dirs_added_temp [OF d(1,2)] assms(2) p by (simp add: temp_fresh_def)
    then have t: "fs1(?t := None) = fs1" "fs1(?t := None, p \<mapsto> x) = fs1(p \<mapsto> x)" for x by auto
    have ne: "?t \<noteq> p" by (rule temp_ne_dest [OF d(2)])
    have ren: "fs_rename (fs1(?t \<mapsto> FFile data)) ?t p = (if fs1 p = Some FDir then None else Some (fs1(p \<mapsto> FFile data)))"
      using ne t(2) by (auto simp: fs_rename_def split: option.splits fs_node.splits)
    have put: "local_put uuid fs key data = (if fs1 p = Some FDir then (Inl (Internal ''Failed to rename temp to final''), fs1)
        else (Inr (), fs1(p \<mapsto> FFile data)))"
      using \<open>rbind _ _ = Inr p\<close> pp Inr t
      by (simp add: local_put_def local_put_trace_def Let_def ren fs_after_def del: upt_Suc)
    show ?thesis unfolding put using \<open>rbind _ _ = Inr p\<close> pp Inr t
      by (simp add: local_put_from_path_def copy_then_rename_def Let_def ren)
  qed
qed

interpretation local_store: object_store "local_backend dir_len" fs_ok same_object obj_content temp_fresh for dir_len
proof unfold_locales
  fix s :: fs and u k d k' r e s' p
  show "fs_ok s \<Longrightarrow> temp_fresh u s k \<Longrightarrow> put (local_backend dir_len) u s k d = (Inr r, s') \<Longrightarrow>
      fs_ok s' \<and> same_object k k \<and> (\<forall>k'. obj_content s' k' = (if same_object k k' then Some d else obj_content s k'))"
    using local_put_Inr by (simp add: local_backend_def)
  show "fs_ok s \<Longrightarrow> temp_fresh u s k \<Longrightarrow> put (local_backend dir_len) u s k d = (Inl e, s') \<Longrightarrow>
      fs_ok s' \<and> obj_content s' = obj_content s"
    using local_put_Inl by (simp add: local_backend_def)
  show "fs_ok s \<Longrightarrow> get (local_backend dir_len) s k = Inr d \<longleftrightarrow> obj_content s k = Some d"
    by (simp add: local_backend_def local_get_iff)
  show "fs_ok s \<Longrightarrow> download_to_path (local_backend dir_len) s k = Inr d \<longleftrightarrow> obj_content s k = Some d"
    by (simp add: local_backend_def local_download_iff)
  show "fs_ok s \<Longrightarrow> obj_content s k = Some d \<Longrightarrow> obj_exists (local_backend dir_len) s k = Inr True"
    by (simp add: local_backend_def local_exists_content)
  show "fs_ok s \<Longrightarrow> obj_exists (local_backend dir_len) s k = Inr False \<Longrightarrow> obj_content s k = None"
    using local_exists_content [of s k] by (cases "obj_content s k") (auto simp: local_backend_def)
  show "fs_ok s \<Longrightarrow> delete (local_backend dir_len) s k = (Inr r, s') \<Longrightarrow>
      fs_ok s' \<and> (\<forall>k'. obj_content s' k' = (if same_object k k' then None else obj_content s k'))"
    using local_delete_content [of s k] by (fastforce simp: local_backend_def)
  show "fs_ok s \<Longrightarrow> delete (local_backend dir_len) s k = (Inl e, s') \<Longrightarrow> fs_ok s' \<and> obj_content s' = obj_content s"
    using local_delete_content [of s k] by (fastforce simp: local_backend_def)
  show "same_object k k' \<Longrightarrow> obj_content s k = obj_content s k'"
    by (auto simp: same_object_def obj_content_def)
  show "fs_ok s \<Longrightarrow> obj_content s k = Some d \<Longrightarrow> get_size (local_backend dir_len) s k = Inr (length d)"
    by (simp add: local_backend_def local_size_content)
  show "fs_ok s \<Longrightarrow> obj_content s k = Some d \<Longrightarrow> get_path (local_backend dir_len) s k = Inr (Some p) \<Longrightarrow> p = Some d"
    by (simp add: local_backend_def local_path_content)
qed

section \<open>Properties\<close>

text \<open>
  No key leaves the storage root: a key that is accepted becomes a path below the root none
  of whose components is empty, a dot, two dots or contains a separator or a NUL, and a
  resolved path is that path itself, every component of which is a directory and no link.
\<close>

theorem keys_stay_below_root:
  assumes "object_path key = Inr p" "fs_ok fs" "local_get fs key = Inr d"
  shows "list_all (\<lambda>c. c \<noteq> [] \<and> c \<noteq> ''.'' \<and> c \<noteq> ''..'' \<and> CHR ''/'' \<notin> set c \<and> NUL \<notin> set c) p \<and>
    canonicalize_confined fs p = Inr p \<and> fs p = Some (FFile d) \<and>
    list_all (\<lambda>k. fs (take k p) = Some FDir) [0..<length p]"
proof -
  have f: "fs p = Some (FFile d)" using local_get_iff [OF assms(2)] assms(1,3) by (auto simp: obj_content_Some)
  then have "list_all (\<lambda>k. fs (take k p) = Some FDir) [0..<length p]"
    using fs_ok_prefix [OF assms(2)] by (auto simp: list_all_iff)
  with f canonicalize_existing [OF assms(2) f] show ?thesis
    using object_path_components [OF assms(1)] by (auto simp: list_all_iff)
qed

definition demo_fs :: fs where
  "demo_fs = [[] \<mapsto> FDir, [''xorbs''] \<mapsto> FDir, [''xorbs'', ''ab''] \<mapsto> FFile [1, 2]]"

lemma demo_fs_ok: "fs_ok demo_fs"
  by (auto simp: fs_ok_def demo_fs_def split: if_splits)

theorem keys_stay_below_root_witness:
  "object_path ''./xorbs//ab'' = Inr [''xorbs'', ''ab''] \<and> local_get demo_fs ''./xorbs//ab'' = Inr [1, 2] \<and>
   canonicalize_confined demo_fs [''xorbs'', ''ab''] = Inr [''xorbs'', ''ab'']"
proof -
  have p: "object_path ''./xorbs//ab'' = Inr [''xorbs'', ''ab'']"
    by (simp add: object_path_def path_components_def BACKSLASH_def NUL_def)
  have g: "local_get demo_fs ''./xorbs//ab'' = Inr [1, 2]"
    by (simp add: local_get_iff [OF demo_fs_ok] obj_content_Some p) (simp add: demo_fs_def)
  from keys_stay_below_root [OF p demo_fs_ok g] p g show ?thesis by blast
qed

text \<open>
  C16. A write is atomic even if the process stops in the middle of it. In every state the
  filesystem goes through, each key except that of the temporary file has its old content, or
  it names the written object and has the complete new content; no partial content is ever
  visible under the final key.
\<close>

theorem put_is_crash_atomic:
  assumes "fs_ok fs" "temp_fresh uuid fs key" "local_put_trace uuid fs key data = (res, trace)" "st \<in> set trace"
    and "object_path key' \<noteq> rbind (object_path key) (\<lambda>p. Inr (unique_temp_path uuid p))"
  shows "fs_ok st \<and>
    (obj_content st key' = obj_content fs key' \<or> same_object key key' \<and> obj_content st key' = Some data)"
  using assms(3,1)
proof (cases rule: local_put_trace_cases)
  case (early e d)
  with assms(4) have "dirs_added d fs st" by (auto simp: list_all_iff)
  then show ?thesis using dirs_added_content unfolding dirs_added_def by metis
next
  case (staged p fs1 dirs writing)
  let ?t = "unique_temp_path uuid p"
  have ok1: "fs_ok fs1" using staged(3) by (simp add: dirs_added_def)
  have t: "fs1 ?t = None"
    using dirs_added_temp [OF staged(3,2)] assms(2) staged(1) by (simp add: temp_fresh_def)
  then have t': "fs1(?t := None) = fs1" by auto
  have nt: "object_path key' \<noteq> Inr ?t" using assms(5) staged(1) by simp
  from assms(4) staged(7) t' consider "st \<in> set dirs" | n where "st = fs1(?t \<mapsto> FFile (take n data))"
    | "st = fs1(p \<mapsto> FFile data)" "fs1 p \<noteq> Some FDir" | "st = fs1"
    unfolding staged(6) by (auto simp del: upt_Suc)
  then show ?thesis
  proof cases
    case 1
    with staged(5) have "dirs_added (butlast p) fs st" by (auto simp: list_all_iff)
    then show ?thesis using dirs_added_content unfolding dirs_added_def by metis
  next
    case (2 n)
    have "fs_ok st" unfolding 2 by (rule fs_ok_file [OF ok1]) (simp_all add: t staged(4))
    moreover have "obj_content st key' = obj_content fs1 key'"
      using nt by (simp add: 2 obj_content_def open_path_upd split: sum.split)
    ultimately show ?thesis using dirs_added_content [OF staged(3)] by simp
  next
    case 3
    have "fs_ok st" unfolding 3(1) by (rule fs_ok_file [OF ok1 staged(2,4) 3(2)])
    moreover have "obj_content st key' = (if same_object key key' then Some data else obj_content fs1 key')"
      by (rule obj_content_upd [OF staged(1)]) (simp add: 3(1) open_path_upd)
    ultimately show ?thesis using dirs_added_content [OF staged(3)] by simp
  next
    case 4
    with ok1 show ?thesis using dirs_added_content [OF staged(3)] by simp
  qed
qed

definition empty_fs :: fs where
  "empty_fs = [[] \<mapsto> FDir]"

lemma empty_fs_ok: "fs_ok empty_fs"
  by (simp add: fs_ok_def empty_fs_def)

lemma empty_put:
  "local_put_trace ''u'' empty_fs ''xorbs/ab'' [7, 8] =
     (Inr (), let d = empty_fs([''xorbs''] \<mapsto> FDir); t = [''xorbs'', ''ab.u.tmp''] in
       [d, d(t \<mapsto> FFile []), d(t \<mapsto> FFile [7]), d(t \<mapsto> FFile [7, 8]), d(t := None, [''xorbs'', ''ab''] \<mapsto> FFile [7, 8])])"
  by (simp add: local_put_trace_def object_path_def path_components_def BACKSLASH_def NUL_def reject_symlink_components_def
      empty_fs_def symlink_metadata_def is_file_def prepare_parent_def create_dir_all_def canonicalize_confined_def
      unique_temp_path_def file_stem_def fs_rename_def Let_def)

theorem put_is_crash_atomic_witness:
  "\<exists>st. st \<in> set (snd (local_put_trace ''u'' empty_fs ''xorbs/ab'' [7, 8])) \<and>
     st [''xorbs'', ''ab.u.tmp''] = Some (FFile [7]) \<and> fs_ok st \<and> obj_content st ''xorbs/ab'' = None"
proof -
  let ?st = "empty_fs([''xorbs''] \<mapsto> FDir, [''xorbs'', ''ab.u.tmp''] \<mapsto> FFile [7])"
  have mem: "?st \<in> set (snd (local_put_trace ''u'' empty_fs ''xorbs/ab'' [7, 8]))"
    unfolding empty_put Let_def snd_conv by (rule list.set_intros(2), rule list.set_intros(2), rule list.set_intros(1))
  have p: "object_path ''xorbs/ab'' = Inr [''xorbs'', ''ab'']"
    by (simp add: object_path_def path_components_def BACKSLASH_def NUL_def)
  have fresh: "temp_fresh ''u'' empty_fs ''xorbs/ab''" by (simp add: temp_fresh_def empty_fs_def)
  have "fs_ok ?st \<and> (obj_content ?st ''xorbs/ab'' = obj_content empty_fs ''xorbs/ab'' \<or>
      same_object ''xorbs/ab'' ''xorbs/ab'' \<and> obj_content ?st ''xorbs/ab'' = Some [7, 8])"
    by (rule put_is_crash_atomic [OF empty_fs_ok fresh surjective_pairing mem]) (simp add: p unique_temp_path_def file_stem_def)
  moreover have "obj_content ?st ''xorbs/ab'' = None" by (simp add: obj_content_def p open_path_def empty_fs_def)
  ultimately have "fs_ok ?st \<and> obj_content ?st ''xorbs/ab'' = None" by blast
  with mem show ?thesis by (intro exI [of _ ?st]) simp
qed

text \<open>
  C37. The local backend implements the object store contract: after a successful write the
  object is read back and every other object is unchanged; a failed write changes no object;
  after a deletion the object is gone.
\<close>

theorem local_put_get_delete:
  assumes "fs_ok fs" "temp_fresh uuid fs key" "local_put uuid fs key data = (res, fs')"
  shows "(res = Inr () \<longrightarrow> local_get fs' key = Inr data \<and>
      (\<forall>key' d'. \<not> same_object key key' \<longrightarrow> local_get fs' key' = Inr d' \<longleftrightarrow> local_get fs key' = Inr d') \<and>
      (\<forall>fs'' d'. local_delete fs' key = (Inr (), fs'') \<longrightarrow> local_get fs'' key \<noteq> Inr d')) \<and>
    (res \<noteq> Inr () \<longrightarrow> (\<forall>key' d'. local_get fs' key' = Inr d' \<longleftrightarrow> local_get fs key' = Inr d'))"
proof (cases res)
  case (Inl e)
  with local_put_Inl [OF assms(1,2)] assms(1,3) show ?thesis by (simp add: local_get_iff)
next
  case (Inr u)
  have put: "put (local_backend 0) uuid fs key data = (Inr (), fs')" using assms(3) Inr by (simp add: local_backend_def)
  from local_store.put_get [OF assms(1,2) put] local_store.put_delete_get [OF assms(1,2) put] Inr
  show ?thesis by (simp add: local_backend_def)
qed

theorem local_put_get_delete_witness:
  "\<exists>fs'. local_put ''u'' empty_fs ''xorbs/ab'' [7, 8] = (Inr (), fs') \<and> local_get fs' ''xorbs/ab'' = Inr [7, 8]"
proof -
  have put: "local_put ''u'' empty_fs ''xorbs/ab'' [7, 8] =
      (Inr (), fs_after empty_fs (snd (local_put_trace ''u'' empty_fs ''xorbs/ab'' [7, 8])))"
    by (simp add: local_put_def empty_put Let_def)
  have fresh: "temp_fresh ''u'' empty_fs ''xorbs/ab''" by (simp add: temp_fresh_def empty_fs_def)
  from local_put_get_delete [OF empty_fs_ok fresh put] put show ?thesis by blast
qed

section \<open>Temporary files in listings\<close>

lemma shards_root: "object_path ''shards/'' = Inr [''shards'']"
  by (simp add: object_path_def path_components_def BACKSLASH_def NUL_def)

text \<open>
  The listing does not leave out temporary files: while a shard is being written, and for ever
  if the process stops there, the partial file is listed below \<open>shards/\<close>.
\<close>

lemma staged_file_listed:
  assumes "fs_ok fs" "temp_fresh uuid fs key" "object_path key = Inr [''shards'', name]"
    and "local_put_trace uuid fs key data = (Inr (), trace)" "n \<le> length data"
  defines "temp \<equiv> file_stem name @ ''.'' @ uuid @ ''.tmp''"
  shows "\<exists>st keys. st \<in> set trace \<and> fs_ok st \<and> list_objects st ''shards/'' = Inr keys \<and> ''shards/'' @ temp \<in> keys \<and>
    st [''shards'', temp] = Some (FFile (take n data))"
  using assms(4,1)
proof (cases rule: local_put_trace_cases)
  case (staged p fs1 dirs writing)
  have p: "p = [''shards'', name]" "unique_temp_path uuid p = [''shards'', temp]"
    using assms(3) staged(1) by (simp_all add: unique_temp_path_def temp_def)
  define st where "st = fs1([''shards'', temp] \<mapsto> FFile (take n data))"
  have ok1: "fs_ok fs1" using staged(3) by (simp add: dirs_added_def)
  have "fs1 [''shards'', temp] = None"
    using dirs_added_temp [OF staged(3,2), of uuid] assms(2) staged(1) p by (simp add: temp_fresh_def)
  then have ok: "fs_ok st" using staged(4) p unfolding st_def by (intro fs_ok_file [OF ok1]) simp_all
  have dir: "st [''shards''] = Some FDir" using staged(4) p by (simp add: st_def)
  have "st \<in> set writing" unfolding staged(6) p(2) st_def using assms(5) by (auto simp del: upt_Suc)
  moreover have "[''shards'', temp] \<in> listed_below st [''shards'']"
    unfolding listed_below_def using dir by (auto simp: less_Suc_eq st_def intro!: exI [of _ "[temp]"])
  then have "''shards/'' @ temp \<in> key_of_path ` listed_below st [''shards'']"
    by (rule image_eqI [rotated]) (simp add: key_of_path_def)
  moreover have "list_objects st ''shards/'' = Inr (key_of_path ` listed_below st [''shards''])"
    using canonicalize_existing [OF ok dir] dir by (simp add: list_objects_def shards_root)
  ultimately show ?thesis using staged(7) ok by (intro exI [of _ st] exI) (auto simp: st_def)
qed simp

end
