(* ===== verification/Conversion_Local.thy ===== *)
theory Conversion_Local
  imports Conversion Local_Storage
begin

text \<open>
  Conversions over the local backend: the file system model of the local storage satisfies
  what the conversion pipeline relies on, so the safety of conversions holds for it.
\<close>

section \<open>Key families on the local backend\<close>

lemma family_path:
  assumes "f \<in> set key_families" "object_path (f @ a) = Inr p"
  shows "\<exists>q. p = takeWhile (\<lambda>c. c \<noteq> CHR ''/'') f # q"
proof -
  have "split_on sep (x @ c # a) = x # split_on sep a" if "list_all (\<lambda>c. \<not> sep c) x" "sep c" for sep x c and a :: string
    using that by (induction x) simp_all
  from this [of "\<lambda>c. c = CHR ''/''" "takeWhile (\<lambda>c. c \<noteq> CHR ''/'') f" "CHR ''/''"] show ?thesis
    using assms by (auto simp: key_families_def object_path_def path_components_def split: if_splits)
qed

lemma family_distinct:
  assumes "f \<in> set key_families" "g \<in> set key_families" "f \<noteq> g"
  shows "\<not> same_object (f @ a) (g @ b)"
proof
  assume "same_object (f @ a) (g @ b)"
  then obtain p where "object_path (f @ a) = Inr p" "object_path (g @ b) = Inr p" by (auto simp: same_object_def)
  from family_path [OF assms(1) this(1)] family_path [OF assms(2) this(2)]
  have "takeWhile (\<lambda>c. c \<noteq> CHR ''/'') f = takeWhile (\<lambda>c. c \<noteq> CHR ''/'') g" by auto
  moreover have "takeWhile (\<lambda>c. c \<noteq> CHR ''/'') f \<noteq> takeWhile (\<lambda>c. c \<noteq> CHR ''/'') g"
    using assms by (simp add: key_families_def) (elim disjE; simp)
  ultimately show False by blast
qed

text \<open>A write touches only paths that begin like the object's path.\<close>

lemma local_put_elsewhere:
  assumes "fs_ok fs" "object_path k = Inr p" "local_put u fs k d = (r, fs')" "q \<noteq> []" "hd q \<noteq> hd p"
    and "fs (unique_temp_path u p) = None"
  shows "fs' q = fs q"
proof -
  obtain trace where t: "local_put_trace u fs k d = (r, trace)" "fs' = fs_after fs trace"
    using assms(3) by (auto simp: local_put_def split: prod.splits)
  have off: "st q = fs q" if "dirs_added (butlast p) fs st" for st
  proof -
    have "hd (take j (butlast p)) = hd p" if "take j (butlast p) \<noteq> []" for j
      using that by (cases p) auto
    with that assms(4,5) show ?thesis unfolding dirs_added_def by metis
  qed
  from t(1) assms(1) show ?thesis
  proof (cases rule: local_put_trace_cases)
    case (early e c)
    have "dirs_added c fs fs'" using fs_after_dirs [OF assms(1) early(2)] t(2) by simp
    moreover have "dirs_added [] fs st \<Longrightarrow> st q = fs q" for st using assms(4) by (auto simp: dirs_added_def)
    ultimately show ?thesis using early(3) off assms(2) by auto
  next
    case (staged p' fs1 dirs writing)
    then have p: "p' = p" using assms(2) by simp
    have "fs1 (unique_temp_path u p) = None" using dirs_added_temp staged(2,3) assms(6) p by blast
    then have "fs1(unique_temp_path u p := None) = fs1" by auto
    with staged(7) t(2) p have "fs' = fs1 \<or> fs' = fs1(p \<mapsto> FFile d)" by (auto simp: fs_after_def)
    with off [of fs1] staged(3) p assms(5) show ?thesis by auto
  qed
qed

lemma local_exists_True:
  assumes "local_exists fs k = Inr True"
  obtains p where "object_path k = Inr p" "fs p \<noteq> None"
proof -
  from assms obtain p where p: "object_path k = Inr p"
    "(case canonicalize_confined fs p of Inr _ \<Rightarrow> Inr True | Inl (NotFound _) \<Rightarrow> Inr False | Inl e \<Rightarrow> Inl e) = Inr True"
    unfolding local_exists_def rbind_eq_Inr by blast
  show thesis
  proof (cases "canonicalize_confined fs p")
    case (Inl e)
    with p(2) show thesis by (cases e) simp_all
  next
    case (Inr q)
    with canonicalize_Inr p(1) that show thesis by blast
  qed
qed

lemma shard_temp_head:
  assumes "object_path (''shards/'' @ b) = Inr p"
  shows "hd (unique_temp_path u p) \<noteq> ''xorbs''"
proof -
  obtain q where "p = ''shards'' # q" using family_path [OF _ assms] by (auto simp: key_families_def)
  then show ?thesis by (cases q) (simp_all add: unique_temp_path_def file_stem_def)
qed

interpretation local_conversion: conversion_store "local_backend dir_len" fs_ok same_object obj_content temp_fresh for dir_len
proof unfold_locales
  fix p q a b :: string and s :: fs and u u' :: string and d :: bytes
  show "p \<in> set key_families \<Longrightarrow> q \<in> set key_families \<Longrightarrow> p \<noteq> q \<Longrightarrow> \<not> same_object (p @ a) (q @ b)"
    by (rule family_distinct)
  assume s: "fs_ok s" "temp_fresh u s (''xorbs/'' @ a)" "temp_fresh u' s (''shards/'' @ b)"
  obtain r s' where put: "local_put u s (''xorbs/'' @ a) d = (r, s')" by (metis surj_pair)
  have "s' (unique_temp_path u' p) = None" if p: "object_path (''shards/'' @ b) = Inr p" for p
  proof (cases "object_path (''xorbs/'' @ a)")
    case (Inl e)
    with put have "s' = s" by (simp add: local_put_def local_put_trace_def fs_after_def)
    with s(3) p show ?thesis by (simp add: temp_fresh_def)
  next
    case (Inr x)
    then obtain x' where "x = ''xorbs'' # x'" using family_path [of "''xorbs/''" a x] by (auto simp: key_families_def)
    then have "hd (unique_temp_path u' p) \<noteq> hd x" using shard_temp_head [OF p] by simp
    then show ?thesis
      using local_put_elsewhere [OF s(1) Inr put] s(2,3) p Inr by (simp add: temp_fresh_def)
  qed
  with put show "temp_fresh u' (snd (put (local_backend dir_len) u s (''xorbs/'' @ a) d)) (''shards/'' @ b)"
    by (simp add: local_backend_def temp_fresh_def)
qed

section \<open>Properties\<close>

text \<open>
  C1. A conversion never loses data. Take a blob stored under its SHA-256 on a local backend
  and a limit of at most 512 MiB. The conversion always returns. If it reports an error, the
  raw blob is still there, byte for byte, and the index is unchanged; if it succeeds, the
  index holds the reference it reports and reconstructing that reference from the storage
  gives exactly the bytes of the blob, even though the blob may have been deleted. Either way
  the ledger for temporary space is as it was before.
\<close>

theorem conversion_never_loses_data:
  assumes "ce_backend E = local_backend dir_len" "fs_ok (pl_storage pl)" "read_contract (ce_reads E)"
    and "local_get (pl_storage pl) (object_key_of oid) = Inr blob"
    and "oid = hex_encode (ce_crates E) (sha256 (ce_crates E) blob)"
    and "unat (max_conversion_size config) \<le> 536870912"
    and "\<And>sch. conversion_ready obj_content temp_fresh E sch (pl_index pl) blob u1 u2 (pl_storage pl)"
  shows "\<exists>res pl'. convert E config u1 u2 oid pl = Some (res, pl') \<and> fs_ok (pl_storage pl') \<and> pl_ledger pl' = pl_ledger pl \<and>
    (case res of
       Inl e \<Rightarrow> local_get (pl_storage pl') (object_key_of oid) = Inr blob \<and> pl_index pl' = pl_index pl
     | Inr r \<Rightarrow> \<exists>h refs. mh_from_hex (ce_crates E) oid = Inr h \<and> get_file_refs (pl_index pl') h = Some refs \<and>
         \<lparr>fr_shard_id = cr_shard_hash r, fr_file_index = 0, fr_file_size = length blob\<rparr> \<in> set refs \<and>
         reconstruct_single_file_ref_to_temp (ce_crates E) (local_download_to_path (pl_storage pl')) oid h
           \<lparr>fr_shard_id = cr_shard_hash r, fr_file_index = 0, fr_file_size = length blob\<rparr> = Inr (blob, of_nat (length blob)))"
proof -
  have "obj_content (pl_storage pl) (object_key_of oid) = Some blob" using assms(2,4) by (simp add: local_get_iff)
  from local_conversion.convert_safe [OF assms(1-3) this assms(5-7)]
  obtain res pl' where c: "convert E config u1 u2 oid pl = Some (res, pl')" "fs_ok (pl_storage pl')" "pl_ledger pl' = pl_ledger pl"
    "case res of
       Inl e \<Rightarrow> obj_content (pl_storage pl') (object_key_of oid) = Some blob \<and> pl_index pl' = pl_index pl
     | Inr r \<Rightarrow> \<exists>h refs. mh_from_hex (ce_crates E) oid = Inr h \<and> get_file_refs (pl_index pl') h = Some refs \<and>
         \<lparr>fr_shard_id = cr_shard_hash r, fr_file_index = 0, fr_file_size = length blob\<rparr> \<in> set refs \<and>
         reconstruct_single_file_ref_to_temp (ce_crates E) (download_to_path (local_backend dir_len) (pl_storage pl')) oid h
           \<lparr>fr_shard_id = cr_shard_hash r, fr_file_index = 0, fr_file_size = length blob\<rparr> = Inr (blob, of_nat (length blob))"
    by blast
  have "download_to_path (local_backend dir_len) = local_download_to_path" by (simp add: local_backend_def)
  with c show ?thesis by (cases res) (simp_all add: local_get_iff)
qed

text \<open>
  A conversion returns, and fails only because of the storage or of the temporary space:
  when it is enabled with a known compression scheme, the blob is within the size limits and
  the index has no other size for it, and the footer magic does not recur inside the footer,
  every chunking and building step succeeds, so any error it reports is a storage error.
\<close>

theorem conversion_fails_only_on_storage:
  assumes "ce_backend E = local_backend dir_len" "fs_ok (pl_storage pl)" "read_contract (ce_reads E)" "gear_contract (ce_gear E)"
    and "lz4_contract (ce_crates E)" "hex_contract (ce_crates E)" "length (sha256 (ce_crates E) blob) = 32"
    and "local_get (pl_storage pl) (object_key_of oid) = Inr blob" "oid = hex_encode (ce_crates E) (sha256 (ce_crates E) blob)"
    and "cc_enabled config" "scheme config = Inr sch" "unat (max_conversion_size config) \<le> 536870912"
    and "unat (min_conversion_size config) \<le> length blob" "length blob \<le> unat (max_conversion_size config)"
    and "magic_once (footer_serialize (build_footer (ce_crates E) (cv_builder (chunked E sch (pl_index pl) blob))))"
    and "\<And>h r. first_ref (file_to_shards (pl_index pl)) h = Some r \<Longrightarrow> mh_from_hex (ce_crates E) oid = Inr h \<Longrightarrow>
      fr_file_size r = length blob"
  shows "\<exists>res pl'. convert E config u1 u2 oid pl = Some (res, pl') \<and> ((\<exists>r. res = Inr r) \<or> (\<exists>m. res = Inl (CStorageError m)))"
proof -
  have c: "obj_content (pl_storage pl) (object_key_of oid) = Some blob" using assms(2,8) by (simp add: local_get_iff)
  have b: "check_bounds config (length blob) = Inr ()" using assms(13,14) by (simp add: check_bounds_def)
  have st: "\<exists>m. e = CStorageError m"
    if "store_converted E config u1 u2 oid (length blob) (chunked E sch (pl_index pl) blob) (pl\<lparr>pl_ledger := l\<rparr>) = (Inl e, pl')" for l e pl'
    using store_converted_error [OF assms(5,6,4) _ assms(7,9,15) _ that] assms(12,14,16) by simp
  obtain res pl' where run: "convert E config u1 u2 oid pl = Some (res, pl')"
    using convert_cases [OF assms(4,3), of pl oid blob config u1 u2 sch] local_conversion.open_blob_content [OF assms(1,2) c] by blast
  show ?thesis
  proof (cases res)
    case (Inl e)
    have "\<exists>m. e = CStorageError m"
      by (rule local_conversion.convert_error [OF assms(1-4) c assms(10) b assms(11) _ run [unfolded Inl]]) (rule st)
    with run Inl show ?thesis by blast
  next
    case (Inr r)
    with run show ?thesis by blast
  qed
qed

text \<open>A stored blob of one byte, for the witnesses; the file is read in blocks of the buffer size.\<close>

function read_blocks :: "bytes \<Rightarrow> bytes list" where
  "read_blocks d = (if d = [] then [] else take CONVERSION_BLOCK_SIZE d # read_blocks (drop CONVERSION_BLOCK_SIZE d))"
  by pat_completeness auto
termination
  by (relation "measure length") (auto simp: CONVERSION_BLOCK_SIZE_def)

declare read_blocks.simps [simp del]

lemma read_blocks_contract: "read_contract read_blocks"
proof -
  have "concat (read_blocks d) = d \<and> list_all (\<lambda>b. b \<noteq> [] \<and> length b \<le> CONVERSION_BLOCK_SIZE) (read_blocks d)" for d
    by (induction d rule: read_blocks.induct) (simp add: read_blocks.simps CONVERSION_BLOCK_SIZE_def)
  then show ?thesis by (simp add: read_contract_def)
qed

definition demo_env :: "(fs, string) conversion_env" where
  "demo_env = \<lparr>ce_crates = inst_crates, ce_gear = gear_every70, ce_backend = local_backend 4096, ce_reads = read_blocks,
     ce_available = None\<rparr>"

definition demo_oid :: string where
  "demo_oid = hex_of_bytes (pad_digest [5])"

definition demo_pipeline :: "fs ConversionPipeline" where
  "demo_pipeline = \<lparr>pl_storage = [[] \<mapsto> FDir, [''lfs''] \<mapsto> FDir, [''lfs'', ''objects''] \<mapsto> FDir,
       [''lfs'', ''objects'', demo_oid] \<mapsto> FFile [5]],
     pl_index = index_new, pl_ledger = \<lparr>quota_bytes = 10, min_free_bytes = 1, charged_bytes = 0, reserved_bytes = 0\<rparr>\<rparr>"

definition demo_config :: ConversionConfig where
  "demo_config = \<lparr>cc_enabled = True, cc_compression_scheme = ''None'', delete_raw_after_conversion = True,
     min_conversion_size = 1, max_conversion_size = 100, cc_concurrency = 1, cc_queue_capacity = 1\<rparr>"

lemma demo_scheme: "scheme demo_config = Inr CNone"
  by code_simp

lemma demo_pipeline_fs: "fs_ok (pl_storage demo_pipeline)"
  by (auto simp: demo_pipeline_def fs_ok_def split: if_splits)

lemma demo_oid_path: "object_path (object_key_of demo_oid) = Inr [''lfs'', ''objects'', demo_oid]"
  by code_simp

lemma demo_blob: "local_get (pl_storage demo_pipeline) (object_key_of demo_oid) = Inr [5]"
  by (simp add: local_get_iff [OF demo_pipeline_fs] obj_content_Some demo_oid_path) (simp add: demo_pipeline_def)

lemma demo_absent: "hd p \<noteq> ''lfs'' \<Longrightarrow> p \<noteq> [] \<Longrightarrow> pl_storage demo_pipeline p = None"
  by (auto simp: demo_pipeline_def)

lemma demo_ready: "conversion_ready obj_content temp_fresh demo_env sch (pl_index demo_pipeline) [5] ''u1'' ''u2'' (pl_storage demo_pipeline)"
proof -
  have fr: "temp_fresh u (pl_storage demo_pipeline) (f @ a)" if f: "f = ''xorbs/'' \<or> f = ''shards/''" for f a u
    unfolding temp_fresh_def
  proof (intro allI impI)
    fix p assume "object_path (f @ a) = Inr p"
    with family_path [of f a p] f obtain q where "p = takeWhile (\<lambda>c. c \<noteq> CHR ''/'') f # q" by (auto simp: key_families_def)
    with f have "hd (unique_temp_path u p) \<noteq> ''lfs''" by (cases q) (auto simp: unique_temp_path_def file_stem_def)
    then show "pl_storage demo_pipeline (unique_temp_path u p) = None" by (rule demo_absent) simp
  qed
  have "local_exists (pl_storage demo_pipeline) (''xorbs/'' @ a) \<noteq> Inr True" for a
  proof
    assume "local_exists (pl_storage demo_pipeline) (''xorbs/'' @ a) = Inr True"
    then obtain p where p: "object_path (''xorbs/'' @ a) = Inr p" "pl_storage demo_pipeline p \<noteq> None" by (rule local_exists_True)
    from family_path [of "''xorbs/''" a p] p(1) obtain q where "p = ''xorbs'' # q" by (auto simp: key_families_def)
    with p(2) demo_absent [of p] show False by simp
  qed
  with fr [of "''xorbs/''"] fr [of "''shards/''"] show ?thesis
    by (simp add: conversion_ready_def demo_env_def local_backend_def xorb_key_def)
qed

theorem conversion_never_loses_data_witness:
  "\<exists>res pl'. convert demo_env demo_config ''u1'' ''u2'' demo_oid demo_pipeline = Some (res, pl') \<and>
    pl_ledger pl' = pl_ledger demo_pipeline"
proof -
  have "ce_backend demo_env = local_backend 4096" "read_contract (ce_reads demo_env)"
    "demo_oid = hex_encode (ce_crates demo_env) (sha256 (ce_crates demo_env) [5])"
    "unat (max_conversion_size demo_config) \<le> 536870912"
    by (simp_all add: demo_env_def demo_oid_def demo_config_def read_blocks_contract)
  from conversion_never_loses_data [OF this(1) demo_pipeline_fs this(2) demo_blob this(3,4) demo_ready] show ?thesis by blast
qed

lemma demo_chunked: "cv_builder (chunked demo_env CNone idx [5]) = demo_builder"
proof -
  have "blob_chunks gear_every70 [5] = [[5]]"
    by (simp add: blob_chunks_def ref_chunks.simps [of _ _ _ _ _ "[5]"] Let_def cut_size_def)
  then show ?thesis using push_raws_new(1) [of inst_crates CNone "[[5]]" idx] demo_builder_eq by (simp add: chunked_def demo_env_def)
qed

theorem conversion_fails_only_on_storage_witness:
  "\<exists>res pl'. convert demo_env demo_config ''u1'' ''u2'' demo_oid demo_pipeline = Some (res, pl') \<and>
    ((\<exists>r. res = Inr r) \<or> (\<exists>m. res = Inl (CStorageError m)))"
proof (rule conversion_fails_only_on_storage [where dir_len = 4096 and blob = "[5]" and sch = CNone])
  show "magic_once (footer_serialize (build_footer (ce_crates demo_env) (cv_builder (chunked demo_env CNone (pl_index demo_pipeline) [5]))))"
    using demo_fits by (simp add: demo_chunked xorb_fits_def) (simp add: demo_env_def)
qed (simp_all add: demo_pipeline_fs demo_blob demo_scheme,
     simp_all add: demo_env_def demo_config_def demo_oid_def demo_pipeline_def read_blocks_contract index_new_def first_ref_def)

end
