(* ===== verification/Conversion_Restart.thy ===== *)
theory Conversion_Restart
  imports Conversion_Local
begin

text \<open>
  Conversions across a restart: the metadata index lives in memory and is rebuilt from the
  stored shards, each of which is validated against the stored xorbs. The lemmas show that
  what a conversion stores passes that validation, with the registration that the conversion
  itself made.
\<close>

section \<open>The xorb of a conversion is verified\<close>

lemma ucast_of_nat_u64:
  assumes "n < 2 ^ 32"
  shows "(ucast (of_nat n :: u32) :: u64) = of_nat n"
proof -
  have "unat (ucast (of_nat n :: u32) :: u64) = n"
    using assms by (simp add: unsigned_ucast_eq unat_of_nat_u32 take_bit_nat_eq_self)
  also have "n = unat (of_nat n :: u64)" using assms by (simp add: unat_of_nat_u64)
  finally show ?thesis by (simp only: word_unat_eq_iff)
qed

lemma u32_of_u64_nat:
  assumes "n < 2 ^ 32"
  shows "unat (ucast (of_nat n :: u64) :: u32) = n"
  using assms by (simp add: unsigned_ucast_eq unat_of_nat_u64 take_bit_nat_eq_self)

lemma chunk_datas_totals:
  assumes "list_all (chunk_fits C s) ds"
  shows "sum_list (map (\<lambda>c. ucast (uncompressed_size c) :: u64) (chunk_datas C s bo uo ds)) = of_nat (sum_list (map length ds))"
    "sum_list (map (\<lambda>c. ucast (compressed_len c) :: u64) (chunk_datas C s bo uo ds)) =
       of_nat (sum_list (map (\<lambda>d. length (compressed_of C s d)) ds))"
  using assms by (induction ds arbitrary: bo uo) (simp_all add: chunk_fits_def ucast_of_nat_u64)

lemma piece_infos_payload:
  "map compressed_payload_len (piece_infos C a cu (pieces C s ds)) = map (\<lambda>d. length (compressed_of C s d)) ds"
  by (induction ds arbitrary: a cu) (simp_all add: piece_of_length)

lemma piece_infos_nth:
  "i < length ds \<Longrightarrow> serialized_chunk_hash (piece_infos C a cu (pieces C s ds) ! i) = compute_data_hash C (piece_of C s (ds ! i)) \<and>
     serialized_start (piece_infos C a cu (pieces C s ds) ! i) = a + length (concat (map (piece_of C s) (take i ds))) \<and>
     unpacked_len (piece_infos C a cu (pieces C s ds) ! i) = length (ds ! i)"
proof (induction ds arbitrary: a cu i)
  case (Cons d ds)
  then show ?case by (cases i) simp_all
qed simp

lemma piece_infos_length [simp]: "length (piece_infos C a cu ps) = length ps"
  by (induction ps arbitrary: a cu) simp_all

lemma build_totals:
  assumes "add_chunks C (builder_new s) raws = Inr b" "build C b = Inr xr" "list_all (chunk_fits C s) raws"
  shows "total_uncompressed_size xr = of_nat (length (concat raws))"
    "total_compressed_size xr = of_nat (sum_list (map (\<lambda>d. length (compressed_of C s d)) raws))"
proof -
  have "xb_chunks b = chunk_datas C s 0 0 raws"
    using add_chunks_result [of C "builder_new s" raws] assms(1) by (auto simp: builder_new_def)
  with assms(2) chunk_datas_totals [OF assms(3)] show "total_uncompressed_size xr = of_nat (length (concat raws))"
    "total_compressed_size xr = of_nat (sum_list (map (\<lambda>d. length (compressed_of C s d)) raws))"
    by (auto simp: build_def Let_def rbind_eq_Inr length_concat)
qed

lemma compressed_le_pieces: "sum_list (map (\<lambda>d. length (compressed_of C s d)) ds) \<le> length (concat (map (piece_of C s) ds))"
  by (induction ds) (simp_all add: piece_of_length)

definition converted_header :: "XorbBuildResult \<Rightarrow> nat \<Rightarrow> XorbChunkSequenceHeader" where
  "converted_header xr n = \<lparr>xh_xorb_hash = xr_xorb_hash xr, xh_xorb_flags = 0, xh_num_entries = of_nat n,
     xh_num_bytes_in_xorb = ucast (total_uncompressed_size xr), xh_num_bytes_on_disk = ucast (total_compressed_size xr)\<rparr>"

definition converted_table :: "crates \<Rightarrow> CompressionScheme \<Rightarrow> bytes list \<Rightarrow> XorbChunkSequenceEntry list" where
  "converted_table C s raws = map (\<lambda>i. xorb_entry_of (entry_at C s raws i)) [0..<length raws]"

lemma converted_table_checks:
  assumes "length (concat (map (piece_of C s) raws)) < 2 ^ 32" "list_all (chunk_fits C s) raws"
  shows "check_chunk_table (zip (converted_table C s raws) (piece_infos C 0 0 (pieces C s raws))) = Inr ()"
  unfolding check_chunk_table_Inr list_all_length
proof (intro allI impI)
  fix i assume "i < length (zip (converted_table C s raws) (piece_infos C 0 0 (pieces C s raws)))"
  then have i: "i < length raws" by (simp add: converted_table_def)
  have "concat (map (piece_of C s) raws) = concat (map (piece_of C s) (take i raws)) @ concat (map (piece_of C s) (drop i raws))"
    by (metis append_take_drop_id concat_append map_append)
  then have "length (concat (map (piece_of C s) (take i raws))) < 4294967296" using assms(1) by simp
  moreover have "length (raws ! i) < 4294967296" using assms(2) i by (auto simp: list_all_length chunk_fits_def)
  ultimately show "case zip (converted_table C s raws) (piece_infos C 0 0 (pieces C s raws)) ! i of
      (sc, vc) \<Rightarrow> xe_chunk_hash sc = serialized_chunk_hash vc \<and> unat (xe_chunk_byte_range_start sc) = serialized_start vc \<and>
        unat (xe_unpacked_segment_bytes sc) = unpacked_len vc"
    using i piece_infos_nth [OF i, of C 0 0 s]
    by (simp add: converted_table_def xorb_entry_of_def entry_at_def unat_of_nat_u32)
qed

lemma converted_xorb_validates:
  assumes b: "add_chunks C (builder_new s) raws = Inr b" and fits: "xorb_fits C s raws (build_footer C b)" and xr: "build C b = Inr xr"
    and fetch: "fetch (xorb_key C (xr_xorb_hash xr)) = Inr (xr_data xr)"
  shows "\<exists>info. validate_xorb C fetch (converted_table C s raws) 0 (converted_header xr (length raws)) =
      Inr \<lparr>vx_data = xr_data xr, vx_info = info\<rparr> \<and> length (v_chunks info) = length raws"
proof -
  let ?fl = "concat (map (piece_of C s) raws) @ footer_serialize (build_footer C b)"
  note ver = built_verifies [OF b fits]
  have data: "xr_data xr = ?fl" "xr_xorb_hash xr = builder_xorb_hash C b" using build_ok [OF b fits] xr by auto
  have f: "list_all (chunk_fits C s) raws" "length (concat (map (piece_of C s) raws)) < 2 ^ 32" "length (concat raws) < 2 ^ 32"
    "length raws \<le> 100000"
    using fits by (simp_all add: xorb_fits_def MAX_CHUNKS_PER_XORB_def)
  note tot = build_totals [OF b xr f(1)]
  have sizes: "unat (ucast (total_uncompressed_size xr) :: u32) = sum_list (map length raws)"
    "unat (ucast (total_compressed_size xr) :: u32) = sum_list (map (\<lambda>d. length (compressed_of C s d)) raws)"
    unfolding tot using f(2,3) compressed_le_pieces [of C s raws] by (simp_all add: u32_of_u64_nat length_concat)
  have n: "unat (of_nat (length raws) :: u32) = length raws" using f(4) by (simp add: unat_of_nat_u32)
  have "length (converted_table C s raws) = length raws" by (simp add: converted_table_def)
  then show ?thesis
    using ver fetch data sizes n f(4) converted_table_checks [OF f(2,1)]
    by (simp add: validate_xorb_def converted_header_def Let_def nat_checked_add_def piece_infos_payload)
qed

section \<open>The file of a conversion is validated\<close>

lemma converted_planned_validates:
  assumes lz4: "lz4_contract C" and data: "vx_data v = concat (map (piece_of C s) raws) @ footer"
    and n: "length (v_chunks (vx_info v)) = length raws" "length raws < 2 ^ 32" and m: "m x = Some v"
    and i: "i < length raws" "length (raws ! i) \<le> 131072" and fits: "length (concat (map (piece_of C s) raws)) < 2 ^ 32"
  shows "validate_planned C m (planned_at C s raws x i) = Inr (raws ! i)"
proof -
  have "chunk_read C (\<lambda>_. Inr (vx_data v)) (planned_at C s raws x i) (raws ! i)"
    using converted_chunk_read [OF lz4 _ i fits, of "\<lambda>_. Inr (vx_data v)" x footer] data by simp
  moreover have "unat (of_nat i :: u32) = i" using i(1) n(2) by (simp add: unat_of_nat_u32)
  ultimately show ?thesis using m n(1) i(1) by (auto simp: validate_planned_def chunk_read_def planned_at_def)
qed

lemma validate_chunks_complete:
  assumes "\<And>i. i \<in> set is \<Longrightarrow> validate_planned C m (p i) = Inr (raw i)"
    and "acc + sum_list (map (\<lambda>i. length (raw i)) is) < 2 ^ 64"
  shows "validate_chunks C m (map p is) acc = Inr (map raw is, acc + sum_list (map (\<lambda>i. length (raw i)) is))"
  using assms
proof (induction "is" arbitrary: acc)
  case (Cons i "is")
  have "validate_chunks C m (map p is) (acc + length (raw i)) =
      Inr (map raw is, acc + length (raw i) + sum_list (map (\<lambda>i. length (raw i)) is))"
    using Cons.prems by (intro Cons.IH) auto
  with Cons.prems(1) [of i] Cons.prems(2) show ?case by (simp add: nat_checked_add_def)
qed simp

lemma converted_file_validates:
  assumes lz4: "lz4_contract C" and gear: "gear_contract g" and len: "length blob \<le> 536870912"
    and sh: "shard_parse C (sb_bytes (converted_builder C s (blob_chunks g blob) xr h)) = Inr shard"
    and v: "m (xr_xorb_hash xr) = Some v" "vx_data v = concat (map (piece_of C s) (blob_chunks g blob)) @ footer"
      "length (v_chunks (vx_info v)) = length (blob_chunks g blob)"
    and sha: "mh_to_hex C h = hex_encode C (sha256 C blob)"
  shows "validate_file C m shard 0 = Inr (\<lparr>vf_file_hash = h, vf_file_index = 0, vf_file_size = length blob\<rparr>,
    map (\<lambda>i. (xr_xorb_hash xr, of_nat i)) [0..<length (blob_chunks g blob)])"
proof -
  let ?raws = "blob_chunks g blob" and ?x = "xr_xorb_hash xr"
  note shape = blob_chunks_shape(1) [OF gear, of blob] blob_chunks_shape(2) [OF gear] and fits = blob_fits [OF lz4 gear len]
  have n: "length ?raws < 2 ^ 32" "length (concat ?raws) < 2 ^ 32" using fits(1) len by (simp_all add: shape(1))
  obtain plan where plan: "build_file_chunk_plan shard h (Some 0) = Inr plan"
    "pf_chunks plan = map (planned_at C s ?raws ?x) [0..<length ?raws]"
    using converted_plan [OF n sh] by blast
  have "validate_planned C m (planned_at C s ?raws ?x i) = Inr (?raws ! i)" if "i < length ?raws" for i
    using that by (intro converted_planned_validates [where m = m and x = ?x and v = v and footer = footer, OF lz4 v(2,3) n(1) v(1)] fits(2) shape(2) [of _ blob]) simp_all
  then have "validate_chunks C m (map (planned_at C s ?raws ?x) [0..<length ?raws]) 0 =
      Inr (map ((!) ?raws) [0..<length ?raws], 0 + sum_list (map (\<lambda>i. length (?raws ! i)) [0..<length ?raws]))"
    using n(2) by (intro validate_chunks_complete) (simp_all add: sum_lengths_nth)
  then have "validate_chunks C m (pf_chunks plan) 0 = Inr (?raws, length blob)"
    by (simp add: plan(2) sum_lengths_nth shape(1) map_nth)
  moreover have "file_hash_matches C h ?raws" using sha by (simp add: file_hash_matches_def shape(1))
  ultimately show ?thesis
    using plan converted_shard_fields(1) [OF n(1) sh] by (simp add: validate_file_def planned_at_def)
qed

lemma converted_lookup_registered:
  "map (\<lambda>e. \<lparr>vc_chunk_hash = cl_chunk_hash e, vc_xorb_hash = cl_xorb_hash e, vc_chunk_index = cl_chunk_index e\<rparr>)
     (filter (\<lambda>e. (cl_xorb_hash e, cl_chunk_index e) \<in> set (map (\<lambda>i. (xr_xorb_hash xr, of_nat i)) [0..<length raws]))
       (sb_chunk_lookup_entries (converted_builder C s raws xr h))) =
   verified_chunks_of (xr_xorb_hash xr) (map (compute_data_hash C) raws)"
proof -
  have "filter (\<lambda>e. (cl_xorb_hash e, cl_chunk_index e) \<in> set (map (\<lambda>i. (xr_xorb_hash xr, of_nat i)) [0..<length raws]))
      (sb_chunk_lookup_entries (converted_builder C s raws xr h)) = sb_chunk_lookup_entries (converted_builder C s raws xr h)"
    by (rule filter_True) (auto simp: converted_builder_def in_set_enumerate_eq)
  then show ?thesis by (simp only:) (simp add: converted_builder_def verified_chunks_of_def o_def split_def)
qed

lemma strip_shards [simp]: "strip_shards_prefix (''shards/'' @ sid) = sid"
  by (simp add: strip_shards_prefix_def)

text \<open>
  C32. A restart sees what the conversion registered: when the xorb and the shard that a conversion
  of a blob built are in storage, processing the stored shard during the rebuild of the index
  downloads and verifies the xorb, rebuilds the file, and yields exactly the registration
  the conversion made, with the same file mapping and the same chunk mappings.
\<close>

theorem converted_shard_revalidates:
  fixes E :: "('s, 'u) conversion_env"
  defines "C \<equiv> ce_crates E"
  assumes "lz4_contract C" "gear_contract (ce_gear E)" "length blob \<le> 536870912"
    and "magic_once (footer_serialize (build_footer C (cv_builder (chunked E sch idx blob))))"
    and "build C (cv_builder (chunked E sch idx blob)) = Inr xr"
    and "shard_of_conversion C xr (chunked E sch idx blob) h = Inr shard_data"
    and "fetch (xorb_key C (xr_xorb_hash xr)) = Inr (xr_data xr)" "fetch (''shards/'' @ sid) = Inr shard_data"
    and "mh_to_hex C h = hex_encode C (sha256 C blob)"
  shows "process_shard C fetch (''shards/'' @ sid) =
    Some \<lparr>reg_shard_id = sid, reg_files = [\<lparr>vf_file_hash = h, vf_file_index = 0, vf_file_size = length blob\<rparr>],
      reg_chunks = verified_chunks_of (xr_xorb_hash xr) (cv_raw_chunk_hashes (chunked E sch idx blob))\<rparr>"
proof -
  let ?raws = "blob_chunks (ce_gear E) blob" and ?cv = "chunked E sch idx blob"
  let ?b = "converted_builder C sch ?raws xr h"
  note fits = blob_fits [OF assms(2-4)]
  have n: "length ?raws < 2 ^ 32" using fits(1) by simp
  have bytes: "shard_data = sb_bytes ?b" using assms(7) shard_of_conversion_eq [OF n, of C xr idx sch h] by (simp add: chunked_def C_def)
  obtain shard where sh: "shard_parse C (sb_bytes ?b) = Inr shard" using parse_built [OF converted_builder_ok(2,1) [OF n]] by blast
  note fields = converted_shard_fields [OF n sh]
  have add: "add_chunks C (builder_new sch) ?raws = Inr (cv_builder ?cv)" using push_raws_new(1) by (simp add: chunked_def C_def)
  have xf: "xorb_fits C sch ?raws (build_footer C (cv_builder ?cv))"
    using fits assms(4,5) by (simp add: xorb_fits_def MAX_CHUNKS_PER_XORB_def blob_chunks_shape(1) [OF assms(3)])
  obtain info where info: "validate_xorb C fetch (converted_table C sch ?raws) 0 (converted_header xr (length ?raws)) =
      Inr \<lparr>vx_data = xr_data xr, vx_info = info\<rparr>" "length (v_chunks info) = length ?raws"
    using converted_xorb_validates [OF add xf assms(6), of fetch] assms(8) by blast
  let ?v = "\<lparr>vx_data = xr_data xr, vx_info = info\<rparr>"
  have tab: "xorb_chunk_entries shard = converted_table C sch ?raws" "xorb_entries shard = [converted_header xr (length ?raws)]"
    using fields(3,4) by (simp_all add: converted_table_def converted_header_def)
  have u: "unat (of_nat (length ?raws) :: u32) = length ?raws" using n by (simp add: unat_of_nat_u32)
  have xs: "validate_xorbs C fetch (xorb_chunk_entries shard) (xorb_entries shard) 0 Map.empty =
      Inr ([xr_xorb_hash xr \<mapsto> ?v], length ?raws)"
    unfolding tab using info(1) u by (simp add: converted_header_def)
  obtain footer where "xr_data xr = concat (map (piece_of C sch) ?raws) @ footer" using build_data [OF add assms(6)] by blast
  then have "validate_file C [xr_xorb_hash xr \<mapsto> ?v] shard 0 = Inr (\<lparr>vf_file_hash = h, vf_file_index = 0, vf_file_size = length blob\<rparr>,
      map (\<lambda>i. (xr_xorb_hash xr, of_nat i)) [0..<length ?raws])"
    using info(2) assms(10) by (intro converted_file_validates [OF assms(2-4) sh, of _ ?v]) simp_all
  then have "validate_shard_for_index C fetch sid shard = Inr \<lparr>reg_shard_id = sid,
      reg_files = [\<lparr>vf_file_hash = h, vf_file_index = 0, vf_file_size = length blob\<rparr>],
      reg_chunks = verified_chunks_of (xr_xorb_hash xr) (map (compute_data_hash C) ?raws)\<rparr>"
    unfolding validate_shard_for_index_def xs using fields(1)
    by (simp add: tab(1) converted_table_def fields(5) converted_lookup_registered del: set_map set_upt)
  moreover have "parse_from_file C (Some (sb_bytes ?b)) = Inr shard"
    using sh by (simp add: parse_from_file_def shard_parse_def hash_reader_eq split: if_splits)
  moreover have "cv_raw_chunk_hashes ?cv = map (compute_data_hash C) ?raws" by (simp add: chunked_def push_raws_new C_def)
  ultimately show ?thesis using assms(9) unfolding process_shard_eq strip_shards by (simp add: bytes parse_path_def)
qed

definition demo_fetch :: "bytes \<Rightarrow> bytes \<Rightarrow> fetch" where
  "demo_fetch xorb shard key =
     (if key = ''shards/s'' then Inr shard else if take 6 key = ''xorbs/'' then Inr xorb else Inl (NotFound key))"

lemma converted_shard_revalidates_witness:
  "\<exists>fetch reg. process_shard inst_crates fetch ''shards/s'' = Some reg \<and> map vf_file_size (reg_files reg) = [1]"
proof -
  let ?C = "ce_crates demo_env" and ?cv = "chunked demo_env CNone index_new [5]"
  have raws: "length (blob_chunks gear_every70 [5]) < 2 ^ 32"
    using blob_fits(1) [of inst_crates gear_every70 "[5]"] by simp
  obtain xr where xr: "build ?C (cv_builder ?cv) = Inr xr"
    using build_ok [OF demo_builder_eq demo_fits] by (auto simp: demo_chunked) (auto simp: demo_env_def)
  obtain d where d: "shard_of_conversion ?C xr ?cv (mh_from_bytes (pad_digest [5])) = Inr d"
    using shard_of_conversion_eq [OF raws, of inst_crates xr index_new CNone] by (simp add: chunked_def demo_env_def)
  have "process_shard ?C (demo_fetch (xr_data xr) d) (''shards/'' @ ''s'') =
      Some \<lparr>reg_shard_id = ''s'', reg_files = [\<lparr>vf_file_hash = mh_from_bytes (pad_digest [5]), vf_file_index = 0, vf_file_size = length [5 :: byte]\<rparr>],
        reg_chunks = verified_chunks_of (xr_xorb_hash xr) (cv_raw_chunk_hashes ?cv)\<rparr>"
  proof (rule converted_shard_revalidates [OF _ _ _ _ xr d])
    show "magic_once (footer_serialize (build_footer ?C (cv_builder ?cv)))"
      using demo_fits by (simp add: demo_chunked xorb_fits_def) (simp add: demo_env_def)
  qed (simp_all add: demo_env_def demo_fetch_def xorb_key_def mh_to_hex_def mh_as_from_bytes)
  then have "process_shard inst_crates (demo_fetch (xr_data xr) d) ''shards/s'' =
      Some \<lparr>reg_shard_id = ''s'', reg_files = [\<lparr>vf_file_hash = mh_from_bytes (pad_digest [5]), vf_file_index = 0, vf_file_size = 1\<rparr>],
        reg_chunks = verified_chunks_of (xr_xorb_hash xr) (cv_raw_chunk_hashes ?cv)\<rparr>"
    by (simp add: demo_env_def)
  then show ?thesis by (intro exI conjI, assumption) simp
qed

end
