(* ===== verification/Conversion_Scheduler.thy ===== *)
theory Conversion_Scheduler
  imports Xet_Prelude "HOL-Library.Multiset"
begin

text \<open>
  The scheduler of lazy conversions, \<^verbatim>\<open>src/src/conversion/converting_oids.rs\<close>: callers enqueue
  object ids into a bounded channel, a fixed number of workers takes them out and converts
  them, and a set of ids in flight rejects duplicates. Callers, workers and the shutdown run
  concurrently, so each is a program counter and every access to shared state is one step;
  the steps of a caller are determined by the state, a worker may also be cancelled.

  The lemmas show, for every interleaving, that the set holds exactly the ids that a caller,
  the channel or a worker has, so no id is ever converted twice at the same time and none
  stays blocked; that the queue is bounded; and what the counters count.
\<close>

section \<open>The set of converting ids\<close>

definition try_acquire :: "string set \<Rightarrow> string \<Rightarrow> bool \<times> string set" where
  "try_acquire inner oid = (oid \<notin> inner, insert oid inner)"

definition release :: "string set \<Rightarrow> string \<Rightarrow> string set" where
  "release inner oid = inner - {oid}"

lemma acquire_release:
  "try_acquire inner oid = (True, inner') \<Longrightarrow> fst (try_acquire inner' oid) = False \<and> release inner' oid = inner"
  by (auto simp: try_acquire_def release_def)

section \<open>State\<close>

datatype EnqueueResult = Accepted | Duplicate | QueueFull | ShuttingDown

text \<open>\<open>ss_sender\<close>: the sender has not been taken; \<open>ss_locked\<close>: the mutex around it is held.\<close>

record ConversionScheduler =
  ss_sender :: bool
  ss_locked :: bool
  ss_channel :: "string list"
  ss_state :: "string set"
  ss_cancelled :: bool
  ss_queued :: u64
  ss_running :: u64
  ss_accepted :: u64
  ss_rejected_full :: u64
  ss_rejected_duplicate :: u64
  ss_closed :: bool

definition scheduler_new :: "nat \<Rightarrow> nat \<Rightarrow> string + ConversionScheduler" where
  "scheduler_new concurrency queue_capacity =
     (if concurrency = 0 \<or> queue_capacity = 0 then Inl ''conversion scheduler limits must be greater than zero''
      else Inr \<lparr>ss_sender = True, ss_locked = False, ss_channel = [], ss_state = {}, ss_cancelled = False, ss_queued = 0,
                ss_running = 0, ss_accepted = 0, ss_rejected_full = 0, ss_rejected_duplicate = 0, ss_closed = False\<rparr>)"

section \<open>Enqueueing\<close>

text \<open>
  Where a caller of \<open>try_enqueue\<close> stands: before the closed check, before the insertion, before
  the lock, holding the lock, sent but not counted, about to take its id back, returned.
\<close>

datatype caller =
    Entering string
  | Checked string
  | Inserted string
  | Locked string
  | Sent string
  | Undo string EnqueueResult bool
  | Returned EnqueueResult

text \<open>One access of a caller; \<open>receiver\<close> says whether a worker still holds the receiver.\<close>

fun caller_step :: "nat \<Rightarrow> bool \<Rightarrow> ConversionScheduler \<Rightarrow> caller \<Rightarrow> (caller \<times> ConversionScheduler) option" where
  "caller_step cap receiver st (Entering oid) =
     Some (if ss_closed st then Returned ShuttingDown else Checked oid, st)"
| "caller_step cap receiver st (Checked oid) =
     Some (if oid \<in> ss_state st
           then (Returned Duplicate, st\<lparr>ss_rejected_duplicate := ss_rejected_duplicate st + 1\<rparr>)
           else (Inserted oid, st\<lparr>ss_state := insert oid (ss_state st)\<rparr>))"
| "caller_step cap receiver st (Inserted oid) =
     Some (if ss_locked st then (Undo oid QueueFull False, st) else (Locked oid, st\<lparr>ss_locked := True\<rparr>))"
| "caller_step cap receiver st (Locked oid) =
     Some (if \<not> ss_sender st then (Undo oid ShuttingDown True, st)
           else if \<not> receiver then (Undo oid ShuttingDown True, st)
           else if length (ss_channel st) \<ge> cap then (Undo oid QueueFull True, st)
           else (Sent oid, st\<lparr>ss_channel := ss_channel st @ [oid]\<rparr>))"
| "caller_step cap receiver st (Sent oid) =
     Some (Returned Accepted, st\<lparr>ss_queued := ss_queued st + 1, ss_accepted := ss_accepted st + 1, ss_locked := False\<rparr>)"
| "caller_step cap receiver st (Undo oid r holds_lock) =
     Some (Returned r, st\<lparr>ss_state := ss_state st - {oid},
       ss_rejected_full := ss_rejected_full st + (if r = QueueFull then 1 else 0),
       ss_locked := (if holds_lock then False else ss_locked st)\<rparr>)"
| "caller_step cap receiver st (Returned r) = None"

section \<open>Workers\<close>

datatype worker =
    Waiting
  | Received string
  | Running string
  | Finished string
  | Dropped
  | Exited

text \<open>What the environment decides: the awaited operation completes, or the cancellation is seen first.\<close>

datatype choice = Proceed | Cancel

fun worker_step :: "choice \<Rightarrow> ConversionScheduler \<Rightarrow> worker \<Rightarrow> (worker \<times> ConversionScheduler) option" where
  "worker_step Cancel st Waiting = (if ss_cancelled st then Some (Exited, st) else None)"
| "worker_step Proceed st Waiting =
     (case ss_channel st of
        oid # rest \<Rightarrow> Some (Received oid, st\<lparr>ss_channel := rest\<rparr>)
      | [] \<Rightarrow> if ss_sender st then None else Some (Exited, st))"
| "worker_step c st (Received oid) =
     Some (Running oid, st\<lparr>ss_queued := ss_queued st - 1, ss_running := ss_running st + 1\<rparr>)"
| "worker_step Proceed st (Running oid) = Some (Finished oid, st\<lparr>ss_running := ss_running st - 1\<rparr>)"
| "worker_step Cancel st (Running oid) =
     (if ss_cancelled st then Some (Dropped, st\<lparr>ss_state := ss_state st - {oid}\<rparr>) else None)"
| "worker_step c st (Finished oid) = Some (Waiting, st\<lparr>ss_state := ss_state st - {oid}\<rparr>)"
| "worker_step c st Dropped = Some (Waiting, st\<lparr>ss_running := ss_running st - 1\<rparr>)"
| "worker_step c st Exited = None"

section \<open>Shutdown\<close>

datatype shutdown = Serving | Closing | SenderTaken | Cancelling | Joining | Joined | Down

fun shutdown_step :: "bool \<Rightarrow> ConversionScheduler \<Rightarrow> shutdown \<Rightarrow> (shutdown \<times> ConversionScheduler) option" where
  "shutdown_step all_exited st Serving = Some (Closing, st\<lparr>ss_closed := True\<rparr>)"
| "shutdown_step all_exited st Closing = (if ss_locked st then None else Some (SenderTaken, st\<lparr>ss_sender := False\<rparr>))"
| "shutdown_step all_exited st SenderTaken = Some (Cancelling, st\<lparr>ss_cancelled := True\<rparr>)"
| "shutdown_step all_exited st Cancelling = Some (Joining, st\<lparr>ss_queued := 0\<rparr>)"
| "shutdown_step all_exited st Joining = (if all_exited then Some (Joined, st) else None)"
| "shutdown_step all_exited st Joined = Some (Down, st\<lparr>ss_state := {}\<rparr>)"
| "shutdown_step all_exited st Down = None"

section \<open>Interleavings\<close>

text \<open>The whole system; \<open>sc_lost\<close> records the ids of conversions that were aborted at the deadline.\<close>

record sched_config =
  sc_st :: ConversionScheduler
  sc_callers :: "caller list"
  sc_workers :: "worker list"
  sc_shutdown :: shutdown
  sc_lost :: "string multiset"

abbreviation all_exited :: "worker list \<Rightarrow> bool" where
  "all_exited ws \<equiv> list_all (\<lambda>w. w = Exited) ws"

inductive sched_reach :: "nat \<Rightarrow> nat \<Rightarrow> sched_config \<Rightarrow> bool" for concurrency cap where
  start: "scheduler_new concurrency cap = Inr st \<Longrightarrow>
    sched_reach concurrency cap \<lparr>sc_st = st, sc_callers = [], sc_workers = replicate concurrency Waiting,
      sc_shutdown = Serving, sc_lost = {#}\<rparr>"
| call: "sched_reach concurrency cap q \<Longrightarrow>
    sched_reach concurrency cap (q\<lparr>sc_callers := sc_callers q @ [Entering oid]\<rparr>)"
| caller: "sched_reach concurrency cap q \<Longrightarrow> i < length (sc_callers q) \<Longrightarrow>
    caller_step cap (\<not> all_exited (sc_workers q)) (sc_st q) (sc_callers q ! i) = Some (c, st) \<Longrightarrow>
    sched_reach concurrency cap (q\<lparr>sc_st := st, sc_callers := (sc_callers q)[i := c]\<rparr>)"
| worker: "sched_reach concurrency cap q \<Longrightarrow> i < length (sc_workers q) \<Longrightarrow>
    worker_step ch (sc_st q) (sc_workers q ! i) = Some (w, st) \<Longrightarrow>
    sched_reach concurrency cap (q\<lparr>sc_st := st, sc_workers := (sc_workers q)[i := w]\<rparr>)"
| shutdown: "sched_reach concurrency cap q \<Longrightarrow>
    shutdown_step (all_exited (sc_workers q)) (sc_st q) (sc_shutdown q) = Some (s, st) \<Longrightarrow>
    sched_reach concurrency cap (q\<lparr>sc_st := st, sc_shutdown := s\<rparr>)"
| abort_idle: "sched_reach concurrency cap q \<Longrightarrow> sc_shutdown q = Joining \<Longrightarrow> i < length (sc_workers q) \<Longrightarrow>
    sc_workers q ! i = Waiting \<Longrightarrow> sched_reach concurrency cap (q\<lparr>sc_workers := (sc_workers q)[i := Exited]\<rparr>)"
| abort_running: "sched_reach concurrency cap q \<Longrightarrow> sc_shutdown q = Joining \<Longrightarrow> i < length (sc_workers q) \<Longrightarrow>
    sc_workers q ! i = Running oid \<Longrightarrow>
    sched_reach concurrency cap (q\<lparr>sc_workers := (sc_workers q)[i := Exited], sc_lost := add_mset oid (sc_lost q)\<rparr>)"

section \<open>Ids in flight\<close>

fun caller_has :: "caller \<Rightarrow> string multiset" where
  "caller_has (Inserted oid) = {#oid#}"
| "caller_has (Locked oid) = {#oid#}"
| "caller_has (Undo oid r l) = {#oid#}"
| "caller_has _ = {#}"

fun worker_has :: "worker \<Rightarrow> string multiset" where
  "worker_has (Received oid) = {#oid#}"
| "worker_has (Running oid) = {#oid#}"
| "worker_has (Finished oid) = {#oid#}"
| "worker_has _ = {#}"

definition in_flight :: "sched_config \<Rightarrow> string multiset" where
  "in_flight q = sum_list (map caller_has (sc_callers q)) + mset (ss_channel (sc_st q)) +
     sum_list (map worker_has (sc_workers q)) + sc_lost q"

abbreviation count_pc :: "('p \<Rightarrow> bool) \<Rightarrow> 'p list \<Rightarrow> nat" where
  "count_pc P ps \<equiv> length (filter P ps)"

definition is_sent :: "caller \<Rightarrow> bool" where
  "is_sent c = (case c of Sent _ \<Rightarrow> True | _ \<Rightarrow> False)"

definition is_received :: "worker \<Rightarrow> bool" where
  "is_received w = (case w of Received _ \<Rightarrow> True | _ \<Rightarrow> False)"

definition is_busy :: "worker \<Rightarrow> bool" where
  "is_busy w = (case w of Running _ \<Rightarrow> True | Dropped \<Rightarrow> True | _ \<Rightarrow> False)"

definition sched_inv :: "nat \<Rightarrow> nat \<Rightarrow> sched_config \<Rightarrow> bool" where
  "sched_inv concurrency cap q \<longleftrightarrow>
     length (sc_workers q) = concurrency \<and> length (ss_channel (sc_st q)) \<le> cap \<and> finite (ss_state (sc_st q)) \<and>
     (sc_shutdown q \<noteq> Down \<longrightarrow> in_flight q = mset_set (ss_state (sc_st q))) \<and>
     (sc_shutdown q \<in> {Joined, Down} \<longrightarrow> all_exited (sc_workers q)) \<and>
     (sc_shutdown q \<in> {Serving, Closing, SenderTaken, Cancelling} \<longrightarrow> sc_lost q = {#} \<and>
        ss_queued (sc_st q) + of_nat (count_pc is_sent (sc_callers q)) =
        of_nat (length (ss_channel (sc_st q)) + count_pc is_received (sc_workers q))) \<and>
     ss_running (sc_st q) = of_nat (count_pc is_busy (sc_workers q) + size (sc_lost q))"

section \<open>The invariant is kept\<close>

lemma sum_list_split_at:
  fixes f :: "'p \<Rightarrow> 'm::comm_monoid_add"
  assumes "i < length ps"
  obtains R where "\<And>p. sum_list (map f (ps[i := p])) = f p + R" "sum_list (map f ps) = f (ps ! i) + R"
proof -
  have "sum_list (map f (ps[i := p])) = f p + (sum_list (map f (take i ps)) + sum_list (map f (drop (Suc i) ps)))" for p
    using assms by (simp add: upd_conv_take_nth_drop ac_simps)
  from this [of "ps ! i"] this that show thesis by (metis list_update_id)
qed

lemma count_split_at:
  assumes "i < length ps"
  obtains k where "\<And>p. count_pc P (ps[i := p]) = (if P p then 1 else 0) + k" "count_pc P ps = (if P (ps ! i) then 1 else 0) + k"
proof -
  have "count_pc P qs = sum_list (map (\<lambda>p. if P p then 1 else 0) qs)" for qs by (induction qs) simp_all
  with sum_list_split_at [OF assms, of "\<lambda>p. if P p then 1 else (0::nat)"] that show thesis by metis
qed

lemma mset_set_remove:
  assumes "add_mset x M = mset_set A" "finite A"
  shows "M = mset_set (A - {x})"
proof -
  have "x \<in> A" using assms by (metis finite_set_mset_mset_set union_single_eq_member)
  then have "mset_set A = add_mset x (mset_set (A - {x}))" using assms(2) by (rule mset_set.remove [rotated])
  with assms(1) show ?thesis by simp
qed

text \<open>The effect of one step on each part of the shared state; \<open>R\<close> is what everybody else has.\<close>

lemma caller_step_flight:
  assumes "caller_step cap rcv st c = Some (c', st')" "finite (ss_state st)"
    and "caller_has c + mset (ss_channel st) + R = mset_set (ss_state st)"
  shows "caller_has c' + mset (ss_channel st') + R = mset_set (ss_state st')"
proof (cases c)
  case (Undo oid r l)
  have "add_mset oid (mset (ss_channel st) + R) = mset_set (ss_state st)" using assms(3) Undo by simp
  from mset_set_remove [OF this assms(2)] Undo assms(1) show ?thesis by auto
qed (use assms in \<open>auto split: if_splits\<close>)

lemma caller_step_sizes:
  assumes "caller_step cap rcv st c = Some (c', st')" "finite (ss_state st)" "length (ss_channel st) \<le> cap"
  shows "finite (ss_state st')" "length (ss_channel st') \<le> cap" "ss_running st' = ss_running st"
  using assms by (cases c; auto split: if_splits)+

lemma caller_step_queued:
  assumes "caller_step cap rcv st c = Some (c', st')"
  shows "ss_queued st' + of_nat (if is_sent c' then 1 else 0) + of_nat (length (ss_channel st)) =
    ss_queued st + of_nat (if is_sent c then 1 else 0) + of_nat (length (ss_channel st'))"
  using assms by (cases c) (auto simp: is_sent_def split: if_splits)

lemma worker_step_flight:
  assumes "worker_step ch st w = Some (w', st')" "finite (ss_state st)"
    and "worker_has w + mset (ss_channel st) + R = mset_set (ss_state st)"
  shows "worker_has w' + mset (ss_channel st') + R = mset_set (ss_state st')"
proof -
  have rm: "mset (ss_channel st) + R = mset_set (ss_state st - {oid})" if "worker_has w = {#oid#}" for oid
    using mset_set_remove [OF _ assms(2), of oid "mset (ss_channel st) + R"] assms(3) that by simp
  show ?thesis using assms rm by (cases w; cases ch) (auto split: if_splits list.splits)
qed

lemma worker_step_sizes:
  assumes "worker_step ch st w = Some (w', st')" "finite (ss_state st)" "length (ss_channel st) \<le> cap"
  shows "finite (ss_state st')" "length (ss_channel st') \<le> cap"
  using assms by (cases w; cases ch; auto split: if_splits list.splits)+

lemma worker_step_queued:
  assumes "worker_step ch st w = Some (w', st')"
  shows "ss_queued st' + of_nat (length (ss_channel st)) + of_nat (if is_received w then 1 else 0) =
      ss_queued st + of_nat (length (ss_channel st')) + of_nat (if is_received w' then 1 else 0)"
    "ss_running st' + of_nat (if is_busy w then 1 else 0) = ss_running st + of_nat (if is_busy w' then 1 else 0)"
  using assms by (cases w; cases ch; auto simp: is_received_def is_busy_def split: if_splits list.splits)+

lemma balance_shift:
  fixes a b c d k r :: "'g::ab_group_add"
  assumes "a' + b = a + b'" "a + k = b + r"
  shows "a' + k = b' + r"
proof -
  have "(a' + k) + b = (a' + b) + k" by (simp add: ac_simps)
  also have "\<dots> = (a + k) + b'" by (simp add: assms(1) ac_simps)
  also have "\<dots> = (b' + r) + b" by (simp add: assms(2) ac_simps)
  finally show ?thesis by simp
qed

lemma caller_step_inv:
  assumes inv: "sched_inv n cap q" and i: "i < length (sc_callers q)"
    and step: "caller_step cap (\<not> all_exited (sc_workers q)) (sc_st q) (sc_callers q ! i) = Some (c, st)"
  shows "sched_inv n cap (q\<lparr>sc_st := st, sc_callers := (sc_callers q)[i := c]\<rparr>)"
proof -
  obtain R where R: "\<And>p. sum_list (map caller_has ((sc_callers q)[i := p])) = caller_has p + R"
    "sum_list (map caller_has (sc_callers q)) = caller_has (sc_callers q ! i) + R" by (rule sum_list_split_at [OF i, of caller_has]) blast
  obtain k where k: "\<And>p. count_pc is_sent ((sc_callers q)[i := p]) = (if is_sent p then 1 else 0) + k"
    "count_pc is_sent (sc_callers q) = (if is_sent (sc_callers q ! i) then 1 else 0) + k" by (rule count_split_at [OF i, of is_sent]) blast
  have fin: "finite (ss_state (sc_st q))" "length (ss_channel (sc_st q)) \<le> cap" using inv by (simp_all add: sched_inv_def)
  have "caller_has c + mset (ss_channel st) + (R + sum_list (map worker_has (sc_workers q)) + sc_lost q) = mset_set (ss_state st)"
    if "sc_shutdown q \<noteq> Down"
    using inv that R(2) by (intro caller_step_flight [OF step fin(1)]) (simp add: sched_inv_def in_flight_def ac_simps)
  moreover have "ss_queued st + of_nat ((if is_sent c then 1 else 0) + k) = of_nat (length (ss_channel st) + r)"
    if "ss_queued (sc_st q) + of_nat ((if is_sent (sc_callers q ! i) then 1 else 0) + k) = of_nat (length (ss_channel (sc_st q)) + r)" for r
    using balance_shift [of "ss_queued st + of_nat (if is_sent c then 1 else 0)" "of_nat (length (ss_channel (sc_st q)))"
        "ss_queued (sc_st q) + of_nat (if is_sent (sc_callers q ! i) then 1 else 0)" "of_nat (length (ss_channel st))" "of_nat k" "of_nat r"]
      caller_step_queued [OF step] that unfolding of_nat_add by (simp only: add.assoc)
  ultimately show ?thesis
    using inv caller_step_sizes [OF step fin] R(1) [of c] k
    by (simp add: sched_inv_def in_flight_def ac_simps)
qed

lemma worker_step_inv:
  assumes inv: "sched_inv n cap q" and i: "i < length (sc_workers q)"
    and step: "worker_step ch (sc_st q) (sc_workers q ! i) = Some (w, st)"
  shows "sched_inv n cap (q\<lparr>sc_st := st, sc_workers := (sc_workers q)[i := w]\<rparr>)"
proof -
  obtain R where R: "\<And>p. sum_list (map worker_has ((sc_workers q)[i := p])) = worker_has p + R"
    "sum_list (map worker_has (sc_workers q)) = worker_has (sc_workers q ! i) + R"
    by (rule sum_list_split_at [OF i, of worker_has]) blast
  obtain k where k: "\<And>p. count_pc is_received ((sc_workers q)[i := p]) = (if is_received p then 1 else 0) + k"
    "count_pc is_received (sc_workers q) = (if is_received (sc_workers q ! i) then 1 else 0) + k"
    by (rule count_split_at [OF i, of is_received]) blast
  obtain b where b: "\<And>p. count_pc is_busy ((sc_workers q)[i := p]) = (if is_busy p then 1 else 0) + b"
    "count_pc is_busy (sc_workers q) = (if is_busy (sc_workers q ! i) then 1 else 0) + b"
    by (rule count_split_at [OF i, of is_busy]) blast
  have fin: "finite (ss_state (sc_st q))" "length (ss_channel (sc_st q)) \<le> cap" using inv by (simp_all add: sched_inv_def)
  have "sc_workers q ! i \<noteq> Exited" using step by auto
  then have live: "\<not> all_exited (sc_workers q)" using i by (auto simp: list_all_length)
  have "worker_has w + mset (ss_channel st) + (R + sum_list (map caller_has (sc_callers q)) + sc_lost q) = mset_set (ss_state st)"
    if "sc_shutdown q \<noteq> Down"
    using inv that R(2) by (intro worker_step_flight [OF step fin(1)]) (simp add: sched_inv_def in_flight_def ac_simps)
  moreover have "ss_queued st + of_nat r = of_nat (length (ss_channel st) + ((if is_received w then 1 else 0) + k))"
    if "ss_queued (sc_st q) + of_nat r =
      of_nat (length (ss_channel (sc_st q)) + ((if is_received (sc_workers q ! i) then 1 else 0) + k))" for r
    using balance_shift [of "ss_queued st" "of_nat (length (ss_channel (sc_st q))) + of_nat (if is_received (sc_workers q ! i) then 1 else 0)"
        "ss_queued (sc_st q)" "of_nat (length (ss_channel st)) + of_nat (if is_received w then 1 else 0)" "of_nat r" "of_nat k"]
      worker_step_queued(1) [OF step] that unfolding of_nat_add by (simp only: add.assoc)
  moreover have "ss_running st = of_nat ((if is_busy w then 1 else 0) + b + size (sc_lost q))"
    if "ss_running (sc_st q) = of_nat ((if is_busy (sc_workers q ! i) then 1 else 0) + b + size (sc_lost q))"
    using balance_shift [of "ss_running st" "of_nat (if is_busy (sc_workers q ! i) then 1 else 0)" "ss_running (sc_st q)"
        "of_nat (if is_busy w then 1 else 0)" 0 "of_nat b + of_nat (size (sc_lost q))"]
      worker_step_queued(2) [OF step] that unfolding of_nat_add by (simp only: add.assoc add_0_right)
  ultimately show ?thesis
    using inv worker_step_sizes [OF step fin] R(1) [of w] k b live
    by (simp add: sched_inv_def in_flight_def ac_simps)
qed

lemma shutdown_step_inv:
  assumes "sched_inv n cap q" "shutdown_step (all_exited (sc_workers q)) (sc_st q) (sc_shutdown q) = Some (s, st)"
  shows "sched_inv n cap (q\<lparr>sc_st := st, sc_shutdown := s\<rparr>)"
  using assms by (cases "sc_shutdown q") (auto simp: sched_inv_def in_flight_def split: if_splits)

lemma abort_inv:
  assumes inv: "sched_inv n cap q" and j: "sc_shutdown q = Joining" and i: "i < length (sc_workers q)"
    and w: "sc_workers q ! i = Waiting \<and> l = {#} \<or> (\<exists>oid. sc_workers q ! i = Running oid \<and> l = {#oid#})"
  shows "sched_inv n cap (q\<lparr>sc_workers := (sc_workers q)[i := Exited], sc_lost := l + sc_lost q\<rparr>)"
proof -
  obtain R where R: "\<And>p. sum_list (map worker_has ((sc_workers q)[i := p])) = worker_has p + R"
    "sum_list (map worker_has (sc_workers q)) = worker_has (sc_workers q ! i) + R"
    by (rule sum_list_split_at [OF i, of worker_has]) blast
  obtain b where b: "\<And>p. count_pc is_busy ((sc_workers q)[i := p]) = (if is_busy p then 1 else 0) + b"
    "count_pc is_busy (sc_workers q) = (if is_busy (sc_workers q ! i) then 1 else 0) + b"
    by (rule count_split_at [OF i, of is_busy]) blast
  show ?thesis using w
  proof
    assume "sc_workers q ! i = Waiting \<and> l = {#}"
    with inv j R b show ?thesis by (simp add: sched_inv_def in_flight_def is_busy_def)
  next
    assume "\<exists>oid. sc_workers q ! i = Running oid \<and> l = {#oid#}"
    with inv j R b show ?thesis by (auto simp: sched_inv_def in_flight_def is_busy_def)
  qed
qed

lemma sched_reach_inv:
  assumes "sched_reach n cap q"
  shows "sched_inv n cap q"
  using assms
proof induction
  case (start st)
  then have st: "st = \<lparr>ss_sender = True, ss_locked = False, ss_channel = [], ss_state = {}, ss_cancelled = False, ss_queued = 0,
      ss_running = 0, ss_accepted = 0, ss_rejected_full = 0, ss_rejected_duplicate = 0, ss_closed = False\<rparr>"
    by (simp add: scheduler_new_def split: if_splits)
  have "sum_list (map worker_has (replicate n Waiting)) = {#}" "filter is_received (replicate n Waiting) = []"
    "filter is_busy (replicate n Waiting) = []"
    by (induction n) (simp_all add: is_received_def is_busy_def)
  with st show ?case by (simp add: sched_inv_def in_flight_def)
next
  case (call q oid)
  then show ?case by (simp add: sched_inv_def in_flight_def is_sent_def)
next
  case (caller q i c st)
  then show ?case by (intro caller_step_inv)
next
  case (worker q i ch w st)
  then show ?case by (intro worker_step_inv)
next
  case (shutdown q s st)
  then show ?case by (intro shutdown_step_inv)
next
  case (abort_idle q i)
  then have "sched_inv n cap (q\<lparr>sc_workers := (sc_workers q)[i := Exited], sc_lost := {#} + sc_lost q\<rparr>)" by (intro abort_inv) simp_all
  then show ?case by simp
next
  case (abort_running q i oid)
  then have "sched_inv n cap (q\<lparr>sc_workers := (sc_workers q)[i := Exited], sc_lost := {#oid#} + sc_lost q\<rparr>)" by (intro abort_inv) simp_all
  then show ?case by simp
qed

section \<open>Properties\<close>

text \<open>
  C18. No object is converted twice at the same time, whatever the interleaving of callers,
  workers and shutdown: at most one worker has an id. Until the scheduler is down, an id that
  a caller, the queue or a worker has is refused as a duplicate, and once nothing is in
  flight no id stays blocked.
\<close>

theorem no_id_converted_twice:
  assumes "sched_reach n cap q"
  shows "(\<forall>oid. count (sum_list (map worker_has (sc_workers q))) oid \<le> 1) \<and>
    (sc_shutdown q \<noteq> Down \<longrightarrow> (\<forall>oid. oid \<in># in_flight q \<longrightarrow>
       (\<exists>st. caller_step cap rcv (sc_st q) (Checked oid) = Some (Returned Duplicate, st)))) \<and>
    (sc_shutdown q = Serving \<and> in_flight q = {#} \<longrightarrow> ss_state (sc_st q) = {})"
proof -
  have inv: "sched_inv n cap q" by (rule sched_reach_inv [OF assms])
  have "count (sum_list (map worker_has (sc_workers q))) oid \<le> 1" for oid
  proof (cases "sc_shutdown q = Down")
    case True
    then have "all_exited (sc_workers q)" using inv by (simp add: sched_inv_def)
    moreover have "all_exited ws \<Longrightarrow> sum_list (map worker_has ws) = {#}" for ws by (induction ws) simp_all
    ultimately have "sum_list (map worker_has (sc_workers q)) = {#}" by blast
    then show ?thesis by simp
  next
    case False
    then have "in_flight q = mset_set (ss_state (sc_st q))" using inv by (simp add: sched_inv_def)
    then have "count (in_flight q) oid \<le> 1" by (simp add: count_mset_set')
    then show ?thesis by (simp add: in_flight_def)
  qed
  moreover have "\<exists>st. caller_step cap rcv (sc_st q) (Checked oid) = Some (Returned Duplicate, st)"
    if "sc_shutdown q \<noteq> Down" "oid \<in># in_flight q" for oid
    using inv that by (auto simp: sched_inv_def)
  moreover have "ss_state (sc_st q) = {}" if "sc_shutdown q = Serving" "in_flight q = {#}"
    using inv that by (auto simp: sched_inv_def mset_set_empty_iff)
  ultimately show ?thesis by blast
qed

text \<open>The run of the witnesses: one id enqueued and taken by the only worker before it is counted.\<close>

definition fresh_scheduler :: ConversionScheduler where
  "fresh_scheduler = \<lparr>ss_sender = True, ss_locked = False, ss_channel = [], ss_state = {}, ss_cancelled = False, ss_queued = 0,
     ss_running = 0, ss_accepted = 0, ss_rejected_full = 0, ss_rejected_duplicate = 0, ss_closed = False\<rparr>"

definition early_take :: sched_config where
  "early_take = \<lparr>sc_st = fresh_scheduler\<lparr>ss_locked := True, ss_state := {''a''}, ss_queued := - 1, ss_running := 1\<rparr>,
     sc_callers = [Sent ''a''], sc_workers = [Running ''a''], sc_shutdown = Serving, sc_lost = {#}\<rparr>"

lemma early_take_reachable: "sched_reach 1 1 early_take"
proof -
  let ?q = "\<lambda>st c w. \<lparr>sc_st = st, sc_callers = [c], sc_workers = [w], sc_shutdown = Serving, sc_lost = {#}\<rparr> :: sched_config"
  have step_c: "sched_reach 1 1 (?q st c w) \<Longrightarrow> caller_step 1 (w \<noteq> Exited) st c = Some (c', st') \<Longrightarrow> sched_reach 1 1 (?q st' c' w)" for st c w c' st'
    using sched_reach.caller [of 1 1 "?q st c w" 0 c' st'] by simp
  have step_w: "sched_reach 1 1 (?q st c w) \<Longrightarrow> worker_step Proceed st w = Some (w', st') \<Longrightarrow> sched_reach 1 1 (?q st' c w')" for st c w w' st'
    using sched_reach.worker [of 1 1 "?q st c w" 0 Proceed w' st'] by simp
  have "sched_reach 1 1 (?q fresh_scheduler (Entering ''a'') Waiting)"
    using sched_reach.call [OF sched_reach.start [of 1 1 fresh_scheduler], of "''a''"] by (simp add: scheduler_new_def fresh_scheduler_def)
  from step_c [OF this, of "Checked ''a''" fresh_scheduler]
  have "sched_reach 1 1 (?q fresh_scheduler (Checked ''a'') Waiting)" by (simp add: fresh_scheduler_def)
  from step_c [OF this] have "sched_reach 1 1 (?q (fresh_scheduler\<lparr>ss_state := {''a''}\<rparr>) (Inserted ''a'') Waiting)"
    by (simp add: fresh_scheduler_def)
  from step_c [OF this] have "sched_reach 1 1 (?q (fresh_scheduler\<lparr>ss_locked := True, ss_state := {''a''}\<rparr>) (Locked ''a'') Waiting)"
    by (simp add: fresh_scheduler_def)
  from step_c [OF this]
  have "sched_reach 1 1 (?q (fresh_scheduler\<lparr>ss_locked := True, ss_channel := [''a''], ss_state := {''a''}\<rparr>) (Sent ''a'') Waiting)"
    by (simp add: fresh_scheduler_def)
  from step_w [OF this] have "sched_reach 1 1 (?q (fresh_scheduler\<lparr>ss_locked := True, ss_state := {''a''}\<rparr>) (Sent ''a'') (Received ''a''))"
    by (simp add: fresh_scheduler_def)
  from step_w [OF this] show ?thesis by (simp add: fresh_scheduler_def early_take_def)
qed

theorem no_id_converted_twice_witness:
  "count (sum_list (map worker_has (sc_workers early_take))) ''a'' \<le> 1 \<and>
    (\<exists>st. caller_step 1 True (sc_st early_take) (Checked ''a'') = Some (Returned Duplicate, st))"
proof -
  have "''a'' \<in># in_flight early_take" "sc_shutdown early_take \<noteq> Down" by (simp_all add: early_take_def in_flight_def)
  with no_id_converted_twice [OF early_take_reachable, of True] show ?thesis by blast
qed

text \<open>
  Bounds and counters: the queue never holds more than its capacity; while the scheduler
  serves, the running counter is the number of conversions in progress, at most the
  configured concurrency, and the queued counter is the queue length whenever no caller and
  no worker is between a queue operation and its accounting.
\<close>

theorem scheduler_bounds:
  assumes "sched_reach n cap q" "n < 2 ^ 64" "cap < 2 ^ 64"
  shows "length (ss_channel (sc_st q)) \<le> cap \<and>
    (sc_shutdown q = Serving \<longrightarrow>
       unat (ss_running (sc_st q)) = count_pc is_busy (sc_workers q) \<and> unat (ss_running (sc_st q)) \<le> n \<and>
       (count_pc is_sent (sc_callers q) = 0 \<and> count_pc is_received (sc_workers q) = 0 \<longrightarrow>
          unat (ss_queued (sc_st q)) = length (ss_channel (sc_st q))))"
proof -
  have inv: "sched_inv n cap q" by (rule sched_reach_inv [OF assms(1)])
  have busy: "count_pc is_busy (sc_workers q) \<le> n" using inv length_filter_le [of is_busy "sc_workers q"] by (simp add: sched_inv_def)
  have "unat (ss_running (sc_st q)) = count_pc is_busy (sc_workers q)" if "sc_shutdown q = Serving"
    using inv that busy assms(2) by (simp add: sched_inv_def unat_of_nat_u64)
  moreover have "unat (ss_queued (sc_st q)) = length (ss_channel (sc_st q))"
    if "sc_shutdown q = Serving" "count_pc is_sent (sc_callers q) = 0" "count_pc is_received (sc_workers q) = 0"
    using inv that assms(3) by (simp add: sched_inv_def unat_of_nat_u64)
  ultimately show ?thesis using inv busy by (simp add: sched_inv_def)
qed

theorem scheduler_bounds_witness:
  "length (ss_channel (sc_st early_take)) \<le> 1 \<and> unat (ss_running (sc_st early_take)) = 1"
  using scheduler_bounds [OF early_take_reachable] by (simp add: early_take_def is_busy_def fresh_scheduler_def)

text \<open>
  The queued counter is decremented by the worker before the caller increments it when the
  worker is fast, so it can read \<open>2 ^ 64 - 1\<close> in between.
\<close>

lemma queued_counter_underflows:
  "\<exists>q. sched_reach 1 1 q \<and> sc_shutdown q = Serving \<and> ss_channel (sc_st q) = [] \<and> unat (ss_queued (sc_st q)) = 2 ^ 64 - 1"
proof (intro exI conjI)
  have "unat (- 1 :: u64) = 2 ^ 64 - 1" by (simp add: unsigned_minus_1_eq_mask mask_eq_exp_minus_1)
  then show "unat (ss_queued (sc_st early_take)) = 2 ^ 64 - 1" by (simp add: early_take_def)
qed (rule early_take_reachable, simp_all add: early_take_def fresh_scheduler_def)

end
