(* ===== verification/Rust_Strings.thy ===== *)
theory Rust_Strings
  imports Xet_Prelude
begin

text \<open>
  The string functions of the Rust standard library that the sources call. A \<^verbatim>\<open>str\<close> is the
  list of its UTF-8 bytes, each as a \<open>char\<close>.
\<close>

section \<open>Characters\<close>

definition ascii_lower :: "char \<Rightarrow> char" where
  "ascii_lower c = (let n = of_char c :: nat in if 65 \<le> n \<and> n \<le> 90 then char_of (n + 32) else c)"

definition is_ascii_hexdigit :: "char \<Rightarrow> bool" where
  "is_ascii_hexdigit c = (let n = of_char c :: nat in 48 \<le> n \<and> n \<le> 57 \<or> 65 \<le> n \<and> n \<le> 70 \<or> 97 \<le> n \<and> n \<le> 102)"

definition is_ascii_alphanumeric :: "char \<Rightarrow> bool" where
  "is_ascii_alphanumeric c = (let n = of_char c :: nat in 48 \<le> n \<and> n \<le> 57 \<or> 65 \<le> n \<and> n \<le> 90 \<or> 97 \<le> n \<and> n \<le> 122)"

definition eq_ignore_ascii_case :: "string \<Rightarrow> string \<Rightarrow> bool" where
  "eq_ignore_ascii_case s t \<longleftrightarrow> map ascii_lower s = map ascii_lower t"

section \<open>Parts of strings\<close>

definition strip_prefix :: "string \<Rightarrow> string \<Rightarrow> string option" where
  "strip_prefix pre s = (if take (length pre) s = pre then Some (drop (length pre) s) else None)"

definition split_once :: "char \<Rightarrow> string \<Rightarrow> (string \<times> string) option" where
  "split_once c s = (if c \<in> set s then Some (takeWhile (\<lambda>x. x \<noteq> c) s, tl (dropWhile (\<lambda>x. x \<noteq> c) s)) else None)"

text \<open>\<open>String::from_utf8\<close>: the byte sequences of the Unicode standard, overlong forms and surrogates excluded.\<close>

abbreviation byte_in :: "nat \<Rightarrow> nat \<Rightarrow> char \<Rightarrow> bool" where
  "byte_in lo hi c \<equiv> lo \<le> (of_char c :: nat) \<and> (of_char c :: nat) \<le> hi"

fun utf8_valid :: "string \<Rightarrow> bool" where
  "utf8_valid [] = True"
| "utf8_valid (a # s) =
     (if byte_in 0 0x7F a then utf8_valid s
      else case s of
        [] \<Rightarrow> False
      | b # s1 \<Rightarrow>
          if byte_in 0xC2 0xDF a then byte_in 0x80 0xBF b \<and> utf8_valid s1
          else case s1 of
            [] \<Rightarrow> False
          | c # s2 \<Rightarrow>
              if byte_in 0xE0 0xEF a then
                byte_in (if of_char a = (0xE0 :: nat) then 0xA0 else 0x80) (if of_char a = (0xED :: nat) then 0x9F else 0xBF) b \<and>
                byte_in 0x80 0xBF c \<and> utf8_valid s2
              else case s2 of
                [] \<Rightarrow> False
              | d # s3 \<Rightarrow>
                  byte_in 0xF0 0xF4 a \<and>
                  byte_in (if of_char a = (0xF0 :: nat) then 0x90 else 0x80) (if of_char a = (0xF4 :: nat) then 0x8F else 0xBF) b \<and>
                  byte_in 0x80 0xBF c \<and> byte_in 0x80 0xBF d \<and> utf8_valid s3)"

fun str_contains :: "string \<Rightarrow> string \<Rightarrow> bool" where
  "str_contains pat [] = (pat = [])"
| "str_contains pat (c # s) = (take (length pat) (c # s) = pat \<or> str_contains pat s)"

text \<open>\<open>str::split\<close> at the characters of a set. The result is never empty.\<close>

fun str_split :: "(char \<Rightarrow> bool) \<Rightarrow> string \<Rightarrow> string list" where
  "str_split P [] = [[]]"
| "str_split P (c # s) =
     (if P c then [] # str_split P s else case str_split P s of [] \<Rightarrow> [[c]] | w # ws \<Rightarrow> (c # w) # ws)"

text \<open>\<open>str::lines\<close>: a trailing newline ends the last line, and a carriage return before a newline is dropped.\<close>

definition strip_cr :: "string \<Rightarrow> string" where
  "strip_cr s = (if s \<noteq> [] \<and> last s = CHR 0x0D then butlast s else s)"

definition str_lines :: "string \<Rightarrow> string list" where
  "str_lines s =
     (let ls = str_split (\<lambda>c. c = CHR 0x0A) s in
      map strip_cr (butlast ls) @ (if last ls = [] then [] else [last ls]))"

section \<open>White space\<close>

text \<open>The length of the white space character that a string starts with, \<open>0\<close> if there is none.\<close>

definition ws_len :: "string \<Rightarrow> nat" where
  "ws_len s =
     (case map of_char s :: nat list of
        [] \<Rightarrow> 0
      | a # as \<Rightarrow>
          if 9 \<le> a \<and> a \<le> 13 \<or> a = 32 then 1
          else case as of
            [] \<Rightarrow> 0
          | b # bs \<Rightarrow>
              if a = 0xC2 \<and> (b = 0x85 \<or> b = 0xA0) then 2
              else case bs of
                [] \<Rightarrow> 0
              | c # cs \<Rightarrow>
                  if a = 0xE1 \<and> b = 0x9A \<and> c = 0x80 \<or>
                     a = 0xE2 \<and> b = 0x80 \<and> (0x80 \<le> c \<and> c \<le> 0x8A \<or> c = 0xA8 \<or> c = 0xA9 \<or> c = 0xAF) \<or>
                     a = 0xE2 \<and> b = 0x81 \<and> c = 0x9F \<or>
                     a = 0xE3 \<and> b = 0x80 \<and> c = 0x80 then 3
                  else 0)"

text \<open>\<open>s.trim().is_empty()\<close>.\<close>

function blank :: "string \<Rightarrow> bool" where
  "blank s = (if s = [] then True else if ws_len s = 0 then False else blank (drop (ws_len s) s))"
  by pat_completeness auto
termination
  by (relation "measure length") auto

function split_ws :: "string \<Rightarrow> string \<Rightarrow> string list" where
  "split_ws cur [] = (if cur = [] then [] else [rev cur])"
| "split_ws cur (c # s) =
     (if ws_len (c # s) = 0 then split_ws (c # cur) s
      else (if cur = [] then [] else [rev cur]) @ split_ws [] (drop (ws_len (c # s)) (c # s)))"
  by pat_completeness auto
termination
  by (relation "measure (\<lambda>(cur, s). length s)") auto

definition split_whitespace :: "string \<Rightarrow> string list" where
  "split_whitespace s = split_ws [] s"

declare blank.simps [simp del]

section \<open>Numbers\<close>

fun show_nat :: "nat \<Rightarrow> string" where
  "show_nat n = (if n < 10 then [] else show_nat (n div 10)) @ [char_of (48 + n mod 10)]"

definition show_int :: "int \<Rightarrow> string" where
  "show_int n = (if n < 0 then ''-'' else []) @ show_nat (nat \<bar>n\<bar>)"

declare show_nat.simps [simp del]

section \<open>Lemmas\<close>

lemma split_once_iff: "split_once c s = Some (a, b) \<longleftrightarrow> s = a @ c # b \<and> c \<notin> set a"
proof
  assume "split_once c s = Some (a, b)"
  then have c: "c \<in> set s" "a = takeWhile (\<lambda>x. x \<noteq> c) s" "b = tl (dropWhile (\<lambda>x. x \<noteq> c) s)" by (auto simp: split_once_def split: if_splits)
  then have "dropWhile (\<lambda>x. x \<noteq> c) s = c # b" by (induction s arbitrary: a) auto
  with c(2) show "s = a @ c # b \<and> c \<notin> set a" by (metis takeWhile_dropWhile_id set_takeWhileD)
next
  assume "s = a @ c # b \<and> c \<notin> set a"
  moreover have "c \<notin> set a \<Longrightarrow> takeWhile (\<lambda>x. x \<noteq> c) (a @ c # b) = a \<and> dropWhile (\<lambda>x. x \<noteq> c) (a @ c # b) = c # b"
    by (induction a) auto
  ultimately show "split_once c s = Some (a, b)" by (simp add: split_once_def)
qed

lemma strip_prefix_append: "strip_prefix p (p @ s) = Some s"
  by (simp add: strip_prefix_def)

lemma strip_prefix_Some: "strip_prefix p s = Some r \<longleftrightarrow> s = p @ r"
  unfolding strip_prefix_def by (metis append_eq_conv_conj append_take_drop_id option.distinct(1) option.inject)

lemma str_split_nonempty: "str_split P s \<noteq> []"
  by (induction s) (auto split: list.splits)

lemma str_split_none: "\<forall>c\<in>set s. \<not> P c \<Longrightarrow> str_split P s = [s]"
  by (induction s) auto

lemma str_split_sep: "\<forall>c\<in>set s. \<not> P c \<Longrightarrow> P d \<Longrightarrow> str_split P (s @ d # t) = s # str_split P t"
  by (induction s) auto

lemma str_split_parts: "w \<in> set (str_split P s) \<Longrightarrow> c \<in> set w \<Longrightarrow> \<not> P c"
proof (induction s arbitrary: w)
  case (Cons a s)
  then show ?case by (cases "str_split P s") (fastforce split: if_splits)+
qed simp

lemma str_contains_iff: "str_contains pat s \<longleftrightarrow> (\<exists>u v. s = u @ pat @ v)"
proof (induction s)
  case (Cons c s)
  have "take (length pat) (c # s) = pat \<longleftrightarrow> (\<exists>v. c # s = pat @ v)" by (metis append_eq_conv_conj append_take_drop_id)
  with Cons show ?case by (auto simp: Cons_eq_append_conv)
qed auto

lemma hexdigit_not_dot: "is_ascii_hexdigit c \<Longrightarrow> c \<noteq> CHR ''.''"
  by (auto simp: is_ascii_hexdigit_def)

end
