(* ===== verification/Hub_Metadata.thy ===== *)
theory Hub_Metadata
  imports Xet_Prelude "HOL-Library.List_Lexorder" "HOL-Library.Char_ord" "HOL-Library.AList" "HOL-Library.Multiset" Rust_Strings
begin

text \<open>
  The metadata store of the front end: \<^verbatim>\<open>src/hub/src/metadata/mod.rs\<close>, its SQLite
  implementation in \<^verbatim>\<open>src/hub/src/metadata/sqlite\<close> and the schema of \<^verbatim>\<open>src/hub/src/migrations.rs\<close>.
  The four tables are lists of rows in insertion order; a SQL statement of the source is a
  function on them with the relational meaning of its text, the primary keys, unique and
  foreign key constraints of the schema included. Every statement may also fail in the
  driver: which ones do is a parameter. A transaction that does not commit leaves the
  database as it was. The clock is a parameter.

  The lemmas show that a commit is all or nothing, what a committed snapshot contains, that
  snapshots never change afterwards, that histories are linear and that the commit log lists
  them, and that the SQLite commit agrees with the reference implementation of the trait.
\<close>

section \<open>Data\<close>

datatype RepoType = Model | Dataset | Space

fun repo_type_name :: "RepoType \<Rightarrow> string" where
  "repo_type_name Model = ''model''"
| "repo_type_name Dataset = ''dataset''"
| "repo_type_name Space = ''space''"

definition repo_type_from_str :: "string \<Rightarrow> string + RepoType" where
  "repo_type_from_str s =
     (let l = map ascii_lower s in
      if l = ''model'' then Inr Model
      else if l = ''dataset'' then Inr Dataset
      else if l = ''space'' then Inr Space
      else Inl (''Invalid repo type: '' @ s))"

record Repo =
  rp_id :: int
  rp_name :: string
  rp_namespace :: string
  rp_repo_type :: RepoType
  rp_sha :: "string option"
  rp_private :: bool
  rp_created_at :: int
  rp_updated_at :: int

record Revision =
  rv_commit_id :: string
  rv_repo_id :: int
  rv_parent :: "string option"
  rv_message :: string
  rv_author :: string
  rv_created_at :: int

record FileEntry =
  fe_path :: string
  fe_repo_id :: int
  fe_commit_id :: string
  fe_size :: u64
  fe_cas_hash :: string
  fe_is_lfs :: bool

record FileTreePage =
  fp_entries :: "FileEntry list"
  fp_next_after_path :: "string option"

datatype FileTreeChange = Upsert FileEntry | Delete string

datatype sqlx_error = UniqueViolation | ForeignKeyViolation | DriverError

datatype MetadataError =
    RepoNotFound string
  | RepoAlreadyExists string
  | RevisionNotFound string
  | FileNotFound string
  | DatabaseError sqlx_error
  | Corruption string
  | InvalidOperation string
  | HeadConflict string

section \<open>Tables\<close>

record repo_row =
  rr_id :: int
  rr_name :: string
  rr_namespace :: string
  rr_repo_type :: string
  rr_sha :: "string option"
  rr_private :: int
  rr_created_at :: int
  rr_updated_at :: int

record file_row =
  ft_path :: string
  ft_repo_id :: int
  ft_commit_id :: string
  ft_size :: int
  ft_cas_hash :: string
  ft_is_lfs :: int

record hub_db =
  db_repos :: "repo_row list"
  db_next_id :: int
  db_revisions :: "Revision list"
  db_heads :: "(int \<times> string) list"
  db_file_tree :: "file_row list"

definition db_empty :: hub_db where
  "db_empty = \<lparr>db_repos = [], db_next_id = 1, db_revisions = [], db_heads = [], db_file_tree = []\<rparr>"

abbreviation repo_ids :: "hub_db \<Rightarrow> int set" where
  "repo_ids db \<equiv> rr_id ` set (db_repos db)"

abbreviation commit_ids :: "hub_db \<Rightarrow> string set" where
  "commit_ids db \<equiv> rv_commit_id ` set (db_revisions db)"

text \<open>The foreign keys of the schema, which SQLite checks at the end of every statement.\<close>

definition fk_ok :: "hub_db \<Rightarrow> bool" where
  "fk_ok db \<longleftrightarrow>
     list_all (\<lambda>r. rv_repo_id r \<in> repo_ids db) (db_revisions db) \<and>
     list_all (\<lambda>(rid, cid). rid \<in> repo_ids db \<and> cid \<in> commit_ids db) (db_heads db) \<and>
     list_all (\<lambda>f. ft_repo_id f \<in> repo_ids db \<and> ft_commit_id f \<in> commit_ids db) (db_file_tree db)"

definition checked :: "hub_db \<Rightarrow> sqlx_error + hub_db" where
  "checked db = (if fk_ok db then Inr db else Inl ForeignKeyViolation)"

definition file_key :: "file_row \<Rightarrow> string \<times> int \<times> string" where
  "file_key f = (ft_path f, ft_repo_id f, ft_commit_id f)"

section \<open>Statements\<close>

definition insert_repo_sql :: "string \<Rightarrow> string \<Rightarrow> string \<Rightarrow> int \<Rightarrow> int \<Rightarrow> hub_db \<Rightarrow> sqlx_error + hub_db" where
  "insert_repo_sql nm ns ty priv now db =
     (if list_ex (\<lambda>r. rr_namespace r = ns \<and> rr_name r = nm \<and> rr_repo_type r = ty) (db_repos db) then Inl UniqueViolation
      else checked (db\<lparr>db_repos := db_repos db @ [\<lparr>rr_id = db_next_id db, rr_name = nm, rr_namespace = ns, rr_repo_type = ty,
              rr_sha = None, rr_private = priv, rr_created_at = now, rr_updated_at = now\<rparr>],
            db_next_id := db_next_id db + 1\<rparr>))"

definition insert_revision_sql :: "Revision \<Rightarrow> hub_db \<Rightarrow> sqlx_error + hub_db" where
  "insert_revision_sql r db =
     (if rv_commit_id r \<in> commit_ids db then Inl UniqueViolation
      else checked (db\<lparr>db_revisions := db_revisions db @ [r]\<rparr>))"

definition replace_head_sql :: "int \<Rightarrow> string \<Rightarrow> hub_db \<Rightarrow> sqlx_error + hub_db" where
  "replace_head_sql rid cid db = checked (db\<lparr>db_heads := filter (\<lambda>h. fst h \<noteq> rid) (db_heads db) @ [(rid, cid)]\<rparr>)"

definition replace_file_sql :: "file_row \<Rightarrow> hub_db \<Rightarrow> sqlx_error + hub_db" where
  "replace_file_sql f db =
     checked (db\<lparr>db_file_tree := filter (\<lambda>g. file_key g \<noteq> file_key f) (db_file_tree db) @ [f]\<rparr>)"

definition delete_file_sql :: "string \<Rightarrow> int \<Rightarrow> string \<Rightarrow> hub_db \<Rightarrow> sqlx_error + hub_db" where
  "delete_file_sql path rid cid db =
     checked (db\<lparr>db_file_tree := filter (\<lambda>g. file_key g \<noteq> (path, rid, cid)) (db_file_tree db)\<rparr>)"

text \<open>\<open>INSERT INTO file_tree SELECT\<close>: the rows of the parent snapshot under the new commit.\<close>

definition copy_snapshot_sql :: "int \<Rightarrow> string \<Rightarrow> string \<Rightarrow> hub_db \<Rightarrow> sqlx_error + hub_db" where
  "copy_snapshot_sql rid cid parent db =
     (let rows = map (\<lambda>f. f\<lparr>ft_repo_id := rid, ft_commit_id := cid\<rparr>)
                   (filter (\<lambda>f. ft_repo_id f = rid \<and> ft_commit_id f = parent) (db_file_tree db))
      in if list_ex (\<lambda>f. file_key f \<in> file_key ` set (db_file_tree db)) rows then Inl UniqueViolation
         else checked (db\<lparr>db_file_tree := db_file_tree db @ rows\<rparr>))"

definition delete_tree_sql :: "int \<Rightarrow> hub_db \<Rightarrow> sqlx_error + hub_db" where
  "delete_tree_sql rid db = checked (db\<lparr>db_file_tree := filter (\<lambda>f. ft_repo_id f \<noteq> rid) (db_file_tree db)\<rparr>)"

definition delete_heads_sql :: "int \<Rightarrow> hub_db \<Rightarrow> sqlx_error + hub_db" where
  "delete_heads_sql rid db = checked (db\<lparr>db_heads := filter (\<lambda>h. fst h \<noteq> rid) (db_heads db)\<rparr>)"

definition delete_revisions_sql :: "int \<Rightarrow> hub_db \<Rightarrow> sqlx_error + hub_db" where
  "delete_revisions_sql rid db = checked (db\<lparr>db_revisions := filter (\<lambda>r. rv_repo_id r \<noteq> rid) (db_revisions db)\<rparr>)"

definition delete_repo_sql :: "int \<Rightarrow> hub_db \<Rightarrow> sqlx_error + hub_db" where
  "delete_repo_sql rid db = checked (db\<lparr>db_repos := filter (\<lambda>r. rr_id r \<noteq> rid) (db_repos db)\<rparr>)"

definition select_head :: "hub_db \<Rightarrow> int \<Rightarrow> string option" where
  "select_head db rid = map_of (db_heads db) rid"

section \<open>Executing statements\<close>

text \<open>Which statements of an operation fail in the driver, by their position, and whether a rollback does.\<close>

record db_env =
  db_fault :: "nat \<Rightarrow> bool"
  db_rollback_fault :: bool

type_synonym tx = "hub_db \<times> nat"

definition exec :: "db_env \<Rightarrow> (hub_db \<Rightarrow> sqlx_error + hub_db) \<Rightarrow> tx \<Rightarrow> MetadataError + tx" where
  "exec D stmt s =
     (if db_fault D (snd s) then Inl (DatabaseError DriverError)
      else map_err DatabaseError (rbind (stmt (fst s)) (\<lambda>db. Inr (db, snd s + 1))))"

definition query :: "db_env \<Rightarrow> (hub_db \<Rightarrow> 'a) \<Rightarrow> tx \<Rightarrow> MetadataError + ('a \<times> tx)" where
  "query D q s =
     (if db_fault D (snd s) then Inl (DatabaseError DriverError) else Inr (q (fst s), (fst s, snd s + 1)))"

text \<open>A transaction: acquiring the connection and \<open>BEGIN\<close> are the steps 0 and 1, then the body, then \<open>COMMIT\<close>.\<close>

definition transaction :: "db_env \<Rightarrow> (tx \<Rightarrow> MetadataError + tx) \<Rightarrow> hub_db \<Rightarrow> (MetadataError + unit) \<times> hub_db" where
  "transaction D body db =
     (if db_fault D 0 \<or> db_fault D 1 then (Inl (DatabaseError DriverError), db)
      else case body (db, 2) of
             Inl e \<Rightarrow> (Inl (if db_rollback_fault D then DatabaseError DriverError else e), db)
           | Inr (db', k) \<Rightarrow> if db_fault D k then (Inl (DatabaseError DriverError), db) else (Inr (), db'))"

section \<open>Repositories\<close>

definition create_repo ::
  "db_env \<Rightarrow> int \<Rightarrow> string \<Rightarrow> string \<Rightarrow> RepoType \<Rightarrow> bool \<Rightarrow> hub_db \<Rightarrow> (MetadataError + Repo) \<times> hub_db" where
  "create_repo D now ns nm ty priv db =
     (case exec D (insert_repo_sql nm ns (repo_type_name ty) (if priv then 1 else 0) now) (db, 0) of
        Inr (db', _) \<Rightarrow>
          (Inr \<lparr>rp_id = db_next_id db, rp_name = nm, rp_namespace = ns, rp_repo_type = ty, rp_sha = None,
                rp_private = priv, rp_created_at = now, rp_updated_at = now\<rparr>, db')
      | Inl e \<Rightarrow>
          (Inl (if e = DatabaseError UniqueViolation
                then RepoAlreadyExists (ns @ ''/'' @ nm @ ''/'' @ repo_type_name ty) else e), db))"

definition row_to_repo :: "repo_row \<Rightarrow> MetadataError + Repo" where
  "row_to_repo r =
     rbind (map_err (\<lambda>e. Corruption (''Invalid repo_type: '' @ e)) (repo_type_from_str (rr_repo_type r))) (\<lambda>ty.
     Inr \<lparr>rp_id = rr_id r, rp_name = rr_name r, rp_namespace = rr_namespace r, rp_repo_type = ty, rp_sha = rr_sha r,
          rp_private = (rr_private r \<noteq> 0), rp_created_at = rr_created_at r, rp_updated_at = rr_updated_at r\<rparr>)"

definition get_repo :: "db_env \<Rightarrow> hub_db \<Rightarrow> string \<Rightarrow> string \<Rightarrow> RepoType \<Rightarrow> MetadataError + Repo" where
  "get_repo D db ns nm ty =
     rbind (query D (\<lambda>db. find (\<lambda>r. rr_namespace r = ns \<and> rr_name r = nm \<and> rr_repo_type r = repo_type_name ty) (db_repos db)) (db, 0))
       (\<lambda>(row, _).
     case row of
       Some r \<Rightarrow> row_to_repo r
     | None \<Rightarrow> Inl (RepoNotFound (ns @ ''/'' @ nm @ ''/'' @ repo_type_name ty)))"

definition delete_repo :: "db_env \<Rightarrow> int \<Rightarrow> hub_db \<Rightarrow> (MetadataError + unit) \<times> hub_db" where
  "delete_repo D rid db =
     transaction (D\<lparr>db_rollback_fault := False\<rparr>)
       (\<lambda>s. rbind (exec D (delete_tree_sql rid) s) (\<lambda>s.
            rbind (exec D (delete_heads_sql rid) s) (\<lambda>s.
            rbind (exec D (delete_revisions_sql rid) s) (\<lambda>s.
            rbind (exec D (delete_repo_sql rid) s) (\<lambda>s'.
            if rid \<notin> repo_ids (fst s) then Inl (RepoNotFound ''id'') else Inr s'))))) db"

section \<open>Revisions\<close>

definition add_revision :: "db_env \<Rightarrow> Revision \<Rightarrow> hub_db \<Rightarrow> (MetadataError + unit) \<times> hub_db" where
  "add_revision D r db =
     (case exec D (insert_revision_sql r) (db, 0) of Inl e \<Rightarrow> (Inl e, db) | Inr (db', _) \<Rightarrow> (Inr (), db'))"

definition get_revision :: "db_env \<Rightarrow> hub_db \<Rightarrow> int \<Rightarrow> string \<Rightarrow> MetadataError + Revision" where
  "get_revision D db rid cid =
     rbind (query D (\<lambda>db. find (\<lambda>r. rv_repo_id r = rid \<and> rv_commit_id r = cid) (db_revisions db)) (db, 0)) (\<lambda>(row, _).
     case row of Some r \<Rightarrow> Inr r | None \<Rightarrow> Inl (RevisionNotFound cid))"

definition get_head :: "db_env \<Rightarrow> hub_db \<Rightarrow> int \<Rightarrow> MetadataError + string option" where
  "get_head D db rid = rbind (query D (\<lambda>db. select_head db rid) (db, 0)) (\<lambda>(head, _). Inr head)"

definition set_head :: "db_env \<Rightarrow> int \<Rightarrow> string \<Rightarrow> hub_db \<Rightarrow> (MetadataError + unit) \<times> hub_db" where
  "set_head D rid cid db =
     (case exec D (replace_head_sql rid cid) (db, 0) of Inl e \<Rightarrow> (Inl e, db) | Inr (db', _) \<Rightarrow> (Inr (), db'))"

text \<open>
  The recursive query of the commit log: the row of the head, then the row of its parent, as
  long as the depth stays below the limit. The limit is cast to \<open>i64\<close>; the first row does not
  depend on it.
\<close>

definition find_revision :: "hub_db \<Rightarrow> string \<Rightarrow> Revision option" where
  "find_revision db cid = find (\<lambda>r. rv_commit_id r = cid) (db_revisions db)"

fun walk_parents :: "hub_db \<Rightarrow> nat \<Rightarrow> Revision \<Rightarrow> Revision list" where
  "walk_parents db 0 r = [r]"
| "walk_parents db (Suc n) r =
     r # (case Option.bind (rv_parent r) (find_revision db) of None \<Rightarrow> [] | Some p \<Rightarrow> walk_parents db n p)"

definition effective_limit :: "u64 option \<Rightarrow> int" where
  "effective_limit limit = (case limit of None \<Rightarrow> 2 ^ 63 - 2 | Some l \<Rightarrow> sint l)"

definition get_commit_log :: "db_env \<Rightarrow> hub_db \<Rightarrow> int \<Rightarrow> u64 option \<Rightarrow> MetadataError + Revision list" where
  "get_commit_log D db rid limit =
     rbind (query D (\<lambda>db. case Option.bind (select_head db rid) (find_revision db) of
                            None \<Rightarrow> []
                          | Some r \<Rightarrow> walk_parents db (nat (effective_limit limit - 1)) r) (db, 0)) (\<lambda>(rows, _).
     Inr rows)"

section \<open>File trees\<close>

definition file_size_to_sql :: "u64 \<Rightarrow> MetadataError + int" where
  "file_size_to_sql sz =
     (if unat sz < 2 ^ 63 then Inr (int (unat sz)) else Inl (InvalidOperation ''File size exceeds SQLite INTEGER range''))"

definition file_row_of :: "int \<Rightarrow> string \<Rightarrow> int \<Rightarrow> FileEntry \<Rightarrow> file_row" where
  "file_row_of rid cid sz entry = \<lparr>ft_path = fe_path entry, ft_repo_id = rid, ft_commit_id = cid, ft_size = sz,
     ft_cas_hash = fe_cas_hash entry, ft_is_lfs = (if fe_is_lfs entry then 1 else 0)\<rparr>"

definition insert_file_entry :: "db_env \<Rightarrow> int \<Rightarrow> string \<Rightarrow> FileEntry \<Rightarrow> tx \<Rightarrow> MetadataError + tx" where
  "insert_file_entry D rid cid entry s =
     rbind (file_size_to_sql (fe_size entry)) (\<lambda>sz. exec D (replace_file_sql (file_row_of rid cid sz entry)) s)"

fun foldr_tx :: "('a \<Rightarrow> tx \<Rightarrow> MetadataError + tx) \<Rightarrow> 'a list \<Rightarrow> tx \<Rightarrow> MetadataError + tx" where
  "foldr_tx f [] s = Inr s"
| "foldr_tx f (x # xs) s = rbind (f x s) (foldr_tx f xs)"

definition add_file_entries :: "db_env \<Rightarrow> FileEntry list \<Rightarrow> hub_db \<Rightarrow> (MetadataError + unit) \<times> hub_db" where
  "add_file_entries D entries db =
     transaction (D\<lparr>db_rollback_fault := False\<rparr>)
       (foldr_tx (\<lambda>e. insert_file_entry D (fe_repo_id e) (fe_commit_id e) e) entries) db"

definition row_to_file_entry :: "file_row \<Rightarrow> MetadataError + FileEntry" where
  "row_to_file_entry f =
     (if ft_size f < 0 then Inl (Corruption ''Corrupt file_tree row contains negative size'')
      else Inr \<lparr>fe_path = ft_path f, fe_repo_id = ft_repo_id f, fe_commit_id = ft_commit_id f,
                fe_size = of_int (ft_size f), fe_cas_hash = ft_cas_hash f, fe_is_lfs = (ft_is_lfs f \<noteq> 0)\<rparr>)"

fun collect_results :: "('a \<Rightarrow> 'e + 'b) \<Rightarrow> 'a list \<Rightarrow> 'e + 'b list" where
  "collect_results f [] = Inr []"
| "collect_results f (x # xs) = rbind (f x) (\<lambda>y. rbind (collect_results f xs) (\<lambda>ys. Inr (y # ys)))"

text \<open>\<open>WHERE repo_id = ?1 AND commit_id = ?2 AND \<dots> ORDER BY path\<close>; the collation compares bytes.\<close>

definition select_tree :: "(string \<Rightarrow> bool) \<Rightarrow> hub_db \<Rightarrow> int \<Rightarrow> string \<Rightarrow> file_row list" where
  "select_tree P db rid cid =
     sort_key ft_path (filter (\<lambda>f. ft_repo_id f = rid \<and> ft_commit_id f = cid \<and> P (ft_path f)) (db_file_tree db))"

definition get_file_tree :: "db_env \<Rightarrow> hub_db \<Rightarrow> int \<Rightarrow> string \<Rightarrow> MetadataError + FileEntry list" where
  "get_file_tree D db rid cid =
     rbind (query D (\<lambda>db. select_tree (\<lambda>_. True) db rid cid) (db, 0)) (\<lambda>(rows, _). collect_results row_to_file_entry rows)"

text \<open>\<open>path LIKE pattern ESCAPE '\'\<close>: ASCII letters match in either case.\<close>

definition BSLASH :: char where
  "BSLASH = CHR 0x5C"

function like :: "string \<Rightarrow> string \<Rightarrow> bool" where
  "like [] s = (s = [])"
| "like (p # ps) s =
     (if p = CHR ''%'' then like ps s \<or> (case s of [] \<Rightarrow> False | c # cs \<Rightarrow> like (p # ps) cs)
      else
        case s of
          [] \<Rightarrow> False
        | c # cs \<Rightarrow>
            if p = CHR ''_'' then like ps cs
            else if p = BSLASH then
              (case ps of [] \<Rightarrow> False | q # qs \<Rightarrow> (if ascii_lower q = ascii_lower c then like qs cs else False))
            else if ascii_lower p = ascii_lower c then like ps cs else False)"
  by pat_completeness auto
termination
  by (relation "measure (\<lambda>(p, s). length p + length s)") auto

definition replace_char :: "char \<Rightarrow> string \<Rightarrow> string \<Rightarrow> string" where
  "replace_char c w s = concat (map (\<lambda>x. if x = c then w else [x]) s)"

definition escape_like_pattern :: "string \<Rightarrow> string" where
  "escape_like_pattern input =
     replace_char CHR ''_'' [BSLASH, CHR ''_''] (replace_char CHR ''%'' [BSLASH, CHR ''%'']
       (replace_char BSLASH [BSLASH, BSLASH] input))"

definition trim_matches :: "char \<Rightarrow> string \<Rightarrow> string" where
  "trim_matches c s = rev (dropWhile (\<lambda>x. x = c) (rev (dropWhile (\<lambda>x. x = c) s)))"

definition below_prefix :: "string \<Rightarrow> string \<Rightarrow> bool" where
  "below_prefix prefix path \<longleftrightarrow> prefix = [] \<or> path = prefix \<or> like (escape_like_pattern prefix @ ''/%'') path"

definition get_file_tree_prefix :: "db_env \<Rightarrow> hub_db \<Rightarrow> int \<Rightarrow> string \<Rightarrow> string \<Rightarrow> MetadataError + FileEntry list" where
  "get_file_tree_prefix D db rid cid prefix =
     rbind (query D (\<lambda>db. select_tree (below_prefix (trim_matches CHR ''/'' prefix)) db rid cid) (db, 0)) (\<lambda>(rows, _).
     collect_results row_to_file_entry rows)"

definition after :: "string option \<Rightarrow> string \<Rightarrow> bool" where
  "after after_path path = (case after_path of None \<Rightarrow> True | Some a \<Rightarrow> a < path)"

definition page_of :: "FileEntry list \<Rightarrow> nat \<Rightarrow> FileTreePage" where
  "page_of entries limit =
     (let has_more = length entries > limit; entries = take limit entries in
      \<lparr>fp_entries = entries,
       fp_next_after_path = (if has_more then (if entries = [] then None else Some (fe_path (last entries))) else None)\<rparr>)"

definition get_file_tree_prefix_page ::
  "db_env \<Rightarrow> hub_db \<Rightarrow> int \<Rightarrow> string \<Rightarrow> string \<Rightarrow> string option \<Rightarrow> nat \<Rightarrow> MetadataError + FileTreePage" where
  "get_file_tree_prefix_page D db rid cid prefix after_path limit =
     (if limit + 1 \<ge> 2 ^ 63 then Inl (InvalidOperation ''Tree page limit exceeds the supported SQLite range'')
      else
        rbind (query D (\<lambda>db. take (limit + 1)
          (select_tree (\<lambda>p. below_prefix (trim_matches CHR ''/'' prefix) p \<and> after after_path p) db rid cid)) (db, 0)) (\<lambda>(rows, _).
        rbind (collect_results row_to_file_entry rows) (\<lambda>entries. Inr (page_of entries limit))))"

definition resolve_file :: "db_env \<Rightarrow> hub_db \<Rightarrow> int \<Rightarrow> string \<Rightarrow> string \<Rightarrow> MetadataError + FileEntry" where
  "resolve_file D db rid cid path =
     rbind (query D (\<lambda>db. find (\<lambda>f. ft_repo_id f = rid \<and> ft_commit_id f = cid \<and> ft_path f = path) (db_file_tree db)) (db, 0))
       (\<lambda>(row, _).
     case row of Some f \<Rightarrow> row_to_file_entry f | None \<Rightarrow> Inl (FileNotFound (cid @ ''/'' @ path)))"

section \<open>The commit transaction\<close>

datatype CommitWrite = Snapshot "FileEntry list" | Changes "FileTreeChange list"

fun apply_change_sql :: "db_env \<Rightarrow> int \<Rightarrow> string \<Rightarrow> FileTreeChange \<Rightarrow> tx \<Rightarrow> MetadataError + tx" where
  "apply_change_sql D rid cid (Upsert entry) s = insert_file_entry D rid cid entry s"
| "apply_change_sql D rid cid (Delete path) s = exec D (delete_file_sql path rid cid) s"

fun write_tree :: "db_env \<Rightarrow> int \<Rightarrow> string \<Rightarrow> CommitWrite \<Rightarrow> tx \<Rightarrow> MetadataError + tx" where
  "write_tree D rid cid (Snapshot entries) s = foldr_tx (insert_file_entry D rid cid) entries s"
| "write_tree D rid cid (Changes changes) s = foldr_tx (apply_change_sql D rid cid) changes s"

definition copy_parent :: "db_env \<Rightarrow> Revision \<Rightarrow> CommitWrite \<Rightarrow> string option \<Rightarrow> tx \<Rightarrow> MetadataError + tx" where
  "copy_parent D revision write expected_parent s =
     (case (write, expected_parent) of
        (Changes _, Some parent) \<Rightarrow> exec D (copy_snapshot_sql (rv_repo_id revision) (rv_commit_id revision) parent) s
      | _ \<Rightarrow> Inr s)"

definition commit_body :: "db_env \<Rightarrow> Revision \<Rightarrow> CommitWrite \<Rightarrow> string option \<Rightarrow> tx \<Rightarrow> MetadataError + tx" where
  "commit_body D revision write expected_parent s =
     rbind (query D (\<lambda>db. select_head db (rv_repo_id revision)) s) (\<lambda>(current_head, s).
     if current_head \<noteq> expected_parent then Inl (HeadConflict (case current_head of None \<Rightarrow> [] | Some h \<Rightarrow> h))
     else
     rbind (exec D (insert_revision_sql revision) s) (\<lambda>s.
     rbind (copy_parent D revision write expected_parent s) (\<lambda>s.
     rbind (write_tree D (rv_repo_id revision) (rv_commit_id revision) write s) (\<lambda>s.
     exec D (replace_head_sql (rv_repo_id revision) (rv_commit_id revision)) s))))"

definition commit_atomic_write ::
  "db_env \<Rightarrow> Revision \<Rightarrow> CommitWrite \<Rightarrow> string option \<Rightarrow> hub_db \<Rightarrow> (MetadataError + unit) \<times> hub_db" where
  "commit_atomic_write D revision write expected_parent db = transaction D (commit_body D revision write expected_parent) db"

definition commit_atomic ::
  "db_env \<Rightarrow> Revision \<Rightarrow> FileEntry list \<Rightarrow> string option \<Rightarrow> hub_db \<Rightarrow> (MetadataError + unit) \<times> hub_db" where
  "commit_atomic D revision entries expected_parent db = commit_atomic_write D revision (Snapshot entries) expected_parent db"

definition commit_changes_atomic ::
  "db_env \<Rightarrow> Revision \<Rightarrow> FileTreeChange list \<Rightarrow> string option \<Rightarrow> hub_db \<Rightarrow> (MetadataError + unit) \<times> hub_db" where
  "commit_changes_atomic D revision changes expected_parent db = commit_atomic_write D revision (Changes changes) expected_parent db"

section \<open>The default methods of the trait\<close>

text \<open>
  The trait gives reference implementations of two operations over the others. The hash map is an
  association list; the order in which \<open>into_values\<close> returns its entries is a parameter.
\<close>

fun change_entries :: "Revision \<Rightarrow> (string \<times> FileEntry) list \<Rightarrow> FileTreeChange \<Rightarrow> (string \<times> FileEntry) list" where
  "change_entries revision m (Delete path) = AList.delete path m"
| "change_entries revision m (Upsert entry) =
     AList.update (fe_path entry) (entry\<lparr>fe_repo_id := rv_repo_id revision, fe_commit_id := rv_commit_id revision\<rparr>) m"

definition default_commit_changes_atomic ::
  "db_env \<Rightarrow> (FileEntry list \<Rightarrow> FileEntry list) \<Rightarrow> Revision \<Rightarrow> FileTreeChange list \<Rightarrow> string option \<Rightarrow> hub_db \<Rightarrow>
     (MetadataError + unit) \<times> hub_db" where
  "default_commit_changes_atomic D order revision changes expected_parent db =
     (case (case expected_parent of None \<Rightarrow> Inr [] | Some parent \<Rightarrow> get_file_tree D db (rv_repo_id revision) parent) of
        Inl e \<Rightarrow> (Inl e, db)
      | Inr tree \<Rightarrow>
          (let final_entries = foldl (change_entries revision) (foldl (change_entries revision) [] (map Upsert tree)) changes
           in commit_atomic D revision (order (map snd final_entries)) expected_parent db))"

definition default_get_file_tree_prefix_page ::
  "db_env \<Rightarrow> hub_db \<Rightarrow> int \<Rightarrow> string \<Rightarrow> string \<Rightarrow> string option \<Rightarrow> nat \<Rightarrow> MetadataError + FileTreePage" where
  "default_get_file_tree_prefix_page D db rid cid prefix after_path limit =
     rbind (get_file_tree_prefix D db rid cid prefix) (\<lambda>entries.
     Inr (page_of (filter (\<lambda>e. after after_path (fe_path e)) (sort_key fe_path entries)) limit))"

section \<open>The tables as maps\<close>

definition file_payload :: "file_row \<Rightarrow> int \<times> string \<times> int" where
  "file_payload f = (ft_size f, ft_cas_hash f, ft_is_lfs f)"

definition file_map :: "hub_db \<Rightarrow> (string \<times> int \<times> string) \<rightharpoonup> (int \<times> string \<times> int)" where
  "file_map db = map_of (map (\<lambda>f. (file_key f, file_payload f)) (db_file_tree db))"

text \<open>The snapshot of a commit: what is stored under each path.\<close>

definition snapshot :: "hub_db \<Rightarrow> int \<Rightarrow> string \<Rightarrow> string \<rightharpoonup> (int \<times> string \<times> int)" where
  "snapshot db rid cid path = file_map db (path, rid, cid)"

definition entry_payload :: "FileEntry \<Rightarrow> int \<times> string \<times> int" where
  "entry_payload e = (int (unat (fe_size e)), fe_cas_hash e, if fe_is_lfs e then 1 else 0)"

fun apply_change :: "(string \<rightharpoonup> int \<times> string \<times> int) \<Rightarrow> FileTreeChange \<Rightarrow> string \<rightharpoonup> int \<times> string \<times> int" where
  "apply_change m (Upsert e) = m(fe_path e \<mapsto> entry_payload e)"
| "apply_change m (Delete path) = m(path := None)"

lemma map_of_filter_neq: "map_of (filter (\<lambda>x. fst x \<noteq> k) xs) = (map_of xs)(k := None)"
  by (induction xs) auto

lemma map_of_replace: "map_of (filter (\<lambda>x. fst x \<noteq> k) xs @ [(k, v)]) = (map_of xs)(k \<mapsto> v)"
  by (rule ext) (auto simp: map_of_append map_of_filter_neq map_add_def split: option.splits)

lemma file_map_filter:
  "map_of (map (\<lambda>f. (file_key f, file_payload f)) (filter (\<lambda>g. file_key g \<noteq> k) fs)) =
   (map_of (map (\<lambda>f. (file_key f, file_payload f)) fs))(k := None)"
  using map_of_filter_neq [of k "map (\<lambda>f. (file_key f, file_payload f)) fs"] by (simp add: filter_map o_def)

lemma file_map_replace:
  "map_of (map (\<lambda>f. (file_key f, file_payload f)) (filter (\<lambda>g. file_key g \<noteq> file_key f) fs @ [f])) =
   (map_of (map (\<lambda>f. (file_key f, file_payload f)) fs))(file_key f \<mapsto> file_payload f)"
  using map_of_replace [of "file_key f" "map (\<lambda>f. (file_key f, file_payload f)) fs" "file_payload f"]
  by (simp add: filter_map o_def)

section \<open>The store invariant\<close>

text \<open>A history: the parent of each revision is the one before it, and the last one is the head.\<close>

fun history :: "string option \<Rightarrow> Revision list \<Rightarrow> string option \<Rightarrow> bool" where
  "history p [] head \<longleftrightarrow> p = head"
| "history p (r # rs) head \<longleftrightarrow> rv_parent r = p \<and> history (Some (rv_commit_id r)) rs head"

definition revisions_of :: "hub_db \<Rightarrow> int \<Rightarrow> Revision list" where
  "revisions_of db rid = filter (\<lambda>r. rv_repo_id r = rid) (db_revisions db)"

definition rows_ok :: "hub_db \<Rightarrow> bool" where
  "rows_ok db \<longleftrightarrow> distinct (map file_key (db_file_tree db)) \<and>
     (\<forall>f\<in>set (db_file_tree db). 0 \<le> ft_size f \<and> ft_size f < 2 ^ 63 \<and> ft_is_lfs f \<in> {0, 1} \<and>
        (\<exists>r\<in>set (db_revisions db). rv_commit_id r = ft_commit_id f \<and> rv_repo_id r = ft_repo_id f))"

definition repos_ok :: "hub_db \<Rightarrow> bool" where
  "repos_ok db \<longleftrightarrow> distinct (map rr_id (db_repos db)) \<and> (\<forall>r\<in>set (db_repos db). rr_id r < db_next_id db) \<and>
     distinct (map (\<lambda>r. (rr_namespace r, rr_name r, rr_repo_type r)) (db_repos db)) \<and>
     (\<forall>r\<in>set (db_repos db). \<exists>ty. rr_repo_type r = repo_type_name ty)"

definition store_inv :: "hub_db \<Rightarrow> bool" where
  "store_inv db \<longleftrightarrow> fk_ok db \<and> repos_ok db \<and> rows_ok db \<and> distinct (map rv_commit_id (db_revisions db)) \<and>
     distinct (map fst (db_heads db)) \<and> (\<forall>rid. history None (revisions_of db rid) (select_head db rid))"

lemma db_empty_inv: "store_inv db_empty"
  by (simp add: store_inv_def fk_ok_def repos_ok_def rows_ok_def db_empty_def revisions_of_def select_head_def)

lemma history_snoc: "history p (rs @ [r]) h \<longleftrightarrow> (\<exists>q. history p rs q \<and> rv_parent r = q) \<and> h = Some (rv_commit_id r)"
  by (induction rs arbitrary: p) auto

lemma history_end: "history p rs h \<Longrightarrow> rs \<noteq> [] \<Longrightarrow> h = Some (rv_commit_id (last rs))"
  by (induction rs arbitrary: p) (auto split: if_splits)

lemma checked_Inr: "checked db = Inr db' \<longleftrightarrow> fk_ok db \<and> db' = db"
  by (auto simp: checked_def)

lemma exec_Inr:
  "exec D stmt s = Inr s' \<longleftrightarrow> \<not> db_fault D (snd s) \<and> (\<exists>db. stmt (fst s) = Inr db \<and> s' = (db, snd s + 1))"
  by (auto simp: exec_def result_simps)

lemma query_Inr:
  "query D q s = Inr r \<longleftrightarrow> \<not> db_fault D (snd s) \<and> r = (q (fst s), fst s, snd s + 1)"
  by (auto simp: query_def)

section \<open>What the tree statements change\<close>

text \<open>A step that only rewrites the files of one commit.\<close>

definition tree_step :: "int \<Rightarrow> string \<Rightarrow> ((string \<rightharpoonup> int \<times> string \<times> int) \<Rightarrow> string \<rightharpoonup> int \<times> string \<times> int) \<Rightarrow> hub_db \<Rightarrow> hub_db \<Rightarrow> bool" where
  "tree_step rid cid F db db' \<longleftrightarrow> (\<exists>fs. db' = db\<lparr>db_file_tree := fs\<rparr>) \<and> fk_ok db' \<and> rows_ok db' \<and>
     snapshot db' rid cid = F (snapshot db rid cid) \<and>
     (\<forall>r c. (r, c) \<noteq> (rid, cid) \<longrightarrow> snapshot db' r c = snapshot db r c)"

lemma tree_step_refl: "fk_ok db \<Longrightarrow> rows_ok db \<Longrightarrow> tree_step rid cid id db db"
  by (auto simp: tree_step_def intro: exI [of _ "db_file_tree db"])

lemma tree_step_trans:
  "tree_step rid cid F db db1 \<Longrightarrow> tree_step rid cid G db1 db2 \<Longrightarrow> tree_step rid cid (G \<circ> F) db db2"
  by (auto simp: tree_step_def)

abbreviation commit_in :: "hub_db \<Rightarrow> int \<Rightarrow> string \<Rightarrow> bool" where
  "commit_in db rid cid \<equiv> \<exists>r\<in>set (db_revisions db). rv_commit_id r = cid \<and> rv_repo_id r = rid"

lemma file_size_Inr: "file_size_to_sql sz = Inr n \<longleftrightarrow> unat sz < 2 ^ 63 \<and> n = int (unat sz)"
  by (auto simp: file_size_to_sql_def)

lemma insert_file_step:
  assumes "insert_file_entry D rid cid e (db, k) = Inr (db', k')" "rows_ok db" "commit_in db rid cid"
  shows "tree_step rid cid (\<lambda>m. apply_change m (Upsert e)) db db'"
proof -
  define f where "f = file_row_of rid cid (int (unat (fe_size e))) e"
  from assms(1) have sz: "unat (fe_size e) < 2 ^ 63" and
    r: "replace_file_sql f db = Inr db'"
    by (auto simp: insert_file_entry_def rbind_eq_Inr file_size_Inr exec_Inr f_def)
  let ?fs = "filter (\<lambda>g. file_key g \<noteq> file_key f) (db_file_tree db) @ [f]"
  have db': "db' = db\<lparr>db_file_tree := ?fs\<rparr>" and fk: "fk_ok db'" using r by (auto simp: replace_file_sql_def checked_Inr)
  have key: "file_key f = (fe_path e, rid, cid)" and pay: "file_payload f = entry_payload e"
    by (simp_all add: f_def file_row_of_def file_key_def file_payload_def entry_payload_def)
  have "file_map db' = (file_map db)(file_key f \<mapsto> file_payload f)"
    unfolding file_map_def db' by (simp add: file_map_replace del: map_append)
  then have "snapshot db' r c = (if (r, c) = (rid, cid) then apply_change (snapshot db rid cid) (Upsert e) else snapshot db r c)" for r c
    by (auto simp: snapshot_def fun_eq_iff key pay)
  moreover have "int (unat (fe_size e)) < int (2 ^ 63)" using sz by (simp only: of_nat_less_iff)
  then have "uint (fe_size e) < 2 ^ 63" by simp
  then have "rows_ok db'"
    using assms(2,3) by (auto simp: rows_ok_def db' distinct_map filter_map inj_on_def f_def file_row_of_def)
  ultimately show ?thesis using fk db' by (auto simp: tree_step_def)
qed

lemma delete_file_step:
  assumes "exec D (delete_file_sql path rid cid) (db, k) = Inr (db', k')" "rows_ok db"
  shows "tree_step rid cid (\<lambda>m. apply_change m (Delete path)) db db'"
proof -
  let ?fs = "filter (\<lambda>g. file_key g \<noteq> (path, rid, cid)) (db_file_tree db)"
  have db': "db' = db\<lparr>db_file_tree := ?fs\<rparr>" and fk: "fk_ok db'"
    using assms(1) by (auto simp: exec_Inr delete_file_sql_def checked_Inr)
  have "file_map db' = (file_map db)((path, rid, cid) := None)" unfolding file_map_def db' by (simp add: file_map_filter)
  then have "snapshot db' r c = (if (r, c) = (rid, cid) then apply_change (snapshot db rid cid) (Delete path) else snapshot db r c)" for r c
    by (auto simp: snapshot_def fun_eq_iff)
  moreover have "rows_ok db'" using assms(2) by (auto simp: rows_ok_def db' distinct_map_filter)
  ultimately show ?thesis using fk db' by (auto simp: tree_step_def)
qed

lemma apply_change_step:
  assumes "apply_change_sql D rid cid c (db, k) = Inr (db', k')" "rows_ok db" "commit_in db rid cid"
  shows "tree_step rid cid (\<lambda>m. apply_change m c) db db'"
  using assms insert_file_step delete_file_step by (cases c) auto

lemma changes_step:
  assumes "foldr_tx (apply_change_sql D rid cid) cs (db, k) = Inr (db', k')" "fk_ok db" "rows_ok db" "commit_in db rid cid"
  shows "tree_step rid cid (\<lambda>m. foldl apply_change m cs) db db'"
  using assms
proof (induction cs arbitrary: db k)
  case Nil
  then show ?case using tree_step_refl [of db rid cid] by (simp add: id_def)
next
  case (Cons c cs)
  then obtain db1 k1 where c: "apply_change_sql D rid cid c (db, k) = Inr (db1, k1)"
    and cs: "foldr_tx (apply_change_sql D rid cid) cs (db1, k1) = Inr (db', k')"
    by (auto simp: rbind_eq_Inr)
  from apply_change_step [OF c Cons.prems(3,4)] have s: "tree_step rid cid (\<lambda>m. apply_change m c) db db1" .
  then have "fk_ok db1" "rows_ok db1" "commit_in db1 rid cid" using Cons.prems(4) by (auto simp: tree_step_def)
  from tree_step_trans [OF s Cons.IH [OF cs this]] show ?case by (simp add: o_def)
qed

lemma insert_as_upsert: "foldr_tx (insert_file_entry D rid cid) es s = foldr_tx (apply_change_sql D rid cid) (map Upsert es) s"
proof (induction es arbitrary: s)
  case (Cons e es)
  then have "foldr_tx (insert_file_entry D rid cid) es = foldr_tx (apply_change_sql D rid cid) (map Upsert es)" by auto
  then show ?case by simp
qed simp

lemma write_tree_changes:
  "write_tree D rid cid w s =
     foldr_tx (apply_change_sql D rid cid) (case w of Snapshot es \<Rightarrow> map Upsert es | Changes cs \<Rightarrow> cs) s"
  by (cases w) (simp_all add: insert_as_upsert)

text \<open>The copied rows, as a map.\<close>

lemma map_of_copied:
  "map_of (map (\<lambda>f. (file_key f, file_payload f))
       (map (\<lambda>f. f\<lparr>ft_repo_id := rid, ft_commit_id := cid\<rparr>) (filter (\<lambda>f. ft_repo_id f = rid \<and> ft_commit_id f = parent) fs))) (p, r, c) =
   (if (r, c) = (rid, cid) then map_of (map (\<lambda>f. (file_key f, file_payload f)) fs) (p, rid, parent) else None)"
  by (induction fs) (auto simp: file_key_def file_payload_def)

lemma copy_rows_ok:
  assumes "rows_ok db" "commit_in db rid cid" "\<forall>f\<in>set (db_file_tree db). ft_commit_id f \<noteq> cid"
  shows "rows_ok (db\<lparr>db_file_tree := db_file_tree db @ map (\<lambda>f. f\<lparr>ft_repo_id := rid, ft_commit_id := cid\<rparr>)
    (filter (\<lambda>f. ft_repo_id f = rid \<and> ft_commit_id f = parent) (db_file_tree db))\<rparr>)"
proof -
  let ?c = "\<lambda>f. f\<lparr>ft_repo_id := rid, ft_commit_id := cid\<rparr>" and ?fs = "filter (\<lambda>f. ft_repo_id f = rid \<and> ft_commit_id f = parent) (db_file_tree db)"
  have d: "distinct (map file_key (db_file_tree db))" using assms(1) by (simp add: rows_ok_def)
  have "map file_key (map ?c ?fs) = map (\<lambda>k. (fst k, rid, cid)) (map file_key ?fs)" by (simp add: file_key_def)
  moreover have "distinct (map (\<lambda>k. (fst k, rid, cid)) (map file_key ?fs))"
    using distinct_map_filter [OF d, of "\<lambda>f. ft_repo_id f = rid \<and> ft_commit_id f = parent"]
    by (auto simp: distinct_map inj_on_def file_key_def)
  ultimately have "distinct (map file_key (map ?c ?fs))" by (simp only:)
  moreover have "set (map file_key (db_file_tree db)) \<inter> set (map file_key (map ?c ?fs)) = {}"
    using assms(3) by (auto simp: file_key_def)
  ultimately have "distinct (map file_key (db_file_tree db @ map ?c ?fs))" unfolding map_append distinct_append using d by blast
  then show ?thesis using assms(1,2) unfolding rows_ok_def by auto
qed

lemma copy_step:
  assumes "copy_snapshot_sql rid cid parent db = Inr db'" "rows_ok db" "commit_in db rid cid"
    and "\<forall>f\<in>set (db_file_tree db). ft_commit_id f \<noteq> cid"
  shows "tree_step rid cid (\<lambda>_. snapshot db rid parent) db db'"
proof -
  let ?rows = "map (\<lambda>f. f\<lparr>ft_repo_id := rid, ft_commit_id := cid\<rparr>) (filter (\<lambda>f. ft_repo_id f = rid \<and> ft_commit_id f = parent) (db_file_tree db))"
  have db': "db' = db\<lparr>db_file_tree := db_file_tree db @ ?rows\<rparr>" and fk: "fk_ok db'"
    using assms(1) by (auto simp: copy_snapshot_sql_def checked_Inr Let_def if_Inl_eq_Inr)
  have none: "map_of (map (\<lambda>f. (file_key f, file_payload f)) (db_file_tree db)) (p, r, cid) = None" for p r
    using assms(4) by (auto simp: map_of_eq_None_iff file_key_def)
  have "snapshot db' r c = (if (r, c) = (rid, cid) then snapshot db rid parent else snapshot db r c)" for r c
    unfolding snapshot_def file_map_def db' fun_eq_iff
    by (auto simp: map_of_copied none map_add_def simp del: map_map split: option.splits)
  moreover have "rows_ok db'" unfolding db' by (rule copy_rows_ok [OF assms(2-4)])
  ultimately show ?thesis using fk db' by (auto simp: tree_step_def)
qed

section \<open>The effect of a commit\<close>

definition committed_tree :: "hub_db \<Rightarrow> int \<Rightarrow> CommitWrite \<Rightarrow> string option \<Rightarrow> string \<rightharpoonup> int \<times> string \<times> int" where
  "committed_tree db rid w expected_parent =
     (case w of
        Snapshot es \<Rightarrow> foldl apply_change Map.empty (map Upsert es)
      | Changes cs \<Rightarrow> foldl apply_change (case expected_parent of None \<Rightarrow> Map.empty | Some p \<Rightarrow> snapshot db rid p) cs)"

lemma snapshot_revisions [simp]: "snapshot (db\<lparr>db_revisions := rs\<rparr>) = snapshot db" "snapshot (db\<lparr>db_heads := hs\<rparr>) = snapshot db"
  by (simp_all add: snapshot_def file_map_def fun_eq_iff)

lemma select_head_simps [simp]:
  "select_head (db\<lparr>db_revisions := rs\<rparr>) = select_head db" "select_head (db\<lparr>db_file_tree := fs\<rparr>) = select_head db"
  by (simp_all add: select_head_def fun_eq_iff)

lemma select_head_replace:
  "select_head (db\<lparr>db_heads := filter (\<lambda>h. fst h \<noteq> rid) (db_heads db) @ [(rid, cid)]\<rparr>) r = (if r = rid then Some cid else select_head db r)"
  by (simp add: select_head_def map_of_replace del: map_of_append)

lemma commit_body_step:
  assumes inv: "store_inv db" and run: "commit_body D rv w expected (db, k) = Inr (db', k')"
  defines "rid \<equiv> rv_repo_id rv" and "cid \<equiv> rv_commit_id rv"
  obtains fs where "select_head db rid = expected" "cid \<notin> commit_ids db"
    "db' = db\<lparr>db_revisions := db_revisions db @ [rv], db_file_tree := fs,
              db_heads := filter (\<lambda>h. fst h \<noteq> rid) (db_heads db) @ [(rid, cid)]\<rparr>"
    "fk_ok db'" "rows_ok db'"
    "\<And>r c. snapshot db' r c = (if (r, c) = (rid, cid) then committed_tree db rid w expected else snapshot db r c)"
proof -
  let ?db1 = "db\<lparr>db_revisions := db_revisions db @ [rv]\<rparr>"
  from run obtain s2 k2 db3 k3 where
    head: "select_head db rid = expected" and rev_ok: "cid \<notin> commit_ids db" "fk_ok ?db1"
    and copy: "copy_parent D rv w expected (?db1, k + 2) = Inr (s2, k2)"
    and wr: "write_tree D rid cid w (s2, k2) = Inr (db3, k3)"
    and hd: "replace_head_sql rid cid db3 = Inr db'"
    by (auto simp: commit_body_def rbind_eq_Inr query_Inr exec_Inr insert_revision_sql_def rid_def cid_def if_Inl_eq_Inr checked_Inr)
  have rows1: "rows_ok ?db1" using inv by (auto simp: store_inv_def rows_ok_def)
  have in1: "commit_in ?db1 rid cid" by (simp add: rid_def cid_def)
  have fresh: "\<forall>f\<in>set (db_file_tree ?db1). ft_commit_id f \<noteq> cid"
    using inv rev_ok(1) by (auto simp: store_inv_def fk_ok_def list_all_iff)
  have empty: "snapshot db rid cid = Map.empty"
    using fresh by (auto simp: snapshot_def file_map_def fun_eq_iff map_of_eq_None_iff file_key_def)
  let ?base = "case w of Snapshot _ \<Rightarrow> Map.empty | Changes _ \<Rightarrow> (case expected of None \<Rightarrow> Map.empty | Some p \<Rightarrow> snapshot db rid p)"
  have s2: "tree_step rid cid (\<lambda>_. ?base) ?db1 s2"
  proof (cases "\<exists>cs p. w = Changes cs \<and> expected = Some p")
    case True
    then obtain cs p where "w = Changes cs" "expected = Some p" by blast
    with copy copy_step [OF _ rows1 in1 fresh, of p s2] show ?thesis
      by (auto simp: copy_parent_def exec_Inr rid_def cid_def)
  next
    case False
    then have "copy_parent D rv w expected (?db1, k + 2) = Inr (?db1, k + 2)" "?base = Map.empty"
      by (auto simp: copy_parent_def split: CommitWrite.splits option.splits)
    with copy tree_step_refl [OF rev_ok(2) rows1, of rid cid] empty show ?thesis by (simp add: tree_step_def)
  qed
  then have "fk_ok s2" "rows_ok s2" "commit_in s2 rid cid" using in1 by (auto simp: tree_step_def)
  from changes_step [OF wr [unfolded write_tree_changes] this]
  have "tree_step rid cid ((\<lambda>m. foldl apply_change m (case w of Snapshot es \<Rightarrow> map Upsert es | Changes cs \<Rightarrow> cs)) \<circ> (\<lambda>_. ?base)) ?db1 db3"
    by (rule tree_step_trans [OF s2])
  then obtain fs where db3: "db3 = ?db1\<lparr>db_file_tree := fs\<rparr>" "rows_ok db3"
    "\<And>r c. snapshot db3 r c = (if (r, c) = (rid, cid) then committed_tree db rid w expected else snapshot db r c)"
    unfolding tree_step_def committed_tree_def by (cases w) (auto simp: o_def)
  from hd have db': "db' = db3\<lparr>db_heads := filter (\<lambda>h. fst h \<noteq> rid) (db_heads db3) @ [(rid, cid)]\<rparr>" "fk_ok db'"
    by (auto simp: replace_head_sql_def checked_Inr)
  show ?thesis
    by (rule that [of fs])
       (use head rev_ok(1) db' db3 in \<open>simp_all add: rows_ok_def\<close>)
qed

lemma commit_body_inv:
  assumes inv: "store_inv db" and parent: "rv_parent rv = expected" and run: "commit_body D rv w expected (db, k) = Inr (db', k')"
  shows "store_inv db'"
proof -
  obtain fs where st: "select_head db (rv_repo_id rv) = expected" "rv_commit_id rv \<notin> commit_ids db"
    "db' = db\<lparr>db_revisions := db_revisions db @ [rv], db_file_tree := fs,
              db_heads := filter (\<lambda>h. fst h \<noteq> rv_repo_id rv) (db_heads db) @ [(rv_repo_id rv, rv_commit_id rv)]\<rparr>"
    "fk_ok db'" "rows_ok db'"
    by (rule commit_body_step [OF inv run]) blast
  have heads: "select_head db' r = (if r = rv_repo_id rv then Some (rv_commit_id rv) else select_head db r)" for r
    unfolding st(3) using select_head_replace [where db = "db\<lparr>db_revisions := db_revisions db @ [rv], db_file_tree := fs\<rparr>"] by simp
  have "history None (revisions_of db' r) (select_head db' r)" for r
  proof -
    have "history None (revisions_of db r) (select_head db r)" using inv by (simp add: store_inv_def)
    with st(1) parent show ?thesis unfolding heads by (auto simp: st(3) revisions_of_def history_snoc)
  qed
  moreover have "distinct (map rv_commit_id (db_revisions db'))" using inv st(2) by (simp add: st(3) store_inv_def)
  moreover have "distinct (map fst (db_heads db'))" using inv by (auto simp: st(3) store_inv_def distinct_map_filter)
  moreover have "repos_ok db'" using inv by (simp add: st(3) store_inv_def repos_ok_def)
  ultimately show ?thesis using st(4,5) by (simp add: store_inv_def)
qed

lemma transaction_Inr:
  "transaction D body db = (Inr u, db') \<longleftrightarrow> \<not> db_fault D 0 \<and> \<not> db_fault D 1 \<and> (\<exists>k. body (db, 2) = Inr (db', k) \<and> \<not> db_fault D k)"
  by (auto simp: transaction_def split: sum.splits)

lemma transaction_Inl: "transaction D body db = (Inl e, db') \<Longrightarrow> db' = db"
  by (auto simp: transaction_def split: sum.splits if_splits)

text \<open>When it succeeds: no fault, the expected head, a fresh commit id and sizes in range.\<close>

definition write_sizes_ok :: "CommitWrite \<Rightarrow> bool" where
  "write_sizes_ok w \<longleftrightarrow> (case w of Snapshot es \<Rightarrow> list_all (\<lambda>e. unat (fe_size e) < 2 ^ 63) es
     | Changes cs \<Rightarrow> list_all (\<lambda>c. case c of Upsert e \<Rightarrow> unat (fe_size e) < 2 ^ 63 | Delete _ \<Rightarrow> True) cs)"

lemma fk_ok_tree:
  "fk_ok (db\<lparr>db_file_tree := fs\<rparr>) \<longleftrightarrow> fk_ok (db\<lparr>db_file_tree := []\<rparr>) \<and>
     list_all (\<lambda>f. ft_repo_id f \<in> repo_ids db \<and> ft_commit_id f \<in> commit_ids db) fs"
  by (auto simp: fk_ok_def list_all_iff)

lemma fk_ok_tree_sub:
  assumes "fk_ok db" "rid \<in> repo_ids db" "cid \<in> commit_ids db"
    and "\<forall>f\<in>set fs. f \<in> set (db_file_tree db) \<or> ft_repo_id f = rid \<and> ft_commit_id f = cid"
  shows "fk_ok (db\<lparr>db_file_tree := fs\<rparr>)"
  using assms by (auto simp: fk_ok_def list_all_iff)

lemma apply_change_ok:
  assumes "\<And>k. \<not> db_fault D k" "fk_ok db" "rid \<in> repo_ids db" "cid \<in> commit_ids db"
    and "case c of Upsert e \<Rightarrow> unat (fe_size e) < 2 ^ 63 | Delete _ \<Rightarrow> True"
  shows "\<exists>fs. apply_change_sql D rid cid c (db, k) = Inr (db\<lparr>db_file_tree := fs\<rparr>, k + 1) \<and> fk_ok (db\<lparr>db_file_tree := fs\<rparr>)"
proof (cases c)
  case (Upsert e)
  let ?f = "file_row_of rid cid (int (unat (fe_size e))) e"
  let ?fs = "filter (\<lambda>g. file_key g \<noteq> file_key ?f) (db_file_tree db) @ [?f]"
  have "fk_ok (db\<lparr>db_file_tree := ?fs\<rparr>)" by (rule fk_ok_tree_sub [OF assms(2-4)]) (auto simp: file_row_of_def)
  with assms(1,5) Upsert show ?thesis
    by (auto simp: insert_file_entry_def file_size_to_sql_def exec_def replace_file_sql_def checked_def)
next
  case (Delete path)
  let ?fs = "filter (\<lambda>g. file_key g \<noteq> (path, rid, cid)) (db_file_tree db)"
  have "fk_ok (db\<lparr>db_file_tree := ?fs\<rparr>)" by (rule fk_ok_tree_sub [OF assms(2-4)]) auto
  with assms(1) Delete show ?thesis by (auto simp: exec_def delete_file_sql_def checked_def)
qed

lemma changes_ok:
  assumes "\<And>k. \<not> db_fault D k" "rid \<in> repo_ids db" "cid \<in> commit_ids db"
    and "list_all (\<lambda>c. case c of Upsert e \<Rightarrow> unat (fe_size e) < 2 ^ 63 | Delete _ \<Rightarrow> True) cs" "fk_ok (db\<lparr>db_file_tree := fs\<rparr>)"
  shows "\<exists>fs' k'. foldr_tx (apply_change_sql D rid cid) cs (db\<lparr>db_file_tree := fs\<rparr>, k) = Inr (db\<lparr>db_file_tree := fs'\<rparr>, k') \<and>
    fk_ok (db\<lparr>db_file_tree := fs'\<rparr>)"
  using assms(4,5)
proof (induction cs arbitrary: fs k)
  case (Cons c cs)
  obtain fs1 where c: "apply_change_sql D rid cid c (db\<lparr>db_file_tree := fs\<rparr>, k) = Inr (db\<lparr>db_file_tree := fs1\<rparr>, k + 1)"
    "fk_ok (db\<lparr>db_file_tree := fs1\<rparr>)"
    using apply_change_ok [of D "db\<lparr>db_file_tree := fs\<rparr>" rid cid c k] assms(1-3) Cons.prems by auto
  with Cons.IH [of fs1 "k + 1"] Cons.prems(1) show ?case by simp
qed auto

lemma commit_body_ok:
  assumes inv: "store_inv db" and D: "\<And>k. \<not> db_fault D k" and repo: "rv_repo_id rv \<in> repo_ids db"
    and fresh: "rv_commit_id rv \<notin> commit_ids db" and head: "select_head db (rv_repo_id rv) = expected" and sizes: "write_sizes_ok w"
  shows "\<exists>s. commit_body D rv w expected (db, k) = Inr s"
proof -
  let ?rid = "rv_repo_id rv" and ?cid = "rv_commit_id rv"
  let ?db1 = "db\<lparr>db_revisions := db_revisions db @ [rv]\<rparr>"
  have fk: "fk_ok db" using inv by (simp add: store_inv_def)
  then have fk1: "fk_ok (?db1\<lparr>db_file_tree := db_file_tree db\<rparr>)" using repo by (auto simp: fk_ok_def list_all_iff)
  have ids: "?rid \<in> repo_ids ?db1" "?cid \<in> commit_ids ?db1" using repo by auto
  have nofile: "\<forall>f\<in>set (db_file_tree db). ft_commit_id f \<noteq> ?cid" using fk fresh unfolding fk_ok_def list_all_iff by metis
  have copied: "\<exists>fs k'. copy_parent D rv w expected (?db1\<lparr>db_file_tree := db_file_tree db\<rparr>, k + 2) = Inr (?db1\<lparr>db_file_tree := fs\<rparr>, k') \<and>
      fk_ok (?db1\<lparr>db_file_tree := fs\<rparr>)"
  proof (cases "\<exists>cs p. w = Changes cs \<and> expected = Some p")
    case True
    then obtain cs p where wp: "w = Changes cs" "expected = Some p" by blast
    let ?rows = "map (\<lambda>f. f\<lparr>ft_repo_id := ?rid, ft_commit_id := ?cid\<rparr>)
      (filter (\<lambda>f. ft_repo_id f = ?rid \<and> ft_commit_id f = p) (db_file_tree db))"
    have "fk_ok ((?db1\<lparr>db_file_tree := db_file_tree db\<rparr>)\<lparr>db_file_tree := db_file_tree db @ ?rows\<rparr>)"
      by (rule fk_ok_tree_sub [OF fk1, of ?rid ?cid]) (use ids in auto)
    then have "fk_ok (?db1\<lparr>db_file_tree := db_file_tree db @ ?rows\<rparr>)" by simp
    moreover have "\<not> list_ex (\<lambda>f. file_key f \<in> file_key ` set (db_file_tree db)) ?rows"
      using nofile by (auto simp: list_ex_iff file_key_def)
    ultimately show ?thesis using D wp by (auto simp: copy_parent_def exec_def copy_snapshot_sql_def checked_def)
  next
    case False
    then show ?thesis using fk1
      by (intro exI [of _ "db_file_tree db"] exI [of _ "k + 2"]) (cases w; cases expected; simp add: copy_parent_def)
  qed
  then obtain fs k2 where c: "copy_parent D rv w expected (?db1, k + 2) = Inr (?db1\<lparr>db_file_tree := fs\<rparr>, k2)" "fk_ok (?db1\<lparr>db_file_tree := fs\<rparr>)"
    by auto
  have "list_all (\<lambda>c. case c of Upsert e \<Rightarrow> unat (fe_size e) < 2 ^ 63 | Delete _ \<Rightarrow> True)
      (case w of Snapshot es \<Rightarrow> map Upsert es | Changes cs \<Rightarrow> cs)"
    using sizes by (auto simp: write_sizes_ok_def list_all_iff split: CommitWrite.splits)
  from changes_ok [OF D ids this c(2), of k2] obtain fs' k3 where
    wr: "write_tree D ?rid ?cid w (?db1\<lparr>db_file_tree := fs\<rparr>, k2) = Inr (?db1\<lparr>db_file_tree := fs'\<rparr>, k3)" "fk_ok (?db1\<lparr>db_file_tree := fs'\<rparr>)"
    by (auto simp: write_tree_changes)
  have "replace_head_sql ?rid ?cid (?db1\<lparr>db_file_tree := fs'\<rparr>) = Inr (?db1\<lparr>db_file_tree := fs',
      db_heads := filter (\<lambda>h. fst h \<noteq> ?rid) (db_heads db) @ [(?rid, ?cid)]\<rparr>)"
    using wr(2) repo by (auto simp: replace_head_sql_def checked_def fk_ok_def list_all_iff)
  moreover have "insert_revision_sql rv db = Inr ?db1" using fresh fk1 by (auto simp: insert_revision_sql_def checked_def)
  ultimately show ?thesis using D head c(1) wr(1) by (simp add: commit_body_def query_def exec_def)
qed

lemma commit_write_step:
  assumes inv: "store_inv db" and parent: "rv_parent rv = expected" and run: "commit_atomic_write D rv w expected db = (res, db')"
  defines "rid \<equiv> rv_repo_id rv" and "cid \<equiv> rv_commit_id rv"
  shows "case res of
      Inl e \<Rightarrow> db' = db
    | Inr _ \<Rightarrow> store_inv db' \<and> select_head db rid = expected \<and> cid \<notin> commit_ids db \<and>
        db_repos db' = db_repos db \<and> db_revisions db' = db_revisions db @ [rv] \<and>
        (\<forall>r. select_head db' r = (if r = rid then Some cid else select_head db r)) \<and>
        (\<forall>r c. snapshot db' r c = (if (r, c) = (rid, cid) then committed_tree db rid w expected else snapshot db r c))"
proof (cases res)
  case (Inl e)
  with run transaction_Inl show ?thesis unfolding commit_atomic_write_def by fastforce
next
  case (Inr u)
  with run obtain k' where body: "commit_body D rv w expected (db, 2) = Inr (db', k')"
    by (auto simp: commit_atomic_write_def transaction_Inr)
  obtain fs where st: "select_head db rid = expected" "cid \<notin> commit_ids db"
    "db' = db\<lparr>db_revisions := db_revisions db @ [rv], db_file_tree := fs,
              db_heads := filter (\<lambda>h. fst h \<noteq> rid) (db_heads db) @ [(rid, cid)]\<rparr>"
    "\<And>r c. snapshot db' r c = (if (r, c) = (rid, cid) then committed_tree db rid w expected else snapshot db r c)"
    unfolding rid_def cid_def by (rule commit_body_step [OF inv body]) blast
  have "select_head db' r = (if r = rid then Some cid else select_head db r)" for r
    unfolding st(3) using select_head_replace [where db = "db\<lparr>db_revisions := db_revisions db @ [rv], db_file_tree := fs\<rparr>"] by simp
  with st commit_body_inv [OF inv parent body] Inr show ?thesis by simp
qed

lemma commit_write_ok:
  assumes "store_inv db" "\<And>k. \<not> db_fault D k" "rv_repo_id rv \<in> repo_ids db" "rv_commit_id rv \<notin> commit_ids db"
    and "select_head db (rv_repo_id rv) = expected" "write_sizes_ok w"
  shows "fst (commit_atomic_write D rv w expected db) = Inr ()"
proof -
  obtain s where "commit_body D rv w expected (db, 2) = Inr s" using commit_body_ok [OF assms] by blast
  then show ?thesis using assms(2) by (cases s) (simp add: commit_atomic_write_def transaction_def)
qed

lemma commit_write_conflict:
  assumes "\<And>k. \<not> db_fault D k" "\<not> db_rollback_fault D" "select_head db (rv_repo_id rv) \<noteq> expected"
  shows "commit_atomic_write D rv w expected db =
    (Inl (HeadConflict (case select_head db (rv_repo_id rv) of None \<Rightarrow> [] | Some h \<Rightarrow> h)), db)"
  using assms by (simp add: commit_atomic_write_def transaction_def commit_body_def query_def)

section \<open>The log\<close>

lemma find_revision_iff:
  assumes "distinct (map rv_commit_id (db_revisions db))"
  shows "find_revision db cid = Some r \<longleftrightarrow> r \<in> set (db_revisions db) \<and> rv_commit_id r = cid"
proof -
  have "distinct (map rv_commit_id rs) \<Longrightarrow> find (\<lambda>r. rv_commit_id r = cid) rs = Some r \<longleftrightarrow> r \<in> set rs \<and> rv_commit_id r = cid" for rs
    by (induction rs) (auto simp: image_iff)
  with assms show ?thesis by (simp add: find_revision_def)
qed

lemma walk_history:
  assumes "distinct (map rv_commit_id (db_revisions db))"
  shows "history None (rs @ [r]) (Some (rv_commit_id r)) \<Longrightarrow> set (rs @ [r]) \<subseteq> set (db_revisions db) \<Longrightarrow>
    walk_parents db n r = take (Suc n) (rev (rs @ [r]))"
proof (induction n arbitrary: rs r)
  case (Suc n)
  show ?case
  proof (cases rs rule: rev_cases)
    case Nil
    with Suc.prems show ?thesis by simp
  next
    case (snoc rs' q)
    have "history None ((rs' @ [q]) @ [r]) (Some (rv_commit_id r))" using Suc.prems(1) snoc by simp
    then have q: "history None (rs' @ [q]) (Some (rv_commit_id q))" "rv_parent r = Some (rv_commit_id q)"
      unfolding history_snoc by auto
    moreover have "find_revision db (rv_commit_id q) = Some q"
      unfolding find_revision_iff [OF assms] using Suc.prems(2) snoc by simp
    ultimately show ?thesis using Suc.IH [OF q(1)] Suc.prems(2) snoc by simp
  qed
qed simp

lemma commit_log_eq:
  assumes "store_inv db" "\<And>k. \<not> db_fault D k"
  shows "get_commit_log D db rid limit = Inr (take (max 1 (nat (effective_limit limit))) (rev (revisions_of db rid)))"
proof (cases "revisions_of db rid" rule: rev_cases)
  case Nil
  then have "select_head db rid = None" using assms(1) by (auto simp: store_inv_def dest!: spec [of _ rid])
  then show ?thesis using assms(2) Nil by (simp add: get_commit_log_def query_def)
next
  case (snoc rs r)
  have d: "distinct (map rv_commit_id (db_revisions db))" using assms(1) by (simp add: store_inv_def)
  have h: "history None (rs @ [r]) (select_head db rid)" using assms(1) snoc by (metis store_inv_def)
  then have head: "select_head db rid = Some (rv_commit_id r)" by (simp add: history_snoc)
  have sub: "set (rs @ [r]) \<subseteq> set (db_revisions db)" using snoc [symmetric] by (auto simp: revisions_of_def)
  then have "find_revision db (rv_commit_id r) = Some r" unfolding find_revision_iff [OF d] by simp
  moreover have "Suc (nat (effective_limit limit - 1)) = max 1 (nat (effective_limit limit))" by linarith
  ultimately show ?thesis using assms(2) head walk_history [OF d h [unfolded head] sub] snoc
    by (simp add: get_commit_log_def query_def flip: take_Suc_Cons)
qed

section \<open>Creating and deleting repositories\<close>

lemma head_revision:
  assumes "store_inv db" "select_head db rid = Some cid"
  obtains r where "r \<in> set (db_revisions db)" "rv_commit_id r = cid" "rv_repo_id r = rid"
proof -
  have h: "history None (revisions_of db rid) (Some cid)" using assms by (metis store_inv_def)
  then have ne: "revisions_of db rid \<noteq> []" by auto
  from history_end [OF h ne] last_in_set [OF ne] that [of "last (revisions_of db rid)"] show ?thesis by (simp add: revisions_of_def)
qed

lemma select_head_filter: "map_of (filter (\<lambda>h. fst h \<noteq> rid) hs) = (map_of hs)(rid := None)"
  by (rule map_of_filter_neq)

lemma create_repo_step:
  assumes inv: "store_inv db" and run: "create_repo D now ns nm ty priv db = (res, db')"
  shows "case res of
      Inl e \<Rightarrow> db' = db
    | Inr rp \<Rightarrow> store_inv db' \<and> rp_id rp \<notin> repo_ids db \<and> repo_ids db' = insert (rp_id rp) (repo_ids db) \<and>
        snapshot db' = snapshot db \<and> select_head db' = select_head db \<and> db_revisions db' = db_revisions db"
proof -
  let ?row = "\<lparr>rr_id = db_next_id db, rr_name = nm, rr_namespace = ns, rr_repo_type = repo_type_name ty,
              rr_sha = None, rr_private = (if priv then 1 else 0), rr_created_at = now, rr_updated_at = now\<rparr>"
  let ?db = "db\<lparr>db_repos := db_repos db @ [?row], db_next_id := db_next_id db + 1\<rparr>"
  show ?thesis
  proof (cases res)
    case (Inl e)
    with run show ?thesis by (auto simp: create_repo_def split: sum.splits)
  next
    case (Inr rp)
    with run have new: "\<not> list_ex (\<lambda>r. rr_namespace r = ns \<and> rr_name r = nm \<and> rr_repo_type r = repo_type_name ty) (db_repos db)"
      and db': "db' = ?db" "fk_ok ?db" and id: "rp_id rp = db_next_id db"
      by (auto simp: create_repo_def exec_Inr insert_repo_sql_def if_Inl_eq_Inr checked_Inr split: sum.splits)
    have "db_next_id db \<notin> repo_ids db" using inv by (auto simp: store_inv_def repos_ok_def)
    moreover from this new inv have "repos_ok ?db" by (fastforce simp: store_inv_def repos_ok_def list_ex_iff)
    moreover have "select_head ?db = select_head db" "snapshot ?db = snapshot db"
      by (simp_all add: select_head_def snapshot_def file_map_def fun_eq_iff)
    moreover from this db'(2) inv \<open>repos_ok ?db\<close> have "store_inv ?db"
      by (simp add: store_inv_def rows_ok_def revisions_of_def)
    ultimately show ?thesis using Inr db' id by simp
  qed
qed

definition without_repo :: "int \<Rightarrow> hub_db \<Rightarrow> hub_db" where
  "without_repo rid db = db\<lparr>db_file_tree := filter (\<lambda>f. ft_repo_id f \<noteq> rid) (db_file_tree db),
     db_heads := filter (\<lambda>h. fst h \<noteq> rid) (db_heads db),
     db_revisions := filter (\<lambda>r. rv_repo_id r \<noteq> rid) (db_revisions db),
     db_repos := filter (\<lambda>r. rr_id r \<noteq> rid) (db_repos db)\<rparr>"

lemma select_head_without: "select_head (without_repo rid db) r = (if r = rid then None else select_head db r)"
  by (simp add: select_head_def without_repo_def select_head_filter)

lemma snapshot_without: "snapshot (without_repo rid db) r c = (if r = rid then Map.empty else snapshot db r c)"
proof -
  have "map_of (map (\<lambda>f. (file_key f, file_payload f)) (filter (\<lambda>f. ft_repo_id f \<noteq> rid) fs)) (p, r, c) =
      (if r = rid then None else map_of (map (\<lambda>f. (file_key f, file_payload f)) fs) (p, r, c))" for fs p
    by (induction fs) (auto simp: file_key_def)
  then show ?thesis by (auto simp: snapshot_def file_map_def without_repo_def fun_eq_iff)
qed

lemma without_repo_fk:
  assumes "store_inv db"
  shows "fk_ok (without_repo rid db)"
proof -
  have fk: "fk_ok db" and d: "distinct (map fst (db_heads db))" and rows: "rows_ok db" using assms by (simp_all add: store_inv_def)
  have "c \<in> commit_ids (without_repo rid db)" if "(r, c) \<in> set (db_heads db)" "r \<noteq> rid" for r c
  proof -
    have "select_head db r = Some c" using that(1) d by (simp add: select_head_def)
    from head_revision [OF assms this] that(2) show ?thesis by (force simp: without_repo_def)
  qed
  moreover have "ft_commit_id f \<in> commit_ids (without_repo rid db)" if "f \<in> set (db_file_tree db)" "ft_repo_id f \<noteq> rid" for f
    using rows that by (force simp: rows_ok_def without_repo_def)
  ultimately show ?thesis using fk by (fastforce simp: fk_ok_def list_all_iff without_repo_def)
qed

lemma without_repo_inv:
  assumes "store_inv db"
  shows "store_inv (without_repo rid db)"
proof -
  have "revisions_of (without_repo rid db) r = (if r = rid then [] else revisions_of db r)" for r
    by (auto simp: revisions_of_def without_repo_def intro: filter_cong)
  moreover have "rows_ok (without_repo rid db)" using assms
    by (force simp: store_inv_def rows_ok_def without_repo_def distinct_map_filter)
  moreover have "repos_ok (without_repo rid db)" using assms
    by (auto simp: store_inv_def repos_ok_def without_repo_def distinct_map_filter)
  ultimately show ?thesis using assms without_repo_fk [OF assms, of rid]
    by (auto simp: store_inv_def select_head_without) (auto simp: without_repo_def distinct_map_filter)
qed

lemma delete_repo_step:
  assumes inv: "store_inv db" and run: "delete_repo D rid db = (res, db')"
  shows "case res of Inl e \<Rightarrow> db' = db | Inr _ \<Rightarrow> rid \<in> repo_ids db \<and> db' = without_repo rid db \<and> store_inv db'"
proof (cases res)
  case (Inl e)
  with run transaction_Inl show ?thesis unfolding delete_repo_def by fastforce
next
  case (Inr u)
  with run have "rid \<in> repo_ids db \<and> db' = without_repo rid db"
    by (auto simp: delete_repo_def transaction_Inr rbind_eq_Inr exec_Inr delete_tree_sql_def delete_heads_sql_def
        delete_revisions_sql_def delete_repo_sql_def checked_Inr without_repo_def if_Inl_eq_Inr)
  with Inr without_repo_inv [OF inv, of rid] show ?thesis by simp
qed

lemma delete_repo_ok:
  assumes inv: "store_inv db" and "\<And>k. \<not> db_fault D k" "rid \<in> repo_ids db"
  shows "delete_repo D rid db = (Inr (), without_repo rid db)"
proof -
  let ?w = "without_repo rid db"
  let ?db1 = "db\<lparr>db_file_tree := db_file_tree ?w\<rparr>"
  have fk: "fk_ok db" using inv by (simp add: store_inv_def)
  have "fk_ok ?db1" "fk_ok (?db1\<lparr>db_heads := db_heads ?w\<rparr>)"
    using fk by (auto simp: fk_ok_def list_all_iff without_repo_def)
  moreover have "fk_ok (?db1\<lparr>db_heads := db_heads ?w, db_revisions := db_revisions ?w\<rparr>)" "fk_ok ?w"
    using without_repo_fk [OF inv, of rid] fk by (auto simp: fk_ok_def list_all_iff without_repo_def)
  ultimately show ?thesis using assms(2,3)
    by (simp add: delete_repo_def transaction_def exec_def delete_tree_sql_def delete_heads_sql_def
        delete_revisions_sql_def delete_repo_sql_def checked_def without_repo_def)
qed

section \<open>Reading snapshots\<close>

definition entry_of_row :: "file_row \<Rightarrow> FileEntry" where
  "entry_of_row f = \<lparr>fe_path = ft_path f, fe_repo_id = ft_repo_id f, fe_commit_id = ft_commit_id f,
     fe_size = of_int (ft_size f), fe_cas_hash = ft_cas_hash f, fe_is_lfs = (ft_is_lfs f \<noteq> 0)\<rparr>"

lemma entry_of_row_path [simp]: "fe_path (entry_of_row f) = ft_path f"
  by (simp add: entry_of_row_def)

lemma entry_of_row_payload:
  assumes "0 \<le> ft_size f" "ft_size f < 2 ^ 63" "ft_is_lfs f \<in> {0, 1}"
  shows "entry_payload (entry_of_row f) = file_payload f"
proof -
  have "uint (of_int (ft_size f) :: u64) = ft_size f" using assms(1,2) by (simp add: unsigned_of_int take_bit_int_eq_self)
  then show ?thesis using assms(3) by (auto simp: entry_payload_def entry_of_row_def file_payload_def)
qed

lemma collect_rows: "\<forall>f\<in>set fs. 0 \<le> ft_size f \<Longrightarrow> collect_results row_to_file_entry fs = Inr (map entry_of_row fs)"
  by (induction fs) (auto simp: row_to_file_entry_def entry_of_row_def not_less)

lemma select_tree_rows: "set (select_tree P db rid cid) = {f \<in> set (db_file_tree db). ft_repo_id f = rid \<and> ft_commit_id f = cid \<and> P (ft_path f)}"
  by (simp add: select_tree_def)

lemma select_tree_collect:
  assumes "rows_ok db" "set fs \<subseteq> set (select_tree P db rid cid)"
  shows "collect_results row_to_file_entry fs = Inr (map entry_of_row fs)"
  using assms by (intro collect_rows) (auto simp: select_tree_rows rows_ok_def)

lemma distinct_paths:
  assumes "distinct (map file_key fs)"
  shows "distinct (map ft_path (filter (\<lambda>f. ft_repo_id f = rid \<and> ft_commit_id f = cid \<and> P (ft_path f)) fs))"
  using assms by (induction fs) (auto simp: file_key_def)

lemma select_tree_sorted:
  assumes "rows_ok db"
  shows "sorted (map ft_path (select_tree P db rid cid))" "distinct (map ft_path (select_tree P db rid cid))"
proof -
  show "sorted (map ft_path (select_tree P db rid cid))" by (simp add: select_tree_def)
  let ?fs = "filter (\<lambda>f. ft_repo_id f = rid \<and> ft_commit_id f = cid \<and> P (ft_path f)) (db_file_tree db)"
  have "distinct (map ft_path ?fs)" using assms by (intro distinct_paths) (simp add: rows_ok_def)
  then show "distinct (map ft_path (select_tree P db rid cid))" by (simp add: select_tree_def distinct_map)
qed

lemma option_eqI: "(\<And>v. x = Some v \<longleftrightarrow> y = Some v) \<Longrightarrow> x = y"
  by (metis not_None_eq)

lemma select_tree_map:
  assumes "rows_ok db"
  shows "map_of (map (\<lambda>f. (ft_path f, file_payload f)) (select_tree P db rid cid)) p = (if P p then snapshot db rid cid p else None)"
proof -
  have d: "distinct (map fst (map (\<lambda>f. (ft_path f, file_payload f)) (select_tree P db rid cid)))"
    using select_tree_sorted(2) [OF assms] by (simp add: o_def)
  have dk: "distinct (map fst (map (\<lambda>f. (file_key f, file_payload f)) (db_file_tree db)))" using assms by (simp add: rows_ok_def o_def)
  have "map_of (map (\<lambda>f. (ft_path f, file_payload f)) (select_tree P db rid cid)) p = Some v \<longleftrightarrow> P p \<and> snapshot db rid cid p = Some v" for v
    unfolding snapshot_def file_map_def map_of_eq_Some_iff [OF d] map_of_eq_Some_iff [OF dk]
    by (auto simp: select_tree_rows file_key_def image_iff)
  then show ?thesis by (intro option_eqI) simp
qed

lemma get_file_tree_eq:
  assumes "rows_ok db" "\<And>k. \<not> db_fault D k"
  shows "get_file_tree D db rid cid = Inr (map entry_of_row (select_tree (\<lambda>_. True) db rid cid))"
  using assms(2) select_tree_collect [OF assms(1) order_refl] by (simp add: get_file_tree_def query_def)

section \<open>The reference implementations\<close>

definition payload_map :: "(string \<times> FileEntry) list \<Rightarrow> string \<rightharpoonup> int \<times> string \<times> int" where
  "payload_map m p = map_option entry_payload (map_of m p)"

definition keyed :: "(string \<times> FileEntry) list \<Rightarrow> bool" where
  "keyed m \<longleftrightarrow> distinct (map fst m) \<and> (\<forall>p e. map_of m p = Some e \<longrightarrow> fe_path e = p)"

lemma keyed_Nil: "keyed []"
  by (simp add: keyed_def)

lemma payload_map_Nil: "payload_map [] = Map.empty"
  by (simp add: payload_map_def fun_eq_iff)

lemma change_entries_map: "payload_map (change_entries rv m c) = apply_change (payload_map m) c"
  by (cases c) (auto simp: payload_map_def fun_eq_iff update_conv' delete_conv' entry_payload_def)

lemma change_entries_keyed: "keyed m \<Longrightarrow> keyed (change_entries rv m c)"
  by (cases c) (auto simp: keyed_def distinct_update distinct_delete update_conv' delete_conv')

lemma changes_entries:
  "keyed m \<Longrightarrow> keyed (foldl (change_entries rv) m cs) \<and> payload_map (foldl (change_entries rv) m cs) = foldl apply_change (payload_map m) cs"
  by (induction cs arbitrary: m) (simp_all add: change_entries_keyed change_entries_map)

text \<open>Inserting entries with distinct paths, in any order, gives their map.\<close>

lemma upserts_map:
  "distinct (map fe_path es) \<Longrightarrow> foldl apply_change m (map Upsert es) = m ++ map_of (map (\<lambda>e. (fe_path e, entry_payload e)) es)"
proof (induction es arbitrary: m)
  case (Cons e es)
  have "map_of (map (\<lambda>e. (fe_path e, entry_payload e)) es) (fe_path e) = None" using Cons.prems by (auto simp: map_of_eq_None_iff)
  with Cons show ?case by (auto simp: map_add_def fun_eq_iff split: option.splits)
qed simp

lemma order_map:
  assumes "keyed m" "mset (ord (map snd m)) = mset (map snd m)"
  shows "foldl apply_change Map.empty (map Upsert (ord (map snd m))) = payload_map m"
    "set (ord (map snd m)) = snd ` set m"
proof -
  have paths: "map fe_path (map snd m) = map fst m" using assms(1) by (auto simp: keyed_def)
  have d: "distinct (map fe_path (ord (map snd m)))"
    using assms(1) unfolding keyed_def paths [symmetric] by (metis assms(2) mset_eq_imp_distinct_iff mset_map)
  let ?g = "\<lambda>e. (fe_path e, entry_payload e)"
  show set: "set (ord (map snd m)) = snd ` set m" using mset_eq_setD [OF assms(2)] by simp
  have "map_of (map ?g (ord (map snd m))) = map_of (map ?g (map snd m))"
  proof (rule iffD2 [OF map_of_inject_set])
    show "distinct (map fst (map ?g (ord (map snd m))))" using d by (simp add: o_def)
    have "map fst (map ?g (map snd m)) = map fst m" using paths by (simp add: o_def)
    then show "distinct (map fst (map ?g (map snd m)))" using assms(1) by (simp only: keyed_def)
    show "set (map ?g (ord (map snd m))) = set (map ?g (map snd m))" using set by (simp add: image_image)
  qed
  also have "map ?g (map snd m) = map (\<lambda>(p, e). (p, entry_payload e)) m" using assms(1) by (auto simp: keyed_def)
  also have "map_of \<dots> = payload_map m" by (simp add: payload_map_def fun_eq_iff map_of_map)
  finally show "foldl apply_change Map.empty (map Upsert (ord (map snd m))) = payload_map m" by (simp add: upserts_map [OF d])
qed

lemma snapshot_entries:
  assumes "rows_ok db"
  shows "foldl apply_change Map.empty (map Upsert (map entry_of_row (select_tree (\<lambda>_. True) db rid cid))) = snapshot db rid cid"
proof -
  let ?fs = "select_tree (\<lambda>_. True) db rid cid"
  have d: "distinct (map fe_path (map entry_of_row ?fs))" using select_tree_sorted(2) [OF assms] by (simp add: o_def)
  have "map (\<lambda>e. (fe_path e, entry_payload e)) (map entry_of_row ?fs) = map (\<lambda>f. (ft_path f, file_payload f)) ?fs"
    using assms by (auto simp: select_tree_rows rows_ok_def entry_of_row_payload)
  then have "foldl apply_change Map.empty (map Upsert (map entry_of_row ?fs)) = map_of (map (\<lambda>f. (ft_path f, file_payload f)) ?fs)"
    using upserts_map [OF d, of Map.empty] by (simp only: empty_map_add)
  then show ?thesis using select_tree_map [OF assms, of "\<lambda>_. True" rid cid] by (simp only: fun_eq_iff if_True) simp
qed

abbreviation no_faults :: db_env where
  "no_faults \<equiv> \<lparr>db_fault = (\<lambda>_. False), db_rollback_fault = False\<rparr>"

lemma commit_write_rejected:
  assumes "store_inv db" "select_head db (rv_repo_id rv) = expected"
  shows "rv_commit_id rv \<in> commit_ids db \<Longrightarrow>
      commit_atomic_write no_faults rv w expected db = (Inl (DatabaseError UniqueViolation), db)"
    "rv_commit_id rv \<notin> commit_ids db \<Longrightarrow> rv_repo_id rv \<notin> repo_ids db \<Longrightarrow>
      commit_atomic_write no_faults rv w expected db = (Inl (DatabaseError ForeignKeyViolation), db)"
  using assms(2)
  by (auto simp: commit_atomic_write_def transaction_def commit_body_def query_def exec_def insert_revision_sql_def
      checked_def fk_ok_def list_all_iff)

lemma entries_sizes_ok:
  assumes "list_all (\<lambda>e. unat (fe_size e) < 2 ^ 63) (map snd m)" "write_sizes_ok (Changes cs)"
  shows "list_all (\<lambda>e. unat (fe_size e) < 2 ^ 63) (map snd (foldl (change_entries rv) m cs))"
  using assms
proof (induction cs arbitrary: m)
  case (Cons c cs)
  have "snd ` set (AList.update k v m) \<subseteq> insert v (snd ` set m)" "snd ` set (AList.delete k m) \<subseteq> snd ` set m" for k v
    by (induction m) (auto simp: AList.delete_eq)
  then have "list_all (\<lambda>e. unat (fe_size e) < 2 ^ 63) (map snd (change_entries rv m c))"
    using Cons.prems by (cases c) (fastforce simp: write_sizes_ok_def list_all_iff)+
  with Cons show ?case by (simp add: write_sizes_ok_def)
qed simp

section \<open>Properties\<close>

text \<open>
  A commit is all or nothing, whatever statement of its transaction fails. If it reports
  an error, the database is unchanged. If it succeeds, the head was the expected parent, the
  commit id is new, the history of the repository grew by exactly this revision, only its head
  moved, the new snapshot is the parent's with the changes applied in order, and every older
  snapshot of every repository is what it was.
\<close>

theorem commit_all_or_nothing:
  assumes "store_inv db" "rv_parent revision = expected_parent"
    and "commit_changes_atomic D revision changes expected_parent db = (res, db')"
  shows "case res of
      Inl e \<Rightarrow> db' = db
    | Inr _ \<Rightarrow> store_inv db' \<and> select_head db (rv_repo_id revision) = expected_parent \<and> rv_commit_id revision \<notin> commit_ids db \<and>
        db_repos db' = db_repos db \<and> db_revisions db' = db_revisions db @ [revision] \<and>
        (\<forall>r. select_head db' r = (if r = rv_repo_id revision then Some (rv_commit_id revision) else select_head db r)) \<and>
        (\<forall>r c. snapshot db' r c =
          (if (r, c) = (rv_repo_id revision, rv_commit_id revision)
           then foldl apply_change (case expected_parent of None \<Rightarrow> Map.empty | Some p \<Rightarrow> snapshot db r p) changes
           else snapshot db r c))"
  using commit_write_step [OF assms(1,2) assms(3) [unfolded commit_changes_atomic_def]]
  by (cases res) (auto simp: committed_tree_def)

text \<open>
  C20. The commit of the SQLite store agrees with the reference implementation of the trait, which
  loads the parent tree into memory and writes the whole snapshot: without driver faults and
  with file sizes in range the two return the same result and leave the same repositories,
  history, heads and snapshots, for every order in which the hash map returns its entries.
\<close>

theorem sqlite_commit_equals_reference:
  assumes inv: "store_inv db" and parent: "rv_parent revision = expected_parent" and sizes: "write_sizes_ok (Changes changes)"
    and ord: "\<And>es. mset (ord es) = mset es"
    and runs: "commit_changes_atomic no_faults revision changes expected_parent db = (res1, db1)"
      "default_commit_changes_atomic no_faults ord revision changes expected_parent db = (res2, db2)"
  shows "res1 = res2 \<and> db_repos db1 = db_repos db2 \<and> db_revisions db1 = db_revisions db2 \<and> select_head db1 = select_head db2 \<and>
    snapshot db1 = snapshot db2"
proof -
  have rows: "rows_ok db" using inv by (simp add: store_inv_def)
  define tree where "tree = (case expected_parent of None \<Rightarrow> [] | Some p \<Rightarrow> map entry_of_row (select_tree (\<lambda>_. True) db (rv_repo_id revision) p))"
  define m0 where "m0 = foldl (change_entries revision) [] (map Upsert tree)"
  define m where "m = foldl (change_entries revision) m0 changes"
  let ?base = "case expected_parent of None \<Rightarrow> Map.empty | Some p \<Rightarrow> snapshot db (rv_repo_id revision) p"
  have "foldl apply_change Map.empty (map Upsert tree) = ?base"
    unfolding tree_def using snapshot_entries [OF rows] by (cases expected_parent) (simp_all del: map_map)
  then have k0: "keyed m0" "payload_map m0 = ?base"
    using changes_entries [OF keyed_Nil, of revision "map Upsert tree"] by (simp_all only: m0_def payload_map_Nil)
  note km = changes_entries [OF k0(1), of revision changes, folded m_def, unfolded k0(2)]
  note om = order_map [of m ord, OF conjunct1 [OF km] ord]
  have "list_all (\<lambda>e. unat (fe_size e) < 2 ^ 63) tree"
  proof -
    have "unat (of_int n :: u64) < 2 ^ 63" if "0 \<le> n" "n < 2 ^ 63" for n
      using that by (simp add: unsigned_of_int take_bit_int_eq_self nat_less_iff)
    then show ?thesis using rows by (auto simp: tree_def list_all_iff select_tree_rows rows_ok_def entry_of_row_def split: option.splits)
  qed
  then have "list_all (\<lambda>e. unat (fe_size e) < 2 ^ 63) (map snd m0)"
    unfolding m0_def by (intro entries_sizes_ok) (simp_all add: write_sizes_ok_def list_all_iff)
  then have sz: "write_sizes_ok (Snapshot (ord (map snd m)))"
    using entries_sizes_ok [OF _ sizes, of m0 revision] om(2) by (simp add: write_sizes_ok_def list_all_iff m_def)
  have tree: "committed_tree db (rv_repo_id revision) (Snapshot (ord (map snd m))) expected_parent =
      committed_tree db (rv_repo_id revision) (Changes changes) expected_parent"
    using om(1) km by (simp add: committed_tree_def)
  have run2: "commit_atomic_write no_faults revision (Snapshot (ord (map snd m))) expected_parent db = (res2, db2)"
    using runs(2) get_file_tree_eq [OF rows, of no_faults]
    by (cases expected_parent) (simp_all add: default_commit_changes_atomic_def commit_atomic_def m_def m0_def tree_def Let_def)
  note run1 = runs(1) [unfolded commit_changes_atomic_def]
  consider (conflict) "select_head db (rv_repo_id revision) \<noteq> expected_parent"
    | (unique) "select_head db (rv_repo_id revision) = expected_parent" "rv_commit_id revision \<in> commit_ids db"
    | (foreign) "select_head db (rv_repo_id revision) = expected_parent" "rv_commit_id revision \<notin> commit_ids db" "rv_repo_id revision \<notin> repo_ids db"
    | (ok) "select_head db (rv_repo_id revision) = expected_parent" "rv_commit_id revision \<notin> commit_ids db" "rv_repo_id revision \<in> repo_ids db"
    by blast
  then show ?thesis
  proof cases
    case ok
    have "res1 = Inr ()" "res2 = Inr ()"
      using commit_write_ok [OF inv _ ok(3,2,1) sizes, of no_faults] commit_write_ok [OF inv _ ok(3,2,1) sz, of no_faults] run1 run2 by auto
    with commit_write_step [OF inv parent run1] commit_write_step [OF inv parent run2] tree
    show ?thesis by (simp add: fun_eq_iff)
  qed (use run1 run2 commit_write_conflict [of no_faults] commit_write_rejected [OF inv] in auto)
qed

section \<open>Reachable states\<close>

text \<open>What the services do to the store; a commit names as parent the head it expects.\<close>

inductive hub_reach :: "hub_db \<Rightarrow> bool" where
  empty: "hub_reach db_empty"
| create: "hub_reach db \<Longrightarrow> hub_reach (snd (create_repo D now ns nm ty priv db))"
| delete: "hub_reach db \<Longrightarrow> hub_reach (snd (delete_repo D rid db))"
| commit: "hub_reach db \<Longrightarrow> rv_parent revision = expected_parent \<Longrightarrow>
    hub_reach (snd (commit_changes_atomic D revision changes expected_parent db))"

lemma hub_reach_inv: "hub_reach db \<Longrightarrow> store_inv db"
proof (induction rule: hub_reach.induct)
  case (create db D now ns nm ty priv)
  obtain res db' where r: "create_repo D now ns nm ty priv db = (res, db')" by (metis surj_pair)
  with create_repo_step [OF create.IH r] create.IH show ?case by (cases res) auto
next
  case (delete db D rid)
  obtain res db' where r: "delete_repo D rid db = (res, db')" by (metis surj_pair)
  with delete_repo_step [OF delete.IH r] delete.IH show ?case by (cases res) auto
next
  case (commit db revision expected_parent D changes)
  obtain res db' where r: "commit_changes_atomic D revision changes expected_parent db = (res, db')" by (metis surj_pair)
  with commit_write_step [OF commit.IH commit.hyps(2), of D "Changes changes" res db'] commit.IH
  show ?case by (cases res) (auto simp: commit_changes_atomic_def)
qed (rule db_empty_inv)

text \<open>
  Histories are linear and the log is complete: in every state that creating and deleting
  repositories and committing can reach, whatever faults occur, each revision of a repository
  has the previous one as its parent and the last one is the head, and the commit log lists
  the revisions from the head back to the first, up to the limit. A limit of zero, or one that
  is negative as \<open>i64\<close>, still lists the head.
\<close>

theorem reachable_history_linear:
  assumes "hub_reach db"
  shows "history None (revisions_of db rid) (select_head db rid) \<and>
    get_commit_log no_faults db rid limit = Inr (take (max 1 (nat (effective_limit limit))) (rev (revisions_of db rid)))"
  using hub_reach_inv [OF assms] commit_log_eq [OF hub_reach_inv [OF assms], of no_faults] by (simp add: store_inv_def)

text \<open>One repository with two commits, as the witness of the properties.\<close>

definition hub_demo_file :: "string \<Rightarrow> FileEntry" where
  "hub_demo_file path = \<lparr>fe_path = path, fe_repo_id = 1, fe_commit_id = ''c'', fe_size = 7, fe_cas_hash = ''h'', fe_is_lfs = False\<rparr>"

definition demo_rev :: "string \<Rightarrow> string option \<Rightarrow> Revision" where
  "demo_rev cid parent = \<lparr>rv_commit_id = cid, rv_repo_id = 1, rv_parent = parent, rv_message = ''m'', rv_author = ''u'', rv_created_at = 0\<rparr>"

definition demo_db1 :: hub_db where
  "demo_db1 = snd (create_repo no_faults 0 ''u'' ''r'' Model False db_empty)"

definition demo_db2 :: hub_db where
  "demo_db2 = snd (commit_changes_atomic no_faults (demo_rev ''c1'' None) [Upsert (hub_demo_file ''a'')] None demo_db1)"

lemmas commit_simps = commit_changes_atomic_def commit_atomic_write_def transaction_def commit_body_def query_def exec_def
  insert_revision_sql_def checked_def fk_ok_def copy_parent_def write_tree_changes insert_file_entry_def file_size_to_sql_def
  replace_file_sql_def delete_file_sql_def copy_snapshot_sql_def replace_head_sql_def select_head_def file_row_of_def file_key_def

lemma demo_db1_eq: "demo_db1 = db_empty\<lparr>db_repos := [\<lparr>rr_id = 1, rr_name = ''r'', rr_namespace = ''u'', rr_repo_type = ''model'',
    rr_sha = None, rr_private = 0, rr_created_at = 0, rr_updated_at = 0\<rparr>], db_next_id := 2\<rparr>"
  by (simp add: demo_db1_def create_repo_def exec_def insert_repo_sql_def checked_def fk_ok_def db_empty_def)

lemma demo_db2_eq: "demo_db2 = demo_db1\<lparr>db_revisions := [demo_rev ''c1'' None], db_heads := [(1, ''c1'')],
    db_file_tree := [\<lparr>ft_path = ''a'', ft_repo_id = 1, ft_commit_id = ''c1'', ft_size = 7, ft_cas_hash = ''h'', ft_is_lfs = 0\<rparr>]\<rparr>"
  by (simp add: demo_db2_def demo_db1_eq db_empty_def commit_simps demo_rev_def hub_demo_file_def)

lemma demo_reach: "hub_reach demo_db1" "hub_reach demo_db2"
  unfolding demo_db1_def demo_db2_def by (intro hub_reach.intros; simp add: demo_rev_def)+

theorem commit_all_or_nothing_witness:
  "\<exists>db'. commit_changes_atomic no_faults (demo_rev ''c2'' (Some ''c1'')) [Delete ''a'', Upsert (hub_demo_file ''b'')] (Some ''c1'') demo_db2 =
     (Inr (), db') \<and> snapshot db' 1 ''c2'' ''a'' = None \<and> snapshot db' 1 ''c2'' ''b'' = Some (7, ''h'', 0) \<and>
     snapshot db' 1 ''c1'' ''a'' = snapshot demo_db2 1 ''c1'' ''a''"
proof -
  let ?run = "commit_changes_atomic no_faults (demo_rev ''c2'' (Some ''c1'')) [Delete ''a'', Upsert (hub_demo_file ''b'')] (Some ''c1'') demo_db2"
  have "fst ?run = Inr ()"
    by (simp add: demo_db2_eq demo_db1_eq db_empty_def commit_simps demo_rev_def hub_demo_file_def)
  then obtain db' where r: "?run = (Inr (), db')" by (metis surjective_pairing)
  from commit_all_or_nothing [OF hub_reach_inv [OF demo_reach(2)] _ r] show ?thesis
    using r by (simp add: demo_rev_def hub_demo_file_def entry_payload_def)
qed

theorem sqlite_commit_equals_reference_witness:
  "fst (default_commit_changes_atomic no_faults rev (demo_rev ''c2'' (Some ''c1'')) [Delete ''a'', Upsert (hub_demo_file ''b'')] (Some ''c1'') demo_db2) =
     Inr ()"
proof -
  let ?r1 = "commit_changes_atomic no_faults (demo_rev ''c2'' (Some ''c1'')) [Delete ''a'', Upsert (hub_demo_file ''b'')] (Some ''c1'') demo_db2"
  let ?r2 = "default_commit_changes_atomic no_faults rev (demo_rev ''c2'' (Some ''c1'')) [Delete ''a'', Upsert (hub_demo_file ''b'')] (Some ''c1'') demo_db2"
  have "fst ?r1 = Inr ()"
    by (simp add: demo_db2_eq demo_db1_eq db_empty_def commit_simps demo_rev_def hub_demo_file_def)
  moreover have "fst ?r1 = fst ?r2"
    using sqlite_commit_equals_reference [OF hub_reach_inv [OF demo_reach(2)] _ _ _ surjective_pairing surjective_pairing,
      of "demo_rev ''c2'' (Some ''c1'')" "Some ''c1''" "[Delete ''a'', Upsert (hub_demo_file ''b'')]" rev]
    by (simp add: write_sizes_ok_def demo_rev_def hub_demo_file_def)
  ultimately show ?thesis by simp
qed

theorem reachable_history_linear_witness:
  "get_commit_log no_faults demo_db2 1 (Some 0) = Inr [demo_rev ''c1'' None]"
  using reachable_history_linear [OF demo_reach(2), of 1 "Some 0"] by (simp add: demo_db2_eq revisions_of_def demo_rev_def effective_limit_def)

end
