(* ===== verification/Hub_Tree.thy ===== *)
theory Hub_Tree
  imports Hub_Metadata "HOL-Library.Sublist"
begin

text \<open>
  The read services of the front end: \<^verbatim>\<open>src/hub/src/services/shared.rs\<close>, \<^verbatim>\<open>resolve.rs\<close> and
  \<^verbatim>\<open>tree.rs\<close>. A Rust string is the list of its UTF-8 bytes. Base64 is a crate and a parameter.
  Each call to the store has its own driver faults.

  The lemmas show that following the pagination cursors lists every child of a directory
  exactly once, that a cursor the server issues is one it accepts, and who can read what.
\<close>

section \<open>Access and revisions\<close>

definition can_access_repo :: "Repo \<Rightarrow> string \<Rightarrow> bool" where
  "can_access_repo repo username \<longleftrightarrow> \<not> rp_private repo \<or> rp_namespace repo = username"

definition can_write_repo :: "Repo \<Rightarrow> string \<Rightarrow> bool" where
  "can_write_repo repo username \<longleftrightarrow> rp_namespace repo = username"

fun metadata_error_message :: "MetadataError \<Rightarrow> string" where
  "metadata_error_message (RepoNotFound s) = ''Repository not found: '' @ s"
| "metadata_error_message (RepoAlreadyExists s) = ''Repository already exists: '' @ s"
| "metadata_error_message (RevisionNotFound s) = ''Revision not found: '' @ s"
| "metadata_error_message (FileNotFound s) = ''File not found: '' @ s"
| "metadata_error_message (DatabaseError e) = ''Database error''"
| "metadata_error_message (Corruption s) = ''Database corruption: '' @ s"
| "metadata_error_message (InvalidOperation s) = ''Invalid operation: '' @ s"
| "metadata_error_message (HeadConflict s) = ''Conflict: HEAD mismatch (expected parent '' @ [CHR 0x27] @ s @ [CHR 0x27] @ '')''"

datatype ResolveRevisionError = RevNotFound string | RevInternal string

definition resolve_revision_id :: "db_env \<Rightarrow> hub_db \<Rightarrow> int \<Rightarrow> string \<Rightarrow> ResolveRevisionError + string" where
  "resolve_revision_id D db rid revision =
     (if length revision \<ge> 8 \<and> list_all is_ascii_hexdigit revision then
        (case get_revision D db rid revision of
           Inr _ \<Rightarrow> Inr revision
         | Inl (RevisionNotFound _) \<Rightarrow> Inl (RevNotFound (''Revision not found: '' @ revision))
         | Inl e \<Rightarrow> Inl (RevInternal (metadata_error_message e)))
      else if revision = ''main'' then
        (case get_head D db rid of
           Inr (Some head) \<Rightarrow> Inr head
         | Inr None \<Rightarrow> Inl (RevNotFound ''No HEAD found for repo'')
         | Inl e \<Rightarrow> Inl (RevInternal (metadata_error_message e)))
      else Inl (RevNotFound (''Revision not found: '' @ revision @ '' (only 'main' branch or commit hashes are supported)'')))"

section \<open>Resolving a file\<close>

datatype ResolveServiceError = RsNotFound string | RsInternal string

record ResolveFileRequest =
  rq_username :: string
  rq_namespace :: string
  rq_repo_name :: string
  rq_repo_type :: RepoType
  rq_revision :: string
  rq_file_path :: string

definition rs_load_repo :: "db_env \<Rightarrow> hub_db \<Rightarrow> string \<Rightarrow> string \<Rightarrow> RepoType \<Rightarrow> ResolveServiceError + Repo" where
  "rs_load_repo D db ns nm ty =
     map_err (\<lambda>e. case e of RepoNotFound _ \<Rightarrow> RsNotFound (metadata_error_message e) | _ \<Rightarrow> RsInternal (metadata_error_message e))
       (get_repo D db ns nm ty)"

definition service_resolve_file ::
  "(nat \<Rightarrow> db_env) \<Rightarrow> hub_db \<Rightarrow> ResolveFileRequest \<Rightarrow> ResolveServiceError + (string \<times> FileEntry)" where
  "service_resolve_file D db request =
     rbind (rs_load_repo (D 0) db (rq_namespace request) (rq_repo_name request) (rq_repo_type request)) (\<lambda>repo.
     if \<not> can_access_repo repo (rq_username request) then Inl (RsNotFound ''Repository not found'')
     else
     rbind (map_err (\<lambda>e. case e of RevNotFound m \<Rightarrow> RsNotFound m | RevInternal m \<Rightarrow> RsInternal m)
              (resolve_revision_id (D 1) db (rp_id repo) (rq_revision request))) (\<lambda>commit_id.
     rbind (map_err (\<lambda>e. case e of FileNotFound _ \<Rightarrow> RsNotFound (metadata_error_message e) | _ \<Rightarrow> RsInternal (metadata_error_message e))
              (resolve_file (D 2) db (rp_id repo) commit_id (rq_file_path request))) (\<lambda>file_entry.
     Inr (commit_id, file_entry))))"

section \<open>Listing a tree\<close>

record base64 =
  b64_encode :: "string \<Rightarrow> string"
  b64_decode :: "string \<Rightarrow> string option"

definition base64_contract :: "base64 \<Rightarrow> bool" where
  "base64_contract B \<longleftrightarrow> (\<forall>s. b64_decode B (b64_encode B s) = Some s) \<and>
     (\<forall>s. length (b64_encode B s) = (4 * length s + 2) div 3)"

definition TREE_PAGE_SIZE :: nat where
  "TREE_PAGE_SIZE = 1000"

definition MAX_TREE_CURSOR_LENGTH :: nat where
  "MAX_TREE_CURSOR_LENGTH = 8 * 1024"

datatype TreeServiceError = TsNotFound string | TsValidation string | TsInternal string

datatype TreeListingEntryType = TFile | TDirectory

record TreeListingEntry =
  tl_entry_type :: TreeListingEntryType
  tl_oid :: "string option"
  tl_size :: u64
  tl_path :: string

record TreeListRequest =
  tr_username :: string
  tr_namespace :: string
  tr_repo_name :: string
  tr_repo_type :: RepoType
  tr_revision :: string
  tr_tree_path :: string
  tr_recursive :: bool
  tr_cursor :: "string option"

record TreeListingPage =
  tp_entries :: "TreeListingEntry list"
  tp_next_cursor :: "string option"
  tp_commit_id :: string

definition normalize_tree_path :: "string \<Rightarrow> string" where
  "normalize_tree_path path = trim_matches CHR ''/'' path"

definition strip_tree_prefix :: "string \<Rightarrow> string \<Rightarrow> string option" where
  "strip_tree_prefix path pre =
     (if pre = [] then Some path
      else if path = pre then Some []
      else strip_prefix (pre @ ''/'') path)"

definition join_tree_path :: "string \<Rightarrow> string \<Rightarrow> string" where
  "join_tree_path pre name = (if pre = [] then name else pre @ ''/'' @ name)"

definition encode_cursor :: "base64 \<Rightarrow> string \<Rightarrow> string" where
  "encode_cursor B path = b64_encode B path"

definition decode_cursor :: "base64 \<Rightarrow> string \<Rightarrow> TreeServiceError + string" where
  "decode_cursor B cursor =
     (if cursor = [] \<or> length cursor > MAX_TREE_CURSOR_LENGTH then Inl (TsValidation ''Invalid tree pagination cursor'')
      else
      rbind (ok_or (b64_decode B cursor) (TsValidation ''Invalid tree pagination cursor'')) (\<lambda>path.
      if \<not> utf8_valid path then Inl (TsValidation ''Invalid tree pagination cursor'')
      else if path = [] then Inl (TsValidation ''Invalid tree pagination cursor'')
      else Inr path))"

definition file_listing :: "FileEntry \<Rightarrow> string \<Rightarrow> TreeListingEntry" where
  "file_listing entry path =
     \<lparr>tl_entry_type = TFile, tl_oid = Some (fe_cas_hash entry), tl_size = fe_size entry, tl_path = path\<rparr>"

definition dir_listing :: "string \<Rightarrow> TreeListingEntry" where
  "dir_listing path = \<lparr>tl_entry_type = TDirectory, tl_oid = None, tl_size = 0, tl_path = path\<rparr>"

definition recursive_entries :: "FileEntry list \<Rightarrow> string \<Rightarrow> TreeListingEntry list" where
  "recursive_entries entries tree_path =
     List.map_filter (\<lambda>entry. case strip_tree_prefix (fe_path entry) tree_path of
         None \<Rightarrow> None
       | Some rel_path \<Rightarrow> if rel_path = [] then None else Some (file_listing entry rel_path)) entries"

fun non_recursive_loop :: "string \<Rightarrow> string option \<Rightarrow> FileEntry list \<Rightarrow> TreeListingEntry list" where
  "non_recursive_loop tree_path last_directory [] = []"
| "non_recursive_loop tree_path last_directory (entry # entries) =
     (case strip_tree_prefix (fe_path entry) tree_path of
        None \<Rightarrow> non_recursive_loop tree_path last_directory entries
      | Some rel_path \<Rightarrow>
          if rel_path = [] then non_recursive_loop tree_path last_directory entries
          else case split_once CHR ''/'' rel_path of
            Some (directory, _) \<Rightarrow>
              if last_directory \<noteq> Some directory
              then dir_listing (join_tree_path tree_path directory) # non_recursive_loop tree_path (Some directory) entries
              else non_recursive_loop tree_path last_directory entries
          | None \<Rightarrow> file_listing entry (fe_path entry) # non_recursive_loop tree_path last_directory entries)"

definition directory_of :: "string \<Rightarrow> string \<Rightarrow> string option" where
  "directory_of tree_path path =
     Option.bind (strip_tree_prefix path tree_path) (\<lambda>rel. map_option fst (split_once CHR ''/'' rel))"

definition non_recursive_entries :: "FileEntry list \<Rightarrow> string \<Rightarrow> string option \<Rightarrow> TreeListingEntry list" where
  "non_recursive_entries entries tree_path after_path =
     non_recursive_loop tree_path (Option.bind after_path (directory_of tree_path)) entries"

definition ts_load_repo :: "db_env \<Rightarrow> hub_db \<Rightarrow> string \<Rightarrow> string \<Rightarrow> RepoType \<Rightarrow> TreeServiceError + Repo" where
  "ts_load_repo D db ns nm ty =
     map_err (\<lambda>e. case e of RepoNotFound _ \<Rightarrow> TsNotFound (metadata_error_message e) | _ \<Rightarrow> TsInternal (metadata_error_message e))
       (get_repo D db ns nm ty)"

definition decode_request_cursor :: "base64 \<Rightarrow> string option \<Rightarrow> TreeServiceError + string option" where
  "decode_request_cursor B cursor = (case cursor of None \<Rightarrow> Inr None | Some c \<Rightarrow> rbind (decode_cursor B c) (\<lambda>p. Inr (Some p)))"

definition listing_of :: "bool \<Rightarrow> FileEntry list \<Rightarrow> string \<Rightarrow> string option \<Rightarrow> TreeListingEntry list" where
  "listing_of recursive entries tree_path after_path =
     sort_key tl_path
       (if recursive then recursive_entries entries tree_path else non_recursive_entries entries tree_path after_path)"

definition list_tree ::
  "base64 \<Rightarrow> (nat \<Rightarrow> db_env) \<Rightarrow> hub_db \<Rightarrow> TreeListRequest \<Rightarrow> TreeServiceError + TreeListingPage" where
  "list_tree B D db request =
     (let tree_path = normalize_tree_path (tr_tree_path request) in
      rbind (decode_request_cursor B (tr_cursor request)) (\<lambda>after_path.
      rbind (ts_load_repo (D 0) db (tr_namespace request) (tr_repo_name request) (tr_repo_type request)) (\<lambda>repo.
      if \<not> can_access_repo repo (tr_username request) then Inl (TsNotFound ''Repository not found'')
      else
      rbind (map_err (\<lambda>e. case e of RevNotFound m \<Rightarrow> TsNotFound m | RevInternal m \<Rightarrow> TsInternal m)
               (resolve_revision_id (D 1) db (rp_id repo) (tr_revision request))) (\<lambda>commit_id.
      rbind (map_err (\<lambda>e. TsInternal (metadata_error_message e))
               (get_file_tree_prefix_page (D 2) db (rp_id repo) commit_id tree_path after_path TREE_PAGE_SIZE)) (\<lambda>page.
      Inr \<lparr>tp_entries = listing_of (tr_recursive request) (fp_entries page) tree_path after_path,
           tp_next_cursor = map_option (encode_cursor B) (fp_next_after_path page),
           tp_commit_id = commit_id\<rparr>)))))"

section \<open>Prefix patterns\<close>

definition escape_char :: "char \<Rightarrow> string" where
  "escape_char c = (if c = BSLASH \<or> c = CHR ''%'' \<or> c = CHR ''_'' then [BSLASH, c] else [c])"

lemma escape_like_chars: "escape_like_pattern s = concat (map escape_char s)"
proof (induction s)
  case (Cons c s)
  then show ?case by (simp add: escape_like_pattern_def replace_char_def escape_char_def BSLASH_def)
qed (simp add: escape_like_pattern_def replace_char_def)

lemma like_escaped_char: "like (escape_char p @ v) (c # s) \<longleftrightarrow> ascii_lower p = ascii_lower c \<and> like v s"
  by (simp add: escape_char_def BSLASH_def)

lemma like_escaped_char_Nil: "\<not> like (escape_char p @ v) []"
  by (simp add: escape_char_def BSLASH_def)

lemma like_percent: "like ''%'' s"
  by (induction s) simp_all

declare like.simps [simp del]

text \<open>What the pattern of a prefix matches: paths below it, up to the case of ASCII letters in the prefix.\<close>

lemma like_prefix_iff:
  "like (escape_like_pattern u @ ''/%'') s \<longleftrightarrow>
     (\<exists>w r. s = w @ CHR ''/'' # r \<and> map ascii_lower w = map ascii_lower u)"
proof (induction u arbitrary: s)
  case Nil
  have "ascii_lower c = ascii_lower CHR ''/'' \<longleftrightarrow> c = CHR ''/''" for c
  proof
    assume "ascii_lower c = ascii_lower CHR ''/''"
    then have "ascii_lower c = CHR ''/''" by (simp add: ascii_lower_def)
    moreover have "take_bit 8 (n + 32) = n + 32" if "n \<le> 90" for n :: nat using that by (simp add: take_bit_nat_eq_self)
    ultimately show "c = CHR ''/''" by (auto simp: ascii_lower_def Let_def char_of_eq_iff split: if_splits)
  qed (simp add: ascii_lower_def)
  note slash = this
  have eq: "''/%'' = escape_char CHR ''/'' @ ''%''" by (simp add: escape_char_def BSLASH_def)
  have "like ''/%'' s \<longleftrightarrow> (\<exists>r. s = CHR ''/'' # r)"
  proof (cases s)
    case (Cons c r)
    with like_escaped_char [of "CHR ''/''" "''%''" c r, folded eq] like_percent slash [of c] show ?thesis by auto
  qed (use like_escaped_char_Nil [of "CHR ''/''" "''%''", folded eq] in simp)
  then show ?case by (simp add: escape_like_chars)
next
  case (Cons c u)
  have "like (escape_like_pattern (c # u) @ ''/%'') s \<longleftrightarrow> (\<exists>x s'. s = x # s' \<and> ascii_lower c = ascii_lower x \<and> like (escape_like_pattern u @ ''/%'') s')"
    by (cases s) (simp_all add: escape_like_chars like_escaped_char like_escaped_char_Nil)
  also have "\<dots> \<longleftrightarrow> (\<exists>w r. s = w @ CHR ''/'' # r \<and> map ascii_lower w = map ascii_lower (c # u))"
  proof
    assume "\<exists>x s'. s = x # s' \<and> ascii_lower c = ascii_lower x \<and> like (escape_like_pattern u @ ''/%'') s'"
    then obtain x w r where "s = (x # w) @ CHR ''/'' # r" "map ascii_lower (x # w) = map ascii_lower (c # u)"
      unfolding Cons.IH by auto
    then show "\<exists>w r. s = w @ CHR ''/'' # r \<and> map ascii_lower w = map ascii_lower (c # u)" by blast
  next
    assume "\<exists>w r. s = w @ CHR ''/'' # r \<and> map ascii_lower w = map ascii_lower (c # u)"
    then obtain x w r where "s = (x # w) @ CHR ''/'' # r" "map ascii_lower (x # w) = map ascii_lower (c # u)"
      by (metis list.simps(9) map_eq_Cons_conv)
    then show "\<exists>x s'. s = x # s' \<and> ascii_lower c = ascii_lower x \<and> like (escape_like_pattern u @ ''/%'') s'"
      unfolding Cons.IH by auto
  qed
  finally show ?case .
qed

lemma below_prefix_child: "below_prefix tp (tp @ CHR ''/'' # rel)"
  by (auto simp: below_prefix_def like_prefix_iff)

section \<open>Paths of a directory are contiguous\<close>

lemma lex_between: "u @ p \<le> q \<Longrightarrow> q \<le> u @ r \<Longrightarrow> \<exists>s :: string. q = u @ s"
proof (induction u arbitrary: q)
  case (Cons c u)
  then show ?case by (cases q) (auto simp: less_le_not_le)
qed simp

definition tree_base :: "string \<Rightarrow> string" where
  "tree_base tp = (if tp = [] then [] else tp @ ''/'')"

lemma strip_tree_prefix_iff:
  "strip_tree_prefix path tp = Some rel \<longleftrightarrow> path = tree_base tp @ rel \<or> (tp \<noteq> [] \<and> path = tp \<and> rel = [])"
proof (cases "tp = [] \<or> path = tp")
  case False
  have "take (length (tp @ ''/'')) path = tp @ ''/'' \<and> drop (length (tp @ ''/'')) path = rel \<longleftrightarrow> path = (tp @ ''/'') @ rel"
    by (metis append_eq_conv_conj append_take_drop_id)
  with False show ?thesis by (auto simp: strip_tree_prefix_def strip_prefix_def tree_base_def)
qed (auto simp: strip_tree_prefix_def tree_base_def)

lemma directory_of_iff: "directory_of tp path = Some d \<longleftrightarrow> CHR ''/'' \<notin> set d \<and> (\<exists>r. path = tree_base tp @ d @ CHR ''/'' # r)"
proof -
  have "directory_of tp path = Some d \<longleftrightarrow> (\<exists>rel r. strip_tree_prefix path tp = Some rel \<and> split_once CHR ''/'' rel = Some (d, r))"
    by (auto simp: directory_of_def bind_eq_Some_conv)
  also have "\<dots> \<longleftrightarrow> CHR ''/'' \<notin> set d \<and> (\<exists>r. path = tree_base tp @ d @ CHR ''/'' # r)"
    unfolding strip_tree_prefix_iff split_once_iff by auto
  finally show ?thesis .
qed

lemma directory_contiguous:
  assumes "p \<le> q" "q \<le> r" "directory_of tp p = Some d" "directory_of tp r = Some d"
  shows "directory_of tp q = Some d"
proof -
  obtain x y where "p = (tree_base tp @ d @ ''/'') @ x" "r = (tree_base tp @ d @ ''/'') @ y" "CHR ''/'' \<notin> set d"
    using assms(3,4) by (auto simp: directory_of_iff)
  with lex_between [of "tree_base tp @ d @ ''/''" x q y] assms(1,2) show ?thesis by (auto simp: directory_of_iff)
qed

section \<open>The listing without pages\<close>

text \<open>What one row adds to the listing, given the path before it.\<close>

definition emit :: "string \<Rightarrow> string option \<Rightarrow> FileEntry \<Rightarrow> TreeListingEntry list" where
  "emit tp before e =
     (case directory_of tp (fe_path e) of
        Some d \<Rightarrow> if Option.bind before (directory_of tp) = Some d then [] else [dir_listing (join_tree_path tp d)]
      | None \<Rightarrow>
          (case strip_tree_prefix (fe_path e) tp of
             None \<Rightarrow> []
           | Some rel \<Rightarrow> if rel = [] then [] else [file_listing e (fe_path e)]))"

fun emits :: "string \<Rightarrow> string option \<Rightarrow> FileEntry list \<Rightarrow> TreeListingEntry list" where
  "emits tp before [] = []"
| "emits tp before (e # es) = emit tp before e @ emits tp (Some (fe_path e)) es"

abbreviation ascending :: "string option \<Rightarrow> FileEntry list \<Rightarrow> bool" where
  "ascending before es \<equiv> sorted_wrt (<) (case before of None \<Rightarrow> map fe_path es | Some p \<Rightarrow> p # map fe_path es)"

lemma ascending_Cons: "ascending before (e # es) \<Longrightarrow> ascending (Some (fe_path e)) es"
  by (cases before) auto

lemma emits_append: "emits tp before (xs @ ys) = emits tp before xs @ emits tp (if xs = [] then before else Some (fe_path (last xs))) ys"
  by (induction xs arbitrary: before) auto

text \<open>The state that the loop keeps, compared with the directory of the path before.\<close>

definition loop_state :: "string \<Rightarrow> string option \<Rightarrow> string option \<Rightarrow> FileEntry list \<Rightarrow> bool" where
  "loop_state tp last_directory before es \<longleftrightarrow>
     (\<forall>d. Option.bind before (directory_of tp) = Some d \<longrightarrow> last_directory = Some d) \<and>
     (\<forall>d. last_directory = Some d \<and> Option.bind before (directory_of tp) \<noteq> Some d \<longrightarrow>
        (\<forall>e\<in>set es. directory_of tp (fe_path e) \<noteq> Some d))"

lemma left_directory:
  assumes "ascending before (e # es)" "Option.bind before (directory_of tp) = Some d" "directory_of tp (fe_path e) \<noteq> Some d"
  shows "\<forall>e'\<in>set es. directory_of tp (fe_path e') \<noteq> Some d"
proof
  fix e' assume "e' \<in> set es"
  then obtain p where "before = Some p" "p \<le> fe_path e" "fe_path e \<le> fe_path e'" "directory_of tp p = Some d"
    using assms(1,2) by (cases before) auto
  with assms(3) directory_contiguous show "directory_of tp (fe_path e') \<noteq> Some d" by blast
qed

lemma loop_emits:
  "ascending before es \<Longrightarrow> loop_state tp ld before es \<Longrightarrow> non_recursive_loop tp ld es = emits tp before es"
proof (induction es arbitrary: ld before)
  case (Cons e es)
  note asc = ascending_Cons [OF Cons.prems(1)]
  show ?case
  proof (cases "directory_of tp (fe_path e)")
    case (Some d)
    then obtain rel r where rel: "strip_tree_prefix (fe_path e) tp = Some rel" "split_once CHR ''/'' rel = Some (d, r)"
      by (auto simp: directory_of_def bind_eq_Some_conv)
    then have "rel \<noteq> []" by (auto simp: split_once_def)
    moreover have "ld = Some d \<longleftrightarrow> Option.bind before (directory_of tp) = Some d"
      using Cons.prems(2) Some by (auto simp: loop_state_def)
    moreover have "loop_state tp (Some d) (Some (fe_path e)) es" using Some by (simp add: loop_state_def)
    ultimately show ?thesis using rel Some Cons.IH [OF asc] by (auto simp: emit_def)
  next
    case None
    have "loop_state tp ld (Some (fe_path e)) es"
      using Cons.prems(2) None left_directory [OF Cons.prems(1)] by (fastforce simp: loop_state_def)
    from Cons.IH [OF asc this] show ?thesis
      using None by (auto simp: emit_def directory_of_def split: option.splits)
  qed
qed simp

lemma non_recursive_emits: "ascending before es \<Longrightarrow> non_recursive_entries es tp before = emits tp before es"
  unfolding non_recursive_entries_def by (rule loop_emits) (auto simp: loop_state_def)

section \<open>What is listed\<close>

definition is_child :: "string \<Rightarrow> string \<Rightarrow> bool" where
  "is_child tp path \<longleftrightarrow> (\<exists>rel. path = tree_base tp @ rel \<and> rel \<noteq> [] \<and> CHR ''/'' \<notin> set rel)"

lemma is_child_iff:
  "is_child tp path \<longleftrightarrow> directory_of tp path = None \<and> (\<exists>rel. strip_tree_prefix path tp = Some rel \<and> rel \<noteq> [])"
proof -
  have "directory_of tp (tree_base tp @ rel) = None \<longleftrightarrow> CHR ''/'' \<notin> set rel" for rel
  proof -
    have "strip_tree_prefix (tree_base tp @ rel) tp = Some rel" by (simp add: strip_tree_prefix_iff)
    then show ?thesis by (simp add: directory_of_def split_once_def)
  qed
  then show ?thesis by (auto simp: is_child_def strip_tree_prefix_iff)
qed

lemma join_tree_base: "join_tree_path tp d = tree_base tp @ d"
  by (simp add: join_tree_path_def tree_base_def)

definition listed_files :: "string \<Rightarrow> FileEntry list \<Rightarrow> TreeListingEntry set" where
  "listed_files tp es = {file_listing e (fe_path e) | e. e \<in> set es \<and> is_child tp (fe_path e)}"

definition listed_dirs :: "string \<Rightarrow> FileEntry list \<Rightarrow> string set" where
  "listed_dirs tp es = {d. \<exists>e\<in>set es. directory_of tp (fe_path e) = Some d}"

lemma emit_cases:
  obtains (dir) d where "directory_of tp (fe_path e) = Some d" "\<not> is_child tp (fe_path e)"
      "\<And>before. emit tp before e = (if Option.bind before (directory_of tp) = Some d then [] else [dir_listing (tree_base tp @ d)])"
  | (child) "directory_of tp (fe_path e) = None" "is_child tp (fe_path e)" "\<And>before. emit tp before e = [file_listing e (fe_path e)]"
  | (skip) "directory_of tp (fe_path e) = None" "\<not> is_child tp (fe_path e)" "\<And>before. emit tp before e = []"
proof (cases "directory_of tp (fe_path e)")
  case None
  show ?thesis
  proof (cases "\<exists>rel. strip_tree_prefix (fe_path e) tp = Some rel \<and> rel \<noteq> []")
    case True
    with None show ?thesis by (intro child) (auto simp: emit_def is_child_iff)
  next
    case False
    with None show ?thesis by (intro skip) (auto simp: emit_def is_child_iff split: option.splits)
  qed
next
  case (Some d)
  then show ?thesis using dir by (simp add: emit_def is_child_iff join_tree_base)
qed

lemma emits_set:
  "ascending before es \<Longrightarrow> set (emits tp before es) = listed_files tp es \<union>
     (\<lambda>d. dir_listing (tree_base tp @ d)) ` {d \<in> listed_dirs tp es. Option.bind before (directory_of tp) \<noteq> Some d}"
proof (induction es arbitrary: before)
  case (Cons e es)
  note IH = Cons.IH [OF ascending_Cons [OF Cons.prems]] and left = left_directory [OF Cons.prems]
  show ?case
  proof (cases e tp rule: emit_cases)
    case (dir d)
    have "listed_files tp (e # es) = listed_files tp es" using dir(2) by (auto simp: listed_files_def)
    moreover have "{d' \<in> listed_dirs tp (e # es). Option.bind before (directory_of tp) \<noteq> Some d'} =
        (if Option.bind before (directory_of tp) = Some d then {} else {d}) \<union> {d' \<in> listed_dirs tp es. d' \<noteq> d}"
      using dir(1) left by (auto simp: listed_dirs_def)
    ultimately show ?thesis using IH dir(1,3) by auto
  next
    case child
    have "listed_files tp (e # es) = insert (file_listing e (fe_path e)) (listed_files tp es)"
      using child(2) by (auto simp: listed_files_def)
    moreover have "{d' \<in> listed_dirs tp (e # es). Option.bind before (directory_of tp) \<noteq> Some d'} = listed_dirs tp es"
      using child(1) left by (auto simp: listed_dirs_def)
    ultimately show ?thesis using IH child(1,3) by simp
  next
    case skip
    have "listed_files tp (e # es) = listed_files tp es" using skip(2) by (auto simp: listed_files_def)
    moreover have "{d' \<in> listed_dirs tp (e # es). Option.bind before (directory_of tp) \<noteq> Some d'} = listed_dirs tp es"
      using skip(1) left by (auto simp: listed_dirs_def)
    ultimately show ?thesis using IH skip(1,3) by simp
  qed
qed (simp add: listed_files_def listed_dirs_def)

lemma listing_neq: "dir_listing p \<noteq> file_listing e q"
  by (simp add: dir_listing_def file_listing_def)

lemma emits_distinct: "ascending before es \<Longrightarrow> distinct (emits tp before es)"
proof (induction es arbitrary: before)
  case (Cons e es)
  note asc = ascending_Cons [OF Cons.prems] and set = emits_set [OF ascending_Cons [OF Cons.prems], of tp]
  show ?case
  proof (cases e tp rule: emit_cases)
    case (dir d)
    have "dir_listing (tree_base tp @ d) \<notin> set (emits tp (Some (fe_path e)) es)"
      unfolding set using dir(1) by (auto simp: listed_files_def listing_neq) (auto simp: dir_listing_def)
    with Cons.IH [OF asc] dir(3) show ?thesis by simp
  next
    case child
    have "fe_path e \<notin> fe_path ` set es" using asc by auto
    then have "file_listing e (fe_path e) \<notin> set (emits tp (Some (fe_path e)) es)"
      unfolding set using listing_neq [symmetric] by (auto simp: listed_files_def) (auto simp: file_listing_def)
    with Cons.IH [OF asc] child(3) show ?thesis by simp
  next
    case skip
    with Cons.IH [OF asc] show ?thesis by simp
  qed
qed simp


section \<open>Pages\<close>

definition tree_rows :: "hub_db \<Rightarrow> int \<Rightarrow> string \<Rightarrow> string \<Rightarrow> FileEntry list" where
  "tree_rows db rid cid tp = map entry_of_row (select_tree (below_prefix tp) db rid cid)"

lemma tree_rows_ascending:
  assumes "rows_ok db"
  shows "sorted_wrt (<) (map fe_path (tree_rows db rid cid tp))"
  using select_tree_sorted [OF assms, of "below_prefix tp" rid cid]
  by (simp add: tree_rows_def o_def strict_sorted_iff)

lemma select_tree_and: "select_tree (\<lambda>p. P p \<and> Q p) db rid cid = filter (\<lambda>f. Q (ft_path f)) (select_tree P db rid cid)"
  by (simp add: select_tree_def filter_sort conj_assoc conj_comms cong: conj_cong)

lemma trim_matches_idem: "trim_matches c (trim_matches c s) = trim_matches c s"
proof -
  have nohd: "dropWhile (\<lambda>x. x = c) (rev (dropWhile (\<lambda>x. x = c) (rev t))) = rev (dropWhile (\<lambda>x. x = c) (rev t))"
    if "t = [] \<or> hd t \<noteq> c" for t
  proof (cases "dropWhile (\<lambda>x. x = c) (rev t)")
    case (Cons a u)
    have "last (dropWhile (\<lambda>x. x = c) (rev t)) = hd t"
      using Cons by (metis last_appendR last_rev list.distinct(1) takeWhile_dropWhile_id)
    moreover have "t \<noteq> []" using Cons by auto
    ultimately have "hd (rev (dropWhile (\<lambda>x. x = c) (rev t))) \<noteq> c" using that Cons by (metis hd_rev)
    then show ?thesis using Cons by (cases "rev (dropWhile (\<lambda>x. x = c) (rev t))") auto
  next
    case Nil
    then show ?thesis by (simp only: dropWhile.simps rev.simps)
  qed
  have "dropWhile (\<lambda>x. x = c) s = [] \<or> hd (dropWhile (\<lambda>x. x = c) s) \<noteq> c" using hd_dropWhile by blast
  from nohd [OF this] show ?thesis by (simp add: trim_matches_def dropWhile_idem)
qed

definition cursor_at :: "FileEntry list \<Rightarrow> nat \<Rightarrow> string option" where
  "cursor_at es n = (if n = 0 then None else Some (fe_path (es ! (n - 1))))"

text \<open>Reading after the path of a row gives the rows that follow it.\<close>

lemma rows_after_cursor:
  assumes "sorted_wrt (<) (map fe_path es)" "n \<le> length es"
  shows "filter (\<lambda>e. after (cursor_at es n) (fe_path e)) es = drop n es"
proof (cases n)
  case (Suc m)
  let ?p = "fe_path (es ! m)"
  have "sorted_wrt (\<lambda>x y. fe_path x < fe_path y) (take n es @ drop n es)" using assms(1) by (simp add: sorted_wrt_map)
  moreover have split: "take n es = take m es @ [es ! m]" using assms(2) Suc by (simp add: take_Suc_conv_app_nth)
  ultimately have "\<forall>e\<in>set (take n es). \<not> ?p < fe_path e" "\<forall>e\<in>set (drop n es). ?p < fe_path e"
    by (auto simp: sorted_wrt_append)
  then have "filter (\<lambda>e. ?p < fe_path e) (take n es @ drop n es) = drop n es" by (simp only: filter_append) simp
  then show ?thesis using Suc by (simp add: cursor_at_def after_def)
qed (simp add: cursor_at_def after_def)

lemma prefix_page_eq:
  assumes rows: "rows_ok db" and live: "\<And>k. \<not> db_fault D k" and tp: "trim_matches CHR ''/'' tp = tp"
    and n: "n \<le> length (tree_rows db rid cid tp)" and lim: "lim + 1 < 2 ^ 63"
  shows "get_file_tree_prefix_page D db rid cid tp (cursor_at (tree_rows db rid cid tp) n) lim =
    Inr (page_of (take (lim + 1) (drop n (tree_rows db rid cid tp))) lim)"
proof -
  let ?c = "cursor_at (tree_rows db rid cid tp) n"
  have "map entry_of_row (select_tree (\<lambda>p. below_prefix tp p \<and> after ?c p) db rid cid) =
      filter (\<lambda>e. after ?c (fe_path e)) (tree_rows db rid cid tp)"
    unfolding select_tree_and tree_rows_def by (simp add: filter_map o_def)
  also have "\<dots> = drop n (tree_rows db rid cid tp)" by (rule rows_after_cursor [OF tree_rows_ascending [OF rows] n])
  finally have eq: "map entry_of_row (select_tree (\<lambda>p. below_prefix tp p \<and> after ?c p) db rid cid) = drop n (tree_rows db rid cid tp)" .
  have "collect_results row_to_file_entry (take (lim + 1) (select_tree (\<lambda>p. below_prefix tp p \<and> after ?c p) db rid cid)) =
      Inr (take (lim + 1) (drop n (tree_rows db rid cid tp)))"
    unfolding eq [symmetric] take_map by (rule select_tree_collect [OF rows set_take_subset])
  then show ?thesis using live lim by (simp add: get_file_tree_prefix_page_def query_def tp del: take_append)
qed


section \<open>Following the pages\<close>

lemma cursor_round_trip:
  assumes "base64_contract B" "p \<noteq> []" "length p \<le> 6144" "utf8_valid p"
  shows "decode_cursor B (encode_cursor B p) = Inr p"
proof -
  have "length (b64_encode B p) = (4 * length p + 2) div 3" "b64_decode B (b64_encode B p) = Some p"
    using assms(1) by (simp_all add: base64_contract_def)
  moreover have "1 \<le> length p" using assms(2) by (cases p) auto
  then have "1 \<le> (4 * length p + 2) div 3" "(4 * length p + 2) div 3 \<le> 8192" using assms(3) by presburger+
  ultimately show ?thesis using assms(2,4)
    by (auto simp: decode_cursor_def encode_cursor_def MAX_TREE_CURSOR_LENGTH_def)
qed

lemma load_repo_eq:
  assumes "get_repo D db ns nm ty = Inr repo"
  shows "ts_load_repo D db ns nm ty = Inr repo"
  using assms by (simp add: ts_load_repo_def)

definition is_commit_id :: "string \<Rightarrow> bool" where
  "is_commit_id cid \<longleftrightarrow> length cid \<ge> 8 \<and> list_all is_ascii_hexdigit cid"

lemma resolve_commit_id:
  assumes "get_revision D db rid cid = Inr rv" "is_commit_id cid"
  shows "resolve_revision_id D db rid cid = Inr cid"
  using assms by (simp add: resolve_revision_id_def is_commit_id_def)

definition page_cursor :: "base64 \<Rightarrow> FileEntry list \<Rightarrow> nat \<Rightarrow> string option" where
  "page_cursor B es n = map_option (encode_cursor B) (cursor_at es n)"

definition good_path :: "string \<Rightarrow> bool" where
  "good_path p \<longleftrightarrow> p \<noteq> [] \<and> length p \<le> 6144 \<and> utf8_valid p"

lemma decode_page_cursor:
  assumes "base64_contract B" "\<forall>e\<in>set es. good_path (fe_path e)" "n \<le> length es"
  shows "decode_request_cursor B (page_cursor B es n) = Inr (cursor_at es n)"
proof (cases n)
  case (Suc m)
  with assms(2,3) have "good_path (fe_path (es ! m))" by simp
  with cursor_round_trip [OF assms(1)] Suc show ?thesis
    by (simp add: decode_request_cursor_def page_cursor_def cursor_at_def good_path_def)
qed (simp add: decode_request_cursor_def page_cursor_def cursor_at_def)

lemma page_of_slice:
  fixes lim :: nat
  assumes "0 < lim" "n \<le> length es"
  shows "page_of (take (lim + 1) (drop n es)) lim =
    \<lparr>fp_entries = take lim (drop n es),
     fp_next_after_path = (if n + lim < length es then cursor_at es (n + lim) else None)\<rparr>"
proof -
  have "last (take lim (drop n es)) = es ! (n + lim - 1)" if "n + lim < length es"
    using that assms(1) by (subst last_conv_nth) auto
  then show ?thesis using assms by (auto simp: page_of_def cursor_at_def Let_def min_def)
qed

text \<open>The page of the listing that starts at row \<open>n\<close>.\<close>

lemma list_tree_page:
  assumes B: "base64_contract B" and rows: "rows_ok db" and live: "\<And>j k. \<not> db_fault (D j) k"
    and repo: "get_repo (D 0) db (tr_namespace request) (tr_repo_name request) (tr_repo_type request) = Inr repo"
    and access: "can_access_repo repo (tr_username request)"
    and revision: "resolve_revision_id (D 1) db (rp_id repo) (tr_revision request) = Inr cid"
    and tp: "tp = normalize_tree_path (tr_tree_path request)"
    and es: "es = tree_rows db (rp_id repo) cid tp" "\<forall>e\<in>set es. good_path (fe_path e)"
    and n: "n \<le> length es" and cursor: "tr_cursor request = page_cursor B es n"
  shows "list_tree B D db request = Inr
    \<lparr>tp_entries = listing_of (tr_recursive request) (take TREE_PAGE_SIZE (drop n es)) tp (cursor_at es n),
     tp_next_cursor = (if n + TREE_PAGE_SIZE < length es then page_cursor B es (n + TREE_PAGE_SIZE) else None),
     tp_commit_id = cid\<rparr>"
proof -
  have "trim_matches CHR ''/'' tp = tp" by (simp add: tp normalize_tree_path_def trim_matches_idem)
  then have "get_file_tree_prefix_page (D 2) db (rp_id repo) cid tp (cursor_at es n) TREE_PAGE_SIZE =
      Inr (page_of (take (TREE_PAGE_SIZE + 1) (drop n es)) TREE_PAGE_SIZE)"
    using prefix_page_eq [OF rows live, of tp n "rp_id repo" cid TREE_PAGE_SIZE] n unfolding es(1) by (simp add: TREE_PAGE_SIZE_def)
  moreover have "page_of (take (TREE_PAGE_SIZE + 1) (drop n es)) TREE_PAGE_SIZE =
    \<lparr>fp_entries = take TREE_PAGE_SIZE (drop n es),
     fp_next_after_path = (if n + TREE_PAGE_SIZE < length es then cursor_at es (n + TREE_PAGE_SIZE) else None)\<rparr>"
    by (rule page_of_slice [OF _ n]) (simp add: TREE_PAGE_SIZE_def)
  ultimately show ?thesis
    using decode_page_cursor [OF B es(2) n] load_repo_eq [OF repo] access revision
    by (simp add: list_tree_def Let_def cursor tp [symmetric] page_cursor_def)
qed


definition whole_listing :: "bool \<Rightarrow> string \<Rightarrow> string option \<Rightarrow> FileEntry list \<Rightarrow> TreeListingEntry list" where
  "whole_listing recursive tp before es = (if recursive then recursive_entries es tp else emits tp before es)"

lemma ascending_drop:
  assumes "sorted_wrt (<) (map fe_path es)" "n \<le> length es"
  shows "ascending (cursor_at es n) (drop n es)"
proof (cases n)
  case (Suc m)
  then have "es ! m # drop n es = drop m es" using assms(2) by (simp add: Cons_nth_drop_Suc)
  then have "fe_path (es ! m) # map fe_path (drop n es) = drop m (map fe_path es)" by (metis drop_map list.simps(9))
  then show ?thesis using Suc sorted_wrt_drop [OF assms(1), of m] by (simp add: cursor_at_def)
qed (use assms in \<open>simp add: cursor_at_def\<close>)

lemma ascending_take: "ascending before es \<Longrightarrow> ascending before (take k es)"
proof (cases before)
  case (Some p)
  assume "ascending before es"
  with Some have "sorted_wrt (<) (take (Suc k) (p # map fe_path es))" by (intro sorted_wrt_take) simp
  then show ?thesis by (simp add: Some take_map)
qed (simp add: sorted_wrt_take flip: take_map)

lemma listing_page:
  assumes "sorted_wrt (<) (map fe_path es)" "n \<le> length es"
  shows "mset (listing_of recursive (take k (drop n es)) tp (cursor_at es n)) =
    mset (whole_listing recursive tp (cursor_at es n) (take k (drop n es)))"
  using non_recursive_emits [OF ascending_take [OF ascending_drop [OF assms]]]
  by (simp add: listing_of_def whole_listing_def)

lemma whole_listing_step:
  assumes "n + k < length es" "0 < k"
  shows "whole_listing recursive tp (cursor_at es n) (drop n es) =
    whole_listing recursive tp (cursor_at es n) (take k (drop n es)) @ whole_listing recursive tp (cursor_at es (n + k)) (drop (n + k) es)"
proof -
  have split: "drop n es = take k (drop n es) @ drop (n + k) es" by (metis add.commute append_take_drop_id drop_drop)
  have "take k (drop n es) \<noteq> []" "last (take k (drop n es)) = es ! (n + k - 1)"
    using assms by (auto simp: last_conv_nth)
  with assms(2) have "cursor_at es (n + k) = (if take k (drop n es) = [] then cursor_at es n else Some (fe_path (last (take k (drop n es)))))"
    by (simp add: cursor_at_def)
  with emits_append [of tp "cursor_at es n" "take k (drop n es)" "drop (n + k) es"] split show ?thesis
    by (auto simp: whole_listing_def recursive_entries_def map_filter_def simp flip: filter_append map_append)
qed

text \<open>
  A client that follows the cursors. The link to the next page names the commit of the page
  it is on. Page \<open>k\<close> reads the state \<open>dbs k\<close>: other requests can run in between.
\<close>

fun follow_pages ::
  "base64 \<Rightarrow> (nat \<Rightarrow> nat \<Rightarrow> db_env) \<Rightarrow> (nat \<Rightarrow> hub_db) \<Rightarrow> TreeListRequest \<Rightarrow> nat \<Rightarrow> nat
     \<Rightarrow> (TreeServiceError + TreeListingEntry list) option" where
  "follow_pages B D dbs request k 0 = None"
| "follow_pages B D dbs request k (Suc fuel) =
     (case list_tree B (D k) (dbs k) request of
        Inl e \<Rightarrow> Some (Inl e)
      | Inr page \<Rightarrow>
          (case tp_next_cursor page of
             None \<Rightarrow> Some (Inr (tp_entries page))
           | Some c \<Rightarrow>
               map_option (map_sum id ((@) (tp_entries page)))
                 (follow_pages B D dbs (request\<lparr>tr_revision := tp_commit_id page, tr_cursor := Some c\<rparr>) (Suc k) fuel)))"

text \<open>The states that the pages of one commit are read from.\<close>

definition serves ::
  "(nat \<Rightarrow> nat \<Rightarrow> db_env) \<Rightarrow> (nat \<Rightarrow> hub_db) \<Rightarrow> TreeListRequest \<Rightarrow> Repo \<Rightarrow> string \<Rightarrow> (string \<rightharpoonup> int \<times> string \<times> int) \<Rightarrow> bool" where
  "serves D dbs request repo cid S \<longleftrightarrow>
     (\<forall>k. rows_ok (dbs k) \<and> (\<forall>i j. \<not> db_fault (D k i) j) \<and>
        get_repo (D k 0) (dbs k) (tr_namespace request) (tr_repo_name request) (tr_repo_type request) = Inr repo \<and>
        (\<exists>rv. get_revision (D k 1) (dbs k) (rp_id repo) cid = Inr rv) \<and> snapshot (dbs k) (rp_id repo) cid = S)"

lemma select_tree_snapshot:
  assumes "rows_ok db" "rows_ok db'" "snapshot db rid cid = snapshot db' rid cid"
  shows "select_tree P db rid cid = select_tree P db' rid cid"
proof -
  have row: "f \<in> set (select_tree P x rid cid) \<longleftrightarrow> P (ft_path f) \<and> ft_repo_id f = rid \<and> ft_commit_id f = cid \<and> snapshot x rid cid (ft_path f) = Some (file_payload f)"
    if "rows_ok x" for x f
  proof -
    have dk: "distinct (map fst (map (\<lambda>f. (file_key f, file_payload f)) (db_file_tree x)))" using that by (simp add: rows_ok_def o_def)
    have inj: "f = g" if "file_key f = file_key g" "file_payload f = file_payload g" for g
      using that by (simp add: file_key_def file_payload_def)
    show ?thesis unfolding snapshot_def file_map_def map_of_eq_Some_iff [OF dk] select_tree_rows
      by (auto simp: file_key_def image_iff intro: inj) (metis file_key_def inj)
  qed
  show ?thesis
  proof (rule map_sorted_distinct_set_unique [of ft_path])
    show s: "set (select_tree P db rid cid) = set (select_tree P db' rid cid)" using row assms by (auto simp: set_eq_iff)
    show "inj_on ft_path (set (select_tree P db rid cid) \<union> set (select_tree P db' rid cid))"
      using select_tree_sorted(2) [OF assms(1)] unfolding s [symmetric] by (simp add: distinct_map)
  qed (use select_tree_sorted assms in auto)
qed


text \<open>What other requests do between two pages: they create repositories and commit.\<close>

inductive hub_write :: "hub_db \<Rightarrow> hub_db \<Rightarrow> bool" where
  create: "hub_write db (snd (create_repo D now ns nm ty priv db))"
| commit: "rv_parent revision = expected_parent \<Longrightarrow> hub_write db (snd (commit_changes_atomic D revision changes expected_parent db))"

definition extends :: "hub_db \<Rightarrow> hub_db \<Rightarrow> bool" where
  "extends db db' \<longleftrightarrow> (\<exists>rs. db_repos db' = db_repos db @ rs) \<and> (\<exists>vs. db_revisions db' = db_revisions db @ vs) \<and>
     (\<forall>rid cid. commit_in db rid cid \<longrightarrow> snapshot db' rid cid = snapshot db rid cid)"

lemma extends_refl: "extends db db"
  by (simp add: extends_def)

lemma extends_trans: "extends a b \<Longrightarrow> extends b c \<Longrightarrow> extends a c"
  by (fastforce simp: extends_def)

lemma create_extends:
  assumes "store_inv db"
  shows "store_inv (snd (create_repo D now ns nm ty priv db)) \<and> extends db (snd (create_repo D now ns nm ty priv db))"
proof (cases "create_repo D now ns nm ty priv db")
  case (Pair res db')
  show ?thesis
  proof (cases res)
    case (Inr rp)
    have "\<exists>rs. db_repos db' = db_repos db @ rs"
      using Pair Inr by (auto simp: create_repo_def exec_def insert_repo_sql_def checked_def result_simps split: sum.splits if_splits)
    with create_repo_step [OF assms Pair] Inr Pair show ?thesis by (simp add: extends_def)
  qed (use create_repo_step [OF assms Pair] Pair assms extends_refl in simp)
qed

lemma commit_extends:
  assumes "store_inv db" "rv_parent revision = expected_parent"
  shows "store_inv (snd (commit_changes_atomic D revision changes expected_parent db)) \<and>
    extends db (snd (commit_changes_atomic D revision changes expected_parent db))"
proof (cases "commit_changes_atomic D revision changes expected_parent db")
  case (Pair res db')
  note step = commit_write_step [OF assms, of D "Changes changes" res db'] and Pair' = Pair [unfolded commit_changes_atomic_def]
  show ?thesis
  proof (cases res)
    case (Inr u)
    then have "store_inv db'" "rv_commit_id revision \<notin> commit_ids db" "db_repos db' = db_repos db" "db_revisions db' = db_revisions db @ [revision]"
      "\<And>r c. c \<noteq> rv_commit_id revision \<Longrightarrow> snapshot db' r c = snapshot db r c" using step [OF Pair'] by simp_all
    moreover from this(2) have "rv_commit_id r \<noteq> rv_commit_id revision" if "r \<in> set (db_revisions db)" for r
      using that by (metis image_eqI list.set_map)
    ultimately show ?thesis using Pair by (auto simp: extends_def)
  qed (use step [OF Pair'] Pair assms(1) extends_refl in simp)
qed

lemma writes_extend: "hub_write\<^sup>*\<^sup>* db db' \<Longrightarrow> store_inv db \<Longrightarrow> store_inv db' \<and> extends db db'"
proof (induction rule: rtranclp_induct)
  case (step a b)
  from step.hyps(2) have "store_inv b \<and> extends a b"
    by cases (use step create_extends commit_extends in blast)+
  with step extends_trans show ?case by blast
qed (simp add: extends_refl)

lemma find_append_Some: "find P xs = Some x \<Longrightarrow> find P (xs @ ys) = Some x"
  by (induction xs) auto

lemma get_repo_extends:
  assumes "extends db db'" "get_repo no_faults db ns nm ty = Inr repo" "\<And>k. \<not> db_fault D k"
  shows "get_repo D db' ns nm ty = Inr repo"
proof -
  let ?P = "\<lambda>r. rr_namespace r = ns \<and> rr_name r = nm \<and> rr_repo_type r = repo_type_name ty"
  obtain rs where rs: "db_repos db' = db_repos db @ rs" using assms(1) by (auto simp: extends_def)
  obtain r where r: "find ?P (db_repos db) = Some r" "row_to_repo r = Inr repo"
    using assms(2) by (auto simp: get_repo_def query_def split: option.splits)
  then have "find ?P (db_repos db') = Some r" unfolding rs by (intro find_append_Some) auto
  with r(2) assms(3) show ?thesis by (simp add: get_repo_def query_def)
qed

lemma get_revision_extends:
  assumes "extends db db'" "commit_in db rid cid" "\<And>k. \<not> db_fault D k"
  shows "\<exists>rv. get_revision D db' rid cid = Inr rv"
proof -
  have "\<exists>r\<in>set (db_revisions db'). rv_repo_id r = rid \<and> rv_commit_id r = cid" using assms(1,2) by (auto simp: extends_def)
  then have "find (\<lambda>r. rv_repo_id r = rid \<and> rv_commit_id r = cid) (db_revisions db') \<noteq> None" by (auto simp: find_None_iff)
  with assms(3) show ?thesis by (auto simp: get_revision_def query_def)
qed

lemma serves_while_writing:
  assumes inv: "store_inv (dbs 0)" and writes: "\<And>k. hub_write\<^sup>*\<^sup>* (dbs k) (dbs (Suc k))" and live: "\<And>k i j. \<not> db_fault (D k i) j"
    and repo: "get_repo no_faults (dbs 0) (tr_namespace request) (tr_repo_name request) (tr_repo_type request) = Inr repo"
    and cid: "commit_in (dbs 0) (rp_id repo) cid"
  shows "serves D dbs request repo cid (snapshot (dbs 0) (rp_id repo) cid)"
proof -
  have "hub_write\<^sup>*\<^sup>* (dbs 0) (dbs k)" for k
  proof (induction k)
    case (Suc k)
    with writes [of k] show ?case by (metis rtranclp_trans)
  qed simp
  then have ext: "store_inv (dbs k) \<and> extends (dbs 0) (dbs k)" for k using writes_extend inv by blast
  then have "snapshot (dbs k) (rp_id repo) cid = snapshot (dbs 0) (rp_id repo) cid" for k using cid unfolding extends_def by blast
  moreover have "rows_ok (dbs k)" for k using ext [of k] by (simp add: store_inv_def)
  moreover have "get_repo (D k 0) (dbs k) (tr_namespace request) (tr_repo_name request) (tr_repo_type request) = Inr repo" for k
    using ext get_repo_extends [OF _ repo] live by blast
  moreover have "\<exists>rv. get_revision (D k 1) (dbs k) (rp_id repo) cid = Inr rv" for k
    using ext get_revision_extends [OF _ cid] live by blast
  ultimately show ?thesis using live unfolding serves_def by blast
qed


lemma follow_from:
  assumes B: "base64_contract B" and access: "can_access_repo repo (tr_username request)" and cid: "is_commit_id cid"
    and S: "serves D dbs request repo cid S" and tp: "tp = normalize_tree_path (tr_tree_path request)"
    and es: "es = tree_rows (dbs 0) (rp_id repo) cid tp" "\<forall>e\<in>set es. good_path (fe_path e)"
    and "n \<le> length es" "tr_cursor request = page_cursor B es n"
    and "resolve_revision_id (D k 1) (dbs k) (rp_id repo) (tr_revision request) = Inr cid"
    and "length es \<le> n + TREE_PAGE_SIZE * fuel" "0 < fuel"
  shows "\<exists>L. follow_pages B D dbs request k fuel = Some (Inr L) \<and>
    mset L = mset (whole_listing (tr_recursive request) tp (cursor_at es n) (drop n es))"
  using assms(2,4,5,8-)
proof (induction fuel arbitrary: request k n)
  case (Suc fuel)
  note prems = Suc.prems
  have k: "rows_ok (dbs k)" "rows_ok (dbs 0)" "\<And>i j. \<not> db_fault (D k i) j" "snapshot (dbs k) (rp_id repo) cid = snapshot (dbs 0) (rp_id repo) cid"
    "get_repo (D k 0) (dbs k) (tr_namespace request) (tr_repo_name request) (tr_repo_type request) = Inr repo"
    using prems(2) by (simp_all add: serves_def)
  have esk: "es = tree_rows (dbs k) (rp_id repo) cid tp"
    unfolding es(1) tree_rows_def using select_tree_snapshot [OF k(1,2,4)] by simp
  note page = list_tree_page [OF B k(1,3,5) prems(1,6,3) esk es(2) prems(4,5)]
  note asc = tree_rows_ascending [OF k(1), of "rp_id repo" cid tp, folded esk]
  let ?a = "cursor_at es n" and ?rec = "tr_recursive request"
  show ?case
  proof (cases "n + TREE_PAGE_SIZE < length es")
    case True
    let ?n = "n + TREE_PAGE_SIZE"
    let ?request = "request\<lparr>tr_revision := cid, tr_cursor := page_cursor B es ?n\<rparr>"
    have "page_cursor B es ?n \<noteq> None" by (simp add: page_cursor_def cursor_at_def TREE_PAGE_SIZE_def)
    then obtain c where c: "page_cursor B es ?n = Some c" by blast
    obtain rv where "get_revision (D (Suc k) 1) (dbs (Suc k)) (rp_id repo) cid = Inr rv" using prems(2) unfolding serves_def by blast
    then have "resolve_revision_id (D (Suc k) 1) (dbs (Suc k)) (rp_id repo) cid = Inr cid" using resolve_commit_id cid by blast
    moreover have "0 < fuel" using True prems(7) by (cases fuel) auto
    moreover have "length es \<le> ?n + TREE_PAGE_SIZE * fuel" using prems(7) by simp
    ultimately obtain L where L: "follow_pages B D dbs ?request (Suc k) fuel = Some (Inr L)"
      "mset L = mset (whole_listing ?rec tp (cursor_at es ?n) (drop ?n es))"
      using Suc.IH [of ?request ?n "Suc k"] prems True by (auto simp: serves_def)
    show ?thesis
      using L page True c whole_listing_step [OF True, of ?rec tp] listing_page [OF asc prems(4), of ?rec TREE_PAGE_SIZE tp]
      by (simp add: TREE_PAGE_SIZE_def)
  next
    case False
    then have "take TREE_PAGE_SIZE (drop n es) = drop n es" by simp
    with page False listing_page [OF asc prems(4), of ?rec TREE_PAGE_SIZE tp] show ?thesis by simp
  qed
qed simp


section \<open>The children of a directory\<close>

definition file_child :: "int \<times> string \<times> int \<Rightarrow> string \<Rightarrow> TreeListingEntry" where
  "file_child v path = \<lparr>tl_entry_type = TFile, tl_oid = Some (fst (snd v)), tl_size = of_int (fst v), tl_path = path\<rparr>"

text \<open>
  The contents of a directory, read off the commit. The plain listing has the files directly
  below it, with their full paths, and one entry per subdirectory. The recursive listing has
  all files below it, with paths relative to it.
\<close>

definition tree_children :: "bool \<Rightarrow> string \<Rightarrow> (string \<rightharpoonup> int \<times> string \<times> int) \<Rightarrow> TreeListingEntry set" where
  "tree_children recursive tp S =
     (if recursive then {file_child v rel | rel v. rel \<noteq> [] \<and> S (tree_base tp @ rel) = Some v}
      else {file_child v path | path v. is_child tp path \<and> S path = Some v} \<union>
        {dir_listing (tree_base tp @ d) | d r. CHR ''/'' \<notin> set d \<and> tree_base tp @ d @ CHR ''/'' # r \<in> dom S})"

lemma tree_row_iff:
  assumes "rows_ok db"
  shows "(\<exists>e\<in>set (tree_rows db rid cid tp). fe_path e = p \<and> file_listing e q = x) \<longleftrightarrow>
    below_prefix tp p \<and> (\<exists>v. snapshot db rid cid p = Some v \<and> x = file_child v q)"
proof -
  have "\<exists>v. snapshot db rid cid p = Some v \<and> x = file_child v q" "below_prefix tp p"
    if "e \<in> set (tree_rows db rid cid tp)" "fe_path e = p" "file_listing e q = x" for e
  proof -
    from that(1) obtain f where f: "f \<in> set (select_tree (below_prefix tp) db rid cid)" "e = entry_of_row f" by (auto simp: tree_rows_def)
    then have "map_of (map (\<lambda>f. (ft_path f, file_payload f)) (select_tree (below_prefix tp) db rid cid)) (ft_path f) = Some (file_payload f)"
      using select_tree_sorted(2) [OF assms, of "below_prefix tp" rid cid] by (intro map_of_is_SomeI) (auto simp: o_def)
    then have "snapshot db rid cid p = Some (file_payload f)" "below_prefix tp p"
      using f that(2) unfolding select_tree_map [OF assms] by (auto split: if_splits)
    moreover have "x = file_child (file_payload f) q"
      using that(3) f(2) by (simp add: file_listing_def file_child_def entry_of_row_def file_payload_def)
    ultimately show "\<exists>v. snapshot db rid cid p = Some v \<and> x = file_child v q" "below_prefix tp p" by blast+
  qed
  moreover have "\<exists>e\<in>set (tree_rows db rid cid tp). fe_path e = p \<and> file_listing e q = x"
    if "below_prefix tp p" "snapshot db rid cid p = Some v" "x = file_child v q" for v
  proof -
    have "map_of (map (\<lambda>f. (ft_path f, file_payload f)) (select_tree (below_prefix tp) db rid cid)) p = Some v"
      using that(1,2) by (simp add: select_tree_map [OF assms])
    then obtain f where "f \<in> set (select_tree (below_prefix tp) db rid cid)" "ft_path f = p" "file_payload f = v"
      using map_of_SomeD [of "map (\<lambda>f. (ft_path f, file_payload f)) (select_tree (below_prefix tp) db rid cid)" p v]
      by (auto simp del: map_of_eq_Some_iff)
    then show ?thesis using that(3)
      by (intro bexI [of _ "entry_of_row f"]) (auto simp: tree_rows_def file_listing_def file_child_def entry_of_row_def file_payload_def)
  qed
  ultimately show ?thesis by blast
qed

lemma below_tree_base: "rel \<noteq> [] \<Longrightarrow> below_prefix tp (tree_base tp @ rel)"
  using below_prefix_child [of tp rel] by (cases "tp = []") (simp_all add: tree_base_def below_prefix_def)

lemma tree_row_paths:
  assumes "rows_ok db"
  shows "fe_path ` set (tree_rows db rid cid tp) = {p. below_prefix tp p \<and> p \<in> dom (snapshot db rid cid)}"
proof -
  have "p \<in> fe_path ` set (tree_rows db rid cid tp) \<longleftrightarrow> (\<exists>x. \<exists>e\<in>set (tree_rows db rid cid tp). fe_path e = p \<and> file_listing e p = x)" for p
    by auto
  then show ?thesis unfolding tree_row_iff [OF assms] by (auto simp: set_eq_iff dom_def)
qed

lemma map_filter_mem: "x \<in> set (List.map_filter f xs) \<longleftrightarrow> (\<exists>a\<in>set xs. f a = Some x)"
  by (induction xs) (auto simp: map_filter_simps split: option.splits)

lemma recursive_mem:
  "x \<in> set (recursive_entries es tp) \<longleftrightarrow> (\<exists>e\<in>set es. \<exists>rel. strip_tree_prefix (fe_path e) tp = Some rel \<and> rel \<noteq> [] \<and> file_listing e rel = x)"
  unfolding recursive_entries_def map_filter_mem by (intro bex_cong refl) (auto split: option.splits)

lemma recursive_set:
  assumes "rows_ok db"
  shows "set (recursive_entries (tree_rows db rid cid tp) tp) = tree_children True tp (snapshot db rid cid)"
proof -
  have "x \<in> set (recursive_entries (tree_rows db rid cid tp) tp) \<longleftrightarrow>
      (\<exists>rel. rel \<noteq> [] \<and> (\<exists>e\<in>set (tree_rows db rid cid tp). fe_path e = tree_base tp @ rel \<and> file_listing e rel = x))" for x
    unfolding recursive_mem strip_tree_prefix_iff by blast
  then show ?thesis unfolding tree_row_iff [OF assms] tree_children_def if_True set_eq_iff mem_Collect_eq using below_tree_base by blast
qed

lemma non_recursive_set:
  assumes "rows_ok db"
  shows "set (emits tp None (tree_rows db rid cid tp)) = tree_children False tp (snapshot db rid cid)"
proof -
  have asc: "ascending None (tree_rows db rid cid tp)" using tree_rows_ascending [OF assms] by simp
  have below: "is_child tp p \<Longrightarrow> below_prefix tp p" for p using below_tree_base by (auto simp: is_child_def)
  have "x \<in> listed_files tp (tree_rows db rid cid tp) \<longleftrightarrow>
      (\<exists>p. is_child tp p \<and> (\<exists>e\<in>set (tree_rows db rid cid tp). fe_path e = p \<and> file_listing e p = x))" for x
    unfolding listed_files_def by auto
  then have files: "listed_files tp (tree_rows db rid cid tp) = {file_child v path | path v. is_child tp path \<and> snapshot db rid cid path = Some v}"
    unfolding tree_row_iff [OF assms] set_eq_iff mem_Collect_eq using below by blast
  have "d \<in> listed_dirs tp (tree_rows db rid cid tp) \<longleftrightarrow> (\<exists>p \<in> fe_path ` set (tree_rows db rid cid tp). directory_of tp p = Some d)" for d
    unfolding listed_dirs_def by auto
  then have "listed_dirs tp (tree_rows db rid cid tp) =
      {d. CHR ''/'' \<notin> set d \<and> (\<exists>r. tree_base tp @ d @ CHR ''/'' # r \<in> dom (snapshot db rid cid))}"
    unfolding tree_row_paths [OF assms] directory_of_iff using below_tree_base by (auto simp: set_eq_iff) blast
  then have "(\<lambda>d. dir_listing (tree_base tp @ d)) ` listed_dirs tp (tree_rows db rid cid tp) =
      {dir_listing (tree_base tp @ d) | d r. CHR ''/'' \<notin> set d \<and> tree_base tp @ d @ CHR ''/'' # r \<in> dom (snapshot db rid cid)}"
    by blast
  with files emits_set [OF asc, of tp] show ?thesis by (simp add: tree_children_def)
qed


lemma recursive_distinct: "distinct (map fe_path es) \<Longrightarrow> distinct (recursive_entries es tp)"
proof (induction es)
  case (Cons e es)
  have eq: "recursive_entries (e # es) tp = recursive_entries [e] tp @ recursive_entries es tp"
    by (simp add: recursive_entries_def map_filter_simps split: option.splits)
  have "x \<notin> set (recursive_entries es tp)" if x: "x \<in> set (recursive_entries [e] tp)" for x
  proof
    assume "x \<in> set (recursive_entries es tp)"
    with x obtain e' rel rel' where "e' \<in> set es" "strip_tree_prefix (fe_path e) tp = Some rel" "strip_tree_prefix (fe_path e') tp = Some rel'"
      "x = file_listing e rel" "x = file_listing e' rel'" "rel \<noteq> []" "rel' \<noteq> []"
      unfolding recursive_mem by auto
    moreover from this have "fe_path e = fe_path e'" by (auto simp: strip_tree_prefix_iff file_listing_def)
    ultimately show False using Cons.prems by force
  qed
  moreover have "distinct (recursive_entries [e] tp)"
    by (simp add: recursive_entries_def map_filter_simps split: option.splits)
  ultimately show ?case using Cons unfolding eq by auto
qed (simp add: recursive_entries_def map_filter_simps)

lemma whole_listing_children:
  assumes "rows_ok db"
  shows "distinct (whole_listing recursive tp None (tree_rows db rid cid tp))"
    "set (whole_listing recursive tp None (tree_rows db rid cid tp)) = tree_children recursive tp (snapshot db rid cid)"
proof -
  have asc: "sorted_wrt (<) (map fe_path (tree_rows db rid cid tp))" by (rule tree_rows_ascending [OF assms])
  then have "distinct (map fe_path (tree_rows db rid cid tp))" by (simp only: strict_sorted_iff)
  with recursive_distinct emits_distinct [where before = None] asc
  show "distinct (whole_listing recursive tp None (tree_rows db rid cid tp))" by (simp add: whole_listing_def)
  show "set (whole_listing recursive tp None (tree_rows db rid cid tp)) = tree_children recursive tp (snapshot db rid cid)"
    using recursive_set [OF assms] non_recursive_set [OF assms] by (cases recursive) (simp_all add: whole_listing_def)
qed

lemma tree_rows_length:
  assumes "rows_ok db"
  shows "length (tree_rows db rid cid tp) \<le> card (dom (snapshot db rid cid))"
proof -
  have d: "distinct (map fe_path (tree_rows db rid cid tp))" using tree_rows_ascending [OF assms] by (simp only: strict_sorted_iff)
  have "finite (dom (snapshot db rid cid))"
    using finite_imageI [OF finite_set [of "tree_rows db rid cid []"], of fe_path] unfolding tree_row_paths [OF assms] by (simp add: below_prefix_def)
  then have "card (fe_path ` set (tree_rows db rid cid tp)) \<le> card (dom (snapshot db rid cid))"
    by (rule card_mono) (auto simp: tree_row_paths [OF assms])
  with distinct_card [OF d] show ?thesis by simp
qed

lemma resolve_revision_live:
  assumes "\<And>j. \<not> db_fault D j"
  shows "resolve_revision_id D db rid revision = resolve_revision_id no_faults db rid revision"
  using assms by (simp add: resolve_revision_id_def get_revision_def get_head_def query_def)

lemma resolved_commit:
  assumes "store_inv db" "resolve_revision_id no_faults db rid revision = Inr cid"
  shows "commit_in db rid cid"
proof (cases "length revision \<ge> 8 \<and> list_all is_ascii_hexdigit revision")
  case True
  with assms(2) have "cid = revision" "find (\<lambda>r. rv_repo_id r = rid \<and> rv_commit_id r = revision) (db_revisions db) \<noteq> None"
    by (auto simp: resolve_revision_id_def get_revision_def query_def split: option.splits sum.splits MetadataError.splits)
  then show ?thesis by (auto simp: find_None_iff)
next
  case False
  with assms(2) have "select_head db rid = Some cid"
    by (auto simp: resolve_revision_id_def get_head_def query_def split: option.splits sum.splits if_splits)
  from head_revision [OF assms(1) this] show ?thesis by blast
qed


section \<open>Properties\<close>

text \<open>
  C19. A client that lists a directory of a commit and follows the cursors gets every entry of
  the directory exactly once and nothing else, plain or recursive, however many pages it
  takes, while other clients create repositories and commit between its requests. One
  request per thousand files of the commit is enough.
\<close>

theorem tree_pages_list_children:
  assumes "base64_contract B" "store_inv (dbs 0)" "\<And>k. hub_write\<^sup>*\<^sup>* (dbs k) (dbs (Suc k))" "\<And>k i j. \<not> db_fault (D k i) j"
    and repo: "get_repo no_faults (dbs 0) (tr_namespace request) (tr_repo_name request) (tr_repo_type request) = Inr repo"
      "can_access_repo repo (tr_username request)"
    and revision: "resolve_revision_id no_faults (dbs 0) (rp_id repo) (tr_revision request) = Inr cid" "is_commit_id cid"
    and cursor: "tr_cursor request = None"
    and paths: "\<forall>p\<in>dom (snapshot (dbs 0) (rp_id repo) cid). good_path p"
    and fuel: "card (dom (snapshot (dbs 0) (rp_id repo) cid)) \<le> TREE_PAGE_SIZE * fuel" "0 < fuel"
  shows "\<exists>L. follow_pages B D dbs request 0 fuel = Some (Inr L) \<and> distinct L \<and>
    set L = tree_children (tr_recursive request) (normalize_tree_path (tr_tree_path request)) (snapshot (dbs 0) (rp_id repo) cid)"
proof -
  let ?tp = "normalize_tree_path (tr_tree_path request)"
  let ?es = "tree_rows (dbs 0) (rp_id repo) cid ?tp"
  have rows: "rows_ok (dbs 0)" using assms(2) by (simp add: store_inv_def)
  note S = serves_while_writing [where D = D, OF assms(2-4) repo(1) resolved_commit [OF assms(2) revision(1)]]
  have good: "\<forall>e\<in>set ?es. good_path (fe_path e)"
  proof
    fix e assume "e \<in> set ?es"
    then have "fe_path e \<in> fe_path ` set ?es" by (rule imageI)
    with paths show "good_path (fe_path e)" unfolding tree_row_paths [OF rows] by blast
  qed
  have "resolve_revision_id (D 0 1) (dbs 0) (rp_id repo) (tr_revision request) = Inr cid"
    using revision(1) resolve_revision_live [of "D 0 1", OF assms(4)] by simp
  moreover have "length ?es \<le> 0 + TREE_PAGE_SIZE * fuel" using le_trans [OF tree_rows_length [OF rows] fuel(1)] by simp
  ultimately obtain L where "follow_pages B D dbs request 0 fuel = Some (Inr L)"
    "mset L = mset (whole_listing (tr_recursive request) ?tp None ?es)"
    using follow_from [OF assms(1) repo(2) revision(2) S refl refl good, where n = 0 and k = 0 and fuel = fuel] cursor fuel(2)
    by (auto simp: page_cursor_def cursor_at_def)
  with whole_listing_children [OF rows] show ?thesis by (metis mset_eq_imp_distinct_iff mset_eq_setD)
qed


text \<open>A codec of the documented lengths, and two commits.\<close>

definition demo_base64 :: base64 where
  "demo_base64 = \<lparr>b64_encode = (\<lambda>s. s @ replicate ((length s + 2) div 3) CHR ''A''),
     b64_decode = (\<lambda>t. Some (take (3 * length t div 4) t))\<rparr>"

lemma demo_base64_contract: "base64_contract demo_base64"
proof -
  have "n + (n + 2) div 3 = (4 * n + 2) div 3" "3 * (n + (n + 2) div 3) div 4 = n" for n :: nat by presburger+
  then show ?thesis by (simp add: base64_contract_def demo_base64_def)
qed

definition demo_tree1 :: hub_db where
  "demo_tree1 = snd (commit_changes_atomic no_faults (demo_rev ''abcdef01'' None) (map (Upsert \<circ> hub_demo_file) [''a/x'', ''a/y'', ''b'']) None demo_db1)"

definition demo_tree2 :: hub_db where
  "demo_tree2 = snd (commit_changes_atomic no_faults (demo_rev ''abcdef02'' (Some ''abcdef01'')) [Delete ''b''] (Some ''abcdef01'') demo_tree1)"

definition demo_request :: TreeListRequest where
  "demo_request = \<lparr>tr_username = ''v'', tr_namespace = ''u'', tr_repo_name = ''r'', tr_repo_type = Model, tr_revision = ''main'',
     tr_tree_path = ''/'', tr_recursive = False, tr_cursor = None\<rparr>"

lemma demo_tree1_eq: "demo_tree1 = demo_db1\<lparr>db_revisions := [demo_rev ''abcdef01'' None], db_heads := [(1, ''abcdef01'')],
    db_file_tree := map (\<lambda>p. \<lparr>ft_path = p, ft_repo_id = 1, ft_commit_id = ''abcdef01'', ft_size = 7, ft_cas_hash = ''h'', ft_is_lfs = 0\<rparr>)
      [''a/x'', ''a/y'', ''b'']\<rparr>"
  by (simp add: demo_tree1_def demo_db1_eq db_empty_def commit_simps demo_rev_def hub_demo_file_def)

lemma demo_tree1_snapshot: "snapshot demo_tree1 1 ''abcdef01'' = [''a/x'' \<mapsto> (7, ''h'', 0), ''a/y'' \<mapsto> (7, ''h'', 0), ''b'' \<mapsto> (7, ''h'', 0)]"
  by (auto simp: fun_eq_iff snapshot_def file_map_def demo_tree1_eq file_key_def file_payload_def)

theorem tree_pages_list_children_witness:
  "\<exists>L. follow_pages demo_base64 (\<lambda>_ _. no_faults) (\<lambda>k. if k = 0 then demo_tree1 else demo_tree2) demo_request 0 1 = Some (Inr L) \<and>
     distinct L \<and> file_child (7, ''h'', 0) ''b'' \<in> set L \<and> dir_listing ''a'' \<in> set L"
proof -
  let ?dbs = "\<lambda>k :: nat. if k = 0 then demo_tree1 else demo_tree2"
  let ?repo = "\<lparr>rp_id = 1, rp_name = ''r'', rp_namespace = ''u'', rp_repo_type = Model, rp_sha = None,
    rp_private = False, rp_created_at = 0, rp_updated_at = 0\<rparr>"
  have inv: "store_inv (?dbs 0)"
    using hub_reach_inv [OF hub_reach.commit [OF demo_reach(1)], of "demo_rev ''abcdef01'' None" None] by (simp add: demo_tree1_def demo_rev_def)
  have "hub_write demo_tree1 demo_tree2" unfolding demo_tree2_def by (rule hub_write.commit) (simp add: demo_rev_def)
  then have writes: "hub_write\<^sup>*\<^sup>* (?dbs k) (?dbs (Suc k))" for k by auto
  have repo: "get_repo no_faults (?dbs 0) (tr_namespace demo_request) (tr_repo_name demo_request) (tr_repo_type demo_request) = Inr ?repo"
    by (simp add: get_repo_def query_def demo_tree1_eq demo_db1_eq demo_request_def row_to_repo_def repo_type_from_str_def ascii_lower_def)
  have rev: "resolve_revision_id no_faults (?dbs 0) (rp_id ?repo) (tr_revision demo_request) = Inr ''abcdef01''"
    by (simp add: resolve_revision_id_def demo_request_def get_head_def query_def select_head_def demo_tree1_eq)
  from tree_pages_list_children [where dbs = ?dbs and D = "\<lambda>_ _. no_faults" and fuel = 1, OF demo_base64_contract inv writes _ repo _ rev]
  obtain L where "follow_pages demo_base64 (\<lambda>_ _. no_faults) ?dbs demo_request 0 1 = Some (Inr L)" "distinct L"
    "set L = tree_children (tr_recursive demo_request) (normalize_tree_path (tr_tree_path demo_request)) (snapshot (?dbs 0) (rp_id ?repo) ''abcdef01'')"
    by (auto simp: can_access_repo_def is_commit_id_def is_ascii_hexdigit_def demo_request_def demo_tree1_snapshot good_path_def TREE_PAGE_SIZE_def)
  moreover have "is_child [] ''b''" "snapshot demo_tree1 1 ''abcdef01'' ''b'' = Some (7, ''h'', 0)"
    by (simp_all add: is_child_def tree_base_def demo_tree1_snapshot)
  then have "file_child (7, ''h'', 0) ''b'' \<in> tree_children False [] (snapshot demo_tree1 1 ''abcdef01'')"
    unfolding tree_children_def if_False by blast
  moreover have "CHR ''/'' \<notin> set ''a''" "tree_base [] @ ''a'' @ CHR ''/'' # ''x'' \<in> dom (snapshot demo_tree1 1 ''abcdef01'')"
    by (simp_all add: tree_base_def demo_tree1_snapshot)
  then have "dir_listing (tree_base [] @ ''a'') \<in> tree_children False [] (snapshot demo_tree1 1 ''abcdef01'')"
    unfolding tree_children_def if_False by blast
  then have "dir_listing ''a'' \<in> tree_children False [] (snapshot demo_tree1 1 ''abcdef01'')" by (simp add: tree_base_def)
  ultimately show ?thesis by (simp add: demo_request_def normalize_tree_path_def trim_matches_def)
qed

end
