(* ===== verification/Hub_Repo.thy ===== *)
theory Hub_Repo
  imports Hub_Tree
begin

text \<open>
  The repository service of the front end, \<^verbatim>\<open>src/hub/src/services/repo.rs\<close>. A request makes
  several calls to the store, and other requests can write in between: \<open>others\<close> is what they
  do to the state between the two calls, and \<open>dbs i\<close> the state that the call \<open>i\<close> reads.

  The lemmas show that a repository is created and deleted by its owner only, also under
  interleaving, and what somebody else learns about a private repository.
\<close>

datatype RepoServiceError =
    RpValidation string | RpNotFound string | RpConflict string | RpForbidden string | RpRevisionNotFound string | RpInternal string

datatype RepoServiceResult = RevisionResult Repo Revision | EmptyMainRevision Repo "string option"

definition validate_repo_name :: "string \<Rightarrow> RepoServiceError + unit" where
  "validate_repo_name name =
     (if name = [] then Inl (RpValidation ''Repository name cannot be empty'')
      else if length name > 96 then Inl (RpValidation ''Repository name too long'')
      else if \<not> list_all (\<lambda>c. is_ascii_alphanumeric c \<or> c = CHR ''.'' \<or> c = CHR ''_'' \<or> c = CHR ''-'') name
        then Inl (RpValidation ''Repository name contains invalid characters'')
      else if hd name = CHR ''.'' \<or> hd name = CHR ''-'' then Inl (RpValidation ''Repository name cannot start with . or -'')
      else if last name = CHR ''.'' then Inl (RpValidation ''Repository name cannot end with .'')
      else if str_contains ''..'' name then Inl (RpValidation ''Repository name cannot contain ..'')
      else Inr ())"

definition parse_unified_repo_type :: "string option \<Rightarrow> RepoType" where
  "parse_unified_repo_type repo_type =
     (if repo_type = Some ''dataset'' then Dataset else if repo_type = Some ''space'' then Space else Model)"

definition create_typed_repo ::
  "db_env \<Rightarrow> int \<Rightarrow> string \<Rightarrow> string \<Rightarrow> RepoType \<Rightarrow> bool \<Rightarrow> hub_db \<Rightarrow> (RepoServiceError + Repo) \<times> hub_db" where
  "create_typed_repo D now username name repo_type private db =
     (case validate_repo_name name of
        Inl e \<Rightarrow> (Inl e, db)
      | Inr _ \<Rightarrow>
          (case create_repo D now username name repo_type private db of
             (Inr repo, db') \<Rightarrow> (Inr repo, db')
           | (Inl err, db') \<Rightarrow>
               (Inl (case err of RepoAlreadyExists _ \<Rightarrow> RpConflict (metadata_error_message err) | _ \<Rightarrow> RpInternal (metadata_error_message err)), db')))"

definition create_unified_repo ::
  "(nat \<Rightarrow> db_env) \<Rightarrow> int \<Rightarrow> (hub_db \<Rightarrow> hub_db) \<Rightarrow> string \<Rightarrow> string option \<Rightarrow> string \<Rightarrow> string option \<Rightarrow> bool \<Rightarrow> hub_db
     \<Rightarrow> (RepoServiceError + Repo) \<times> hub_db" where
  "create_unified_repo D now others username organization name repo_type private db =
     (let namespace = (case organization of None \<Rightarrow> username | Some org \<Rightarrow> org) in
      if namespace \<noteq> username then (Inl (RpForbidden ''Cannot create repo in namespace: not a member''), db)
      else case validate_repo_name name of
        Inl e \<Rightarrow> (Inl e, db)
      | Inr _ \<Rightarrow>
          let repo_type = parse_unified_repo_type repo_type in
          (case create_repo (D 0) now namespace name repo_type private db of
             (Inr repo, db') \<Rightarrow> (Inr repo, db')
           | (Inl (RepoAlreadyExists _), db') \<Rightarrow>
               let db'' = others db' in
               (map_err (\<lambda>error. case error of RepoNotFound _ \<Rightarrow> RpConflict ''Repo already exists'' | _ \<Rightarrow> RpInternal (metadata_error_message error))
                  (get_repo (D 1) db'' namespace name repo_type), db'')
           | (Inl err, db') \<Rightarrow> (Inl (RpInternal (metadata_error_message err)), db')))"

definition rp_load_repo :: "db_env \<Rightarrow> hub_db \<Rightarrow> string \<Rightarrow> string \<Rightarrow> RepoType \<Rightarrow> RepoServiceError + Repo" where
  "rp_load_repo D db namespace repo_name repo_type =
     map_err (\<lambda>err. case err of RepoNotFound _ \<Rightarrow> RpNotFound (metadata_error_message err) | _ \<Rightarrow> RpInternal (metadata_error_message err))
       (get_repo D db namespace repo_name repo_type)"

definition service_get_repo :: "db_env \<Rightarrow> hub_db \<Rightarrow> string \<Rightarrow> string \<Rightarrow> string \<Rightarrow> RepoType \<Rightarrow> RepoServiceError + Repo" where
  "service_get_repo D db username namespace repo_name repo_type =
     rbind (rp_load_repo D db namespace repo_name repo_type) (\<lambda>repo.
     if \<not> can_access_repo repo username then Inl (RpNotFound ''Repository not found'') else Inr repo)"

definition service_delete_repo ::
  "(nat \<Rightarrow> db_env) \<Rightarrow> (hub_db \<Rightarrow> hub_db) \<Rightarrow> string \<Rightarrow> string \<Rightarrow> string \<Rightarrow> RepoType \<Rightarrow> hub_db \<Rightarrow> (RepoServiceError + unit) \<times> hub_db" where
  "service_delete_repo D others username namespace repo_name repo_type db =
     (case rp_load_repo (D 0) db namespace repo_name repo_type of
        Inl e \<Rightarrow> (Inl e, db)
      | Inr repo \<Rightarrow>
          if \<not> can_write_repo repo username then (Inl (RpForbidden ''You do not have permission to delete this repository''), db)
          else
            (case delete_repo (D 1) (rp_id repo) (others db) of
               (Inr u, db') \<Rightarrow> (Inr u, db')
             | (Inl err, db') \<Rightarrow> (Inl (RpInternal (metadata_error_message err)), db')))"

definition service_get_revision ::
  "(nat \<Rightarrow> db_env) \<Rightarrow> (nat \<Rightarrow> hub_db) \<Rightarrow> string \<Rightarrow> string \<Rightarrow> string \<Rightarrow> string \<Rightarrow> RepoType \<Rightarrow> RepoServiceError + RepoServiceResult" where
  "service_get_revision D dbs username namespace repo_name revision repo_type =
     rbind (map_err (\<lambda>error. case error of RepoNotFound _ \<Rightarrow> RpNotFound ''Repository not found'' | _ \<Rightarrow> RpInternal (metadata_error_message error))
              (get_repo (D 0) (dbs 0) namespace repo_name repo_type)) (\<lambda>repo.
     if \<not> can_access_repo repo username then Inl (RpNotFound ''Repository not found'')
     else case get_revision (D 1) (dbs 1) (rp_id repo) revision of
       Inr r \<Rightarrow> Inr (RevisionResult repo r)
     | Inl (RevisionNotFound _) \<Rightarrow>
         if revision = ''main'' then
           rbind (map_err (\<lambda>error. RpInternal (metadata_error_message error)) (get_head (D 2) (dbs 2) (rp_id repo))) (\<lambda>head_sha.
           Inr (EmptyMainRevision repo head_sha))
         else Inl (RpRevisionNotFound (''Revision not found: '' @ revision))
     | Inl error \<Rightarrow> Inl (RpInternal (metadata_error_message error)))"


section \<open>Identifiers are not reused\<close>

inductive hub_step :: "hub_db \<Rightarrow> hub_db \<Rightarrow> bool" where
  "hub_write": "hub_write db db' \<Longrightarrow> hub_step db db'"
| delete: "hub_step db (snd (delete_repo D rid db))"

definition keeps_rows :: "hub_db \<Rightarrow> hub_db \<Rightarrow> bool" where
  "keeps_rows db db' \<longleftrightarrow> db_next_id db \<le> db_next_id db' \<and>
     (\<forall>r\<in>set (db_repos db'). rr_id r < db_next_id db \<longrightarrow> r \<in> set (db_repos db))"

lemma keeps_rows_refl: "keeps_rows db db"
  by (simp add: keeps_rows_def)

lemma keeps_rows_trans: "keeps_rows a b \<Longrightarrow> keeps_rows b c \<Longrightarrow> keeps_rows a c"
  unfolding keeps_rows_def by fastforce

lemma create_keeps_rows: "keeps_rows db (snd (create_repo D now ns nm ty priv db))"
proof (cases "create_repo D now ns nm ty priv db")
  case (Pair res db')
  show ?thesis
  proof (cases res)
    case (Inr rp)
    with Pair show ?thesis
      by (auto simp: create_repo_def exec_def insert_repo_sql_def checked_def result_simps keeps_rows_def split: sum.splits if_splits)
  next
    case (Inl e)
    with Pair have "db' = db" by (auto simp: create_repo_def split: sum.splits)
    with Pair keeps_rows_refl show ?thesis by simp
  qed
qed

lemma commit_keeps_rows:
  assumes "store_inv db"
  shows "keeps_rows db (snd (commit_changes_atomic D revision changes expected_parent db))"
proof (cases "commit_changes_atomic D revision changes expected_parent db")
  case (Pair res db')
  show ?thesis
  proof (cases res)
    case (Inl e)
    with Pair have "db' = db" unfolding commit_changes_atomic_def commit_atomic_write_def by (auto intro: transaction_Inl)
    with Pair keeps_rows_refl show ?thesis by simp
  next
    case (Inr u)
    with Pair obtain k k' where "commit_body D revision (Changes changes) expected_parent (db, k) = Inr (db', k')"
      unfolding commit_changes_atomic_def commit_atomic_write_def by (auto simp: transaction_Inr)
    then obtain fs where "db' = db\<lparr>db_revisions := db_revisions db @ [revision], db_file_tree := fs,
        db_heads := filter (\<lambda>h. fst h \<noteq> rv_repo_id revision) (db_heads db) @ [(rv_repo_id revision, rv_commit_id revision)]\<rparr>"
      by (rule commit_body_step [OF assms])
    with Pair show ?thesis by (simp add: keeps_rows_def)
  qed
qed

lemma hub_step_keeps:
  assumes "hub_step db db'" "store_inv db"
  shows "store_inv db' \<and> keeps_rows db db'"
  using assms(1)
proof cases
  case hub_write
  then show ?thesis by cases (use assms(2) create_extends commit_extends create_keeps_rows commit_keeps_rows in auto)
next
  case (delete D rid)
  obtain res db1 where r: "delete_repo D rid db = (res, db1)" by (metis surj_pair)
  have "keeps_rows db (without_repo rid db)" by (simp add: keeps_rows_def without_repo_def)
  with delete_repo_step [OF assms(2) r] delete r assms(2) keeps_rows_refl show ?thesis by (cases res) auto
qed

lemma hub_steps_keep: "hub_step\<^sup>*\<^sup>* db db' \<Longrightarrow> store_inv db \<Longrightarrow> store_inv db' \<and> keeps_rows db db'"
proof (induction rule: rtranclp_induct)
  case (step b c)
  then show ?case using hub_step_keeps keeps_rows_trans by blast
qed (simp add: keeps_rows_refl)

lemma get_repo_row:
  assumes "get_repo D db ns nm ty = Inr repo"
  obtains r where "r \<in> set (db_repos db)" "rr_id r = rp_id repo" "rr_namespace r = ns" "rr_name r = nm" "rr_repo_type r = repo_type_name ty"
    "rp_namespace repo = ns" "rp_private repo \<longleftrightarrow> rr_private r \<noteq> 0"
proof -
  obtain r where r: "find (\<lambda>r. rr_namespace r = ns \<and> rr_name r = nm \<and> rr_repo_type r = repo_type_name ty) (db_repos db) = Some r" "row_to_repo r = Inr repo"
    using assms by (auto simp: get_repo_def query_def result_simps split: option.splits if_splits)
  then have "r \<in> set (db_repos db)" "rr_namespace r = ns" "rr_name r = nm" "rr_repo_type r = repo_type_name ty" by (auto simp: find_Some_iff)
  moreover have "rr_id r = rp_id repo" "rp_namespace repo = rr_namespace r" "rp_private repo \<longleftrightarrow> rr_private r \<noteq> 0"
    using r(2) by (auto simp: row_to_repo_def result_simps)
  ultimately show ?thesis using that by simp
qed

section \<open>Properties\<close>

text \<open>
  C34. A repository is deleted by its owner and is the one that was checked. The service reads
  the repository, checks the owner and deletes by identifier; whatever other requests do in
  between, even deleting it and creating another of the same name, the row it removes is the
  row it checked, and no other repository changes.
\<close>

theorem delete_repo_by_owner_only:
  assumes inv: "store_inv db" and steps: "hub_step\<^sup>*\<^sup>* db (others db)"
    and run: "service_delete_repo D others username namespace repo_name repo_type db = (res, db')"
  shows "case res of
      Inl e \<Rightarrow> db' = db \<or> db' = others db
    | Inr _ \<Rightarrow> username = namespace \<and>
        (\<exists>r\<in>set (db_repos db) \<inter> set (db_repos (others db)).
           rr_namespace r = namespace \<and> rr_name r = repo_name \<and> rr_repo_type r = repo_type_name repo_type \<and>
           repo_ids db' = repo_ids (others db) - {rr_id r} \<and>
           (\<forall>rid cid. rid \<noteq> rr_id r \<longrightarrow> snapshot db' rid cid = snapshot (others db) rid cid \<and> select_head db' rid = select_head (others db) rid))"
proof (cases "rp_load_repo (D 0) db namespace repo_name repo_type")
  case (Inl e)
  with run show ?thesis by (auto simp: service_delete_repo_def)
next
  case (Inr repo)
  then have "get_repo (D 0) db namespace repo_name repo_type = Inr repo" by (simp add: rp_load_repo_def result_simps)
  then obtain r where r: "r \<in> set (db_repos db)" "rr_id r = rp_id repo" "rr_namespace r = namespace" "rr_name r = repo_name"
    "rr_repo_type r = repo_type_name repo_type" "rp_namespace repo = namespace" by (rule get_repo_row)
  note later = hub_steps_keep [OF steps inv]
  obtain res1 db1 where del: "delete_repo (D 1) (rp_id repo) (others db) = (res1, db1)" by (metis surj_pair)
  note step = delete_repo_step [OF conjunct1 [OF later] del]
  show ?thesis
  proof (cases "can_write_repo repo username")
    case False
    with run Inr show ?thesis by (auto simp: service_delete_repo_def)
  next
    case True
    show ?thesis
    proof (cases res1)
      case (Inl e)
      with run step del True \<open>rp_load_repo _ _ _ _ _ = _\<close> show ?thesis by (auto simp: service_delete_repo_def)
    next
      case (Inr u)
      with run del True \<open>rp_load_repo _ _ _ _ _ = _\<close> have res: "res = Inr u" "db' = db1" by (auto simp: service_delete_repo_def)
      from step Inr have db1: "rp_id repo \<in> repo_ids (others db)" "db1 = without_repo (rp_id repo) (others db)" by auto
      then obtain r' where r': "r' \<in> set (db_repos (others db))" "rr_id r' = rp_id repo" by auto
      have "repos_ok db" using inv by (simp add: store_inv_def)
      then have fresh: "rr_id r < db_next_id db" and inj: "inj_on rr_id (set (db_repos db))"
        using r(1) by (auto simp: repos_ok_def distinct_map)
      have "r' \<in> set (db_repos db)" using later r' fresh r(2) by (auto simp: keeps_rows_def)
      with inj r(1,2) r' have "r' = r" by (metis inj_onD)
      moreover have "username = namespace" using True r(6) by (simp add: can_write_repo_def)
      moreover have "repo_ids db' = repo_ids (others db) - {rr_id r}" using res(2) db1(2) r(2) by (auto simp: without_repo_def)
      ultimately show ?thesis
        using res db1(2) r r'(1) by (auto simp: snapshot_without select_head_without intro!: bexI [of _ r])
    qed
  qed
qed


text \<open>
  What somebody who is not the owner learns about a private repository. No service
  returns any of its data. Asking for a revision gives the same answer as for a repository
  that does not exist; the repository, the tree and the file services answer differently in
  the two cases, so they tell that the private repository exists.
\<close>

theorem private_repo_responses:
  assumes repo: "get_repo (D 0) db ns nm ty = Inr repo" "rp_private repo" "user \<noteq> ns"
    and missing: "get_repo (D 0) db0 ns nm ty = Inl (RepoNotFound (ns @ ''/'' @ nm @ ''/'' @ repo_type_name ty))"
    and tree: "tr_username tree = user" "tr_namespace tree = ns" "tr_repo_name tree = nm" "tr_repo_type tree = ty"
      "decode_request_cursor B (tr_cursor tree) = Inr cursor"
    and freq: "rq_username freq = user" "rq_namespace freq = ns" "rq_repo_name freq = nm" "rq_repo_type freq = ty"
  defines "gone \<equiv> ''Repository not found'' @ '': '' @ ns @ ''/'' @ nm @ ''/'' @ repo_type_name ty"
  shows "service_get_revision D (\<lambda>_. db) user ns nm revision ty = Inl (RpNotFound ''Repository not found'') \<and>
    service_get_revision D (\<lambda>_. db0) user ns nm revision ty = Inl (RpNotFound ''Repository not found'') \<and>
    service_get_repo (D 0) db user ns nm ty = Inl (RpNotFound ''Repository not found'') \<and>
    service_get_repo (D 0) db0 user ns nm ty = Inl (RpNotFound gone) \<and>
    list_tree B D db tree = Inl (TsNotFound ''Repository not found'') \<and> list_tree B D db0 tree = Inl (TsNotFound gone) \<and>
    service_resolve_file D db freq = Inl (RsNotFound ''Repository not found'') \<and> service_resolve_file D db0 freq = Inl (RsNotFound gone) \<and>
    gone \<noteq> ''Repository not found''"
proof -
  have "rp_namespace repo = ns" using get_repo_row [OF repo(1)] by metis
  then have "\<not> can_access_repo repo user" using repo(2,3) by (simp add: can_access_repo_def)
  moreover have "gone = metadata_error_message (RepoNotFound (ns @ ''/'' @ nm @ ''/'' @ repo_type_name ty))" by (simp add: gone_def)
  ultimately show ?thesis using repo(1) missing tree freq
    by (simp add: service_get_revision_def service_get_repo_def rp_load_repo_def list_tree_def ts_load_repo_def
        service_resolve_file_def rs_load_repo_def Let_def)
qed

lemma demo_repo: "get_repo no_faults demo_db1 ''u'' ''r'' Model = Inr \<lparr>rp_id = 1, rp_name = ''r'', rp_namespace = ''u'', rp_repo_type = Model,
    rp_sha = None, rp_private = False, rp_created_at = 0, rp_updated_at = 0\<rparr>"
  by (simp add: get_repo_def query_def demo_db1_eq row_to_repo_def repo_type_from_str_def ascii_lower_def)

theorem delete_repo_by_owner_only_witness:
  "\<exists>db'. service_delete_repo (\<lambda>_. no_faults) (\<lambda>_. demo_db2) ''u'' ''u'' ''r'' Model demo_db1 = (Inr (), db') \<and> repo_ids db' = {}"
proof -
  have "hub_write demo_db1 demo_db2" unfolding demo_db2_def by (rule hub_write.commit) (simp add: demo_rev_def)
  then have steps: "hub_step\<^sup>*\<^sup>* demo_db1 demo_db2" by (auto intro: hub_step.intros)
  obtain res db' where r: "service_delete_repo (\<lambda>_. no_faults) (\<lambda>_. demo_db2) ''u'' ''u'' ''r'' Model demo_db1 = (res, db')" by (metis surj_pair)
  have "fst (delete_repo no_faults 1 demo_db2) = Inr ()"
    by (simp add: demo_db2_eq demo_db1_eq db_empty_def delete_repo_def transaction_def exec_def delete_tree_sql_def delete_heads_sql_def
        delete_revisions_sql_def delete_repo_sql_def checked_def fk_ok_def demo_rev_def)
  then have "res = Inr ()" using r
    by (auto simp: service_delete_repo_def rp_load_repo_def demo_repo can_write_repo_def split: prod.splits sum.splits)
  with r delete_repo_by_owner_only [OF hub_reach_inv [OF demo_reach(1)], of "\<lambda>_. demo_db2", OF steps r]
  show ?thesis by (auto simp: demo_db2_eq demo_db1_eq)
qed

definition demo_private :: hub_db where
  "demo_private = snd (create_repo no_faults 0 ''u'' ''r'' Model True db_empty)"

theorem private_repo_responses_witness:
  "service_get_repo no_faults demo_private ''v'' ''u'' ''r'' Model = Inl (RpNotFound ''Repository not found'') \<and>
   service_get_repo no_faults db_empty ''v'' ''u'' ''r'' Model = Inl (RpNotFound ''Repository not found: u/r/model'')"
proof -
  let ?repo = "\<lparr>rp_id = 1, rp_name = ''r'', rp_namespace = ''u'', rp_repo_type = Model, rp_sha = None, rp_private = True, rp_created_at = 0, rp_updated_at = 0\<rparr>"
  have "get_repo no_faults demo_private ''u'' ''r'' Model = Inr ?repo"
    by (simp add: demo_private_def create_repo_def exec_def insert_repo_sql_def checked_def fk_ok_def db_empty_def
        get_repo_def query_def row_to_repo_def repo_type_from_str_def ascii_lower_def)
  moreover have "get_repo no_faults db_empty ''u'' ''r'' Model = Inl (RepoNotFound (''u'' @ ''/'' @ ''r'' @ ''/'' @ repo_type_name Model))"
    by (simp add: get_repo_def query_def db_empty_def)
  ultimately show ?thesis
    using private_repo_responses [of "\<lambda>_. no_faults" demo_private "''u''" "''r''" Model ?repo "''v''" db_empty "demo_request" demo_base64 None
      "\<lparr>rq_username = ''v'', rq_namespace = ''u'', rq_repo_name = ''r'', rq_repo_type = Model, rq_revision = ''main'', rq_file_path = ''a''\<rparr>"]
    by (simp add: demo_request_def decode_request_cursor_def)
qed

end
