(* ===== verification/Xet_Token.thy ===== *)
theory Xet_Token
  imports Rust_Strings
begin

text \<open>
  Access tokens: \<^verbatim>\<open>src/xet-auth-types/src/lib.rs\<close>, the wire format that the front end and the
  storage server share, and \<^verbatim>\<open>src/hub/src/auth/xet_signer.rs\<close>, the signer of the front end.
  Base64, JSON and Ed25519 are crates and parameters; the clock is an argument, \<open>None\<close> when it
  is before 1970.

  The lemmas show that a token the signer issues is accepted exactly while it is valid, and
  that an accepted token carries claims that the holder of the key signed.
\<close>

section \<open>Claims\<close>

record XetClaims =
  xc_sub :: string
  xc_scope :: string
  xc_repo_id :: string
  xc_repo_type :: string
  xc_revision :: string
  xc_exp :: u64
  xc_iat :: u64
  xc_kid :: string
  xc_token_type :: string
  xc_oid :: "string option"
  xc_operation :: "string option"

datatype TokenKind = User | Proxy | Internal

definition MAX_TOKEN_LIFETIME_SECS :: u64 where
  "MAX_TOKEN_LIFETIME_SECS = 7 * 24 * 3600"

fun kind_prefix :: "TokenKind \<Rightarrow> string" where
  "kind_prefix User = ''xet_''"
| "kind_prefix Proxy = ''proxy_''"
| "kind_prefix Internal = ''internal_''"

fun token_type :: "TokenKind \<Rightarrow> string" where
  "token_type User = ''user''"
| "token_type Proxy = ''proxy''"
| "token_type Internal = ''internal''"

fun first_prefix :: "TokenKind list \<Rightarrow> string \<Rightarrow> (TokenKind \<times> string) option" where
  "first_prefix [] token = None"
| "first_prefix (kind # kinds) token =
     (case strip_prefix (kind_prefix kind) token of
        Some body \<Rightarrow> Some (kind, body)
      | None \<Rightarrow> first_prefix kinds token)"

definition from_prefix :: "string \<Rightarrow> (TokenKind \<times> string) option" where
  "from_prefix token = first_prefix [User, Proxy, Internal] token"

datatype TokenWireError = InvalidToken | Expired | InvalidSignature | UnknownKid

record JwtHeader =
  jh_alg :: string
  jh_typ :: string
  jh_kid :: string

text \<open>The crates: URL-safe base64 without padding, \<^verbatim>\<open>serde_json\<close> and \<^verbatim>\<open>ed25519_dalek\<close>.\<close>

record ('sk, 'pk) token_crates =
  b64u_encode :: "string \<Rightarrow> string"
  b64u_decode :: "string \<Rightarrow> string option"
  header_to_vec :: "JwtHeader \<Rightarrow> string option"
  header_from_slice :: "string \<Rightarrow> JwtHeader option"
  claims_to_vec :: "XetClaims \<Rightarrow> string option"
  claims_from_slice :: "string \<Rightarrow> XetClaims option"
  ed_sign :: "'sk \<Rightarrow> string \<Rightarrow> string"
  ed_verify :: "'pk \<Rightarrow> string \<Rightarrow> string \<Rightarrow> bool"
  ed_public :: "'sk \<Rightarrow> 'pk"

section \<open>The wire format\<close>

definition is_dot :: "char \<Rightarrow> bool" where
  "is_dot c \<longleftrightarrow> c = CHR ''.''"

definition token_parts :: "string \<Rightarrow> TokenWireError + (TokenKind \<times> string \<times> string \<times> string)" where
  "token_parts token =
     rbind (ok_or (from_prefix token) InvalidToken) (\<lambda>(kind, token_body).
     case str_split is_dot token_body of
       [header, claims, signature] \<Rightarrow> Inr (kind, header, claims, signature)
     | _ \<Rightarrow> Inl InvalidToken)"

definition decode_header :: "('sk, 'pk) token_crates \<Rightarrow> string \<Rightarrow> TokenWireError + JwtHeader" where
  "decode_header K encoded =
     rbind (ok_or (b64u_decode K encoded) InvalidToken) (\<lambda>header_bytes.
     rbind (ok_or (header_from_slice K header_bytes) InvalidToken) (\<lambda>header.
     if jh_alg header \<noteq> ''EdDSA'' \<or> jh_typ header \<noteq> ''JWT'' then Inl InvalidToken
     else if jh_kid header = [] then Inl UnknownKid
     else Inr header))"

definition validate_claims_for_kind :: "XetClaims \<Rightarrow> TokenKind \<Rightarrow> TokenWireError + unit" where
  "validate_claims_for_kind claims kind =
     (if xc_token_type claims \<noteq> token_type kind \<or> xc_kid claims = [] then Inl InvalidToken
      else
      rbind (ok_or (checked_sub (xc_exp claims) (xc_iat claims)) InvalidToken) (\<lambda>lifetime.
      if lifetime = 0 \<or> lifetime > MAX_TOKEN_LIFETIME_SECS then Inl InvalidToken
      else if kind = Proxy then
        let oid = (case xc_oid claims of None \<Rightarrow> None | Some oid \<Rightarrow> if \<not> blank oid then Some oid else None) in
        rbind (if xc_operation claims = Some ''upload'' then Inr ''lfs-upload''
               else if xc_operation claims = Some ''download'' then Inr ''lfs-download''
               else Inl InvalidToken) (\<lambda>expected_scope.
        if oid = None \<or> xc_scope claims \<noteq> expected_scope then Inl InvalidToken else Inr ())
      else Inr ()))"

definition unverified_token_kid :: "('sk, 'pk) token_crates \<Rightarrow> string \<Rightarrow> TokenWireError + string" where
  "unverified_token_kid K token =
     rbind (token_parts token) (\<lambda>(_, header, _, _).
     rbind (decode_header K header) (\<lambda>h. Inr (jh_kid h)))"

definition sign_claims :: "('sk, 'pk) token_crates \<Rightarrow> XetClaims \<Rightarrow> 'sk \<Rightarrow> TokenKind \<Rightarrow> TokenWireError + string" where
  "sign_claims K claims signing_key kind =
     rbind (validate_claims_for_kind claims kind) (\<lambda>_.
     let header = \<lparr>jh_alg = ''EdDSA'', jh_typ = ''JWT'', jh_kid = xc_kid claims\<rparr> in
     rbind (ok_or (header_to_vec K header) InvalidToken) (\<lambda>hv.
     rbind (ok_or (claims_to_vec K claims) InvalidToken) (\<lambda>cv.
     let signing_input = b64u_encode K hv @ ''.'' @ b64u_encode K cv in
     Inr (kind_prefix kind @ signing_input @ ''.'' @ b64u_encode K (ed_sign K signing_key signing_input)))))"

definition verify_token_any_kind ::
  "('sk, 'pk) token_crates \<Rightarrow> u64 option \<Rightarrow> string \<Rightarrow> 'pk \<Rightarrow> string \<Rightarrow> TokenWireError + (TokenKind \<times> XetClaims)" where
  "verify_token_any_kind K clock token public_key expected_kid =
     rbind (token_parts token) (\<lambda>(kind, part0, part1, part2).
     rbind (decode_header K part0) (\<lambda>header.
     if jh_kid header \<noteq> expected_kid then Inl UnknownKid else
     rbind (ok_or (b64u_decode K part2) InvalidToken) (\<lambda>signature.
     if length signature \<noteq> 64 then Inl InvalidSignature else
     if \<not> ed_verify K public_key (part0 @ ''.'' @ part1) signature then Inl InvalidSignature else
     rbind (ok_or (b64u_decode K part1) InvalidToken) (\<lambda>claims_bytes.
     rbind (ok_or (claims_from_slice K claims_bytes) InvalidToken) (\<lambda>claims.
     if xc_kid claims \<noteq> expected_kid then Inl UnknownKid else
     if xc_token_type claims \<noteq> token_type kind then Inl InvalidToken else
     rbind (ok_or clock InvalidToken) (\<lambda>now.
     if xc_exp claims \<le> now then Inl Expired else
     if xc_iat claims > now then Inl InvalidToken else
     if now - xc_iat claims > MAX_TOKEN_LIFETIME_SECS then Inl Expired else
     rbind (validate_claims_for_kind claims kind) (\<lambda>_.
     Inr (kind, claims))))))))"

definition verify_token ::
  "('sk, 'pk) token_crates \<Rightarrow> u64 option \<Rightarrow> string \<Rightarrow> 'pk \<Rightarrow> string \<Rightarrow> TokenKind \<Rightarrow> TokenWireError + XetClaims" where
  "verify_token K clock token public_key expected_kid expected_kind =
     rbind (verify_token_any_kind K clock token public_key expected_kid) (\<lambda>(kind, claims).
     if kind \<noteq> expected_kind then Inl InvalidToken else Inr claims)"

section \<open>The signer of the front end\<close>

record 'sk XetSigner =
  xs_signing_key :: 'sk
  xs_kid :: string
  xs_ttl_seconds :: u64
  xs_proxy_ttl_seconds :: u64
  xs_internal_ttl_seconds :: u64

definition expiration :: "u64 \<Rightarrow> u64 \<Rightarrow> string + u64" where
  "expiration now ttl_seconds = ok_or (checked_add now ttl_seconds) ''Token expiration timestamp overflow''"

text \<open>\<open>from_pkcs8_pem\<close> is an argument: it reads a private key or fails.\<close>

definition from_pem_with_internal_ttl ::
  "(string \<Rightarrow> 'sk option) \<Rightarrow> string \<Rightarrow> string \<Rightarrow> u64 \<Rightarrow> u64 \<Rightarrow> u64 \<Rightarrow> string + 'sk XetSigner" where
  "from_pem_with_internal_ttl from_pkcs8_pem pem_bytes kid ttl proxy_ttl internal_ttl =
     (if \<not> utf8_valid pem_bytes then Inl ''invalid utf-8''
      else
      rbind (ok_or (from_pkcs8_pem pem_bytes) ''Failed to load private key'') (\<lambda>signing_key.
      Inr \<lparr>xs_signing_key = signing_key, xs_kid = kid, xs_ttl_seconds = ttl, xs_proxy_ttl_seconds = proxy_ttl,
           xs_internal_ttl_seconds = internal_ttl\<rparr>))"

definition from_pem :: "(string \<Rightarrow> 'sk option) \<Rightarrow> string \<Rightarrow> string \<Rightarrow> u64 \<Rightarrow> u64 \<Rightarrow> string + 'sk XetSigner" where
  "from_pem from_pkcs8_pem pem_bytes kid ttl proxy_ttl = from_pem_with_internal_ttl from_pkcs8_pem pem_bytes kid ttl proxy_ttl 86400"

definition new_with_internal_ttl :: "'sk \<Rightarrow> string \<Rightarrow> u64 \<Rightarrow> u64 \<Rightarrow> u64 \<Rightarrow> 'sk XetSigner" where
  "new_with_internal_ttl signing_key kid ttl proxy_ttl internal_ttl =
     \<lparr>xs_signing_key = signing_key, xs_kid = kid, xs_ttl_seconds = ttl, xs_proxy_ttl_seconds = proxy_ttl,
      xs_internal_ttl_seconds = internal_ttl\<rparr>"

definition new_signer :: "'sk \<Rightarrow> string \<Rightarrow> u64 \<Rightarrow> u64 \<Rightarrow> 'sk XetSigner" where
  "new_signer signing_key kid ttl proxy_ttl = new_with_internal_ttl signing_key kid ttl proxy_ttl 86400"

fun debug_wire_error :: "TokenWireError \<Rightarrow> string" where
  "debug_wire_error InvalidToken = ''InvalidToken''"
| "debug_wire_error Expired = ''Expired''"
| "debug_wire_error InvalidSignature = ''InvalidSignature''"
| "debug_wire_error UnknownKid = ''UnknownKid''"

definition signer_sign_claims :: "('sk, 'pk) token_crates \<Rightarrow> 'sk XetSigner \<Rightarrow> XetClaims \<Rightarrow> TokenKind \<Rightarrow> string + (string \<times> u64)" where
  "signer_sign_claims K self claims kind =
     (let exp = xc_exp claims in
      rbind (map_err debug_wire_error (sign_claims K claims (xs_signing_key self) kind)) (\<lambda>token. Inr (token, exp)))"

definition signer_now :: "u64 option \<Rightarrow> string + u64" where
  "signer_now clock = ok_or clock ''System clock is before UNIX_EPOCH, cannot sign tokens''"

definition sign ::
  "('sk, 'pk) token_crates \<Rightarrow> 'sk XetSigner \<Rightarrow> u64 option \<Rightarrow> string \<Rightarrow> string \<Rightarrow> string \<Rightarrow> string \<Rightarrow> string \<Rightarrow> string + (string \<times> u64)" where
  "sign K self clock sub scope repo_id repo_type revision =
     rbind (signer_now clock) (\<lambda>now.
     rbind (expiration now (xs_ttl_seconds self)) (\<lambda>exp.
     signer_sign_claims K self
       \<lparr>xc_sub = sub, xc_scope = scope, xc_repo_id = repo_id, xc_repo_type = repo_type, xc_revision = revision,
        xc_exp = exp, xc_iat = now, xc_kid = xs_kid self, xc_token_type = ''user'', xc_oid = None, xc_operation = None\<rparr> User))"

definition sign_proxy ::
  "('sk, 'pk) token_crates \<Rightarrow> 'sk XetSigner \<Rightarrow> u64 option \<Rightarrow> string \<Rightarrow> string \<Rightarrow> string \<Rightarrow> string \<Rightarrow> string \<Rightarrow> string + (string \<times> u64)" where
  "sign_proxy K self clock sub oid operation repo_id repo_type =
     rbind (signer_now clock) (\<lambda>now.
     rbind (expiration now (xs_proxy_ttl_seconds self)) (\<lambda>exp.
     signer_sign_claims K self
       \<lparr>xc_sub = sub, xc_scope = ''lfs-'' @ operation, xc_repo_id = repo_id, xc_repo_type = repo_type, xc_revision = [],
        xc_exp = exp, xc_iat = now, xc_kid = xs_kid self, xc_token_type = ''proxy'', xc_oid = Some oid,
        xc_operation = Some operation\<rparr> Proxy))"

definition sign_internal :: "('sk, 'pk) token_crates \<Rightarrow> 'sk XetSigner \<Rightarrow> u64 option \<Rightarrow> string + (string \<times> u64)" where
  "sign_internal K self clock =
     rbind (signer_now clock) (\<lambda>now.
     rbind (expiration now (xs_internal_ttl_seconds self)) (\<lambda>exp.
     signer_sign_claims K self
       \<lparr>xc_sub = ''hub-service'', xc_scope = ''internal'', xc_repo_id = [], xc_repo_type = [], xc_revision = [],
        xc_exp = exp, xc_iat = now, xc_kid = xs_kid self, xc_token_type = ''internal'', xc_oid = None,
        xc_operation = None\<rparr> Internal))"

definition verify_token_inner ::
  "('sk, 'pk) token_crates \<Rightarrow> 'sk XetSigner \<Rightarrow> u64 option \<Rightarrow> string \<Rightarrow> string \<Rightarrow> string \<Rightarrow> XetClaims option" where
  "verify_token_inner K self clock token expected_prefix expected_token_type =
     (case (if expected_prefix = ''xet_'' \<and> expected_token_type = ''user'' then Some User
            else if expected_prefix = ''proxy_'' \<and> expected_token_type = ''proxy'' then Some Proxy
            else if expected_prefix = ''internal_'' \<and> expected_token_type = ''internal'' then Some Internal
            else None) of
        None \<Rightarrow> None
      | Some expected_kind \<Rightarrow>
          (case verify_token K clock token (ed_public K (xs_signing_key self)) (xs_kid self) expected_kind of
             Inr claims \<Rightarrow> Some claims
           | Inl _ \<Rightarrow> None))"

definition verify_proxy_token :: "('sk, 'pk) token_crates \<Rightarrow> 'sk XetSigner \<Rightarrow> u64 option \<Rightarrow> string \<Rightarrow> XetClaims option" where
  "verify_proxy_token K self clock token = verify_token_inner K self clock token ''proxy_'' ''proxy''"

definition signer_verify_xet_token :: "('sk, 'pk) token_crates \<Rightarrow> 'sk XetSigner \<Rightarrow> u64 option \<Rightarrow> string \<Rightarrow> XetClaims option" where
  "signer_verify_xet_token K self clock token = verify_token_inner K self clock token ''xet_'' ''user''"

definition verify_internal_token :: "('sk, 'pk) token_crates \<Rightarrow> 'sk XetSigner \<Rightarrow> u64 option \<Rightarrow> string \<Rightarrow> XetClaims option" where
  "verify_internal_token K self clock token = verify_token_inner K self clock token ''internal_'' ''internal''"


section \<open>Contracts of the crates\<close>

definition is_b64u_char :: "char \<Rightarrow> bool" where
  "is_b64u_char c \<longleftrightarrow> is_ascii_alphanumeric c \<or> c = CHR ''-'' \<or> c = CHR ''_''"

definition b64u_contract :: "('sk, 'pk) token_crates \<Rightarrow> bool" where
  "b64u_contract K \<longleftrightarrow> (\<forall>s. b64u_decode K (b64u_encode K s) = Some s) \<and> (\<forall>s. list_all is_b64u_char (b64u_encode K s))"

definition json_contract :: "('sk, 'pk) token_crates \<Rightarrow> bool" where
  "json_contract K \<longleftrightarrow> (\<forall>h. \<exists>v. header_to_vec K h = Some v \<and> header_from_slice K v = Some h) \<and>
     (\<forall>c. \<exists>v. claims_to_vec K c = Some v \<and> claims_from_slice K v = Some c)"

definition ed25519_contract :: "('sk, 'pk) token_crates \<Rightarrow> bool" where
  "ed25519_contract K \<longleftrightarrow> (\<forall>sk m. length (ed_sign K sk m) = 64 \<and> ed_verify K (ed_public K sk) m (ed_sign K sk m))"

definition claims_header :: "XetClaims \<Rightarrow> JwtHeader" where
  "claims_header claims = \<lparr>jh_alg = ''EdDSA'', jh_typ = ''JWT'', jh_kid = xc_kid claims\<rparr>"

definition signing_input :: "('sk, 'pk) token_crates \<Rightarrow> XetClaims \<Rightarrow> string" where
  "signing_input K claims =
     b64u_encode K (the (header_to_vec K (claims_header claims))) @ ''.'' @ b64u_encode K (the (claims_to_vec K claims))"

text \<open>
  Unforgeability: a signature that verifies under the key covers the signing input of claims
  in \<open>issued\<close>, the claims that the holders of the private key have signed.
\<close>

definition unforgeable :: "('sk, 'pk) token_crates \<Rightarrow> 'pk \<Rightarrow> XetClaims set \<Rightarrow> bool" where
  "unforgeable K pk issued \<longleftrightarrow> (\<forall>m s. ed_verify K pk m s \<longrightarrow> m \<in> signing_input K ` issued)"

lemma b64u_no_dot:
  assumes "b64u_contract K"
  shows "CHR ''.'' \<notin> set (b64u_encode K s)"
proof
  assume "CHR ''.'' \<in> set (b64u_encode K s)"
  then have "is_b64u_char CHR ''.''" using assms by (auto simp: b64u_contract_def list_all_iff)
  then show False by (simp add: is_b64u_char_def is_ascii_alphanumeric_def)
qed

section \<open>Parts of a token\<close>

lemma from_prefix_iff: "from_prefix token = Some (kind, body) \<longleftrightarrow> token = kind_prefix kind @ body"
proof
  show "from_prefix token = Some (kind, body) \<Longrightarrow> token = kind_prefix kind @ body"
    by (auto simp: from_prefix_def strip_prefix_Some split: option.splits)
  show "token = kind_prefix kind @ body \<Longrightarrow> from_prefix token = Some (kind, body)"
    by (cases kind) (auto simp: from_prefix_def strip_prefix_def)
qed

lemma str_split_Cons:
  "str_split P s = w # ws \<Longrightarrow> (ws = [] \<and> s = w) \<or> (\<exists>d t. P d \<and> s = w @ d # t \<and> str_split P t = ws)"
proof (induction s arbitrary: w)
  case (Cons a s)
  show ?case
  proof (cases "P a")
    case True
    with Cons.prems show ?thesis by auto
  next
    case False
    with Cons.prems obtain v where v: "str_split P s = v # ws" "w = a # v"
      using str_split_nonempty [of P s] by (auto split: list.splits)
    with Cons.IH [OF v(1)] show ?thesis by auto
  qed
qed simp

lemma three_parts:
  "(case xs of [a, b, c] \<Rightarrow> Inr (k, a, b, c) | _ \<Rightarrow> Inl e) = Inr (kind, h, c, s) \<longleftrightarrow> k = kind \<and> xs = [h, c, s]"
  by (auto split: list.splits)

lemma token_parts_iff:
  "token_parts token = Inr (kind, h, c, s) \<longleftrightarrow>
     token = kind_prefix kind @ h @ ''.'' @ c @ ''.'' @ s \<and> CHR ''.'' \<notin> set h \<union> set c \<union> set s"
proof
  assume "token_parts token = Inr (kind, h, c, s)"
  then obtain body where b: "token = kind_prefix kind @ body" "str_split is_dot body = [h, c, s]"
    unfolding token_parts_def rbind_eq_Inr ok_or_eq_Inr by (auto simp: three_parts from_prefix_iff)
  from str_split_Cons [OF b(2)] obtain t where t: "body = h @ ''.'' @ t" "str_split is_dot t = [c, s]" by (auto simp: is_dot_def)
  from str_split_Cons [OF t(2)] obtain u where u: "t = c @ ''.'' @ u" "str_split is_dot u = [s]" by (auto simp: is_dot_def)
  from str_split_Cons [OF u(2)] have "u = s" using str_split_nonempty by fastforce
  moreover have "CHR ''.'' \<notin> set h \<union> set c \<union> set s"
    using str_split_parts [of _ is_dot body "CHR ''.''"] b(2) by (auto simp: is_dot_def)
  ultimately show "token = kind_prefix kind @ h @ ''.'' @ c @ ''.'' @ s \<and> CHR ''.'' \<notin> set h \<union> set c \<union> set s" using b t u by simp
next
  assume t: "token = kind_prefix kind @ h @ ''.'' @ c @ ''.'' @ s \<and> CHR ''.'' \<notin> set h \<union> set c \<union> set s"
  then have nodot: "\<forall>x\<in>set h. \<not> is_dot x" "\<forall>x\<in>set c. \<not> is_dot x" "\<forall>x\<in>set s. \<not> is_dot x" by (auto simp: is_dot_def)
  have "is_dot CHR ''.''" by (simp add: is_dot_def)
  then have "str_split is_dot (h @ ''.'' @ c @ ''.'' @ s) = [h, c, s]"
    using str_split_sep [OF nodot(1), of "CHR ''.''" "c @ ''.'' @ s"] str_split_sep [OF nodot(2), of "CHR ''.''" s] str_split_none [OF nodot(3)] by simp
  moreover have "from_prefix token = Some (kind, h @ ''.'' @ c @ ''.'' @ s)" using t by (simp add: from_prefix_iff)
  ultimately show "token_parts token = Inr (kind, h, c, s)" by (simp add: token_parts_def)
qed

lemma validate_claims_iff:
  "validate_claims_for_kind claims kind = Inr u \<longleftrightarrow>
     xc_token_type claims = token_type kind \<and> xc_kid claims \<noteq> [] \<and>
     unat (xc_iat claims) < unat (xc_exp claims) \<and> unat (xc_exp claims) \<le> unat (xc_iat claims) + 604800 \<and>
     (kind = Proxy \<longrightarrow> (\<exists>oid op. xc_oid claims = Some oid \<and> \<not> blank oid \<and> xc_operation claims = Some op \<and>
        op \<in> {''upload'', ''download''} \<and> xc_scope claims = ''lfs-'' @ op))"
proof -
  have life: "checked_sub e i = Some l \<and> l \<noteq> 0 \<and> \<not> l > MAX_TOKEN_LIFETIME_SECS \<longleftrightarrow>
      l = e - i \<and> unat i < unat e \<and> unat e \<le> unat i + 604800" for e i l :: u64
  proof (cases "i \<le> e")
    case True
    then have le: "unat (e - i) = unat e - unat i" "unat i \<le> unat e" by (simp_all add: unat_sub word_le_nat_alt)
    have "unat MAX_TOKEN_LIFETIME_SECS = 604800" by (simp add: MAX_TOKEN_LIFETIME_SECS_def)
    moreover have "e - i = 0 \<longleftrightarrow> unat (e - i) = 0" by (simp only: unat_eq_zero)
    ultimately have "e - i \<noteq> 0 \<and> \<not> MAX_TOKEN_LIFETIME_SECS < e - i \<longleftrightarrow> unat i < unat e \<and> unat e \<le> unat i + 604800"
      unfolding word_less_nat_alt le(1) using le(2) by linarith
    with True show ?thesis by (auto simp: checked_sub_Some)
  next
    case False
    then show ?thesis by (auto simp: checked_sub_def word_le_nat_alt)
  qed
  have "(if xc_operation claims = Some ''upload'' then Inr ''lfs-upload'' else if xc_operation claims = Some ''download'' then Inr ''lfs-download'' else Inl InvalidToken) = Inr sc \<longleftrightarrow>
      (\<exists>op. xc_operation claims = Some op \<and> op \<in> {''upload'', ''download''} \<and> sc = ''lfs-'' @ op)" for sc by auto
  note scope = this
  show ?thesis
    unfolding validate_claims_for_kind_def if_Inl_eq_Inr rbind_eq_Inr ok_or_eq_Inr
    using life scope by (auto simp: Let_def result_simps split: option.splits if_splits)
qed


section \<open>Signing and verifying\<close>

lemma sign_claims_iff:
  assumes "json_contract K"
  shows "sign_claims K claims sk kind = Inr token \<longleftrightarrow> validate_claims_for_kind claims kind = Inr () \<and>
    token = kind_prefix kind @ signing_input K claims @ ''.'' @ b64u_encode K (ed_sign K sk (signing_input K claims))"
proof -
  obtain hv cv where "header_to_vec K (claims_header claims) = Some hv" "claims_to_vec K claims = Some cv"
    using assms by (auto simp: json_contract_def) metis
  then show ?thesis by (auto simp: sign_claims_def signing_input_def claims_header_def Let_def result_simps)
qed

lemma signing_input_parts:
  assumes "b64u_contract K" "json_contract K" "signing_input K claims = h @ ''.'' @ c" "CHR ''.'' \<notin> set h"
  shows "b64u_decode K c = Some (the (claims_to_vec K claims)) \<and> claims_from_slice K (the (claims_to_vec K claims)) = Some claims \<and>
    b64u_decode K h = Some (the (header_to_vec K (claims_header claims))) \<and>
    header_from_slice K (the (header_to_vec K (claims_header claims))) = Some (claims_header claims)"
proof -
  let ?h = "b64u_encode K (the (header_to_vec K (claims_header claims)))" and ?c = "b64u_encode K (the (claims_to_vec K claims))"
  have "split_once CHR ''.'' (h @ CHR ''.'' # c) = Some (h, c)" using assms(4) by (simp add: split_once_iff)
  moreover have "split_once CHR ''.'' (?h @ CHR ''.'' # ?c) = Some (?h, ?c)" using b64u_no_dot [OF assms(1)] by (simp add: split_once_iff)
  ultimately have "h = ?h" "c = ?c" using assms(3) by (simp_all add: signing_input_def)
  with assms(1,2) show ?thesis unfolding b64u_contract_def json_contract_def by (metis option.sel)
qed

lemma verify_Inr_iff:
  "verify_token_any_kind K clock token pk kid = Inr (kind, claims) \<longleftrightarrow>
     (\<exists>h c s header sg cb now. token_parts token = Inr (kind, h, c, s) \<and> decode_header K h = Inr header \<and> jh_kid header = kid \<and>
        b64u_decode K s = Some sg \<and> length sg = 64 \<and> ed_verify K pk (h @ ''.'' @ c) sg \<and>
        b64u_decode K c = Some cb \<and> claims_from_slice K cb = Some claims \<and> xc_kid claims = kid \<and> clock = Some now \<and>
        xc_iat claims \<le> now \<and> now < xc_exp claims \<and> now - xc_iat claims \<le> MAX_TOKEN_LIFETIME_SECS \<and>
        validate_claims_for_kind claims kind = Inr ())"
  unfolding verify_token_any_kind_def
  by (auto simp: result_simps not_less not_le validate_claims_iff split: prod.splits)

lemma decode_claims_header:
  assumes "b64u_decode K h = Some v" "header_from_slice K v = Some (claims_header claims)" "xc_kid claims \<noteq> []"
  shows "decode_header K h = Inr (claims_header claims)"
  using assms by (simp add: decode_header_def claims_header_def)

lemma issued_token_parts:
  assumes "b64u_contract K" "json_contract K" "sign_claims K claims sk kind = Inr token"
  obtains h c s where "token_parts token = Inr (kind, h, c, s)" "h @ ''.'' @ c = signing_input K claims"
    "b64u_decode K s = Some (ed_sign K sk (signing_input K claims))" "decode_header K h = Inr (claims_header claims)"
    "b64u_decode K c = Some (the (claims_to_vec K claims))" "claims_from_slice K (the (claims_to_vec K claims)) = Some claims"
proof -
  let ?h = "b64u_encode K (the (header_to_vec K (claims_header claims)))" and ?c = "b64u_encode K (the (claims_to_vec K claims))"
    and ?s = "b64u_encode K (ed_sign K sk (signing_input K claims))"
  have valid: "validate_claims_for_kind claims kind = Inr ()" and token: "token = kind_prefix kind @ ?h @ ''.'' @ ?c @ ''.'' @ ?s"
    using assms(3) unfolding sign_claims_iff [OF assms(2)] by (simp_all add: signing_input_def)
  have nodot: "CHR ''.'' \<notin> set ?h \<union> set ?c \<union> set ?s" and eq: "?h @ ''.'' @ ?c = signing_input K claims"
    using b64u_no_dot [OF assms(1)] by (simp_all add: signing_input_def)
  note parts = signing_input_parts [OF assms(1,2) eq [symmetric]]
  have "xc_kid claims \<noteq> []" using valid unfolding validate_claims_iff by simp
  then have "decode_header K ?h = Inr (claims_header claims)" using parts nodot decode_claims_header by auto
  moreover have "token_parts token = Inr (kind, ?h, ?c, ?s)" unfolding token_parts_iff using token nodot by simp
  moreover have "b64u_decode K ?s = Some (ed_sign K sk (signing_input K claims))" using assms(1) by (simp add: b64u_contract_def)
  ultimately show ?thesis using that eq parts nodot by blast
qed

lemma verify_issued:
  assumes K: "b64u_contract K" "json_contract K" "ed25519_contract K" and issued: "sign_claims K claims sk kind = Inr token"
  shows "verify_token_any_kind K (Some now) token (ed_public K sk) (xc_kid claims) =
    (if xc_exp claims \<le> now then Inl Expired else if now < xc_iat claims then Inl InvalidToken else Inr (kind, claims))"
proof -
  obtain h c s where parts: "token_parts token = Inr (kind, h, c, s)" "h @ ''.'' @ c = signing_input K claims"
    "b64u_decode K s = Some (ed_sign K sk (signing_input K claims))" "decode_header K h = Inr (claims_header claims)"
    "b64u_decode K c = Some (the (claims_to_vec K claims))" "claims_from_slice K (the (claims_to_vec K claims)) = Some claims"
    by (rule issued_token_parts [OF K(1,2) issued])
  have valid: "validate_claims_for_kind claims kind = Inr ()" using issued unfolding sign_claims_iff [OF K(2)] by simp
  then have v: "xc_token_type claims = token_type kind" "unat (xc_exp claims) \<le> unat (xc_iat claims) + 604800"
    unfolding validate_claims_iff by simp_all
  have life: "\<not> MAX_TOKEN_LIFETIME_SECS < now - xc_iat claims" if "now < xc_exp claims" "xc_iat claims \<le> now"
  proof -
    have "unat (now - xc_iat claims) = unat now - unat (xc_iat claims)" using that(2) by (simp add: unat_sub word_le_nat_alt)
    moreover have "unat MAX_TOKEN_LIFETIME_SECS = 604800" by (simp add: MAX_TOKEN_LIFETIME_SECS_def)
    ultimately show ?thesis using v(2) that(1) unfolding word_less_nat_alt by linarith
  qed
  have sig: "length (ed_sign K sk (signing_input K claims)) = 64" "ed_verify K (ed_public K sk) (h @ ''.'' @ c) (ed_sign K sk (signing_input K claims))"
    using K(3) parts(2) by (simp_all add: ed25519_contract_def)
  have "verify_token_any_kind K (Some now) token (ed_public K sk) (xc_kid claims) =
      (if xc_exp claims \<le> now then Inl Expired else if xc_iat claims > now then Inl InvalidToken
       else if now - xc_iat claims > MAX_TOKEN_LIFETIME_SECS then Inl Expired else Inr (kind, claims))"
    unfolding verify_token_any_kind_def using parts(1,3-6) sig v(1) valid by (simp add: claims_header_def)
  then show ?thesis using life by (cases "xc_exp claims \<le> now"; cases "now < xc_iat claims") (simp_all add: not_le not_less)
qed

lemma unverified_kid_issued:
  assumes "b64u_contract K" "json_contract K" "sign_claims K claims sk kind = Inr token"
  shows "unverified_token_kid K token = Inr (xc_kid claims)"
proof -
  obtain h c s where "token_parts token = Inr (kind, h, c, s)" "decode_header K h = Inr (claims_header claims)"
    by (rule issued_token_parts [OF assms])
  then show ?thesis by (simp add: unverified_token_kid_def claims_header_def)
qed

lemma verified_claims_issued:
  assumes "b64u_contract K" "json_contract K" "unforgeable K pk issued"
    and "verify_token_any_kind K clock token pk kid = Inr (kind, claims)"
  shows "claims \<in> issued"
proof -
  obtain h c s sg cb where t: "token_parts token = Inr (kind, h, c, s)" "ed_verify K pk (h @ ''.'' @ c) sg"
      "b64u_decode K c = Some cb" "claims_from_slice K cb = Some claims"
    using assms(4) unfolding verify_Inr_iff by blast
  from t(2) assms(3) obtain claims' where c': "claims' \<in> issued" "signing_input K claims' = h @ ''.'' @ c"
    by (auto simp: unforgeable_def)
  have "CHR ''.'' \<notin> set h" using t(1) by (simp add: token_parts_iff)
  from signing_input_parts [OF assms(1,2) c'(2) this] t(3,4) c'(1) show ?thesis by auto
qed

definition visible :: "char \<Rightarrow> bool" where
  "visible c \<longleftrightarrow> byte_in 32 126 c \<or> of_char c = (9 :: nat)"

lemma issued_token_visible:
  assumes "b64u_contract K" "json_contract K" "sign_claims K claims sk kind = Inr token"
  shows "list_all visible token"
proof -
  have "is_b64u_char c \<Longrightarrow> visible c" for c
    by (auto simp: is_b64u_char_def is_ascii_alphanumeric_def visible_def Let_def)
  then have "list_all visible (b64u_encode K s)" for s
    using assms(1) by (auto simp: b64u_contract_def list_all_iff)
  moreover have "list_all visible (kind_prefix kind)" by (cases kind) (simp_all add: visible_def)
  moreover have "list_all visible ''.''" by (simp add: visible_def)
  ultimately show ?thesis using assms(3) unfolding sign_claims_iff [OF assms(2)] by (simp add: signing_input_def)
qed

end
