(* ===== verification/Token_Instance.thy ===== *)
theory Token_Instance
  imports Xet_Token Crate_Instance
begin

text \<open>
  Concrete token crates, used only in witnesses: a text codec for headers and claims, hex
  digits in place of base64 (they are characters of its alphabet), and a signature scheme
  whose signature is a fixed-length tag of the key. It shows that the contracts of
  \<open>Xet_Token\<close> can hold together.
\<close>

fun put_str :: "string \<Rightarrow> string" where
  "put_str [] = ''.''"
| "put_str (c # s) = CHR ''x'' # c # put_str s"

fun take_str :: "string \<Rightarrow> (string \<times> string) option" where
  "take_str (a # b # r) =
     (if a = CHR ''x'' then map_option (\<lambda>(s, r). (b # s, r)) (take_str r) else Some ([], b # r))"
| "take_str [a] = Some ([], [])"
| "take_str [] = None"

fun take_strs :: "nat \<Rightarrow> string \<Rightarrow> string list option" where
  "take_strs 0 r = Some []"
| "take_strs (Suc n) r = Option.bind (take_str r) (\<lambda>(s, r). map_option (Cons s) (take_strs n r))"

definition num_str :: "u64 \<Rightarrow> string" where
  "num_str w = map (\<lambda>i. if bit w i then CHR ''1'' else CHR ''0'') [0..<64]"

definition str_num :: "string \<Rightarrow> u64" where
  "str_num s = horner_sum of_bool 2 (map (\<lambda>c. c = CHR ''1'') s)"

fun opt_str :: "string option \<Rightarrow> string" where
  "opt_str None = []"
| "opt_str (Some s) = CHR ''x'' # s"

fun str_opt :: "string \<Rightarrow> string option" where
  "str_opt [] = None"
| "str_opt (_ # s) = Some s"

definition put_header :: "JwtHeader \<Rightarrow> string" where
  "put_header h = put_str (jh_alg h) @ put_str (jh_typ h) @ put_str (jh_kid h)"

definition get_header :: "string \<Rightarrow> JwtHeader option" where
  "get_header s = (case take_strs 3 s of Some [a, t, k] \<Rightarrow> Some \<lparr>jh_alg = a, jh_typ = t, jh_kid = k\<rparr> | _ \<Rightarrow> None)"

definition put_claims :: "XetClaims \<Rightarrow> string" where
  "put_claims c = put_str (xc_sub c) @ put_str (xc_scope c) @ put_str (xc_repo_id c) @ put_str (xc_repo_type c) @
     put_str (xc_revision c) @ put_str (num_str (xc_exp c)) @ put_str (num_str (xc_iat c)) @ put_str (xc_kid c) @
     put_str (xc_token_type c) @ put_str (opt_str (xc_oid c)) @ put_str (opt_str (xc_operation c))"

definition get_claims :: "string \<Rightarrow> XetClaims option" where
  "get_claims s =
     (case take_strs 11 s of
        Some [su, sc, ri, rt, re, ex, ia, ki, ty, oi, op] \<Rightarrow>
          Some \<lparr>xc_sub = su, xc_scope = sc, xc_repo_id = ri, xc_repo_type = rt, xc_revision = re, xc_exp = str_num ex,
                xc_iat = str_num ia, xc_kid = ki, xc_token_type = ty, xc_oid = str_opt oi, xc_operation = str_opt op\<rparr>
      | _ \<Rightarrow> None)"

definition hex_text :: "string \<Rightarrow> string" where
  "hex_text s = hex_of_bytes (map (\<lambda>c. of_nat (of_char c)) s)"

definition text_hex :: "string \<Rightarrow> string option" where
  "text_hex t = (case bytes_of_hex t of Inl _ \<Rightarrow> None | Inr bs \<Rightarrow> Some (map (\<lambda>b. char_of (unat b)) bs))"

definition tag :: "string \<Rightarrow> string" where
  "tag key = take 64 (key @ replicate 64 CHR ''t'')"

definition inst_token_crates :: "(string, string) token_crates" where
  "inst_token_crates =
     \<lparr>b64u_encode = hex_text, b64u_decode = text_hex, header_to_vec = (\<lambda>h. Some (put_header h)), header_from_slice = get_header,
      claims_to_vec = (\<lambda>c. Some (put_claims c)), claims_from_slice = get_claims,
      ed_sign = (\<lambda>sk m. tag sk), ed_verify = (\<lambda>pk m s. s = tag pk), ed_public = (\<lambda>sk. sk)\<rparr>"

lemma take_put_str [simp]: "take_str (put_str s @ r) = Some (s, r)"
proof (induction s)
  case Nil
  show ?case by (cases r) simp_all
qed simp

lemma str_num_str [simp]: "str_num (num_str w) = w"
proof -
  have "str_num (num_str w) = horner_sum of_bool 2 (map (bit w) [0..<64])"
    by (simp add: str_num_def num_str_def o_def if_distrib cong: if_cong)
  also have "\<dots> = w" by (simp only: horner_sum_bit_eq_take_bit) (simp add: take_bit_word_eq_self)
  finally show ?thesis .
qed

lemma str_opt_str [simp]: "str_opt (opt_str v) = v"
  by (cases v) simp_all

lemma take_strs_put [simp]: "take_strs (Suc n) (put_str s @ r) = map_option (Cons s) (take_strs n r)"
  by simp

lemma take_strs_put_last [simp]: "take_strs (Suc n) (put_str s) = map_option (Cons s) (take_strs n [])"
  using take_put_str [of s "[]"] by simp

lemma get_put_header: "get_header (put_header h) = Some h"
  by (simp add: get_header_def put_header_def numeral_eq_Suc del: take_strs.simps(2))

lemma get_put_claims: "get_claims (put_claims c) = Some c"
  by (simp add: get_claims_def put_claims_def numeral_eq_Suc del: take_strs.simps(2))

lemma inst_json_contract: "json_contract inst_token_crates"
  by (simp add: json_contract_def inst_token_crates_def get_put_header get_put_claims)

lemma text_hex_text: "text_hex (hex_text s) = Some s"
proof -
  have "(of_char c :: nat) < 2 ^ LENGTH(8)" for c :: char using nat_of_char_less_256 [of c] by simp
  then have "unat (of_nat (of_char c) :: byte) = of_char c" for c by (rule unat_of_nat_small)
  then show ?thesis by (simp add: text_hex_def hex_text_def o_def map_idI)
qed

lemma hex_of_bytes_digits: "list_all (\<lambda>c. c \<in> set hex_digits) (hex_of_bytes bs)"
proof (induction bs)
  case (Cons b bs)
  have "unat b div 16 < 16" "unat b mod 16 < 16" using unat_byte_less [of b] by auto
  moreover have "length hex_digits = 16" by (simp add: hex_digits_def)
  ultimately show ?case using Cons by simp
qed simp

lemma inst_b64u_contract: "b64u_contract inst_token_crates"
proof -
  have "c \<in> set hex_digits \<Longrightarrow> is_b64u_char c" for c
    by (auto simp: hex_digits_def is_b64u_char_def is_ascii_alphanumeric_def)
  then show ?thesis using hex_of_bytes_digits
    by (simp add: b64u_contract_def inst_token_crates_def text_hex_text) (simp add: hex_text_def list_all_iff)
qed

lemma inst_ed25519_contract: "ed25519_contract inst_token_crates"
  by (simp add: ed25519_contract_def inst_token_crates_def tag_def min_def)

end
