(* ===== verification/Cas_Auth.thy ===== *)
theory Cas_Auth
  imports Token_Instance
begin

text \<open>
  Authentication on the storage server: \<^verbatim>\<open>src/src/api/auth.rs\<close>, the guard of the handlers in
  \<^verbatim>\<open>src/src/api/guard.rs\<close>, and the key configuration \<open>AuthConfig\<close> of \<^verbatim>\<open>src/src/config.rs\<close>.
  Reading a file and decoding a PEM are arguments. An HTTP request is its
  \<open>Authorization\<close> header.

  The lemmas show who passes the guard: the three kinds of token are kept apart, a proxy
  token opens the one object and operation it names, and a token that passes was issued.
\<close>

section \<open>Errors and keys\<close>

datatype AuthError = AuthInvalidToken | AuthExpired | AuthInvalidSignature | AuthUnknownKid | AuthInvalidKey

fun map_token_wire_error :: "TokenWireError \<Rightarrow> AuthError" where
  "map_token_wire_error InvalidToken = AuthInvalidToken"
| "map_token_wire_error Expired = AuthExpired"
| "map_token_wire_error InvalidSignature = AuthInvalidSignature"
| "map_token_wire_error UnknownKid = AuthUnknownKid"

definition PROXY_TOKEN_TTL_SECONDS :: u64 where
  "PROXY_TOKEN_TTL_SECONDS = 300"

record SignedProxyToken =
  sp_token :: string
  sp_exp :: u64
  sp_expires_in :: u64

definition sign_claims_for_kind :: "('sk, 'pk) token_crates \<Rightarrow> XetClaims \<Rightarrow> 'sk \<Rightarrow> TokenKind \<Rightarrow> AuthError + string" where
  "sign_claims_for_kind K claims keypair kind = map_err map_token_wire_error (sign_claims K claims keypair kind)"

definition sign_xet_token :: "('sk, 'pk) token_crates \<Rightarrow> XetClaims \<Rightarrow> 'sk \<Rightarrow> AuthError + string" where
  "sign_xet_token K claims keypair = sign_claims_for_kind K claims keypair User"

definition sign_internal_token :: "('sk, 'pk) token_crates \<Rightarrow> XetClaims \<Rightarrow> 'sk \<Rightarrow> AuthError + string" where
  "sign_internal_token K claims keypair = sign_claims_for_kind K claims keypair Internal"

definition sign_proxy_claims_token :: "('sk, 'pk) token_crates \<Rightarrow> XetClaims \<Rightarrow> 'sk \<Rightarrow> AuthError + string" where
  "sign_proxy_claims_token K claims keypair = sign_claims_for_kind K claims keypair Proxy"

definition verify_xet_token :: "('sk, 'pk) token_crates \<Rightarrow> u64 option \<Rightarrow> string \<Rightarrow> 'pk \<Rightarrow> string \<Rightarrow> AuthError + XetClaims" where
  "verify_xet_token K clock token public_key expected_kid =
     map_err map_token_wire_error (rbind (verify_token_any_kind K clock token public_key expected_kid) (\<lambda>(_, claims). Inr claims))"

section \<open>Scopes\<close>

definition has_scope :: "XetClaims \<Rightarrow> string \<Rightarrow> bool" where
  "has_scope claims s \<longleftrightarrow> s \<in> set (split_whitespace (xc_scope claims))"

definition check_scope :: "XetClaims \<Rightarrow> string \<Rightarrow> bool" where
  "check_scope claims required_scope =
     (if required_scope = ''internal'' \<or> xc_token_type claims \<noteq> ''user'' then False
      else if has_scope claims ''internal'' then False
      else has_scope claims required_scope)"

definition is_internal_token :: "XetClaims \<Rightarrow> bool" where
  "is_internal_token claims \<longleftrightarrow> xc_sub claims = ''hub-service'' \<and> has_scope claims ''internal'' \<and> xc_token_type claims = ''internal''"

definition authorize_endpoint :: "XetClaims \<Rightarrow> string \<Rightarrow> bool" where
  "authorize_endpoint claims required_scope = check_scope claims required_scope"

section \<open>Configuration\<close>

record PublicKeyConfig =
  pk_kid :: string
  pk_path :: string

record AuthConfig =
  ac_public_key_path :: string
  ac_private_key_path :: "string option"
  ac_public_keys :: "PublicKeyConfig list"
  ac_trusted_kids :: "string list"
  ac_signing_kid :: "string option"

fun validate_public_keys :: "string set \<Rightarrow> PublicKeyConfig list \<Rightarrow> string + string set" where
  "validate_public_keys configured_kids [] = Inr configured_kids"
| "validate_public_keys configured_kids (key # keys) =
     (if blank (pk_kid key) then Inl ''CAS_PUBLIC_KEYS must not contain an empty key ID''
      else if blank (pk_path key) then Inl ''CAS_PUBLIC_KEYS path must not be empty''
      else if pk_kid key \<in> configured_kids then Inl ''CAS_PUBLIC_KEYS contains duplicate key ID''
      else validate_public_keys (insert (pk_kid key) configured_kids) keys)"

fun validate_trusted_kids :: "PublicKeyConfig list \<Rightarrow> string set \<Rightarrow> string set \<Rightarrow> string list \<Rightarrow> string + string set" where
  "validate_trusted_kids public_keys configured_kids trusted_kids [] = Inr trusted_kids"
| "validate_trusted_kids public_keys configured_kids trusted_kids (kid # kids) =
     (if blank kid then Inl ''CAS_TRUSTED_KIDS must not contain empty key IDs''
      else if kid \<in> trusted_kids then Inl ''CAS_TRUSTED_KIDS contains duplicate key ID''
      else if public_keys \<noteq> [] \<and> kid \<notin> configured_kids then Inl ''CAS_TRUSTED_KIDS contains key ID that is not configured''
      else validate_trusted_kids public_keys configured_kids (insert kid trusted_kids) kids)"

definition validate_auth_config :: "AuthConfig \<Rightarrow> string + unit" where
  "validate_auth_config self =
     rbind (if ac_public_keys self = [] then
              if blank (ac_public_key_path self) then Inl ''CAS_PUBLIC_KEY_PATH must not be empty in legacy key mode'' else Inr {}
            else validate_public_keys {} (ac_public_keys self)) (\<lambda>configured_kids.
     if ac_trusted_kids self = [] then Inl ''CAS_TRUSTED_KIDS must contain at least one key ID'' else
     rbind (validate_trusted_kids (ac_public_keys self) configured_kids {} (ac_trusted_kids self)) (\<lambda>trusted_kids.
     if (case ac_private_key_path self of None \<Rightarrow> False | Some path \<Rightarrow> blank path) then Inl ''CAS_PRIVATE_KEY_PATH must not be empty when set''
     else case ac_signing_kid self of
       None \<Rightarrow> Inr ()
     | Some signing_kid \<Rightarrow>
         if blank signing_kid then Inl ''CAS_SIGNING_KID must not be empty when set''
         else if signing_kid \<notin> trusted_kids then Inl ''CAS_SIGNING_KID is not present in CAS_TRUSTED_KIDS''
         else Inr ()))"

definition verification_key_paths :: "AuthConfig \<Rightarrow> string + (string \<times> string) list" where
  "verification_key_paths self =
     rbind (validate_auth_config self) (\<lambda>_.
     if ac_public_keys self = [] then Inr (map (\<lambda>kid. (kid, ac_public_key_path self)) (ac_trusted_kids self))
     else Inr (map (\<lambda>key. (pk_kid key, pk_path key)) (filter (\<lambda>key. pk_kid key \<in> set (ac_trusted_kids self)) (ac_public_keys self))))"

definition effective_signing_kid :: "AuthConfig \<Rightarrow> string option" where
  "effective_signing_kid self =
     (case ac_signing_kid self of
        Some kid \<Rightarrow> Some kid
      | None \<Rightarrow>
          if ac_public_keys self = [] then (case ac_trusted_kids self of [] \<Rightarrow> None | kid # _ \<Rightarrow> Some kid)
          else map_option pk_kid (find (\<lambda>key. pk_kid key \<in> set (ac_trusted_kids self)) (ac_public_keys self)))"

section \<open>The verifier\<close>

record ('sk, 'pk) AuthVerifier =
  av_verification_keys :: "(string \<times> 'pk) list"
  av_signing_key :: "'sk option"
  av_signing_kid :: "string option"

text \<open>The file system and the PEM decoder.\<close>

record ('sk, 'pk) key_source =
  ks_read_to_string :: "string \<Rightarrow> string option"
  ks_public_from_pem :: "string \<Rightarrow> 'pk option"
  ks_private_from_pem :: "string \<Rightarrow> 'sk option"

definition public_key_from_pem :: "('sk, 'pk) key_source \<Rightarrow> string \<Rightarrow> AuthError + 'pk" where
  "public_key_from_pem F pem = ok_or (ks_public_from_pem F pem) AuthInvalidKey"

definition private_key_from_pem :: "('sk, 'pk) key_source \<Rightarrow> string \<Rightarrow> AuthError + 'sk" where
  "private_key_from_pem F pem = ok_or (ks_private_from_pem F pem) AuthInvalidKey"

fun load_keys :: "('sk, 'pk) key_source \<Rightarrow> (string \<times> string) list \<Rightarrow> AuthError + (string \<times> 'pk) list" where
  "load_keys F [] = Inr []"
| "load_keys F ((kid, path) # paths) =
     rbind (ok_or (ks_read_to_string F path) AuthInvalidKey) (\<lambda>pem_content.
     rbind (public_key_from_pem F pem_content) (\<lambda>key.
     rbind (load_keys F paths) (\<lambda>keys. Inr ((kid, key) # keys))))"

definition from_config ::
  "('sk, 'pk) token_crates \<Rightarrow> ('sk, 'pk) key_source \<Rightarrow> AuthConfig \<Rightarrow> AuthError + ('sk, 'pk) AuthVerifier" where
  "from_config K F auth_config =
     rbind (map_err (\<lambda>_. AuthInvalidKey) (verification_key_paths auth_config)) (\<lambda>key_paths.
     rbind (load_keys F key_paths) (\<lambda>verification_keys.
     rbind (ok_or (effective_signing_kid auth_config) AuthInvalidKey) (\<lambda>signing_kid.
     rbind (case ac_private_key_path auth_config of
              None \<Rightarrow> Inr None
            | Some key_path \<Rightarrow>
                rbind (ok_or (ks_read_to_string F key_path) AuthInvalidKey) (\<lambda>pk_pem.
                rbind (private_key_from_pem F pk_pem) (\<lambda>keypair.
                rbind (ok_or (find (\<lambda>entry. fst entry = signing_kid) verification_keys) AuthInvalidKey) (\<lambda>configured_signing_key.
                if snd configured_signing_key \<noteq> ed_public K keypair then Inl AuthInvalidKey else Inr (Some keypair))))) (\<lambda>signing_key.
     Inr \<lparr>av_verification_keys = verification_keys, av_signing_key = signing_key, av_signing_kid = Some signing_kid\<rparr>))))"

definition av_verify_token ::
  "('sk, 'pk) token_crates \<Rightarrow> ('sk, 'pk) AuthVerifier \<Rightarrow> u64 option \<Rightarrow> string \<Rightarrow> AuthError + XetClaims" where
  "av_verify_token K self clock token =
     rbind (map_err map_token_wire_error (unverified_token_kid K token)) (\<lambda>kid.
     rbind (ok_or (find (\<lambda>entry. fst entry = kid) (av_verification_keys self)) AuthUnknownKid) (\<lambda>verification_key.
     verify_xet_token K clock token (snd verification_key) kid))"

text \<open>A clock before 1970 counts as 0 here, and the sum wraps.\<close>

definition sign_proxy_token ::
  "('sk, 'pk) token_crates \<Rightarrow> ('sk, 'pk) AuthVerifier \<Rightarrow> u64 option \<Rightarrow> string \<Rightarrow> string \<Rightarrow> string \<Rightarrow> SignedProxyToken option" where
  "sign_proxy_token K self clock sub oid operation =
     Option.bind (av_signing_key self) (\<lambda>signing_key.
     Option.bind (av_signing_kid self) (\<lambda>kid.
     let now = (case clock of None \<Rightarrow> 0 | Some t \<Rightarrow> t);
         exp = now + PROXY_TOKEN_TTL_SECONDS;
         claims = \<lparr>xc_sub = sub, xc_scope = ''lfs-'' @ operation, xc_repo_id = [], xc_repo_type = [], xc_revision = [],
           xc_exp = exp, xc_iat = now, xc_kid = kid, xc_token_type = ''proxy'', xc_oid = Some oid, xc_operation = Some operation\<rparr> in
     case sign_claims K claims signing_key Proxy of
       Inl _ \<Rightarrow> None
     | Inr token \<Rightarrow> Some \<lparr>sp_token = token, sp_exp = exp, sp_expires_in = PROXY_TOKEN_TTL_SECONDS\<rparr>))"

definition can_sign_proxy_tokens :: "('sk, 'pk) AuthVerifier \<Rightarrow> bool" where
  "can_sign_proxy_tokens self \<longleftrightarrow> av_signing_key self \<noteq> None"

section \<open>Requests\<close>

definition extract_bearer_token :: "string \<Rightarrow> string option" where
  "extract_bearer_token auth_header = strip_prefix ''Bearer '' auth_header"

text \<open>\<open>HeaderValue::to_str\<close> accepts visible ASCII and tabs.\<close>

definition header_to_str :: "string \<Rightarrow> string option" where
  "header_to_str v = (if list_all visible v then Some v else None)"

text \<open>The argument \<open>decode\<close> is standard base64 with padding.\<close>

definition extract_token_from_request :: "(string \<Rightarrow> string option) \<Rightarrow> string option \<Rightarrow> string option" where
  "extract_token_from_request decode authorization =
     Option.bind authorization (\<lambda>auth_header.
     Option.bind (header_to_str auth_header) (\<lambda>auth_str.
     case extract_bearer_token auth_str of
       Some token \<Rightarrow> Some token
     | None \<Rightarrow>
         Option.bind (Option.bind (Option.bind (strip_prefix ''Basic '' auth_str) decode)
             (\<lambda>decoded. if utf8_valid decoded then Some decoded else None))
           (\<lambda>credentials. map_option snd (split_once CHR '':'' credentials))))"

datatype LfsOperation = Upload | Download

fun required_regular_scope :: "LfsOperation \<Rightarrow> string" where
  "required_regular_scope Upload = ''write''"
| "required_regular_scope Download = ''read''"

fun proxy_scope :: "LfsOperation \<Rightarrow> string" where
  "proxy_scope Upload = ''lfs-upload''"
| "proxy_scope Download = ''lfs-download''"

fun claim_value :: "LfsOperation \<Rightarrow> string" where
  "claim_value Upload = ''upload''"
| "claim_value Download = ''download''"

datatype AuthNeed = NeedScope string | NeedScopeMsg string string | NeedInternal string | NeedLfsObject LfsOperation string string

definition authorize_lfs_object :: "XetClaims \<Rightarrow> LfsOperation \<Rightarrow> string \<Rightarrow> bool" where
  "authorize_lfs_object claims operation oid =
     (if xc_token_type claims = ''proxy'' then
        has_scope claims (proxy_scope operation) \<and> xc_oid claims = Some oid \<and> xc_operation claims = Some (claim_value operation)
      else authorize_endpoint claims (required_regular_scope operation))"

fun forbidden_message :: "AuthNeed \<Rightarrow> string" where
  "forbidden_message (NeedScope _) = ''Insufficient scope''"
| "forbidden_message (NeedScopeMsg _ msg) = msg"
| "forbidden_message (NeedInternal msg) = msg"
| "forbidden_message (NeedLfsObject _ _ message) = message"

datatype AuthReject = RejectMissingToken | RejectInvalidToken | RejectForbidden string

fun error_parts :: "AuthReject \<Rightarrow> nat \<times> string" where
  "error_parts RejectMissingToken = (401, ''Missing or invalid authorization token'')"
| "error_parts RejectInvalidToken = (401, ''Invalid token'')"
| "error_parts (RejectForbidden msg) = (403, msg)"

fun message_parts :: "AuthReject \<Rightarrow> nat \<times> string" where
  "message_parts RejectMissingToken = (401, ''Missing or invalid authorization'')"
| "message_parts RejectInvalidToken = (401, ''Invalid token'')"
| "message_parts (RejectForbidden msg) = (403, msg)"

fun authorized :: "XetClaims \<Rightarrow> AuthNeed \<Rightarrow> bool" where
  "authorized claims (NeedScope scope) = authorize_endpoint claims scope"
| "authorized claims (NeedScopeMsg scope _) = authorize_endpoint claims scope"
| "authorized claims (NeedInternal _) = is_internal_token claims"
| "authorized claims (NeedLfsObject operation oid _) = authorize_lfs_object claims operation oid"

definition require_auth ::
  "('sk, 'pk) token_crates \<Rightarrow> (string \<Rightarrow> string option) \<Rightarrow> u64 option \<Rightarrow> string option \<Rightarrow> ('sk, 'pk) AuthVerifier \<Rightarrow> AuthNeed \<Rightarrow> AuthReject + XetClaims" where
  "require_auth K decode clock authorization auth need =
     rbind (ok_or (extract_token_from_request decode authorization) RejectMissingToken) (\<lambda>token.
     rbind (map_err (\<lambda>_. RejectInvalidToken) (av_verify_token K auth clock token)) (\<lambda>claims.
     let forbidden_msg = forbidden_message need in
     if authorized claims need then Inr claims else Inl (RejectForbidden forbidden_msg)))"


section \<open>The access policy\<close>

text \<open>What the claims of a token stand for.\<close>

datatype grant = UserGrant "string set" | ProxyGrant LfsOperation string | ServiceGrant | NoGrant

definition grant_of :: "XetClaims \<Rightarrow> grant" where
  "grant_of claims =
     (if xc_token_type claims = ''user'' then UserGrant (set (split_whitespace (xc_scope claims)))
      else if xc_token_type claims = ''proxy'' then ProxyGrant (if xc_operation claims = Some ''upload'' then Upload else Download) (the (xc_oid claims))
      else if xc_sub claims = ''hub-service'' \<and> has_scope claims ''internal'' then ServiceGrant
      else NoGrant)"

text \<open>Which requests a grant opens. User scopes never open internal endpoints, and a user token that names
  the internal scope opens nothing.\<close>

definition user_allows :: "string set \<Rightarrow> string \<Rightarrow> bool" where
  "user_allows scopes scope \<longleftrightarrow> scope \<in> scopes \<and> scope \<noteq> ''internal'' \<and> ''internal'' \<notin> scopes"

fun allows :: "grant \<Rightarrow> AuthNeed \<Rightarrow> bool" where
  "allows (UserGrant scopes) (NeedScope scope) = user_allows scopes scope"
| "allows (UserGrant scopes) (NeedScopeMsg scope _) = user_allows scopes scope"
| "allows (UserGrant scopes) (NeedInternal _) = False"
| "allows (UserGrant scopes) (NeedLfsObject operation _ _) = user_allows scopes (required_regular_scope operation)"
| "allows (ProxyGrant op oid) (NeedLfsObject operation oid' _) = (op = operation \<and> oid = oid')"
| "allows (ProxyGrant op oid) _ = False"
| "allows ServiceGrant (NeedInternal _) = True"
| "allows ServiceGrant _ = False"
| "allows NoGrant _ = False"

lemma proxy_scopes: "split_whitespace ''lfs-upload'' = [''lfs-upload'']" "split_whitespace ''lfs-download'' = [''lfs-download'']"
  by (simp_all add: split_whitespace_def ws_len_def)

lemma authorized_iff_allows:
  assumes "validate_claims_for_kind claims kind = Inr ()"
  shows "authorized claims need \<longleftrightarrow> allows (grant_of claims) need"
proof (cases kind)
  case User
  with assms have "xc_token_type claims = ''user''" by (simp add: validate_claims_iff)
  then show ?thesis
    by (cases need) (auto simp: grant_of_def authorize_endpoint_def check_scope_def has_scope_def user_allows_def
        is_internal_token_def authorize_lfs_object_def)
next
  case Internal
  with assms have "xc_token_type claims = ''internal''" by (simp add: validate_claims_iff)
  then show ?thesis
    by (cases need) (auto simp: grant_of_def authorize_endpoint_def check_scope_def is_internal_token_def authorize_lfs_object_def)
next
  case Proxy
  with assms obtain oid op where c: "xc_token_type claims = ''proxy''" "xc_oid claims = Some oid" "xc_operation claims = Some op"
    "op = ''upload'' \<or> op = ''download''" "xc_scope claims = ''lfs-'' @ op" by (auto simp: validate_claims_iff)
  show ?thesis
  proof (cases need)
    case (NeedLfsObject operation oid' msg)
    with c show ?thesis by (cases operation) (auto simp: grant_of_def authorize_lfs_object_def has_scope_def proxy_scopes)
  qed (use c in \<open>simp_all add: grant_of_def authorize_endpoint_def check_scope_def is_internal_token_def\<close>)
qed

section \<open>Verification\<close>

lemma unverified_kid_header:
  assumes "verify_token_any_kind K clock token pk kid = Inr (kind, claims)"
  shows "unverified_token_kid K token = Inr kid"
proof -
  obtain h c s header where "token_parts token = Inr (kind, h, c, s)" "decode_header K h = Inr header" "jh_kid header = kid"
    using assms unfolding verify_Inr_iff by blast
  then show ?thesis by (simp add: unverified_token_kid_def)
qed

lemma av_verify_Inr:
  assumes "av_verify_token K V clock token = Inr claims"
  obtains kid pk kind where "(kid, pk) \<in> set (av_verification_keys V)" "verify_token_any_kind K clock token pk kid = Inr (kind, claims)"
proof -
  obtain kid entry where kid: "find (\<lambda>entry. fst entry = kid) (av_verification_keys V) = Some entry"
      "verify_xet_token K clock token (snd entry) kid = Inr claims"
    using assms unfolding av_verify_token_def by (auto simp: result_simps)
  then obtain kind where "verify_token_any_kind K clock token (snd entry) kid = Inr (kind, claims)"
    by (auto simp: verify_xet_token_def result_simps)
  moreover have "entry \<in> set (av_verification_keys V)" "fst entry = kid" using kid(1) by (auto simp: find_Some_iff)
  ultimately show ?thesis using that by (metis prod.collapse)
qed

lemma av_verified_valid:
  assumes "av_verify_token K V clock token = Inr claims"
  shows "\<exists>now kind. clock = Some now \<and> xc_iat claims \<le> now \<and> now < xc_exp claims \<and> validate_claims_for_kind claims kind = Inr ()"
proof -
  obtain kid pk kind where "verify_token_any_kind K clock token pk kid = Inr (kind, claims)" by (rule av_verify_Inr [OF assms])
  then show ?thesis unfolding verify_Inr_iff by blast
qed

text \<open>The verifier trusts the public key of a signing key under its key identifier.\<close>

definition trusts :: "('sk, 'pk) token_crates \<Rightarrow> ('sk, 'pk) AuthVerifier \<Rightarrow> string \<Rightarrow> 'sk \<Rightarrow> bool" where
  "trusts K V kid sk \<longleftrightarrow> find (\<lambda>entry. fst entry = kid) (av_verification_keys V) = Some (kid, ed_public K sk)"

lemma av_verify_issued:
  assumes "b64u_contract K" "json_contract K" "ed25519_contract K" "sign_claims K claims sk kind = Inr token" "trusts K V (xc_kid claims) sk"
  shows "av_verify_token K V (Some now) token =
    (if xc_exp claims \<le> now then Inl AuthExpired else if now < xc_iat claims then Inl AuthInvalidToken else Inr claims)"
  using unverified_kid_issued [OF assms(1,2,4)] verify_issued [OF assms(1-4)] assms(5)
  by (simp add: av_verify_token_def verify_xet_token_def trusts_def)

lemma bearer_token:
  assumes "list_all visible token"
  shows "extract_token_from_request decode (Some (''Bearer '' @ token)) = Some token"
  using assms strip_prefix_append [of "''Bearer ''" token]
  by (simp add: extract_token_from_request_def header_to_str_def extract_bearer_token_def visible_def)

lemma require_auth_verified:
  assumes "extract_token_from_request decode authorization = Some token" "av_verify_token K V clock token = Inr claims"
  shows "require_auth K decode clock authorization V need =
    (if allows (grant_of claims) need then Inr claims else Inl (RejectForbidden (forbidden_message need)))"
proof -
  obtain kind where "validate_claims_for_kind claims kind = Inr ()" using av_verified_valid [OF assms(2)] by blast
  from authorized_iff_allows [OF this] assms show ?thesis by (simp add: require_auth_def Let_def)
qed

lemma require_auth_Inr:
  "require_auth K decode clock authorization V need = Inr claims \<longleftrightarrow>
     (\<exists>token. extract_token_from_request decode authorization = Some token \<and> av_verify_token K V clock token = Inr claims \<and>
        allows (grant_of claims) need)"
proof
  assume "require_auth K decode clock authorization V need = Inr claims"
  then obtain token where t: "extract_token_from_request decode authorization = Some token" "av_verify_token K V clock token = Inr claims" "authorized claims need"
    unfolding require_auth_def by (auto simp: result_simps Let_def split: if_splits)
  obtain kind where "validate_claims_for_kind claims kind = Inr ()" using av_verified_valid [OF t(2)] by blast
  from authorized_iff_allows [OF this] t show "\<exists>token. extract_token_from_request decode authorization = Some token \<and>
      av_verify_token K V clock token = Inr claims \<and> allows (grant_of claims) need" by blast
qed (auto simp: require_auth_verified)


section \<open>Keys from the configuration\<close>

lemma validate_public_keys_distinct:
  assumes "validate_public_keys seen keys = Inr kids"
  shows "distinct (map pk_kid keys) \<and> set (map pk_kid keys) \<inter> seen = {} \<and> kids = seen \<union> set (map pk_kid keys) \<and>
    (\<forall>key\<in>set keys. \<not> blank (pk_kid key))"
  using assms
proof (induction keys arbitrary: seen)
  case (Cons key keys)
  then have "validate_public_keys (insert (pk_kid key) seen) keys = Inr kids" "pk_kid key \<notin> seen" "\<not> blank (pk_kid key)"
    by (simp_all add: result_simps)
  with Cons.IH [OF this(1)] show ?case by auto
qed simp

lemma validate_trusted_kids_distinct:
  assumes "validate_trusted_kids keys configured seen trusted = Inr kids"
  shows "distinct trusted \<and> set trusted \<inter> seen = {} \<and> kids = seen \<union> set trusted \<and> (\<forall>kid\<in>set trusted. \<not> blank kid) \<and>
    (keys \<noteq> [] \<longrightarrow> set trusted \<subseteq> configured)"
  using assms
proof (induction trusted arbitrary: seen)
  case (Cons kid trusted)
  then have "validate_trusted_kids keys configured (insert kid seen) trusted = Inr kids" "kid \<notin> seen" "\<not> blank kid"
      "keys = [] \<or> kid \<in> configured"
    by (simp_all add: result_simps)
  with Cons.IH [OF this(1)] show ?case by auto
qed simp

lemma load_keys_kids: "load_keys F paths = Inr keys \<Longrightarrow> map fst keys = map fst paths"
  by (induction F paths arbitrary: keys rule: load_keys.induct) (auto simp: result_simps)

lemma key_paths_kids:
  assumes "verification_key_paths cfg = Inr paths"
  shows "distinct (map fst paths)" "set (map fst paths) = set (ac_trusted_kids cfg)" "\<forall>kid\<in>set (map fst paths). \<not> blank kid"
proof -
  have v: "validate_auth_config cfg = Inr ()" using assms by (auto simp: verification_key_paths_def result_simps)
  have "distinct (map fst paths) \<and> set (map fst paths) = set (ac_trusted_kids cfg) \<and> (\<forall>kid\<in>set (map fst paths). \<not> blank kid)"
  proof (cases "ac_public_keys cfg = []")
    case True
    then obtain kids where "validate_trusted_kids [] {} {} (ac_trusted_kids cfg) = Inr kids"
      using v by (auto simp: validate_auth_config_def result_simps split: if_splits)
    note t = validate_trusted_kids_distinct [OF this]
    have "paths = map (\<lambda>kid. (kid, ac_public_key_path cfg)) (ac_trusted_kids cfg)"
      using assms True v by (simp add: verification_key_paths_def)
    with t show ?thesis by (simp add: o_def)
  next
    case False
    then obtain conf kids where "validate_public_keys {} (ac_public_keys cfg) = Inr conf"
        "validate_trusted_kids (ac_public_keys cfg) conf {} (ac_trusted_kids cfg) = Inr kids"
      using v by (auto simp: validate_auth_config_def result_simps)
    note c = validate_public_keys_distinct [OF this(1)] and t = validate_trusted_kids_distinct [OF this(2)]
    have p: "map fst paths = filter (\<lambda>kid. kid \<in> set (ac_trusted_kids cfg)) (map pk_kid (ac_public_keys cfg))"
      using assms False v by (auto simp: verification_key_paths_def filter_map o_def)
    show ?thesis unfolding p using c t False by auto
  qed
  then show "distinct (map fst paths)" "set (map fst paths) = set (ac_trusted_kids cfg)" "\<forall>kid\<in>set (map fst paths). \<not> blank kid"
    by blast+
qed

lemma from_config_keys:
  assumes "from_config K F cfg = Inr V"
  shows "distinct (map fst (av_verification_keys V))" "fst ` set (av_verification_keys V) = set (ac_trusted_kids cfg)"
proof -
  obtain paths keys where "verification_key_paths cfg = Inr paths" "load_keys F paths = Inr keys" "av_verification_keys V = keys"
    using assms unfolding from_config_def by (auto simp: result_simps)
  with load_keys_kids key_paths_kids show "distinct (map fst (av_verification_keys V))" "fst ` set (av_verification_keys V) = set (ac_trusted_kids cfg)"
    by (metis, metis list.set_map)
qed

lemma from_config_signer:
  assumes "from_config K F cfg = Inr V" "av_signing_key V = Some sk"
  obtains kid where "av_signing_kid V = Some kid" "trusts K V kid sk"
proof -
  obtain keys kid key where V: "V = \<lparr>av_verification_keys = keys, av_signing_key = key, av_signing_kid = Some kid\<rparr>"
    and key: "(case ac_private_key_path cfg of
              None \<Rightarrow> Inr None
            | Some key_path \<Rightarrow>
                rbind (ok_or (ks_read_to_string F key_path) AuthInvalidKey) (\<lambda>pk_pem.
                rbind (private_key_from_pem F pk_pem) (\<lambda>keypair.
                rbind (ok_or (find (\<lambda>entry. fst entry = kid) keys) AuthInvalidKey) (\<lambda>configured_signing_key.
                if snd configured_signing_key \<noteq> ed_public K keypair then Inl AuthInvalidKey else Inr (Some keypair))))) = Inr key"
    using assms(1) unfolding from_config_def by (auto simp only: rbind_eq_Inr map_err_eq_Inr ok_or_eq_Inr sum.inject)
  with assms(2) obtain entry where entry: "find (\<lambda>entry. fst entry = kid) keys = Some entry" "snd entry = ed_public K sk"
    by (auto simp: result_simps split: option.splits)
  then have "fst entry = kid" by (auto simp: find_Some_iff)
  with entry have "find (\<lambda>entry. fst entry = kid) keys = Some (kid, ed_public K sk)" by (metis prod.collapse)
  then show ?thesis using that V by (simp add: trusts_def)
qed


section \<open>Properties\<close>

definition admitted ::
  "('sk, 'pk) token_crates \<Rightarrow> (string \<Rightarrow> string option) \<Rightarrow> ('sk, 'pk) AuthVerifier \<Rightarrow> u64 \<Rightarrow> string \<Rightarrow> AuthNeed \<Rightarrow> bool" where
  "admitted K decode V now token need \<longleftrightarrow> (\<exists>claims. require_auth K decode (Some now) (Some (''Bearer '' @ token)) V need = Inr claims)"

lemma admitted_issued:
  assumes "b64u_contract K" "json_contract K" "ed25519_contract K" "sign_claims K claims sk kind = Inr token" "trusts K V (xc_kid claims) sk"
  shows "admitted K decode V now token need \<longleftrightarrow> xc_iat claims \<le> now \<and> now < xc_exp claims \<and> allows (grant_of claims) need"
proof -
  have "extract_token_from_request decode (Some (''Bearer '' @ token)) = Some token"
    using bearer_token [OF issued_token_visible [OF assms(1,2,4)]] .
  moreover have "av_verify_token K V (Some now) token = Inr c \<longleftrightarrow> c = claims \<and> xc_iat claims \<le> now \<and> now < xc_exp claims" for c
    unfolding av_verify_issued [OF assms] by auto
  ultimately show ?thesis unfolding admitted_def require_auth_Inr by auto
qed

lemma signer_Inr:
  "signer_sign_claims K H claims kind = Inr (token, exp) \<longleftrightarrow> sign_claims K claims (xs_signing_key H) kind = Inr token \<and> exp = xc_exp claims"
  by (auto simp: signer_sign_claims_def Let_def result_simps)

text \<open>
  The tokens of the front end at the guard of the storage server. A user token, a proxy
  token and an internal token are each admitted exactly from the second they are signed until
  the second they expire, and exactly for what their kind grants: the user token for the
  scopes it lists, the proxy token for its one object and operation, the internal token for
  internal endpoints.
\<close>

theorem hub_tokens_at_the_guard:
  assumes K: "b64u_contract K" "json_contract K" "ed25519_contract K"
    and V: "trusts K V (xs_kid H) (xs_signing_key H)"
    and user: "sign K H (Some t) sub scope repo_id repo_type revision = Inr (user_token, user_exp)"
    and proxy: "sign_proxy K H (Some t) sub oid operation repo_id repo_type = Inr (proxy_token, proxy_exp)"
    and internal: "sign_internal K H (Some t) = Inr (internal_token, internal_exp)"
  shows "(admitted K decode V now user_token need \<longleftrightarrow>
      t \<le> now \<and> now < user_exp \<and> allows (UserGrant (set (split_whitespace scope))) need) \<and>
    (admitted K decode V now proxy_token need \<longleftrightarrow>
      t \<le> now \<and> now < proxy_exp \<and> allows (ProxyGrant (if operation = ''upload'' then Upload else Download) oid) need) \<and>
    (admitted K decode V now internal_token need \<longleftrightarrow> t \<le> now \<and> now < internal_exp \<and> allows ServiceGrant need)"
    (is "?user \<and> ?proxy \<and> ?internal")
proof -
  let ?u = "\<lparr>xc_sub = sub, xc_scope = scope, xc_repo_id = repo_id, xc_repo_type = repo_type, xc_revision = revision,
    xc_exp = user_exp, xc_iat = t, xc_kid = xs_kid H, xc_token_type = ''user'', xc_oid = None, xc_operation = None\<rparr>"
  have "sign_claims K ?u (xs_signing_key H) User = Inr user_token"
    using user by (auto simp: sign_def signer_now_def result_simps signer_Inr)
  from admitted_issued [OF K this] V have u: ?user by (simp add: grant_of_def)
  let ?p = "\<lparr>xc_sub = sub, xc_scope = ''lfs-'' @ operation, xc_repo_id = repo_id, xc_repo_type = repo_type, xc_revision = [],
    xc_exp = proxy_exp, xc_iat = t, xc_kid = xs_kid H, xc_token_type = ''proxy'', xc_oid = Some oid, xc_operation = Some operation\<rparr>"
  have "sign_claims K ?p (xs_signing_key H) Proxy = Inr proxy_token"
    using proxy by (auto simp: sign_proxy_def signer_now_def result_simps signer_Inr)
  from admitted_issued [OF K this] V have p: ?proxy by (simp add: grant_of_def)
  let ?i = "\<lparr>xc_sub = ''hub-service'', xc_scope = ''internal'', xc_repo_id = [], xc_repo_type = [], xc_revision = [],
    xc_exp = internal_exp, xc_iat = t, xc_kid = xs_kid H, xc_token_type = ''internal'', xc_oid = None, xc_operation = None\<rparr>"
  have sig_i: "sign_claims K ?i (xs_signing_key H) Internal = Inr internal_token"
    using internal by (auto simp: sign_internal_def signer_now_def result_simps signer_Inr)
  have "split_whitespace ''internal'' = [''internal'']" by (simp add: split_whitespace_def ws_len_def)
  then have ?internal using admitted_issued [OF K sig_i] V by (simp add: grant_of_def has_scope_def)
  with u p show ?thesis by blast
qed


text \<open>
  A server configured with a private key verifies its own proxy tokens: the configuration
  is refused unless the private key belongs to the public key of the signing key identifier.
  The key identifiers of the verifier are the trusted ones, each with one key. A proxy token
  it signs is admitted for five minutes, for its object and operation only.
\<close>

theorem configured_server_accepts_own_proxy_tokens:
  assumes K: "b64u_contract K" "json_contract K" "ed25519_contract K"
    and cfg: "from_config K F cfg = Inr V" and signed: "sign_proxy_token K V (Some t) sub oid operation = Some p"
    and time: "unat t + 300 < 2 ^ 64"
  shows "distinct (map fst (av_verification_keys V)) \<and> fst ` set (av_verification_keys V) = set (ac_trusted_kids cfg) \<and>
    (admitted K decode V now (sp_token p) need \<longleftrightarrow>
       unat t \<le> unat now \<and> unat now < unat t + 300 \<and> allows (ProxyGrant (if operation = ''upload'' then Upload else Download) oid) need)"
proof -
  obtain sk kid where sk: "av_signing_key V = Some sk" "av_signing_kid V = Some kid"
    using signed by (auto simp: sign_proxy_token_def bind_eq_Some_conv)
  have "trusts K V kid sk" using from_config_signer [OF cfg sk(1)] sk(2) by (metis option.inject)
  let ?p = "\<lparr>xc_sub = sub, xc_scope = ''lfs-'' @ operation, xc_repo_id = [], xc_repo_type = [], xc_revision = [],
    xc_exp = t + 300, xc_iat = t, xc_kid = kid, xc_token_type = ''proxy'', xc_oid = Some oid, xc_operation = Some operation\<rparr>"
  have "sign_claims K ?p sk Proxy = Inr (sp_token p)"
    using signed sk by (auto simp: sign_proxy_token_def PROXY_TOKEN_TTL_SECONDS_def Let_def split: sum.splits)
  from admitted_issued [OF K this] \<open>trusts K V kid sk\<close>
  have "admitted K decode V now (sp_token p) need \<longleftrightarrow>
      t \<le> now \<and> now < t + 300 \<and> allows (ProxyGrant (if operation = ''upload'' then Upload else Download) oid) need"
    by (simp add: grant_of_def)
  moreover have "unat (t + 300) = unat t + 300" using time by (simp add: unat_word_ariths)
  ultimately show ?thesis using from_config_keys [OF cfg] by (simp add: word_le_nat_alt word_less_nat_alt)
qed


definition demo_signer :: "string XetSigner" where
  "demo_signer = new_signer ''key'' ''kid'' 3600 300"

definition demo_verifier :: "(string, string) AuthVerifier" where
  "demo_verifier = \<lparr>av_verification_keys = [(''kid'', ''key'')], av_signing_key = None, av_signing_kid = None\<rparr>"

lemma sign_claims_valid: "validate_claims_for_kind claims kind = Inr () \<Longrightarrow> \<exists>token. sign_claims inst_token_crates claims sk kind = Inr token"
  using sign_claims_iff [OF inst_json_contract] by blast

lemma not_blank_demo: "\<not> blank ''o''" "\<not> blank ''kid''" "\<not> blank ''pub''" "\<not> blank ''priv''"
  by (subst blank.simps, simp add: ws_len_def)+

lemma demo_tokens:
  "\<exists>token. sign inst_token_crates demo_signer (Some 1000) ''u'' ''read write'' ''u/r'' ''model'' ''main'' = Inr (token, 4600)"
  "\<exists>token. sign_proxy inst_token_crates demo_signer (Some 1000) ''u'' ''o'' ''upload'' ''u/r'' ''model'' = Inr (token, 1300)"
  "\<exists>token. sign_internal inst_token_crates demo_signer (Some 1000) = Inr (token, 87400)"
proof -
  note defs = sign_def sign_proxy_def sign_internal_def signer_now_def expiration_def checked_add_def signer_Inr demo_signer_def
    new_signer_def new_with_internal_ttl_def
  show "\<exists>token. sign inst_token_crates demo_signer (Some 1000) ''u'' ''read write'' ''u/r'' ''model'' ''main'' = Inr (token, 4600)"
    by (simp add: defs) (rule sign_claims_valid, simp add: validate_claims_iff)
  show "\<exists>token. sign_proxy inst_token_crates demo_signer (Some 1000) ''u'' ''o'' ''upload'' ''u/r'' ''model'' = Inr (token, 1300)"
    by (simp add: defs) (rule sign_claims_valid, simp add: validate_claims_iff not_blank_demo)
  show "\<exists>token. sign_internal inst_token_crates demo_signer (Some 1000) = Inr (token, 87400)"
    by (simp add: defs) (rule sign_claims_valid, simp add: validate_claims_iff)
qed

theorem hub_tokens_at_the_guard_witness:
  "\<exists>user_token proxy_token. sign inst_token_crates demo_signer (Some 1000) ''u'' ''read write'' ''u/r'' ''model'' ''main'' = Inr (user_token, 4600) \<and>
     sign_proxy inst_token_crates demo_signer (Some 1000) ''u'' ''o'' ''upload'' ''u/r'' ''model'' = Inr (proxy_token, 1300) \<and>
     admitted inst_token_crates Some demo_verifier 1001 user_token (NeedScope ''write'') \<and>
     admitted inst_token_crates Some demo_verifier 1001 proxy_token (NeedLfsObject Upload ''o'' []) \<and>
     \<not> admitted inst_token_crates Some demo_verifier 1001 proxy_token (NeedScope ''write'') \<and>
     \<not> admitted inst_token_crates Some demo_verifier 1300 proxy_token (NeedLfsObject Upload ''o'' [])"
proof -
  obtain u p i where s: "sign inst_token_crates demo_signer (Some 1000) ''u'' ''read write'' ''u/r'' ''model'' ''main'' = Inr (u, 4600)"
    "sign_proxy inst_token_crates demo_signer (Some 1000) ''u'' ''o'' ''upload'' ''u/r'' ''model'' = Inr (p, 1300)"
    "sign_internal inst_token_crates demo_signer (Some 1000) = Inr (i, 87400)" using demo_tokens by blast
  have V: "trusts inst_token_crates demo_verifier (xs_kid demo_signer) (xs_signing_key demo_signer)"
    by (simp add: trusts_def demo_verifier_def demo_signer_def new_signer_def new_with_internal_ttl_def inst_token_crates_def)
  note guard = hub_tokens_at_the_guard [OF inst_b64u_contract inst_json_contract inst_ed25519_contract V s, where decode = Some]
  have "split_whitespace ''read write'' = [''read'', ''write'']" by (simp add: split_whitespace_def ws_len_def)
  then show ?thesis using s guard by (simp add: user_allows_def)
qed

definition demo_claims :: XetClaims where
  "demo_claims = \<lparr>xc_sub = ''u'', xc_scope = ''read'', xc_repo_id = [], xc_repo_type = [], xc_revision = [], xc_exp = 2000, xc_iat = 1000,
     xc_kid = ''kid'', xc_token_type = ''user'', xc_oid = None, xc_operation = None\<rparr>"

text \<open>Crates whose signatures cover the demo claims only.\<close>

definition demo_crates :: "(string, string) token_crates" where
  "demo_crates = inst_token_crates\<lparr>ed_verify := (\<lambda>pk m s. m = signing_input inst_token_crates demo_claims)\<rparr>"


definition auth_demo_config :: AuthConfig where
  "auth_demo_config = \<lparr>ac_public_key_path = ''pub'', ac_private_key_path = Some ''priv'', ac_public_keys = [], ac_trusted_kids = [''kid''], ac_signing_kid = None\<rparr>"

definition demo_keys :: "(string, string) key_source" where
  "demo_keys = \<lparr>ks_read_to_string = Some, ks_public_from_pem = (\<lambda>_. Some ''key''), ks_private_from_pem = (\<lambda>_. Some ''key'')\<rparr>"

theorem configured_server_accepts_own_proxy_tokens_witness:
  "\<exists>V p. from_config inst_token_crates demo_keys auth_demo_config = Inr V \<and>
     sign_proxy_token inst_token_crates V (Some 1000) ''u'' ''o'' ''download'' = Some p \<and>
     admitted inst_token_crates Some V 1299 (sp_token p) (NeedLfsObject Download ''o'' []) \<and>
     \<not> admitted inst_token_crates Some V 1299 (sp_token p) (NeedLfsObject Download ''q'' [])"
proof -
  let ?V = "\<lparr>av_verification_keys = [(''kid'', ''key'')], av_signing_key = Some ''key'', av_signing_kid = Some ''kid''\<rparr>"
  have cfg: "from_config inst_token_crates demo_keys auth_demo_config = Inr ?V"
    by (simp add: from_config_def verification_key_paths_def validate_auth_config_def auth_demo_config_def demo_keys_def not_blank_demo
        effective_signing_kid_def public_key_from_pem_def private_key_from_pem_def inst_token_crates_def)
  have "\<exists>token. sign_claims inst_token_crates \<lparr>xc_sub = ''u'', xc_scope = ''lfs-'' @ ''download'', xc_repo_id = [], xc_repo_type = [], xc_revision = [],
      xc_exp = 1300, xc_iat = 1000, xc_kid = ''kid'', xc_token_type = ''proxy'', xc_oid = Some ''o'', xc_operation = Some ''download''\<rparr> ''key'' Proxy = Inr token"
    by (rule sign_claims_valid) (simp add: validate_claims_iff not_blank_demo)
  then obtain p where p: "sign_proxy_token inst_token_crates ?V (Some 1000) ''u'' ''o'' ''download'' = Some p"
    by (auto simp: sign_proxy_token_def PROXY_TOKEN_TTL_SECONDS_def)
  from configured_server_accepts_own_proxy_tokens [OF inst_b64u_contract inst_json_contract inst_ed25519_contract cfg p, where decode = Some and now = 1299]
  have "admitted inst_token_crates Some ?V 1299 (sp_token p) need \<longleftrightarrow> allows (ProxyGrant Download ''o'') need" for need by simp
  with cfg p show ?thesis by (intro exI [of _ ?V] exI [of _ p]) simp
qed

end
