(* ===== verification/Hub_Commit.thy ===== *)
theory Hub_Commit
  imports Hub_Repo Cas_Auth
begin

text \<open>
  Commits of the front end: \<^verbatim>\<open>src/hub/src/services/commit.rs\<close> and \<^verbatim>\<open>src/hub/src/commit/\<close>. The storage
  server behind the client trait, JSON, base64 and the nonce are parameters. The three calls
  to the store run on states \<open>dbs 0\<close>, \<open>dbs 1\<close> and \<open>dbs 2\<close>: other requests can write in between.

  The lemmas show that a commit that succeeds extends the head that the client named, that of
  two commits on one parent at most one succeeds, and what a stored path can look like.
\<close>

section \<open>Paths and contents\<close>

definition MAX_FILE_PATH_LENGTH :: nat where
  "MAX_FILE_PATH_LENGTH = 4096"

definition is_separator :: "char \<Rightarrow> bool" where
  "is_separator c \<longleftrightarrow> c = CHR ''/'' \<or> c = BSLASH"

definition reserved_names :: "string list" where
  "reserved_names = [''CON'', ''PRN'', ''AUX'', ''NUL'', ''COM1'', ''COM2'', ''COM3'', ''COM4'', ''COM5'', ''COM6'', ''COM7'', ''COM8'',
     ''COM9'', ''LPT1'', ''LPT2'', ''LPT3'', ''LPT4'', ''LPT5'', ''LPT6'', ''LPT7'', ''LPT8'', ''LPT9'']"

definition validate_file_path :: "string \<Rightarrow> string + unit" where
  "validate_file_path path =
     (if length path > MAX_FILE_PATH_LENGTH then Inl ''File path is too long''
      else if path = [] then Inl ''File path cannot be empty''
      else if CHR 0x00 \<in> set path then Inl ''File path cannot contain null bytes''
      else if hd path = CHR ''/'' \<or> hd path = BSLASH then Inl ''File path cannot be absolute''
      else if list_ex (\<lambda>component. component = ''..'') (str_split is_separator path) then Inl ''File path contains path traversal''
      else if str_contains ''//'' path \<or> str_contains [BSLASH, BSLASH] path then Inl ''File path contains empty components''
      else
        let first_component = hd (str_split is_separator path) in
        if list_ex (\<lambda>r. eq_ignore_ascii_case r first_component) reserved_names then Inl ''File path uses reserved name''
        else Inr ())"

definition decode_base64_content :: "(string \<Rightarrow> bytes option) \<Rightarrow> string \<Rightarrow> string + bytes" where
  "decode_base64_content decode content =
     (let content_to_decode = (case strip_prefix ''base64:'' content of Some c \<Rightarrow> c | None \<Rightarrow> content) in
      ok_or (decode content_to_decode) ''Base64 decode error'')"

definition as_bytes :: "string \<Rightarrow> bytes" where
  "as_bytes s = map (\<lambda>c. of_nat (of_char c)) s"

definition generate_commit_id :: "crates \<Rightarrow> string \<Rightarrow> int \<Rightarrow> string option \<Rightarrow> string \<Rightarrow> int \<Rightarrow> string" where
  "generate_commit_id C nonce repo_id parent message timestamp =
     (let input = show_int repo_id @ '':'' @ (case parent of None \<Rightarrow> [] | Some p \<Rightarrow> p) @ '':'' @ message @ '':'' @
        show_int timestamp @ '':'' @ nonce in
      hex_encode C (sha256 C (as_bytes input)))"

section \<open>Requests\<close>

definition MAX_INLINE_SIZE :: nat where
  "MAX_INLINE_SIZE = 10 * 1024 * 1024"

definition MAX_COMMIT_BODY_SIZE :: nat where
  "MAX_COMMIT_BODY_SIZE = 20 * 1024 * 1024"

definition MAX_COMMIT_OPERATIONS :: nat where
  "MAX_COMMIT_OPERATIONS = 10000"

record CommitHeader =
  ch_summary :: string
  ch_parent_revision :: "string option"

record FileOperation =
  fo_path :: string
  fo_content :: string

record LfsFileOperation =
  lo_path :: string
  lo_oid :: string
  lo_size :: u64

record DeletedEntryOperation =
  de_path :: string

datatype CommitOperation =
    OpHeader CommitHeader | OpFile FileOperation | OpLfsFile LfsFileOperation | OpDeletedEntry DeletedEntryOperation

datatype TreeOperation = ToFile FileOperation | ToLfsFile LfsFileOperation | ToDeletedEntry DeletedEntryOperation

record CommitResponse =
  cr_commit_oid :: string
  cr_commit_url :: string
  cr_pr_url :: "string option"
  cr_pr_num :: "u64 option"

record CommitRequest =
  cq_username :: string
  cq_namespace :: string
  cq_repo_name :: string
  cq_revision :: string
  cq_repo_type :: RepoType
  cq_body :: string

datatype CommitServiceError =
    CsPayloadTooLarge nat nat
  | CsValidation string
  | CsForbidden string
  | CsNotFound string
  | CsConflict string "string option" "string option"
  | CsUnprocessableEntity string
  | CsCasUpload nat string
  | CsBadGateway string
  | CsGatewayTimeout string
  | CsInternal string

text \<open>The storage server as the client trait shows it. An upload can change its state.\<close>

datatype HubError =
    HubNotFound string
  | HubConflict string
  | HubUnauthorized string
  | HubForbidden string
  | HubBadRequest string
  | HubUnprocessable string
  | HubCasError string
  | HubCasTimeout
  | HubInternal string

fun hub_error_message :: "HubError \<Rightarrow> string" where
  "hub_error_message (HubNotFound m) = ''Not found: '' @ m"
| "hub_error_message (HubConflict m) = ''Already exists: '' @ m"
| "hub_error_message (HubUnauthorized m) = ''Unauthorized: '' @ m"
| "hub_error_message (HubForbidden m) = ''Forbidden: '' @ m"
| "hub_error_message (HubBadRequest m) = ''Bad request: '' @ m"
| "hub_error_message (HubUnprocessable m) = ''Unprocessable: '' @ m"
| "hub_error_message (HubCasError m) = ''CAS error: '' @ m"
| "hub_error_message HubCasTimeout = ''CAS request timed out''"
| "hub_error_message (HubInternal m) = ''Internal error: '' @ m"

record BlobState =
  bs_state :: string
  bs_xet_file_id :: "string option"
  bs_size :: u64
  bs_sha256 :: string

record 'c cas_client =
  head_blob :: "string \<Rightarrow> string \<Rightarrow> 'c \<Rightarrow> HubError + BlobState"
  proxy_lfs_upload :: "string \<Rightarrow> bytes \<Rightarrow> string \<Rightarrow> 'c \<Rightarrow> (nat \<times> string + unit) \<times> 'c"

record ('sk, 'pk, 'c) commit_env =
  ce_crates :: crates
  ce_token_crates :: "('sk, 'pk) token_crates"
  ce_signer :: "'sk XetSigner"
  ce_cas :: "'c cas_client"
  ce_json :: "string \<Rightarrow> string + CommitOperation"
  ce_base64 :: "string \<Rightarrow> bytes option"
  ce_clock :: "u64 option"
  ce_nonce :: string

definition unix_now_secs :: "u64 option \<Rightarrow> u64" where
  "unix_now_secs clock = (case clock of None \<Rightarrow> 0 | Some t \<Rightarrow> t)"

section \<open>Parsing\<close>

fun parse_lines ::
  "(string \<Rightarrow> string + CommitOperation) \<Rightarrow> nat \<Rightarrow> CommitHeader option \<Rightarrow> TreeOperation list \<Rightarrow> string list
     \<Rightarrow> CommitServiceError + (CommitHeader option \<times> TreeOperation list)" where
  "parse_lines json operation_index header operations [] = Inr (header, operations)"
| "parse_lines json operation_index header operations (line # lines) =
     (if blank line then parse_lines json operation_index header operations lines
      else
      rbind (map_err (\<lambda>err. CsValidation (''Invalid NDJSON line: '' @ err)) (json line)) (\<lambda>op.
      if operation_index = 0 then
        (case op of
           OpHeader parsed_header \<Rightarrow> parse_lines json (operation_index + 1) (Some parsed_header) operations lines
         | _ \<Rightarrow> Inl (CsValidation ''Commit header must be the first non-empty operation''))
      else
        (case op of
           OpHeader _ \<Rightarrow> Inl (CsValidation ''Commit must contain exactly one header'')
         | OpFile f \<Rightarrow> parse_lines json (operation_index + 1) header (operations @ [ToFile f]) lines
         | OpLfsFile f \<Rightarrow> parse_lines json (operation_index + 1) header (operations @ [ToLfsFile f]) lines
         | OpDeletedEntry d \<Rightarrow> parse_lines json (operation_index + 1) header (operations @ [ToDeletedEntry d]) lines)))"

definition parse_commit_body :: "(string \<Rightarrow> string + CommitOperation) \<Rightarrow> string \<Rightarrow> CommitServiceError + (CommitHeader \<times> TreeOperation list)" where
  "parse_commit_body json body =
     rbind (parse_lines json 0 None [] (str_lines body)) (\<lambda>(header, operations).
     rbind (ok_or header (CsValidation ''Missing header in commit'')) (\<lambda>header. Inr (header, operations)))"

definition ensure_parent_matches_head :: "string option \<Rightarrow> string option \<Rightarrow> CommitServiceError + unit" where
  "ensure_parent_matches_head parent_revision current_head =
     (case (parent_revision, current_head) of
        (Some parent, Some head) \<Rightarrow>
          if parent \<noteq> head then
            Inl (CsConflict ''Parent revision does not match current HEAD'' (Some head)
              (Some ''This is a pre-check for early error detection. The authoritative check happens atomically during commit.''))
          else Inr ()
      | (Some parent, None) \<Rightarrow>
          Inl (CsConflict ''Parent revision specified but repository has no HEAD'' None
            (Some ''This is a pre-check. The authoritative check happens atomically during commit.''))
      | (None, Some head) \<Rightarrow>
          Inl (CsConflict (''No parent specified but repository already has HEAD: '' @ head) (Some head)
            (Some ''This is a pre-check. The authoritative check happens atomically during commit.''))
      | (None, None) \<Rightarrow> Inr ())"

definition map_metadata_load_error :: "MetadataError \<Rightarrow> CommitServiceError" where
  "map_metadata_load_error err = (case err of RepoNotFound _ \<Rightarrow> CsNotFound (metadata_error_message err) | _ \<Rightarrow> CsInternal (metadata_error_message err))"

section \<open>Operations\<close>

definition is_namespace_member :: "string \<Rightarrow> string \<Rightarrow> MetadataError + bool" where
  "is_namespace_member username namespace = Inr False"

definition ensure_namespace_write_access :: "string \<Rightarrow> string \<Rightarrow> CommitServiceError + unit" where
  "ensure_namespace_write_access username namespace =
     (if namespace = username then Inr ()
      else
      rbind (map_err map_metadata_load_error (is_namespace_member username namespace)) (\<lambda>has_access.
      if has_access then Inr () else Inl (CsForbidden ''User cannot commit to namespace'')))"

definition process_inline_file ::
  "('sk, 'pk, 'c) commit_env \<Rightarrow> FileOperation \<Rightarrow> int \<Rightarrow> string \<Rightarrow> string \<Rightarrow> 'c \<Rightarrow> (CommitServiceError + FileEntry) \<times> 'c" where
  "process_inline_file E file_op repo_id commit_id cas_write_token c =
     (case rbind (map_err (\<lambda>msg. CsValidation (''Invalid file path: '' @ msg)) (validate_file_path (fo_path file_op))) (\<lambda>_.
           rbind (map_err CsValidation (decode_base64_content (ce_base64 E) (fo_content file_op))) (\<lambda>decoded_content.
           if length decoded_content > MAX_INLINE_SIZE then Inl (CsValidation ''Inline file too large'') else Inr decoded_content)) of
        Inl e \<Rightarrow> (Inl e, c)
      | Inr decoded_content \<Rightarrow>
          let oid = hex_encode (ce_crates E) (sha256 (ce_crates E) decoded_content);
              size = (of_nat (length decoded_content) :: u64) in
          (case proxy_lfs_upload (ce_cas E) oid decoded_content cas_write_token c of
             (Inl (status, message), c') \<Rightarrow> (Inl (CsCasUpload status message), c')
           | (Inr _, c') \<Rightarrow>
               (Inr \<lparr>fe_path = fo_path file_op, fe_repo_id = repo_id, fe_commit_id = commit_id, fe_size = size,
                    fe_cas_hash = oid, fe_is_lfs = False\<rparr>, c')))"

definition process_lfs_file ::
  "('sk, 'pk, 'c) commit_env \<Rightarrow> LfsFileOperation \<Rightarrow> int \<Rightarrow> string \<Rightarrow> string \<Rightarrow> 'c \<Rightarrow> CommitServiceError + FileEntry" where
  "process_lfs_file E lfs_op repo_id commit_id internal_token c =
     rbind (map_err (\<lambda>msg. CsValidation (''Invalid file path: '' @ msg)) (validate_file_path (lo_path lfs_op))) (\<lambda>_.
     if length (lo_oid lfs_op) \<noteq> 64 \<or> \<not> list_all is_ascii_hexdigit (lo_oid lfs_op) then Inl (CsValidation ''Invalid LFS OID format'')
     else if unat (lo_size lfs_op) \<ge> 2 ^ 63 then Inl (CsValidation ''LFS file size exceeds the supported metadata range'')
     else
       (case head_blob (ce_cas E) (lo_oid lfs_op) internal_token c of
          Inr blob_state \<Rightarrow>
            if bs_size blob_state = lo_size lfs_op then
              Inr \<lparr>fe_path = lo_path lfs_op, fe_repo_id = repo_id, fe_commit_id = commit_id, fe_size = lo_size lfs_op,
                   fe_cas_hash = lo_oid lfs_op, fe_is_lfs = True\<rparr>
            else Inl (CsUnprocessableEntity ''LFS file size mismatch'')
        | Inl (HubNotFound _) \<Rightarrow> Inl (CsUnprocessableEntity (''LFS file not found in CAS: '' @ lo_oid lfs_op))
        | Inl HubCasTimeout \<Rightarrow> Inl (CsGatewayTimeout ''CAS verification timed out'')
        | Inl err \<Rightarrow> Inl (CsBadGateway (''CAS verification failed: '' @ hub_error_message err))))"

definition process_operation ::
  "('sk, 'pk, 'c) commit_env \<Rightarrow> int \<Rightarrow> string \<Rightarrow> string \<Rightarrow> string \<Rightarrow> TreeOperation \<Rightarrow> 'c \<Rightarrow> (CommitServiceError + FileTreeChange) \<times> 'c" where
  "process_operation E repo_id commit_id cas_write_token internal_token operation c =
     (case operation of
        ToFile file_op \<Rightarrow>
          (case process_inline_file E file_op repo_id commit_id cas_write_token c of
             (r, c') \<Rightarrow> (rbind r (\<lambda>entry. Inr (Upsert entry)), c'))
      | ToLfsFile lfs_op \<Rightarrow> (rbind (process_lfs_file E lfs_op repo_id commit_id internal_token c) (\<lambda>entry. Inr (Upsert entry)), c)
      | ToDeletedEntry deleted \<Rightarrow>
          (rbind (map_err (\<lambda>msg. CsValidation (''Invalid deleted entry path: '' @ msg)) (validate_file_path (de_path deleted))) (\<lambda>_.
           Inr (Delete (de_path deleted))), c))"

fun process_operations ::
  "('sk, 'pk, 'c) commit_env \<Rightarrow> int \<Rightarrow> string \<Rightarrow> string \<Rightarrow> string \<Rightarrow> TreeOperation list \<Rightarrow> 'c \<Rightarrow> (CommitServiceError + FileTreeChange list) \<times> 'c" where
  "process_operations E repo_id commit_id cas_write_token internal_token [] c = (Inr [], c)"
| "process_operations E repo_id commit_id cas_write_token internal_token (operation # operations) c =
     (case process_operation E repo_id commit_id cas_write_token internal_token operation c of
        (Inl e, c') \<Rightarrow> (Inl e, c')
      | (Inr change, c') \<Rightarrow>
          (case process_operations E repo_id commit_id cas_write_token internal_token operations c' of
             (Inl e, c'') \<Rightarrow> (Inl e, c'')
           | (Inr changes, c'') \<Rightarrow> (Inr (change # changes), c'')))"

section \<open>The commit\<close>

definition is_lfs_operation :: "TreeOperation \<Rightarrow> bool" where
  "is_lfs_operation op = (case op of ToLfsFile _ \<Rightarrow> True | _ \<Rightarrow> False)"

definition is_file_operation :: "TreeOperation \<Rightarrow> bool" where
  "is_file_operation op = (case op of ToFile _ \<Rightarrow> True | _ \<Rightarrow> False)"

text \<open>What the handler does up to the point where it starts to process the operations.\<close>

record commit_plan =
  cp_repo_id :: int
  cp_header :: CommitHeader
  cp_operations :: "TreeOperation list"
  cp_current_head :: "string option"
  cp_internal_token :: string
  cp_timestamp :: int
  cp_commit_id :: string
  cp_write_token :: string

definition plan_commit ::
  "('sk, 'pk, 'c) commit_env \<Rightarrow> (nat \<Rightarrow> db_env) \<Rightarrow> (nat \<Rightarrow> hub_db) \<Rightarrow> CommitRequest \<Rightarrow> CommitServiceError + commit_plan" where
  "plan_commit E D dbs request =
     (if length (cq_body request) > MAX_COMMIT_BODY_SIZE then Inl (CsPayloadTooLarge (length (cq_body request)) MAX_COMMIT_BODY_SIZE)
      else
      rbind (ensure_namespace_write_access (cq_username request) (cq_namespace request)) (\<lambda>_.
      let operation_count = length (filter (\<lambda>line. \<not> blank line) (str_lines (cq_body request))) in
      if operation_count > MAX_COMMIT_OPERATIONS then Inl (CsValidation ''Too many operations in commit'')
      else
      rbind (map_err map_metadata_load_error (get_repo (D 0) (dbs 0) (cq_namespace request) (cq_repo_name request) (cq_repo_type request))) (\<lambda>repo.
      if cq_revision request \<noteq> ''main'' then Inl (CsValidation ''Commits currently support only the 'main' revision'')
      else
      rbind (parse_commit_body (ce_json E) (cq_body request)) (\<lambda>(header, operations).
      rbind (map_err map_metadata_load_error (get_head (D 1) (dbs 1) (rp_id repo))) (\<lambda>current_head.
      rbind (ensure_parent_matches_head (ch_parent_revision header) current_head) (\<lambda>_.
      rbind (if list_ex is_lfs_operation operations then
               map_err (\<lambda>err. CsInternal (''Failed to sign internal token: '' @ err))
                 (rbind (sign_internal (ce_token_crates E) (ce_signer E) (ce_clock E)) (\<lambda>(token, _). Inr token))
             else Inr []) (\<lambda>internal_token.
      let timestamp = sint (unix_now_secs (ce_clock E));
          commit_id = generate_commit_id (ce_crates E) (ce_nonce E) (rp_id repo) current_head (ch_summary header) timestamp in
      rbind (if list_all (\<lambda>op. \<not> is_file_operation op) operations then Inr []
             else map_err (\<lambda>err. CsInternal (''Failed to sign CAS write token: '' @ err))
               (rbind (sign (ce_token_crates E) (ce_signer E) (ce_clock E) (cq_username request) ''write''
                  (cq_namespace request @ ''/'' @ cq_repo_name request) (repo_type_name (cq_repo_type request)) (cq_revision request)) (\<lambda>(token, _). Inr token)))
        (\<lambda>cas_write_token.
      Inr \<lparr>cp_repo_id = rp_id repo, cp_header = header, cp_operations = operations, cp_current_head = current_head,
           cp_internal_token = internal_token, cp_timestamp = timestamp, cp_commit_id = commit_id,
           cp_write_token = cas_write_token\<rparr>))))))))"

definition plan_revision :: "CommitRequest \<Rightarrow> commit_plan \<Rightarrow> Revision" where
  "plan_revision request plan =
     \<lparr>rv_commit_id = cp_commit_id plan, rv_repo_id = cp_repo_id plan, rv_parent = cp_current_head plan,
      rv_message = ch_summary (cp_header plan), rv_author = cq_username request, rv_created_at = cp_timestamp plan\<rparr>"

definition service_commit ::
  "('sk, 'pk, 'c) commit_env \<Rightarrow> (nat \<Rightarrow> db_env) \<Rightarrow> (nat \<Rightarrow> hub_db) \<Rightarrow> CommitRequest \<Rightarrow> 'c \<Rightarrow> (CommitServiceError + CommitResponse) \<times> hub_db \<times> 'c" where
  "service_commit E D dbs request c =
     (case plan_commit E D dbs request of
        Inl e \<Rightarrow> (Inl e, dbs 2, c)
      | Inr plan \<Rightarrow>
          (case process_operations E (cp_repo_id plan) (cp_commit_id plan) (cp_write_token plan) (cp_internal_token plan) (cp_operations plan) c of
             (Inl e, c') \<Rightarrow> (Inl e, dbs 2, c')
           | (Inr changes, c') \<Rightarrow>
               (case commit_changes_atomic (D 2) (plan_revision request plan) changes (ch_parent_revision (cp_header plan)) (dbs 2) of
                  (Inl err, db') \<Rightarrow>
                    (Inl (case err of
                            HeadConflict actual_head \<Rightarrow> CsConflict ''Parent revision does not match current HEAD'' (Some actual_head) None
                          | _ \<Rightarrow> CsInternal (metadata_error_message err)), db', c')
                | (Inr _, db') \<Rightarrow>
                    (Inr \<lparr>cr_commit_oid = cp_commit_id plan,
                          cr_commit_url = ''/'' @ cq_namespace request @ ''/'' @ cq_repo_name request @ ''/commit/'' @ cp_commit_id plan,
                          cr_pr_url = None, cr_pr_num = None\<rparr>, db', c'))))"


section \<open>What the handler checked\<close>

definition op_change :: "('sk, 'pk, 'c) commit_env \<Rightarrow> int \<Rightarrow> string \<Rightarrow> TreeOperation \<Rightarrow> FileTreeChange \<Rightarrow> bool" where
  "op_change E rid cid op change =
     (case op of
        ToFile f \<Rightarrow> validate_file_path (fo_path f) = Inr () \<and>
          (\<exists>content. decode_base64_content (ce_base64 E) (fo_content f) = Inr content \<and> length content \<le> MAX_INLINE_SIZE \<and>
             change = Upsert \<lparr>fe_path = fo_path f, fe_repo_id = rid, fe_commit_id = cid, fe_size = of_nat (length content),
               fe_cas_hash = hex_encode (ce_crates E) (sha256 (ce_crates E) content), fe_is_lfs = False\<rparr>)
      | ToLfsFile f \<Rightarrow> validate_file_path (lo_path f) = Inr () \<and> length (lo_oid f) = 64 \<and> list_all is_ascii_hexdigit (lo_oid f) \<and>
          unat (lo_size f) < 2 ^ 63 \<and>
          change = Upsert \<lparr>fe_path = lo_path f, fe_repo_id = rid, fe_commit_id = cid, fe_size = lo_size f, fe_cas_hash = lo_oid f, fe_is_lfs = True\<rparr>
      | ToDeletedEntry d \<Rightarrow> validate_file_path (de_path d) = Inr () \<and> change = Delete (de_path d))"

lemma process_operation_Inr:
  assumes "process_operation E rid cid wt it op c = (Inr change, c')"
  shows "op_change E rid cid op change"
proof (cases op)
  case (ToFile f)
  with assms obtain entry where p: "process_inline_file E f rid cid wt c = (Inr entry, c')" "change = Upsert entry"
    by (auto simp: process_operation_def result_simps split: prod.splits)
  then obtain content where "validate_file_path (fo_path f) = Inr ()" "decode_base64_content (ce_base64 E) (fo_content f) = Inr content"
      "length content \<le> MAX_INLINE_SIZE"
      "entry = \<lparr>fe_path = fo_path f, fe_repo_id = rid, fe_commit_id = cid, fe_size = of_nat (length content),
        fe_cas_hash = hex_encode (ce_crates E) (sha256 (ce_crates E) content), fe_is_lfs = False\<rparr>"
    by (auto simp: process_inline_file_def result_simps Let_def split: prod.splits sum.splits)
  with ToFile p(2) show ?thesis by (auto simp: op_change_def)
next
  case (ToLfsFile f)
  with assms show ?thesis
    by (auto simp: process_operation_def process_lfs_file_def result_simps op_change_def not_le split: sum.splits if_splits HubError.splits)
next
  case (ToDeletedEntry d)
  with assms show ?thesis by (auto simp: process_operation_def op_change_def result_simps)
qed

lemma process_operations_Inr:
  "process_operations E rid cid wt it ops c = (Inr changes, c') \<Longrightarrow> list_all2 (op_change E rid cid) ops changes"
proof (induction ops arbitrary: c changes)
  case (Cons op ops)
  obtain change c1 rest where step: "process_operation E rid cid wt it op c = (Inr change, c1)"
      "process_operations E rid cid wt it ops c1 = (Inr rest, c')" "changes = change # rest"
    using Cons.prems by (auto split: prod.splits sum.splits)
  with process_operation_Inr Cons.IH show ?case by auto
qed simp

lemma ensure_parent_Inr: "ensure_parent_matches_head parent head = Inr u \<longleftrightarrow> parent = head"
  by (auto simp: ensure_parent_matches_head_def split: option.splits)

lemma namespace_access_Inr: "ensure_namespace_write_access user ns = Inr u \<longleftrightarrow> ns = user"
  by (simp add: ensure_namespace_write_access_def is_namespace_member_def)

lemma plan_commit_Inr:
  assumes "plan_commit E D dbs request = Inr plan"
  obtains repo where "cq_username request = cq_namespace request"
    "get_repo (D 0) (dbs 0) (cq_namespace request) (cq_repo_name request) (cq_repo_type request) = Inr repo" "rp_id repo = cp_repo_id plan"
    "parse_commit_body (ce_json E) (cq_body request) = Inr (cp_header plan, cp_operations plan)"
    "get_head (D 1) (dbs 1) (cp_repo_id plan) = Inr (cp_current_head plan)"
    "cp_current_head plan = ch_parent_revision (cp_header plan)"
    "cp_commit_id plan = generate_commit_id (ce_crates E) (ce_nonce E) (cp_repo_id plan) (cp_current_head plan) (ch_summary (cp_header plan)) (cp_timestamp plan)"
proof -
  obtain repo header ops head it wt u v where
    p: "ensure_namespace_write_access (cq_username request) (cq_namespace request) = Inr u"
      "get_repo (D 0) (dbs 0) (cq_namespace request) (cq_repo_name request) (cq_repo_type request) = Inr repo"
      "parse_commit_body (ce_json E) (cq_body request) = Inr (header, ops)" "get_head (D 1) (dbs 1) (rp_id repo) = Inr head"
      "ensure_parent_matches_head (ch_parent_revision header) head = Inr v"
      "plan = \<lparr>cp_repo_id = rp_id repo, cp_header = header, cp_operations = ops, cp_current_head = head, cp_internal_token = it,
         cp_timestamp = sint (unix_now_secs (ce_clock E)),
         cp_commit_id = generate_commit_id (ce_crates E) (ce_nonce E) (rp_id repo) head (ch_summary header) (sint (unix_now_secs (ce_clock E))),
         cp_write_token = wt\<rparr>"
    using assms unfolding plan_commit_def Let_def
    by (simp only: if_Inl_eq_Inr rbind_eq_Inr map_err_eq_Inr sum.inject prod.case split_paired_Ex, elim exE conjE)
      (rule that; (assumption | erule sym))
  then show ?thesis using that by (simp add: ensure_parent_Inr namespace_access_Inr)
qed

lemma commit_Inr:
  assumes "service_commit E D dbs request c = (Inr resp, db', c')"
  obtains plan changes where "plan_commit E D dbs request = Inr plan"
    "process_operations E (cp_repo_id plan) (cp_commit_id plan) (cp_write_token plan) (cp_internal_token plan) (cp_operations plan) c = (Inr changes, c')"
    "commit_changes_atomic (D 2) (plan_revision request plan) changes (ch_parent_revision (cp_header plan)) (dbs 2) = (Inr (), db')"
    "cr_commit_oid resp = cp_commit_id plan"
  using assms unfolding service_commit_def by (auto split: sum.splits prod.splits)

lemma commit_Inl: "service_commit E D dbs request c = (Inl e, db', c') \<Longrightarrow> db' = dbs 2"
  unfolding service_commit_def commit_changes_atomic_def commit_atomic_write_def
  by (auto split: sum.splits prod.splits dest: transaction_Inl)


section \<open>The transaction\<close>

definition parent_tree :: "hub_db \<Rightarrow> int \<Rightarrow> string option \<Rightarrow> string \<rightharpoonup> int \<times> string \<times> int" where
  "parent_tree db rid parent = (case parent of None \<Rightarrow> Map.empty | Some p \<Rightarrow> snapshot db rid p)"

lemma commit_step:
  assumes inv: "store_inv (dbs 2)" and run: "service_commit E D dbs request c = (Inr resp, db', c')"
  obtains plan changes where "plan_commit E D dbs request = Inr plan" "cr_commit_oid resp = cp_commit_id plan"
    "list_all2 (op_change E (cp_repo_id plan) (cp_commit_id plan)) (cp_operations plan) changes"
    "rv_parent (plan_revision request plan) = ch_parent_revision (cp_header plan)"
    "commit_changes_atomic (D 2) (plan_revision request plan) changes (ch_parent_revision (cp_header plan)) (dbs 2) = (Inr (), db')"
    "store_inv db'" "select_head (dbs 2) (cp_repo_id plan) = ch_parent_revision (cp_header plan)" "cp_commit_id plan \<notin> commit_ids (dbs 2)"
    "db_repos db' = db_repos (dbs 2)" "db_revisions db' = db_revisions (dbs 2) @ [plan_revision request plan]"
    "\<forall>r. select_head db' r = (if r = cp_repo_id plan then Some (cp_commit_id plan) else select_head (dbs 2) r)"
    "\<forall>r c. snapshot db' r c = (if (r, c) = (cp_repo_id plan, cp_commit_id plan)
       then foldl apply_change (parent_tree (dbs 2) r (ch_parent_revision (cp_header plan))) changes else snapshot (dbs 2) r c)"
proof -
  obtain plan changes where p: "plan_commit E D dbs request = Inr plan"
    "process_operations E (cp_repo_id plan) (cp_commit_id plan) (cp_write_token plan) (cp_internal_token plan) (cp_operations plan) c = (Inr changes, c')"
    "commit_changes_atomic (D 2) (plan_revision request plan) changes (ch_parent_revision (cp_header plan)) (dbs 2) = (Inr (), db')"
    "cr_commit_oid resp = cp_commit_id plan" by (rule commit_Inr [OF run])
  have "cp_current_head plan = ch_parent_revision (cp_header plan)" by (rule plan_commit_Inr [OF p(1)])
  then have parent: "rv_parent (plan_revision request plan) = ch_parent_revision (cp_header plan)" by (simp add: plan_revision_def)
  have ids: "rv_repo_id (plan_revision request plan) = cp_repo_id plan" "rv_commit_id (plan_revision request plan) = cp_commit_id plan"
    by (simp_all add: plan_revision_def)
  note step = commit_write_step [OF inv parent p(3) [unfolded commit_changes_atomic_def], unfolded ids sum.case committed_tree_def CommitWrite.case,
      folded parent_tree_def]
  show ?thesis
    by (rule that [OF p(1,4) process_operations_Inr [OF p(2)] parent p(3)]) (use step in \<open>auto simp: parent_tree_def\<close>)
qed

lemma head_moved:
  assumes inv: "store_inv db1" "store_inv db2" and ext: "extends db1 db2"
    and last: "revisions_of db1 rid = rs @ [rv]"
  shows "select_head db2 rid \<noteq> rv_parent rv"
proof
  assume head: "select_head db2 rid = rv_parent rv"
  have h1: "history None (rs @ [rv]) (select_head db1 rid)" using inv(1) last by (metis store_inv_def)
  then have hp: "history None rs (rv_parent rv)" by (auto simp: history_snoc)
  obtain vs where "db_revisions db2 = db_revisions db1 @ vs" using ext by (auto simp: extends_def)
  then obtain ws where ws: "revisions_of db2 rid = rs @ [rv] @ ws" using last by (auto simp: revisions_of_def)
  have d: "distinct (map rv_commit_id (revisions_of db2 rid))" using inv(2) by (auto simp: store_inv_def revisions_of_def distinct_map_filter)
  have "history None (revisions_of db2 rid) (rv_parent rv)" using inv(2) head by (metis store_inv_def)
  then have end2: "rv_parent rv = Some (rv_commit_id (last (rv # ws)))" using history_end ws by fastforce
  show False
  proof (cases "rs = []")
    case True
    with hp end2 show False by simp
  next
    case False
    from history_end [OF hp False] end2 have "rv_commit_id (last rs) = rv_commit_id (last (rv # ws))" by simp
    moreover have "rv_commit_id (last rs) \<in> rv_commit_id ` set rs" "rv_commit_id (last (rv # ws)) \<in> rv_commit_id ` set (rv # ws)"
      using False last_in_set [of rs] last_in_set [of "rv # ws"] by blast+
    ultimately show False using d ws by auto
  qed
qed

lemma commit_revisions:
  assumes "store_inv (dbs 2)" "service_commit E D dbs request c = (Inr resp, db', c')" "plan_commit E D dbs request = Inr plan"
  shows "revisions_of db' (cp_repo_id plan) = revisions_of (dbs 2) (cp_repo_id plan) @ [plan_revision request plan]"
proof -
  obtain plan' where "plan_commit E D dbs request = Inr plan'" "db_revisions db' = db_revisions (dbs 2) @ [plan_revision request plan']"
    by (rule commit_step [OF assms(1,2)])
  with assms(3) show ?thesis by (simp add: revisions_of_def plan_revision_def)
qed

section \<open>Properties\<close>

text \<open>
  C6. A commit that succeeds extends the head that the client named. At the moment of the
  transaction the head of the repository is the parent of the commit's header, whatever other
  requests did since the handler read it; the new head is the new commit; its tree is the
  parent's tree with the changes that the request describes, each with a valid path, a
  64-digit object and a size in range; all other commits and repositories keep their trees;
  the user is the owner of the namespace. A commit that fails changes nothing.
\<close>

theorem commit_extends_named_parent:
  assumes inv: "store_inv (dbs 2)" and run: "service_commit E D dbs request c = (res, db', c')"
  shows "case res of
      Inl e \<Rightarrow> db' = dbs 2
    | Inr resp \<Rightarrow> cq_username request = cq_namespace request \<and>
        (\<exists>repo header ops changes. get_repo (D 0) (dbs 0) (cq_namespace request) (cq_repo_name request) (cq_repo_type request) = Inr repo \<and>
           parse_commit_body (ce_json E) (cq_body request) = Inr (header, ops) \<and>
           list_all2 (op_change E (rp_id repo) (cr_commit_oid resp)) ops changes \<and>
           select_head (dbs 2) (rp_id repo) = ch_parent_revision header \<and>
           store_inv db' \<and> db_repos db' = db_repos (dbs 2) \<and>
           (\<forall>r. select_head db' r = (if r = rp_id repo then Some (cr_commit_oid resp) else select_head (dbs 2) r)) \<and>
           (\<forall>r k. snapshot db' r k =
             (if (r, k) = (rp_id repo, cr_commit_oid resp)
              then foldl apply_change (parent_tree (dbs 2) r (ch_parent_revision header)) changes else snapshot (dbs 2) r k)))"
proof (cases res)
  case (Inl e)
  with run commit_Inl show ?thesis by auto
next
  case (Inr resp)
  obtain plan changes where s: "plan_commit E D dbs request = Inr plan" "cr_commit_oid resp = cp_commit_id plan"
    "list_all2 (op_change E (cp_repo_id plan) (cp_commit_id plan)) (cp_operations plan) changes" "store_inv db'"
    "select_head (dbs 2) (cp_repo_id plan) = ch_parent_revision (cp_header plan)" "db_repos db' = db_repos (dbs 2)"
    "\<forall>r. select_head db' r = (if r = cp_repo_id plan then Some (cp_commit_id plan) else select_head (dbs 2) r)"
    "\<forall>r c. snapshot db' r c = (if (r, c) = (cp_repo_id plan, cp_commit_id plan)
       then foldl apply_change (parent_tree (dbs 2) r (ch_parent_revision (cp_header plan))) changes else snapshot (dbs 2) r c)"
    by (rule commit_step [OF inv run [unfolded Inr]])
  obtain repo where "cq_username request = cq_namespace request"
    "get_repo (D 0) (dbs 0) (cq_namespace request) (cq_repo_name request) (cq_repo_type request) = Inr repo" "rp_id repo = cp_repo_id plan"
    "parse_commit_body (ce_json E) (cq_body request) = Inr (cp_header plan, cp_operations plan)"
    by (rule plan_commit_Inr [OF s(1)])
  then show ?thesis unfolding Inr sum.case
    by (intro conjI exI [of _ repo] exI [of _ "cp_header plan"] exI [of _ "cp_operations plan"] exI [of _ changes]) (use s in simp_all)
qed

text \<open>
  C7. No lost update. After a commit has succeeded, another commit to the same repository that
  names the same parent fails and changes nothing, however many commits and new repositories
  come in between, and whatever its own handler had read before.
\<close>

theorem commits_on_one_parent:
  assumes inv: "store_inv (dbs1 2)" and first: "service_commit E1 D1 dbs1 request1 c1 = (Inr resp, db1, c1')"
    and between: "hub_write\<^sup>*\<^sup>* db1 (dbs2 2)"
    and repo: "get_repo (D1 0) (dbs1 0) (cq_namespace request1) (cq_repo_name request1) (cq_repo_type request1) = Inr repo1"
      "get_repo (D2 0) (dbs2 0) (cq_namespace request2) (cq_repo_name request2) (cq_repo_type request2) = Inr repo2" "rp_id repo1 = rp_id repo2"
    and parent: "parse_commit_body (ce_json E1) (cq_body request1) = Inr (header1, ops1)"
      "parse_commit_body (ce_json E2) (cq_body request2) = Inr (header2, ops2)" "ch_parent_revision header1 = ch_parent_revision header2"
  shows "\<exists>e c2'. service_commit E2 D2 dbs2 request2 c2 = (Inl e, dbs2 2, c2')"
proof -
  obtain plan1 where p1: "plan_commit E1 D1 dbs1 request1 = Inr plan1" "store_inv db1"
      "rv_parent (plan_revision request1 plan1) = ch_parent_revision (cp_header plan1)"
    by (rule commit_step [OF inv first])
  have h1: "cp_header plan1 = header1" "cp_repo_id plan1 = rp_id repo1"
    using plan_commit_Inr [OF p1(1)] repo(1) parent(1) by (metis Pair_inject sum.inject(2))+
  have "store_inv (dbs2 2)" "extends db1 (dbs2 2)" using writes_extend [OF between p1(2)] by simp_all
  note moved = head_moved [OF p1(2) this commit_revisions [OF inv first p1(1)]]
  show ?thesis
  proof (cases "service_commit E2 D2 dbs2 request2 c2")
    case (fields res db2 c2')
    show ?thesis
    proof (cases res)
      case (Inl e)
      with fields commit_Inl [of E2 D2 dbs2 request2 c2 e db2 c2'] show ?thesis by simp
    next
      case (Inr resp2)
      obtain plan2 where p2: "plan_commit E2 D2 dbs2 request2 = Inr plan2" "select_head (dbs2 2) (cp_repo_id plan2) = ch_parent_revision (cp_header plan2)"
        by (rule commit_step [OF \<open>store_inv (dbs2 2)\<close> fields [unfolded Inr]])
      have "cp_header plan2 = header2" "cp_repo_id plan2 = rp_id repo2"
        using plan_commit_Inr [OF p2(1)] repo(2) parent(2) by (metis Pair_inject sum.inject(2))+
      with p2(2) moved h1 p1(3) repo(3) parent(3) show ?thesis by simp
    qed
  qed
qed


section \<open>Well-typed states\<close>

definition sha256_contract :: "crates \<Rightarrow> bool" where
  "sha256_contract C \<longleftrightarrow> (\<forall>d. length (sha256 C d) = 32)"

definition hex_text_contract :: "crates \<Rightarrow> bool" where
  "hex_text_contract C \<longleftrightarrow> (\<forall>b. list_all is_ascii_hexdigit (hex_encode C b))"

fun op_path :: "CommitOperation \<Rightarrow> string option" where
  "op_path (OpHeader h) = None"
| "op_path (OpFile f) = Some (fo_path f)"
| "op_path (OpLfsFile f) = Some (lo_path f)"
| "op_path (OpDeletedEntry d) = Some (de_path d)"

text \<open>A Rust string is valid UTF-8, so the paths that the JSON crate returns are.\<close>

definition env_ok :: "('sk, 'pk, 'c) commit_env \<Rightarrow> bool" where
  "env_ok E \<longleftrightarrow> hex_contract (ce_crates E) \<and> sha256_contract (ce_crates E) \<and> hex_text_contract (ce_crates E) \<and>
     (\<forall>line op p. ce_json E line = Inr op \<and> op_path op = Some p \<longrightarrow> utf8_valid p)"

definition is_oid :: "string \<Rightarrow> bool" where
  "is_oid s \<longleftrightarrow> length s = 64 \<and> list_all is_ascii_hexdigit s"

definition entry_ok :: "string \<Rightarrow> int \<times> string \<times> int \<Rightarrow> bool" where
  "entry_ok p v \<longleftrightarrow> validate_file_path p = Inr () \<and> utf8_valid p \<and> is_oid (fst (snd v)) \<and> 0 \<le> fst v \<and> fst v < 2 ^ 63"

definition well_typed :: "hub_db \<Rightarrow> bool" where
  "well_typed db \<longleftrightarrow> (\<forall>r\<in>set (db_repos db). validate_repo_name (rr_name r) = Inr ()) \<and>
     (\<forall>r\<in>set (db_revisions db). is_oid (rv_commit_id r)) \<and>
     (\<forall>rid cid p v. snapshot db rid cid p = Some v \<longrightarrow> entry_ok p v)"

lemma env_oid: "env_ok E \<Longrightarrow> is_oid (hex_encode (ce_crates E) (sha256 (ce_crates E) d))"
  by (simp add: env_ok_def is_oid_def hex_contract_def sha256_contract_def hex_text_contract_def)

lemma plan_commit_oid:
  assumes "plan_commit E D dbs request = Inr plan" "env_ok E"
  shows "is_oid (cp_commit_id plan)"
proof -
  have "cp_commit_id plan = generate_commit_id (ce_crates E) (ce_nonce E) (cp_repo_id plan) (cp_current_head plan) (ch_summary (cp_header plan)) (cp_timestamp plan)"
    by (rule plan_commit_Inr [OF assms(1)])
  then show ?thesis using env_oid [OF assms(2)] by (simp add: generate_commit_id_def Let_def)
qed

fun tree_op_path :: "TreeOperation \<Rightarrow> string" where
  "tree_op_path (ToFile f) = fo_path f"
| "tree_op_path (ToLfsFile f) = lo_path f"
| "tree_op_path (ToDeletedEntry d) = de_path d"

lemma parse_lines_paths:
  assumes "parse_lines json n header ops lines = Inr (header', ops')" "\<And>line op p. json line = Inr op \<Longrightarrow> op_path op = Some p \<Longrightarrow> utf8_valid p"
    and "\<forall>op\<in>set ops. utf8_valid (tree_op_path op)"
  shows "\<forall>op\<in>set ops'. utf8_valid (tree_op_path op)"
  using assms(1,3)
proof (induction lines arbitrary: n header ops)
  case (Cons line lines)
  show ?case
  proof (cases "blank line")
    case True
    with Cons show ?thesis by simp
  next
    case False
    with Cons.prems obtain op where op: "json line = Inr op" by (auto simp: result_simps)
    show ?thesis
    proof (cases op)
      case (OpHeader h)
      with False op Cons.prems Cons.IH show ?thesis by (auto split: if_splits)
    next
      case (OpFile f)
      with assms(2) [OF op] False op Cons.prems Cons.IH [of "n + 1" header "ops @ [ToFile f]"] show ?thesis by (auto split: if_splits)
    next
      case (OpLfsFile f)
      with assms(2) [OF op] False op Cons.prems Cons.IH [of "n + 1" header "ops @ [ToLfsFile f]"] show ?thesis by (auto split: if_splits)
    next
      case (OpDeletedEntry d)
      with assms(2) [OF op] False op Cons.prems Cons.IH [of "n + 1" header "ops @ [ToDeletedEntry d]"] show ?thesis by (auto split: if_splits)
    qed
  qed
qed simp

lemma parsed_paths:
  assumes "parse_commit_body (ce_json E) body = Inr (header, ops)" "env_ok E"
  shows "\<forall>op\<in>set ops. utf8_valid (tree_op_path op)"
proof -
  obtain h where "parse_lines (ce_json E) 0 None [] (str_lines body) = Inr (h, ops)"
    using assms(1) by (auto simp: parse_commit_body_def result_simps)
  then show ?thesis by (rule parse_lines_paths) (use assms(2) in \<open>auto simp: env_ok_def\<close>)
qed

text \<open>A change that keeps the entries of a tree well-formed.\<close>

definition change_ok :: "FileTreeChange \<Rightarrow> bool" where
  "change_ok change = (case change of Upsert e \<Rightarrow> entry_ok (fe_path e) (entry_payload e) | Delete p \<Rightarrow> True)"

lemma op_change_ok:
  assumes "op_change E rid cid op change" "env_ok E" "utf8_valid (tree_op_path op)"
  shows "change_ok change"
proof (cases op)
  case (ToFile f)
  with assms(1) obtain content where c: "validate_file_path (fo_path f) = Inr ()" "length content \<le> MAX_INLINE_SIZE"
      "change = Upsert \<lparr>fe_path = fo_path f, fe_repo_id = rid, fe_commit_id = cid, fe_size = of_nat (length content),
        fe_cas_hash = hex_encode (ce_crates E) (sha256 (ce_crates E) content), fe_is_lfs = False\<rparr>"
    by (auto simp: op_change_def)
  then have "unat (of_nat (length content) :: u64) = length content" by (intro unat_of_nat_u64) (simp add: MAX_INLINE_SIZE_def)
  then have "int (unat (of_nat (length content) :: u64)) < 2 ^ 63" using c(2) by (simp only: MAX_INLINE_SIZE_def) simp
  with c assms(3) ToFile env_oid [OF assms(2)] show ?thesis by (simp add: change_ok_def entry_ok_def entry_payload_def)
next
  case (ToLfsFile f)
  with assms(1) have f: "validate_file_path (lo_path f) = Inr ()" "is_oid (lo_oid f)" "unat (lo_size f) < 2 ^ 63"
      "change = Upsert \<lparr>fe_path = lo_path f, fe_repo_id = rid, fe_commit_id = cid, fe_size = lo_size f, fe_cas_hash = lo_oid f, fe_is_lfs = True\<rparr>"
    by (simp_all add: op_change_def is_oid_def)
  have "int (unat (lo_size f)) < int (2 ^ 63)" using f(3) by (simp only: of_nat_less_iff)
  with f assms(3) ToLfsFile show ?thesis by (simp add: change_ok_def entry_ok_def entry_payload_def)
next
  case (ToDeletedEntry d)
  with assms(1) show ?thesis by (simp add: op_change_def change_ok_def)
qed

lemma apply_changes_ok:
  "list_all change_ok changes \<Longrightarrow> \<forall>p v. m p = Some v \<longrightarrow> entry_ok p v \<Longrightarrow> foldl apply_change m changes p = Some v \<Longrightarrow> entry_ok p v"
proof (induction changes arbitrary: m)
  case (Cons ch changes)
  have "\<forall>p v. apply_change m ch p = Some v \<longrightarrow> entry_ok p v"
    using Cons.prems(1,2) by (cases ch) (auto simp: change_ok_def)
  with Cons show ?case by simp
qed (cases v, simp)


section \<open>States that the services reach\<close>

text \<open>
  The writes of the services. Each takes the state that its last call to the store finds; what
  its handler read before can be older.
\<close>

inductive svc_reach :: "('sk, 'pk, 'c) commit_env set \<Rightarrow> hub_db \<Rightarrow> bool" for Es where
  empty: "svc_reach Es db_empty"
| create_typed: "svc_reach Es db \<Longrightarrow> create_typed_repo Dr now user nm ty priv db = (Inr repo, db') \<Longrightarrow> svc_reach Es db'"
| create_unified: "svc_reach Es db \<Longrightarrow> create_unified_repo D now id user org nm uty priv db = (Inr repo, db') \<Longrightarrow> svc_reach Es db'"
| delete: "svc_reach Es db \<Longrightarrow> service_delete_repo D (\<lambda>_. db) user ns nm ty db0 = (Inr u, db') \<Longrightarrow> svc_reach Es db'"
| commit: "svc_reach Es (dbs 2) \<Longrightarrow> E \<in> Es \<Longrightarrow> service_commit E D dbs request c = (Inr resp, db', c') \<Longrightarrow> svc_reach Es db'"

inductive_cases svc_reachE: "svc_reach Es db"

lemma create_repo_typed:
  assumes inv: "store_inv db" "well_typed db" and nm: "validate_repo_name nm = Inr ()"
    and run: "create_repo D now ns nm ty priv db = (Inr repo, db')"
  shows "store_inv db' \<and> well_typed db'"
proof -
  have s: "store_inv db'" "snapshot db' = snapshot db" "db_revisions db' = db_revisions db" using create_repo_step [OF inv(1) run] by simp_all
  have "\<exists>r. db_repos db' = db_repos db @ [r] \<and> rr_name r = nm"
    using run by (auto simp: create_repo_def exec_def insert_repo_sql_def checked_def result_simps split: sum.splits if_splits)
  with s inv(2) nm show ?thesis by (auto simp: well_typed_def)
qed

lemma create_typed_Inr:
  "create_typed_repo D now user nm ty priv db = (Inr repo, db') \<Longrightarrow>
     validate_repo_name nm = Inr () \<and> create_repo D now user nm ty priv db = (Inr repo, db')"
  by (auto simp: create_typed_repo_def split: sum.splits prod.splits)

lemma create_unified_Inr:
  "create_unified_repo D now id user org nm uty priv db = (Inr repo, db') \<Longrightarrow>
     db' = db \<or> validate_repo_name nm = Inr () \<and> create_repo (D 0) now user nm (parse_unified_repo_type uty) priv db = (Inr repo, db')"
  by (auto simp: create_unified_repo_def create_repo_def Let_def split: sum.splits prod.splits if_splits MetadataError.splits)

lemma delete_typed:
  assumes inv: "store_inv db" "well_typed db" and run: "service_delete_repo D (\<lambda>_. db) user ns nm ty db0 = (Inr u, db')"
  shows "store_inv db' \<and> well_typed db'"
proof -
  obtain rid where "delete_repo (D 1) rid db = (Inr u, db')"
    using run by (auto simp: service_delete_repo_def split: sum.splits prod.splits if_splits)
  then have d: "db' = without_repo rid db" "store_inv db'" using delete_repo_step [OF inv(1)] by fastforce+
  have "snapshot db' r c p = Some v \<Longrightarrow> snapshot db r c p = Some v" for r c p v using d(1) by (simp add: snapshot_without split: if_splits)
  moreover have "set (db_repos db') \<subseteq> set (db_repos db)" "set (db_revisions db') \<subseteq> set (db_revisions db)"
    using d(1) by (auto simp: without_repo_def)
  ultimately show ?thesis using d(2) inv(2) unfolding well_typed_def by blast
qed

lemma commit_typed:
  assumes inv: "store_inv (dbs 2)" "well_typed (dbs 2)" and E: "env_ok E" and run: "service_commit E D dbs request c = (Inr resp, db', c')"
  shows "store_inv db' \<and> well_typed db'"
proof -
  obtain plan changes where s: "plan_commit E D dbs request = Inr plan"
    "list_all2 (op_change E (cp_repo_id plan) (cp_commit_id plan)) (cp_operations plan) changes" "store_inv db'"
    "db_repos db' = db_repos (dbs 2)" "db_revisions db' = db_revisions (dbs 2) @ [plan_revision request plan]"
    "\<forall>r c. snapshot db' r c = (if (r, c) = (cp_repo_id plan, cp_commit_id plan)
       then foldl apply_change (parent_tree (dbs 2) r (ch_parent_revision (cp_header plan))) changes else snapshot (dbs 2) r c)"
    by (rule commit_step [OF inv(1) run])
  have "parse_commit_body (ce_json E) (cq_body request) = Inr (cp_header plan, cp_operations plan)" by (rule plan_commit_Inr [OF s(1)])
  then have paths: "\<forall>op\<in>set (cp_operations plan). utf8_valid (tree_op_path op)" using parsed_paths E by blast
  have changes: "list_all change_ok changes"
    using s(2) paths op_change_ok [OF _ E] by (auto simp: list_all_length list_all2_conv_all_nth)
  have parent: "\<forall>p v. parent_tree (dbs 2) r par p = Some v \<longrightarrow> entry_ok p v" for r par
    using inv(2) by (auto simp: parent_tree_def well_typed_def split: option.splits)
  have "entry_ok p v" if "snapshot db' r k p = Some v" for r k p v
  proof (cases "(r, k) = (cp_repo_id plan, cp_commit_id plan)")
    case True
    with that s(6) have "foldl apply_change (parent_tree (dbs 2) r (ch_parent_revision (cp_header plan))) changes p = Some v" by simp
    from apply_changes_ok [OF changes parent this] show ?thesis .
  next
    case False
    with that s(6) have "snapshot (dbs 2) r k p = Some v" by (auto split: if_splits)
    with inv(2) show ?thesis unfolding well_typed_def by blast
  qed
  moreover have "is_oid (rv_commit_id (plan_revision request plan))" using plan_commit_oid [OF s(1) E] by (simp add: plan_revision_def)
  ultimately show ?thesis using s(3-5) inv(2) unfolding well_typed_def by auto
qed

lemma svc_reach_typed:
  assumes "svc_reach Es db" "\<forall>E\<in>Es. env_ok E"
  shows "store_inv db \<and> well_typed db"
  using assms(1)
proof (induction rule: svc_reach.induct)
  case empty
  show ?case using db_empty_inv by (simp add: well_typed_def db_empty_def snapshot_def file_map_def)
next
  case create_typed
  then show ?case using create_typed_Inr create_repo_typed by blast
next
  case create_unified
  then show ?case using create_unified_Inr create_repo_typed by blast
next
  case delete
  then show ?case using delete_typed by blast
next
  case (commit dbs E D request c resp db' c')
  have "env_ok E" using assms(2) commit.hyps(2) by blast
  with commit_typed [OF _ _ this commit.hyps(3)] commit.IH show ?case by simp
qed

text \<open>
  C33. The states that the services reach are well-formed: every repository name passes the name
  check, every commit identifier is a 64-digit hash, and every stored file has a path that
  passes the path check, a 64-digit object and a size that the column can hold. In particular
  every path and every commit identifier meets what tree listings need for their cursors.
\<close>

theorem service_states_well_typed:
  assumes "svc_reach Es db" "\<forall>E\<in>Es. env_ok E"
  shows "store_inv db \<and> well_typed db \<and> (\<forall>rid cid. \<forall>p\<in>dom (snapshot db rid cid). good_path p) \<and>
    (\<forall>r\<in>set (db_revisions db). is_commit_id (rv_commit_id r))"
proof -
  have t: "store_inv db" "well_typed db" using svc_reach_typed [OF assms] by simp_all
  have "good_path p" if "snapshot db rid cid p = Some v" for rid cid p v
  proof -
    have "entry_ok p v" using t(2) that unfolding well_typed_def by blast
    then show ?thesis by (auto simp: entry_ok_def validate_file_path_def good_path_def MAX_FILE_PATH_LENGTH_def split: if_splits)
  qed
  moreover have "is_commit_id (rv_commit_id r)" if "r \<in> set (db_revisions db)" for r
    using t(2) that by (auto simp: well_typed_def is_oid_def is_commit_id_def)
  ultimately show ?thesis using t by (auto simp: dom_def)
qed


section \<open>An example\<close>

definition demo_json :: "string \<Rightarrow> string + CommitOperation" where
  "demo_json line =
     (if line = ''h'' then Inr (OpHeader \<lparr>ch_summary = ''m'', ch_parent_revision = None\<rparr>)
      else if line = ''f'' then Inr (OpFile \<lparr>fo_path = ''a/b'', fo_content = ''base64:x''\<rparr>)
      else Inl ''bad'')"

definition commit_demo_env :: "(string, string, unit) commit_env" where
  "commit_demo_env =
     \<lparr>ce_crates = inst_crates, ce_token_crates = inst_token_crates, ce_signer = demo_signer,
      ce_cas = \<lparr>head_blob = (\<lambda>_ _ _. Inl (HubNotFound ''o'')), proxy_lfs_upload = (\<lambda>_ _ _ c. (Inr (), c))\<rparr>,
      ce_json = demo_json, ce_base64 = (\<lambda>s. Some (as_bytes s)), ce_clock = Some 1000, ce_nonce = ''n''\<rparr>"

definition demo_commit_request :: CommitRequest where
  "demo_commit_request = \<lparr>cq_username = ''u'', cq_namespace = ''u'', cq_repo_name = ''r'', cq_revision = ''main'', cq_repo_type = Model,
     cq_body = ''h'' @ [CHR 0x0A] @ ''f''\<rparr>"

lemma demo_parse: "parse_commit_body demo_json (''h'' @ [CHR 0x0A] @ ''f'') =
    Inr (\<lparr>ch_summary = ''m'', ch_parent_revision = None\<rparr>, [ToFile \<lparr>fo_path = ''a/b'', fo_content = ''base64:x''\<rparr>])"
proof -
  have "str_lines (''h'' @ [CHR 0x0A] @ ''f'') = [''h'', ''f'']" by (simp add: str_lines_def strip_cr_def)
  moreover have "\<not> blank ''h''" "\<not> blank ''f''" by (subst blank.simps, simp add: ws_len_def)+
  ultimately show ?thesis by (simp add: parse_commit_body_def demo_json_def)
qed

lemma demo_sign: "\<exists>token exp. sign inst_token_crates demo_signer (Some 1000) ''u'' ''write'' ''u/r'' ''model'' ''main'' = Inr (token, exp)"
  by (simp add: sign_def signer_now_def expiration_def checked_add_def signer_Inr demo_signer_def new_signer_def new_with_internal_ttl_def)
     (rule sign_claims_valid, simp add: validate_claims_iff)

lemma demo_path: "validate_file_path ''a/b'' = Inr ()"
  by (simp add: validate_file_path_def MAX_FILE_PATH_LENGTH_def BSLASH_def is_separator_def reserved_names_def eq_ignore_ascii_case_def)

lemma commit_demo_env_ok: "env_ok commit_demo_env"
proof -
  have "c \<in> set hex_digits \<Longrightarrow> is_ascii_hexdigit c" for c by (auto simp: hex_digits_def is_ascii_hexdigit_def)
  then have "hex_text_contract inst_crates" using hex_of_bytes_digits by (auto simp: hex_text_contract_def list_all_iff)
  moreover have "sha256_contract inst_crates" by (simp add: sha256_contract_def)
  ultimately show ?thesis by (auto simp: env_ok_def commit_demo_env_def demo_json_def split: if_splits)
qed

lemma demo_plan: "\<exists>plan. plan_commit commit_demo_env (\<lambda>_. no_faults) (\<lambda>_. demo_db1) demo_commit_request = Inr plan"
proof -
  obtain token exp where s: "sign inst_token_crates demo_signer (Some 1000) ''u'' ''write'' ''u/r'' ''model'' ''main'' = Inr (token, exp)"
    using demo_sign by blast
  have lines: "\<not> 10000 < length (filter P (str_lines (''h'' @ [CHR 0x0A] @ ''f'')))" for P by (simp add: str_lines_def strip_cr_def)
  have head: "get_head no_faults demo_db1 1 = Inr None" by (simp add: get_head_def query_def select_head_def demo_db1_eq db_empty_def)
  have "ensure_namespace_write_access ''u'' ''u'' = Inr ()" "ensure_parent_matches_head None None = Inr ()"
    by (simp_all add: namespace_access_Inr ensure_parent_Inr)
  then show ?thesis using s lines head demo_parse
    by (simp add: plan_commit_def demo_commit_request_def commit_demo_env_def MAX_COMMIT_BODY_SIZE_def MAX_COMMIT_OPERATIONS_def demo_repo
        is_lfs_operation_def is_file_operation_def Let_def)
qed

lemma demo_commit: "\<exists>resp db'. service_commit commit_demo_env (\<lambda>_. no_faults) (\<lambda>_. demo_db1) demo_commit_request () = (Inr resp, db', ())"
proof -
  obtain plan where plan: "plan_commit commit_demo_env (\<lambda>_. no_faults) (\<lambda>_. demo_db1) demo_commit_request = Inr plan" using demo_plan by blast
  have "parse_commit_body (ce_json commit_demo_env) (cq_body demo_commit_request) = Inr (cp_header plan, cp_operations plan)"
    by (rule plan_commit_Inr [OF plan])
  then have parsed: "cp_header plan = \<lparr>ch_summary = ''m'', ch_parent_revision = None\<rparr>" "cp_operations plan = [ToFile \<lparr>fo_path = ''a/b'', fo_content = ''base64:x''\<rparr>]"
    by (simp_all add: commit_demo_env_def demo_commit_request_def demo_parse [simplified])
  obtain repo where "get_repo no_faults demo_db1 (cq_namespace demo_commit_request) (cq_repo_name demo_commit_request) (cq_repo_type demo_commit_request) = Inr repo"
      "rp_id repo = cp_repo_id plan" by (rule plan_commit_Inr [OF plan])
  then have rid: "cp_repo_id plan = 1" by (auto simp: demo_commit_request_def demo_repo)
  obtain e where e: "process_operations commit_demo_env 1 (cp_commit_id plan) (cp_write_token plan) (cp_internal_token plan) (cp_operations plan) () = (Inr [Upsert e], ())"
      "unat (fe_size e) < 2 ^ 63"
    using demo_path by (simp add: parsed process_operation_def process_inline_file_def commit_demo_env_def decode_base64_content_def strip_prefix_def
        MAX_INLINE_SIZE_def as_bytes_def Let_def)
  have "fst (commit_changes_atomic no_faults (plan_revision demo_commit_request plan) [Upsert e] None demo_db1) = Inr ()"
    using e(2) by (simp add: demo_db1_eq db_empty_def commit_simps plan_revision_def rid)
  then show ?thesis using plan e(1) parsed rid by (auto simp: service_commit_def split: prod.splits sum.splits)
qed


lemma demo_svc: "svc_reach {commit_demo_env} demo_db1"
proof (rule svc_reach.create_typed [OF svc_reach.empty])
  show "create_typed_repo no_faults 0 ''u'' ''r'' Model False db_empty = (Inr \<lparr>rp_id = 1, rp_name = ''r'', rp_namespace = ''u'', rp_repo_type = Model,
    rp_sha = None, rp_private = False, rp_created_at = 0, rp_updated_at = 0\<rparr>, demo_db1)"
    by (simp add: create_typed_repo_def validate_repo_name_def is_ascii_alphanumeric_def demo_db1_eq create_repo_def exec_def insert_repo_sql_def
        checked_def fk_ok_def db_empty_def)
qed

theorem commit_extends_named_parent_witness:
  "\<exists>resp db'. service_commit commit_demo_env (\<lambda>_. no_faults) (\<lambda>_. demo_db1) demo_commit_request () = (Inr resp, db', ()) \<and>
     select_head demo_db1 1 = None \<and> select_head db' 1 = Some (cr_commit_oid resp) \<and> store_inv db'"
proof -
  obtain resp db' where c: "service_commit commit_demo_env (\<lambda>_. no_faults) (\<lambda>_. demo_db1) demo_commit_request () = (Inr resp, db', ())" using demo_commit by blast
  from commit_extends_named_parent [OF hub_reach_inv [OF demo_reach(1)], of commit_demo_env "\<lambda>_. no_faults", OF c] obtain repo where
    "get_repo no_faults demo_db1 ''u'' ''r'' Model = Inr repo" "store_inv db'"
    "\<forall>r. select_head db' r = (if r = rp_id repo then Some (cr_commit_oid resp) else select_head demo_db1 r)"
    by (auto simp: demo_commit_request_def)
  moreover from this(1) have "rp_id repo = 1" by (auto simp: demo_repo)
  moreover have "select_head demo_db1 1 = None" by (simp add: select_head_def demo_db1_eq db_empty_def)
  ultimately show ?thesis using c by auto
qed

theorem commits_on_one_parent_witness:
  "\<exists>resp db1 e c2. service_commit commit_demo_env (\<lambda>_. no_faults) (\<lambda>_. demo_db1) demo_commit_request () = (Inr resp, db1, ()) \<and>
     service_commit commit_demo_env (\<lambda>_. no_faults) (\<lambda>k. if k = 2 then db1 else demo_db1) demo_commit_request () = (Inl e, db1, c2)"
proof -
  obtain resp db1 where c: "service_commit commit_demo_env (\<lambda>_. no_faults) (\<lambda>_. demo_db1) demo_commit_request () = (Inr resp, db1, ())" using demo_commit by blast
  let ?dbs = "\<lambda>k :: nat. if k = 2 then db1 else demo_db1"
  have g: "get_repo no_faults demo_db1 (cq_namespace demo_commit_request) (cq_repo_name demo_commit_request) (cq_repo_type demo_commit_request) =
      Inr \<lparr>rp_id = 1, rp_name = ''r'', rp_namespace = ''u'', rp_repo_type = Model, rp_sha = None, rp_private = False, rp_created_at = 0, rp_updated_at = 0\<rparr>"
    by (simp add: demo_commit_request_def demo_repo)
  have p: "parse_commit_body (ce_json commit_demo_env) (cq_body demo_commit_request) =
      Inr (\<lparr>ch_summary = ''m'', ch_parent_revision = None\<rparr>, [ToFile \<lparr>fo_path = ''a/b'', fo_content = ''base64:x''\<rparr>])"
    using demo_parse by (simp add: commit_demo_env_def demo_commit_request_def)
  have "\<exists>e c2. service_commit commit_demo_env (\<lambda>_. no_faults) ?dbs demo_commit_request () = (Inl e, ?dbs 2, c2)"
    by (rule commits_on_one_parent [where ?dbs1.0 = "\<lambda>_. demo_db1" and ?dbs2.0 = ?dbs and ?D1.0 = "\<lambda>_. no_faults" and ?D2.0 = "\<lambda>_. no_faults",
      OF hub_reach_inv [OF demo_reach(1)] c _ g _ refl p p refl]) (use g in \<open>simp_all only: simp_thms if_True if_False rtranclp.rtrancl_refl zero_neq_numeral\<close>)
  with c show ?thesis by auto
qed

theorem service_states_well_typed_witness:
  "\<exists>resp db'. service_commit commit_demo_env (\<lambda>_. no_faults) (\<lambda>_. demo_db1) demo_commit_request () = (Inr resp, db', ()) \<and> well_typed db'"
proof -
  obtain resp db' where c: "service_commit commit_demo_env (\<lambda>_. no_faults) (\<lambda>_. demo_db1) demo_commit_request () = (Inr resp, db', ())" using demo_commit by blast
  have "svc_reach {commit_demo_env} db'" by (rule svc_reach.commit [of _ "\<lambda>_. demo_db1", OF demo_svc _ c]) simp
  from service_states_well_typed [OF this] commit_demo_env_ok c show ?thesis by auto
qed


section \<open>What the path check lets through\<close>

lemma path_check_gaps:
  "validate_file_path ''a/'' = Inr ()" "validate_file_path (''a/'' @ [BSLASH] @ ''b'') = Inr ()" "validate_file_path ''a/CON'' = Inr ()"
  "validate_file_path ''CON/a'' = Inl ''File path uses reserved name''" "validate_file_path ''a//b'' = Inl ''File path contains empty components''"
  by (simp_all add: validate_file_path_def MAX_FILE_PATH_LENGTH_def BSLASH_def is_separator_def reserved_names_def eq_ignore_ascii_case_def
      ascii_lower_def)

end
