(* ===== verification/Upload_Stream.thy ===== *)
theory Upload_Stream
  imports Storage_Access Temp_Quota
begin

text \<open>
  Receiving an upload: the disk check of \<^verbatim>\<open>src/src/util/disk.rs\<close>, the temporary file of
  \<^verbatim>\<open>src/src/util/temp_file.rs\<close> with its quota reservation, and the loop of
  \<^verbatim>\<open>src/src/util/payload_stream.rs\<close> that writes a request payload into it. The outcome of every
  operation of the host is a parameter; a payload is the list of the items its stream yields.

  The lemmas show that a payload that is accepted is in the temporary file byte for byte and
  was hashed block by block, and that whatever happens the quota ledger gets back what the
  temporary file held.
\<close>

section \<open>The host\<close>

text \<open>
  What the host answers during one upload: the creation of the directory, twice, the existence of
  the path, the file system statistics as block size and free blocks, the creation of the
  file, the writes in order, and the two steps of flushing it.
\<close>

record host_io =
  io_ensure_dir :: bool
  io_path_exists :: bool
  io_statvfs :: "(u64 \<times> u64) option"
  io_create_dir :: bool
  io_available :: "u64 option"
  io_create_file :: bool
  io_write :: "nat \<Rightarrow> bool"
  io_flush :: bool
  io_sync :: bool

definition check_disk_space :: "host_io \<Rightarrow> u64 \<Rightarrow> string + unit" where
  "check_disk_space io required_bytes =
     (if \<not> io_path_exists io then Inl ''Path does not exist''
      else rbind (ok_or (io_statvfs io) ''statvfs failed'') (\<lambda>(fragment_size, blocks_available).
        let available = fragment_size * blocks_available in
        if available < required_bytes then Inl ''Insufficient disk space'' else Inr ()))"

definition ensure_dir_and_check_space :: "host_io \<Rightarrow> u64 \<Rightarrow> string + unit" where
  "ensure_dir_and_check_space io required_bytes =
     (if \<not> io_ensure_dir io then Inl ''Failed to create temp dir'' else check_disk_space io required_bytes)"

section \<open>The temporary file\<close>

text \<open>Its content, whether the handle is open, and its reservation.\<close>

record TempFile =
  tf_data :: bytes
  tf_file :: bool
  tf_reservation :: "TempReservation option"

definition create_temp_file :: "host_io \<Rightarrow> StorageError + TempFile" where
  "create_temp_file io =
     (if \<not> io_create_dir io then Inl (StorageError.Internal ''Failed to create temp dir'')
      else if \<not> io_create_file io then Inl (StorageError.Internal ''Failed to create temp file'')
      else Inr \<lparr>tf_data = [], tf_file = True, tf_reservation = None\<rparr>)"

text \<open>When the file cannot be created, the empty reservation is dropped.\<close>

definition create_with_manager :: "host_io \<Rightarrow> TempQuotaLedger \<Rightarrow> (StorageError + TempFile) \<times> TempQuotaLedger" where
  "create_with_manager io manager =
     (if \<not> io_create_dir io then (Inl (StorageError.Internal ''Failed to create temp dir''), manager)
      else case manager_reserve (io_available io) manager 0 of
        (Inl _, manager) \<Rightarrow> (Inl Quota, manager)
      | (Inr reservation, manager) \<Rightarrow>
          if \<not> io_create_file io
          then (Inl (StorageError.Internal ''Failed to create temp file''), drop_reservation manager reservation)
          else (Inr \<lparr>tf_data = [], tf_file = True, tf_reservation = Some reservation\<rparr>, manager))"

definition create_with_ledger :: "host_io \<Rightarrow> TempQuotaLedger \<Rightarrow> (StorageError + TempFile) \<times> TempQuotaLedger" where
  "create_with_ledger io ledger = create_with_manager io ledger"

text \<open>Without a shared ledger the file gets one of its own.\<close>

definition create_with_quota :: "host_io \<Rightarrow> u64 \<Rightarrow> u64 \<Rightarrow> StorageError + (TempFile \<times> TempQuotaLedger)" where
  "create_with_quota io quota min_free =
     rbind (map_err (\<lambda>_. Quota) (ledger_new quota min_free)) (\<lambda>manager.
     case create_with_manager io manager of
       (Inl e, _) \<Rightarrow> Inl e
     | (Inr tf, manager) \<Rightarrow> Inr (tf, manager))"

definition write_open :: "bool \<Rightarrow> TempFile \<Rightarrow> bytes \<Rightarrow> StorageError + TempFile" where
  "write_open written tf data =
     (if \<not> tf_file tf then Inl (StorageError.Internal ''TempFile already closed for storage'')
      else if \<not> written then Inl (StorageError.Internal ''Failed to write to temp file'')
      else Inr (tf\<lparr>tf_data := tf_data tf @ data\<rparr>))"

text \<open>
  Reserve, write, commit. What a failed write leaves in the file is never read: the file is
  dropped.
\<close>

definition tf_write_all ::
  "bool \<Rightarrow> TempQuotaLedger \<Rightarrow> TempFile \<Rightarrow> bytes \<Rightarrow> (StorageError + unit) \<times> TempFile \<times> TempQuotaLedger" where
  "tf_write_all written l tf data =
     (case tf_reservation tf of
        None \<Rightarrow> (case write_open written tf data of Inl e \<Rightarrow> (Inl e, tf, l) | Inr tf \<Rightarrow> (Inr (), tf, l))
      | Some reservation \<Rightarrow>
          (case reserve_additional l reservation (of_nat (length data)) of
             (Inl _, r, l) \<Rightarrow> (Inl Quota, tf\<lparr>tf_reservation := Some r\<rparr>, l)
           | (Inr _, r, l) \<Rightarrow>
               (case write_open written (tf\<lparr>tf_reservation := Some r\<rparr>) data of
                  Inl e \<Rightarrow> (Inl e, tf\<lparr>tf_reservation := Some r\<rparr>, l)
                | Inr tf \<Rightarrow>
                    (case commit_written l r (of_nat (length data)) of
                       (Inl _, r, l) \<Rightarrow> (Inl Quota, tf\<lparr>tf_reservation := Some r\<rparr>, l)
                     | (Inr _, r, l) \<Rightarrow> (Inr (), tf\<lparr>tf_reservation := Some r\<rparr>, l)))))"

definition tf_sync_all :: "host_io \<Rightarrow> TempFile \<Rightarrow> StorageError + unit" where
  "tf_sync_all io tf =
     (if \<not> tf_file tf then Inl (StorageError.Internal ''TempFile already closed for storage'')
      else if \<not> io_flush io then Inl (StorageError.Internal ''Failed to flush temp file'')
      else if \<not> io_sync io then Inl (StorageError.Internal ''Failed to fsync temp file'')
      else Inr ())"

text \<open>The drop removes the file and with it gives back the reservation.\<close>

definition drop_temp_file :: "TempQuotaLedger \<Rightarrow> TempFile \<Rightarrow> TempQuotaLedger" where
  "drop_temp_file l tf = (case tf_reservation tf of None \<Rightarrow> l | Some r \<Rightarrow> drop_reservation l r)"

section \<open>Streaming a payload\<close>

datatype StreamPayloadError = Payload string | TooLarge u64 | Write string | Sync string | QuotaError

text \<open>The total is checked before the block is hashed and written; \<open>n\<close> counts the writes.\<close>

fun stream_blocks ::
  "host_io \<Rightarrow> u64 \<Rightarrow> ('h \<Rightarrow> bytes \<Rightarrow> 'h) \<Rightarrow> nat \<Rightarrow> (string + bytes) list \<Rightarrow> u64 \<Rightarrow> 'h \<Rightarrow> TempFile \<Rightarrow> TempQuotaLedger \<Rightarrow>
     (StreamPayloadError + u64) \<times> 'h \<times> TempFile \<times> TempQuotaLedger" where
  "stream_blocks io max_bytes on_chunk n [] total_bytes h tf l = (Inr total_bytes, h, tf, l)"
| "stream_blocks io max_bytes on_chunk n (Inl e # items) total_bytes h tf l = (Inl (Payload e), h, tf, l)"
| "stream_blocks io max_bytes on_chunk n (Inr chunk # items) total_bytes h tf l =
     (case checked_add total_bytes (of_nat (length chunk)) of
        None \<Rightarrow> (Inl QuotaError, h, tf, l)
      | Some total_bytes \<Rightarrow>
          if total_bytes > max_bytes then (Inl (TooLarge max_bytes), h, tf, l)
          else
            (case tf_write_all (io_write io n) l tf chunk of
               (Inl e, tf, l) \<Rightarrow>
                 (Inl (if e = Quota then QuotaError else Write ''Failed to write to temp file''), on_chunk h chunk, tf, l)
             | (Inr _, tf, l) \<Rightarrow>
                 stream_blocks io max_bytes on_chunk (Suc n) items total_bytes (on_chunk h chunk) tf l))"

definition stream_payload_to_temp ::
  "host_io \<Rightarrow> u64 \<Rightarrow> ('h \<Rightarrow> bytes \<Rightarrow> 'h) \<Rightarrow> (string + bytes) list \<Rightarrow> 'h \<Rightarrow> TempFile \<Rightarrow> TempQuotaLedger \<Rightarrow>
     (StreamPayloadError + u64) \<times> 'h \<times> TempFile \<times> TempQuotaLedger" where
  "stream_payload_to_temp io max_bytes on_chunk payload h tf l =
     (case stream_blocks io max_bytes on_chunk 0 payload 0 h tf l of
        (Inl e, h, tf, l) \<Rightarrow> (Inl e, h, tf, l)
      | (Inr total_bytes, h, tf, l) \<Rightarrow>
          (case tf_sync_all io tf of
             Inl _ \<Rightarrow> (Inl (Sync ''Failed to sync temp file''), h, tf, l)
           | Inr _ \<Rightarrow> (Inr total_bytes, h, tf, l)))"

section \<open>What is written\<close>

lemma write_open_Inr: "write_open w tf data = Inr tf' \<longleftrightarrow> tf_file tf \<and> w \<and> tf' = tf\<lparr>tf_data := tf_data tf @ data\<rparr>"
  by (auto simp: write_open_def)

lemma tf_write_all_Inr:
  assumes "tf_write_all w l tf data = (Inr u, tf', l')"
  shows "w \<and> tf_file tf \<and> tf_file tf' \<and> tf_data tf' = tf_data tf @ data"
  using assms by (auto simp: tf_write_all_def write_open_Inr split: option.splits sum.splits prod.splits)

lemma stream_blocks_Inr:
  assumes "stream_blocks io max_bytes on_chunk n payload t0 h tf l = (Inr t, h', tf', l')" "t0 \<le> max_bytes"
  shows "\<exists>blocks. payload = map Inr blocks \<and> tf_data tf' = tf_data tf @ concat blocks \<and> h' = foldl on_chunk h blocks \<and>
    unat t = unat t0 + (\<Sum>b\<leftarrow>blocks. unat (of_nat (length b) :: u64)) \<and> t \<le> max_bytes"
  using assms
proof (induction io max_bytes on_chunk n payload t0 h tf l rule: stream_blocks.induct)
  case (3 io max_bytes on_chunk n chunk items t0 h tf l)
  from 3(2) obtain t1 where t1: "checked_add t0 (of_nat (length chunk)) = Some t1"
    by (auto split: option.splits)
  with 3(2) have le: "t1 \<le> max_bytes" "\<not> max_bytes < t1" by (auto split: if_splits)
  obtain r tf1 l1 where w: "tf_write_all (io_write io n) l tf chunk = (r, tf1, l1)" by (metis prod_cases3)
  with 3(2) t1 le obtain u where r: "r = Inr u" by (cases r) auto
  have rest: "stream_blocks io max_bytes on_chunk (Suc n) items t1 (on_chunk h chunk) tf1 l1 = (Inr t, h', tf', l')"
    using 3(2) t1 le w r by simp
  from 3(1) [OF t1 le(2) w [symmetric] r refl rest le(1)] obtain blocks where
    b: "items = map Inr blocks" "tf_data tf' = tf_data tf1 @ concat blocks" "h' = foldl on_chunk (on_chunk h chunk) blocks"
      "unat t = unat t1 + (\<Sum>b\<leftarrow>blocks. unat (of_nat (length b) :: u64))" "t \<le> max_bytes" by blast
  have "tf_data tf1 = tf_data tf @ chunk" using tf_write_all_Inr [of _ l tf chunk u tf1 l1] w r by simp
  moreover have "unat t1 = unat t0 + unat (of_nat (length chunk) :: u64)" using unat_checked_add [OF t1] .
  ultimately show ?case using b by (intro exI [of _ "chunk # blocks"]) simp
qed auto

lemma stream_payload_Inr:
  assumes "stream_payload_to_temp io max_bytes on_chunk payload h tf l = (Inr t, h', tf', l')"
  obtains blocks where "payload = map Inr blocks" "tf_data tf' = tf_data tf @ concat blocks" "h' = foldl on_chunk h blocks"
    "unat t = (\<Sum>b\<leftarrow>blocks. unat (of_nat (length b) :: u64))" "t \<le> max_bytes"
proof -
  have "stream_blocks io max_bytes on_chunk 0 payload 0 h tf l = (Inr t, h', tf', l')"
    using assms by (auto simp: stream_payload_to_temp_def split: prod.splits sum.splits)
  from stream_blocks_Inr [OF this] that show thesis by auto
qed

section \<open>The ledger gets its bytes back\<close>

text \<open>The ledger is \<open>l0\<close> with the temporary file's reservation on top.\<close>

definition holds_on :: "TempQuotaLedger \<Rightarrow> TempFile \<Rightarrow> TempQuotaLedger \<Rightarrow> bool" where
  "holds_on l0 tf l \<longleftrightarrow> (\<exists>r. tf_reservation tf = Some r \<and> quota_bytes l = quota_bytes l0 \<and> min_free_bytes l = min_free_bytes l0 \<and>
     unat (reserved_bytes l) = unat (reserved_bytes l0) + unat (tr_reserved r) \<and>
     unat (charged_bytes l) = unat (charged_bytes l0) + unat (tr_charged r) \<and>
     unat (charged_bytes l) + unat (reserved_bytes l) < 2 ^ 64)"

lemma min_free_kept:
  "reserve_additional l r n = (res, r', l') \<Longrightarrow> min_free_bytes l' = min_free_bytes l"
  "commit_written l r n = (res, r', l') \<Longrightarrow> min_free_bytes l' = min_free_bytes l"
  "min_free_bytes (drop_reservation l r) = min_free_bytes l"
  by (auto simp: reserve_additional_def reserve_def drop_reservation_def release_reserved_def release_charged_def
      commit_written_def commit_def Let_def split: option.splits prod.splits sum.splits if_splits)

lemma ledger_eqI:
  "quota_bytes l = quota_bytes l' \<Longrightarrow> min_free_bytes l = min_free_bytes l' \<Longrightarrow>
     unat (reserved_bytes l) = unat (reserved_bytes l') \<Longrightarrow> unat (charged_bytes l) = unat (charged_bytes l') \<Longrightarrow> l = l'"
  for l l' :: TempQuotaLedger
  by (simp add: word_unat_eq_iff)

lemma holds_on_drop: "holds_on l0 tf l \<Longrightarrow> drop_temp_file l tf = l0"
proof -
  assume "holds_on l0 tf l"
  then obtain r where r: "tf_reservation tf = Some r" "quota_bytes l = quota_bytes l0" "min_free_bytes l = min_free_bytes l0"
     "unat (reserved_bytes l) = unat (reserved_bytes l0) + unat (tr_reserved r)"
     "unat (charged_bytes l) = unat (charged_bytes l0) + unat (tr_charged r)" "unat (charged_bytes l) + unat (reserved_bytes l) < 2 ^ 64"
    by (auto simp: holds_on_def)
  then have "covers l r" by (simp add: covers_def)
  from drop_reservation_spec [OF this] min_free_kept(3) [of l r] r have "drop_reservation l r = l0"
    by (intro ledger_eqI) simp_all
  then show ?thesis by (simp add: drop_temp_file_def r(1))
qed

lemma holds_on_write:
  assumes "holds_on l0 tf l" "tf_write_all w l tf data = (res, tf', l')"
  shows "holds_on l0 tf' l'"
proof -
  let ?n = "of_nat (length data) :: u64"
  obtain r where r: "tf_reservation tf = Some r" "quota_bytes l = quota_bytes l0" "min_free_bytes l = min_free_bytes l0"
     "unat (reserved_bytes l) = unat (reserved_bytes l0) + unat (tr_reserved r)"
     "unat (charged_bytes l) = unat (charged_bytes l0) + unat (tr_charged r)" "unat (charged_bytes l) + unat (reserved_bytes l) < 2 ^ 64"
    using assms(1) by (auto simp: holds_on_def)
  then have cov: "covers l r" by (simp add: covers_def)
  obtain a r1 l1 where ra: "reserve_additional l r ?n = (a, r1, l1)" by (metis prod_cases3)
  note s1 = reserve_additional_spec [OF ra cov] and m1 = min_free_kept(1) [OF ra]
  have fits: "unat (charged_bytes l1) + unat (reserved_bytes l1) < 2 ^ 64"
    using s1 r(6) unat_u64_less [of "quota_bytes l"] by auto
  have mid: "holds_on l0 (tf''\<lparr>tf_reservation := Some r1\<rparr>) l1" for tf''
    using s1 m1 r fits by (auto simp: holds_on_def)
  obtain b r2 l2 where cw: "commit_written l1 r1 ?n = (b, r2, l2)" by (metis prod_cases3)
  have cov1: "covers l1 r1" using mid [of tf] by (auto simp: holds_on_def covers_def)
  note s2 = commit_written_spec [OF cov1 cw] and m2 = min_free_kept(2) [OF cw]
  have last: "holds_on l0 (tf''\<lparr>tf_reservation := Some r2\<rparr>) l2" for tf''
  proof (cases "?n \<le> tr_reserved r1")
    case True
    then have "unat ?n \<le> unat (tr_reserved r1)" by (simp add: word_le_nat_alt)
    with s2 m2 mid [of tf] True show ?thesis by (auto simp: holds_on_def)
  next
    case False
    with s2 m2 mid [of tf] show ?thesis by (auto simp: holds_on_def)
  qed
  from assms(2) mid last show ?thesis
    by (cases a; cases "write_open w (tf\<lparr>tf_reservation := Some r1\<rparr>) data"; cases b) (auto simp: tf_write_all_def r(1) ra cw)
qed

lemma holds_on_blocks:
  "holds_on l0 tf l \<Longrightarrow> stream_blocks io max_bytes on_chunk n payload t0 h tf l = (res, h', tf', l') \<Longrightarrow> holds_on l0 tf' l'"
proof (induction io max_bytes on_chunk n payload t0 h tf l rule: stream_blocks.induct)
  case (3 io max_bytes on_chunk n chunk items t0 h tf l)
  show ?case
  proof (cases "checked_add t0 (of_nat (length chunk))")
    case None
    with 3 show ?thesis by simp
  next
    case (Some t1)
    obtain r tf1 l1 where w: "tf_write_all (io_write io n) l tf chunk = (r, tf1, l1)" by (metis prod_cases3)
    note h1 = holds_on_write [OF 3(2) w]
    show ?thesis
    proof (cases "max_bytes < t1")
      case True
      with 3(2,3) Some show ?thesis by simp
    next
      case False
      show ?thesis
      proof (cases r)
        case (Inl e)
        with 3(3) Some False w h1 show ?thesis by simp
      next
        case (Inr u)
        with 3(3) Some False w have "stream_blocks io max_bytes on_chunk (Suc n) items t1 (on_chunk h chunk) tf1 l1 = (res, h', tf', l')" by simp
        from 3(1) [OF Some False w [symmetric] Inr refl h1 this] show ?thesis .
      qed
    qed
  qed
qed simp_all

lemma holds_on_stream:
  "holds_on l0 tf l \<Longrightarrow> stream_payload_to_temp io max_bytes on_chunk payload h tf l = (res, h', tf', l') \<Longrightarrow> holds_on l0 tf' l'"
proof -
  assume h: "holds_on l0 tf l" and run: "stream_payload_to_temp io max_bytes on_chunk payload h tf l = (res, h', tf', l')"
  obtain r h1 tf1 l1 where b: "stream_blocks io max_bytes on_chunk 0 payload 0 h tf l = (r, h1, tf1, l1)" by (metis prod_cases4)
  have "tf' = tf1 \<and> l' = l1" using run b by (auto simp: stream_payload_to_temp_def split: sum.splits)
  with holds_on_blocks [OF h b] show ?thesis by simp
qed

lemma manager_reserve_0: "manager_reserve a l 0 = (Inr r, l') \<Longrightarrow> l' = l \<and> r = \<lparr>tr_reserved = 0, tr_charged = 0\<rparr>"
  by (auto simp: manager_reserve_def reserve_def split: option.splits if_splits)

lemma manager_reserve_0_Inl: "manager_reserve a l 0 = (Inl e, l') \<Longrightarrow> l' = l"
  by (auto simp: manager_reserve_def reserve_def split: option.splits if_splits)

lemma create_with_manager_cases:
  assumes "create_with_manager io l = (res, l')"
  shows "case res of Inl _ \<Rightarrow> l' = l
    | Inr tf \<Rightarrow> tf_data tf = [] \<and> (unat (charged_bytes l) + unat (reserved_bytes l) < 2 ^ 64 \<longrightarrow> holds_on l tf l')"
proof -
  obtain a l1 where m: "manager_reserve (io_available io) l 0 = (a, l1)" by (metis surj_pair)
  have "drop_reservation l \<lparr>tr_reserved = 0, tr_charged = 0\<rparr> = l"
    by (simp add: drop_reservation_def release_reserved_def release_charged_def)
  with assms m manager_reserve_0 [of "io_available io" l] manager_reserve_0_Inl [of "io_available io" l] show ?thesis
    by (cases a) (auto simp: create_with_manager_def holds_on_def split: if_splits)
qed

end
