(* ===== verification/Xorb_Identity.thy ===== *)
theory Xorb_Identity
  imports Xorb_Format
begin

text \<open>
  What the name of a xorb says about its bytes. The upload handler of \<^verbatim>\<open>src/src/api/xorb.rs\<close> checks
  whether a xorb exists and stores it in two steps, on the ground that equal hashes mean equal
  content. The name is the root of a hash tree over the chunks and the rest of an accepted
  file follows from the chunks, so two accepted files with one name are equal unless two
  different texts hashed while verifying them have the same hash.
\<close>

section \<open>The texts hashed for a xorb\<close>

text \<open>The pieces of an accepted file, each a serialized chunk and its unpacked length.\<close>

definition xorb_pieces :: "crates \<Rightarrow> bytes \<Rightarrow> (bytes \<times> nat) list \<Rightarrow> bool" where
  "xorb_pieces C d ps \<longleftrightarrow> list_all (\<lambda>(p, u). piece_ok p u) ps \<and>
     (\<exists>f. footer_for C ps f \<and> d = concat (map fst ps) @ footer_serialize f)"

definition piece_nodes :: "crates \<Rightarrow> (bytes \<times> nat) list \<Rightarrow> node list" where
  "piece_nodes C ps = map (\<lambda>(p, u). (compute_data_hash C p, of_nat (length p))) ps"

text \<open>Key and text of every hash that the verification of the file computes.\<close>

definition hashed_texts :: "crates \<Rightarrow> (bytes \<times> nat) list \<Rightarrow> (bytes \<times> bytes) list" where
  "hashed_texts C ps = map (\<lambda>p. (DATA_KEY, fst p)) ps @ map (Pair INTERNAL_NODE_KEY) (merge_inputs C (piece_nodes C ps))"

text \<open>Two of the texts have one hash, or one hashes to the reserved all-zero value.\<close>

definition hash_collision :: "crates \<Rightarrow> (bytes \<times> bytes) list \<Rightarrow> bool" where
  "hash_collision C ts \<longleftrightarrow>
     (\<exists>a\<in>set ts. \<exists>b\<in>set ts. a \<noteq> b \<and> keyed_hash C (fst a) (snd a) = keyed_hash C (fst b) (snd b)) \<or>
     (\<exists>a\<in>set ts. keyed_hash C (fst a) (snd a) = replicate 32 0)"

lemma keys_differ: "DATA_KEY \<noteq> INTERNAL_NODE_KEY"
  by (simp add: DATA_KEY_def INTERNAL_NODE_KEY_def)

section \<open>Levels of the tree\<close>

abbreviation is_inner :: "crates \<Rightarrow> node list \<Rightarrow> merkle_hash \<Rightarrow> bool" where
  "is_inner C ns h \<equiv> \<exists>m\<in>set (merge_inputs C ns). h = compute_internal_node_hash C m"

lemma level_inner:
  assumes "1 < length ns" "z \<in> set (merge_level C ns)"
  shows "is_inner C ns (fst z)"
  using assms by (auto simp: merge_level_groups merge_inputs_step merged_hash_of_sequence_def)

lemma merge_levels:
  "k \<le> merge_rounds C ns \<Longrightarrow> ns \<noteq> [] \<Longrightarrow>
     \<exists>zs. zs \<noteq> [] \<and> merge_rounds C zs = merge_rounds C ns - k \<and> collapse_nodes C zs = collapse_nodes C ns \<and>
       set (merge_inputs C zs) \<subseteq> set (merge_inputs C ns) \<and> (if k = 0 then zs = ns else \<forall>z\<in>set zs. is_inner C ns (fst z))"
proof (induction k)
  case (Suc k)
  then obtain zs where zs: "zs \<noteq> []" "merge_rounds C zs = merge_rounds C ns - k" "collapse_nodes C zs = collapse_nodes C ns"
      "set (merge_inputs C zs) \<subseteq> set (merge_inputs C ns)" by (meson Suc_leD)
  have "merge_rounds C zs = Suc (merge_rounds C ns - Suc k)" using zs(2) Suc.prems(1) by simp
  then have up: "1 < length zs" "merge_rounds C (merge_level C zs) = merge_rounds C ns - Suc k" by (simp_all add: merge_rounds_pos)
  have "set (merge_inputs C (merge_level C zs)) \<subseteq> set (merge_inputs C ns)" using zs(4) by (auto simp: merge_inputs_step [OF up(1)])
  moreover have "\<forall>z\<in>set (merge_level C zs). is_inner C ns (fst z)" using level_inner [OF up(1)] zs(4) by blast
  ultimately show ?case using up zs(1,3) by (intro exI [of _ "merge_level C zs"]) (simp add: collapse_step)
qed auto

lemma root_origin: "ns \<noteq> [] \<Longrightarrow> collapse_nodes C ns \<in> fst ` set ns \<or> is_inner C ns (collapse_nodes C ns)"
proof -
  assume ne: "ns \<noteq> []"
  obtain zs where zs: "zs \<noteq> []" "merge_rounds C zs = 0" "collapse_nodes C zs = collapse_nodes C ns"
      "if merge_rounds C ns = 0 then zs = ns else \<forall>z\<in>set zs. is_inner C ns (fst z)"
    using merge_levels [OF order.refl ne] by (metis diff_self_eq_0)
  obtain z where "zs = [z]" using zs(1,2) by (cases zs) (auto simp: merge_rounds_0)
  with zs(3,4) show ?thesis by (auto simp: collapse_single split: if_splits)
qed

section \<open>Equal roots\<close>

lemma mh_zero: "blake3_contract C \<Longrightarrow> mh_from_bytes (keyed_hash C k m) = mh_new \<Longrightarrow> keyed_hash C k m = replicate 32 0"
proof -
  assume "blake3_contract C" "mh_from_bytes (keyed_hash C k m) = mh_new"
  then have "keyed_hash C k m = mh_as_bytes mh_new" by (metis blake3_contract_def mh_as_from_bytes)
  also have "\<dots> = replicate 32 0" by code_simp
  finally show ?thesis .
qed

lemma equal_roots:
  assumes C: "blake3_contract C" "hex_contract C" and ok: "\<not> hash_collision C (hashed_texts C ps @ hashed_texts C qs)"
    and root: "xorb_hash C (piece_nodes C ps) = xorb_hash C (piece_nodes C qs)"
    and le: "merge_rounds C (piece_nodes C ps) \<le> merge_rounds C (piece_nodes C qs)"
  shows "map fst ps = map fst qs"
proof -
  let ?xs = "piece_nodes C ps" and ?ys = "piece_nodes C qs" and ?ts = "hashed_texts C ps @ hashed_texts C qs"
  have inj: "a = b" if "a \<in> set ?ts" "b \<in> set ?ts" "keyed_hash C (fst a) (snd a) = keyed_hash C (fst b) (snd b)" for a b
    using ok that unfolding hash_collision_def by blast
  have eq: "keyed_hash C k m = keyed_hash C k' m'" if "mh_from_bytes (keyed_hash C k m) = mh_from_bytes (keyed_hash C k' m')" for k m k' m'
    using that C(1) by (simp add: blake3_contract_def mh_from_bytes_inject)
  have leaf: "(DATA_KEY, fst p) \<in> set ?ts" if "p \<in> set ps \<or> p \<in> set qs" for p using that by (auto simp: hashed_texts_def)
  have inner: "(INTERNAL_NODE_KEY, m) \<in> set ?ts" if "m \<in> set (merge_inputs C ?xs) \<or> m \<in> set (merge_inputs C ?ys)" for m
    using that by (auto simp: hashed_texts_def)
  have nz: "xorb_hash C (piece_nodes C rs) \<noteq> mh_new" if rs: "rs \<noteq> []" "rs = ps \<or> rs = qs" for rs
  proof
    assume z: "xorb_hash C (piece_nodes C rs) = mh_new"
    have ne: "piece_nodes C rs \<noteq> []" using rs(1) by (simp add: piece_nodes_def)
    then have "collapse_nodes C (piece_nodes C rs) = mh_new" using z by (simp add: xorb_hash_def aggregated_node_hash_def)
    then have "mh_new \<in> fst ` set (piece_nodes C rs) \<or> is_inner C (piece_nodes C rs) mh_new" using root_origin [OF ne, of C] by simp
    then consider p where "p \<in> set rs" "compute_data_hash C (fst p) = mh_new"
      | m where "m \<in> set (merge_inputs C (piece_nodes C rs))" "compute_internal_node_hash C m = mh_new"
      by (auto simp: piece_nodes_def)
    then obtain k m where "(k, m) \<in> set ?ts" "mh_from_bytes (keyed_hash C k m) = mh_new"
      using rs(2) leaf inner unfolding compute_data_hash_def compute_internal_node_hash_def by metis
    with mh_zero [OF C(1)] ok show False unfolding hash_collision_def by (metis fst_conv snd_conv)
  qed
  show ?thesis
  proof (cases "ps = [] \<or> qs = []")
    case True
    have "xorb_hash C [] = mh_new" by (rule hash_of_trivial_lists)
    then have "xorb_hash C (piece_nodes C []) = mh_new" by (simp add: piece_nodes_def)
    with True root nz show ?thesis by metis
  next
    case False
    then have ne: "?xs \<noteq> []" "?ys \<noteq> []" by (simp_all add: piece_nodes_def)
    define k where "k = merge_rounds C ?ys - merge_rounds C ?xs"
    obtain zs where zs: "zs \<noteq> []" "merge_rounds C zs = merge_rounds C ?ys - k" "collapse_nodes C zs = collapse_nodes C ?ys"
        "set (merge_inputs C zs) \<subseteq> set (merge_inputs C ?ys)" "if k = 0 then zs = ?ys else \<forall>z\<in>set zs. is_inner C ?ys (fst z)"
      using merge_levels [OF _ ne(2), of k C] unfolding k_def by (metis diff_le_self)
    have "no_collision C (merge_inputs C ?xs @ merge_inputs C zs)"
      unfolding no_collision_def
    proof (intro ballI impI)
      fix a b
      assume "a \<in> set (merge_inputs C ?xs @ merge_inputs C zs)" "b \<in> set (merge_inputs C ?xs @ merge_inputs C zs)"
        and h: "keyed_hash C INTERNAL_NODE_KEY a = keyed_hash C INTERNAL_NODE_KEY b"
      then have "(INTERNAL_NODE_KEY, a) \<in> set ?ts" "(INTERNAL_NODE_KEY, b) \<in> set ?ts" using inner [of a] inner [of b] zs(4) by auto
      from inj [OF this] h show "a = b" by simp
    qed
    moreover have "merge_rounds C zs = merge_rounds C ?xs" using zs(2) le by (simp add: k_def)
    moreover have "collapse_nodes C ?xs = collapse_nodes C zs"
      using root zs(3) ne by (simp add: xorb_hash_def aggregated_node_hash_def)
    ultimately have cols: "map fst ?xs = map fst zs" using collapse_binds [OF C] ne(1) zs(1) by blast
    have "k = 0"
    proof (rule ccontr)
      assume "k \<noteq> 0"
      obtain p ps' where p: "ps = p # ps'" using False by (cases ps) auto
      obtain z where "z \<in> set zs" "fst z = compute_data_hash C (fst p)"
        using cols zs(1) p by (cases zs) (auto simp: piece_nodes_def split_def)
      then obtain m where m: "m \<in> set (merge_inputs C ?ys)" "compute_data_hash C (fst p) = compute_internal_node_hash C m"
        using zs(5) \<open>k \<noteq> 0\<close> by auto
      then have "keyed_hash C DATA_KEY (fst p) = keyed_hash C INTERNAL_NODE_KEY m"
        using eq by (simp add: compute_data_hash_def compute_internal_node_hash_def)
      with inj [OF leaf inner, of p m] p m(1) keys_differ show False by auto
    qed
    then have "map fst ?xs = map fst ?ys" using cols zs(5) by simp
    then have "map (\<lambda>p. compute_data_hash C (fst p)) ps = map (\<lambda>p. compute_data_hash C (fst p)) qs"
      by (simp add: piece_nodes_def split_def comp_def)
    then have "map (compute_data_hash C) (map fst ps) = map (compute_data_hash C) (map fst qs)" by (simp add: comp_def)
    then show ?thesis
    proof (rule map_inj_on_eq)
      fix x y assume x: "x \<in> set (map fst ps)" and y: "y \<in> set (map fst qs)" and h: "compute_data_hash C x = compute_data_hash C y"
      have "(DATA_KEY, x) \<in> set ?ts" "(DATA_KEY, y) \<in> set ?ts" using x y by (auto simp: hashed_texts_def)
      moreover have "keyed_hash C DATA_KEY x = keyed_hash C DATA_KEY y" using eq h by (simp add: compute_data_hash_def)
      ultimately show "x = y" using inj [of "(DATA_KEY, x)" "(DATA_KEY, y)"] by simp
    qed
  qed
qed

section \<open>Equal names\<close>

lemma piece_unpacked: "piece_ok p u \<Longrightarrow> piece_ok p v \<Longrightarrow> u = v"
  by (auto simp: piece_ok_def split: sum.splits prod.splits)

lemma pieces_unpacked:
  assumes "list_all (\<lambda>(p, u). piece_ok p u) ps" "list_all (\<lambda>(p, u). piece_ok p u) qs" "map fst ps = map fst qs"
  shows "ps = qs"
proof (rule map_inj_on_eq [OF assms(3)])
  fix x y :: "bytes \<times> nat"
  assume "x \<in> set ps" "y \<in> set qs" and eq: "fst x = fst y"
  then have "piece_ok (fst x) (snd x)" "piece_ok (fst y) (snd y)" using assms(1,2) by (auto simp: list_all_iff)
  with eq piece_unpacked show "x = y" by (metis prod_eqI)
qed

lemma map_unat_inject: "map unat xs = map unat ys \<Longrightarrow> xs = ys" for xs ys :: "u32 list"
  by (erule map_inj_on_eq) (simp add: word_unat_eq_iff)

lemma footer_for_unique: "footer_for C ps f \<Longrightarrow> footer_for C ps g \<Longrightarrow> f = g"
proof -
  assume f: "footer_for C ps f" and g: "footer_for C ps g"
  have "chunk_boundary_offsets f = chunk_boundary_offsets g" "unpacked_chunk_offsets f = unpacked_chunk_offsets g"
    by (rule map_unat_inject, use f g in \<open>simp add: footer_for_def\<close>)+
  moreover have "xi_xorb_hash f = xi_xorb_hash g" "chunk_hashes f = chunk_hashes g" using f g by (simp_all add: footer_for_def)
  ultimately show "f = g" by simp
qed

lemma accepted_pieces:
  assumes "verify_xorb_from_file_with_info C (Some d) = Inr info"
  shows "\<exists>ps. xorb_pieces C d ps \<and> v_xorb_hash info = xorb_hash C (piece_nodes C ps)"
proof -
  from verify_file_layout [OF assms] obtain ps f where ps: "list_all (\<lambda>(p, u). piece_ok p u) ps" "footer_for C ps f"
    "magic_once (footer_serialize f)" "d = concat (map fst ps) @ footer_serialize f" "length d < 2 ^ 64" by blast
  have "v_xorb_hash info = xi_xorb_hash f" using verify_file_complete [OF ps] assms by auto
  also have "\<dots> = xorb_hash C (piece_nodes C ps)" using ps(2) by (simp add: footer_for_def piece_nodes_def)
  finally show ?thesis using ps unfolding xorb_pieces_def by blast
qed

lemma pieces_determine: "xorb_pieces C d ps \<Longrightarrow> xorb_pieces C e qs \<Longrightarrow> map fst ps = map fst qs \<Longrightarrow> d = e"
  unfolding xorb_pieces_def using pieces_unpacked footer_for_unique by metis

lemma accepted_same_name:
  assumes "blake3_contract C" "hex_contract C"
    and "verify_xorb_from_file_with_info C (Some d) = Inr i" "verify_xorb_from_file_with_info C (Some e) = Inr j"
    and "v_xorb_hash i = v_xorb_hash j"
  shows "\<exists>ps qs. xorb_pieces C d ps \<and> xorb_pieces C e qs \<and> (d = e \<or> hash_collision C (hashed_texts C ps @ hashed_texts C qs))"
proof -
  obtain ps qs where p: "xorb_pieces C d ps" "v_xorb_hash i = xorb_hash C (piece_nodes C ps)"
    and q: "xorb_pieces C e qs" "v_xorb_hash j = xorb_hash C (piece_nodes C qs)"
    using accepted_pieces [OF assms(3)] accepted_pieces [OF assms(4)] by blast
  have root: "xorb_hash C (piece_nodes C ps) = xorb_hash C (piece_nodes C qs)" using p(2) q(2) assms(5) by simp
  have "map fst ps = map fst qs" if ok: "\<not> hash_collision C (hashed_texts C ps @ hashed_texts C qs)"
  proof (cases "merge_rounds C (piece_nodes C ps) \<le> merge_rounds C (piece_nodes C qs)")
    case True
    then show ?thesis using equal_roots [OF assms(1,2) ok root] by blast
  next
    case False
    moreover have "\<not> hash_collision C (hashed_texts C qs @ hashed_texts C ps)" using ok unfolding hash_collision_def by (simp add: Un_commute)
    ultimately show ?thesis using equal_roots [OF assms(1,2) _ root [symmetric]] by simp
  qed
  with p(1) q(1) pieces_determine show ?thesis by blast
qed

text \<open>
  C29. The name of a xorb determines its bytes. Two files that the verifier accepts with the same
  xorb hash are equal, byte for byte, or two different texts hashed for their chunks and
  trees have the same hash, or one of these hashes is the reserved all-zero value. The trees
  may have any depths: a chunk is hashed under another key than an inner node.
\<close>

theorem xorb_name_determines_file:
  assumes "blake3_contract C" "hex_contract C"
    and "verify_xorb_from_file_with_info C (Some d) = Inr i" "verify_xorb_from_file_with_info C (Some e) = Inr j"
    and "v_xorb_hash i = v_xorb_hash j"
  shows "\<exists>ps qs. xorb_pieces C d ps \<and> xorb_pieces C e qs \<and> (d = e \<or> hash_collision C (hashed_texts C ps @ hashed_texts C qs))"
  by (rule accepted_same_name [OF assms])

theorem xorb_name_determines_file_witness:
  "\<exists>ps. xorb_pieces inst_crates demo_file ps"
proof -
  obtain info where "verify_xorb_from_file_with_info inst_crates (Some demo_file) = Inr info" using demo_file_accepted by blast
  from xorb_name_determines_file [OF _ inst_hex_contract this this] show ?thesis using inst_blake3_contract by blast
qed

text \<open>Within a set of files without such a collision a name stands for one file.\<close>

definition unique_xorbs :: "crates \<Rightarrow> bytes set \<Rightarrow> bool" where
  "unique_xorbs C D \<longleftrightarrow> (\<forall>d1\<in>D. \<forall>d2\<in>D. \<forall>i1 i2. verify_xorb_from_file_with_info C (Some d1) = Inr i1 \<longrightarrow>
     verify_xorb_from_file_with_info C (Some d2) = Inr i2 \<longrightarrow> v_xorb_hash i1 = v_xorb_hash i2 \<longrightarrow> d1 = d2)"

lemma collision_free_unique:
  assumes "blake3_contract C" "hex_contract C"
    and "\<And>d e ps qs. d \<in> D \<Longrightarrow> e \<in> D \<Longrightarrow> xorb_pieces C d ps \<Longrightarrow> xorb_pieces C e qs \<Longrightarrow> \<not> hash_collision C (hashed_texts C ps @ hashed_texts C qs)"
  shows "unique_xorbs C D"
  unfolding unique_xorbs_def using accepted_same_name [OF assms(1,2)] assms(3) by blast

end
