(* ===== verification/Cas_Upload.thy ===== *)
theory Cas_Upload
  imports Upload_Stream Xorb_Identity Conversion_Local Cas_Auth
begin

text \<open>
  The upload endpoints of the storage server: \<^verbatim>\<open>upload_xorb\<close> of \<^verbatim>\<open>src/src/api/xorb.rs\<close>,
  \<^verbatim>\<open>upload_lfs_object\<close> of \<^verbatim>\<open>src/src/api/lfs.rs\<close> and \<^verbatim>\<open>upload_shard\<close> of \<^verbatim>\<open>src/src/api/shard.rs\<close>. A handler
  authorizes the caller, receives the payload into a temporary file, verifies it, asks the
  storage whether the object exists and then stores it. It is modelled as two parts, what it
  does up to the answer of the existence check and what follows, so that other requests can
  come between them; a handler that is not interrupted is their composition. Metrics and log
  lines are left out, and messages carry no formatted values.
\<close>

section \<open>Responses\<close>

datatype 'b body = JsonError string | JsonMessage string | Json 'b | Stream nat "(string + bytes) list" | NoBody

record 'b HttpResponse =
  resp_status :: nat
  resp_headers :: "(string \<times> string) list"
  resp_body :: "'b body"

definition INTERNAL_ERROR_MESSAGE :: string where
  "INTERNAL_ERROR_MESSAGE = ''Internal server error''"

definition json_error :: "nat \<Rightarrow> string \<Rightarrow> 'b HttpResponse" where
  "json_error status msg = \<lparr>resp_status = status, resp_headers = [], resp_body = JsonError msg\<rparr>"

definition http_ok :: "'b body \<Rightarrow> 'b HttpResponse" where
  "http_ok b = \<lparr>resp_status = 200, resp_headers = [], resp_body = b\<rparr>"

abbreviation internal_error :: "'b HttpResponse" where
  "internal_error \<equiv> json_error 500 INTERNAL_ERROR_MESSAGE"

definition temp_unavailable :: "'b HttpResponse" where
  "temp_unavailable =
     \<lparr>resp_status = 503, resp_headers = [(''retry-after'', ''5'')], resp_body = JsonError ''Temporary storage unavailable''\<rparr>"

definition respond :: "AuthReject \<Rightarrow> 'b HttpResponse" where
  "respond rej = (let (code, msg) = error_parts rej in json_error (if code = 403 then 403 else 401) msg)"

fun stream_error_response :: "StreamPayloadError \<Rightarrow> 'b HttpResponse" where
  "stream_error_response (Payload _) = json_error 400 ''Invalid upload stream''"
| "stream_error_response (StreamPayloadError.TooLarge _) = json_error 413 ''Upload exceeds maximum size''"
| "stream_error_response QuotaError = temp_unavailable"
| "stream_error_response (Write _) = internal_error"
| "stream_error_response (Sync _) = internal_error"

section \<open>The server\<close>

text \<open>The data every handler is given. The storage takes files by \<open>cas_put_from_path\<close>.\<close>

record ('sk, 'pk, 's, 'u) cas =
  cas_crates :: crates
  cas_tokens :: "('sk, 'pk) token_crates"
  cas_decode :: "string \<Rightarrow> string option"
  cas_auth :: "('sk, 'pk) AuthVerifier"
  cas_backend :: "('s, 'u) StorageBackend"
  cas_put_from_path :: "'u \<Rightarrow> 's \<Rightarrow> string \<Rightarrow> bytes option \<Rightarrow> (StorageError + unit) \<times> 's"
  cas_max_body_size_mb :: u64
  cas_temp_quota_bytes :: u64
  cas_temp_min_free_bytes :: u64
  cas_verify_download_integrity :: bool
  cas_public_base_url :: "string option"
  cas_host :: string
  cas_port :: "16 word"

text \<open>What the requests share: the storage, the index and the quota ledger.\<close>

record 's cas_state =
  cs_storage :: 's
  cs_index :: MetadataIndex
  cs_ledger :: "TempQuotaLedger option"

record upload_request =
  rq_authorization :: "string option"
  rq_clock :: "u64 option"
  rq_payload :: "(string + bytes) list"
  rq_io :: host_io

definition max_body_size_bytes :: "u64 \<Rightarrow> u64" where
  "max_body_size_bytes mb = (case checked_mul mb (1024 * 1024) of None \<Rightarrow> - 1 | Some n \<Rightarrow> n)"

abbreviation cas_fetch :: "('sk, 'pk, 's, 'u) cas \<Rightarrow> 's \<Rightarrow> fetch" where
  "cas_fetch E s \<equiv> download_to_path (cas_backend E) s"

definition authorize :: "('sk, 'pk, 's, 'u) cas \<Rightarrow> u64 option \<Rightarrow> string option \<Rightarrow> AuthNeed \<Rightarrow> AuthReject + XetClaims" where
  "authorize E clock authorization need = require_auth (cas_tokens E) (cas_decode E) clock authorization (cas_auth E) need"

section \<open>Receiving\<close>

definition put_ledger :: "TempQuotaLedger \<Rightarrow> 's cas_state \<Rightarrow> 's cas_state" where
  "put_ledger l st = st\<lparr>cs_ledger := map_option (\<lambda>_. l) (cs_ledger st)\<rparr>"

text \<open>The end of a temporary file: what it reserved returns to the shared ledger, if there is one.\<close>

definition release_upload :: "TempFile \<Rightarrow> 's cas_state \<Rightarrow> 's cas_state" where
  "release_upload tf st = st\<lparr>cs_ledger := map_option (\<lambda>l. drop_temp_file l tf) (cs_ledger st)\<rparr>"

definition create_upload_file ::
  "('sk, 'pk, 's, 'u) cas \<Rightarrow> host_io \<Rightarrow> TempQuotaLedger option \<Rightarrow> StorageError + (TempFile \<times> TempQuotaLedger)" where
  "create_upload_file E io temp_quota =
     (case temp_quota of
        Some ledger \<Rightarrow> (case create_with_ledger io ledger of (Inl e, _) \<Rightarrow> Inl e | (Inr tf, l) \<Rightarrow> Inr (tf, l))
      | None \<Rightarrow> create_with_quota io (cas_temp_quota_bytes E) (cas_temp_min_free_bytes E))"

text \<open>The part the three handlers share; a failed creation leaves the ledger as it was.\<close>

definition receive_upload ::
  "('sk, 'pk, 's, 'u) cas \<Rightarrow> upload_request \<Rightarrow> ('h \<Rightarrow> bytes \<Rightarrow> 'h) \<Rightarrow> 'h \<Rightarrow> 's cas_state \<Rightarrow>
     ('b HttpResponse + ('h \<times> TempFile)) \<times> 's cas_state" where
  "receive_upload E rq on_chunk h st =
     (let max_bytes = max_body_size_bytes (cas_max_body_size_mb E); check_bytes = min max_bytes (100 * 1024 * 1024) in
      case ensure_dir_and_check_space (rq_io rq) check_bytes of
        Inl _ \<Rightarrow> (Inl temp_unavailable, st)
      | Inr _ \<Rightarrow>
          (case create_upload_file E (rq_io rq) (cs_ledger st) of
             Inl e \<Rightarrow> (Inl (if e = Quota then temp_unavailable else internal_error), st)
           | Inr (tf, l) \<Rightarrow>
               (case stream_payload_to_temp (rq_io rq) max_bytes on_chunk (rq_payload rq) h tf l of
                  (Inl e, _, tf, l) \<Rightarrow> (Inl (stream_error_response e), release_upload tf (put_ledger l st))
                | (Inr _, h, tf, l) \<Rightarrow> (Inr (h, tf), put_ledger l st))))"

section \<open>The handlers up to the existence check\<close>

datatype upload_reply = XorbUploadResponse bool | ShardUploadResponse bool string

text \<open>An upload that is about to be stored: its key, its file, what to register and the reply.\<close>

record upload_pending =
  up_key :: string
  up_file :: TempFile
  up_registration :: "VerifiedShardRegistration option"
  up_reply :: "upload_reply body"

abbreviation refuse :: "TempFile \<Rightarrow> 's cas_state \<Rightarrow> upload_reply HttpResponse \<Rightarrow>
    (upload_reply HttpResponse + upload_pending) \<times> 's cas_state" where
  "refuse tf st resp \<equiv> (Inl resp, release_upload tf st)"

text \<open>A panic inside a blocking task is a join error.\<close>

definition is_panic :: "xet_error \<Rightarrow> bool" where
  "is_panic e = (case e of Panic _ \<Rightarrow> True | _ \<Rightarrow> False)"

definition admit_xorb ::
  "('sk, 'pk, 's, 'u) cas \<Rightarrow> string \<Rightarrow> string \<Rightarrow> upload_request \<Rightarrow> 's cas_state \<Rightarrow>
     (upload_reply HttpResponse + upload_pending) \<times> 's cas_state" where
  "admit_xorb E prefix hash_str rq st =
     (if prefix \<noteq> ''default'' then (Inl (json_error 400 ''Invalid prefix''), st)
      else case mh_from_hex (cas_crates E) hash_str of
        Inl _ \<Rightarrow> (Inl (json_error 400 ''Invalid hash format''), st)
      | Inr expected_hash \<Rightarrow>
     (case authorize E (rq_clock rq) (rq_authorization rq) (NeedScope ''write'') of
        Inl rej \<Rightarrow> (Inl (respond rej), st)
      | Inr _ \<Rightarrow>
     (case receive_upload E rq (\<lambda>_ _. ()) () st of
        (Inl resp, st) \<Rightarrow> (Inl resp, st)
      | (Inr (_, tf), st) \<Rightarrow>
     (case verify_xorb_from_file_with_info (cas_crates E) (Some (tf_data tf)) of
        Inl e \<Rightarrow> refuse tf st (if is_panic e then internal_error else json_error 400 ''Xorb verification failed'')
      | Inr xorb_info \<Rightarrow>
          if v_xorb_hash xorb_info \<noteq> expected_hash then refuse tf st (json_error 400 ''Hash mismatch'')
          else
            let key = xorb_key (cas_crates E) (v_xorb_hash xorb_info) in
            case obj_exists (cas_backend E) (cs_storage st) key of
              Inl _ \<Rightarrow> refuse tf st internal_error
            | Inr already_exists \<Rightarrow>
                if already_exists then refuse tf st (http_ok (Json (XorbUploadResponse False)))
                else (Inr \<lparr>up_key = key, up_file = tf, up_registration = None, up_reply = Json (XorbUploadResponse True)\<rparr>, st)))))"

definition is_hex_oid :: "string \<Rightarrow> bool" where
  "is_hex_oid oid \<longleftrightarrow> length oid = 64 \<and> list_all is_ascii_hexdigit oid"

definition admit_lfs_object ::
  "('sk, 'pk, 's, 'u) cas \<Rightarrow> string \<Rightarrow> upload_request \<Rightarrow> 's cas_state \<Rightarrow>
     (upload_reply HttpResponse + upload_pending) \<times> 's cas_state" where
  "admit_lfs_object E oid rq st =
     (if \<not> is_hex_oid oid then (Inl (json_error 400 ''Invalid oid format, expected 64-character hex string''), st)
      else case authorize E (rq_clock rq) (rq_authorization rq)
          (NeedLfsObject Upload oid ''Insufficient scope or invalid LFS upload token'') of
        Inl rej \<Rightarrow> (Inl (respond rej), st)
      | Inr _ \<Rightarrow>
     (case receive_upload E rq sh_update sh_new st of
        (Inl resp, st) \<Rightarrow> (Inl resp, st)
      | (Inr (hasher, tf), st) \<Rightarrow>
          let (blake3_hash, sha256_hash) = dual_finalize (cas_crates E) hasher in
          if blake3_hash \<noteq> oid \<and> sha256_hash \<noteq> oid then refuse tf st (json_error 400 ''Hash mismatch'')
          else
            let key = object_key_of oid in
            case obj_exists (cas_backend E) (cs_storage st) key of
              Inl _ \<Rightarrow> refuse tf st internal_error
            | Inr already_exists \<Rightarrow>
                if already_exists then refuse tf st (http_ok (JsonMessage ''Object already exists''))
                else (Inr \<lparr>up_key = key, up_file = tf, up_registration = None,
                           up_reply = JsonMessage ''Object uploaded successfully''\<rparr>, st)))"

text \<open>An existing shard is read back, checked, validated and registered again.\<close>

definition existing_shard_error :: "ShardIoError \<Rightarrow> 'b HttpResponse" where
  "existing_shard_error e =
     (case e of
        ShardParse _ source \<Rightarrow>
          (case source of
             IoError _ \<Rightarrow> internal_error
           | _ \<Rightarrow> if is_panic source then internal_error else json_error 400 ''Invalid existing shard format'')
      | _ \<Rightarrow> internal_error)"

definition reregister_shard ::
  "('sk, 'pk, 's, 'u) cas \<Rightarrow> string \<Rightarrow> 's cas_state \<Rightarrow> upload_reply HttpResponse \<times> 's cas_state" where
  "reregister_shard E shard_id st =
     (let key = ''shards/'' @ shard_id; fetch = cas_fetch E (cs_storage st) in
      case fst (parse_shard_from_storage (cas_crates E) key (\<lambda>_. fetched (fetch key))) of
        Inl e \<Rightarrow> (existing_shard_error e, st)
      | Inr stored_shard \<Rightarrow>
          if s_hash stored_shard \<noteq> shard_id
          then (json_error 400 ''Existing shard content does not match requested shard id'', st)
          else (case validate_shard_for_index (cas_crates E) fetch shard_id stored_shard of
             Inl _ \<Rightarrow> (json_error 400 ''Shard validation failed'', st)
           | Inr registration \<Rightarrow>
               (case register_verified_shard (cs_index st) registration of
                  (Inl _, idx) \<Rightarrow> (json_error 409 ''Metadata index conflict'', st\<lparr>cs_index := idx\<rparr>)
                | (Inr _, idx) \<Rightarrow> (http_ok (Json (ShardUploadResponse False shard_id)), st\<lparr>cs_index := idx\<rparr>))))"

definition admit_shard ::
  "('sk, 'pk, 's, 'u) cas \<Rightarrow> upload_request \<Rightarrow> 's cas_state \<Rightarrow>
     (upload_reply HttpResponse + upload_pending) \<times> 's cas_state" where
  "admit_shard E rq st =
     (case authorize E (rq_clock rq) (rq_authorization rq) (NeedScope ''write'') of
        Inl rej \<Rightarrow> (Inl (respond rej), st)
      | Inr _ \<Rightarrow>
     (case receive_upload E rq sh_update sh_new st of
        (Inl resp, st) \<Rightarrow> (Inl resp, st)
      | (Inr (hasher, tf), st) \<Rightarrow>
     (case parse_from_file (cas_crates E) (Some (tf_data tf)) of
        Inl e \<Rightarrow> refuse tf st (if is_panic e then internal_error else json_error 400 ''Invalid shard format'')
      | Inr shard \<Rightarrow>
          let shard_id = mh_to_hex (cas_crates E) (sh_finalize (cas_crates E) hasher); key = ''shards/'' @ shard_id in
          case obj_exists (cas_backend E) (cs_storage st) key of
            Inl _ \<Rightarrow> refuse tf st internal_error
          | Inr already_exists \<Rightarrow>
              if already_exists
              then (let (resp, st) = reregister_shard E shard_id st in refuse tf st resp)
              else (case validate_shard_for_index (cas_crates E) (cas_fetch E (cs_storage st)) shard_id shard of
                 Inl _ \<Rightarrow> refuse tf st (json_error 400 ''Shard validation failed'')
               | Inr registration \<Rightarrow>
                   (Inr \<lparr>up_key = key, up_file = tf, up_registration = Some registration,
                         up_reply = Json (ShardUploadResponse True shard_id)\<rparr>, st)))))"

section \<open>Storing\<close>

text \<open>The file is handed to the storage, which ends it; a shard is registered after it is stored.\<close>

definition finish_upload ::
  "('sk, 'pk, 's, 'u) cas \<Rightarrow> 'u \<Rightarrow> upload_pending \<Rightarrow> 's cas_state \<Rightarrow> upload_reply HttpResponse \<times> 's cas_state" where
  "finish_upload E u p st =
     (case cas_put_from_path E u (cs_storage st) (up_key p) (Some (tf_data (up_file p))) of
        (Inl _, s) \<Rightarrow> (internal_error, release_upload (up_file p) (st\<lparr>cs_storage := s\<rparr>))
      | (Inr _, s) \<Rightarrow>
          (let st = release_upload (up_file p) (st\<lparr>cs_storage := s\<rparr>) in
           case up_registration p of
             None \<Rightarrow> (http_ok (up_reply p), st)
           | Some registration \<Rightarrow>
               (case register_verified_shard (cs_index st) registration of
                  (Inl _, idx) \<Rightarrow> (json_error 409 ''Metadata index conflict'', st\<lparr>cs_index := idx\<rparr>)
                | (Inr _, idx) \<Rightarrow> (http_ok (up_reply p), st\<lparr>cs_index := idx\<rparr>))))"

definition complete_upload ::
  "('sk, 'pk, 's, 'u) cas \<Rightarrow> 'u \<Rightarrow> (upload_reply HttpResponse + upload_pending) \<times> 's cas_state \<Rightarrow>
     upload_reply HttpResponse \<times> 's cas_state" where
  "complete_upload E u outcome = (case outcome of (Inl resp, st) \<Rightarrow> (resp, st) | (Inr p, st) \<Rightarrow> finish_upload E u p st)"

definition upload_xorb ::
  "('sk, 'pk, 's, 'u) cas \<Rightarrow> 'u \<Rightarrow> string \<Rightarrow> string \<Rightarrow> upload_request \<Rightarrow> 's cas_state \<Rightarrow> upload_reply HttpResponse \<times> 's cas_state" where
  "upload_xorb E u prefix hash_str rq st = complete_upload E u (admit_xorb E prefix hash_str rq st)"

definition upload_lfs_object ::
  "('sk, 'pk, 's, 'u) cas \<Rightarrow> 'u \<Rightarrow> string \<Rightarrow> upload_request \<Rightarrow> 's cas_state \<Rightarrow> upload_reply HttpResponse \<times> 's cas_state" where
  "upload_lfs_object E u oid rq st = complete_upload E u (admit_lfs_object E oid rq st)"

definition upload_shard ::
  "('sk, 'pk, 's, 'u) cas \<Rightarrow> 'u \<Rightarrow> upload_request \<Rightarrow> 's cas_state \<Rightarrow> upload_reply HttpResponse \<times> 's cas_state" where
  "upload_shard E u rq st = complete_upload E u (admit_shard E rq st)"

section \<open>What receiving does\<close>

definition ledger_fits :: "'s cas_state \<Rightarrow> bool" where
  "ledger_fits st \<longleftrightarrow> (\<forall>l. cs_ledger st = Some l \<longrightarrow> unat (charged_bytes l) + unat (reserved_bytes l) < 2 ^ 64)"

text \<open>The shared ledger, if any, is the earlier one with the file's reservation on top.\<close>

definition ledger_holds :: "'s cas_state \<Rightarrow> TempFile \<Rightarrow> 's cas_state \<Rightarrow> bool" where
  "ledger_holds st tf st' \<longleftrightarrow>
     (case cs_ledger st of None \<Rightarrow> cs_ledger st' = None | Some l0 \<Rightarrow> \<exists>l. cs_ledger st' = Some l \<and> holds_on l0 tf l)"

lemma release_upload_fields [simp]:
  "cs_storage (release_upload tf st) = cs_storage st" "cs_index (release_upload tf st) = cs_index st"
  by (simp_all add: release_upload_def)

lemma put_ledger_fields [simp]:
  "cs_storage (put_ledger l st) = cs_storage st" "cs_index (put_ledger l st) = cs_index st"
  by (simp_all add: put_ledger_def)

lemma ledger_holds_release: "ledger_holds st tf st' \<Longrightarrow> cs_ledger (release_upload tf st') = cs_ledger st"
  by (auto simp: ledger_holds_def release_upload_def holds_on_drop split: option.splits)

lemma create_upload_file_Inr:
  assumes "create_upload_file E io (cs_ledger st) = Inr (tf, l)"
  shows "tf_data tf = [] \<and> (ledger_fits st \<longrightarrow> (\<forall>l0. cs_ledger st = Some l0 \<longrightarrow> holds_on l0 tf l))"
proof (cases "cs_ledger st")
  case None
  then obtain manager where "(case create_with_manager io manager of (Inl e, _) \<Rightarrow> Inl e | (Inr tf, manager) \<Rightarrow> Inr (tf, manager)) = Inr (tf, l)"
    using assms by (auto simp: create_upload_file_def create_with_quota_def result_simps)
  then have "create_with_manager io manager = (Inr tf, l)"
    by (cases "create_with_manager io manager"; cases "fst (create_with_manager io manager)") auto
  from create_with_manager_cases [OF this] None show ?thesis by simp
next
  case (Some l0)
  then have "create_with_manager io l0 = (Inr tf, l)"
    using assms by (auto simp: create_upload_file_def create_with_ledger_def split: prod.splits sum.splits)
  from create_with_manager_cases [OF this] Some show ?thesis by (simp add: ledger_fits_def)
qed

lemma receive_upload_cases:
  assumes "receive_upload E rq on_chunk h st = (res, st')"
  shows "cs_storage st' = cs_storage st \<and> cs_index st' = cs_index st \<and>
    (case res of
       Inl _ \<Rightarrow> ledger_fits st \<longrightarrow> cs_ledger st' = cs_ledger st
     | Inr (h', tf) \<Rightarrow> (\<exists>blocks. rq_payload rq = map Inr blocks \<and> tf_data tf = concat blocks \<and> h' = foldl on_chunk h blocks) \<and>
         (ledger_fits st \<longrightarrow> ledger_holds st tf st'))"
proof -
  let ?max = "max_body_size_bytes (cas_max_body_size_mb E)"
  show ?thesis
  proof (cases "ensure_dir_and_check_space (rq_io rq) (min ?max (100 * 1024 * 1024))")
    case (Inl e)
    with assms show ?thesis by (auto simp: receive_upload_def)
  next
    case space: (Inr u)
    show ?thesis
    proof (cases "create_upload_file E (rq_io rq) (cs_ledger st)")
      case (Inl e)
      with assms space show ?thesis by (auto simp: receive_upload_def)
    next
      case create: (Inr tfl)
      obtain tf l where tfl: "tfl = (tf, l)" by fastforce
      note new = create_upload_file_Inr [OF create [unfolded tfl]]
      obtain r h1 tf1 l1 where run: "stream_payload_to_temp (rq_io rq) ?max on_chunk (rq_payload rq) h tf l = (r, h1, tf1, l1)"
        by (metis prod_cases4)
      have holds: "ledger_holds st tf1 (put_ledger l1 st)" if "ledger_fits st"
        using new that holds_on_stream [OF _ run] by (auto simp: ledger_holds_def put_ledger_def split: option.splits)
      show ?thesis
      proof (cases r)
        case (Inl e)
        with assms space create tfl run have "res = Inl (stream_error_response e)" "st' = release_upload tf1 (put_ledger l1 st)"
          by (auto simp: receive_upload_def)
        with holds ledger_holds_release show ?thesis by auto
      next
        case (Inr t)
        with assms space create tfl run have "res = Inr (h1, tf1)" "st' = put_ledger l1 st" by (auto simp: receive_upload_def)
        moreover obtain blocks where "rq_payload rq = map Inr blocks" "tf_data tf1 = tf_data tf @ concat blocks" "h1 = foldl on_chunk h blocks"
          using stream_payload_Inr run Inr by metis
        ultimately show ?thesis using holds new by auto
      qed
    qed
  qed
qed

section \<open>What an admission decides\<close>

text \<open>A key and the data it names.\<close>

definition named_object :: "crates \<Rightarrow> string \<Rightarrow> bytes \<Rightarrow> bool" where
  "named_object C key data \<longleftrightarrow>
     (\<exists>h info. key = xorb_key C h \<and> verify_xorb_from_file_with_info C (Some data) = Inr info \<and> v_xorb_hash info = h) \<or>
     (\<exists>oid. key = object_key_of oid \<and> is_hex_oid oid \<and>
        (oid = hex_encode C (keyed_hash C DATA_KEY data) \<or> oid = hex_encode C (sha256 C data))) \<or>
     key = ''shards/'' @ mh_to_hex C (compute_data_hash C data)"

definition vetted :: "crates \<Rightarrow> fetch \<Rightarrow> VerifiedShardRegistration \<Rightarrow> bool" where
  "vetted C fetch reg \<longleftrightarrow> (\<exists>sid shard. validate_shard_for_index C fetch sid shard = Inr reg)"

definition admission ::
  "('sk, 'pk, 's, 'u) cas \<Rightarrow> upload_request \<Rightarrow> 's cas_state \<Rightarrow> upload_reply HttpResponse + upload_pending \<Rightarrow> 's cas_state \<Rightarrow> bool" where
  "admission E rq st res st' \<longleftrightarrow>
     cs_storage st' = cs_storage st \<and>
     (cs_index st' = cs_index st \<or>
        (\<exists>reg. vetted (cas_crates E) (cas_fetch E (cs_storage st)) reg \<and> cs_index st' = snd (register_verified_shard (cs_index st) reg))) \<and>
     (case res of
        Inl _ \<Rightarrow> ledger_fits st \<longrightarrow> cs_ledger st' = cs_ledger st
      | Inr p \<Rightarrow>
          named_object (cas_crates E) (up_key p) (tf_data (up_file p)) \<and>
          (\<exists>blocks. rq_payload rq = map Inr blocks \<and> tf_data (up_file p) = concat blocks) \<and>
          (\<forall>reg. up_registration p = Some reg \<longrightarrow> vetted (cas_crates E) (cas_fetch E (cs_storage st)) reg) \<and>
          (ledger_fits st \<longrightarrow> ledger_holds st (up_file p) st'))"

lemma admission_refused: "admission E rq st (Inl resp) st"
  by (simp add: admission_def)

lemma admission_received:
  assumes "receive_upload E rq on_chunk h st = (Inl resp, st')"
  shows "admission E rq st (Inl resp') st'"
  using receive_upload_cases [OF assms] by (simp add: admission_def)

lemma admission_released:
  assumes "receive_upload E rq on_chunk h st = (Inr (h', tf), st')"
  shows "admission E rq st (Inl resp) (release_upload tf st')"
  using receive_upload_cases [OF assms] ledger_holds_release by (auto simp: admission_def)

lemma admission_pending:
  assumes "receive_upload E rq on_chunk h st = (Inr (h', tf), st1)" "st1 = st'" "up_file p = tf"
    and "named_object (cas_crates E) (up_key p) (tf_data tf)"
    and "\<And>reg. up_registration p = Some reg \<Longrightarrow> vetted (cas_crates E) (cas_fetch E (cs_storage st)) reg"
  shows "admission E rq st (Inr p) st'"
  using receive_upload_cases [OF assms(1)] assms(2-5) by (auto simp: admission_def)

lemma admit_xorb_admission:
  assumes "admit_xorb E prefix hash_str rq st = (res, st')"
  shows "admission E rq st res st'"
proof (cases "prefix \<noteq> ''default'' \<or> (\<exists>e. mh_from_hex (cas_crates E) hash_str = Inl e) \<or>
    (\<exists>rej. authorize E (rq_clock rq) (rq_authorization rq) (NeedScope ''write'') = Inl rej)")
  case True
  with assms show ?thesis by (auto simp: admit_xorb_def admission_refused split: sum.splits if_splits)
next
  case False
  then obtain h c where pre: "prefix = ''default''" "mh_from_hex (cas_crates E) hash_str = Inr h"
    "authorize E (rq_clock rq) (rq_authorization rq) (NeedScope ''write'') = Inr c" by (metis sum.exhaust)
  obtain r st1 where recv: "(receive_upload E rq (\<lambda>_ _. ()) () st :: (upload_reply HttpResponse + _) \<times> _) = (r, st1)" by (metis surj_pair)
  show ?thesis
  proof (cases r)
    case (Inl resp)
    with assms pre recv admission_received show ?thesis by (auto simp: admit_xorb_def)
  next
    case (Inr htf)
    then obtain tf where r: "r = Inr ((), tf)" by (cases htf) auto
    note rel = admission_released [OF recv [unfolded r]] and pend = admission_pending [OF recv [unfolded r]]
    have named: "named_object (cas_crates E) (xorb_key (cas_crates E) (v_xorb_hash info)) (tf_data tf)"
      if "verify_xorb_from_file_with_info (cas_crates E) (Some (tf_data tf)) = Inr info" for info
      using that unfolding named_object_def by blast
    from assms pre recv r show ?thesis
      by (auto simp: admit_xorb_def Let_def named intro!: rel pend split: sum.splits if_splits)
  qed
qed

lemma received_hasher:
  assumes "receive_upload E rq sh_update sh_new st = (Inr (hasher, tf), st')"
  shows "absorbed hasher = tf_data tf"
  using receive_upload_cases [OF assms] by (auto simp: sh_absorbed_foldl sh_new_def)

lemma admit_lfs_admission:
  assumes "admit_lfs_object E oid rq st = (res, st')"
  shows "admission E rq st res st'"
proof (cases "\<not> is_hex_oid oid \<or> (\<exists>rej. authorize E (rq_clock rq) (rq_authorization rq)
    (NeedLfsObject Upload oid ''Insufficient scope or invalid LFS upload token'') = Inl rej)")
  case True
  with assms show ?thesis by (auto simp: admit_lfs_object_def admission_refused split: sum.splits if_splits)
next
  case False
  then obtain c where pre: "is_hex_oid oid"
    "authorize E (rq_clock rq) (rq_authorization rq) (NeedLfsObject Upload oid ''Insufficient scope or invalid LFS upload token'') = Inr c"
    by (metis sum.exhaust)
  obtain r st1 where recv: "(receive_upload E rq sh_update sh_new st :: (upload_reply HttpResponse + _) \<times> _) = (r, st1)" by (metis surj_pair)
  show ?thesis
  proof (cases r)
    case (Inl resp)
    with assms pre recv admission_received show ?thesis by (auto simp: admit_lfs_object_def)
  next
    case (Inr htf)
    then obtain hasher tf where r: "r = Inr (hasher, tf)" by (cases htf) auto
    note rel = admission_released [OF recv [unfolded r]] and pend = admission_pending [OF recv [unfolded r]]
    have "absorbed hasher = tf_data tf" using received_hasher recv r by metis
    then have named: "named_object (cas_crates E) (object_key_of n) (tf_data tf)"
      if "is_hex_oid n" "n = fst (dual_finalize (cas_crates E) hasher) \<or> n = snd (dual_finalize (cas_crates E) hasher)" for n
      using that by (auto simp: dual_finalize_def named_object_def)
    from assms pre recv r show ?thesis
      by (auto simp: admit_lfs_object_def Let_def split_def named intro!: rel pend split: sum.splits if_splits)
  qed
qed

text \<open>Reading an existing shard back leaves the storage and the ledger, and registers what it validated.\<close>

lemma reregister_shard_effect:
  assumes "reregister_shard E sid st = (resp, st')"
  shows "\<exists>idx. st' = st\<lparr>cs_index := idx\<rparr> \<and> (idx = cs_index st \<or>
    (\<exists>reg. vetted (cas_crates E) (cas_fetch E (cs_storage st)) reg \<and> idx = snd (register_verified_shard (cs_index st) reg)))"
proof -
  let ?C = "cas_crates E" and ?fetch = "cas_fetch E (cs_storage st)"
  have same: "st = st\<lparr>cs_index := cs_index st\<rparr>" by simp
  show ?thesis
  proof (cases "fst (parse_shard_from_storage ?C (''shards/'' @ sid) (\<lambda>_. fetched (?fetch (''shards/'' @ sid))))")
    case (Inl e)
    with assms have "st' = st" by (simp add: reregister_shard_def Let_def)
    with same show ?thesis by metis
  next
    case (Inr shard)
    show ?thesis
    proof (cases "s_hash shard \<noteq> sid \<or> (\<exists>e. validate_shard_for_index ?C ?fetch sid shard = Inl e)")
      case True
      with assms Inr have "st' = st" by (auto simp: reregister_shard_def Let_def split: if_splits)
      with same show ?thesis by metis
    next
      case False
      then obtain reg where v: "s_hash shard = sid" "validate_shard_for_index ?C ?fetch sid shard = Inr reg" by (metis sum.exhaust)
      obtain rr idx where reg: "register_verified_shard (cs_index st) reg = (rr, idx)" by (metis surj_pair)
      have "st' = st\<lparr>cs_index := idx\<rparr>" using assms Inr v reg by (auto simp: reregister_shard_def Let_def split: sum.splits)
      moreover have "vetted ?C ?fetch reg" using v(2) unfolding vetted_def by blast
      ultimately show ?thesis using reg by (metis snd_conv)
    qed
  qed
qed

lemma admission_reregister:
  assumes "receive_upload E rq on_chunk h st = (Inr (h', tf), st1)" "reregister_shard E sid st1 = (resp, st2)"
  shows "admission E rq st (Inl resp') (release_upload tf st2)"
proof -
  note recv = receive_upload_cases [OF assms(1)]
  obtain idx where idx: "st2 = st1\<lparr>cs_index := idx\<rparr>" "idx = cs_index st1 \<or>
    (\<exists>reg. vetted (cas_crates E) (cas_fetch E (cs_storage st1)) reg \<and> idx = snd (register_verified_shard (cs_index st1) reg))"
    using reregister_shard_effect [OF assms(2)] by blast
  have "cs_ledger (release_upload tf st2) = cs_ledger (release_upload tf st1)" by (simp add: idx(1) release_upload_def)
  with recv idx ledger_holds_release show ?thesis by (auto simp: admission_def)
qed

lemma admit_shard_admission:
  assumes "admit_shard E rq st = (res, st')"
  shows "admission E rq st res st'"
proof (cases "authorize E (rq_clock rq) (rq_authorization rq) (NeedScope ''write'')")
  case (Inl rej)
  with assms show ?thesis by (auto simp: admit_shard_def admission_refused)
next
  case auth: (Inr c)
  obtain r st1 where recv: "(receive_upload E rq sh_update sh_new st :: (upload_reply HttpResponse + _) \<times> _) = (r, st1)" by (metis surj_pair)
  show ?thesis
  proof (cases r)
    case (Inl resp)
    with assms auth recv admission_received show ?thesis by (auto simp: admit_shard_def)
  next
    case (Inr htf)
    then obtain hasher tf where r: "r = Inr (hasher, tf)" by (cases htf) auto
    let ?sid = "mh_to_hex (cas_crates E) (sh_finalize (cas_crates E) hasher)"
    note rel = admission_released [OF recv [unfolded r]] and pend = admission_pending [OF recv [unfolded r]]
    obtain resp st2 where rr: "reregister_shard E ?sid st1 = (resp, st2)" by (metis surj_pair)
    note re = admission_reregister [OF recv [unfolded r] rr]
    have "absorbed hasher = tf_data tf" using received_hasher recv r by metis
    then have named: "named_object (cas_crates E) (''shards/'' @ ?sid) (tf_data tf)"
      by (simp add: named_object_def sh_finalize_def compute_data_hash_def)
    have s1: "cs_storage st1 = cs_storage st" using receive_upload_cases [OF recv] by simp
    have vet: "vetted (cas_crates E) (cas_fetch E (cs_storage st)) reg"
      if "validate_shard_for_index (cas_crates E) (cas_fetch E (cs_storage st)) sid shard = Inr reg" for sid shard reg
      using that unfolding vetted_def by blast
    from assms auth recv r rr s1 show ?thesis
      by (auto simp: admit_shard_def Let_def named [simplified] vet intro!: rel re pend split: sum.splits if_splits)
  qed
qed

section \<open>Interleaved uploads\<close>

datatype upload_call = CallXorb string string | CallLfs string | CallShard

fun admit :: "('sk, 'pk, 's, 'u) cas \<Rightarrow> upload_call \<Rightarrow> upload_request \<Rightarrow> 's cas_state \<Rightarrow>
    (upload_reply HttpResponse + upload_pending) \<times> 's cas_state" where
  "admit E (CallXorb prefix hash_str) rq st = admit_xorb E prefix hash_str rq st"
| "admit E (CallLfs oid) rq st = admit_lfs_object E oid rq st"
| "admit E CallShard rq st = admit_shard E rq st"

lemma admit_admission: "admit E call rq st = (res, st') \<Longrightarrow> admission E rq st res st'"
  by (cases call) (auto intro: admit_xorb_admission admit_lfs_admission admit_shard_admission)

text \<open>The bytes a payload carries, when its stream does not fail.\<close>

definition payload_bytes :: "(string + bytes) list \<Rightarrow> bytes" where
  "payload_bytes payload = concat (map (\<lambda>item. case item of Inl _ \<Rightarrow> [] | Inr b \<Rightarrow> b) payload)"

lemma payload_bytes_Inr: "payload_bytes (map Inr blocks) = concat blocks"
  by (simp add: payload_bytes_def comp_def)

text \<open>
  A configuration is the shared state and the uploads that wait to be stored. A request is
  refused or admitted in one step; an admitted one is stored in a later step, or abandoned
  when its client goes away. \<open>D\<close> collects the contents that are uploaded.
\<close>

inductive cas_step ::
  "('sk, 'pk, 's, 'u) cas \<Rightarrow> ('u \<Rightarrow> 's \<Rightarrow> string \<Rightarrow> bool) \<Rightarrow> bytes set \<Rightarrow>
     's cas_state \<times> upload_pending list \<Rightarrow> 's cas_state \<times> upload_pending list \<Rightarrow> bool" for E fresh D where
  refused: "admit E call rq st = (Inl resp, st') \<Longrightarrow> cas_step E fresh D (st, ps) (st', ps)"
| admitted: "admit E call rq st = (Inr p, st') \<Longrightarrow> payload_bytes (rq_payload rq) \<in> D \<Longrightarrow>
    cas_step E fresh D (st, ps) (st', ps @ [p])"
| finished: "i < length ps \<Longrightarrow> fresh u (cs_storage st) (up_key (ps ! i)) \<Longrightarrow> finish_upload E u (ps ! i) st = (resp, st') \<Longrightarrow>
    cas_step E fresh D (st, ps) (st', take i ps @ drop (Suc i) ps)"
| abandoned: "i < length ps \<Longrightarrow> cas_step E fresh D (st, ps) (release_upload (up_file (ps ! i)) st, take i ps @ drop (Suc i) ps)"

section \<open>Names\<close>

text \<open>Encoding yields hexadecimal digits, and only they are decoded.\<close>

definition hex_digits_contract :: "crates \<Rightarrow> bool" where
  "hex_digits_contract C \<longleftrightarrow> (\<forall>b. list_all is_ascii_hexdigit (hex_encode C b)) \<and>
     (\<forall>s b. hex_decode C s = Inr b \<longrightarrow> list_all is_ascii_hexdigit s)"

definition hex_name :: "string \<Rightarrow> bool" where
  "hex_name a \<longleftrightarrow> a \<noteq> [] \<and> list_all is_ascii_hexdigit a"

lemma hex_name_mh: "hex_contract C \<Longrightarrow> hex_digits_contract C \<Longrightarrow> hex_name (mh_to_hex C h)"
  using mh_to_hex_length [of C h] by (auto simp: hex_name_def hex_digits_contract_def mh_to_hex_def)

lemma hex_name_oid: "is_hex_oid oid \<Longrightarrow> hex_name oid"
  by (auto simp: is_hex_oid_def hex_name_def)

text \<open>Every object under a name of the three families is what the name says.\<close>

definition named_store :: "crates \<Rightarrow> (string \<Rightarrow> bytes option) \<Rightarrow> bool" where
  "named_store C content \<longleftrightarrow>
     (\<forall>h d. content (xorb_key C h) = Some d \<longrightarrow>
        (\<exists>info. verify_xorb_from_file_with_info C (Some d) = Inr info \<and> v_xorb_hash info = h)) \<and>
     (\<forall>oid d. is_hex_oid oid \<longrightarrow> content (object_key_of oid) = Some d \<longrightarrow>
        oid = hex_encode C (keyed_hash C DATA_KEY d) \<or> oid = hex_encode C (sha256 C d)) \<and>
     (\<forall>h d. content (''shards/'' @ mh_to_hex C h) = Some d \<longrightarrow> compute_data_hash C d = h)"

section \<open>Backing survives new objects\<close>

definition xorbs_kept :: "crates \<Rightarrow> fetch \<Rightarrow> fetch \<Rightarrow> bool" where
  "xorbs_kept C fetch fetch' \<longleftrightarrow> (\<forall>h d. fetch (xorb_key C h) = Inr d \<longrightarrow> fetch' (xorb_key C h) = Inr d)"

lemma stored_chunk_mono: "xorbs_kept C f f' \<Longrightarrow> stored_chunk C f h i raw \<Longrightarrow> stored_chunk C f' h i raw"
  unfolding stored_chunk_def stored_xorb_def xorbs_kept_def by blast

lemma file_stored_mono:
  assumes "xorbs_kept C f f'" "file_stored C f m" shows "file_stored C f' m"
proof -
  obtain raws chunks where r: "list_all2 (\<lambda>(h, i) raw. stored_chunk C f h i raw) chunks raws"
    "vf_file_size m = length (concat raws)" "file_hash_matches C (vf_file_hash m) raws"
    using assms(2) unfolding file_stored_def by blast
  have "list_all2 (\<lambda>(h, i) raw. stored_chunk C f' h i raw) chunks raws"
    by (rule list_all2_mono [OF r(1)]) (auto intro: stored_chunk_mono [OF assms(1)])
  with r(2,3) show ?thesis unfolding file_stored_def by blast
qed

lemma ref_backed_mono: "xorbs_kept C f f' \<Longrightarrow> ref_backed C f h r \<Longrightarrow> ref_backed C f' h r"
  unfolding ref_backed_def by (rule file_stored_mono)

lemma chunk_backed_mono: "xorbs_kept C f f' \<Longrightarrow> chunk_backed C f h pos \<Longrightarrow> chunk_backed C f' h pos"
  unfolding chunk_backed_def using stored_chunk_mono by blast

abbreviation reg_backed :: "crates \<Rightarrow> fetch \<Rightarrow> VerifiedShardRegistration \<Rightarrow> bool" where
  "reg_backed C fetch \<equiv> reg_ok (ref_backed C fetch) (chunk_backed C fetch)"

lemma reg_backed_mono: "xorbs_kept C f f' \<Longrightarrow> reg_backed C f reg \<Longrightarrow> reg_backed C f' reg"
  unfolding reg_ok_def using ref_backed_mono chunk_backed_mono by (fastforce simp: list_all_iff)

lemma index_backed_mono: "xorbs_kept C f f' \<Longrightarrow> index_backed C f idx \<Longrightarrow> index_backed C f' idx"
  unfolding index_backed_def entries_ok_def all_entries_def list_all_iff
  using ref_backed_mono chunk_backed_mono by blast

lemma register_backed: "index_backed C f idx \<Longrightarrow> reg_backed C f reg \<Longrightarrow> index_backed C f (snd (register_verified_shard idx reg))"
  unfolding index_backed_def using register_inv register_entries_ok by blast

lemma vetted_backed: "vetted C f reg \<Longrightarrow> reg_backed C f reg"
  unfolding vetted_def using validated_backed by blast

section \<open>Storing named objects\<close>

text \<open>What the handlers rely on: files are stored like bytes, and different names are different objects.\<close>

locale upload_store = conversion_store S inv same content fresh
  for S :: "('s, 'u) StorageBackend" and inv same content fresh +
  fixes putp :: "'u \<Rightarrow> 's \<Rightarrow> string \<Rightarrow> bytes option \<Rightarrow> (StorageError + unit) \<times> 's"
  assumes putp_as_put: "inv s \<Longrightarrow> fresh u s k \<Longrightarrow>
      \<exists>r. putp u s k (Some d) = (r, snd (put S u s k d)) \<and> ((\<exists>x. r = Inr x) \<longleftrightarrow> (\<exists>x. fst (put S u s k d) = Inr x))"
    and names: "p \<in> set key_families \<Longrightarrow> hex_name a \<Longrightarrow> hex_name b \<Longrightarrow> same (p @ a) (p @ b) \<Longrightarrow> a = b"
begin

lemma putp_effect:
  assumes "inv s" "fresh u s k" "putp u s k (Some d) = (r, s')"
  shows "inv s' \<and> (content s' k' = content s k' \<or> same k k' \<and> content s' k' = Some d)"
proof -
  obtain r0 s0 where p: "put S u s k d = (r0, s0)" by (metis surj_pair)
  have s0: "s' = s0" using putp_as_put [OF assms(1,2), of d] assms(3) p by auto
  show ?thesis
  proof (cases r0)
    case (Inl e)
    with put_Inl [OF assms(1,2)] p s0 show ?thesis by auto
  next
    case (Inr x)
    with put_Inr [OF assms(1,2)] p s0 show ?thesis by (metis (full_types))
  qed
qed

lemma putp_stored:
  assumes "inv s" "fresh u s k" "putp u s k (Some d) = (Inr x, s')"
  shows "content s' k = Some d"
proof -
  obtain r0 s0 where p: "put S u s k d = (r0, s0)" by (metis surj_pair)
  have "\<exists>x. r0 = Inr x" "s' = s0" using putp_as_put [OF assms(1,2), of d] assms(3) p by auto
  with put_Inr [OF assms(1,2)] p show ?thesis by (metis (full_types))
qed

lemma family_names:
  assumes "same (p @ a) (q @ b)" "p \<in> set key_families" "q \<in> set key_families" "hex_name a" "hex_name b"
  shows "p = q \<and> a = b"
proof -
  have "p = q" using families [OF assms(2,3)] assms(1) by blast
  with names [OF assms(2,4,5)] assms(1) show ?thesis by blast
qed

end

lemma named_xorb:
  "hex_contract C \<Longrightarrow> named_object C (xorb_key C h) d \<longleftrightarrow>
     (\<exists>info. verify_xorb_from_file_with_info C (Some d) = Inr info \<and> v_xorb_hash info = h)"
  by (auto simp: named_object_def xorb_key_def object_key_of_def mh_to_hex_inject)

lemma named_raw:
  "named_object C (object_key_of oid) d \<longleftrightarrow>
     is_hex_oid oid \<and> (oid = hex_encode C (keyed_hash C DATA_KEY d) \<or> oid = hex_encode C (sha256 C d))"
  by (auto simp: named_object_def xorb_key_def object_key_of_def)

lemma named_shard: "hex_contract C \<Longrightarrow> named_object C (''shards/'' @ mh_to_hex C h) d \<longleftrightarrow> compute_data_hash C d = h"
  by (auto simp: named_object_def xorb_key_def object_key_of_def mh_to_hex_inject)

definition store_name :: "crates \<Rightarrow> string \<Rightarrow> bool" where
  "store_name C k \<longleftrightarrow>
     (\<exists>h. k = xorb_key C h) \<or> (\<exists>oid. is_hex_oid oid \<and> k = object_key_of oid) \<or> (\<exists>h. k = ''shards/'' @ mh_to_hex C h)"

lemma store_name_xorb: "store_name C (xorb_key C h)"
  unfolding store_name_def by blast

lemma named_store_name: "named_object C k d \<Longrightarrow> store_name C k"
  unfolding named_object_def store_name_def by blast

lemma store_name_split:
  assumes "hex_contract C" "hex_digits_contract C" "store_name C k"
  obtains p n where "k = p @ n" "p \<in> set key_families" "hex_name n"
proof -
  have f: "''xorbs/'' \<in> set key_families" "''lfs/objects/'' \<in> set key_families" "''shards/'' \<in> set key_families"
    by (simp_all add: key_families_def)
  from assms(3) show thesis
    unfolding store_name_def xorb_key_def object_key_of_def
    using that [OF _ f(1)] that [OF _ f(2)] that [OF _ f(3)] hex_name_mh [OF assms(1,2)] hex_name_oid by blast
qed

lemma named_store_iff:
  assumes "hex_contract C"
  shows "named_store C content \<longleftrightarrow> (\<forall>k d. store_name C k \<longrightarrow> content k = Some d \<longrightarrow> named_object C k d)"
proof -
  have "(\<forall>k d. store_name C k \<longrightarrow> P k d) \<longleftrightarrow> (\<forall>h d. P (xorb_key C h) d) \<and> (\<forall>oid d. is_hex_oid oid \<longrightarrow> P (object_key_of oid) d) \<and>
      (\<forall>h d. P (''shards/'' @ mh_to_hex C h) d)" for P :: "string \<Rightarrow> bytes \<Rightarrow> bool"
    unfolding store_name_def by blast
  then show ?thesis
    unfolding named_store_def by (simp only: named_xorb [OF assms] named_shard [OF assms]) (simp add: named_raw)
qed

text \<open>What an upload that waits to be stored satisfies.\<close>

definition pending_named :: "crates \<Rightarrow> bytes set \<Rightarrow> upload_pending \<Rightarrow> bool" where
  "pending_named C D p \<longleftrightarrow> named_object C (up_key p) (tf_data (up_file p)) \<and> tf_data (up_file p) \<in> D"

definition pending_backed :: "crates \<Rightarrow> fetch \<Rightarrow> upload_pending \<Rightarrow> bool" where
  "pending_backed C fetch p \<longleftrightarrow> (\<forall>reg. up_registration p = Some reg \<longrightarrow> reg_backed C fetch reg)"

definition xorbs_in :: "crates \<Rightarrow> bytes set \<Rightarrow> (string \<Rightarrow> bytes option) \<Rightarrow> bool" where
  "xorbs_in C D content \<longleftrightarrow> (\<forall>h d. content (xorb_key C h) = Some d \<longrightarrow> d \<in> D)"

context upload_store
begin

lemma named_same:
  assumes C: "hex_contract C" "hex_digits_contract C" and k: "named_object C k d"
    and K: "store_name C K"
    and same: "same k K"
  shows "k = K"
proof -
  obtain p n where p: "k = p @ n" "p \<in> set key_families" "hex_name n" by (rule store_name_split [OF C named_store_name [OF k]])
  obtain q m where q: "K = q @ m" "q \<in> set key_families" "hex_name m" by (rule store_name_split [OF C K])
  from family_names [OF same [unfolded p(1) q(1)] p(2) q(2) p(3) q(3)] p(1) q(1) show ?thesis by simp
qed

lemma putp_named:
  assumes C: "hex_contract C" "hex_digits_contract C" and s: "inv s" "fresh u s k" "putp u s k (Some d) = (r, s')"
    and k: "named_object C k d" and named: "named_store C (content s)"
  shows "named_store C (content s')"
  unfolding named_store_iff [OF C(1)]
proof (intro allI impI)
  fix K d'
  assume K: "store_name C K"
    and d': "content s' K = Some d'"
  from putp_effect [OF s] have "content s' K = content s K \<or> same k K \<and> content s' K = Some d" by blast
  then show "named_object C K d'"
  proof
    assume "content s' K = content s K"
    with named d' K show ?thesis unfolding named_store_iff [OF C(1)] by simp
  next
    assume "same k K \<and> content s' K = Some d"
    with named_same [OF C k K] d' k show ?thesis by simp
  qed
qed

lemma putp_xorbs:
  assumes C: "hex_contract C" "hex_digits_contract C" and s: "inv s" "fresh u s k" "putp u s k (Some d) = (r, s')"
    and k: "named_object C k d" "d \<in> D" and named: "named_store C (content s)" and D: "xorbs_in C D (content s)"
  shows "xorbs_in C D (content s')"
    and "unique_xorbs C D \<Longrightarrow> xorbs_kept C (download_to_path S s) (download_to_path S s')"
proof -
  have eff: "content s' (xorb_key C h) = content s (xorb_key C h) \<or> k = xorb_key C h \<and> content s' (xorb_key C h) = Some d" for h
    using putp_effect [OF s, of "xorb_key C h"] named_same [OF C k(1) store_name_xorb] by blast
  then show "xorbs_in C D (content s')" using D k(2) unfolding xorbs_in_def by (metis option.inject)
  assume U: "unique_xorbs C D"
  have "content s' (xorb_key C h) = Some e" if e: "content s (xorb_key C h) = Some e" for h e
  proof (cases "content s' (xorb_key C h) = content s (xorb_key C h)")
    case False
    with eff have k': "k = xorb_key C h" "content s' (xorb_key C h) = Some d" by blast+
    obtain i1 where "verify_xorb_from_file_with_info C (Some d) = Inr i1" "v_xorb_hash i1 = h"
      using k(1) k'(1) named_xorb [OF C(1)] by blast
    moreover obtain i2 where "verify_xorb_from_file_with_info C (Some e) = Inr i2" "v_xorb_hash i2 = h"
      using named e unfolding named_store_def by blast
    moreover have "e \<in> D" using D e unfolding xorbs_in_def by blast
    ultimately have "d = e" using U k(2) unfolding unique_xorbs_def by blast
    with k'(2) show ?thesis by simp
  qed (use e in simp)
  moreover have "inv s'" using putp_effect [OF s] by blast
  ultimately show "xorbs_kept C (download_to_path S s) (download_to_path S s')"
    using s(1) unfolding xorbs_kept_def by (simp add: download_Inr)
qed

end

lemma admission_index:
  assumes "admission E rq st res st'" "index_backed (cas_crates E) (cas_fetch E (cs_storage st)) (cs_index st)"
  shows "index_backed (cas_crates E) (cas_fetch E (cs_storage st')) (cs_index st')"
  using assms register_backed vetted_backed unfolding admission_def by metis

lemma pending_backed_mono: "xorbs_kept C f f' \<Longrightarrow> pending_backed C f p \<Longrightarrow> pending_backed C f' p"
  unfolding pending_backed_def using reg_backed_mono by blast

lemma finish_upload_effect:
  assumes "finish_upload E u p st = (resp, st')" "cas_put_from_path E u (cs_storage st) (up_key p) (Some (tf_data (up_file p))) = (r, s)"
  shows "cs_storage st' = s \<and> cs_ledger st' = cs_ledger (release_upload (up_file p) st) \<and>
    (cs_index st' = cs_index st \<or> (\<exists>reg. up_registration p = Some reg \<and> cs_index st' = snd (register_verified_shard (cs_index st) reg)))"
proof -
  have l: "cs_ledger (release_upload tf (st\<lparr>cs_storage := s\<rparr>)) = cs_ledger (release_upload tf st)" for tf
    by (simp add: release_upload_def)
  show ?thesis
  proof (cases r)
    case (Inl e)
    with assms l show ?thesis by (auto simp: finish_upload_def)
  next
    case (Inr x)
    show ?thesis
    proof (cases "up_registration p")
      case None
      with assms l Inr show ?thesis by (auto simp: finish_upload_def Let_def)
    next
      case (Some reg)
      obtain rr idx where reg: "register_verified_shard (cs_index st) reg = (rr, idx)" by (metis surj_pair)
      with assms Inr Some have "st' = (release_upload (up_file p) (st\<lparr>cs_storage := s\<rparr>))\<lparr>cs_index := idx\<rparr>"
        by (auto simp: finish_upload_def Let_def split: sum.splits)
      with l [of "up_file p"] reg Some show ?thesis by simp
    qed
  qed
qed

lemma set_without: "set (take i ps @ drop (Suc i) ps) \<subseteq> set ps"
  by (auto dest: in_set_takeD in_set_dropD)

context upload_store
begin

text \<open>The names of stored and waiting objects, and the backing of the index and of waiting registrations.\<close>

abbreviation named_inv where
  "named_inv C D st ps \<equiv> inv (cs_storage st) \<and> named_store C (content (cs_storage st)) \<and> xorbs_in C D (content (cs_storage st)) \<and>
     (\<forall>p\<in>set ps. pending_named C D p)"

abbreviation backed_inv where
  "backed_inv C st ps \<equiv> index_backed C (download_to_path S (cs_storage st)) (cs_index st) \<and>
     (\<forall>p\<in>set ps. pending_backed C (download_to_path S (cs_storage st)) p)"

lemma step_named:
  assumes E: "cas_backend E = S" "cas_put_from_path E = putp" and C: "hex_contract (cas_crates E)" "hex_digits_contract (cas_crates E)"
    and step: "cas_step E fresh D (st, ps) (st', ps')" and I: "named_inv (cas_crates E) D st ps"
  shows "named_inv (cas_crates E) D st' ps'"
  using step
proof (cases rule: cas_step.cases)
  case (refused call rq resp)
  from admit_admission [OF refused(2)] I refused(1) show ?thesis by (simp add: admission_def)
next
  case (admitted call rq p)
  from admit_admission [OF admitted(2)] admitted(3) have "cs_storage st' = cs_storage st" "pending_named (cas_crates E) D p"
    by (auto simp: admission_def pending_named_def payload_bytes_Inr)
  with I admitted(1) show ?thesis by auto
next
  case (finished i u resp)
  let ?p = "ps ! i"
  obtain r s where put: "putp u (cs_storage st) (up_key ?p) (Some (tf_data (up_file ?p))) = (r, s)" by (metis surj_pair)
  have s: "cs_storage st' = s" using finish_upload_effect [OF finished(4)] put E(2) by simp
  have p: "named_object (cas_crates E) (up_key ?p) (tf_data (up_file ?p))" "tf_data (up_file ?p) \<in> D"
    using I finished(2) by (auto simp: pending_named_def)
  have I0: "inv (cs_storage st)" "named_store (cas_crates E) (content (cs_storage st))" "xorbs_in (cas_crates E) D (content (cs_storage st))"
    using I by blast+
  have "inv s" using putp_effect [OF I0(1) finished(3) put] by blast
  with putp_named [OF C I0(1) finished(3) put p(1) I0(2)] putp_xorbs(1) [OF C I0(1) finished(3) put p I0(2,3)] s finished(1) set_without [of i ps] I
  show ?thesis by blast
next
  case (abandoned i)
  with I set_without [of i ps] show ?thesis by auto
qed

lemma step_backed:
  assumes E: "cas_backend E = S" "cas_put_from_path E = putp" and C: "hex_contract (cas_crates E)" "hex_digits_contract (cas_crates E)"
    and step: "cas_step E fresh D (st, ps) (st', ps')" and I: "named_inv (cas_crates E) D st ps" and U: "unique_xorbs (cas_crates E) D"
    and J: "backed_inv (cas_crates E) st ps"
  shows "backed_inv (cas_crates E) st' ps'"
  using step
proof (cases rule: cas_step.cases)
  case (refused call rq resp)
  note a = admit_admission [OF refused(2)]
  have "cs_storage st' = cs_storage st" using a by (simp add: admission_def)
  with admission_index [OF a] J E(1) refused(1) show ?thesis by simp
next
  case (admitted call rq p)
  note a = admit_admission [OF admitted(2)]
  have s: "cs_storage st' = cs_storage st" using a by (simp add: admission_def)
  have "pending_backed (cas_crates E) (download_to_path S (cs_storage st)) p"
    using a E(1) vetted_backed by (auto simp: admission_def pending_backed_def)
  with admission_index [OF a] J E(1) s admitted(1) show ?thesis by auto
next
  case (finished i u resp)
  let ?p = "ps ! i" and ?f = "download_to_path S (cs_storage st)"
  obtain r s where put: "putp u (cs_storage st) (up_key ?p) (Some (tf_data (up_file ?p))) = (r, s)" by (metis surj_pair)
  note eff = finish_upload_effect [OF finished(4), unfolded E(2), OF put]
  have p: "named_object (cas_crates E) (up_key ?p) (tf_data (up_file ?p))" "tf_data (up_file ?p) \<in> D" "pending_backed (cas_crates E) ?f ?p"
    using I J finished(2) by (auto simp: pending_named_def)
  have kept: "xorbs_kept (cas_crates E) ?f (download_to_path S s)"
    using putp_xorbs(2) [OF C _ finished(3) put p(1,2) _ _ U] I by blast
  have "index_backed (cas_crates E) (download_to_path S s) (cs_index st)" "pending_backed (cas_crates E) (download_to_path S s) ?p"
    using index_backed_mono [OF kept] pending_backed_mono [OF kept] J p(3) by blast+
  then have "index_backed (cas_crates E) (download_to_path S s) (cs_index st')"
    using eff register_backed unfolding pending_backed_def by metis
  moreover have "\<forall>q\<in>set ps'. pending_backed (cas_crates E) (download_to_path S s) q"
    using J pending_backed_mono [OF kept] finished(1) set_without [of i ps] by blast
  ultimately show ?thesis using eff by simp
next
  case (abandoned i)
  with J set_without [of i ps] show ?thesis by auto
qed

lemma reachable_store:
  assumes E: "cas_backend E = S" "cas_put_from_path E = putp" and C: "hex_contract (cas_crates E)" "hex_digits_contract (cas_crates E)"
    and run: "(cas_step E fresh D)\<^sup>*\<^sup>* (st, ps) (st', ps')" and I: "named_inv (cas_crates E) D st ps"
  shows "named_inv (cas_crates E) D st' ps' \<and>
    (unique_xorbs (cas_crates E) D \<longrightarrow> backed_inv (cas_crates E) st ps \<longrightarrow> backed_inv (cas_crates E) st' ps')"
  using run
proof (induction rule: rtranclp_induct2)
  case refl
  with I show ?case by blast
next
  case (step st1 ps1 st2 ps2)
  then show ?case using step_named [OF E C step(2)] step_backed [OF E C step(2)] by blast
qed

end

section \<open>On the local backend\<close>

lemma hexdigit_plain: "is_ascii_hexdigit c \<Longrightarrow> c \<noteq> CHR ''/'' \<and> c \<noteq> CHR ''.'' \<and> c \<noteq> BACKSLASH \<and> c \<noteq> NUL"
  by (auto simp: is_ascii_hexdigit_def BACKSLASH_def NUL_def)

lemma split_on_whole: "\<forall>c\<in>set a. \<not> sep c \<Longrightarrow> split_on sep a = [a]"
  by (induction a) auto

lemma family_name_components:
  assumes "p \<in> set key_families" "hex_name a"
  shows "\<exists>q. path_components (p @ a) = q @ [a]"
proof -
  have plain: "\<forall>c\<in>set a. c \<noteq> CHR ''/''" using assms(2) hexdigit_plain by (auto simp: hex_name_def list_all_iff)
  have "a \<noteq> [] \<and> a \<noteq> ''.''" using assms(2) hexdigit_not_dot [of "CHR ''.''"] by (auto simp: hex_name_def)
  with split_on_whole [of a "\<lambda>c. c = CHR ''/''"] plain
  have a: "split_on (\<lambda>c. c = CHR ''/'') a = [a]" "a \<noteq> []" "a \<noteq> ''.''" by auto
  from assms(1) consider "p = ''xorbs/''" | "p = ''shards/''" | "p = ''lfs/objects/''" by (auto simp: key_families_def)
  then show ?thesis
  proof cases
    case 1
    with a show ?thesis by (intro exI [of _ "[''xorbs'']"]) (simp add: path_components_def)
  next
    case 2
    with a show ?thesis by (intro exI [of _ "[''shards'']"]) (simp add: path_components_def)
  next
    case 3
    with a show ?thesis by (intro exI [of _ "[''lfs'', ''objects'']"]) (simp add: path_components_def)
  qed
qed

definition local_store_file :: "bool \<Rightarrow> string \<Rightarrow> fs \<Rightarrow> string \<Rightarrow> bytes option \<Rightarrow> (StorageError + unit) \<times> fs" where
  "local_store_file same_device uuid fs key source =
     (case local_put_from_path uuid same_device fs key source of (r, fs', _) \<Rightarrow> (r, fs'))"

interpretation local_uploads: upload_store "local_backend dir_len" fs_ok same_object obj_content temp_fresh "local_store_file same_device"
  for dir_len same_device
proof unfold_locales
  fix s :: fs and u k :: string and d :: bytes and p a b :: string
  assume "fs_ok s" "temp_fresh u s k"
  from put_from_path_as_put [OF this, of same_device d] obtain res left where
    "local_put_from_path u same_device s k (Some d) = (res, snd (local_put u s k d), left)"
    "res = Inr () \<longleftrightarrow> fst (local_put u s k d) = Inr ()" by blast
  then show "\<exists>r. local_store_file same_device u s k (Some d) = (r, snd (put (local_backend dir_len) u s k d)) \<and>
      ((\<exists>x. r = Inr x) \<longleftrightarrow> (\<exists>x. fst (put (local_backend dir_len) u s k d) = Inr x))"
    by (simp add: local_store_file_def local_backend_def)
next
  fix p a b :: string
  assume f: "p \<in> set key_families" "hex_name a" "hex_name b" "same_object (p @ a) (p @ b)"
  then have "path_components (p @ a) = path_components (p @ b)" by (auto simp: same_object_def object_path_def split: if_splits)
  with family_name_components [OF f(1,2)] family_name_components [OF f(1,3)] show "a = b" by auto
qed

section \<open>Properties\<close>

text \<open>
  C4. Uploads in any interleaving, on the local backend. Start with a store in which every
  object under a xorb, raw or shard name is what the name says, and let any number of xorb, raw
  object and shard uploads be refused, admitted, stored and abandoned in any order; between the
  existence check of one upload and its write others may write the same key. Then every
  object still is what its name says: a xorb verifies to its hash, a raw object hashes to its
  identifier by one of the two hashes, a shard hashes to its identifier. If moreover no two
  uploaded xorb files share a name, an index that was backed by stored data still is, with
  every shard registered in between.
\<close>

theorem uploads_keep_store_named_and_index_backed:
  assumes E: "cas_backend E = local_backend dir_len" "cas_put_from_path E = local_store_file same_device"
    and C: "hex_contract (cas_crates E)" "hex_digits_contract (cas_crates E)"
    and start: "fs_ok (cs_storage st)" "named_store (cas_crates E) (obj_content (cs_storage st))"
      "xorbs_in (cas_crates E) D (obj_content (cs_storage st))"
    and run: "(cas_step E temp_fresh D)\<^sup>*\<^sup>* (st, []) (st', ps')"
  shows "named_store (cas_crates E) (obj_content (cs_storage st')) \<and>
    (\<forall>p\<in>set ps'. named_object (cas_crates E) (up_key p) (tf_data (up_file p))) \<and>
    (unique_xorbs (cas_crates E) D \<longrightarrow> index_backed (cas_crates E) (local_download_to_path (cs_storage st)) (cs_index st) \<longrightarrow>
       index_backed (cas_crates E) (local_download_to_path (cs_storage st')) (cs_index st'))"
proof -
  have dl: "download_to_path (local_backend dir_len) = local_download_to_path" by (simp add: local_backend_def)
  from local_uploads.reachable_store [OF E C run] start show ?thesis by (simp add: dl pending_named_def)
qed

lemma complete_ledger:
  assumes "ledger_fits st" "admit E call rq st = outcome"
  shows "cs_ledger (snd (complete_upload E u outcome)) = cs_ledger st"
proof -
  obtain res st1 where o: "outcome = (res, st1)" by fastforce
  note a = admit_admission [OF assms(2) [unfolded o]]
  show ?thesis
  proof (cases res)
    case (Inl resp)
    with a o assms(1) show ?thesis by (simp add: admission_def complete_upload_def)
  next
    case (Inr p)
    obtain resp st2 where fin: "finish_upload E u p st1 = (resp, st2)" by (metis surj_pair)
    obtain r s where "cas_put_from_path E u (cs_storage st1) (up_key p) (Some (tf_data (up_file p))) = (r, s)" by (metis surj_pair)
    from finish_upload_effect [OF fin this] have "cs_ledger st2 = cs_ledger (release_upload (up_file p) st1)" by blast
    moreover have "ledger_holds st (up_file p) st1" using a Inr assms(1) by (simp add: admission_def)
    ultimately show ?thesis using o Inr fin ledger_holds_release [of st "up_file p" st1] by (simp add: complete_upload_def)
  qed
qed

text \<open>
  C28. Whatever becomes of an upload, the quota it used is returned: from a ledger whose
  counters do not overflow, each of the three handlers leaves the shared ledger exactly as it
  found it, on success and on every error.
\<close>

theorem uploads_return_their_quota:
  assumes "ledger_fits st"
  shows "cs_ledger (snd (upload_xorb E u prefix hash_str rq st)) = cs_ledger st \<and>
    cs_ledger (snd (upload_lfs_object E u oid rq st)) = cs_ledger st \<and>
    cs_ledger (snd (upload_shard E u rq st)) = cs_ledger st"
  unfolding upload_xorb_def upload_lfs_object_def upload_shard_def
  using complete_ledger [OF assms, of E "CallXorb prefix hash_str" rq] complete_ledger [OF assms, of E "CallLfs oid" rq]
    complete_ledger [OF assms, of E CallShard rq] by simp

section \<open>An upload, run\<close>

definition good_io :: host_io where
  "good_io = \<lparr>io_ensure_dir = True, io_path_exists = True, io_statvfs = Some (2 ^ 20, 2 ^ 20), io_create_dir = True,
     io_available = None, io_create_file = True, io_write = (\<lambda>_. True), io_flush = True, io_sync = True\<rparr>"

definition demo_cas :: "(string, string, fs, string) cas" where
  "demo_cas = \<lparr>cas_crates = inst_crates, cas_tokens = inst_token_crates, cas_decode = Some, cas_auth = demo_verifier,
     cas_backend = local_backend 0, cas_put_from_path = local_store_file True, cas_max_body_size_mb = - 1,
     cas_temp_quota_bytes = 1, cas_temp_min_free_bytes = 1, cas_verify_download_integrity = False, cas_public_base_url = None,
     cas_host = ''h'', cas_port = 80\<rparr>"

definition demo_ledger :: TempQuotaLedger where
  "demo_ledger = \<lparr>quota_bytes = - 1, min_free_bytes = 1, charged_bytes = 0, reserved_bytes = 0\<rparr>"

definition demo_state :: "fs cas_state" where
  "demo_state = \<lparr>cs_storage = empty_fs, cs_index = index_new, cs_ledger = Some demo_ledger\<rparr>"

definition demo_upload :: "string \<Rightarrow> bytes \<Rightarrow> upload_request" where
  "demo_upload token data =
     \<lparr>rq_authorization = Some (''Bearer '' @ token), rq_clock = Some 1001, rq_payload = [Inr data], rq_io = good_io\<rparr>"

lemma demo_write_token: "\<exists>token. admitted inst_token_crates Some demo_verifier 1001 token (NeedScope ''write'')"
proof -
  let ?u = "\<lparr>xc_sub = ''u'', xc_scope = ''read write'', xc_repo_id = ''u/r'', xc_repo_type = ''model'', xc_revision = ''main'',
    xc_exp = 4600, xc_iat = 1000, xc_kid = ''kid'', xc_token_type = ''user'', xc_oid = None, xc_operation = None\<rparr>"
  obtain token where sign: "sign_claims inst_token_crates ?u ''key'' User = Inr token"
    using sign_claims_valid [of ?u User] by (auto simp: validate_claims_iff)
  have "trusts inst_token_crates demo_verifier ''kid'' ''key''" by (simp add: trusts_def demo_verifier_def inst_token_crates_def)
  with admitted_issued [OF inst_b64u_contract inst_json_contract inst_ed25519_contract sign, of demo_verifier Some 1001 "NeedScope ''write''"]
  have "admitted inst_token_crates Some demo_verifier 1001 token (NeedScope ''write'')"
    by (simp add: grant_of_def user_allows_def split_whitespace_def ws_len_def)
  then show ?thesis by blast
qed

lemma demo_receive:
  "\<exists>tf st. receive_upload demo_cas (demo_upload token data) on_chunk h demo_state = (Inr (on_chunk h data, tf), st) \<and>
     tf_data tf = data \<and> cs_storage st = empty_fs \<and> cs_index st = index_new"
proof -
  let ?n = "of_nat (length data) :: u64"
  have n: "unat ?n < 18446744073709551616" using unat_u64_less [of ?n] by simp
  have max: "max_body_size_bytes (- 1) = - 1" by (simp add: max_body_size_bytes_def checked_mul_def unsigned_minus_1_eq_mask mask_eq_exp_minus_1)
  have space: "ensure_dir_and_check_space good_io (min (- 1) (100 * 1024 * 1024)) = Inr ()"
    by (simp add: ensure_dir_and_check_space_def check_disk_space_def good_io_def)
  have create: "create_upload_file demo_cas good_io (Some demo_ledger) =
      Inr (\<lparr>tf_data = [], tf_file = True, tf_reservation = Some \<lparr>tr_reserved = 0, tr_charged = 0\<rparr>\<rparr>, demo_ledger)"
    by (simp add: create_upload_file_def create_with_ledger_def create_with_manager_def manager_reserve_def reserve_def
        good_io_def demo_ledger_def total_with_def checked_add_def)
  have res: "reserve_additional demo_ledger \<lparr>tr_reserved = 0, tr_charged = 0\<rparr> ?n =
      (Inr (), \<lparr>tr_reserved = ?n, tr_charged = 0\<rparr>, demo_ledger\<lparr>reserved_bytes := ?n\<rparr>)"
    using n by (simp add: reserve_additional_def reserve_def demo_ledger_def total_with_def checked_add_def)
  obtain r l where com: "commit_written (demo_ledger\<lparr>reserved_bytes := ?n\<rparr>) \<lparr>tr_reserved = ?n, tr_charged = 0\<rparr> ?n = (Inr (), r, l)"
    using n by (cases "?n = 0") (auto simp: commit_written_def commit_def demo_ledger_def checked_add_def Let_def)
  have "stream_payload_to_temp good_io (- 1) on_chunk [Inr data] h
      \<lparr>tf_data = [], tf_file = True, tf_reservation = Some \<lparr>tr_reserved = 0, tr_charged = 0\<rparr>\<rparr> demo_ledger =
    (Inr ?n, on_chunk h data, \<lparr>tf_data = data, tf_file = True, tf_reservation = Some r\<rparr>, l)"
    using n res com by (simp add: stream_payload_to_temp_def checked_add_def tf_write_all_def write_open_def good_io_def tf_sync_all_def)
  with max space create show ?thesis
    by (simp add: receive_upload_def demo_cas_def demo_upload_def demo_state_def put_ledger_def)
qed

lemma empty_store: "named_store C (obj_content empty_fs)" "xorbs_in C D (obj_content empty_fs)"
proof -
  have "obj_content empty_fs (p # k) = None" for p k
    by (auto simp: obj_content_def empty_fs_def open_path_def object_path_def path_components_def split: sum.splits if_splits)
  then show "named_store C (obj_content empty_fs)" "xorbs_in C D (obj_content empty_fs)"
    by (simp_all add: named_store_def xorbs_in_def xorb_key_def object_key_of_def)
qed

lemma index_new_backed: "index_backed C fetch index_new"
  by (simp add: index_backed_def index_new_inv entries_ok_new)

lemma inst_hex_digits: "hex_digits_contract inst_crates"
proof -
  have "list_all is_ascii_hexdigit (hex_of_bytes b)" for b
    by (rule list.pred_mono_strong [OF hex_of_bytes_digits [of b]]) (auto simp: hex_digits_def is_ascii_hexdigit_def)
  moreover have "bytes_of_hex s = Inr b \<Longrightarrow> list_all is_ascii_hexdigit s" for s b
  proof (induction s arbitrary: b rule: bytes_of_hex.induct)
    case (3 c d s)
    then obtain x y bs where "hex_val c = Some x" "hex_val d = Some y" "bytes_of_hex s = Inr bs"
      by (auto simp: result_simps simp del: hex_val.simps split: option.splits)
    with 3(1) show ?case by (auto simp: is_ascii_hexdigit_def Let_def split: if_splits)
  qed simp_all
  ultimately show ?thesis by (simp add: hex_digits_contract_def)
qed

lemma xorb_path: "hex_name a \<Longrightarrow> object_path (''xorbs/'' @ a) = Inr [''xorbs'', a]"
proof -
  assume a: "hex_name a"
  then have c: "\<forall>c\<in>set a. c \<noteq> CHR ''/'' \<and> c \<noteq> CHR ''.'' \<and> c \<noteq> BACKSLASH \<and> c \<noteq> NUL"
    using hexdigit_plain by (auto simp: hex_name_def list_all_iff)
  have "split_on (\<lambda>c. c = CHR ''/'') a = [a]" by (rule split_on_whole) (use c in blast)
  moreover have "split_on (\<lambda>c. c = CHR ''/'' \<or> c = BACKSLASH) a = [a]" by (rule split_on_whole) (use c in blast)
  moreover have "a \<noteq> []" using a by (simp add: hex_name_def)
  moreover have "NUL \<notin> set a" "CHR ''.'' \<notin> set a" using c by blast+
  moreover from this(2) have "a \<noteq> ''.''" "a \<noteq> ''..''" by (metis list.set_intros(1))+
  ultimately show ?thesis by (simp add: object_path_def path_components_def BACKSLASH_def NUL_def)
qed

lemma empty_store_file:
  assumes "hex_name a"
  shows "local_store_file True u empty_fs (''xorbs/'' @ a) (Some d) =
      (Inr (), empty_fs([''xorbs''] \<mapsto> FDir, [''xorbs'', a] \<mapsto> FFile d))" "temp_fresh u empty_fs (''xorbs/'' @ a)"
    "local_exists empty_fs (''xorbs/'' @ a) = Inr False"
  unfolding local_store_file_def local_put_from_path_def local_exists_def temp_fresh_def xorb_path [OF assms]
  by (simp_all add: reject_symlink_components_def empty_fs_def symlink_metadata_def is_file_def prepare_parent_def create_dir_all_def
      canonicalize_confined_def unique_temp_path_def Let_def)

lemma demo_xorb_stored:
  assumes token: "admitted inst_token_crates Some demo_verifier 1001 token (NeedScope ''write'')"
    and info: "verify_xorb_from_file_with_info inst_crates (Some demo_file) = Inr info"
  shows "\<exists>st. (cas_step demo_cas temp_fresh {demo_file})\<^sup>*\<^sup>* (demo_state, []) (st, []) \<and>
    obj_content (cs_storage st) (xorb_key inst_crates (v_xorb_hash info)) = Some demo_file"
proof -
  let ?h = "mh_to_hex inst_crates (v_xorb_hash info)" and ?rq = "demo_upload token demo_file"
  obtain c where auth: "authorize demo_cas (Some 1001) (Some (''Bearer '' @ token)) (NeedScope ''write'') = Inr c"
    using token by (auto simp: admitted_def authorize_def demo_cas_def)
  obtain tf st1 where recv: "(receive_upload demo_cas ?rq (\<lambda>_ _. ()) () demo_state :: (upload_reply HttpResponse + _) \<times> _) = (Inr ((), tf), st1)"
      "tf_data tf = demo_file" "cs_storage st1 = empty_fs"
    using demo_receive [of token demo_file "\<lambda>_ _. ()" "()"] by auto
  have hash: "mh_from_hex inst_crates ?h = Inr (v_xorb_hash info)"
    by (simp add: mh_from_hex_def mh_to_hex_def hex_contract_def)
  have name: "hex_name ?h" by (rule hex_name_mh [OF inst_hex_contract inst_hex_digits])
  let ?p = "\<lparr>up_key = ''xorbs/'' @ ?h, up_file = tf, up_registration = None, up_reply = Json (XorbUploadResponse True)\<rparr>"
  have "admit demo_cas (CallXorb ''default'' ?h) ?rq demo_state = (Inr ?p, st1)"
    using auth recv info hash empty_store_file(3) [OF name]
    by (simp add: admit_xorb_def demo_upload_def Let_def) (simp add: demo_cas_def local_backend_def xorb_key_def Let_def)
  moreover have "payload_bytes (rq_payload ?rq) \<in> {demo_file}" by (simp add: demo_upload_def payload_bytes_def)
  ultimately have "cas_step demo_cas temp_fresh {demo_file} (demo_state, []) (st1, [] @ [?p])" by (rule cas_step.admitted)
  then have first: "cas_step demo_cas temp_fresh {demo_file} (demo_state, []) (st1, [?p])" by simp
  obtain resp st2 where fin: "finish_upload demo_cas ''u'' ?p st1 = (resp, st2)" by (metis surj_pair)
  have put: "cas_put_from_path demo_cas ''u'' (cs_storage st1) (up_key ?p) (Some (tf_data (up_file ?p))) =
      (Inr (), empty_fs([''xorbs''] \<mapsto> FDir, [''xorbs'', ?h] \<mapsto> FFile demo_file))"
    using recv empty_store_file(1) [OF name] by (simp add: demo_cas_def)
  have st2: "cs_storage st2 = empty_fs([''xorbs''] \<mapsto> FDir, [''xorbs'', ?h] \<mapsto> FFile demo_file)"
    using finish_upload_effect [OF fin put] by blast
  have "cas_step demo_cas temp_fresh {demo_file} (st1, [?p]) (st2, [])"
    using cas_step.finished [of 0 "[?p]" temp_fresh "''u''" st1 demo_cas resp st2 "{demo_file}"] fin empty_store_file(2) [OF name] recv(3) by simp
  with first have run: "(cas_step demo_cas temp_fresh {demo_file})\<^sup>*\<^sup>* (demo_state, []) (st2, [])"
    by (meson converse_rtranclp_into_rtranclp r_into_rtranclp)
  have "obj_content (cs_storage st2) (xorb_key inst_crates (v_xorb_hash info)) = Some demo_file"
    unfolding obj_content_Some st2 xorb_key_def xorb_path [OF name] by simp
  with run show ?thesis by blast
qed

theorem uploads_keep_store_named_and_index_backed_witness:
  "\<exists>st (info :: VerifiedXorbInfo). (cas_step demo_cas temp_fresh {demo_file})\<^sup>*\<^sup>* (demo_state, []) (st, []) \<and>
     obj_content (cs_storage st) (xorb_key inst_crates (v_xorb_hash info)) = Some demo_file \<and>
     named_store inst_crates (obj_content (cs_storage st)) \<and> index_backed inst_crates (local_download_to_path (cs_storage st)) (cs_index st)"
proof -
  obtain token info where t: "admitted inst_token_crates Some demo_verifier 1001 token (NeedScope ''write'')"
    "verify_xorb_from_file_with_info inst_crates (Some demo_file) = Inr info"
    using demo_write_token demo_file_accepted by blast
  obtain st where st: "(cas_step demo_cas temp_fresh {demo_file})\<^sup>*\<^sup>* (demo_state, []) (st, [])"
    "obj_content (cs_storage st) (xorb_key inst_crates (v_xorb_hash info)) = Some demo_file" using demo_xorb_stored [OF t] by blast
  have E: "cas_backend demo_cas = local_backend 0" "cas_put_from_path demo_cas = local_store_file True" "cas_crates demo_cas = inst_crates"
    by (simp_all add: demo_cas_def)
  have "unique_xorbs inst_crates {demo_file}" by (simp add: unique_xorbs_def)
  with uploads_keep_store_named_and_index_backed [OF E(1,2), unfolded E(3), OF inst_hex_contract inst_hex_digits _ _ _ st(1)] st
    empty_fs_ok empty_store index_new_backed
  have "named_store inst_crates (obj_content (cs_storage st)) \<and> index_backed inst_crates (local_download_to_path (cs_storage st)) (cs_index st)"
    by (simp add: demo_state_def)
  with st show ?thesis by blast
qed

theorem uploads_return_their_quota_witness:
  "\<exists>token. admitted inst_token_crates Some demo_verifier 1001 token (NeedScope ''write'') \<and>
     cs_ledger (snd (upload_xorb demo_cas ''u'' ''default'' (mh_to_hex inst_crates mh_new) (demo_upload token demo_file) demo_state)) = Some demo_ledger"
proof -
  have "ledger_fits demo_state" by (simp add: ledger_fits_def demo_state_def demo_ledger_def)
  note quota = uploads_return_their_quota [OF this, of demo_cas "''u''" "''default''" "mh_to_hex inst_crates mh_new"]
  have "cs_ledger demo_state = Some demo_ledger" by (simp add: demo_state_def)
  with quota demo_write_token show ?thesis by metis
qed

end
