(* ===== verification/Cas_Download.thy ===== *)
theory Cas_Download
  imports Cas_Upload
begin

text \<open>
  The reading endpoints of the storage server: downloads of xorbs (\<^verbatim>\<open>src/src/api/xorb.rs\<close>) and of raw
  or reconstructed objects (\<^verbatim>\<open>src/src/api/lfs.rs\<close> and below), with the streams of
  \<^verbatim>\<open>src/src/util/download_stream.rs\<close>; the reconstruction metadata (\<^verbatim>\<open>src/src/api/reconstruction.rs\<close>),
  the chunk queries (\<^verbatim>\<open>src/src/api/global_dedup.rs\<close>) and the internal state queries
  (\<^verbatim>\<open>src/src/api/internal.rs\<close>). A request reads one state of storage and index. A streamed body is the
  list of its items, an error or a block. The path of an object is what opening it finds, \<open>None\<close> when there is
  no file; a directory in the place of an object, which the code reports as an internal error, is
  not told apart from that. Quotation marks are dropped from messages.
\<close>

section \<open>Streams\<close>

text \<open>The host during a download: the directory, the disk, opening the file, and its reader.\<close>

record download_io =
  di_host :: host_io
  di_open :: bool
  di_reader :: "bytes \<Rightarrow> (string + bytes) list"

definition download_to_temp_stream ::
  "('s, 'u) StorageBackend \<Rightarrow> 's \<Rightarrow> download_io \<Rightarrow> string \<Rightarrow> StorageError + (nat \<times> (string + bytes) list)" where
  "download_to_temp_stream S s io key =
     (if \<not> io_create_dir (di_host io) then Inl (StorageError.Internal ''Failed to create download temp directory'')
      else
        rbind (get_size S s key) (\<lambda>expected_size.
        rbind (map_err StorageError.Internal (check_disk_space (di_host io) (of_nat expected_size))) (\<lambda>_.
        rbind (download_to_path S s key) (\<lambda>data.
        if \<not> di_open io then Inl (StorageError.Internal ''Failed to open downloaded object'')
        else if length data \<noteq> expected_size then Inl (StorageError.Internal ''Downloaded object size mismatch'')
        else Inr (length data, di_reader io data)))))"

text \<open>The stream that hashes what passes and ends with an error when the hash is not the identifier.\<close>

fun integrity_stream :: "crates \<Rightarrow> string \<Rightarrow> bytes \<Rightarrow> (string + bytes) list \<Rightarrow> (string + bytes) list" where
  "integrity_stream C expected_oid hashed [] =
     (let computed_hash = hex_encode C (sha256 C hashed) in
      if computed_hash \<noteq> expected_oid then [Inl ''Integrity verification failed''] else [])"
| "integrity_stream C expected_oid hashed (Inr chunk # items) = Inr chunk # integrity_stream C expected_oid (hashed @ chunk) items"
| "integrity_stream C expected_oid hashed (Inl e # items) = Inl e # integrity_stream C expected_oid hashed items"

section \<open>Raw objects\<close>

datatype RawBlobResult = Served "unit HttpResponse" | Missing | RawError "unit HttpResponse"

definition raw_response :: "('sk, 'pk, 's, 'u) cas \<Rightarrow> string \<Rightarrow> nat \<Rightarrow> (string + bytes) list \<Rightarrow> RawBlobResult" where
  "raw_response E oid file_size base_stream =
     Served (http_ok (Stream file_size
       (if cas_verify_download_integrity E then integrity_stream (cas_crates E) oid [] base_stream else base_stream)))"

definition serve_raw_blob :: "('sk, 'pk, 's, 'u) cas \<Rightarrow> download_io \<Rightarrow> 's \<Rightarrow> string \<Rightarrow> RawBlobResult" where
  "serve_raw_blob E io s oid =
     (let key = object_key_of oid in
      case get_path (cas_backend E) s key of
        Inr (Some path) \<Rightarrow>
          (case path of
             None \<Rightarrow> Missing
           | Some file \<Rightarrow>
               if \<not> di_open io then RawError internal_error else raw_response E oid (length file) (di_reader io file))
      | Inr None \<Rightarrow>
          (case download_to_temp_stream (cas_backend E) s io key of
             Inr (file_size, base_stream) \<Rightarrow> raw_response E oid file_size base_stream
           | Inl (NotFound _) \<Rightarrow> Missing
           | Inl _ \<Rightarrow> RawError internal_error)
      | Inl (NotFound _) \<Rightarrow> Missing
      | Inl _ \<Rightarrow> RawError internal_error)"

definition serve_verified_xet_reconstruction ::
  "('sk, 'pk, 's, 'u) cas \<Rightarrow> download_io \<Rightarrow> 's \<Rightarrow> string \<Rightarrow> FileShardRef list \<Rightarrow> unit HttpResponse" where
  "serve_verified_xet_reconstruction E io s oid file_refs =
     (case reconstruct_verified_file_to_temp (cas_crates E) (cas_fetch E s) oid file_refs of
        Inl e \<Rightarrow> if is_stale e then json_error 404 ''Object not found'' else internal_error
      | Inr (file, sz) \<Rightarrow>
          if \<not> di_open io then internal_error else http_ok (Stream (unat sz) (di_reader io file)))"

text \<open>The second component says whether a conversion of the object is requested.\<close>

definition download_lfs_object ::
  "('sk, 'pk, 's, 'u) cas \<Rightarrow> download_io \<Rightarrow> bool \<Rightarrow> u64 option \<Rightarrow> string option \<Rightarrow> string \<Rightarrow> 's cas_state \<Rightarrow> unit HttpResponse \<times> bool" where
  "download_lfs_object E io conversion_enabled clock authorization oid st =
     (case mh_from_hex (cas_crates E) oid of
        Inl _ \<Rightarrow> (json_error 400 ''Invalid oid format, expected 64-character hex string'', False)
      | Inr oid_hash \<Rightarrow>
     (case authorize E clock authorization (NeedLfsObject Download oid ''Insufficient scope or invalid LFS download token'') of
        Inl rej \<Rightarrow> (respond rej, False)
      | Inr _ \<Rightarrow>
          let reconstructed =
            (case get_file_refs (cs_index st) oid_hash of
               Some file_refs \<Rightarrow> (serve_verified_xet_reconstruction E io (cs_storage st) oid file_refs, False)
             | None \<Rightarrow> (json_error 404 ''Object not found'', False)) in
          case obj_exists (cas_backend E) (cs_storage st) (object_key_of oid) of
            Inr True \<Rightarrow>
              (case serve_raw_blob E io (cs_storage st) oid of
                 Served response \<Rightarrow> (response, conversion_enabled)
               | Missing \<Rightarrow> reconstructed
               | RawError response \<Rightarrow> (response, False))
          | Inr False \<Rightarrow> reconstructed
          | Inl _ \<Rightarrow> (internal_error, False)))"

section \<open>Xorbs\<close>

definition download_xorb ::
  "('sk, 'pk, 's, 'u) cas \<Rightarrow> download_io \<Rightarrow> u64 option \<Rightarrow> string option \<Rightarrow> string \<Rightarrow> string \<Rightarrow> 's cas_state \<Rightarrow> unit HttpResponse" where
  "download_xorb E io clock authorization prefix hash_str st =
     (if prefix \<noteq> ''default'' then json_error 400 ''Invalid prefix''
      else case mh_from_hex (cas_crates E) hash_str of
        Inl _ \<Rightarrow> json_error 400 ''Invalid hash format''
      | Inr xhash \<Rightarrow>
     (case authorize E clock authorization (NeedScope ''read'') of
        Inl rej \<Rightarrow> respond rej
      | Inr _ \<Rightarrow>
          let key = xorb_key (cas_crates E) xhash in
          case get_path (cas_backend E) (cs_storage st) key of
            Inr (Some path) \<Rightarrow>
              (case path of
                 None \<Rightarrow> json_error 404 ''Xorb not found''
               | Some file \<Rightarrow> if \<not> di_open io then internal_error else http_ok (Stream (length file) (di_reader io file)))
          | Inr None \<Rightarrow>
              (case download_to_temp_stream (cas_backend E) (cs_storage st) io key of
                 Inr (file_size, stream) \<Rightarrow> http_ok (Stream file_size stream)
               | Inl (NotFound _) \<Rightarrow> json_error 404 ''Xorb not found''
               | Inl _ \<Rightarrow> internal_error)
          | Inl (NotFound _) \<Rightarrow> json_error 404 ''Xorb not found''
          | Inl _ \<Rightarrow> internal_error))"

section \<open>Reconstruction metadata\<close>

record XorbInfoV2 =
  x2_xorb_hash :: string
  x2_size :: u64

record XorbFetchInfo =
  xf_storage_path :: string
  xf_size :: u64

record ReconstructionResponseV2 =
  r2_file_id :: string
  r2_xorbs :: "XorbInfoV2 list"
  r2_fetch_info :: "string \<rightharpoonup> XorbFetchInfo"

definition fetch_and_parse_shard :: "crates \<Rightarrow> fetch \<Rightarrow> string \<Rightarrow> string + MDBShardFile" where
  "fetch_and_parse_shard C fetch shard_id =
     (let key = ''shards/'' @ shard_id in
      map_err (\<lambda>_. ''Failed to fetch shard'') (fst (parse_shard_from_storage C key (\<lambda>_. fetched (fetch key)))))"

text \<open>The first reference whose shard can be read and planned.\<close>

fun select_candidate :: "crates \<Rightarrow> fetch \<Rightarrow> merkle_hash \<Rightarrow> FileShardRef list \<Rightarrow> (MDBShardFile \<times> PlannedFile) option" where
  "select_candidate C fetch target_hash [] = None"
| "select_candidate C fetch target_hash (file_ref # file_refs) =
     (case fetch_and_parse_shard C fetch (fr_shard_id file_ref) of
        Inl _ \<Rightarrow> select_candidate C fetch target_hash file_refs
      | Inr shard \<Rightarrow>
          (case build_file_chunk_plan shard target_hash (Some (fr_file_index file_ref)) of
             Inl _ \<Rightarrow> select_candidate C fetch target_hash file_refs
           | Inr plan \<Rightarrow> Some (shard, plan)))"

text \<open>The loop over the shard's xorbs: those of the plan, each once.\<close>

fun collect_planned ::
  "crates \<Rightarrow> string set \<Rightarrow> XorbChunkSequenceHeader list \<Rightarrow> string set \<Rightarrow> (string \<rightharpoonup> XorbFetchInfo) \<Rightarrow>
     XorbInfoV2 list \<times> (string \<rightharpoonup> XorbFetchInfo)" where
  "collect_planned C planned_xorbs [] seen_xorbs fetch_info = ([], fetch_info)"
| "collect_planned C planned_xorbs (xorb_entry # entries) seen_xorbs fetch_info =
     (let xhash = mh_to_hex C (xh_xorb_hash xorb_entry) in
      if xhash \<notin> planned_xorbs \<or> xhash \<in> seen_xorbs
      then collect_planned C planned_xorbs entries seen_xorbs fetch_info
      else
        let xorb_size = ucast (xh_num_bytes_in_xorb xorb_entry);
            (xorbs, fetch_info) = collect_planned C planned_xorbs entries (insert xhash seen_xorbs)
              (fetch_info(xhash \<mapsto> \<lparr>xf_storage_path = ''xorbs/'' @ xhash, xf_size = xorb_size\<rparr>))
        in (\<lparr>x2_xorb_hash = xhash, x2_size = xorb_size\<rparr> # xorbs, fetch_info))"

definition get_reconstruction ::
  "('sk, 'pk, 's, 'u) cas \<Rightarrow> u64 option \<Rightarrow> string option \<Rightarrow> string \<Rightarrow> 's cas_state \<Rightarrow> ReconstructionResponseV2 HttpResponse" where
  "get_reconstruction E clock authorization file_id st =
     (case authorize E clock authorization (NeedScopeMsg ''read'' ''Insufficient scope, read required'') of
        Inl rej \<Rightarrow> respond rej
      | Inr _ \<Rightarrow>
     if \<not> is_hex_oid file_id then json_error 400 ''Invalid file_id format, expected 64-character hex string''
     else case mh_from_hex (cas_crates E) file_id of
       Inl _ \<Rightarrow> json_error 400 ''Invalid file_id format, expected 64-character hex string''
     | Inr target_hash \<Rightarrow>
     (case get_file_refs (cs_index st) target_hash of
        None \<Rightarrow> json_error 404 ''File not found''
      | Some file_refs \<Rightarrow>
          if file_refs = [] then json_error 404 ''File not found''
          else (case select_candidate (cas_crates E) (cas_fetch E (cs_storage st)) target_hash file_refs of
             None \<Rightarrow> internal_error
           | Some (shard, plan) \<Rightarrow>
               (let planned_xorbs = (\<lambda>chunk. mh_to_hex (cas_crates E) (pc_xorb_hash chunk)) ` set (pf_chunks plan);
                    (xorbs, fetch_info) = collect_planned (cas_crates E) planned_xorbs (xorb_entries shard) {} Map.empty
                in http_ok (Json \<lparr>r2_file_id = file_id, r2_xorbs = xorbs, r2_fetch_info = fetch_info\<rparr>)))))"

section \<open>Chunk queries\<close>

record ChunkDedupResponse =
  cd_hash :: string
  cd_found :: bool
  cd_xorb_hash :: "string option"
  cd_chunk_index :: "u32 option"

definition query_chunk_dedup ::
  "('sk, 'pk, 's, 'u) cas \<Rightarrow> u64 option \<Rightarrow> string option \<Rightarrow> string \<Rightarrow> string \<Rightarrow> 's cas_state \<Rightarrow> ChunkDedupResponse HttpResponse" where
  "query_chunk_dedup E clock authorization prefix hash st =
     (let absent = \<lparr>cd_hash = hash, cd_found = False, cd_xorb_hash = None, cd_chunk_index = None\<rparr> in
      case authorize E clock authorization (NeedScopeMsg ''read'' ''Insufficient scope, read required'') of
        Inl rej \<Rightarrow> respond rej
      | Inr _ \<Rightarrow>
     if prefix \<noteq> ''default'' then json_error 400 ''Invalid prefix''
     else case mh_from_hex (cas_crates E) hash of
       Inl _ \<Rightarrow> json_error 400 ''Invalid hash format, expected 64-character hex string''
     | Inr chunk_hash \<Rightarrow>
     (case get_xorb_for_chunk (cs_index st) chunk_hash of
        Some (xhash, chunk_index) \<Rightarrow>
          (case obj_exists (cas_backend E) (cs_storage st) (xorb_key (cas_crates E) xhash) of
             Inr True \<Rightarrow> http_ok (Json \<lparr>cd_hash = hash, cd_found = True,
               cd_xorb_hash = Some (mh_to_hex (cas_crates E) xhash), cd_chunk_index = Some chunk_index\<rparr>)
           | Inr False \<Rightarrow> http_ok (Json absent)
           | Inl _ \<Rightarrow> internal_error)
      | None \<Rightarrow> http_ok (Json absent)))"

section \<open>Internal state queries\<close>

record BlobStateAnswer =
  bs_state :: string
  bs_xet_file_id :: "string option"
  bs_size :: nat
  bs_sha256 :: string

abbreviation internal_need :: AuthNeed where
  "internal_need \<equiv> NeedInternal ''Internal endpoint requires internal token type and scope''"

definition get_blob_state ::
  "('sk, 'pk, 's, 'u) cas \<Rightarrow> u64 option \<Rightarrow> string option \<Rightarrow> string \<Rightarrow> 's cas_state \<Rightarrow> BlobStateAnswer HttpResponse" where
  "get_blob_state E clock authorization oid st =
     (case mh_from_hex (cas_crates E) oid of
        Inl _ \<Rightarrow> json_error 400 ''Invalid oid format, expected 64-character hex string''
      | Inr oid_hash \<Rightarrow>
     (case authorize E clock authorization internal_need of
        Inl rej \<Rightarrow> respond rej
      | Inr _ \<Rightarrow>
     (case get_file_size (cs_index st) oid_hash of
        Some sz \<Rightarrow> http_ok (Json \<lparr>bs_state = ''xet_only'', bs_xet_file_id = Some oid, bs_size = sz, bs_sha256 = oid\<rparr>)
      | None \<Rightarrow>
          (case get_size (cas_backend E) (cs_storage st) (object_key_of oid) of
             Inr sz \<Rightarrow> http_ok (Json \<lparr>bs_state = ''raw_only'', bs_xet_file_id = None, bs_size = sz, bs_sha256 = oid\<rparr>)
           | Inl (NotFound _) \<Rightarrow> json_error 404 ''Blob not found''
           | Inl _ \<Rightarrow> internal_error))))"

definition head_response :: "nat \<Rightarrow> (string \<times> string) list \<Rightarrow> unit HttpResponse" where
  "head_response status headers = \<lparr>resp_status = status, resp_headers = headers, resp_body = NoBody\<rparr>"

definition head_blob ::
  "('sk, 'pk, 's, 'u) cas \<Rightarrow> u64 option \<Rightarrow> string option \<Rightarrow> string \<Rightarrow> 's cas_state \<Rightarrow> unit HttpResponse" where
  "head_blob E clock authorization oid st =
     (case mh_from_hex (cas_crates E) oid of
        Inl _ \<Rightarrow> json_error 400 ''Invalid oid format, expected 64-character hex string''
      | Inr oid_hash \<Rightarrow>
     (case authorize E clock authorization internal_need of
        Inl rej \<Rightarrow> respond rej
      | Inr _ \<Rightarrow>
     (case get_file_size (cs_index st) oid_hash of
        Some sz \<Rightarrow> head_response 200 [(''X-Storage-State'', ''xet_only''), (''X-File-Id'', oid), (''X-Blob-Size'', show_nat sz)]
      | None \<Rightarrow>
          (case get_size (cas_backend E) (cs_storage st) (object_key_of oid) of
             Inr sz \<Rightarrow> head_response 200 [(''X-Storage-State'', ''raw_only''), (''X-Blob-Size'', show_nat sz)]
           | Inl (NotFound _) \<Rightarrow> head_response 404 []
           | Inl _ \<Rightarrow> head_response 500 []))))"

section \<open>What streams deliver\<close>

definition complete_stream :: "(string + bytes) list \<Rightarrow> bool" where
  "complete_stream items \<longleftrightarrow> list_all (\<lambda>item. case item of Inl _ \<Rightarrow> False | Inr _ \<Rightarrow> True) items"

text \<open>A reader that does not fail yields the file.\<close>

definition reader_contract :: "(bytes \<Rightarrow> (string + bytes) list) \<Rightarrow> bool" where
  "reader_contract reader \<longleftrightarrow> (\<forall>d. complete_stream (reader d) \<longrightarrow> payload_bytes (reader d) = d)"

lemma integrity_stream_eq:
  "integrity_stream C oid hashed items =
     items @ (if hex_encode C (sha256 C (hashed @ payload_bytes items)) \<noteq> oid then [Inl ''Integrity verification failed''] else [])"
  by (induction C oid hashed items rule: integrity_stream.induct) (simp_all add: payload_bytes_def)

definition raw_items :: "('sk, 'pk, 's, 'u) cas \<Rightarrow> string \<Rightarrow> (string + bytes) list \<Rightarrow> (string + bytes) list" where
  "raw_items E oid items =
     items @ (if cas_verify_download_integrity E \<and> hex_encode (cas_crates E) (sha256 (cas_crates E) (payload_bytes items)) \<noteq> oid
              then [Inl ''Integrity verification failed''] else [])"

lemma raw_response_eq: "raw_response E oid n items = Served (http_ok (Stream n (raw_items E oid items)))"
  by (simp add: raw_response_def raw_items_def integrity_stream_eq)

lemma complete_raw_items:
  "complete_stream (raw_items E oid items) \<longleftrightarrow> complete_stream items \<and>
     (cas_verify_download_integrity E \<longrightarrow> hex_encode (cas_crates E) (sha256 (cas_crates E) (payload_bytes items)) = oid)"
  "payload_bytes (raw_items E oid items) = payload_bytes items"
  by (auto simp: raw_items_def complete_stream_def payload_bytes_def)

section \<open>Downloads from the local backend\<close>

lemma local_path_Some:
  assumes "local_get_path fs k = Inr (Some (Some d))" shows "obj_content fs k = Some d"
proof (cases "object_path k")
  case (Inl e)
  with assms show ?thesis by (simp add: local_get_path_def)
next
  case (Inr p)
  show ?thesis
  proof (cases "canonicalize_confined fs p")
    case (Inl e)
    with Inr assms show ?thesis
      by (cases e; cases "reject_symlink_components fs p") (simp_all add: local_get_path_def obj_content_def)
  next
    case canon: (Inr q)
    with Inr assms canonicalize_Inr [OF canon] show ?thesis
      by (cases "reject_symlink_components fs p") (simp_all add: local_get_path_def obj_content_def)
  qed
qed

lemma local_path_not_None: "local_get_path fs k \<noteq> Inr None"
  by (auto simp: local_get_path_def result_simps split: sum.splits StorageError.splits)

lemma serve_raw_Served:
  assumes "cas_backend E = local_backend dir_len" "serve_raw_blob E io s oid = Served resp"
  obtains fl where "obj_content s (object_key_of oid) = Some fl" "di_open io"
    "resp = http_ok (Stream (length fl) (raw_items E oid (di_reader io fl)))"
proof -
  have gp: "get_path (cas_backend E) = local_get_path" by (simp add: assms(1) local_backend_def)
  show thesis
  proof (cases "local_get_path s (object_key_of oid)")
    case (Inl e)
    with assms(2) gp show thesis by (cases e) (simp_all add: serve_raw_blob_def)
  next
    case (Inr p)
    then obtain q where q: "p = Some q" using local_path_not_None by (cases p) auto
    with Inr assms(2) gp obtain fl where "q = Some fl" "di_open io"
        "resp = http_ok (Stream (length fl) (raw_items E oid (di_reader io fl)))"
      by (cases q) (auto simp: serve_raw_blob_def raw_response_eq Let_def split: if_splits)
    with that local_path_Some Inr q show thesis by blast
  qed
qed

lemma serve_raw_RawError:
  assumes "serve_raw_blob E io s oid = RawError resp" shows "resp = internal_error"
  using assms
  by (auto simp: serve_raw_blob_def raw_response_eq Let_def split: sum.splits option.splits if_splits StorageError.splits prod.splits)

lemma serve_raw_present:
  assumes "cas_backend E = local_backend dir_len" "fs_ok s" "obj_content s (object_key_of oid) = Some fl" "di_open io"
  shows "serve_raw_blob E io s oid = Served (http_ok (Stream (length fl) (raw_items E oid (di_reader io fl))))"
  using local_path_content [OF assms(2,3)] assms(4)
  by (simp add: serve_raw_blob_def assms(1) local_backend_def raw_response_eq Let_def)

lemma reconstructed_named:
  assumes "hex_contract C" "mh_from_hex C oid = Inr h" "reconstruct_verified_file_to_temp C fetch oid refs = Inr (fl, n)"
  shows "\<exists>raws. fl = concat raws \<and> file_hash_matches C h raws \<and> n = of_nat (length fl)"
proof -
  have "try_refs C fetch (mh_to_hex C h) h refs None = Inr (fl, n)"
    using assms(2,3) by (simp add: reconstruct_verified_file_to_temp_def)
  then obtain r where "reconstruct_single_file_ref_to_temp C fetch (mh_to_hex C h) h r = Inr (fl, n)" using try_refs_Inr by blast
  then show ?thesis unfolding reconstruct_single_iff [OF assms(1)] by blast
qed

text \<open>The identifier stands for the data: by one of the whole-file hashes, or as a reconstructed file.\<close>

definition oid_names :: "crates \<Rightarrow> string \<Rightarrow> bytes \<Rightarrow> bool" where
  "oid_names C oid data \<longleftrightarrow> oid = hex_encode C (keyed_hash C DATA_KEY data) \<or> oid = hex_encode C (sha256 C data) \<or>
     (\<exists>h raws. mh_from_hex C oid = Inr h \<and> data = concat raws \<and> file_hash_matches C h raws)"

lemma mh_from_hex_oid:
  assumes "hex_contract C" "hex_digits_contract C" "mh_from_hex C oid = Inr h" shows "is_hex_oid oid"
  using assms by (auto simp: mh_from_hex_def is_hex_oid_def hex_digits_contract_def split: sum.splits if_splits)

definition delivers :: "crates \<Rightarrow> string \<Rightarrow> unit HttpResponse \<Rightarrow> bool" where
  "delivers C oid resp \<longleftrightarrow> (\<exists>n items data. resp_body resp = Stream n items \<and> oid_names C oid data \<and>
     (length data < 2 ^ 64 \<longrightarrow> n = length data) \<and> (complete_stream items \<longrightarrow> payload_bytes items = data))"

lemma respond_status: "resp_status (respond rej) \<noteq> 200"
  by (simp add: respond_def json_error_def split_def Let_def)

lemma serve_reconstruction_delivers:
  assumes "hex_contract (cas_crates E)" "reader_contract (di_reader io)" "mh_from_hex (cas_crates E) oid = Inr h"
    and "resp_status (serve_verified_xet_reconstruction E io s oid refs) = 200"
  shows "delivers (cas_crates E) oid (serve_verified_xet_reconstruction E io s oid refs)"
proof (cases "reconstruct_verified_file_to_temp (cas_crates E) (cas_fetch E s) oid refs")
  case (Inl e)
  with assms(4) show ?thesis by (simp add: serve_verified_xet_reconstruction_def json_error_def split: if_splits)
next
  case (Inr fn)
  obtain fl n where fn: "fn = (fl, n)" by fastforce
  from reconstructed_named [OF assms(1,3) Inr [unfolded fn]] obtain raws where
    r: "fl = concat raws" "file_hash_matches (cas_crates E) h raws" "n = of_nat (length fl)" by blast
  have "serve_verified_xet_reconstruction E io s oid refs = http_ok (Stream (unat n) (di_reader io fl))"
    using assms(4) Inr fn by (simp add: serve_verified_xet_reconstruction_def json_error_def split: if_splits)
  moreover have "oid_names (cas_crates E) oid fl" using r assms(3) unfolding oid_names_def by blast
  moreover have "length fl < 2 ^ 64 \<longrightarrow> unat n = length fl" using r(3) unat_of_nat_u64 by simp
  ultimately show ?thesis using assms(2) unfolding delivers_def reader_contract_def http_ok_def by force
qed

section \<open>Properties\<close>



section \<open>Objects that were uploaded\<close>

lemma receive_upload_refuses:
  assumes "receive_upload E rq on_chunk h st = (Inl resp, st')" shows "resp_status resp \<noteq> 200"
proof -
  have s: "resp_status (stream_error_response e) \<noteq> 200" for e by (cases e) (simp_all add: json_error_def temp_unavailable_def)
  from assms show ?thesis
    by (auto simp: receive_upload_def Let_def json_error_def temp_unavailable_def s split: sum.splits prod.splits if_splits)
qed

lemma admit_lfs_pending:
  assumes "admit_lfs_object E oid rq st = (res, st1)"
  shows "case res of
      Inl resp \<Rightarrow> resp \<noteq> http_ok (JsonMessage ''Object uploaded successfully'')
    | Inr p \<Rightarrow> is_hex_oid oid \<and> up_key p = object_key_of oid \<and> up_registration p = None \<and>
        up_reply p = JsonMessage ''Object uploaded successfully''"
proof -
  obtain r st2 where recv: "(receive_upload E rq sh_update sh_new st :: (upload_reply HttpResponse + _) \<times> _) = (r, st2)" by (metis surj_pair)
  have r: "r = Inl resp \<Longrightarrow> resp_status resp \<noteq> 200" for resp using receive_upload_refuses recv by metis
  have rej: "respond rej \<noteq> (http_ok b :: upload_reply HttpResponse)" for rej b
    by (simp add: respond_def json_error_def http_ok_def split_def Let_def)
  have "r = Inl resp \<Longrightarrow> resp \<noteq> http_ok b" for resp b using r by (auto simp: http_ok_def)
  with assms recv show ?thesis
    by (auto simp: admit_lfs_object_def Let_def split_def rej [unfolded http_ok_def] http_ok_def json_error_def split: sum.splits if_splits)
qed

lemma upload_lfs_stored:
  assumes E: "cas_backend E = local_backend dir_len" "cas_put_from_path E = local_store_file same_device"
    and st: "fs_ok (cs_storage st)" "temp_fresh u (cs_storage st) (object_key_of oid)"
    and run: "upload_lfs_object E u oid rq st = (http_ok (JsonMessage ''Object uploaded successfully''), st')"
  shows "fs_ok (cs_storage st') \<and> obj_content (cs_storage st') (object_key_of oid) = Some (payload_bytes (rq_payload rq)) \<and>
    named_object (cas_crates E) (object_key_of oid) (payload_bytes (rq_payload rq)) \<and> is_hex_oid oid"
proof -
  obtain res st1 where a: "admit_lfs_object E oid rq st = (res, st1)" by (metis surj_pair)
  obtain p where p: "res = Inr p"
    using admit_lfs_pending [OF a] run a by (cases res) (auto simp: upload_lfs_object_def complete_upload_def)
  have fin: "finish_upload E u p st1 = (http_ok (JsonMessage ''Object uploaded successfully''), st')"
    using run a p by (simp add: upload_lfs_object_def complete_upload_def)
  have key: "up_key p = object_key_of oid" "up_registration p = None" "is_hex_oid oid" using admit_lfs_pending [OF a] p by simp_all
  have adm: "cs_storage st1 = cs_storage st" "tf_data (up_file p) = payload_bytes (rq_payload rq)"
      "named_object (cas_crates E) (up_key p) (tf_data (up_file p))"
    using admit_lfs_admission [OF a] p by (auto simp: admission_def payload_bytes_Inr)
  obtain r s where put: "local_store_file same_device u (cs_storage st) (object_key_of oid) (Some (payload_bytes (rq_payload rq))) = (r, s)"
    by (metis surj_pair)
  have s: "cs_storage st' = s" using finish_upload_effect [OF fin] put adm key E by simp
  obtain x where "r = Inr x"
    using fin put adm key E by (cases r) (auto simp: finish_upload_def json_error_def http_ok_def)
  with local_uploads.putp_stored [OF st] local_uploads.putp_effect [OF st put] put s adm key show ?thesis by simp
qed

lemma download_present:
  assumes "cas_backend E = local_backend dir_len" "fs_ok (cs_storage st)" "obj_content (cs_storage st) (object_key_of oid) = Some fl"
    and "di_open io" "mh_from_hex (cas_crates E) oid = Inr h"
    and "authorize E clock authorization (NeedLfsObject Download oid ''Insufficient scope or invalid LFS download token'') = Inr claims"
  shows "download_lfs_object E io enabled clock authorization oid st = (http_ok (Stream (length fl) (raw_items E oid (di_reader io fl))), enabled)"
  using serve_raw_present [OF assms(1-4)] local_exists_content [OF assms(2,3)] assms(5,6)
  by (simp add: download_lfs_object_def Let_def) (simp add: assms(1) local_backend_def)

text \<open>
  C11. What was uploaded is what is downloaded. After the server has answered that an object was
  uploaded, a permitted download of it streams, with its length announced, what reading the
  uploaded bytes yields, and requests a conversion when conversions are on. With the
  integrity check on, an error follows at the end exactly when the identifier is not the
  SHA-256 of the bytes; the upload itself accepts the identifier when it is either the SHA-256 or the
  keyed BLAKE3 hash.
\<close>

theorem lfs_upload_then_download:
  assumes E: "cas_backend E = local_backend dir_len" "cas_put_from_path E = local_store_file same_device"
    and st: "fs_ok (cs_storage st)" "temp_fresh u (cs_storage st) (object_key_of oid)"
    and up: "upload_lfs_object E u oid rq st = (http_ok (JsonMessage ''Object uploaded successfully''), st')"
    and io: "di_open io" "reader_contract (di_reader io)" "complete_stream (di_reader io (payload_bytes (rq_payload rq)))"
    and down: "mh_from_hex (cas_crates E) oid = Inr h"
      "authorize E clock authorization (NeedLfsObject Download oid ''Insufficient scope or invalid LFS download token'') = Inr claims"
  shows "let data = payload_bytes (rq_payload rq) in
    (oid = hex_encode (cas_crates E) (keyed_hash (cas_crates E) DATA_KEY data) \<or> oid = hex_encode (cas_crates E) (sha256 (cas_crates E) data)) \<and>
    download_lfs_object E io enabled clock authorization oid st' =
      (http_ok (Stream (length data) (di_reader io data @
         (if cas_verify_download_integrity E \<and> oid \<noteq> hex_encode (cas_crates E) (sha256 (cas_crates E) data)
          then [Inl ''Integrity verification failed''] else []))), enabled)"
proof -
  note stored = upload_lfs_stored [OF E st up]
  have "payload_bytes (di_reader io (payload_bytes (rq_payload rq))) = payload_bytes (rq_payload rq)"
    using io(2,3) unfolding reader_contract_def by blast
  with stored download_present [OF E(1) _ _ io(1) down] show ?thesis by (auto simp: Let_def named_raw raw_items_def)
qed


section \<open>What the metadata endpoints list\<close>

lemma collect_planned_spec:
  assumes "collect_planned C P es seen fi = (xs, fi')"
  shows "distinct (map x2_xorb_hash xs) \<and> x2_xorb_hash ` set xs = (\<lambda>e. mh_to_hex C (xh_xorb_hash e)) ` set es \<inter> P - seen \<and>
    (\<forall>x\<in>set xs. fi' (x2_xorb_hash x) = Some \<lparr>xf_storage_path = ''xorbs/'' @ x2_xorb_hash x, xf_size = x2_size x\<rparr> \<and>
       (\<exists>e\<in>set es. x2_xorb_hash x = mh_to_hex C (xh_xorb_hash e) \<and> x2_size x = ucast (xh_num_bytes_in_xorb e))) \<and>
    (\<forall>k. k \<notin> x2_xorb_hash ` set xs \<longrightarrow> fi' k = fi k)"
  using assms
proof (induction es arbitrary: seen fi xs fi')
  case Nil
  then show ?case by simp
next
  case (Cons e es)
  let ?h = "mh_to_hex C (xh_xorb_hash e)"
  show ?case
  proof (cases "?h \<notin> P \<or> ?h \<in> seen")
    case True
    with Cons.prems have "collect_planned C P es seen fi = (xs, fi')" by simp
    from Cons.IH [OF this] True show ?thesis by auto
  next
    case False
    let ?x = "\<lparr>x2_xorb_hash = ?h, x2_size = ucast (xh_num_bytes_in_xorb e)\<rparr>"
    from False Cons.prems obtain ys where ys: "xs = ?x # ys"
      "collect_planned C P es (insert ?h seen) (fi(?h \<mapsto> \<lparr>xf_storage_path = ''xorbs/'' @ ?h, xf_size = ucast (xh_num_bytes_in_xorb e)\<rparr>)) = (ys, fi')"
      by (auto simp: Let_def split: prod.splits)
    from Cons.IH [OF ys(2)] have IH: "distinct (map x2_xorb_hash ys)"
      "x2_xorb_hash ` set ys = (\<lambda>e. mh_to_hex C (xh_xorb_hash e)) ` set es \<inter> P - insert ?h seen"
      "\<forall>x\<in>set ys. fi' (x2_xorb_hash x) = Some \<lparr>xf_storage_path = ''xorbs/'' @ x2_xorb_hash x, xf_size = x2_size x\<rparr> \<and>
         (\<exists>e\<in>set es. x2_xorb_hash x = mh_to_hex C (xh_xorb_hash e) \<and> x2_size x = ucast (xh_num_bytes_in_xorb e))"
      "\<forall>k. k \<notin> x2_xorb_hash ` set ys \<longrightarrow>
         fi' k = (fi(?h \<mapsto> \<lparr>xf_storage_path = ''xorbs/'' @ ?h, xf_size = ucast (xh_num_bytes_in_xorb e)\<rparr>)) k" by blast+
    have new: "?h \<notin> x2_xorb_hash ` set ys" using IH(2) by blast
    then have "fi' ?h = Some \<lparr>xf_storage_path = ''xorbs/'' @ ?h, xf_size = ucast (xh_num_bytes_in_xorb e)\<rparr>" using IH(4) by simp
    moreover have "x2_xorb_hash ` set xs = (\<lambda>e. mh_to_hex C (xh_xorb_hash e)) ` set (e # es) \<inter> P - seen"
      using IH(2) False unfolding ys(1) by auto
    moreover have "distinct (map x2_xorb_hash xs)" using IH(1) new unfolding ys(1) by simp
    moreover have "\<forall>k. k \<notin> x2_xorb_hash ` set xs \<longrightarrow> fi' k = fi k" using IH(4) unfolding ys(1) by simp
    ultimately show ?thesis using IH(3) unfolding ys(1) by auto
  qed
qed

lemma select_candidate_Some:
  "select_candidate C fetch h refs = Some (shard, plan) \<Longrightarrow>
     \<exists>r\<in>set refs. fetch_and_parse_shard C fetch (fr_shard_id r) = Inr shard \<and> build_file_chunk_plan shard h (Some (fr_file_index r)) = Inr plan"
  by (induction refs) (auto split: sum.splits)

text \<open>The answer describes a plan of the file: each xorb the plan reads, once, and where to fetch it.\<close>

definition describes_plan :: "crates \<Rightarrow> MDBShardFile \<Rightarrow> PlannedFile \<Rightarrow> ReconstructionResponseV2 \<Rightarrow> bool" where
  "describes_plan C shard plan r \<longleftrightarrow>
     distinct (map x2_xorb_hash (r2_xorbs r)) \<and>
     x2_xorb_hash ` set (r2_xorbs r) = (\<lambda>c. mh_to_hex C (pc_xorb_hash c)) ` set (pf_chunks plan) \<and>
     (\<forall>x\<in>set (r2_xorbs r). \<exists>e\<in>set (xorb_entries shard).
        x2_xorb_hash x = mh_to_hex C (xh_xorb_hash e) \<and> x2_size x = ucast (xh_num_bytes_in_xorb e)) \<and>
     (\<forall>k. r2_fetch_info r k =
        (case find (\<lambda>x. x2_xorb_hash x = k) (r2_xorbs r) of
           None \<Rightarrow> None
         | Some x \<Rightarrow> Some \<lparr>xf_storage_path = ''xorbs/'' @ k, xf_size = x2_size x\<rparr>))"

lemma plan_described:
  assumes "build_file_chunk_plan shard h expected = Inr plan"
    and "collect_planned C ((\<lambda>chunk. mh_to_hex C (pc_xorb_hash chunk)) ` set (pf_chunks plan)) (xorb_entries shard) {} Map.empty = (xs, fi)"
  shows "describes_plan C shard plan \<lparr>r2_file_id = file_id, r2_xorbs = xs, r2_fetch_info = fi\<rparr>"
proof -
  let ?P = "(\<lambda>c. mh_to_hex C (pc_xorb_hash c)) ` set (pf_chunks plan)"
  have "\<exists>e\<in>set (xorb_entries shard). xh_xorb_hash e = pc_xorb_hash c" if c: "c \<in> set (pf_chunks plan)" for c
  proof -
    have "planned_ok shard c" using build_plan_sound [OF assms(1)] c unfolding list_all_iff by blast
    then obtain k where "k < length (xorb_entries shard)" "xh_xorb_hash (xorb_entries shard ! k) = pc_xorb_hash c"
      unfolding planned_ok_def by blast
    then show ?thesis using nth_mem by blast
  qed
  then have "?P \<subseteq> (\<lambda>e. mh_to_hex C (xh_xorb_hash e)) ` set (xorb_entries shard)" by force
  note spec = collect_planned_spec [OF assms(2)]
  have "fi k = (case find (\<lambda>x. x2_xorb_hash x = k) xs of None \<Rightarrow> None | Some x \<Rightarrow> Some \<lparr>xf_storage_path = ''xorbs/'' @ k, xf_size = x2_size x\<rparr>)" for k
  proof (cases "find (\<lambda>x. x2_xorb_hash x = k) xs")
    case None
    then have "k \<notin> x2_xorb_hash ` set xs" by (auto simp: find_None_iff)
    with None spec show ?thesis by simp
  next
    case (Some x)
    then have "x \<in> set xs" "x2_xorb_hash x = k" by (auto simp: find_Some_iff)
    with Some spec show ?thesis by auto
  qed
  with spec \<open>?P \<subseteq> _\<close> show ?thesis unfolding describes_plan_def by auto
qed

lemma reconstruction_described:
  assumes "get_reconstruction E clock authorization file_id st = resp" "resp_status resp = 200"
  shows "\<exists>h refs file_ref shard plan r.
    (\<exists>claims. authorize E clock authorization (NeedScopeMsg ''read'' ''Insufficient scope, read required'') = Inr claims) \<and>
    mh_from_hex (cas_crates E) file_id = Inr h \<and> get_file_refs (cs_index st) h = Some refs \<and> file_ref \<in> set refs \<and>
    fetch_and_parse_shard (cas_crates E) (cas_fetch E (cs_storage st)) (fr_shard_id file_ref) = Inr shard \<and>
    build_file_chunk_plan shard h (Some (fr_file_index file_ref)) = Inr plan \<and>
    resp_body resp = Json r \<and> r2_file_id r = file_id \<and> describes_plan (cas_crates E) shard plan r"
proof -
  obtain claims where auth: "authorize E clock authorization (NeedScopeMsg ''read'' ''Insufficient scope, read required'') = Inr claims"
    using assms respond_status [where ?'a = ReconstructionResponseV2]
    by (cases "authorize E clock authorization (NeedScopeMsg ''read'' ''Insufficient scope, read required'')") (auto simp: get_reconstruction_def)
  have hex: "is_hex_oid file_id" using assms auth by (auto simp: get_reconstruction_def json_error_def split: if_splits)
  obtain h where h: "mh_from_hex (cas_crates E) file_id = Inr h"
    using assms auth hex by (cases "mh_from_hex (cas_crates E) file_id") (auto simp: get_reconstruction_def json_error_def)
  obtain refs where refs: "get_file_refs (cs_index st) h = Some refs" "refs \<noteq> []"
    using assms auth hex h by (auto simp: get_reconstruction_def json_error_def split: option.splits if_splits)
  obtain shard plan where cand: "select_candidate (cas_crates E) (cas_fetch E (cs_storage st)) h refs = Some (shard, plan)"
    using assms auth hex h refs by (auto simp: get_reconstruction_def json_error_def split: option.splits)
  obtain file_ref where r: "file_ref \<in> set refs" "fetch_and_parse_shard (cas_crates E) (cas_fetch E (cs_storage st)) (fr_shard_id file_ref) = Inr shard"
    "build_file_chunk_plan shard h (Some (fr_file_index file_ref)) = Inr plan" using select_candidate_Some [OF cand] by blast
  obtain xs fi where col: "collect_planned (cas_crates E) ((\<lambda>chunk. mh_to_hex (cas_crates E) (pc_xorb_hash chunk)) ` set (pf_chunks plan))
      (xorb_entries shard) {} Map.empty = (xs, fi)" by (metis surj_pair)
  have "resp = http_ok (Json \<lparr>r2_file_id = file_id, r2_xorbs = xs, r2_fetch_info = fi\<rparr>)"
    using assms(1) auth hex h refs cand col by (auto simp: get_reconstruction_def)
  with plan_described [OF r(3) col, of file_id] auth h refs(1) r show ?thesis by (auto simp: http_ok_def)
qed


lemma released_plannable:
  assumes "ref_released C fetch h r"
  shows "\<exists>shard plan. fetch_and_parse_shard C fetch (fr_shard_id r) = Inr shard \<and> build_file_chunk_plan shard h (Some (fr_file_index r)) = Inr plan"
proof -
  obtain sid reg f where r: "process_shard C fetch (''shards/'' @ sid) = Some reg" "f \<in> set (reg_files reg)" "vf_file_hash f = h"
    "r = ref_of (reg_shard_id reg) f" using assms unfolding ref_released_def by blast
  have strip: "strip_shards_prefix (''shards/'' @ sid) = sid" by (simp add: strip_shards_prefix_def)
  obtain shard where sh: "fst (parse_shard_from_storage C (''shards/'' @ sid) (\<lambda>_. fetched (fetch (''shards/'' @ sid)))) = Inr shard"
    "validate_shard_for_index C fetch sid shard = Inr reg"
    using r(1) strip by (auto simp: process_shard_def split: sum.splits)
  have "reg_shard_id reg = sid" using validate_shard_sound [OF sh(2)] by simp
  moreover obtain plan where "build_file_chunk_plan shard (vf_file_hash f) (Some (vf_file_index f)) = Inr plan"
    using validated_file_readable [OF sh(2) r(2)] by blast
  ultimately show ?thesis using sh(1) r(3,4) by (simp add: fetch_and_parse_shard_def ref_of_def)
qed

lemma select_candidate_finds:
  assumes "r \<in> set refs" "fetch_and_parse_shard C fetch (fr_shard_id r) = Inr shard" "build_file_chunk_plan shard h (Some (fr_file_index r)) = Inr plan"
  shows "\<exists>sp. select_candidate C fetch h refs = Some sp"
  using assms by (induction refs) (auto split: sum.splits)

lemma hex_contract_oid: "hex_contract C \<Longrightarrow> hex_digits_contract C \<Longrightarrow> is_hex_oid (mh_to_hex C h)"
  using mh_from_hex_oid mh_from_to_hex by blast

text \<open>
  C30. The reconstruction endpoint describes a plan that exists, and finds one for every file a
  validated shard declares. When it answers a file identifier, the caller may read, and one of the
  shards the index names for the file was fetched, parsed and planned for this file. The answer
  lists every xorb the plan reads from exactly once, with the size its shard records, gives for
  each the path under which it is stored and gives no other path. When the caller may read and the
  index names a shard that is stored and valid, the endpoint does answer.
\<close>

theorem reconstruction_lists_planned_xorbs:
  assumes resp: "get_reconstruction E clock authorization file_id st = resp"
  shows "(resp_status resp = 200 \<longrightarrow> (\<exists>h refs file_ref shard plan r.
      (\<exists>claims. authorize E clock authorization (NeedScopeMsg ''read'' ''Insufficient scope, read required'') = Inr claims) \<and>
      mh_from_hex (cas_crates E) file_id = Inr h \<and> get_file_refs (cs_index st) h = Some refs \<and> file_ref \<in> set refs \<and>
      fetch_and_parse_shard (cas_crates E) (cas_fetch E (cs_storage st)) (fr_shard_id file_ref) = Inr shard \<and>
      build_file_chunk_plan shard h (Some (fr_file_index file_ref)) = Inr plan \<and>
      resp_body resp = Json r \<and> r2_file_id r = file_id \<and> describes_plan (cas_crates E) shard plan r)) \<and>
    (hex_contract (cas_crates E) \<and> hex_digits_contract (cas_crates E) \<and>
      (\<exists>claims. authorize E clock authorization (NeedScopeMsg ''read'' ''Insufficient scope, read required'') = Inr claims) \<and>
      (\<exists>h refs file_ref. mh_from_hex (cas_crates E) file_id = Inr h \<and> get_file_refs (cs_index st) h = Some refs \<and> file_ref \<in> set refs \<and>
         ref_released (cas_crates E) (cas_fetch E (cs_storage st)) h file_ref) \<longrightarrow> resp_status resp = 200)"
proof (intro conjI impI)
  assume "resp_status resp = 200"
  from reconstruction_described [OF resp this] show "\<exists>h refs file_ref shard plan r.
      (\<exists>claims. authorize E clock authorization (NeedScopeMsg ''read'' ''Insufficient scope, read required'') = Inr claims) \<and>
      mh_from_hex (cas_crates E) file_id = Inr h \<and> get_file_refs (cs_index st) h = Some refs \<and> file_ref \<in> set refs \<and>
      fetch_and_parse_shard (cas_crates E) (cas_fetch E (cs_storage st)) (fr_shard_id file_ref) = Inr shard \<and>
      build_file_chunk_plan shard h (Some (fr_file_index file_ref)) = Inr plan \<and>
      resp_body resp = Json r \<and> r2_file_id r = file_id \<and> describes_plan (cas_crates E) shard plan r" .
next
  let ?C = "cas_crates E" and ?fetch = "cas_fetch E (cs_storage st)"
  assume a: "hex_contract ?C \<and> hex_digits_contract ?C \<and>
      (\<exists>claims. authorize E clock authorization (NeedScopeMsg ''read'' ''Insufficient scope, read required'') = Inr claims) \<and>
      (\<exists>h refs file_ref. mh_from_hex ?C file_id = Inr h \<and> get_file_refs (cs_index st) h = Some refs \<and> file_ref \<in> set refs \<and>
         ref_released ?C ?fetch h file_ref)"
  then obtain claims h refs file_ref where b: "authorize E clock authorization (NeedScopeMsg ''read'' ''Insufficient scope, read required'') = Inr claims"
    "mh_from_hex ?C file_id = Inr h" "get_file_refs (cs_index st) h = Some refs" "file_ref \<in> set refs" "ref_released ?C ?fetch h file_ref" by blast
  have hex: "is_hex_oid file_id" using a mh_from_hex_oid [OF _ _ b(2)] by blast
  obtain shard plan where cand: "select_candidate ?C ?fetch h refs = Some (shard, plan)"
    using released_plannable [OF b(5)] select_candidate_finds [OF b(4)] by (metis surj_pair)
  have "refs \<noteq> []" using b(4) by auto
  then show "resp_status resp = 200"
    unfolding resp [symmetric] using b hex cand by (simp add: get_reconstruction_def Let_def split_def http_ok_def)
qed

section \<open>The state queries\<close>

lemma backed_file_size:
  assumes "index_backed C fetch idx" "get_file_size idx h = Some n"
  shows "\<exists>raws chunks. list_all2 (\<lambda>(h, i) raw. stored_chunk C fetch h i raw) chunks raws \<and> n = length (concat raws) \<and> file_hash_matches C h raws"
proof -
  obtain refs where r: "file_to_shards idx h = Some refs" "refs \<noteq> []" "n = fr_file_size (hd refs)"
    using assms(2) by (auto simp: get_file_size_def split: option.splits if_splits)
  have "list_all (ref_backed C fetch h) refs" using assms(1) r(1) by (simp add: index_backed_def entries_ok_def all_entries_def)
  then have "ref_backed C fetch h (hd refs)" using r(2) by (simp add: list_all_iff)
  with r(3) show ?thesis unfolding ref_backed_def file_stored_def by simp
qed

text \<open>
  The metadata queries tell the truth about the storage. With an index that is backed by
  the storage, a chunk that is reported as found is the chunk with the requested hash at the reported place of the reported xorb, and that xorb
  is stored. A blob reported as converted is a stored file with this hash, of the reported size; a blob
  reported as raw has the size of the stored object. The two state queries agree on status,
  state and size.
\<close>

theorem metadata_queries_truthful:
  assumes E: "cas_backend E = local_backend dir_len" and st: "fs_ok (cs_storage st)"
    and idx: "index_backed (cas_crates E) (local_download_to_path (cs_storage st)) (cs_index st)"
  shows "(\<forall>a. resp_body (query_chunk_dedup E clock authorization prefix hash st) = Json a \<longrightarrow> cd_found a \<longrightarrow>
      (\<exists>h x i raw. mh_from_hex (cas_crates E) hash = Inr h \<and> cd_xorb_hash a = Some (mh_to_hex (cas_crates E) x) \<and> cd_chunk_index a = Some i \<and>
         stored_chunk (cas_crates E) (local_download_to_path (cs_storage st)) x i raw \<and> compute_data_hash (cas_crates E) raw = h)) \<and>
    (\<forall>b. resp_body (get_blob_state E clock authorization oid st) = Json b \<longrightarrow>
      (\<exists>h. mh_from_hex (cas_crates E) oid = Inr h \<and>
        (bs_state b = ''xet_only'' \<and> (\<exists>raws chunks.
            list_all2 (\<lambda>(x, i) raw. stored_chunk (cas_crates E) (local_download_to_path (cs_storage st)) x i raw) chunks raws \<and>
            bs_size b = length (concat raws) \<and> file_hash_matches (cas_crates E) h raws) \<or>
         bs_state b = ''raw_only'' \<and> (\<forall>d. obj_content (cs_storage st) (object_key_of oid) = Some d \<longrightarrow> bs_size b = length d)) \<and>
        resp_status (head_blob E clock authorization oid st) = 200 \<and>
        {(''X-Storage-State'', bs_state b), (''X-Blob-Size'', show_nat (bs_size b))} \<subseteq>
          set (resp_headers (head_blob E clock authorization oid st)))) \<and>
    resp_status (head_blob E clock authorization oid st) = resp_status (get_blob_state E clock authorization oid st)"
proof -
  let ?C = "cas_crates E" and ?fetch = "local_download_to_path (cs_storage st)"
  have chunk: "\<exists>h x i raw. mh_from_hex ?C hash = Inr h \<and> cd_xorb_hash a = Some (mh_to_hex ?C x) \<and> cd_chunk_index a = Some i \<and>
      stored_chunk ?C ?fetch x i raw \<and> compute_data_hash ?C raw = h"
    if a: "resp_body (query_chunk_dedup E clock authorization prefix hash st) = Json a" "cd_found a" for a
  proof -
    from a obtain h x i where q: "mh_from_hex ?C hash = Inr h" "get_xorb_for_chunk (cs_index st) h = Some (x, i)"
        "cd_xorb_hash a = Some (mh_to_hex ?C x)" "cd_chunk_index a = Some i"
      by (auto simp: query_chunk_dedup_def Let_def http_ok_def json_error_def respond_def split_def split: sum.splits if_splits option.splits bool.splits)
    have "chunk_backed ?C ?fetch h (x, i)" using idx q(2) by (simp add: index_backed_def entries_ok_def all_entries_def get_xorb_for_chunk_def)
    with q show ?thesis unfolding chunk_backed_def by auto
  qed
  have blob: "\<exists>h. mh_from_hex ?C oid = Inr h \<and>
        (bs_state b = ''xet_only'' \<and> (\<exists>raws chunks. list_all2 (\<lambda>(x, i) raw. stored_chunk ?C ?fetch x i raw) chunks raws \<and>
            bs_size b = length (concat raws) \<and> file_hash_matches ?C h raws) \<or>
         bs_state b = ''raw_only'' \<and> (\<forall>d. obj_content (cs_storage st) (object_key_of oid) = Some d \<longrightarrow> bs_size b = length d)) \<and>
        resp_status (head_blob E clock authorization oid st) = 200 \<and>
        {(''X-Storage-State'', bs_state b), (''X-Blob-Size'', show_nat (bs_size b))} \<subseteq>
          set (resp_headers (head_blob E clock authorization oid st))"
    if b: "resp_body (get_blob_state E clock authorization oid st) = Json b" for b
  proof -
    from b obtain h c where h: "mh_from_hex ?C oid = Inr h" "authorize E clock authorization internal_need = Inr c"
      by (auto simp: get_blob_state_def json_error_def respond_def Let_def split_def split: sum.splits)
    show ?thesis
    proof (cases "get_file_size (cs_index st) h")
      case (Some n)
      with b h have "b = \<lparr>bs_state = ''xet_only'', bs_xet_file_id = Some oid, bs_size = n, bs_sha256 = oid\<rparr>"
        by (simp add: get_blob_state_def http_ok_def)
      with backed_file_size [OF idx Some] h Some show ?thesis by (simp add: head_blob_def head_response_def)
    next
      case None
      with b h obtain n where n: "get_size (cas_backend E) (cs_storage st) (object_key_of oid) = Inr n"
          "b = \<lparr>bs_state = ''raw_only'', bs_xet_file_id = None, bs_size = n, bs_sha256 = oid\<rparr>"
        by (auto simp: get_blob_state_def http_ok_def json_error_def split: sum.splits StorageError.splits)
      have "obj_content (cs_storage st) (object_key_of oid) = Some d \<Longrightarrow> n = length d" for d
        using n(1) local_size_content [OF st] by (simp add: E local_backend_def)
      with n h None show ?thesis by (simp add: head_blob_def head_response_def)
    qed
  qed
  have "resp_status (head_blob E clock authorization oid st) = resp_status (get_blob_state E clock authorization oid st)"
    by (simp add: head_blob_def get_blob_state_def head_response_def http_ok_def json_error_def respond_def split_def Let_def
        split: sum.splits option.splits StorageError.splits)
  with chunk blob show ?thesis by blast
qed


section \<open>Reads, run\<close>

definition demo_object :: bytes where
  "demo_object = [1, 2, 3]"

definition demo_object_id :: string where
  "demo_object_id = hex_encode inst_crates (sha256 inst_crates demo_object)"

definition demo_read :: download_io where
  "demo_read = \<lparr>di_host = good_io, di_open = True, di_reader = (\<lambda>d. [Inr d])\<rparr>"

lemma demo_reader: "di_open demo_read" "reader_contract (di_reader demo_read)" "complete_stream (di_reader demo_read d)"
  by (simp_all add: demo_read_def reader_contract_def complete_stream_def payload_bytes_def)

lemma demo_id_hash: "\<exists>h. mh_from_hex inst_crates demo_object_id = Inr h" "is_hex_oid demo_object_id"
proof -
  have len: "length (pad_digest demo_object) = 32" by (simp add: pad_digest_def demo_object_def)
  obtain h where h: "mh_from_hex inst_crates demo_object_id = Inr h"
    using len inst_hex_contract by (simp add: mh_from_hex_def demo_object_id_def hex_contract_def)
  then show "\<exists>h. mh_from_hex inst_crates demo_object_id = Inr h" by blast
  show "is_hex_oid demo_object_id" by (rule mh_from_hex_oid [OF inst_hex_contract inst_hex_digits h])
qed

lemma lfs_path:
  assumes "hex_name a" shows "object_path (object_key_of a) = Inr [''lfs'', ''objects'', a]"
proof -
  have c: "\<forall>c\<in>set a. c \<noteq> CHR ''/'' \<and> c \<noteq> CHR ''.'' \<and> c \<noteq> BACKSLASH \<and> c \<noteq> NUL"
    using assms hexdigit_plain by (auto simp: hex_name_def list_all_iff)
  have "split_on (\<lambda>c. c = CHR ''/'') a = [a]" by (rule split_on_whole) (use c in blast)
  moreover have "split_on (\<lambda>c. c = CHR ''/'' \<or> c = BACKSLASH) a = [a]" by (rule split_on_whole) (use c in blast)
  moreover have "a \<noteq> []" using assms by (simp add: hex_name_def)
  moreover have "NUL \<notin> set a" "CHR ''.'' \<notin> set a" using c by blast+
  moreover from this(2) have "a \<noteq> ''.''" "a \<noteq> ''..''" by (metis list.set_intros(1))+
  ultimately show ?thesis by (simp add: object_key_of_def object_path_def path_components_def BACKSLASH_def NUL_def)
qed

lemma empty_store_lfs:
  assumes "hex_name a"
  shows "local_store_file True u empty_fs (object_key_of a) (Some d) =
      (Inr (), empty_fs([''lfs''] \<mapsto> FDir, [''lfs'', ''objects''] \<mapsto> FDir, [''lfs'', ''objects'', a] \<mapsto> FFile d))"
    "temp_fresh u empty_fs (object_key_of a)" "local_exists empty_fs (object_key_of a) = Inr False"
  unfolding local_store_file_def local_put_from_path_def local_exists_def temp_fresh_def lfs_path [OF assms]
  by (simp_all add: reject_symlink_components_def empty_fs_def symlink_metadata_def is_file_def prepare_parent_def create_dir_all_def
      canonicalize_confined_def unique_temp_path_def Let_def)

lemma demo_user_token:
  obtains token where "\<forall>need. allows (UserGrant {''read'', ''write''}) need \<longrightarrow>
    (\<exists>claims. authorize demo_cas (Some 1001) (Some (''Bearer '' @ token)) need = Inr claims)"
proof -
  let ?u = "\<lparr>xc_sub = ''u'', xc_scope = ''read write'', xc_repo_id = ''u/r'', xc_repo_type = ''model'', xc_revision = ''main'',
    xc_exp = 4600, xc_iat = 1000, xc_kid = ''kid'', xc_token_type = ''user'', xc_oid = None, xc_operation = None\<rparr>"
  obtain token where sign: "sign_claims inst_token_crates ?u ''key'' User = Inr token"
    using sign_claims_valid [of ?u User] by (auto simp: validate_claims_iff)
  have "trusts inst_token_crates demo_verifier ''kid'' ''key''" by (simp add: trusts_def demo_verifier_def inst_token_crates_def)
  moreover have "split_whitespace ''read write'' = [''read'', ''write'']" by (simp add: split_whitespace_def ws_len_def)
  ultimately have "admitted inst_token_crates Some demo_verifier 1001 token need" if "allows (UserGrant {''read'', ''write''}) need" for need
    using admitted_issued [OF inst_b64u_contract inst_json_contract inst_ed25519_contract sign, of demo_verifier Some 1001 need] that
    by (simp add: grant_of_def)
  with that show thesis by (auto simp: admitted_def authorize_def demo_cas_def)
qed

lemma demo_lfs_uploaded:
  assumes "authorize demo_cas (Some 1001) (Some (''Bearer '' @ token))
    (NeedLfsObject Upload demo_object_id ''Insufficient scope or invalid LFS upload token'') = Inr claims"
  shows "\<exists>st. upload_lfs_object demo_cas ''u'' demo_object_id (demo_upload token demo_object) demo_state =
    (http_ok (JsonMessage ''Object uploaded successfully''), st)"
proof -
  let ?rq = "demo_upload token demo_object"
  obtain tf st1 where recv: "(receive_upload demo_cas ?rq sh_update sh_new demo_state :: (upload_reply HttpResponse + _) \<times> _) =
      (Inr (sh_update sh_new demo_object, tf), st1)" "tf_data tf = demo_object" "cs_storage st1 = empty_fs"
    using demo_receive [of token demo_object sh_update sh_new] by auto
  have abs: "absorbed (sh_update sh_new demo_object) = demo_object" using received_hasher [OF recv(1)] recv(2) by simp
  have hash: "snd (dual_finalize inst_crates (sh_update sh_new demo_object)) = demo_object_id"
    using abs by (simp add: dual_finalize_def demo_object_id_def)
  note empty = empty_store_lfs [OF hex_name_oid [OF demo_id_hash(2)]]
  let ?p = "\<lparr>up_key = object_key_of demo_object_id, up_file = tf, up_registration = None, up_reply = JsonMessage ''Object uploaded successfully''\<rparr>"
  have cas: "cas_crates demo_cas = inst_crates" "obj_exists (cas_backend demo_cas) = local_exists" "cas_put_from_path demo_cas = local_store_file True"
    by (simp_all add: demo_cas_def local_backend_def)
  have "admit_lfs_object demo_cas demo_object_id ?rq demo_state = (Inr ?p, st1)"
    using assms recv hash empty(3) demo_id_hash(2)
    by (simp add: admit_lfs_object_def demo_upload_def [of token] cas split_def Let_def)
  then show ?thesis using recv empty(1) by (simp add: upload_lfs_object_def complete_upload_def finish_upload_def cas Let_def)
qed

theorem lfs_upload_then_download_witness:
  "\<exists>token st. upload_lfs_object demo_cas ''u'' demo_object_id (demo_upload token demo_object) demo_state =
       (http_ok (JsonMessage ''Object uploaded successfully''), st) \<and>
     download_lfs_object demo_cas demo_read True (Some 1001) (Some (''Bearer '' @ token)) demo_object_id st = (http_ok (Stream 3 [Inr [1, 2, 3]]), True)"
proof -
  obtain token where token: "\<forall>need. allows (UserGrant {''read'', ''write''}) need \<longrightarrow>
    (\<exists>claims. authorize demo_cas (Some 1001) (Some (''Bearer '' @ token)) need = Inr claims)" by (rule demo_user_token)
  obtain c1 c2 where auth: "authorize demo_cas (Some 1001) (Some (''Bearer '' @ token))
      (NeedLfsObject Upload demo_object_id ''Insufficient scope or invalid LFS upload token'') = Inr c1"
    "authorize demo_cas (Some 1001) (Some (''Bearer '' @ token))
      (NeedLfsObject Download demo_object_id ''Insufficient scope or invalid LFS download token'') = Inr c2"
    using token by (fastforce simp: user_allows_def)
  obtain st where up: "upload_lfs_object demo_cas ''u'' demo_object_id (demo_upload token demo_object) demo_state =
      (http_ok (JsonMessage ''Object uploaded successfully''), st)" using demo_lfs_uploaded [OF auth(1)] by blast
  obtain h where h: "mh_from_hex (cas_crates demo_cas) demo_object_id = Inr h" using demo_id_hash(1) by (auto simp: demo_cas_def)
  have cas: "cas_backend demo_cas = local_backend 0" "cas_put_from_path demo_cas = local_store_file True"
    "fs_ok (cs_storage demo_state)" "temp_fresh ''u'' (cs_storage demo_state) (object_key_of demo_object_id)"
    using empty_fs_ok empty_store_lfs(2) [OF hex_name_oid [OF demo_id_hash(2)]] by (simp_all add: demo_cas_def demo_state_def)
  have "payload_bytes (rq_payload (demo_upload token demo_object)) = demo_object" by (simp add: demo_upload_def payload_bytes_def)
  moreover have "di_reader demo_read demo_object = [Inr [1, 2, 3]]" "length demo_object = 3" "\<not> cas_verify_download_integrity demo_cas"
    by (simp_all add: demo_read_def demo_object_def demo_cas_def)
  ultimately have "download_lfs_object demo_cas demo_read True (Some 1001) (Some (''Bearer '' @ token)) demo_object_id st =
      (http_ok (Stream 3 [Inr [1, 2, 3]]), True)"
    using lfs_upload_then_download [OF cas up demo_reader h auth(2), of True] unfolding Let_def by simp
  with up show ?thesis by blast
qed


definition demo_stored :: "fs cas_state" where
  "demo_stored = \<lparr>cs_storage = empty_fs([''lfs''] \<mapsto> FDir, [''lfs'', ''objects''] \<mapsto> FDir, [''lfs'', ''objects'', demo_object_id] \<mapsto> FFile demo_object),
     cs_index = index_new, cs_ledger = None\<rparr>"

lemma demo_stored_facts:
  "fs_ok (cs_storage demo_stored)" "named_store inst_crates (obj_content (cs_storage demo_stored))"
  "obj_content (cs_storage demo_stored) (object_key_of demo_object_id) = Some demo_object"
proof -
  note name = hex_name_oid [OF demo_id_hash(2)]
  have put: "local_store_file True ''u'' empty_fs (object_key_of demo_object_id) (Some demo_object) = (Inr (), cs_storage demo_stored)"
    using empty_store_lfs(1) [OF name] by (simp add: demo_stored_def)
  have obj: "named_object inst_crates (object_key_of demo_object_id) demo_object"
    unfolding named_raw using demo_id_hash(2) by (simp add: demo_object_id_def)
  note at = empty_fs_ok empty_store_lfs(2) [OF name] put
  show "fs_ok (cs_storage demo_stored)" using local_uploads.putp_effect [OF at] by blast
  show "named_store inst_crates (obj_content (cs_storage demo_stored))"
    by (rule local_uploads.putp_named [OF inst_hex_contract inst_hex_digits at obj empty_store(1)])
  show "obj_content (cs_storage demo_stored) (object_key_of demo_object_id) = Some demo_object" by (rule local_uploads.putp_stored [OF at])
qed


definition described_cas :: "(string, string, fs, string) cas" where
  "described_cas = demo_cas\<lparr>cas_backend := (local_backend 0)\<lparr>download_to_path := (\<lambda>_. demo_storage)\<rparr>\<rparr>"

theorem reconstruction_lists_planned_xorbs_witness:
  "\<exists>h token st shard plan r.
     get_reconstruction described_cas (Some 1001) (Some (''Bearer '' @ token)) (mh_to_hex inst_crates h) st = http_ok (Json r) \<and>
     describes_plan inst_crates shard plan r"
proof -
  obtain token where token: "\<forall>need. allows (UserGrant {''read'', ''write''}) need \<longrightarrow>
    (\<exists>claims. authorize demo_cas (Some 1001) (Some (''Bearer '' @ token)) need = Inr claims)" by (rule demo_user_token)
  obtain c where auth: "authorize described_cas (Some 1001) (Some (''Bearer '' @ token)) (NeedScopeMsg ''read'' ''Insufficient scope, read required'') = Inr c"
    using token by (fastforce simp: user_allows_def authorize_def described_cas_def)
  obtain reg f where d: "process_shard inst_crates demo_storage ''shards/s'' = Some reg" "reg_files reg = [f]" by (rule demo_rebuild)
  let ?st = "\<lparr>cs_storage = empty_fs, cs_index = registered index_new reg, cs_ledger = None\<rparr>" and ?h = "vf_file_hash f"
  have "indexed reg (registered index_new reg)" by (rule register_indexed)
  then obtain refs where refs: "get_file_refs (registered index_new reg) ?h = Some refs" "ref_of (reg_shard_id reg) f \<in> set refs"
    unfolding indexed_def d(2) by auto
  have released: "ref_released inst_crates demo_storage ?h (ref_of (reg_shard_id reg) f)"
    unfolding ref_released_def using d by (metis append.simps list.set_intros(1))
  have E: "cas_crates described_cas = inst_crates" "download_to_path (cas_backend described_cas) = (\<lambda>_. demo_storage)"
    by (simp_all add: described_cas_def demo_cas_def)
  let ?resp = "get_reconstruction described_cas (Some 1001) (Some (''Bearer '' @ token)) (mh_to_hex inst_crates ?h) ?st"
  note both = reconstruction_lists_planned_xorbs [of described_cas "Some 1001" "Some (''Bearer '' @ token)" "mh_to_hex inst_crates ?h" ?st, OF refl]
  have ok: "resp_status ?resp = 200"
    using both auth refs released mh_from_to_hex [OF inst_hex_contract] inst_hex_contract inst_hex_digits by (auto simp: E)
  with both obtain shard plan r where "resp_body ?resp = Json r" "describes_plan inst_crates shard plan r" by (auto simp: E)
  moreover have "resp_headers ?resp = []"
    by (auto simp: get_reconstruction_def respond_def json_error_def http_ok_def Let_def split: sum.splits option.splits prod.splits)
  ultimately have "?resp = http_ok (Json r)" using ok by (cases ?resp) (simp add: http_ok_def)
  with \<open>describes_plan inst_crates shard plan r\<close> show ?thesis by blast
qed

theorem metadata_queries_truthful_witness:
  "\<exists>token. resp_body (get_blob_state demo_cas (Some 1001) (Some (''Bearer '' @ token)) demo_object_id demo_stored) =
       Json \<lparr>bs_state = ''raw_only'', bs_xet_file_id = None, bs_size = 3, bs_sha256 = demo_object_id\<rparr> \<and>
     (''X-Blob-Size'', ''3'') \<in> set (resp_headers (head_blob demo_cas (Some 1001) (Some (''Bearer '' @ token)) demo_object_id demo_stored))"
proof -
  obtain token where sign: "sign_internal inst_token_crates demo_signer (Some 1000) = Inr (token, 87400)" using demo_tokens by blast
  let ?c = "\<lparr>xc_sub = ''hub-service'', xc_scope = ''internal'', xc_repo_id = [], xc_repo_type = [], xc_revision = [],
    xc_exp = 87400, xc_iat = 1000, xc_kid = ''kid'', xc_token_type = ''internal'', xc_oid = None, xc_operation = None\<rparr>"
  have "trusts inst_token_crates demo_verifier ''kid'' ''key''" by (simp add: trusts_def demo_verifier_def inst_token_crates_def)
  moreover have "sign_claims inst_token_crates ?c ''key'' Internal = Inr token"
    using sign by (simp add: sign_internal_def signer_now_def expiration_def checked_add_def signer_Inr demo_signer_def new_signer_def new_with_internal_ttl_def)
  moreover have "split_whitespace ''internal'' = [''internal'']" by (simp add: split_whitespace_def ws_len_def)
  ultimately have "admitted inst_token_crates Some demo_verifier 1001 token internal_need"
    using admitted_issued [OF inst_b64u_contract inst_json_contract inst_ed25519_contract, of ?c "''key''" Internal token demo_verifier Some 1001 internal_need]
    by (simp add: grant_of_def has_scope_def)
  then obtain c where auth: "authorize demo_cas (Some 1001) (Some (''Bearer '' @ token)) internal_need = Inr c"
    by (auto simp: admitted_def authorize_def demo_cas_def)
  obtain h where h: "mh_from_hex inst_crates demo_object_id = Inr h" using demo_id_hash(1) by blast
  have E: "cas_backend demo_cas = local_backend 0" "cas_crates demo_cas = inst_crates" by (simp_all add: demo_cas_def)
  have "local_get_size 0 (cs_storage demo_stored) (object_key_of demo_object_id) = Inr 3"
    using local_size_content [OF demo_stored_facts(1,3)] by (simp add: demo_object_def)
  then have size3: "get_size (cas_backend demo_cas) (cs_storage demo_stored) (object_key_of demo_object_id) = Inr 3" by (simp add: E local_backend_def)
  have no: "get_file_size (cs_index demo_stored) h = None" by (simp add: demo_stored_def get_file_size_def index_new_def)
  have b: "resp_body (get_blob_state demo_cas (Some 1001) (Some (''Bearer '' @ token)) demo_object_id demo_stored) =
      Json \<lparr>bs_state = ''raw_only'', bs_xet_file_id = None, bs_size = 3, bs_sha256 = demo_object_id\<rparr>"
    using h auth size3 no by (simp add: get_blob_state_def E http_ok_def)
  have idx: "index_backed (cas_crates demo_cas) (local_download_to_path (cs_storage demo_stored)) (cs_index demo_stored)"
    using index_new_backed by (simp add: demo_stored_def)
  have "show_nat 3 = ''3''" by code_simp
  moreover have "(''X-Blob-Size'', show_nat 3) \<in> set (resp_headers (head_blob demo_cas (Some 1001) (Some (''Bearer '' @ token)) demo_object_id demo_stored))"
    using metadata_queries_truthful [OF E(1) demo_stored_facts(1) idx, THEN conjunct2, THEN conjunct1, THEN spec, THEN mp, OF b]
    by (elim exE conjE) simp
  ultimately have "(''X-Blob-Size'', ''3'') \<in> set (resp_headers (head_blob demo_cas (Some 1001) (Some (''Bearer '' @ token)) demo_object_id demo_stored))" by simp
  with b show ?thesis by blast
qed

end
