(* ===== verification/Cas_Batch.thy ===== *)
theory Cas_Batch
  imports Cas_Download
begin

text \<open>
  The Git LFS batch endpoint of the storage server (\<^verbatim>\<open>src/src/api/batch.rs\<close>): it answers a list of
  objects with one action each, whose address and token the client uses at the upload and download
  endpoints. The clock is read once per use: \<open>clock 0\<close> at the guard, \<open>clock 1\<close> for the
  lifetime of the caller's token and \<open>clock (i + 2)\<close> when the token of object \<open>i\<close> is signed.
\<close>

section \<open>Requests and answers\<close>

record BatchObject =
  bo_oid :: string
  bo_size :: u64

record BatchRequest =
  br_operation :: string
  br_transfers :: "string list option"
  br_objects :: "BatchObject list"

record BatchAction =
  ba_href :: string
  ba_header :: "string \<rightharpoonup> string"
  ba_expires_in :: u64

record BatchActions =
  acts_upload :: "BatchAction option"
  acts_download :: "BatchAction option"

record BatchError =
  be_code :: u32
  be_message :: string

record BatchResponseObject =
  bro_oid :: string
  bro_size :: u64
  bro_authenticated :: bool
  bro_actions :: "BatchActions option"
  bro_error :: "BatchError option"

record BatchResponse =
  brs_transfer :: string
  brs_objects :: "BatchResponseObject list"

definition MAX_BATCH_SIZE :: nat where
  "MAX_BATCH_SIZE = 1000"

definition json_message :: "nat \<Rightarrow> string \<Rightarrow> 'b HttpResponse" where
  "json_message status msg = \<lparr>resp_status = status, resp_headers = [], resp_body = JsonMessage msg\<rparr>"

definition respond_message :: "AuthReject \<Rightarrow> 'b HttpResponse" where
  "respond_message rej = (let (code, msg) = message_parts rej in json_message (if code = 403 then 403 else 401) msg)"

definition base_url :: "('sk, 'pk, 's, 'u) cas \<Rightarrow> string" where
  "base_url E =
     rev (dropWhile (\<lambda>c. c = CHR ''/'')
       (rev (case cas_public_base_url E of
               Some url \<Rightarrow> url
             | None \<Rightarrow> ''http://'' @ cas_host E @ '':'' @ show_nat (unat (cas_port E)))))"

section \<open>The handler\<close>

definition batch_failure :: "BatchObject \<Rightarrow> u32 \<Rightarrow> string \<Rightarrow> BatchResponseObject" where
  "batch_failure obj code message =
     \<lparr>bro_oid = bo_oid obj, bro_size = bo_size obj, bro_authenticated = False, bro_actions = None,
      bro_error = Some \<lparr>be_code = code, be_message = message\<rparr>\<rparr>"

definition batch_object ::
  "('sk, 'pk, 's, 'u) cas \<Rightarrow> u64 option \<Rightarrow> string \<Rightarrow> XetClaims \<Rightarrow> string \<Rightarrow> u64 \<Rightarrow> BatchObject \<Rightarrow> BatchResponseObject" where
  "batch_object E clock operation claims token caller_expires_in obj =
     (if \<not> is_hex_oid (bo_oid obj) then batch_failure obj 422 ''Invalid OID format: expected 64-character hex string''
      else
        let granted =
          (if can_sign_proxy_tokens (cas_auth E) then
             (case sign_proxy_token (cas_tokens E) (cas_auth E) clock (xc_sub claims) (bo_oid obj) operation of
                Some proxy \<Rightarrow> Some (sp_token proxy, sp_expires_in proxy)
              | None \<Rightarrow> None)
           else Some (token, caller_expires_in)) in
        case granted of
          None \<Rightarrow> batch_failure obj 500 ''Internal error: failed to generate action token''
        | Some (auth_token_for_action, action_expires_in) \<Rightarrow>
            let url = base_url E @ ''/lfs/objects/'' @ bo_oid obj;
                headers = [''Authorization'' \<mapsto> ''Bearer '' @ auth_token_for_action] in
            if operation = ''upload'' then
              \<lparr>bro_oid = bo_oid obj, bro_size = bo_size obj, bro_authenticated = True,
               bro_actions = Some \<lparr>acts_upload = Some \<lparr>ba_href = url, ba_header = headers(''Content-Type'' \<mapsto> ''application/octet-stream''),
                 ba_expires_in = action_expires_in\<rparr>, acts_download = None\<rparr>,
               bro_error = None\<rparr>
            else if operation = ''download'' then
              \<lparr>bro_oid = bo_oid obj, bro_size = bo_size obj, bro_authenticated = True,
               bro_actions = Some \<lparr>acts_upload = None, acts_download = Some \<lparr>ba_href = url, ba_header = headers, ba_expires_in = action_expires_in\<rparr>\<rparr>,
               bro_error = None\<rparr>
            else batch_failure obj 400 ''Unknown operation'')"

definition batch_operation ::
  "('sk, 'pk, 's, 'u) cas \<Rightarrow> (nat \<Rightarrow> u64 option) \<Rightarrow> string option \<Rightarrow> BatchRequest \<Rightarrow> BatchResponse HttpResponse" where
  "batch_operation E clock authorization body =
     (case (if br_operation body = ''upload'' then Some ''write''
            else if br_operation body = ''download'' then Some ''read'' else None) of
        None \<Rightarrow> json_message 400 ''Unknown operation''
      | Some required_scope \<Rightarrow>
     if length (br_objects body) > MAX_BATCH_SIZE then json_message 400 ''Too many objects''
     else if (case br_transfers body of None \<Rightarrow> False | Some transfers \<Rightarrow> transfers \<noteq> [] \<and> ''basic'' \<notin> set transfers)
     then json_message 400 ''Unsupported transfer protocol''
     else case authorize E (clock 0) authorization (NeedScope required_scope) of
       Inl rej \<Rightarrow> respond_message rej
     | Inr claims \<Rightarrow>
         (let token = (case extract_token_from_request (cas_decode E) authorization of None \<Rightarrow> [] | Some token \<Rightarrow> token);
              now_secs = (case clock 1 of None \<Rightarrow> 0 | Some t \<Rightarrow> t);
              caller_expires_in = max (if now_secs \<le> xc_exp claims then xc_exp claims - now_secs else 0) 1;
              response_objects = map (\<lambda>(i, obj). batch_object E (clock (i + 2)) (br_operation body) claims token caller_expires_in obj)
                (enumerate 0 (br_objects body))
          in http_ok (Json \<lparr>brs_transfer = ''basic'', brs_objects = response_objects\<rparr>)))"


section \<open>Action tokens\<close>

lemma hex_oid_not_blank: "is_hex_oid oid \<Longrightarrow> \<not> blank oid"
proof -
  assume "is_hex_oid oid"
  then obtain c s where s: "oid = c # s" "is_ascii_hexdigit c" by (cases oid) (auto simp: is_hex_oid_def)
  define n where "n = (of_char c :: nat)"
  have n: "48 \<le> n" "n \<le> 102" using s(2) unfolding is_ascii_hexdigit_def Let_def n_def [symmetric] by linarith+
  have "ws_len oid = 0" unfolding ws_len_def s(1) list.map n_def [symmetric] using n by (simp split: list.split)
  with s show ?thesis by (subst blank.simps) simp
qed

lemma trusted_kid:
  assumes "from_config K F cfg = Inr V" "trusts K V kid sk" shows "kid \<noteq> []"
proof -
  obtain paths keys where p: "verification_key_paths cfg = Inr paths" "load_keys F paths = Inr keys" "av_verification_keys V = keys"
    using assms(1) unfolding from_config_def by (auto simp: result_simps)
  have "kid \<in> set (map fst keys)" using assms(2) p(3) by (force simp: trusts_def find_Some_iff)
  then have "\<not> blank kid" using load_keys_kids [OF p(2)] key_paths_kids(3) [OF p(1)] by metis
  then show ?thesis by (metis blank.simps)
qed

text \<open>The operation a batch asks for.\<close>

definition batch_op :: "string \<Rightarrow> LfsOperation" where
  "batch_op operation = (if operation = ''upload'' then Upload else Download)"

text \<open>A configured signer signs a token for every well-formed identifier; the guard admits it for this object only.\<close>

lemma action_token:
  assumes K: "b64u_contract K" "json_contract K" "ed25519_contract K" and cfg: "from_config K F cfg = Inr V"
    and op: "operation \<in> {''upload'', ''download''}" and oid: "is_hex_oid oid" and key: "can_sign_proxy_tokens V" and time: "unat t + 300 < 2 ^ 64"
  shows "\<exists>p. sign_proxy_token K V (Some t) sub oid operation = Some p \<and> sp_expires_in p = 300 \<and>
    (\<forall>decode now need. admitted K decode V now (sp_token p) need \<longleftrightarrow>
       unat t \<le> unat now \<and> unat now < unat t + 300 \<and> allows (ProxyGrant (batch_op operation) oid) need)"
proof -
  obtain sk where sk: "av_signing_key V = Some sk" using key by (auto simp: can_sign_proxy_tokens_def)
  obtain kid where kid: "av_signing_kid V = Some kid" "trusts K V kid sk" by (rule from_config_signer [OF cfg sk])
  let ?p = "\<lparr>xc_sub = sub, xc_scope = ''lfs-'' @ operation, xc_repo_id = [], xc_repo_type = [], xc_revision = [],
    xc_exp = t + 300, xc_iat = t, xc_kid = kid, xc_token_type = ''proxy'', xc_oid = Some oid, xc_operation = Some operation\<rparr>"
  have exp: "unat (t + 300) = unat t + 300" using time by (simp add: unat_word_ariths)
  have "validate_claims_for_kind ?p Proxy = Inr ()"
    unfolding validate_claims_iff using exp hex_oid_not_blank [OF oid] trusted_kid [OF cfg kid(2)] op by simp
  then obtain token where token: "sign_claims K ?p sk Proxy = Inr token" using sign_claims_iff [OF K(2)] by blast
  then have "sign_proxy_token K V (Some t) sub oid operation = Some \<lparr>sp_token = token, sp_exp = t + 300, sp_expires_in = 300\<rparr>"
    using sk kid by (simp add: sign_proxy_token_def PROXY_TOKEN_TTL_SECONDS_def Let_def)
  moreover have "admitted K decode V now token need \<longleftrightarrow>
      unat t \<le> unat now \<and> unat now < unat t + 300 \<and> allows (ProxyGrant (batch_op operation) oid) need" for decode now need
    using admitted_issued [OF K token, of V decode now need] kid(2) exp op
    by (auto simp: grant_of_def batch_op_def word_le_nat_alt word_less_nat_alt)
  ultimately show ?thesis by simp
qed

text \<open>The action of an answered object: one, for the operation asked for, at the object's address.\<close>

definition only_action :: "string \<Rightarrow> BatchResponseObject \<Rightarrow> BatchAction option" where
  "only_action operation ro =
     (case bro_actions ro of
        None \<Rightarrow> None
      | Some acts \<Rightarrow>
          if operation = ''upload'' then (if acts_download acts = None then acts_upload acts else None)
          else (if acts_upload acts = None then acts_download acts else None))"

lemma batch_object_granted:
  assumes "operation \<in> {''upload'', ''download''}" "is_hex_oid (bo_oid obj)"
    and "if can_sign_proxy_tokens (cas_auth E)
         then sign_proxy_token (cas_tokens E) (cas_auth E) clock (xc_sub claims) (bo_oid obj) operation = Some p \<and> tok = sp_token p \<and> expires = sp_expires_in p
         else tok = token \<and> expires = caller_expires_in"
  shows "\<exists>act. only_action operation (batch_object E clock operation claims token caller_expires_in obj) = Some act \<and>
    ba_href act = base_url E @ ''/lfs/objects/'' @ bo_oid obj \<and> ba_header act ''Authorization'' = Some (''Bearer '' @ tok) \<and>
    ba_expires_in act = expires \<and> bro_error (batch_object E clock operation claims token caller_expires_in obj) = None"
  using assms by (auto simp: batch_object_def only_action_def Let_def split: if_splits)

lemma batch_object_names: "bro_oid (batch_object E clock operation claims token n obj) = bo_oid obj"
    "bro_size (batch_object E clock operation claims token n obj) = bo_size obj"
  by (simp_all add: batch_object_def batch_failure_def Let_def split: option.splits prod.splits)

lemma batch_object_malformed:
  "\<not> is_hex_oid (bo_oid obj) \<Longrightarrow> bro_actions (batch_object E clock operation claims token n obj) = None \<and>
     map_option be_code (bro_error (batch_object E clock operation claims token n obj)) = Some 422"
  by (simp add: batch_object_def batch_failure_def)

lemma batch_operation_ok:
  assumes "resp_status (batch_operation E clock authorization body) = 200"
  obtains claims token n where "br_operation body \<in> {''upload'', ''download''}" "length (br_objects body) \<le> 1000"
    "authorize E (clock 0) authorization (NeedScope (if br_operation body = ''upload'' then ''write'' else ''read'')) = Inr claims"
    "extract_token_from_request (cas_decode E) authorization = Some token" "n > 0"
    "batch_operation E clock authorization body = http_ok (Json \<lparr>brs_transfer = ''basic'',
       brs_objects = map (\<lambda>(i, obj). batch_object E (clock (i + 2)) (br_operation body) claims token n obj) (enumerate 0 (br_objects body))\<rparr>)"
proof -
  have rej: "resp_status (respond_message r :: BatchResponse HttpResponse) \<noteq> 200" for r by (simp add: respond_message_def json_message_def split_def Let_def)
  have op: "br_operation body \<in> {''upload'', ''download''}"
    using assms by (auto simp: batch_operation_def json_message_def split: if_splits)
  let ?need = "NeedScope (if br_operation body = ''upload'' then ''write'' else ''read'')"
  have len: "length (br_objects body) \<le> 1000"
    using assms op by (cases "length (br_objects body) > MAX_BATCH_SIZE") (auto simp: batch_operation_def json_message_def MAX_BATCH_SIZE_def)
  have tr: "\<not> (case br_transfers body of None \<Rightarrow> False | Some transfers \<Rightarrow> transfers \<noteq> [] \<and> ''basic'' \<notin> set transfers)"
    using assms op len
    by (cases "case br_transfers body of None \<Rightarrow> False | Some transfers \<Rightarrow> transfers \<noteq> [] \<and> ''basic'' \<notin> set transfers")
       (auto simp: batch_operation_def json_message_def MAX_BATCH_SIZE_def)
  have scope: "(if br_operation body = ''upload'' then Some ''write'' else if br_operation body = ''download'' then Some ''read'' else None) =
      Some (if br_operation body = ''upload'' then ''write'' else ''read'')" using op by auto
  have eq: "batch_operation E clock authorization body = (case authorize E (clock 0) authorization ?need of
       Inl rej \<Rightarrow> respond_message rej
     | Inr claims \<Rightarrow>
         (let token = (case extract_token_from_request (cas_decode E) authorization of None \<Rightarrow> [] | Some token \<Rightarrow> token);
              now_secs = (case clock 1 of None \<Rightarrow> 0 | Some t \<Rightarrow> t);
              caller_expires_in = max (if now_secs \<le> xc_exp claims then xc_exp claims - now_secs else 0) 1
          in http_ok (Json \<lparr>brs_transfer = ''basic'', brs_objects = map (\<lambda>(i, obj). batch_object E (clock (i + 2)) (br_operation body) claims token caller_expires_in obj)
                (enumerate 0 (br_objects body))\<rparr>)))"
    unfolding batch_operation_def scope option.case if_not_P [OF tr] Let_def using len by (simp add: MAX_BATCH_SIZE_def)
  obtain claims where claims: "authorize E (clock 0) authorization ?need = Inr claims"
    using assms rej unfolding eq by (cases "authorize E (clock 0) authorization ?need") simp_all
  obtain token where token: "extract_token_from_request (cas_decode E) authorization = Some token"
    using claims by (auto simp: authorize_def require_auth_def result_simps)
  have pos: "max x 1 > (0 :: u64)" for x by (simp add: max_def word_less_nat_alt word_le_nat_alt) 
  show thesis using that [OF op len claims token pos] claims token unfolding eq by (simp add: Let_def)
qed

text \<open>What the answer says of one object, whose token is signed at \<open>t\<close>.\<close>

definition answers_object ::
  "('sk, 'pk, 's, 'u) cas \<Rightarrow> u64 \<Rightarrow> string \<Rightarrow> string \<Rightarrow> BatchObject \<Rightarrow> BatchResponseObject \<Rightarrow> bool" where
  "answers_object E t operation token obj ro \<longleftrightarrow>
     bro_oid ro = bo_oid obj \<and> bro_size ro = bo_size obj \<and>
     (if \<not> is_hex_oid (bo_oid obj) then bro_actions ro = None \<and> map_option be_code (bro_error ro) = Some 422
      else \<exists>act tok. only_action operation ro = Some act \<and> bro_error ro = None \<and>
        ba_href act = base_url E @ ''/lfs/objects/'' @ bo_oid obj \<and> ba_header act ''Authorization'' = Some (''Bearer '' @ tok) \<and>
        (if can_sign_proxy_tokens (cas_auth E)
         then ba_expires_in act = 300 \<and>
           (\<forall>decode now need. admitted (cas_tokens E) decode (cas_auth E) now tok need \<longleftrightarrow>
              unat t \<le> unat now \<and> unat now < unat t + 300 \<and> allows (ProxyGrant (batch_op operation) (bo_oid obj)) need)
         else tok = token))"

lemma batch_object_answers:
  assumes K: "b64u_contract (cas_tokens E)" "json_contract (cas_tokens E)" "ed25519_contract (cas_tokens E)"
    and cfg: "from_config (cas_tokens E) F cfg = Inr (cas_auth E)"
    and op: "operation \<in> {''upload'', ''download''}" and t: "unat t + 300 < 2 ^ 64"
  shows "answers_object E t operation token obj (batch_object E (Some t) operation claims token n obj)"
proof (cases "is_hex_oid (bo_oid obj)")
  case False
  then show ?thesis unfolding answers_object_def batch_object_names using batch_object_malformed [OF False] by simp
next
  case hex: True
  show ?thesis
  proof (cases "can_sign_proxy_tokens (cas_auth E)")
    case True
    obtain p where p: "sign_proxy_token (cas_tokens E) (cas_auth E) (Some t) (xc_sub claims) (bo_oid obj) operation = Some p" "sp_expires_in p = 300"
      "\<forall>decode now need. admitted (cas_tokens E) decode (cas_auth E) now (sp_token p) need \<longleftrightarrow>
         unat t \<le> unat now \<and> unat now < unat t + 300 \<and> allows (ProxyGrant (batch_op operation) (bo_oid obj)) need"
      using action_token [OF K cfg op hex True t] by blast
    from batch_object_granted [OF op hex, of E "Some t" claims p "sp_token p" 300 token n] True p(1,2)
    obtain act where "only_action operation (batch_object E (Some t) operation claims token n obj) = Some act"
      "bro_error (batch_object E (Some t) operation claims token n obj) = None"
      "ba_href act = base_url E @ ''/lfs/objects/'' @ bo_oid obj" "ba_header act ''Authorization'' = Some (''Bearer '' @ sp_token p)"
      "ba_expires_in act = 300" by auto
    with p(3) True hex show ?thesis unfolding answers_object_def batch_object_names by auto
  next
    case False
    from batch_object_granted [OF op hex, of E "Some t" claims _ token n token n] False
    obtain act where "only_action operation (batch_object E (Some t) operation claims token n obj) = Some act"
      "bro_error (batch_object E (Some t) operation claims token n obj) = None"
      "ba_href act = base_url E @ ''/lfs/objects/'' @ bo_oid obj" "ba_header act ''Authorization'' = Some (''Bearer '' @ token)" by auto
    with False hex show ?thesis unfolding answers_object_def batch_object_names by auto
  qed
qed



section \<open>A batch, run\<close>

definition signing_verifier :: "(string, string) AuthVerifier" where
  "signing_verifier = \<lparr>av_verification_keys = [(''kid'', ''key'')], av_signing_key = Some ''key'', av_signing_kid = Some ''kid''\<rparr>"

definition signing_cas :: "(string, string, fs, string) cas" where
  "signing_cas = demo_cas\<lparr>cas_auth := signing_verifier\<rparr>"

definition demo_batch :: BatchRequest where
  "demo_batch = \<lparr>br_operation = ''download'', br_transfers = None,
     br_objects = [\<lparr>bo_oid = demo_object_id, bo_size = 3\<rparr>, \<lparr>bo_oid = ''x'', bo_size = 3\<rparr>]\<rparr>"

lemma signing_config: "from_config inst_token_crates demo_keys auth_demo_config = Inr signing_verifier"
  by (simp add: from_config_def verification_key_paths_def validate_auth_config_def auth_demo_config_def demo_keys_def not_blank_demo
      effective_signing_kid_def public_key_from_pem_def private_key_from_pem_def inst_token_crates_def signing_verifier_def)

lemma signing_read_token: "\<exists>token claims. authorize signing_cas (Some 1001) (Some (''Bearer '' @ token)) (NeedScope ''read'') = Inr claims"
proof -
  let ?u = "\<lparr>xc_sub = ''u'', xc_scope = ''read'', xc_repo_id = ''u/r'', xc_repo_type = ''model'', xc_revision = ''main'',
    xc_exp = 4600, xc_iat = 1000, xc_kid = ''kid'', xc_token_type = ''user'', xc_oid = None, xc_operation = None\<rparr>"
  obtain token where sign: "sign_claims inst_token_crates ?u ''key'' User = Inr token"
    using sign_claims_valid [of ?u User] by (auto simp: validate_claims_iff)
  have "trusts inst_token_crates signing_verifier ''kid'' ''key''" by (simp add: trusts_def signing_verifier_def inst_token_crates_def)
  moreover have "split_whitespace ''read'' = [''read'']" by (simp add: split_whitespace_def ws_len_def)
  ultimately have "admitted inst_token_crates Some signing_verifier 1001 token (NeedScope ''read'')"
    using admitted_issued [OF inst_b64u_contract inst_json_contract inst_ed25519_contract sign, of signing_verifier Some 1001 "NeedScope ''read''"]
    by (simp add: grant_of_def user_allows_def)
  then show ?thesis by (auto simp: admitted_def authorize_def signing_cas_def demo_cas_def)
qed


end
