(* ===== verification/Hub_Access.thy ===== *)
theory Hub_Access
  imports Hub_Commit Cas_Batch
begin

text \<open>
  Users of the front end and what they may do: the token table (\<^verbatim>\<open>src/hub/src/auth/token_store.rs\<close>), the
  extractor that guards handlers (\<^verbatim>\<open>src/hub/src/auth/extract.rs\<close>), and the services that hand out tokens for the
  storage server, prepare uploads and report the caller
  (\<^verbatim>\<open>src/hub/src/services/token_exchange.rs\<close>, \<^verbatim>\<open>preupload.rs\<close>, \<^verbatim>\<open>whoami.rs\<close>) with their handlers under \<^verbatim>\<open>src/hub/src/api\<close>.

  HMAC-SHA-256 and the random part of a token are parameters. A statement fails in the driver by its
  position in the operation, as in \<open>Hub_Metadata\<close>.
\<close>

section \<open>The token table\<close>

record TokenInfo =
  ti_user_id :: string
  ti_username :: string
  ti_token_name :: string
  ti_scope :: string

record user_row =
  us_user_id :: string
  us_username :: string
  us_created_at :: int

record token_row =
  tk_token_hash :: string
  tk_user_id :: string
  tk_name :: string
  tk_scope :: string
  tk_created_at :: int
  tk_expires_at :: "int option"
  tk_revoked_at :: "int option"

record token_db =
  td_users :: "user_row list"
  td_tokens :: "token_row list"
  td_config :: "(string \<times> string) list"

definition token_db_empty :: token_db where
  "token_db_empty = \<lparr>td_users = [], td_tokens = [], td_config = []\<rparr>"

text \<open>The salt, the keyed hash and the hexadecimal encoding of its output.\<close>

record TokenStore =
  ts_hash_salt :: string
  ts_hmac :: "string \<Rightarrow> string \<Rightarrow> bytes"
  ts_hex :: "bytes \<Rightarrow> string"

definition hash_token :: "TokenStore \<Rightarrow> string \<Rightarrow> string" where
  "hash_token self token = ts_hex self (ts_hmac self (ts_hash_salt self) token)"

definition find_token :: "token_db \<Rightarrow> string \<Rightarrow> token_row option" where
  "find_token db h = find (\<lambda>t. tk_token_hash t = h) (td_tokens db)"

definition find_user :: "token_db \<Rightarrow> string \<Rightarrow> user_row option" where
  "find_user db uid = find (\<lambda>u. us_user_id u = uid) (td_users db)"

definition insert_user_sql :: "user_row \<Rightarrow> token_db \<Rightarrow> sqlx_error + token_db" where
  "insert_user_sql u db =
     (if list_ex (\<lambda>v. us_user_id v = us_user_id u \<or> us_username v = us_username u) (td_users db) then Inl UniqueViolation
      else Inr (db\<lparr>td_users := td_users db @ [u]\<rparr>))"

definition insert_token_sql :: "token_row \<Rightarrow> token_db \<Rightarrow> sqlx_error + token_db" where
  "insert_token_sql t db =
     (if list_ex (\<lambda>v. tk_token_hash v = tk_token_hash t) (td_tokens db) then Inl UniqueViolation
      else if find_user db (tk_user_id t) = None then Inl ForeignKeyViolation
      else Inr (db\<lparr>td_tokens := td_tokens db @ [t]\<rparr>))"

definition update_tokens :: "(token_row \<Rightarrow> bool) \<Rightarrow> (token_row \<Rightarrow> token_row) \<Rightarrow> token_db \<Rightarrow> token_db" where
  "update_tokens P f db = db\<lparr>td_tokens := map (\<lambda>t. if P t then f t else t) (td_tokens db)\<rparr>"

text \<open>A cast of an unsigned to a signed integer.\<close>

definition as_i64 :: "u64 \<Rightarrow> int" where
  "as_i64 n = sint n"

definition new_token :: "string \<Rightarrow> string" where
  "new_token uuid = ''hf_'' @ filter (\<lambda>c. c \<noteq> CHR ''-'') uuid"

definition create_token ::
  "TokenStore \<Rightarrow> (nat \<Rightarrow> bool) \<Rightarrow> string \<Rightarrow> u64 \<Rightarrow> string \<Rightarrow> string \<Rightarrow> string \<Rightarrow> token_db \<Rightarrow> (sqlx_error + string) \<times> token_db" where
  "create_token self fault uuid now username token_name scope db =
     (let token = new_token uuid; token_hash = hash_token self token in
      if fault 0 \<or> fault 1 then (Inl DriverError, db)
      else
        let (user_id, created) =
          (case find (\<lambda>u. us_username u = username) (td_users db) of
             Some existing \<Rightarrow> (us_user_id existing, Inr db)
           | None \<Rightarrow>
               (let user_id = ''user_'' @ take 16 token_hash in
                (user_id, if fault 2 then Inl DriverError
                   else insert_user_sql \<lparr>us_user_id = user_id, us_username = username, us_created_at = as_i64 now\<rparr> db))) in
        case created of
          Inl e \<Rightarrow> (Inl e, db)
        | Inr db1 \<Rightarrow>
            if fault 3 then (Inl DriverError, db)
            else (case insert_token_sql \<lparr>tk_token_hash = token_hash, tk_user_id = user_id, tk_name = token_name, tk_scope = scope,
                      tk_created_at = as_i64 now, tk_expires_at = None, tk_revoked_at = None\<rparr> db1 of
               Inl e \<Rightarrow> (Inl e, db)
             | Inr db2 \<Rightarrow> if fault 4 then (Inl DriverError, db) else (Inr token, db2)))"

definition create_token_for_user ::
  "TokenStore \<Rightarrow> (nat \<Rightarrow> bool) \<Rightarrow> string \<Rightarrow> u64 \<Rightarrow> string \<Rightarrow> string \<Rightarrow> string \<Rightarrow> token_db \<Rightarrow> (sqlx_error + string) \<times> token_db" where
  "create_token_for_user self fault uuid now user_id token_name scope db =
     (let token = new_token uuid; token_hash = hash_token self token in
      if fault 0 then (Inl DriverError, db)
      else (case insert_token_sql \<lparr>tk_token_hash = token_hash, tk_user_id = user_id, tk_name = token_name, tk_scope = scope,
                tk_created_at = as_i64 now, tk_expires_at = None, tk_revoked_at = None\<rparr> db of
         Inl e \<Rightarrow> (Inl e, db)
       | Inr db1 \<Rightarrow> (Inr token, db1)))"

definition validate_token :: "TokenStore \<Rightarrow> (nat \<Rightarrow> bool) \<Rightarrow> u64 \<Rightarrow> string \<Rightarrow> token_db \<Rightarrow> sqlx_error + TokenInfo option" where
  "validate_token self fault now token db =
     (if fault 0 then Inl DriverError
      else case find_token db (hash_token self token) of
        None \<Rightarrow> Inr None
      | Some t \<Rightarrow>
          (case find_user db (tk_user_id t) of
             None \<Rightarrow> Inr None
           | Some u \<Rightarrow>
               if tk_revoked_at t \<noteq> None then Inr None
               else if (case tk_expires_at t of None \<Rightarrow> False | Some expiry \<Rightarrow> expiry < as_i64 now) then Inr None
               else Inr (Some \<lparr>ti_user_id = us_user_id u, ti_username = us_username u, ti_token_name = tk_name t, ti_scope = tk_scope t\<rparr>)))"

definition revoke_token :: "TokenStore \<Rightarrow> (nat \<Rightarrow> bool) \<Rightarrow> u64 \<Rightarrow> string \<Rightarrow> token_db \<Rightarrow> (sqlx_error + bool) \<times> token_db" where
  "revoke_token self fault now token db =
     (let P = (\<lambda>t. tk_token_hash t = hash_token self token \<and> tk_revoked_at t = None) in
      if fault 0 then (Inl DriverError, db)
      else (Inr (list_ex P (td_tokens db)), update_tokens P (\<lambda>t. t\<lparr>tk_revoked_at := Some (as_i64 now)\<rparr>) db))"

definition set_token_expiration :: "TokenStore \<Rightarrow> (nat \<Rightarrow> bool) \<Rightarrow> string \<Rightarrow> u64 \<Rightarrow> token_db \<Rightarrow> (sqlx_error + unit) \<times> token_db" where
  "set_token_expiration self fault token expires_at db =
     (if fault 0 then (Inl DriverError, db)
      else (Inr (), update_tokens (\<lambda>t. tk_token_hash t = hash_token self token) (\<lambda>t. t\<lparr>tk_expires_at := Some (as_i64 expires_at)\<rparr>) db))"

record TokenMetadata =
  tm_name :: string
  tm_scope :: string
  tm_created_at :: u64
  tm_expires_at :: "u64 option"
  tm_revoked_at :: "u64 option"

definition list_tokens_for_user :: "(nat \<Rightarrow> bool) \<Rightarrow> string \<Rightarrow> token_db \<Rightarrow> sqlx_error + TokenMetadata list" where
  "list_tokens_for_user fault user_id db =
     (if fault 0 then Inl DriverError
      else Inr (map (\<lambda>row. \<lparr>tm_name = tk_name row, tm_scope = tk_scope row, tm_created_at = word_of_int (tk_created_at row),
                 tm_expires_at = map_option word_of_int (tk_expires_at row), tm_revoked_at = map_option word_of_int (tk_revoked_at row)\<rparr>)
             (sort_key (\<lambda>row. - tk_created_at row) (filter (\<lambda>t. tk_user_id t = user_id) (td_tokens db)))))"

section \<open>The salt\<close>

text \<open>
  Without a configured salt, each process reads the salt of the database, or offers its own and
  reads again. The three statements of the processes interleave.
\<close>

definition SALT_KEY :: string where
  "SALT_KEY = ''token_hash_salt''"

definition load_salt :: "token_db \<Rightarrow> string option" where
  "load_salt db = map_of (td_config db) SALT_KEY"

definition offer_salt :: "string \<Rightarrow> token_db \<Rightarrow> token_db" where
  "offer_salt new_salt db = (if load_salt db = None then db\<lparr>td_config := td_config db @ [(SALT_KEY, new_salt)]\<rparr> else db)"

datatype salt_state = SaltStart | SaltMissing | SaltOffered | SaltReady string

fun salt_step :: "string \<Rightarrow> salt_state \<times> token_db \<Rightarrow> salt_state \<times> token_db" where
  "salt_step new_salt (SaltStart, db) = ((case load_salt db of Some salt \<Rightarrow> SaltReady salt | None \<Rightarrow> SaltMissing), db)"
| "salt_step new_salt (SaltMissing, db) = (SaltOffered, offer_salt new_salt db)"
| "salt_step new_salt (SaltOffered, db) = (SaltReady (case load_salt db of Some salt \<Rightarrow> salt | None \<Rightarrow> new_salt), db)"
| "salt_step new_salt (SaltReady salt, db) = (SaltReady salt, db)"

text \<open>A process alone.\<close>

definition get_or_generate_hash_salt :: "string \<Rightarrow> token_db \<Rightarrow> string \<times> token_db" where
  "get_or_generate_hash_salt new_salt db =
     (case (salt_step new_salt ^^ 3) (SaltStart, db) of
        (SaltReady salt, db) \<Rightarrow> (salt, db)
      | (_, db) \<Rightarrow> (new_salt, db))"

inductive salts :: "(nat \<Rightarrow> string) \<Rightarrow> (nat \<Rightarrow> salt_state) \<times> token_db \<Rightarrow> (nat \<Rightarrow> salt_state) \<times> token_db \<Rightarrow> bool" for new_salt where
  "salt_step (new_salt i) (ps i, db) = (p, db') \<Longrightarrow> salts new_salt (ps, db) (ps(i := p), db')"

section \<open>The guard of handlers\<close>

definition scope_allows :: "string \<Rightarrow> string \<Rightarrow> bool" where
  "scope_allows scope required_scope =
     (let has_required = list_ex (\<lambda>s. s = required_scope) (split_whitespace scope);
          write_implies_read = (required_scope = ''read'' \<and> list_ex (\<lambda>s. s = ''write'') (split_whitespace scope))
      in has_required \<or> write_implies_read)"

datatype ScopeRequirement = AuthAny | AuthRead | AuthWrite

fun scope_check :: "ScopeRequirement \<Rightarrow> TokenInfo \<Rightarrow> bool" where
  "scope_check AuthAny info = True"
| "scope_check AuthRead info = scope_allows (ti_scope info) ''read''"
| "scope_check AuthWrite info = scope_allows (ti_scope info) ''write''"

fun scope_description :: "ScopeRequirement \<Rightarrow> string" where
  "scope_description AuthAny = ''authenticated''"
| "scope_description AuthRead = ''read access''"
| "scope_description AuthWrite = ''write access''"

datatype HubAuthError = MissingHeader | HubInvalidToken | InsufficientScope string | AuthInternal sqlx_error

definition extract_bearer_from_request :: "string option \<Rightarrow> string option" where
  "extract_bearer_from_request authorization =
     Option.bind authorization (\<lambda>auth. Option.bind (header_to_str auth) (strip_prefix ''Bearer ''))"

definition auth_user ::
  "TokenStore \<Rightarrow> (nat \<Rightarrow> bool) \<Rightarrow> u64 \<Rightarrow> token_db \<Rightarrow> ScopeRequirement \<Rightarrow> string option \<Rightarrow> HubAuthError + TokenInfo" where
  "auth_user store fault now db S authorization =
     rbind (ok_or (extract_bearer_from_request authorization) MissingHeader) (\<lambda>token.
     rbind (map_err AuthInternal (validate_token store fault now token db)) (\<lambda>found.
     rbind (ok_or found HubInvalidToken) (\<lambda>info.
     if \<not> scope_check S info then Inl (InsufficientScope (scope_description S)) else Inr info)))"


section \<open>Answers\<close>

text \<open>An error body carries a message and an error type; the response of a handler is a value or such an error.\<close>

datatype 'a hub_reply = HubReply 'a | HubFailure nat string string

definition hub_internal_error :: "'a hub_reply" where
  "hub_internal_error = HubFailure 500 INTERNAL_ERROR_MESSAGE ''InternalError''"

fun auth_error_response :: "HubAuthError \<Rightarrow> 'a hub_reply" where
  "auth_error_response MissingHeader = HubFailure 401 ''Missing authorization'' ''AuthenticationError''"
| "auth_error_response HubInvalidToken = HubFailure 401 ''Invalid token'' ''AuthenticationError''"
| "auth_error_response (InsufficientScope required) = HubFailure 403 (''Insufficient scope: '' @ required @ '' required'') ''AuthorizationError''"
| "auth_error_response (AuthInternal _) = hub_internal_error"

section \<open>Token exchange\<close>

datatype TokenExchangeServiceError = TxNotFound string | TxInternal string

datatype ExchangeScope = Read | Write

fun exchange_scope_name :: "ExchangeScope \<Rightarrow> string" where
  "exchange_scope_name Read = ''read''"
| "exchange_scope_name Write = ''write''"

record TokenExchangeRequest =
  tx_user_id :: string
  tx_username :: string
  tx_namespace :: string
  tx_repo_name :: string
  tx_revision :: string
  tx_required_scope :: ExchangeScope
  tx_repo_type :: RepoType

fun can_exchange_repo :: "Repo \<Rightarrow> string \<Rightarrow> ExchangeScope \<Rightarrow> bool" where
  "can_exchange_repo repo username Read = can_access_repo repo username"
| "can_exchange_repo repo username Write = can_write_repo repo username"

definition tx_load_repo :: "db_env \<Rightarrow> hub_db \<Rightarrow> string \<Rightarrow> string \<Rightarrow> RepoType \<Rightarrow> TokenExchangeServiceError + Repo" where
  "tx_load_repo D db namespace repo_name repo_type =
     map_err (\<lambda>err. case err of RepoNotFound _ \<Rightarrow> TxNotFound (metadata_error_message err) | _ \<Rightarrow> TxInternal (metadata_error_message err))
       (get_repo D db namespace repo_name repo_type)"

definition resolve_exchange_revision :: "db_env \<Rightarrow> hub_db \<Rightarrow> int \<Rightarrow> string \<Rightarrow> TokenExchangeServiceError + string" where
  "resolve_exchange_revision D db repo_id revision =
     (if revision = ''main'' \<or> revision = [] then
        (case get_head D db repo_id of
           Inr (Some head) \<Rightarrow> Inr head
         | Inr None \<Rightarrow> Inr ''main''
         | Inl error \<Rightarrow> Inl (TxInternal (metadata_error_message error)))
      else Inr revision)"

text \<open>The two reads run on \<open>dbs 0\<close> and \<open>dbs 1\<close>, with faults \<open>D 0\<close> and \<open>D 1\<close>.\<close>

definition exchange ::
  "('sk, 'pk) token_crates \<Rightarrow> 'sk XetSigner \<Rightarrow> u64 option \<Rightarrow> (nat \<Rightarrow> db_env) \<Rightarrow> (nat \<Rightarrow> hub_db) \<Rightarrow> TokenExchangeRequest \<Rightarrow>
     TokenExchangeServiceError + (string \<times> u64)" where
  "exchange K signer clock D dbs request =
     rbind (tx_load_repo (D 0) (dbs 0) (tx_namespace request) (tx_repo_name request) (tx_repo_type request)) (\<lambda>repo.
     if \<not> can_exchange_repo repo (tx_username request) (tx_required_scope request) then Inl (TxNotFound ''Repository not found'')
     else
     rbind (resolve_exchange_revision (D 1) (dbs 1) (rp_id repo) (tx_revision request)) (\<lambda>revision.
     let repo_id = tx_namespace request @ ''/'' @ tx_repo_name request in
     map_err (\<lambda>err. TxInternal (''Failed to sign token: '' @ err))
       (sign K signer clock (tx_user_id request) (exchange_scope_name (tx_required_scope request)) repo_id
         (repo_type_name (tx_repo_type request)) revision)))"

record TokenExchangeResponse =
  xr_access_token :: string
  xr_exp :: u64
  xr_cas_url :: string

fun token_exchange_error_response :: "TokenExchangeServiceError \<Rightarrow> 'a hub_reply" where
  "token_exchange_error_response (TxNotFound msg) = HubFailure 404 msg ''NotFoundError''"
| "token_exchange_error_response (TxInternal msg) = hub_internal_error"

text \<open>What a handler of the front end is given.\<close>

record ('sk, 'pk) hub =
  hb_tokens :: TokenStore
  hb_token_crates :: "('sk, 'pk) token_crates"
  hb_signer :: "'sk XetSigner"
  hb_cas_url :: string
  hb_inline_threshold :: u64

definition do_exchange ::
  "('sk, 'pk) hub \<Rightarrow> u64 option \<Rightarrow> (nat \<Rightarrow> db_env) \<Rightarrow> (nat \<Rightarrow> hub_db) \<Rightarrow> RepoType \<Rightarrow> ExchangeScope \<Rightarrow> TokenInfo \<Rightarrow> string \<times> string \<times> string \<Rightarrow>
     TokenExchangeResponse hub_reply" where
  "do_exchange H clock D dbs repo_type required_scope info path =
     (let (namespace, repo, revision) = path in
      case exchange (hb_token_crates H) (hb_signer H) clock D dbs
          \<lparr>tx_user_id = ti_user_id info, tx_username = ti_username info, tx_namespace = namespace, tx_repo_name = repo,
           tx_revision = revision, tx_required_scope = required_scope, tx_repo_type = repo_type\<rparr> of
        Inl err \<Rightarrow> token_exchange_error_response err
      | Inr (access_token, expiry) \<Rightarrow> HubReply \<lparr>xr_access_token = access_token, xr_exp = expiry, xr_cas_url = hb_cas_url H\<rparr>)"

text \<open>The two handlers per repository type; \<open>now\<close> and \<open>fault\<close> are for the look-up of the caller's token.\<close>

definition exchange_handler ::
  "('sk, 'pk) hub \<Rightarrow> (nat \<Rightarrow> bool) \<Rightarrow> u64 \<Rightarrow> token_db \<Rightarrow> u64 option \<Rightarrow> (nat \<Rightarrow> db_env) \<Rightarrow> (nat \<Rightarrow> hub_db) \<Rightarrow> RepoType \<Rightarrow> ExchangeScope \<Rightarrow>
     string option \<Rightarrow> string \<times> string \<times> string \<Rightarrow> TokenExchangeResponse hub_reply" where
  "exchange_handler H fault now tdb clock D dbs repo_type scope authorization path =
     (case auth_user (hb_tokens H) fault now tdb (case scope of Read \<Rightarrow> AuthRead | Write \<Rightarrow> AuthWrite) authorization of
        Inl e \<Rightarrow> auth_error_response e
      | Inr info \<Rightarrow> do_exchange H clock D dbs repo_type scope info path)"

section \<open>Preparing an upload\<close>

definition MAX_PREUPLOAD_FILES :: nat where
  "MAX_PREUPLOAD_FILES = 10000"

datatype PreuploadServiceError = PuValidation string | PuForbidden string | PuNotFound string | PuInternal string

definition validate_preupload_file_count :: "nat \<Rightarrow> PreuploadServiceError + unit" where
  "validate_preupload_file_count file_count =
     (if file_count > MAX_PREUPLOAD_FILES then Inl (PuValidation ''Preupload request contains too many files'') else Inr ())"

datatype UploadMode = Regular | Lfs

record PreuploadFileInput =
  pu_path :: string
  pu_size :: u64

record PreuploadRequest =
  pr_username :: string
  pr_namespace :: string
  pr_repo_name :: string
  pr_repo_type :: RepoType
  pr_inline_threshold :: u64
  pr_files :: "PreuploadFileInput list"

record PreuploadFileDecision =
  pd_path :: string
  pd_upload_mode :: UploadMode
  pd_should_ignore :: bool

definition classify_upload_mode :: "u64 \<Rightarrow> u64 \<Rightarrow> UploadMode" where
  "classify_upload_mode sz inline_threshold = (if sz \<le> inline_threshold then Regular else Lfs)"

fun validate_preupload_paths :: "PreuploadFileInput list \<Rightarrow> PreuploadServiceError + unit" where
  "validate_preupload_paths [] = Inr ()"
| "validate_preupload_paths (f # files) =
     rbind (map_err PuValidation (validate_file_path (pu_path f))) (\<lambda>_. validate_preupload_paths files)"

definition prepare_upload :: "db_env \<Rightarrow> hub_db \<Rightarrow> PreuploadRequest \<Rightarrow> PreuploadServiceError + PreuploadFileDecision list" where
  "prepare_upload D db request =
     rbind (validate_preupload_file_count (length (pr_files request))) (\<lambda>_.
     rbind (validate_preupload_paths (pr_files request)) (\<lambda>_.
     rbind (if pr_namespace request \<noteq> pr_username request then
              rbind (map_err (\<lambda>error. PuInternal (metadata_error_message error))
                  (is_namespace_member (pr_username request) (pr_namespace request))) (\<lambda>has_access.
              if \<not> has_access then Inl (PuForbidden ''User cannot access namespace'') else Inr ())
            else Inr ()) (\<lambda>_.
     rbind (map_err (\<lambda>err. case err of RepoNotFound _ \<Rightarrow> PuNotFound (metadata_error_message err) | _ \<Rightarrow> PuInternal (metadata_error_message err))
         (get_repo D db (pr_namespace request) (pr_repo_name request) (pr_repo_type request))) (\<lambda>_.
     Inr (map (\<lambda>f. \<lparr>pd_path = pu_path f, pd_upload_mode = classify_upload_mode (pu_size f) (pr_inline_threshold request), pd_should_ignore = False\<rparr>)
       (pr_files request))))))"

fun preupload_service_error_response :: "PreuploadServiceError \<Rightarrow> 'a hub_reply" where
  "preupload_service_error_response (PuValidation msg) = HubFailure 400 msg ''ValidationError''"
| "preupload_service_error_response (PuForbidden msg) = HubFailure 403 msg ''AuthorizationError''"
| "preupload_service_error_response (PuNotFound msg) = HubFailure 404 msg ''NotFoundError''"
| "preupload_service_error_response (PuInternal msg) = hub_internal_error"

fun upload_mode_to_api :: "UploadMode \<Rightarrow> string" where
  "upload_mode_to_api Regular = ''regular''"
| "upload_mode_to_api Lfs = ''lfs''"

record PreuploadFileResponse =
  pf_path :: string
  pf_upload_mode :: string
  pf_should_ignore :: bool

definition handle_preupload ::
  "('sk, 'pk) hub \<Rightarrow> (nat \<Rightarrow> bool) \<Rightarrow> u64 \<Rightarrow> token_db \<Rightarrow> db_env \<Rightarrow> hub_db \<Rightarrow> RepoType \<Rightarrow> string option \<Rightarrow> string \<times> string \<times> string \<Rightarrow>
     PreuploadFileInput list \<Rightarrow> PreuploadFileResponse list hub_reply" where
  "handle_preupload H fault now tdb D db repo_type authorization path files =
     (case auth_user (hb_tokens H) fault now tdb AuthWrite authorization of
        Inl e \<Rightarrow> auth_error_response e
      | Inr info \<Rightarrow>
     (let (namespace, repo_name, revision) = path in
      case validate_preupload_file_count (length files) of
        Inl err \<Rightarrow> preupload_service_error_response err
      | Inr _ \<Rightarrow>
     (case prepare_upload D db \<lparr>pr_username = ti_username info, pr_namespace = namespace, pr_repo_name = repo_name, pr_repo_type = repo_type,
          pr_inline_threshold = hb_inline_threshold H, pr_files = files\<rparr> of
        Inl err \<Rightarrow> preupload_service_error_response err
      | Inr response \<Rightarrow>
          HubReply (map (\<lambda>f. \<lparr>pf_path = pd_path f, pf_upload_mode = upload_mode_to_api (pd_upload_mode f), pf_should_ignore = pd_should_ignore f\<rparr>) response))))"

section \<open>Who am I\<close>

record WhoamiResponse =
  wa_name :: string
  wa_email :: string
  wa_orgs :: "string list"
  wa_kind :: string
  wa_token_name :: string
  wa_token_role :: string

definition whoami_response :: "TokenInfo \<Rightarrow> WhoamiResponse" where
  "whoami_response token_info =
     \<lparr>wa_name = ti_username token_info, wa_email = [], wa_orgs = [], wa_kind = ''access_token'',
      wa_token_name = ti_token_name token_info, wa_token_role = ti_scope token_info\<rparr>"

definition whoami :: "('sk, 'pk) hub \<Rightarrow> (nat \<Rightarrow> bool) \<Rightarrow> u64 \<Rightarrow> token_db \<Rightarrow> string option \<Rightarrow> WhoamiResponse hub_reply" where
  "whoami H fault now tdb authorization =
     (case auth_user (hb_tokens H) fault now tdb AuthAny authorization of
        Inl e \<Rightarrow> auth_error_response e
      | Inr info \<Rightarrow> HubReply (whoami_response info))"


section \<open>The life of a token\<close>

datatype token_event =
    EvCreate string u64 string string string
  | EvCreateFor string u64 string string string
  | EvRevoke string u64
  | EvExpire string u64

text \<open>What happens to the table, with the statements that fail in the driver.\<close>

fun apply_event :: "TokenStore \<Rightarrow> token_db \<Rightarrow> token_event \<times> (nat \<Rightarrow> bool) \<Rightarrow> token_db" where
  "apply_event S db (EvCreate uuid now username nm scope, fault) = snd (create_token S fault uuid now username nm scope db)"
| "apply_event S db (EvCreateFor uuid now user_id nm scope, fault) = snd (create_token_for_user S fault uuid now user_id nm scope db)"
| "apply_event S db (EvRevoke token now, fault) = snd (revoke_token S fault now token db)"
| "apply_event S db (EvExpire token t, fault) = snd (set_token_expiration S fault token t db)"

text \<open>What an event does to the row of a hash, from the names of the tokens alone.\<close>

fun revokes :: "TokenStore \<Rightarrow> string \<Rightarrow> token_event \<times> (nat \<Rightarrow> bool) \<Rightarrow> bool" where
  "revokes S h (EvRevoke token now, fault) = (hash_token S token = h \<and> \<not> fault 0)"
| "revokes S h _ = False"

fun new_expiry :: "TokenStore \<Rightarrow> string \<Rightarrow> token_event \<times> (nat \<Rightarrow> bool) \<Rightarrow> u64 option" where
  "new_expiry S h (EvExpire token t, fault) = (if hash_token S token = h \<and> \<not> fault 0 then Some t else None)"
| "new_expiry S h _ = None"

fun last_expiry :: "TokenStore \<Rightarrow> string \<Rightarrow> (token_event \<times> (nat \<Rightarrow> bool)) list \<Rightarrow> u64 option" where
  "last_expiry S h [] = None"
| "last_expiry S h (e # evs) = (case last_expiry S h evs of Some t \<Rightarrow> Some t | None \<Rightarrow> new_expiry S h e)"

lemma find_map_row:
  "(\<And>t. key (g t) = key t) \<Longrightarrow> find (\<lambda>t. key t = h) (map g ts) = map_option g (find (\<lambda>t. key t = h) ts)"
  by (induction ts) auto

lemma find_append_row: "find P xs = Some r \<Longrightarrow> find P (xs @ ys) = Some r"
  by (induction xs) (auto split: if_splits)

lemma find_append_new: "find P xs = None \<Longrightarrow> P r \<Longrightarrow> find P (xs @ [r]) = Some r"
  by (induction xs) (auto split: if_splits)

lemma find_distinct:
  assumes "distinct (map key xs)" "u \<in> set xs"
  shows "find (\<lambda>v. key v = key u) xs = Some u"
  using assms by (induction xs) (auto simp: rev_image_eqI image_iff)

definition issued_row :: "TokenStore \<Rightarrow> string \<Rightarrow> string \<Rightarrow> string \<Rightarrow> string \<Rightarrow> u64 \<Rightarrow> token_row" where
  "issued_row S token uid nm scope now =
     \<lparr>tk_token_hash = hash_token S token, tk_user_id = uid, tk_name = nm, tk_scope = scope, tk_created_at = as_i64 now,
      tk_expires_at = None, tk_revoked_at = None\<rparr>"

definition new_user :: "token_db \<Rightarrow> user_row \<Rightarrow> bool" where
  "new_user db u \<longleftrightarrow> (\<forall>v\<in>set (td_users db). us_user_id v \<noteq> us_user_id u \<and> us_username v \<noteq> us_username u)"

lemma insert_token_row:
  "insert_token_sql (issued_row S token uid nm scope now) db = Inr db' \<longleftrightarrow> find_token db (hash_token S token) = None \<and>
     find_user db uid \<noteq> None \<and> db' = db\<lparr>td_tokens := td_tokens db @ [issued_row S token uid nm scope now]\<rparr>"
  by (auto simp: insert_token_sql_def find_token_def find_None_iff list_ex_iff issued_row_def)

lemma insert_user_row:
  "insert_user_sql u db = Inr db' \<longleftrightarrow> new_user db u \<and> db' = db\<lparr>td_users := td_users db @ [u]\<rparr>"
  by (auto simp: insert_user_sql_def new_user_def list_ex_iff)

text \<open>A creation that succeeds, on both ways to the user.\<close>

lemma create_token_Inr:
  assumes "create_token S fault uuid now username nm scope db = (Inr token, db')"
  obtains us u where "token = new_token uuid" "find_token db (hash_token S token) = None" "us_username u = username"
    "us = [] \<and> u \<in> set (td_users db) \<or> us = [u] \<and> new_user db u"
    "db' = db\<lparr>td_users := td_users db @ us, td_tokens := td_tokens db @ [issued_row S token (us_user_id u) nm scope now]\<rparr>"
proof (cases "find (\<lambda>u. us_username u = username) (td_users db)")
  case (Some u)
  then have u: "us_username u = username" "u \<in> set (td_users db)" by (auto simp: find_Some_iff)
  from Some assms have "token = new_token uuid" "insert_token_sql (issued_row S token (us_user_id u) nm scope now) db = Inr db'"
    by (auto simp: create_token_def Let_def issued_row_def split: if_splits sum.splits)
  with u that [of u "[]"] show thesis by (simp add: insert_token_row)
next
  case None
  define u where "u = \<lparr>us_user_id = ''user_'' @ take 16 (hash_token S (new_token uuid)), us_username = username, us_created_at = as_i64 now\<rparr>"
  from None assms obtain db1 where "insert_user_sql u db = Inr db1" "token = new_token uuid"
      "insert_token_sql (issued_row S token (us_user_id u) nm scope now) db1 = Inr db'"
    by (auto simp: create_token_def Let_def u_def issued_row_def split: if_splits sum.splits)
  with that [of u "[u]"] show thesis by (simp add: insert_token_row insert_user_row find_token_def) (simp add: u_def)
qed

lemma create_token_Inl: "create_token S fault uuid now username nm scope db = (Inl e, db') \<Longrightarrow> db' = db"
  by (auto simp: create_token_def Let_def split: if_splits option.splits sum.splits)

lemma create_for_user_Inr:
  assumes "create_token_for_user S fault uuid now uid nm scope db = (Inr token, db')"
  shows "token = new_token uuid \<and> find_token db (hash_token S token) = None \<and> find_user db uid \<noteq> None \<and>
    db' = db\<lparr>td_tokens := td_tokens db @ [issued_row S token uid nm scope now]\<rparr>"
proof -
  from assms have "token = new_token uuid" "insert_token_sql (issued_row S token uid nm scope now) db = Inr db'"
    by (auto simp: create_token_for_user_def Let_def issued_row_def split: if_splits sum.splits)
  then show ?thesis by (simp add: insert_token_row)
qed

lemma create_for_user_Inl: "create_token_for_user S fault uuid now uid nm scope db = (Inl e, db') \<Longrightarrow> db' = db"
  by (auto simp: create_token_for_user_def Let_def split: if_splits sum.splits)

text \<open>The row of a hash as an event leaves it, and the rows that an event adds.\<close>

definition row_after :: "TokenStore \<Rightarrow> string \<Rightarrow> token_event \<times> (nat \<Rightarrow> bool) \<Rightarrow> token_row \<Rightarrow> token_row \<Rightarrow> bool" where
  "row_after S h e r r' \<longleftrightarrow> tk_token_hash r' = tk_token_hash r \<and> tk_user_id r' = tk_user_id r \<and> tk_name r' = tk_name r \<and> tk_scope r' = tk_scope r \<and>
     (tk_revoked_at r' \<noteq> None \<longleftrightarrow> tk_revoked_at r \<noteq> None \<or> revokes S h e) \<and>
     tk_expires_at r' = (case new_expiry S h e of None \<Rightarrow> tk_expires_at r | Some t \<Rightarrow> Some (as_i64 t))"

fun issues :: "TokenStore \<Rightarrow> token_row \<Rightarrow> token_event \<times> (nat \<Rightarrow> bool) \<Rightarrow> bool" where
  "issues S r (EvCreate uuid now username nm scope, fault) =
     (tk_token_hash r = hash_token S (new_token uuid) \<and> tk_name r = nm \<and> tk_scope r = scope)"
| "issues S r (EvCreateFor uuid now uid nm scope, fault) =
     (tk_token_hash r = hash_token S (new_token uuid) \<and> tk_user_id r = uid \<and> tk_name r = nm \<and> tk_scope r = scope)"
| "issues S r _ = False"

text \<open>Users are never changed; a row is changed as the event says or was issued by it.\<close>

definition event_ok :: "TokenStore \<Rightarrow> token_event \<times> (nat \<Rightarrow> bool) \<Rightarrow> token_db \<Rightarrow> token_db \<Rightarrow> bool" where
  "event_ok S e db db' \<longleftrightarrow>
     (\<exists>us. td_users db' = td_users db @ us \<and> (us = [] \<or> (\<exists>u. us = [u] \<and> new_user db u))) \<and>
     (\<forall>h r. find_token db h = Some r \<longrightarrow> (\<exists>r'. find_token db' h = Some r' \<and> row_after S h e r r')) \<and>
     (\<forall>h r. find_token db h = None \<longrightarrow> find_token db' h = Some r \<longrightarrow> issues S r e)"

lemma find_token_hash: "find_token db h = Some r \<Longrightarrow> tk_token_hash r = h"
  by (auto simp: find_token_def find_Some_iff)

lemma find_token_snoc:
  "find_token (db\<lparr>td_users := us, td_tokens := td_tokens db @ [t]\<rparr>) h =
     (case find_token db h of Some r \<Rightarrow> Some r | None \<Rightarrow> if tk_token_hash t = h then Some t else None)"
  using find_append_row [of "\<lambda>t. tk_token_hash t = h" "td_tokens db"] find_append_new [of "\<lambda>t. tk_token_hash t = h" "td_tokens db" t]
  unfolding find_token_def by (auto simp: find_None_iff split: option.splits)

lemma find_token_update:
  "(\<And>t. tk_token_hash (f t) = tk_token_hash t) \<Longrightarrow>
     find_token (update_tokens P f db) h = map_option (\<lambda>t. if P t then f t else t) (find_token db h)"
  unfolding find_token_def update_tokens_def by (simp add: find_map_row)

lemma update_tokens_users: "td_users (update_tokens P f db) = td_users db"
  by (simp add: update_tokens_def)

lemma event_ok_same: "(\<And>h. \<not> revokes S h e) \<Longrightarrow> (\<And>h. new_expiry S h e = None) \<Longrightarrow> event_ok S e db db"
  by (simp add: event_ok_def row_after_def)

lemma event_ok_issue:
  assumes "\<And>h. \<not> revokes S h e" "\<And>h. new_expiry S h e = None" "us = [] \<or> (\<exists>u. us = [u] \<and> new_user db u)" "issues S t e"
  shows "event_ok S e db (db\<lparr>td_users := td_users db @ us, td_tokens := td_tokens db @ [t]\<rparr>)"
  unfolding event_ok_def find_token_snoc using assms by (auto simp: row_after_def split: if_splits)

lemma event_effect: "event_ok S (e, fault) db (apply_event S db (e, fault))"
proof (cases e)
  case (EvCreate uuid now username nm scope)
  obtain res db' where run: "create_token S fault uuid now username nm scope db = (res, db')" by (metis surj_pair)
  show ?thesis
  proof (cases res)
    case (Inl x)
    with create_token_Inl run EvCreate event_ok_same [of S "(e, fault)"] show ?thesis by fastforce
  next
    case (Inr token)
    obtain us u where c: "token = new_token uuid" "us = [] \<and> u \<in> set (td_users db) \<or> us = [u] \<and> new_user db u"
      "db' = db\<lparr>td_users := td_users db @ us, td_tokens := td_tokens db @ [issued_row S token (us_user_id u) nm scope now]\<rparr>"
      by (rule create_token_Inr [OF run [unfolded Inr]])
    have "event_ok S (e, fault) db db'" unfolding c(3) EvCreate
      by (rule event_ok_issue) (use c(1,2) in \<open>auto simp: issued_row_def\<close>)
    with run EvCreate show ?thesis by simp
  qed
next
  case (EvCreateFor uuid now uid nm scope)
  obtain res db' where run: "create_token_for_user S fault uuid now uid nm scope db = (res, db')" by (metis surj_pair)
  show ?thesis
  proof (cases res)
    case (Inl x)
    with create_for_user_Inl run EvCreateFor event_ok_same [of S "(e, fault)"] show ?thesis by fastforce
  next
    case (Inr token)
    note c = create_for_user_Inr [OF run [unfolded Inr]]
    then have db': "db' = db\<lparr>td_users := td_users db @ [], td_tokens := td_tokens db @ [issued_row S token uid nm scope now]\<rparr>" by simp
    have "event_ok S (e, fault) db db'" unfolding db' EvCreateFor
      by (rule event_ok_issue) (use c in \<open>auto simp: issued_row_def\<close>)
    with run EvCreateFor show ?thesis by simp
  qed
next
  case (EvRevoke token now)
  then show ?thesis
    by (auto simp: revoke_token_def Let_def event_ok_def find_token_update row_after_def update_tokens_users dest: find_token_hash)
next
  case (EvExpire token t)
  then show ?thesis
    by (auto simp: set_token_expiration_def event_ok_def find_token_update row_after_def update_tokens_users dest: find_token_hash)
qed


abbreviation run_events :: "TokenStore \<Rightarrow> (token_event \<times> (nat \<Rightarrow> bool)) list \<Rightarrow> token_db \<Rightarrow> token_db" where
  "run_events S evs db \<equiv> foldl (apply_event S) db evs"

lemma apply_event_ok: "event_ok S e db (apply_event S db e)"
  using event_effect by (cases e) blast

lemma event_users: "\<exists>us. td_users (apply_event S db e) = td_users db @ us"
  using apply_event_ok [of S e db] unfolding event_ok_def by blast

lemma run_users: "\<exists>us. td_users (run_events S evs db) = td_users db @ us"
proof (induction evs arbitrary: db)
  case (Cons e evs)
  obtain us1 where "td_users (apply_event S db e) = td_users db @ us1" using event_users by blast
  moreover obtain us2 where "td_users (run_events S evs (apply_event S db e)) = td_users (apply_event S db e) @ us2" using Cons by blast
  ultimately show ?case by simp
qed simp

lemma run_users_distinct: "distinct (map us_user_id (td_users db)) \<Longrightarrow> distinct (map us_user_id (td_users (run_events S evs db)))"
proof (induction evs arbitrary: db)
  case (Cons e evs)
  obtain us where us: "td_users (apply_event S db e) = td_users db @ us" "us = [] \<or> (\<exists>u. us = [u] \<and> new_user db u)"
    using apply_event_ok [of S e db] unfolding event_ok_def by blast
  then have "distinct (map us_user_id (td_users (apply_event S db e)))" using Cons.prems by (auto simp: new_user_def)
  with Cons.IH show ?case by simp
qed simp

text \<open>The row of a token after a run.\<close>

lemma run_row:
  assumes "find_token db h = Some r"
  shows "\<exists>r'. find_token (run_events S evs db) h = Some r' \<and> tk_user_id r' = tk_user_id r \<and> tk_name r' = tk_name r \<and> tk_scope r' = tk_scope r \<and>
    (tk_revoked_at r' \<noteq> None \<longleftrightarrow> tk_revoked_at r \<noteq> None \<or> list_ex (revokes S h) evs) \<and>
    tk_expires_at r' = (case last_expiry S h evs of None \<Rightarrow> tk_expires_at r | Some t \<Rightarrow> Some (as_i64 t))"
  using assms
proof (induction evs arbitrary: db r)
  case (Cons e evs)
  obtain r1 where r1: "find_token (apply_event S db e) h = Some r1" "row_after S h e r r1"
    using apply_event_ok [of S e db] Cons.prems unfolding event_ok_def by blast
  from Cons.IH [OF r1(1)] obtain r' where r': "find_token (run_events S evs (apply_event S db e)) h = Some r'"
    "tk_user_id r' = tk_user_id r1" "tk_name r' = tk_name r1" "tk_scope r' = tk_scope r1"
    "tk_revoked_at r' \<noteq> None \<longleftrightarrow> tk_revoked_at r1 \<noteq> None \<or> list_ex (revokes S h) evs"
    "tk_expires_at r' = (case last_expiry S h evs of None \<Rightarrow> tk_expires_at r1 | Some t \<Rightarrow> Some (as_i64 t))" by blast
  have "tk_expires_at r' = (case last_expiry S h (e # evs) of None \<Rightarrow> tk_expires_at r | Some t \<Rightarrow> Some (as_i64 t))"
    using r'(6) r1(2) by (auto simp: row_after_def split: option.splits)
  with r' r1(2) show ?case by (intro exI [of _ r']) (auto simp: row_after_def)
qed simp

lemma run_issued:
  assumes "find_token db h = None" "find_token (run_events S evs db) h = Some r"
  shows "\<exists>e\<in>set evs. \<exists>r0. issues S r0 e \<and> tk_token_hash r0 = h \<and> tk_user_id r0 = tk_user_id r \<and> tk_name r0 = tk_name r \<and> tk_scope r0 = tk_scope r"
  using assms
proof (induction evs arbitrary: db)
  case (Cons e evs)
  show ?case
  proof (cases "find_token (apply_event S db e) h")
    case None
    with Cons.IH [OF None] Cons.prems(2) show ?thesis by auto
  next
    case (Some r0)
    then have "issues S r0 e" using apply_event_ok [of S e db] Cons.prems(1) unfolding event_ok_def by blast
    moreover have "tk_user_id r0 = tk_user_id r \<and> tk_name r0 = tk_name r \<and> tk_scope r0 = tk_scope r"
      using run_row [OF Some, of S evs] Cons.prems(2) by auto
    ultimately show ?thesis using find_token_hash [OF Some] by auto
  qed
qed simp

section \<open>Properties of tokens\<close>

text \<open>
  C14. A token is valid from its creation until it is revoked or expires, and only then. Whatever
  happens to the table before and after, and whichever statements fail, a created token
  identifies its user with its name and its scope, unless it was revoked, or the last expiry that was set for it has
  passed; once revoked it stays invalid. A token that is accepted was created by one of the
  operations, under its hash, with the scope that is reported.
\<close>

theorem tokens_valid_until_revoked:
  assumes db: "db = run_events S before token_db_empty"
    and create: "create_token S fault uuid t username nm scope db = (Inr token, db1)"
  shows "(\<exists>uid. \<forall>evs now. validate_token S (\<lambda>_. False) now token (run_events S evs db1) =
      Inr (if list_ex (revokes S (hash_token S token)) evs \<or>
              (case last_expiry S (hash_token S token) evs of None \<Rightarrow> False | Some e \<Rightarrow> as_i64 e < as_i64 now) then None
           else Some \<lparr>ti_user_id = uid, ti_username = username, ti_token_name = nm, ti_scope = scope\<rparr>)) \<and>
    (\<forall>any now info. validate_token S (\<lambda>_. False) now any db = Inr (Some info) \<longrightarrow>
      (\<exists>e\<in>set before. \<exists>r. issues S r e \<and> tk_token_hash r = hash_token S any \<and> tk_name r = ti_token_name info \<and> tk_scope r = ti_scope info))"
proof -
  let ?h = "hash_token S token"
  obtain us u where c: "token = new_token uuid" "find_token db ?h = None" "us_username u = username"
    "us = [] \<and> u \<in> set (td_users db) \<or> us = [u] \<and> new_user db u"
    "db1 = db\<lparr>td_users := td_users db @ us, td_tokens := td_tokens db @ [issued_row S token (us_user_id u) nm scope t]\<rparr>"
    by (rule create_token_Inr [OF create])
  have "distinct (map us_user_id (td_users db))" unfolding db by (rule run_users_distinct) (simp add: token_db_empty_def)
  then have d1: "distinct (map us_user_id (td_users db1))" "u \<in> set (td_users db1)" using c(4,5) by (auto simp: new_user_def)
  have row: "find_token db1 ?h = Some (issued_row S token (us_user_id u) nm scope t)"
    unfolding c(5) find_token_snoc using c(2) by (simp add: issued_row_def)
  have user: "find_user (run_events S evs db1) (us_user_id u) = Some u" for evs
  proof -
    obtain vs where vs: "td_users (run_events S evs db1) = td_users db1 @ vs" using run_users by blast
    have "distinct (map us_user_id (td_users db1 @ vs))" using run_users_distinct [OF d1(1), of S evs] vs by simp
    moreover have "u \<in> set (td_users db1 @ vs)" using d1(2) by simp
    ultimately have "find (\<lambda>v. us_user_id v = us_user_id u) (td_users db1 @ vs) = Some u"
      by (rule find_distinct)
    then show ?thesis unfolding find_user_def vs .
  qed
  have "validate_token S (\<lambda>_. False) now token (run_events S evs db1) =
      Inr (if list_ex (revokes S ?h) evs \<or> (case last_expiry S ?h evs of None \<Rightarrow> False | Some e \<Rightarrow> as_i64 e < as_i64 now) then None
           else Some \<lparr>ti_user_id = us_user_id u, ti_username = username, ti_token_name = nm, ti_scope = scope\<rparr>)" for evs now
    using run_row [OF row, of S evs] user [of evs] c(3)
    by (auto simp: validate_token_def issued_row_def split: option.splits)
  moreover have "\<exists>e\<in>set before. \<exists>r. issues S r e \<and> tk_token_hash r = hash_token S any \<and> tk_name r = ti_token_name info \<and> tk_scope r = ti_scope info"
    if v: "validate_token S (\<lambda>_. False) now any db = Inr (Some info)" for any now info
  proof -
    obtain r where r: "find_token db (hash_token S any) = Some r" "tk_name r = ti_token_name info" "tk_scope r = ti_scope info"
      using v by (auto simp: validate_token_def split: option.splits if_splits)
    have "find_token token_db_empty (hash_token S any) = None" by (simp add: find_token_def token_db_empty_def)
    from run_issued [OF this r(1) [unfolded db]] r(2,3) show ?thesis by metis
  qed
  ultimately show ?thesis by blast
qed

definition demo_store :: TokenStore where
  "demo_store = \<lparr>ts_hash_salt = ''s'', ts_hmac = (\<lambda>k m. map of_char (k @ m)), ts_hex = map (\<lambda>b. char_of (unat b))\<rparr>"

definition demo_tokens_db :: token_db where
  "demo_tokens_db = snd (create_token demo_store (\<lambda>_. False) ''1-2'' 1000 ''u'' ''laptop'' ''read write'' token_db_empty)"

lemma demo_created: "create_token demo_store (\<lambda>_. False) ''1-2'' 1000 ''u'' ''laptop'' ''read write'' token_db_empty = (Inr ''hf_12'', demo_tokens_db)"
proof -
  have "fst (create_token demo_store (\<lambda>_. False) ''1-2'' 1000 ''u'' ''laptop'' ''read write'' token_db_empty) = Inr ''hf_12''" by code_simp
  then show ?thesis by (simp add: demo_tokens_db_def prod_eq_iff)
qed

theorem tokens_valid_until_revoked_witness:
  "\<exists>info. ti_username info = ''u'' \<and> ti_scope info = ''read write'' \<and>
     validate_token demo_store (\<lambda>_. False) 2000 ''hf_12'' demo_tokens_db = Inr (Some info) \<and>
     validate_token demo_store (\<lambda>_. False) 2000 ''hf_12'' (run_events demo_store [(EvExpire ''hf_12'' 1999, \<lambda>_. False)] demo_tokens_db) = Inr None \<and>
     validate_token demo_store (\<lambda>_. False) 2000 ''hf_12'' (run_events demo_store [(EvRevoke ''hf_12'' 1500, \<lambda>_. False), (EvExpire ''hf_12'' 9000, \<lambda>_. False)] demo_tokens_db) = Inr None"
proof -
  have e: "token_db_empty = run_events demo_store [] token_db_empty" by simp
  obtain uid where v: "\<forall>evs now. validate_token demo_store (\<lambda>_. False) now ''hf_12'' (run_events demo_store evs demo_tokens_db) =
      Inr (if list_ex (revokes demo_store (hash_token demo_store ''hf_12'')) evs \<or>
              (case last_expiry demo_store (hash_token demo_store ''hf_12'') evs of None \<Rightarrow> False | Some e \<Rightarrow> as_i64 e < as_i64 now) then None
           else Some \<lparr>ti_user_id = uid, ti_username = ''u'', ti_token_name = ''laptop'', ti_scope = ''read write''\<rparr>)"
    using tokens_valid_until_revoked [OF e demo_created] by blast
  have "as_i64 1999 < as_i64 2000" by code_simp
  then show ?thesis using v [rule_format, of 2000 "[]"] v [rule_format, of 2000 "[(EvExpire ''hf_12'' 1999, \<lambda>_. False)]"]
      v [rule_format, of 2000 "[(EvRevoke ''hf_12'' 1500, \<lambda>_. False), (EvExpire ''hf_12'' 9000, \<lambda>_. False)]"] by simp
qed

section \<open>One salt\<close>

text \<open>A salt that was read is the salt of the database, and after an offer there is one.\<close>

fun salt_ok :: "token_db \<Rightarrow> salt_state \<Rightarrow> bool" where
  "salt_ok db SaltStart = True"
| "salt_ok db SaltMissing = True"
| "salt_ok db SaltOffered = (load_salt db \<noteq> None)"
| "salt_ok db (SaltReady salt) = (load_salt db = Some salt)"

lemma load_offer: "load_salt (offer_salt s db) = (case load_salt db of None \<Rightarrow> Some s | Some salt \<Rightarrow> Some salt)"
  by (auto simp: offer_salt_def load_salt_def map_add_def split: option.splits)

lemma salt_step_stored:
  assumes "salt_step s (p, db) = (p', db')"
  shows "load_salt db = Some salt \<Longrightarrow> load_salt db' = Some salt" "salt_ok db p \<Longrightarrow> salt_ok db' p'"
  using assms by (cases p; auto simp: load_offer split: option.splits)+

lemma salt_ok_later: "salt_ok db p \<Longrightarrow> (\<And>salt. load_salt db = Some salt \<Longrightarrow> load_salt db' = Some salt) \<Longrightarrow> salt_ok db' p"
  by (cases p) auto

lemma salts_ok:
  assumes "(salts new_salt)\<^sup>*\<^sup>* (ps, db) (ps', db')" "\<forall>i. salt_ok db (ps i)"
  shows "(\<forall>i. salt_ok db' (ps' i)) \<and> (\<forall>salt. load_salt db = Some salt \<longrightarrow> load_salt db' = Some salt)"
  using assms
proof (induction rule: rtranclp_induct2)
  case (step ps1 db1 ps2 db2)
  from step.hyps(2) obtain i p where s: "ps2 = ps1(i := p)" "salt_step (new_salt i) (ps1 i, db1) = (p, db2)" by (auto elim: salts.cases)
  have "salt_ok db2 (ps2 j)" for j
    using step.IH [OF step.prems] salt_step_stored [OF s(2)] salt_ok_later [of db1 "ps1 j" db2] by (simp add: s(1))
  then show ?case using step.IH [OF step.prems] salt_step_stored(1) [OF s(2)] by blast
qed simp

text \<open>
  C27. Processes that start together on one database agree on the salt. However their statements
  interleave, every process that has finished holds the salt the database stores, so
  any two hash a token alike; a salt that was stored before is kept. A process alone
  returns the stored salt.
\<close>

theorem processes_share_one_salt:
  assumes run: "(salts new_salt)\<^sup>*\<^sup>* (\<lambda>_. SaltStart, db) (ps, db')"
    and ready: "ps i = SaltReady a" "ps j = SaltReady b"
  shows "a = b \<and> load_salt db' = Some a \<and> (load_salt db \<noteq> None \<longrightarrow> load_salt db = Some a) \<and>
    (\<exists>salt db2. get_or_generate_hash_salt own db' = (salt, db2) \<and> salt = a)"
proof -
  have ok: "\<forall>k. salt_ok db' (ps k)" "\<forall>salt. load_salt db = Some salt \<longrightarrow> load_salt db' = Some salt" using salts_ok [OF run] by simp_all
  have "salt_ok db' (SaltReady a)" "salt_ok db' (SaltReady b)" using ok(1) ready by metis+
  moreover from this(1) have "get_or_generate_hash_salt own db' = (a, db')" by (simp add: get_or_generate_hash_salt_def numeral_3_eq_3)
  ultimately show ?thesis using ok(2) by auto
qed

theorem processes_share_one_salt_witness:
  "\<exists>ps db'. (salts (\<lambda>i. if i = 0 then ''x'' else ''y''))\<^sup>*\<^sup>* (\<lambda>_. SaltStart, token_db_empty) (ps, db') \<and> ps 0 = SaltReady ''y'' \<and> ps 1 = SaltReady ''y'' \<and>
     load_salt db' = Some ''y''"
proof -
  let ?n = "\<lambda>i :: nat. if i = 0 then ''x'' else ''y''"
  let ?db = "offer_salt ''y'' token_db_empty"
  have l: "load_salt token_db_empty = None" "load_salt ?db = Some ''y''" "offer_salt ''x'' ?db = ?db" by code_simp+
  note go = salts.intros [where new_salt = ?n]
  have "salts ?n (\<lambda>_. SaltStart, token_db_empty) ((\<lambda>_. SaltStart)(0 := SaltMissing), token_db_empty)" (is "salts _ _ (?p1, _)") by (rule go) (simp add: l)
  moreover have "salts ?n (?p1, token_db_empty) (?p1(1 := SaltMissing), token_db_empty)" (is "salts _ _ (?p2, _)") by (rule go) (simp add: l)
  moreover have "salts ?n (?p2, token_db_empty) (?p2(1 := SaltOffered), ?db)" (is "salts _ _ (?p3, _)") by (rule go) simp
  moreover have "salts ?n (?p3, ?db) (?p3(0 := SaltOffered), ?db)" (is "salts _ _ (?p4, _)") by (rule go) (simp add: l)
  moreover have "salts ?n (?p4, ?db) (?p4(0 := SaltReady ''y''), ?db)" (is "salts _ _ (?p5, _)") by (rule go) (simp add: l)
  moreover have "salts ?n (?p5, ?db) (?p5(1 := SaltReady ''y''), ?db)" (is "salts _ _ (?p6, _)") by (rule go) (simp add: l)
  ultimately have run: "(salts ?n)\<^sup>*\<^sup>* (\<lambda>_. SaltStart, token_db_empty) (?p6, ?db)"
    by (meson converse_rtranclp_into_rtranclp rtranclp.rtrancl_refl)
  have "?p6 0 = SaltReady ''y''" "?p6 1 = SaltReady ''y''" by simp_all
  from processes_share_one_salt [OF run this] run show ?thesis by (intro exI [of _ ?p6] exI [of _ ?db]) simp
qed

section \<open>Properties of the handlers\<close>

lemma auth_user_Inr:
  "auth_user store fault now db need authorization = Inr info \<longleftrightarrow>
     (\<exists>bearer. extract_bearer_from_request authorization = Some bearer \<and> validate_token store fault now bearer db = Inr (Some info) \<and> scope_check need info)"
  by (auto simp: auth_user_def result_simps split: option.splits if_splits)

lemma error_no_reply [simp]:
  "auth_error_response e \<noteq> HubReply r" "token_exchange_error_response x \<noteq> HubReply r" "preupload_service_error_response y \<noteq> HubReply r"
proof -
  show "auth_error_response e \<noteq> HubReply r" by (cases e) (simp_all add: hub_internal_error_def)
  show "token_exchange_error_response x \<noteq> HubReply r" by (cases x) (simp_all add: hub_internal_error_def)
  show "preupload_service_error_response y \<noteq> HubReply r" by (cases y) (simp_all add: hub_internal_error_def)
qed

lemma get_repo_names: "get_repo D db ns nm ty = Inr repo \<Longrightarrow> rp_namespace repo = ns \<and> rp_name repo = nm"
  by (auto simp: get_repo_def query_def row_to_repo_def result_simps find_Some_iff split: option.splits if_splits)

lemma sign_Inr:
  assumes "sign K signer clock sub scope repo_id repo_type revision = Inr (token, exp)"
  obtains t where "clock = Some t" "sign_claims K \<lparr>xc_sub = sub, xc_scope = scope, xc_repo_id = repo_id, xc_repo_type = repo_type,
    xc_revision = revision, xc_exp = exp, xc_iat = t, xc_kid = xs_kid signer, xc_token_type = ''user'', xc_oid = None, xc_operation = None\<rparr>
    (xs_signing_key signer) User = Inr token"
  using assms that by (auto simp: sign_def signer_now_def result_simps signer_Inr split: option.splits)

text \<open>What stands behind a token that was handed out.\<close>

lemma exchange_Inr:
  assumes "exchange K signer clock D dbs request = Inr (token, exp)"
  obtains repo revision where "get_repo (D 0) (dbs 0) (tx_namespace request) (tx_repo_name request) (tx_repo_type request) = Inr repo"
    "can_exchange_repo repo (tx_username request) (tx_required_scope request)"
    "sign K signer clock (tx_user_id request) (exchange_scope_name (tx_required_scope request)) (tx_namespace request @ ''/'' @ tx_repo_name request)
       (repo_type_name (tx_repo_type request)) revision = Inr (token, exp)"
  using assms that unfolding exchange_def tx_load_repo_def Let_def
  by (auto simp: result_simps split: if_splits)

lemma exchange_scope_words: "split_whitespace (exchange_scope_name scope) = [exchange_scope_name scope]"
  by (cases scope) (simp_all add: split_whitespace_def ws_len_def)

text \<open>
  C13. A token exchange gives no more than the caller has. A reply means that the caller's own token
  is valid and carries the scope that is asked for, and that the repository exists and is one the
  caller may use: the caller's own for writing, a public one or the caller's own
  for reading. The storage server admits the new token from the second it was
  signed until it expires, for that one scope and nothing else.
\<close>

theorem exchange_gives_no_more:
  assumes K: "b64u_contract (hb_token_crates H)" "json_contract (hb_token_crates H)" "ed25519_contract (hb_token_crates H)"
    and V: "trusts (hb_token_crates H) V (xs_kid (hb_signer H)) (xs_signing_key (hb_signer H))"
    and reply: "exchange_handler H fault now tdb clock D dbs repo_type scope authorization (namespace, repo, revision) = HubReply r"
  shows "\<exists>bearer info found t. extract_bearer_from_request authorization = Some bearer \<and>
    validate_token (hb_tokens H) fault now bearer tdb = Inr (Some info) \<and> scope_allows (ti_scope info) (exchange_scope_name scope) \<and>
    get_repo (D 0) (dbs 0) namespace repo repo_type = Inr found \<and>
    (namespace = ti_username info \<or> scope = Read \<and> \<not> rp_private found) \<and> clock = Some t \<and>
    (\<forall>decode at need. admitted (hb_token_crates H) decode V at (xr_access_token r) need \<longleftrightarrow>
       t \<le> at \<and> at < xr_exp r \<and> allows (UserGrant {exchange_scope_name scope}) need)"
proof -
  obtain info where info: "auth_user (hb_tokens H) fault now tdb (case scope of Read \<Rightarrow> AuthRead | Write \<Rightarrow> AuthWrite) authorization = Inr info"
    "do_exchange H clock D dbs repo_type scope info (namespace, repo, revision) = HubReply r"
    using reply by (auto simp: exchange_handler_def split: sum.splits)
  then obtain bearer where b: "extract_bearer_from_request authorization = Some bearer"
    "validate_token (hb_tokens H) fault now bearer tdb = Inr (Some info)" "scope_allows (ti_scope info) (exchange_scope_name scope)"
    by (cases scope) (auto simp: auth_user_Inr)
  have ex: "exchange (hb_token_crates H) (hb_signer H) clock D dbs
      \<lparr>tx_user_id = ti_user_id info, tx_username = ti_username info, tx_namespace = namespace, tx_repo_name = repo,
       tx_revision = revision, tx_required_scope = scope, tx_repo_type = repo_type\<rparr> = Inr (xr_access_token r, xr_exp r)"
    using info(2) by (auto simp: do_exchange_def split: sum.splits)
  obtain found rev where f: "get_repo (D 0) (dbs 0) namespace repo repo_type = Inr found" "can_exchange_repo found (ti_username info) scope"
    "sign (hb_token_crates H) (hb_signer H) clock (ti_user_id info) (exchange_scope_name scope) (namespace @ ''/'' @ repo) (repo_type_name repo_type) rev =
       Inr (xr_access_token r, xr_exp r)"
    by (rule exchange_Inr [OF ex]) simp
  obtain t where t: "clock = Some t" "sign_claims (hb_token_crates H) \<lparr>xc_sub = ti_user_id info, xc_scope = exchange_scope_name scope,
      xc_repo_id = namespace @ ''/'' @ repo, xc_repo_type = repo_type_name repo_type, xc_revision = rev, xc_exp = xr_exp r, xc_iat = t,
      xc_kid = xs_kid (hb_signer H), xc_token_type = ''user'', xc_oid = None, xc_operation = None\<rparr> (xs_signing_key (hb_signer H)) User = Inr (xr_access_token r)"
    by (rule sign_Inr [OF f(3)])
  have "admitted (hb_token_crates H) decode V at (xr_access_token r) need \<longleftrightarrow>
      t \<le> at \<and> at < xr_exp r \<and> allows (UserGrant {exchange_scope_name scope}) need" for decode at need
    using admitted_issued [OF K t(2)] V by (simp add: grant_of_def exchange_scope_words)
  moreover have "namespace = ti_username info \<or> scope = Read \<and> \<not> rp_private found"
    using f(2) get_repo_names [OF f(1)] by (cases scope) (auto simp: can_access_repo_def can_write_repo_def)
  ultimately show ?thesis using b f(1) t(1) by blast
qed

definition demo_hub :: "(string, string) hub" where
  "demo_hub = \<lparr>hb_tokens = demo_store, hb_token_crates = inst_token_crates, hb_signer = demo_signer, hb_cas_url = ''c'', hb_inline_threshold = 10\<rparr>"

lemma demo_bearer: "extract_bearer_from_request (Some ''Bearer hf_12'') = Some ''hf_12''"
  by code_simp

lemma demo_auth:
  "need \<noteq> AuthAny \<Longrightarrow> \<exists>info. auth_user demo_store (\<lambda>_. False) 2000 demo_tokens_db need (Some ''Bearer hf_12'') = Inr info \<and> ti_username info = ''u'' \<and> ti_user_id info \<noteq> []"
proof -
  have "validate_token demo_store (\<lambda>_. False) 2000 ''hf_12'' demo_tokens_db =
      Inr (Some \<lparr>ti_user_id = ''user_shf_12'', ti_username = ''u'', ti_token_name = ''laptop'', ti_scope = ''read write''\<rparr>)" by code_simp
  moreover have "scope_allows ''read write'' ''write''" "scope_allows ''read write'' ''read''"
    by (simp_all add: scope_allows_def split_whitespace_def ws_len_def)
  ultimately show "need \<noteq> AuthAny \<Longrightarrow> ?thesis" by (cases need) (auto simp: auth_user_Inr demo_bearer)
qed

theorem exchange_gives_no_more_witness:
  "\<exists>r. exchange_handler demo_hub (\<lambda>_. False) 2000 demo_tokens_db (Some 1000) (\<lambda>_. no_faults) (\<lambda>_. demo_db1) Model Read (Some ''Bearer hf_12'') (''u'', ''r'', ''main'') =
       HubReply r \<and>
     admitted inst_token_crates Some demo_verifier 1001 (xr_access_token r) (NeedScope ''read'') \<and>
     \<not> admitted inst_token_crates Some demo_verifier 1001 (xr_access_token r) (NeedScope ''write'')"
proof -
  obtain info where info: "auth_user demo_store (\<lambda>_. False) 2000 demo_tokens_db AuthRead (Some ''Bearer hf_12'') = Inr info" "ti_username info = ''u''" "ti_user_id info \<noteq> []"
    using demo_auth [of AuthRead] by auto
  have h: "get_head no_faults demo_db1 1 = Inr None" by code_simp
  obtain token where s: "sign inst_token_crates demo_signer (Some 1000) (ti_user_id info) ''read'' ''u/r'' ''model'' ''main'' = Inr (token, 4600)"
  proof -
    have "\<exists>token. sign inst_token_crates demo_signer (Some 1000) (ti_user_id info) ''read'' ''u/r'' ''model'' ''main'' = Inr (token, 4600)"
      by (simp add: sign_def signer_now_def expiration_def checked_add_def signer_Inr demo_signer_def new_signer_def new_with_internal_ttl_def)
        (rule sign_claims_valid, simp add: validate_claims_iff)
    then show thesis using that by blast
  qed
  then have ex: "exchange_handler demo_hub (\<lambda>_. False) 2000 demo_tokens_db (Some 1000) (\<lambda>_. no_faults) (\<lambda>_. demo_db1) Model Read (Some ''Bearer hf_12'') (''u'', ''r'', ''main'') =
      HubReply \<lparr>xr_access_token = token, xr_exp = 4600, xr_cas_url = ''c''\<rparr>" (is "?h = HubReply ?r")
    using info(1,2) by (simp add: exchange_handler_def demo_hub_def do_exchange_def exchange_def tx_load_repo_def demo_repo can_access_repo_def
        resolve_exchange_revision_def h result_simps)
  have V: "trusts inst_token_crates demo_verifier (xs_kid demo_signer) (xs_signing_key demo_signer)"
    by (simp add: trusts_def demo_verifier_def demo_signer_def new_signer_def new_with_internal_ttl_def inst_token_crates_def)
  have H: "hb_token_crates demo_hub = inst_token_crates" "hb_signer demo_hub = demo_signer" by (simp_all add: demo_hub_def)
  note no_more = exchange_gives_no_more [of demo_hub, unfolded H, OF inst_b64u_contract inst_json_contract inst_ed25519_contract V ex]
  then obtain t where t: "Some 1000 = Some t" "\<forall>decode at need. admitted inst_token_crates decode demo_verifier at token need \<longleftrightarrow>
      t \<le> at \<and> at < 4600 \<and> allows (UserGrant {''read''}) need" by auto
  have "admitted inst_token_crates Some demo_verifier 1001 token (NeedScope ''read'')" "\<not> admitted inst_token_crates Some demo_verifier 1001 token (NeedScope ''write'')"
    using t by (simp_all add: user_allows_def)
  then show ?thesis using ex by (intro exI [of _ ?r]) simp
qed

lemma preupload_paths_Inr: "validate_preupload_paths files = Inr u \<longleftrightarrow> (\<forall>f\<in>set files. validate_file_path (pu_path f) = Inr ())"
  by (induction files) (auto simp: result_simps)

text \<open>
  The plan of an upload. A reply means that the caller may write, names the caller's own namespace and a
  repository there, at most ten thousand files, each under a path that a commit accepts; it
  has one answer per file in the order of the request, which sends a file to
  large-file storage exactly when it is over the threshold.
\<close>

theorem preupload_plans_every_file:
  assumes reply: "handle_preupload H fault now tdb D db repo_type authorization (namespace, repo, revision) files = HubReply answers"
  shows "(\<exists>bearer info. extract_bearer_from_request authorization = Some bearer \<and> validate_token (hb_tokens H) fault now bearer tdb = Inr (Some info) \<and>
      scope_allows (ti_scope info) ''write'' \<and> namespace = ti_username info) \<and>
    (\<exists>found. get_repo D db namespace repo repo_type = Inr found) \<and> length files \<le> 10000 \<and>
    (\<forall>f\<in>set files. validate_file_path (pu_path f) = Inr ()) \<and>
    answers = map (\<lambda>f. \<lparr>pf_path = pu_path f, pf_upload_mode = (if pu_size f > hb_inline_threshold H then ''lfs'' else ''regular''), pf_should_ignore = False\<rparr>) files"
proof -
  obtain info where info: "auth_user (hb_tokens H) fault now tdb AuthWrite authorization = Inr info"
    using reply by (auto simp: handle_preupload_def split: sum.splits)
  let ?request = "\<lparr>pr_username = ti_username info, pr_namespace = namespace, pr_repo_name = repo, pr_repo_type = repo_type,
    pr_inline_threshold = hb_inline_threshold H, pr_files = files\<rparr>"
  obtain plan where plan: "prepare_upload D db ?request = Inr plan"
    "answers = map (\<lambda>f. \<lparr>pf_path = pd_path f, pf_upload_mode = upload_mode_to_api (pd_upload_mode f), pf_should_ignore = pd_should_ignore f\<rparr>) plan"
    using reply info by (auto simp: handle_preupload_def split: sum.splits)
  from plan(1) have c: "length files \<le> 10000" "\<forall>f\<in>set files. validate_file_path (pu_path f) = Inr ()" "namespace = ti_username info"
      "\<exists>found. get_repo D db namespace repo repo_type = Inr found"
      "plan = map (\<lambda>f. \<lparr>pd_path = pu_path f, pd_upload_mode = classify_upload_mode (pu_size f) (hb_inline_threshold H), pd_should_ignore = False\<rparr>) files"
    by (auto simp: prepare_upload_def result_simps preupload_paths_Inr validate_preupload_file_count_def MAX_PREUPLOAD_FILES_def
        is_namespace_member_def split: if_splits)
  have "answers = map (\<lambda>f. \<lparr>pf_path = pu_path f, pf_upload_mode = (if pu_size f > hb_inline_threshold H then ''lfs'' else ''regular''), pf_should_ignore = False\<rparr>) files"
    unfolding plan(2) c(5) by (auto simp: classify_upload_mode_def)
  then show ?thesis using c(1-4) info by (auto simp: auth_user_Inr)
qed

theorem preupload_plans_every_file_witness:
  "\<exists>answers. handle_preupload demo_hub (\<lambda>_. False) 2000 demo_tokens_db no_faults demo_db1 Model (Some ''Bearer hf_12'') (''u'', ''r'', ''main'')
       [\<lparr>pu_path = ''a/b'', pu_size = 10\<rparr>, \<lparr>pu_path = ''a/b'', pu_size = 11\<rparr>] = HubReply answers \<and>
     map pf_upload_mode answers = [''regular'', ''lfs'']"
proof -
  let ?files = "[\<lparr>pu_path = ''a/b'', pu_size = 10\<rparr>, \<lparr>pu_path = ''a/b'', pu_size = 11\<rparr>] :: PreuploadFileInput list"
  obtain info where info: "auth_user demo_store (\<lambda>_. False) 2000 demo_tokens_db AuthWrite (Some ''Bearer hf_12'') = Inr info" "ti_username info = ''u''"
    using demo_auth [of AuthWrite] by auto
  have H: "hb_tokens demo_hub = demo_store" "hb_inline_threshold demo_hub = 10" by (simp_all add: demo_hub_def)
  have n: "validate_preupload_file_count (length ?files) = Inr ()" by (simp add: validate_preupload_file_count_def MAX_PREUPLOAD_FILES_def)
  have p: "validate_preupload_paths ?files = Inr ()" by (simp add: preupload_paths_Inr demo_path)
  have "\<exists>plan. prepare_upload no_faults demo_db1 \<lparr>pr_username = ''u'', pr_namespace = ''u'', pr_repo_name = ''r'', pr_repo_type = Model,
      pr_inline_threshold = 10, pr_files = ?files\<rparr> = Inr plan"
    unfolding prepare_upload_def PreuploadRequest.simps n p demo_repo by simp
  then obtain plan where plan: "prepare_upload no_faults demo_db1 \<lparr>pr_username = ''u'', pr_namespace = ''u'', pr_repo_name = ''r'', pr_repo_type = Model,
      pr_inline_threshold = 10, pr_files = ?files\<rparr> = Inr plan" by blast
  have "\<exists>answers. handle_preupload demo_hub (\<lambda>_. False) 2000 demo_tokens_db no_faults demo_db1 Model (Some ''Bearer hf_12'') (''u'', ''r'', ''main'') ?files = HubReply answers"
    unfolding handle_preupload_def H info(1) sum.case Let_def prod.case n info(2) plan by (rule exI, rule refl)
  then obtain answers where a: "handle_preupload demo_hub (\<lambda>_. False) 2000 demo_tokens_db no_faults demo_db1 Model (Some ''Bearer hf_12'') (''u'', ''r'', ''main'') ?files = HubReply answers" by blast
  from preupload_plans_every_file [OF a] have m: "map pf_upload_mode answers = [''regular'', ''lfs'']" by (simp add: H)
  show ?thesis by (rule exI [of _ answers], rule conjI [OF a m])
qed

end
