(* ===== verification/Hub_Lfs.thy ===== *)
theory Hub_Lfs
  imports Hub_Access
begin

text \<open>
  Large files through the front end: its client of the storage server
  (\<^verbatim>\<open>src/hub/src/cas_client/mod.rs\<close>), the tokens and streams of the proxy (\<^verbatim>\<open>src/hub/src/lfs_proxy\<close>), the services
  for batches, objects and uploads (\<^verbatim>\<open>src/hub/src/services/lfs_*.rs\<close>) and the handlers
  (\<^verbatim>\<open>src/hub/src/api/lfs_proxy.rs\<close>).

  The transport is a parameter: what a request is answered, which can be anything, and what it does to the
  state of the other side. So are the crates that parse URLs and JSON. The header \<^verbatim>\<open>Retry-After\<close> of refusals is left out.
\<close>

section \<open>The client of the storage server\<close>

datatype reqwest_error = ReqTimeout | ReqFailed string

record upstream_request =
  uq_method :: string
  uq_url :: string
  uq_token :: "string option"
  uq_body :: bytes

record upstream_response =
  ur_status :: nat
  ur_headers :: "(string \<times> string) list"
  ur_content_length :: "u64 option"
  ur_chunks :: "(reqwest_error + bytes) list"

record 'c CasClient =
  cl_base_url :: string
  cl_max_download_size :: u64
  cl_send :: "upstream_request \<Rightarrow> 'c \<Rightarrow> (reqwest_error + upstream_response) \<times> 'c"

definition BLOB_SIZE_HEADER :: string where
  "BLOB_SIZE_HEADER = ''X-Blob-Size''"

definition MAX_CAS_CONTROL_RESPONSE_SIZE :: u64 where
  "MAX_CAS_CONTROL_RESPONSE_SIZE = 8 * 1024 * 1024"

definition MAX_CAS_ERROR_RESPONSE_SIZE :: u64 where
  "MAX_CAS_ERROR_RESPONSE_SIZE = 64 * 1024"

datatype ResponseBodyError = BodyTooLarge u64 u64 | BodyRead reqwest_error

fun cas_read_error :: "string \<Rightarrow> ResponseBodyError \<Rightarrow> HubError" where
  "cas_read_error context (BodyRead ReqTimeout) = HubCasTimeout"
| "cas_read_error context error = HubCasError (context @ '': response rejected'')"

fun cas_upload_send_error :: "reqwest_error \<Rightarrow> nat \<times> string" where
  "cas_upload_send_error e = (if e = ReqTimeout then 504 else 502, ''CAS request failed'')"

fun cas_send_error :: "reqwest_error \<Rightarrow> HubError" where
  "cas_send_error e = (if e = ReqTimeout then HubCasTimeout else HubCasError ''CAS request failed'')"

fun read_chunks :: "u64 \<Rightarrow> (reqwest_error + bytes) list \<Rightarrow> u64 \<Rightarrow> bytes \<Rightarrow> ResponseBodyError + bytes" where
  "read_chunks max_size [] received body = Inr body"
| "read_chunks max_size (Inl e # chunks) received body = Inl (BodyRead e)"
| "read_chunks max_size (Inr chunk # chunks) received body =
     (if length chunk \<ge> 2 ^ 64 then Inl (BodyTooLarge (- 1) max_size)
      else case checked_add received (of_nat (length chunk)) of
        None \<Rightarrow> Inl (BodyTooLarge (- 1) max_size)
      | Some received \<Rightarrow>
          if received > max_size then Inl (BodyTooLarge received max_size)
          else read_chunks max_size chunks received (body @ chunk))"

definition read_response_body_limited :: "upstream_response \<Rightarrow> u64 \<Rightarrow> ResponseBodyError + bytes" where
  "read_response_body_limited response max_size =
     (case ur_content_length response of
        Some declared_size \<Rightarrow>
          if declared_size > max_size then Inl (BodyTooLarge declared_size max_size)
          else read_chunks max_size (ur_chunks response) 0 []
      | None \<Rightarrow> read_chunks max_size (ur_chunks response) 0 [])"

text \<open>Names of headers are compared without case.\<close>

definition header_get :: "(string \<times> string) list \<Rightarrow> string \<Rightarrow> string option" where
  "header_get headers name = map_option snd (find (\<lambda>h. eq_ignore_ascii_case (fst h) name) headers)"

text \<open>\<^verbatim>\<open>str::parse\<close>: an optional plus sign and digits.\<close>

definition parse_u64 :: "string \<Rightarrow> u64 option" where
  "parse_u64 s =
     (let digits = (case s of c # cs \<Rightarrow> if c = CHR ''+'' then cs else s | [] \<Rightarrow> []) in
      if digits \<noteq> [] \<and> list_all (\<lambda>c. CHR ''0'' \<le> c \<and> c \<le> CHR ''9'') digits
      then let n = foldl (\<lambda>n c. 10 * n + (of_char c - 48)) (0 :: nat) digits in if n < 2 ^ 64 then Some (of_nat n) else None
      else None)"

definition parse_blob_size :: "(string \<times> string) list \<Rightarrow> HubError + u64" where
  "parse_blob_size headers =
     rbind (ok_or (header_get headers BLOB_SIZE_HEADER) (HubCasError ''CAS HEAD response omitted required header'')) (\<lambda>value.
     rbind (ok_or (header_to_str value) (HubCasError ''CAS HEAD response contained a non-text header'')) (\<lambda>value.
     ok_or (parse_u64 value) (HubCasError ''CAS HEAD response contained an invalid header'')))"

definition is_success :: "nat \<Rightarrow> bool" where
  "is_success status \<longleftrightarrow> 200 \<le> status \<and> status < 300"

text \<open>The base URL loses its trailing slashes; \<open>built\<close> says whether the HTTP client could be built.\<close>

definition new_cas_client ::
  "bool \<Rightarrow> string \<Rightarrow> u64 \<Rightarrow> (upstream_request \<Rightarrow> 'c \<Rightarrow> (reqwest_error + upstream_response) \<times> 'c) \<Rightarrow> HubError + 'c CasClient" where
  "new_cas_client built url max_download_size send =
     (if \<not> built then Inl (HubInternal ''Failed to build CAS HTTP client'')
      else Inr \<lparr>cl_base_url = rev (dropWhile (\<lambda>c. c = CHR ''/'') (rev url)), cl_max_download_size = max_download_size, cl_send = send\<rparr>)"

definition client_head_blob :: "'c CasClient \<Rightarrow> string \<Rightarrow> string \<Rightarrow> 'c \<Rightarrow> (HubError + BlobState) \<times> 'c" where
  "client_head_blob self oid internal_token c =
     (case cl_send self \<lparr>uq_method = ''HEAD'', uq_url = cl_base_url self @ ''/internal/blob/'' @ oid, uq_token = Some internal_token, uq_body = []\<rparr> c of
        (Inl e, c) \<Rightarrow> (Inl (cas_send_error e), c)
      | (Inr resp, c) \<Rightarrow>
          (if ur_status resp = 200 then
             rbind (parse_blob_size (ur_headers resp)) (\<lambda>sz.
             let state = (case Option.bind (header_get (ur_headers resp) ''X-Storage-State'') header_to_str of Some v \<Rightarrow> v | None \<Rightarrow> ''raw_only'');
                 file_id = Option.bind (header_get (ur_headers resp) ''X-File-Id'') header_to_str in
             Inr (BlobState.make state file_id sz oid))
           else if ur_status resp = 404 then Inl (HubNotFound (''Blob not found: '' @ oid))
           else Inl (HubCasError ''CAS returned an error''), c))"

text \<open>The answer to an upload; \<open>lossy\<close> turns the body of an error into text.\<close>

definition upload_answer :: "(bytes \<Rightarrow> string) \<Rightarrow> (reqwest_error + upstream_response) \<Rightarrow> nat \<times> string + unit" where
  "upload_answer lossy answer =
     rbind (map_err cas_upload_send_error answer) (\<lambda>resp.
     if is_success (ur_status resp) then Inr ()
     else rbind (map_err (\<lambda>e. (ur_status resp, ''CAS error response rejected'')) (read_response_body_limited resp MAX_CAS_ERROR_RESPONSE_SIZE)) (\<lambda>body.
       Inl (ur_status resp, lossy body)))"

definition client_lfs_upload :: "(bytes \<Rightarrow> string) \<Rightarrow> 'c CasClient \<Rightarrow> string \<Rightarrow> bytes \<Rightarrow> string \<Rightarrow> 'c \<Rightarrow> (nat \<times> string + unit) \<times> 'c" where
  "client_lfs_upload lossy self oid data token c =
     (case cl_send self \<lparr>uq_method = ''PUT'', uq_url = cl_base_url self @ ''/lfs/objects/'' @ oid, uq_token = Some token, uq_body = data\<rparr> c of
        (answer, c) \<Rightarrow> (upload_answer lossy answer, c))"

text \<open>The temporary file is opened and streamed; \<open>opens\<close> says whether that succeeds.\<close>

definition proxy_lfs_upload_from_path ::
  "(bytes \<Rightarrow> string) \<Rightarrow> 'c CasClient \<Rightarrow> bool \<Rightarrow> string \<Rightarrow> bytes \<Rightarrow> string \<Rightarrow> 'c \<Rightarrow> (nat \<times> string + unit) \<times> 'c" where
  "proxy_lfs_upload_from_path lossy self opens oid file token c =
     (if \<not> opens then (Inl (500, ''Failed to open temp file''), c)
      else case cl_send self \<lparr>uq_method = ''PUT'', uq_url = cl_base_url self @ ''/lfs/objects/'' @ oid, uq_token = Some token, uq_body = file\<rparr> c of
        (answer, c) \<Rightarrow> (upload_answer lossy answer, c))"

definition proxy_lfs_download :: "crates \<Rightarrow> 'c CasClient \<Rightarrow> string \<Rightarrow> u64 \<Rightarrow> string \<Rightarrow> 'c \<Rightarrow> (HubError + bytes) \<times> 'c" where
  "proxy_lfs_download C self oid expected_size token c =
     (if expected_size > cl_max_download_size self then (Inl (HubCasError ''Expected CAS object size exceeds configured download limit''), c)
      else case cl_send self \<lparr>uq_method = ''GET'', uq_url = cl_base_url self @ ''/lfs/objects/'' @ oid, uq_token = Some token, uq_body = []\<rparr> c of
        (Inl e, c) \<Rightarrow> (Inl (cas_send_error e), c)
      | (Inr resp, c) \<Rightarrow>
          (if ur_status resp = 200 then
             rbind (map_err (cas_read_error ''CAS download rejected'') (read_response_body_limited resp expected_size)) (\<lambda>body.
             if length body \<ge> 2 ^ 64 then Inl (HubCasError ''CAS download size cannot be represented as u64'')
             else if of_nat (length body) \<noteq> expected_size then Inl (HubCasError ''CAS download size mismatch'')
             else if \<not> eq_ignore_ascii_case (hex_encode C (sha256 C body)) oid then Inl (HubCasError ''CAS download hash mismatch'')
             else Inr body)
           else if ur_status resp = 404 then Inl (HubNotFound (''Object not found: '' @ oid))
           else Inl (HubCasError ''CAS returned an error''), c))"

definition proxy_lfs_download_streaming :: "'c CasClient \<Rightarrow> string \<Rightarrow> string \<Rightarrow> 'c \<Rightarrow> (HubError + (u64 \<times> upstream_response)) \<times> 'c" where
  "proxy_lfs_download_streaming self oid token c =
     (case cl_send self \<lparr>uq_method = ''GET'', uq_url = cl_base_url self @ ''/lfs/objects/'' @ oid, uq_token = Some token, uq_body = []\<rparr> c of
        (Inl e, c) \<Rightarrow> (Inl (cas_send_error e), c)
      | (Inr resp, c) \<Rightarrow>
          (if ur_status resp = 200 then
             let content_length = (case ur_content_length resp of Some n \<Rightarrow> n | None \<Rightarrow> 0) in
             if content_length > cl_max_download_size self then Inl (HubCasError ''Content-Length too large'')
             else Inr (content_length, resp)
           else if ur_status resp = 404 then Inl (HubNotFound (''Object not found: '' @ oid))
           else Inl (HubCasError ''CAS returned an error''), c))"

definition probe :: "'c CasClient \<Rightarrow> string \<Rightarrow> string \<Rightarrow> 'c \<Rightarrow> (HubError + bool) \<times> 'c" where
  "probe self path failure c =
     (case cl_send self \<lparr>uq_method = ''GET'', uq_url = cl_base_url self @ path, uq_token = None, uq_body = []\<rparr> c of
        (Inr resp, c) \<Rightarrow> (Inr (is_success (ur_status resp)), c)
      | (Inl e, c) \<Rightarrow> (Inl (HubCasError failure), c))"

definition health_check :: "'c CasClient \<Rightarrow> 'c \<Rightarrow> (HubError + bool) \<times> 'c" where
  "health_check self = probe self ''/health'' ''Health check failed''"

definition readiness_check :: "'c CasClient \<Rightarrow> 'c \<Rightarrow> (HubError + bool) \<times> 'c" where
  "readiness_check self = probe self ''/ready'' ''Readiness check failed''"


section \<open>JSON values\<close>

text \<open>Values as the JSON crate has them: an object has each key once, a number is kept as its text.\<close>

datatype json = JNull | JBool bool | JNumber string | JString string | JArray "json list" | JObject "(string \<times> json) list"

fun json_get :: "string \<Rightarrow> json \<Rightarrow> json option" where
  "json_get key (JObject kvs) = map_of kvs key"
| "json_get key _ = None"

fun json_as_str :: "json \<Rightarrow> string option" where
  "json_as_str (JString s) = Some s"
| "json_as_str _ = None"

fun json_as_array :: "json \<Rightarrow> json list option" where
  "json_as_array (JArray xs) = Some xs"
| "json_as_array _ = None"

fun json_insert :: "string \<Rightarrow> json \<Rightarrow> json \<Rightarrow> json" where
  "json_insert key v (JObject kvs) = JObject (AList.update key v kvs)"
| "json_insert key v other = other"

fun json_remove :: "string \<Rightarrow> json \<Rightarrow> json" where
  "json_remove key (JObject kvs) = JObject (AList.delete key kvs)"
| "json_remove key other = other"

record json_crate =
  jc_to_vec :: "json \<Rightarrow> bytes"
  jc_from_slice :: "bytes \<Rightarrow> json option"
  jc_blob_state :: "bytes \<Rightarrow> BlobState option"

definition get_state :: "json_crate \<Rightarrow> 'c CasClient \<Rightarrow> string \<Rightarrow> string \<Rightarrow> 'c \<Rightarrow> (HubError + BlobState option) \<times> 'c" where
  "get_state J self oid internal_token c =
     (case cl_send self \<lparr>uq_method = ''GET'', uq_url = cl_base_url self @ ''/internal/state/'' @ oid, uq_token = Some internal_token, uq_body = []\<rparr> c of
        (Inl e, c) \<Rightarrow> (Inl (cas_send_error e), c)
      | (Inr resp, c) \<Rightarrow>
          (if ur_status resp = 200 then
             rbind (map_err (cas_read_error ''CAS state response rejected'') (read_response_body_limited resp MAX_CAS_CONTROL_RESPONSE_SIZE)) (\<lambda>body.
             rbind (ok_or (jc_blob_state J body) (HubCasError ''Invalid CAS state response'')) (\<lambda>state. Inr (Some state)))
           else if ur_status resp = 404 then Inr None
           else Inl (HubCasError ''CAS returned an error''), c))"

definition proxy_batch :: "json_crate \<Rightarrow> 'c CasClient \<Rightarrow> json \<Rightarrow> string \<Rightarrow> 'c \<Rightarrow> (HubError + json) \<times> 'c" where
  "proxy_batch J self body token c =
     (case cl_send self \<lparr>uq_method = ''POST'', uq_url = cl_base_url self @ ''/objects/batch'', uq_token = Some token, uq_body = jc_to_vec J body\<rparr> c of
        (Inl e, c) \<Rightarrow> (Inl (cas_send_error e), c)
      | (Inr resp, c) \<Rightarrow>
          (rbind (map_err (cas_read_error ''CAS batch response rejected'') (read_response_body_limited resp MAX_CAS_CONTROL_RESPONSE_SIZE)) (\<lambda>response_body.
           rbind (ok_or (jc_from_slice J response_body) (HubCasError ''Invalid CAS batch response'')) (\<lambda>response_body.
           if ur_status resp \<ge> 400 then Inl (HubCasError ''CAS batch error'') else Inr response_body)), c))"

section \<open>Tokens of the proxy\<close>

text \<open>What a handler reads of the request. \<open>hr_decode\<close> is base64, \<open>hr_percent\<close> the percent decoding of a query to UTF-8.\<close>

record hub_request =
  hr_authorization :: "string option"
  hr_query :: "string option"
  hr_decode :: "string \<Rightarrow> string option"
  hr_percent :: "string \<Rightarrow> string option"

definition extract_token :: "hub_request \<Rightarrow> string option" where
  "extract_token req =
     Option.bind (Option.bind (hr_authorization req) header_to_str) (\<lambda>auth_str.
     case strip_prefix ''Bearer '' auth_str of
       Some token \<Rightarrow> Some token
     | None \<Rightarrow>
         Option.bind (strip_prefix ''Basic '' auth_str) (\<lambda>encoded.
         Option.bind (Option.bind (hr_decode req encoded) (\<lambda>decoded. if utf8_valid decoded then Some decoded else None)) (\<lambda>creds.
         map_option snd (split_once CHR '':'' creds))))"

fun query_token :: "(string \<Rightarrow> string option) \<Rightarrow> string list \<Rightarrow> string option" where
  "query_token percent [] = None"
| "query_token percent (pair # pairs) =
     (case split_once CHR ''='' pair of
        None \<Rightarrow> query_token percent pairs
      | Some (key, value) \<Rightarrow>
          if key \<noteq> ''token'' then query_token percent pairs
          else case percent value of
            None \<Rightarrow> query_token percent pairs
          | Some decoded \<Rightarrow> if strip_prefix ''proxy_'' decoded \<noteq> None then Some decoded else query_token percent pairs)"

definition extract_proxy_token :: "hub_request \<Rightarrow> string option" where
  "extract_proxy_token req =
     (case Option.bind (hr_query req) (\<lambda>query. query_token (hr_percent req) (str_split (\<lambda>c. c = CHR ''&'') query)) of
        Some token \<Rightarrow> Some token
      | None \<Rightarrow> extract_token req)"

definition validate_proxy_token :: "('sk, 'pk) token_crates \<Rightarrow> u64 option \<Rightarrow> string \<Rightarrow> string \<Rightarrow> string \<Rightarrow> 'sk XetSigner \<Rightarrow> bool" where
  "validate_proxy_token K clock token expected_oid expected_operation signer =
     (case verify_proxy_token K signer clock token of
        None \<Rightarrow> False
      | Some claims \<Rightarrow>
          if xc_token_type claims \<noteq> ''proxy'' then False
          else if \<not> list_ex (\<lambda>scope. scope = ''lfs-'' @ expected_operation) (split_whitespace (xc_scope claims)) then False
          else if xc_oid claims \<noteq> Some expected_oid then False
          else if xc_operation claims \<noteq> Some expected_operation then False
          else True)"

definition validate_oid :: "string \<Rightarrow> bool" where
  "validate_oid oid \<longleftrightarrow> length oid = 64 \<and> list_all is_ascii_hexdigit oid"

datatype LfsObjectOperation = OpUpload | OpDownload

fun lfs_operation_name :: "LfsObjectOperation \<Rightarrow> string" where
  "lfs_operation_name OpUpload = ''upload''"
| "lfs_operation_name OpDownload = ''download''"

datatype LfsObjectGuardError = InvalidOid | InvalidProxyToken

definition guard_authorize ::
  "('sk, 'pk) token_crates \<Rightarrow> 'sk XetSigner \<Rightarrow> u64 option \<Rightarrow> string \<Rightarrow> string \<Rightarrow> LfsObjectOperation \<Rightarrow> LfsObjectGuardError + unit" where
  "guard_authorize K signer clock token oid operation =
     (if \<not> validate_oid oid then Inl InvalidOid
      else if \<not> validate_proxy_token K clock token oid (lfs_operation_name operation) signer then Inl InvalidProxyToken
      else Inr ())"

section \<open>Streams\<close>

text \<open>
  The stream of a download under a limit. The sum wraps in a release build; a poll that is pending
  yields nothing.
\<close>

fun max_bytes_stream :: "u64 \<Rightarrow> u64 \<Rightarrow> (string + bytes) list \<Rightarrow> (string + bytes) list" where
  "max_bytes_stream max_bytes bytes_read [] = []"
| "max_bytes_stream max_bytes bytes_read (Inl err # items) = Inl err # max_bytes_stream max_bytes bytes_read items"
| "max_bytes_stream max_bytes bytes_read (Inr chunk # items) =
     (let bytes_read = bytes_read + of_nat (length chunk) in
      (if bytes_read > max_bytes then Inl ''Stream exceeded maximum size'' else Inr chunk) # max_bytes_stream max_bytes bytes_read items)"

section \<open>Uploads\<close>

datatype LfsUploadStoreError =
    CreateTempDir
  | CreateTempFile
  | ReadPayload string
  | PayloadTooLarge u64 u64
  | WriteTempFile
  | FlushTempFile
  | StoreQuota

datatype LfsUploadServiceError = Store LfsUploadStoreError | HashMismatch string u64 | Cas nat string

text \<open>
  One step per chunk: the limit, the reservation, the hasher, the write, the commit. The
  hasher is the data it has seen. With no manager nothing is reserved.
\<close>

fun write_chunks ::
  "host_io \<Rightarrow> u64 \<Rightarrow> nat \<Rightarrow> (string + bytes) list \<Rightarrow> u64 \<Rightarrow> bytes \<Rightarrow> bytes \<Rightarrow> TempReservation option \<Rightarrow> TempQuotaLedger \<Rightarrow>
     (LfsUploadStoreError + (u64 \<times> bytes \<times> bytes)) \<times> TempReservation option \<times> TempQuotaLedger" where
  "write_chunks io max_upload_size n [] received hashed file res l = (Inr (received, hashed, file), res, l)"
| "write_chunks io max_upload_size n (Inl err # payload) received hashed file res l = (Inl (ReadPayload err), res, l)"
| "write_chunks io max_upload_size n (Inr chunk # payload) received hashed file res l =
     (case checked_add received (of_nat (length chunk)) of
        None \<Rightarrow> (Inl StoreQuota, res, l)
      | Some received \<Rightarrow>
          if received > max_upload_size then (Inl (PayloadTooLarge received max_upload_size), res, l)
          else
            case (case res of
                    None \<Rightarrow> (Inr (), None, l)
                  | Some r \<Rightarrow> (case reserve_additional l r (of_nat (length chunk)) of (x, r, l) \<Rightarrow> (x, Some r, l))) of
              (Inl _, res, l) \<Rightarrow> (Inl StoreQuota, res, l)
            | (Inr _, res, l) \<Rightarrow>
                if \<not> io_write io n then (Inl WriteTempFile, res, l)
                else
                  case (case res of
                          None \<Rightarrow> (Inr (), None, l)
                        | Some r \<Rightarrow> (case commit_written l r (of_nat (length chunk)) of (x, r, l) \<Rightarrow> (x, Some r, l))) of
                    (Inl _, res, l) \<Rightarrow> (Inl StoreQuota, res, l)
                  | (Inr _, res, l) \<Rightarrow> write_chunks io max_upload_size (Suc n) payload received (hashed @ chunk) (file @ chunk) res l)"

definition drop_upload :: "TempReservation option \<Rightarrow> TempQuotaLedger \<Rightarrow> TempQuotaLedger" where
  "drop_upload res l = (case res of None \<Rightarrow> l | Some r \<Rightarrow> drop_reservation l r)"

record StoredLfsUpload =
  su_file :: bytes
  su_size :: u64
  su_sha256 :: string
  su_reservation :: "TempReservation option"

definition write_payload_to_temp_file_inner ::
  "crates \<Rightarrow> host_io \<Rightarrow> (string + bytes) list \<Rightarrow> u64 \<Rightarrow> bool \<Rightarrow> TempQuotaLedger \<Rightarrow> (LfsUploadStoreError + StoredLfsUpload) \<times> TempQuotaLedger" where
  "write_payload_to_temp_file_inner C io payload max_upload_size managed l =
     (if \<not> io_create_dir io then (Inl CreateTempDir, l)
      else if \<not> io_create_file io then (Inl CreateTempFile, l)
      else
        case (if managed then (case manager_reserve (io_available io) l 0 of (x, l) \<Rightarrow> (map_err (\<lambda>_. StoreQuota) (map_sum id Some x), l))
              else (Inr None, l)) of
          (Inl e, l) \<Rightarrow> (Inl e, l)
        | (Inr res, l) \<Rightarrow>
            (case write_chunks io max_upload_size 0 payload 0 [] [] res l of
               (Inl e, res, l) \<Rightarrow> (Inl e, drop_upload res l)
             | (Inr (received, hashed, file), res, l) \<Rightarrow>
                 if \<not> io_flush io then (Inl FlushTempFile, drop_upload res l)
                 else (Inr \<lparr>su_file = file, su_size = received, su_sha256 = hex_encode C (sha256 C hashed), su_reservation = res\<rparr>, l)))"

text \<open>The stored upload is dropped when the service returns.\<close>

definition upload ::
  "crates \<Rightarrow> (bytes \<Rightarrow> string) \<Rightarrow> 'c CasClient \<Rightarrow> bool \<Rightarrow> host_io \<Rightarrow> bool \<Rightarrow> string \<Rightarrow> string \<Rightarrow> (string + bytes) list \<Rightarrow> u64 \<Rightarrow>
     TempQuotaLedger \<Rightarrow> 'c \<Rightarrow> (LfsUploadServiceError + unit) \<times> TempQuotaLedger \<times> 'c" where
  "upload C lossy client managed io opens oid token payload max_upload_size l c =
     (case write_payload_to_temp_file_inner C io payload max_upload_size managed l of
        (Inl e, l) \<Rightarrow> (Inl (Store e), l, c)
      | (Inr stored, l) \<Rightarrow>
          if su_sha256 stored \<noteq> oid then (Inl (HashMismatch (su_sha256 stored) (su_size stored)), drop_upload (su_reservation stored) l, c)
          else (case proxy_lfs_upload_from_path lossy client opens oid (su_file stored) token c of
             (result, c) \<Rightarrow> (map_err (\<lambda>(status, message). Cas status message) result, drop_upload (su_reservation stored) l, c)))"

section \<open>Batches\<close>

text \<open>What the proxy uses of the URL crate; a setter that is refused leaves the URL as it is.\<close>

record 'u url_crate =
  uc_parse :: "string \<Rightarrow> 'u option"
  uc_scheme :: "'u \<Rightarrow> string"
  uc_host_str :: "'u \<Rightarrow> string option"
  uc_port :: "'u \<Rightarrow> nat option"
  uc_set_scheme :: "string \<Rightarrow> 'u \<Rightarrow> 'u"
  uc_set_host :: "string option \<Rightarrow> 'u \<Rightarrow> 'u"
  uc_set_port :: "nat option \<Rightarrow> 'u \<Rightarrow> 'u"
  uc_append_pair :: "string \<Rightarrow> string \<Rightarrow> 'u \<Rightarrow> 'u"
  uc_to_string :: "'u \<Rightarrow> string"

definition MAX_HUB_BATCH_SIZE :: nat where
  "MAX_HUB_BATCH_SIZE = 1000"

definition rewrite_action_url :: "'u url_crate \<Rightarrow> json \<Rightarrow> 'u \<Rightarrow> string \<Rightarrow> bool \<times> json" where
  "rewrite_action_url U action hub_url proxy_token =
     (case Option.bind (Option.bind (json_get ''href'' action) json_as_str) (uc_parse U) of
        None \<Rightarrow> (False, action)
      | Some url \<Rightarrow>
          let url = uc_set_scheme U (uc_scheme U hub_url) url;
              url = uc_set_host U (uc_host_str U hub_url) url;
              url = (case uc_port U hub_url of Some port \<Rightarrow> uc_set_port U (Some port) url | None \<Rightarrow> uc_set_port U None url);
              url = uc_append_pair U ''token'' proxy_token url;
              action = json_insert ''href'' (JString (uc_to_string U url)) action;
              action = (case Option.bind (json_get ''header'' action) (json_get ''Authorization'') of
                 None \<Rightarrow> action
               | Some _ \<Rightarrow>
                   (case json_get ''header'' action of
                      None \<Rightarrow> action
                    | Some header \<Rightarrow>
                        json_insert ''header'' (json_insert ''Authorization'' (JString (''Bearer '' @ proxy_token)) header) action))
          in (True, action))"

text \<open>One of the two actions of an object.\<close>

definition rewrite_action ::
  "('sk, 'pk) token_crates \<Rightarrow> 'u url_crate \<Rightarrow> 'sk XetSigner \<Rightarrow> u64 option \<Rightarrow> 'u \<Rightarrow> string \<Rightarrow> string \<Rightarrow> string \<Rightarrow> json \<Rightarrow> json" where
  "rewrite_action K U signer clock hub_url username oid operation actions =
     (case json_get operation actions of
        None \<Rightarrow> actions
      | Some action \<Rightarrow>
          (case sign_proxy K signer clock username oid operation [] [] of
             Inr (proxy_token, _) \<Rightarrow>
               (case rewrite_action_url U action hub_url proxy_token of
                  (True, action) \<Rightarrow> json_insert operation action actions
                | (False, _) \<Rightarrow> json_remove operation actions)
           | Inl _ \<Rightarrow> json_remove operation actions))"

definition rewrite_object ::
  "('sk, 'pk) token_crates \<Rightarrow> 'u url_crate \<Rightarrow> 'sk XetSigner \<Rightarrow> u64 option \<times> u64 option \<Rightarrow> 'u \<Rightarrow> string \<Rightarrow> json \<Rightarrow> json" where
  "rewrite_object K U signer clocks hub_url username obj =
     (let oid = (case Option.bind (json_get ''oid'' obj) json_as_str of Some oid \<Rightarrow> oid | None \<Rightarrow> []) in
      if \<not> validate_oid oid then obj
      else case json_get ''actions'' obj of
        None \<Rightarrow> obj
      | Some actions \<Rightarrow>
          json_insert ''actions''
            (rewrite_action K U signer (snd clocks) hub_url username oid ''download''
              (rewrite_action K U signer (fst clocks) hub_url username oid ''upload'' actions)) obj)"

text \<open>Object \<open>i\<close> is signed at the times \<open>clock i\<close>.\<close>

definition rewrite_batch_urls ::
  "('sk, 'pk) token_crates \<Rightarrow> 'u url_crate \<Rightarrow> 'sk XetSigner \<Rightarrow> (nat \<Rightarrow> u64 option \<times> u64 option) \<Rightarrow> string \<Rightarrow> string \<Rightarrow> json \<Rightarrow> json" where
  "rewrite_batch_urls K U signer clock hub_base username response =
     (case uc_parse U hub_base of
        None \<Rightarrow> response
      | Some hub_url \<Rightarrow>
          (case Option.bind (json_get ''objects'' response) json_as_array of
             None \<Rightarrow> response
           | Some arr \<Rightarrow>
               json_insert ''objects'' (JArray (map (\<lambda>i. rewrite_object K U signer (clock i) hub_url username (arr ! i)) [0..<length arr])) response))"

datatype LfsBatchServiceError =
    BatchInvalidToken
  | BatchValidation string
  | BatchAuthorization string
  | BatchBadGateway string
  | BatchGatewayTimeout string
  | BatchInternal string

definition lfs_batch_service ::
  "TokenStore \<Rightarrow> ('sk, 'pk) token_crates \<Rightarrow> 'sk XetSigner \<Rightarrow> json_crate \<Rightarrow> 'u url_crate \<Rightarrow> 'c CasClient \<Rightarrow>
     (nat \<Rightarrow> bool) \<Rightarrow> u64 \<Rightarrow> token_db \<Rightarrow> u64 option \<Rightarrow> (nat \<Rightarrow> u64 option \<times> u64 option) \<Rightarrow> string \<Rightarrow> json \<Rightarrow> string \<Rightarrow> 'c \<Rightarrow>
     (LfsBatchServiceError + json) \<times> 'c" where
  "lfs_batch_service store K signer J U client fault now tdb clock clocks user_token body hub_base_url c =
     (case validate_token store fault now user_token tdb of
        Inl _ \<Rightarrow> (Inl (BatchInternal ''Database error''), c)
      | Inr None \<Rightarrow> (Inl BatchInvalidToken, c)
      | Inr (Some token_info) \<Rightarrow>
          let operation = (case Option.bind (json_get ''operation'' body) json_as_str of Some operation \<Rightarrow> operation | None \<Rightarrow> ''download'') in
          if operation \<notin> {''upload'', ''download''} then (Inl (BatchValidation (''Invalid operation: '' @ operation)), c)
          else
            let required_scope = (if operation = ''upload'' then ''write'' else ''read'');
                object_count = (case Option.bind (json_get ''objects'' body) json_as_array of Some objects \<Rightarrow> length objects | None \<Rightarrow> 0) in
            if \<not> scope_allows (ti_scope token_info) required_scope then (Inl (BatchAuthorization ''Token scope insufficient''), c)
            else if object_count > MAX_HUB_BATCH_SIZE then (Inl (BatchValidation ''Too many objects''), c)
            else
              (case sign K signer clock (ti_username token_info) required_scope [] [] [] of
                 Inl _ \<Rightarrow> (Inl (BatchInternal ''Failed to sign CAS batch token''), c)
               | Inr (cas_batch_token, _) \<Rightarrow>
                   (case proxy_batch J client body cas_batch_token c of
                      (Inl HubCasTimeout, c) \<Rightarrow> (Inl (BatchGatewayTimeout ''CAS request timed out''), c)
                    | (Inl _, c) \<Rightarrow> (Inl (BatchBadGateway ''CAS error''), c)
                    | (Inr response, c) \<Rightarrow>
                        (Inr (rewrite_batch_urls K U signer clocks hub_base_url (ti_username token_info) response), c))))"

section \<open>Handlers\<close>

definition CAS_ERROR_MESSAGE :: string where
  "CAS_ERROR_MESSAGE = ''Upstream CAS request failed''"

definition missing_authorization :: "'a hub_reply" where
  "missing_authorization = HubFailure 401 ''Missing authorization'' ''AuthenticationError''"

fun lfs_batch_error_response :: "LfsBatchServiceError \<Rightarrow> 'a hub_reply" where
  "lfs_batch_error_response BatchInvalidToken = HubFailure 401 ''Invalid token'' ''AuthenticationError''"
| "lfs_batch_error_response (BatchValidation message) = HubFailure 400 message ''ValidationError''"
| "lfs_batch_error_response (BatchAuthorization message) = HubFailure 403 message ''AuthorizationError''"
| "lfs_batch_error_response (BatchBadGateway message) = HubFailure 502 CAS_ERROR_MESSAGE ''BadGateway''"
| "lfs_batch_error_response (BatchGatewayTimeout message) = HubFailure 504 CAS_ERROR_MESSAGE ''GatewayTimeout''"
| "lfs_batch_error_response (BatchInternal message) = hub_internal_error"

fun lfs_object_guard_error_response :: "LfsObjectGuardError \<Rightarrow> 'a hub_reply" where
  "lfs_object_guard_error_response InvalidOid = HubFailure 400 ''Invalid OID format'' ''ValidationError''"
| "lfs_object_guard_error_response InvalidProxyToken = HubFailure 401 ''Invalid or expired proxy token'' ''AuthenticationError''"

fun lfs_upload_store_error_response :: "LfsUploadStoreError \<Rightarrow> 'a hub_reply" where
  "lfs_upload_store_error_response (ReadPayload message) = HubFailure 400 ''Error reading upload data'' ''ClientError''"
| "lfs_upload_store_error_response (PayloadTooLarge actual limit) = HubFailure 413 ''Upload too large'' ''PayloadTooLarge''"
| "lfs_upload_store_error_response StoreQuota = HubFailure 503 ''Temporary storage unavailable'' ''ServiceUnavailable''"
| "lfs_upload_store_error_response _ = hub_internal_error"

fun lfs_upload_service_error_response :: "LfsUploadServiceError \<Rightarrow> 'a hub_reply" where
  "lfs_upload_service_error_response (Store err) = lfs_upload_store_error_response err"
| "lfs_upload_service_error_response (HashMismatch computed sz) = HubFailure 400 ''Hash mismatch: uploaded content does not match OID'' ''ValidationError''"
| "lfs_upload_service_error_response (Cas status message) =
     (let status_code = (if 100 \<le> status \<and> status < 1000 then status else 502) in
      if status_code = 504 then HubFailure 504 CAS_ERROR_MESSAGE ''GatewayTimeout''
      else HubFailure (if 500 \<le> status_code \<and> status_code < 600 then 502 else status_code) CAS_ERROR_MESSAGE ''CasError'')"

text \<open>What the handlers of large files are given beside the request.\<close>

record ('sk, 'pk, 'u, 'c) lfs_hub =
  lh_hub :: "('sk, 'pk) hub"
  lh_crates :: crates
  lh_json :: json_crate
  lh_url :: "'u url_crate"
  lh_client :: "'c CasClient"
  lh_lossy :: "bytes \<Rightarrow> string"
  lh_base_url :: string
  lh_max_upload_size :: u64
  lh_max_download_size :: u64
  lh_temp_quota_bytes :: u64
  lh_temp_min_free_bytes :: u64

definition lfs_batch ::
  "('sk, 'pk, 'u, 'c) lfs_hub \<Rightarrow> (nat \<Rightarrow> bool) \<Rightarrow> u64 \<Rightarrow> token_db \<Rightarrow> u64 option \<Rightarrow> (nat \<Rightarrow> u64 option \<times> u64 option) \<Rightarrow> hub_request \<Rightarrow> json \<Rightarrow> 'c \<Rightarrow>
     json hub_reply \<times> 'c" where
  "lfs_batch L fault now tdb clock clocks req body c =
     (case extract_token req of
        None \<Rightarrow> (missing_authorization, c)
      | Some token \<Rightarrow>
          (case lfs_batch_service (hb_tokens (lh_hub L)) (hb_token_crates (lh_hub L)) (hb_signer (lh_hub L)) (lh_json L) (lh_url L) (lh_client L)
              fault now tdb clock clocks token body (lh_base_url L) c of
             (Inr response, c) \<Rightarrow> (HubReply response, c)
           | (Inl err, c) \<Rightarrow> (lfs_batch_error_response err, c)))"

text \<open>Without a shared ledger the upload gets one of its own. The missing error type of its refusal is the empty text.\<close>

definition lfs_upload ::
  "('sk, 'pk, 'u, 'c) lfs_hub \<Rightarrow> host_io \<Rightarrow> bool \<Rightarrow> u64 option \<Rightarrow> hub_request \<Rightarrow> string \<Rightarrow> (string + bytes) list \<Rightarrow> TempQuotaLedger option \<Rightarrow> 'c \<Rightarrow>
     unit hub_reply \<times> TempQuotaLedger option \<times> 'c" where
  "lfs_upload L io opens clock req oid payload temp_quota c =
     (case extract_proxy_token req of
        None \<Rightarrow> (missing_authorization, temp_quota, c)
      | Some token \<Rightarrow>
     (case guard_authorize (hb_token_crates (lh_hub L)) (hb_signer (lh_hub L)) clock token oid OpUpload of
        Inl err \<Rightarrow> (lfs_object_guard_error_response err, temp_quota, c)
      | Inr _ \<Rightarrow>
     (case (case temp_quota of Some ledger \<Rightarrow> Inr ledger | None \<Rightarrow> ledger_new (lh_temp_quota_bytes L) (lh_temp_min_free_bytes L)) of
        Inl _ \<Rightarrow> (HubFailure 503 ''Temporary storage unavailable'' [], temp_quota, c)
      | Inr manager \<Rightarrow>
     (case upload (lh_crates L) (lh_lossy L) (lh_client L) True io opens oid token payload (lh_max_upload_size L) manager c of
        (Inr _, manager, c) \<Rightarrow> (HubReply (), map_option (\<lambda>_. manager) temp_quota, c)
      | (Inl err, manager, c) \<Rightarrow> (lfs_upload_service_error_response err, map_option (\<lambda>_. manager) temp_quota, c)))))"

text \<open>The reply of a download is the declared length, if it is not zero, and the stream.\<close>

definition lfs_download ::
  "('sk, 'pk, 'u, 'c) lfs_hub \<Rightarrow> u64 option \<Rightarrow> hub_request \<Rightarrow> string \<Rightarrow> 'c \<Rightarrow> (u64 option \<times> (string + bytes) list) hub_reply \<times> 'c" where
  "lfs_download L clock req oid c =
     (case extract_proxy_token req of
        None \<Rightarrow> (missing_authorization, c)
      | Some token \<Rightarrow>
     (case guard_authorize (hb_token_crates (lh_hub L)) (hb_signer (lh_hub L)) clock token oid OpDownload of
        Inl err \<Rightarrow> (lfs_object_guard_error_response err, c)
      | Inr _ \<Rightarrow>
     (case proxy_lfs_download_streaming (lh_client L) oid token c of
        (Inr (content_length, resp), c) \<Rightarrow>
          (HubReply (if content_length > 0 then Some content_length else None,
             max_bytes_stream (lh_max_download_size L) 0 (map (map_err (\<lambda>_. ''read error'')) (ur_chunks resp))), c)
      | (Inl (HubNotFound m), c) \<Rightarrow> (HubFailure 404 (hub_error_message (HubNotFound m)) ''NotFoundError'', c)
      | (Inl HubCasTimeout, c) \<Rightarrow> (HubFailure 504 CAS_ERROR_MESSAGE ''GatewayTimeout'', c)
      | (Inl _, c) \<Rightarrow> (HubFailure 502 CAS_ERROR_MESSAGE ''BadGateway'', c))))"


section \<open>Bodies are bounded\<close>

lemma read_chunks_Inr:
  "read_chunks limit chunks received body = Inr out \<Longrightarrow> unat received = length body \<Longrightarrow> received \<le> limit \<Longrightarrow>
     length out \<le> unat limit \<and> (\<exists>cs. chunks = map Inr cs \<and> out = body @ concat cs)"
proof (induction limit chunks received body rule: read_chunks.induct)
  case (3 limit chunk chunks received body)
  from 3(2) obtain t where t: "\<not> 2 ^ 64 \<le> length chunk" "checked_add received (of_nat (length chunk)) = Some t" "\<not> limit < t"
      "read_chunks limit chunks t (body @ chunk) = Inr out"
    by (auto split: if_splits option.splits)
  have "unat t = length (body @ chunk)" using unat_checked_add [OF t(2)] 3(3) t(1) by (simp add: unat_of_nat)
  moreover have "t \<le> limit" using t(3) by simp
  ultimately obtain cs where "length out \<le> unat limit" "chunks = map Inr cs" "out = (body @ chunk) @ concat cs"
    using 3(1) [OF t(1-4)] by auto
  then show ?case by (intro conjI exI [of _ "chunk # cs"]) simp_all
qed (auto simp: word_le_nat_alt)

lemma read_limited_Inr:
  assumes "read_response_body_limited resp limit = Inr body"
  shows "length body \<le> unat limit \<and> (\<exists>cs. ur_chunks resp = map Inr cs \<and> body = concat cs)"
proof -
  have "read_chunks limit (ur_chunks resp) 0 [] = Inr body"
    using assms by (auto simp: read_response_body_limited_def split: option.splits if_splits)
  from read_chunks_Inr [OF this] show ?thesis by simp
qed

text \<open>
  Content that the front end reads for itself is what its object identifier names. Whatever
  the other side answers, a download into memory succeeds only with exactly the expected
  number of bytes, within the configured limit, whose SHA-256 is the identifier up to the
  case of its digits; the bytes are the body of an answer with status 200.
\<close>

theorem client_download_verified:
  assumes "proxy_lfs_download C client oid expected token c = (Inr body, c')"
  shows "length body = unat expected \<and> expected \<le> cl_max_download_size client \<and>
    eq_ignore_ascii_case (hex_encode C (sha256 C body)) oid \<and>
    (\<exists>resp cs. cl_send client \<lparr>uq_method = ''GET'', uq_url = cl_base_url client @ ''/lfs/objects/'' @ oid, uq_token = Some token, uq_body = []\<rparr> c =
       (Inr resp, c') \<and> ur_status resp = 200 \<and> ur_chunks resp = map Inr cs \<and> body = concat cs)"
proof -
  let ?q = "\<lparr>uq_method = ''GET'', uq_url = cl_base_url client @ ''/lfs/objects/'' @ oid, uq_token = Some token, uq_body = []\<rparr>"
  obtain answer c1 where s: "cl_send client ?q c = (answer, c1)" by (metis surj_pair)
  from assms s obtain resp where r: "answer = Inr resp" "c' = c1" "ur_status resp = 200" "\<not> cl_max_download_size client < expected"
      "read_response_body_limited resp expected = Inr body" "length body < 2 ^ 64" "of_nat (length body) = expected"
      "eq_ignore_ascii_case (hex_encode C (sha256 C body)) oid"
    by (auto simp: proxy_lfs_download_def result_simps not_le split: if_splits sum.splits)
  have "length body = unat expected" using r(6,7) by (auto simp: unat_of_nat)
  with r s read_limited_Inr [OF r(5)] show ?thesis by auto
qed

definition one_chunk_client :: "unit CasClient" where
  "one_chunk_client = \<lparr>cl_base_url = ''http://c'', cl_max_download_size = 10,
     cl_send = (\<lambda>q c. (Inr \<lparr>ur_status = 200, ur_headers = [], ur_content_length = None, ur_chunks = [Inr [1, 2]]\<rparr>, c))\<rparr>"

theorem client_download_verified_witness:
  "fst (proxy_lfs_download inst_crates one_chunk_client (hex_of_bytes (pad_digest [1, 2])) 2 ''t'' ()) = Inr [1, 2] \<and> length ([1, 2] :: bytes) = unat (2 :: u64)"
proof -
  have run: "proxy_lfs_download inst_crates one_chunk_client (hex_of_bytes (pad_digest [1, 2])) 2 ''t'' () = (Inr [1, 2], ())"
    by (simp add: proxy_lfs_download_def one_chunk_client_def read_response_body_limited_def checked_add_def eq_ignore_ascii_case_def)
  from client_download_verified [OF run] run show ?thesis by simp
qed

section \<open>The tokens of the proxy\<close>

lemma proxy_claims:
  assumes "sign_proxy K signer clock sub oid operation repo_id repo_type = Inr (token, exp)"
  obtains t where "clock = Some t" "sign_claims K \<lparr>xc_sub = sub, xc_scope = ''lfs-'' @ operation, xc_repo_id = repo_id, xc_repo_type = repo_type,
    xc_revision = [], xc_exp = exp, xc_iat = t, xc_kid = xs_kid signer, xc_token_type = ''proxy'', xc_oid = Some oid, xc_operation = Some operation\<rparr>
    (xs_signing_key signer) Proxy = Inr token"
proof (cases clock)
  case None
  with assms show thesis by (simp add: sign_proxy_def signer_now_def result_simps)
next
  case (Some t)
  have "sign_claims K \<lparr>xc_sub = sub, xc_scope = ''lfs-'' @ operation, xc_repo_id = repo_id, xc_repo_type = repo_type,
    xc_revision = [], xc_exp = exp, xc_iat = t, xc_kid = xs_kid signer, xc_token_type = ''proxy'', xc_oid = Some oid, xc_operation = Some operation\<rparr>
    (xs_signing_key signer) Proxy = Inr token"
    using assms [unfolded Some] by (auto simp: sign_proxy_def signer_now_def result_simps signer_Inr)
  with Some that show thesis by blast
qed

lemma sign_claims_validates: "json_contract K \<Longrightarrow> sign_claims K claims sk kind = Inr token \<Longrightarrow> validate_claims_for_kind claims kind = Inr ()"
  by (simp add: sign_claims_def result_simps)

lemma validate_proxy_issued:
  assumes K: "b64u_contract K" "json_contract K" "ed25519_contract K"
    and s: "sign_proxy K signer (Some t) sub oid operation repo_id repo_type = Inr (token, exp)"
  shows "validate_proxy_token K (Some now) token oid' operation' signer \<longleftrightarrow> t \<le> now \<and> now < exp \<and> oid' = oid \<and> operation' = operation"
    "operation = ''upload'' \<or> operation = ''download''"
proof -
  let ?c = "\<lparr>xc_sub = sub, xc_scope = ''lfs-'' @ operation, xc_repo_id = repo_id, xc_repo_type = repo_type,
    xc_revision = [], xc_exp = exp, xc_iat = t, xc_kid = xs_kid signer, xc_token_type = ''proxy'', xc_oid = Some oid, xc_operation = Some operation\<rparr>"
  have c: "sign_claims K ?c (xs_signing_key signer) Proxy = Inr token" by (rule proxy_claims [OF s]) simp
  from sign_claims_validates [OF K(2) c] show op: "operation = ''upload'' \<or> operation = ''download''" by (auto simp: validate_claims_iff)
  have "verify_proxy_token K signer (Some now) token = (if t \<le> now \<and> now < exp then Some ?c else None)"
    using verify_issued [OF K c, of now] by (auto simp: verify_proxy_token_def verify_token_inner_def verify_token_def)
  then show "validate_proxy_token K (Some now) token oid' operation' signer \<longleftrightarrow> t \<le> now \<and> now < exp \<and> oid' = oid \<and> operation' = operation"
    using op by (auto simp: validate_proxy_token_def proxy_scopes)
qed

lemma validate_proxy_sound:
  assumes K: "b64u_contract K" "json_contract K" and key: "unforgeable K (ed_public K (xs_signing_key signer)) issued"
    and v: "validate_proxy_token K clock token oid operation signer"
  shows "\<exists>claims now. claims \<in> issued \<and> xc_token_type claims = ''proxy'' \<and> xc_oid claims = Some oid \<and> xc_operation claims = Some operation \<and>
    clock = Some now \<and> xc_iat claims \<le> now \<and> now < xc_exp claims"
proof -
  from v obtain claims where c: "verify_proxy_token K signer clock token = Some claims" "xc_token_type claims = ''proxy''"
      "xc_oid claims = Some oid" "xc_operation claims = Some operation"
    by (auto simp: validate_proxy_token_def split: option.splits if_splits)
  then have any: "verify_token_any_kind K clock token (ed_public K (xs_signing_key signer)) (xs_kid signer) = Inr (Proxy, claims)"
    by (auto simp: verify_proxy_token_def verify_token_inner_def verify_token_def result_simps split: sum.splits)
  from any verified_claims_issued [OF K key any] c show ?thesis unfolding verify_Inr_iff by blast
qed

fun storage_operation :: "LfsObjectOperation \<Rightarrow> LfsOperation" where
  "storage_operation OpUpload = Upload"
| "storage_operation OpDownload = Download"

text \<open>
  C15. A proxy token opens one object for one operation, on both sides. A token that the front end signed passes
  the guard of its object handlers exactly for the object and the operation it was signed
  for, from the second of signing until it expires; and for every object identifier
  that is well formed, the front end lets a token pass exactly when the storage server does.
\<close>

theorem proxy_token_opens_one_object:
  assumes K: "b64u_contract K" "json_contract K" "ed25519_contract K" and V: "trusts K V (xs_kid signer) (xs_signing_key signer)"
    and s: "sign_proxy K signer (Some t) sub oid operation repo_id repo_type = Inr (token, exp)"
  shows "(guard_authorize K signer (Some now) token oid' op = Inr () \<longleftrightarrow>
      validate_oid oid' \<and> oid' = oid \<and> lfs_operation_name op = operation \<and> t \<le> now \<and> now < exp) \<and>
    (guard_authorize K signer (Some now) token oid' op = Inr () \<longleftrightarrow>
      validate_oid oid' \<and> admitted K decode V now token (NeedLfsObject (storage_operation op) oid' message))"
proof -
  have c: "sign_claims K \<lparr>xc_sub = sub, xc_scope = ''lfs-'' @ operation, xc_repo_id = repo_id, xc_repo_type = repo_type,
    xc_revision = [], xc_exp = exp, xc_iat = t, xc_kid = xs_kid signer, xc_token_type = ''proxy'', xc_oid = Some oid, xc_operation = Some operation\<rparr>
    (xs_signing_key signer) Proxy = Inr token" by (rule proxy_claims [OF s]) simp
  have g: "guard_authorize K signer (Some now) token oid' op = Inr () \<longleftrightarrow>
      validate_oid oid' \<and> oid' = oid \<and> lfs_operation_name op = operation \<and> t \<le> now \<and> now < exp"
    using validate_proxy_issued(1) [OF K s] by (auto simp: guard_authorize_def)
  moreover have "admitted K decode V now token (NeedLfsObject (storage_operation op) oid' message) \<longleftrightarrow>
      t \<le> now \<and> now < exp \<and> (if operation = ''upload'' then Upload else Download) = storage_operation op \<and> oid' = oid"
    using admitted_issued [OF K c] V by (auto simp: grant_of_def)
  moreover have "(if operation = ''upload'' then Upload else Download) = storage_operation op \<longleftrightarrow> lfs_operation_name op = operation"
    using validate_proxy_issued(2) [OF K s] by (cases op) auto
  ultimately show ?thesis by blast
qed

lemma demo_proxy:
  assumes "validate_oid oid" "operation = ''upload'' \<or> operation = ''download''"
  shows "\<exists>token. sign_proxy inst_token_crates demo_signer (Some 1000) ''u'' oid operation [] [] = Inr (token, 1300)"
proof -
  have "\<not> blank oid" using assms(1) hex_oid_not_blank [of oid] by (simp add: validate_oid_def is_hex_oid_def)
  then show ?thesis using assms(2)
    by (simp add: sign_proxy_def signer_now_def expiration_def checked_add_def signer_Inr demo_signer_def new_signer_def new_with_internal_ttl_def)
      (rule sign_claims_valid, auto simp: validate_claims_iff)
qed

abbreviation demo_oid :: string where
  "demo_oid \<equiv> replicate 64 (CHR ''a'')"

lemma demo_oid_valid: "validate_oid demo_oid"
  by (simp add: validate_oid_def is_ascii_hexdigit_def list_all_iff)

lemma demo_trust: "trusts inst_token_crates demo_verifier (xs_kid demo_signer) (xs_signing_key demo_signer)"
  by (simp add: trusts_def demo_verifier_def demo_signer_def new_signer_def new_with_internal_ttl_def inst_token_crates_def)

theorem proxy_token_opens_one_object_witness:
  "\<exists>token. sign_proxy inst_token_crates demo_signer (Some 1000) ''u'' demo_oid ''upload'' [] [] = Inr (token, 1300) \<and>
     guard_authorize inst_token_crates demo_signer (Some 1299) token demo_oid OpUpload = Inr () \<and>
     guard_authorize inst_token_crates demo_signer (Some 1299) token demo_oid OpDownload \<noteq> Inr () \<and>
     guard_authorize inst_token_crates demo_signer (Some 1300) token demo_oid OpUpload \<noteq> Inr () \<and>
     admitted inst_token_crates Some demo_verifier 1299 token (NeedLfsObject Upload demo_oid [])"
proof -
  obtain token where s: "sign_proxy inst_token_crates demo_signer (Some 1000) ''u'' demo_oid ''upload'' [] [] = Inr (token, 1300)"
    using demo_proxy [OF demo_oid_valid] by blast
  note one = proxy_token_opens_one_object [OF inst_b64u_contract inst_json_contract inst_ed25519_contract demo_trust s, where decode = Some and message = "[]" and oid' = demo_oid]
  have g: "guard_authorize inst_token_crates demo_signer (Some 1299) token demo_oid OpUpload = Inr ()"
    "guard_authorize inst_token_crates demo_signer (Some 1299) token demo_oid OpDownload \<noteq> Inr ()"
    "guard_authorize inst_token_crates demo_signer (Some 1300) token demo_oid OpUpload \<noteq> Inr ()"
    unfolding conjunct1 [OF one] using demo_oid_valid by simp_all
  have "admitted inst_token_crates Some demo_verifier 1299 token (NeedLfsObject Upload demo_oid [])"
    using conjunct2 [OF one, of 1299 OpUpload] g(1) by simp
  with s g show ?thesis by blast
qed

section \<open>Uploads through the front end\<close>

text \<open>The loop of the front end and the one of the storage server do the same.\<close>

lemma chunks_as_blocks:
  assumes "stream_blocks io limit (@) n payload t h \<lparr>tf_data = content, tf_file = True, tf_reservation = Some r\<rparr> l = (res, h', tf', l')"
  shows "\<exists>res'. write_chunks io limit n payload t h content (Some r) l = (res', tf_reservation tf', l') \<and>
    (case res' of Inl _ \<Rightarrow> \<exists>e. res = Inl e | Inr (t', hashed, content') \<Rightarrow> res = Inr t' \<and> h' = hashed \<and> tf_data tf' = content')"
  using assms
proof (induction payload arbitrary: n t h content r l)
  case (Cons item payload)
  show ?case
  proof (cases item)
    case (Inl e)
    with Cons.prems show ?thesis by auto
  next
    case chunk: (Inr chunk)
    show ?thesis
    proof (cases "checked_add t (of_nat (length chunk))")
      case None
      with Cons.prems chunk show ?thesis by auto
    next
      case (Some t1)
      obtain a r1 l1 where ra: "reserve_additional l r (of_nat (length chunk)) = (a, r1, l1)" by (metis prod_cases3)
      obtain b r2 l2 where cw: "commit_written l1 r1 (of_nat (length chunk)) = (b, r2, l2)" by (metis prod_cases3)
      note step = Cons.prems chunk Some ra cw
      show ?thesis
      proof (cases "limit < t1 \<or> \<not> (\<exists>u. a = Inr u) \<or> \<not> io_write io n \<or> \<not> (\<exists>u. b = Inr u)")
        case True
        then consider "limit < t1" | "\<not> limit < t1" "\<exists>e. a = Inl e" | "\<not> limit < t1" "a = Inr ()" "\<not> io_write io n"
          | "\<not> limit < t1" "a = Inr ()" "io_write io n" "\<exists>e. b = Inl e"
          by (cases a; cases b) auto
        then show ?thesis
          by cases (use step in \<open>auto simp: tf_write_all_def write_open_def\<close>)
      next
        case False
        then have ok: "\<not> limit < t1" "a = Inr ()" "io_write io n" "b = Inr ()" by auto
        then have "stream_blocks io limit (@) (Suc n) payload t1 (h @ chunk) \<lparr>tf_data = content @ chunk, tf_file = True, tf_reservation = Some r2\<rparr> l2 = (res, h', tf', l')"
          using step by (simp add: tf_write_all_def write_open_def)
        from Cons.IH [OF this] ok step show ?thesis by simp
      qed
    qed
  qed
qed auto

text \<open>A payload that was stored: its bytes, their digest, and a reservation on top of the ledger.\<close>

lemma foldl_append_concat: "foldl (@) xs blocks = xs @ concat blocks"
  by (induction blocks arbitrary: xs) simp_all

lemma write_payload_cases:
  assumes run: "write_payload_to_temp_file_inner C io payload limit True l = (res, l')"
    and fits: "unat (charged_bytes l) + unat (reserved_bytes l) < 2 ^ 64"
  shows "case res of
      Inl _ \<Rightarrow> l' = l
    | Inr stored \<Rightarrow> drop_upload (su_reservation stored) l' = l \<and>
        (\<exists>blocks. payload = map Inr blocks \<and> su_file stored = concat blocks \<and> su_sha256 stored = hex_encode C (sha256 C (concat blocks)) \<and>
          unat (su_size stored) = (\<Sum>b\<leftarrow>blocks. unat (of_nat (length b) :: u64)) \<and> su_size stored \<le> limit)"
proof -
  obtain a l0 where m: "manager_reserve (io_available io) l 0 = (a, l0)" by (metis surj_pair)
  show ?thesis
  proof (cases "io_create_dir io \<and> io_create_file io \<and> (\<exists>r. a = Inr r)")
    case False
    then have "(\<exists>e. res = Inl e) \<and> l' = l"
      using run m manager_reserve_0_Inl [of "io_available io" l] by (cases a) (auto simp: write_payload_to_temp_file_inner_def split: if_splits)
    then show ?thesis by auto
  next
    case True
    then obtain r where r: "a = Inr r" and io: "io_create_dir io" "io_create_file io" by blast
    with m manager_reserve_0 have l0: "l0 = l" "r = \<lparr>tr_reserved = 0, tr_charged = 0\<rparr>" by blast+
    let ?tf = "\<lparr>tf_data = [], tf_file = True, tf_reservation = Some r\<rparr>"
    obtain sres h tf l1 where sb: "stream_blocks io limit (@) 0 payload 0 [] ?tf l = (sres, h, tf, l1)" by (metis prod_cases4)
    obtain wres where w: "write_chunks io limit 0 payload 0 [] [] (Some r) l = (wres, tf_reservation tf, l1)"
      "case wres of Inl _ \<Rightarrow> \<exists>e. sres = Inl e | Inr (t', hashed, content') \<Rightarrow> sres = Inr t' \<and> h = hashed \<and> tf_data tf = content'"
      using chunks_as_blocks [OF sb] by blast
    have "holds_on l ?tf l" using fits l0(2) by (simp add: holds_on_def)
    then have "holds_on l tf l1" by (rule holds_on_blocks [OF _ sb])
    then have restored: "drop_upload (tf_reservation tf) l1 = l" using holds_on_drop by (simp add: drop_upload_def drop_temp_file_def)
    have res: "(res, l') = (case wres of Inl e \<Rightarrow> (Inl e, l)
        | Inr (t, hashed, content) \<Rightarrow> if \<not> io_flush io then (Inl FlushTempFile, l)
            else (Inr \<lparr>su_file = content, su_size = t, su_sha256 = hex_encode C (sha256 C hashed), su_reservation = tf_reservation tf\<rparr>, l1))"
      using run m r l0(1) io w(1) restored by (auto simp: write_payload_to_temp_file_inner_def split: sum.splits if_splits)
    show ?thesis
    proof (cases wres)
      case (Inl e)
      with res show ?thesis by simp
    next
      case (Inr x)
      obtain t hashed content where x: "x = (t, hashed, content)" by (cases x)
      with w(2) Inr have s: "sres = Inr t" "h = hashed" "tf_data tf = content" by auto
      obtain blocks where b: "payload = map Inr blocks" "content = concat blocks" "hashed = foldl (@) [] blocks"
          "unat t = (\<Sum>b\<leftarrow>blocks. unat (of_nat (length b) :: u64))" "t \<le> limit"
        using stream_blocks_Inr [OF sb [unfolded s(1)]] s by auto
      then have "hashed = concat blocks" by (simp add: foldl_append_concat)
      with res Inr x b restored show ?thesis by (auto split: if_splits)
    qed
  qed
qed

lemma upload_answer_Inr: "upload_answer lossy answer = Inr u \<longleftrightarrow> (\<exists>resp. answer = Inr resp \<and> is_success (ur_status resp))"
  by (auto simp: upload_answer_def result_simps split: if_splits)

lemma lfs_error_no_reply:
  "lfs_upload_service_error_response e \<noteq> HubReply r" "lfs_object_guard_error_response g \<noteq> HubReply r" "missing_authorization \<noteq> HubReply r"
proof -
  have "lfs_upload_store_error_response s \<noteq> HubReply r" for s by (cases s) (simp_all add: hub_internal_error_def)
  then show "lfs_upload_service_error_response e \<noteq> HubReply r" by (cases e) (simp_all add: Let_def)
  show "lfs_object_guard_error_response g \<noteq> HubReply r" by (cases g) simp_all
  show "missing_authorization \<noteq> HubReply r" by (simp add: missing_authorization_def)
qed

lemma sum_lengths: "\<forall>b\<in>set blocks. length b < 2 ^ 64 \<Longrightarrow> (\<Sum>b\<leftarrow>blocks. unat (of_nat (length b) :: u64)) = length (concat blocks)"
  by (induction blocks) (simp_all add: unat_of_nat)

text \<open>One request with the payload that its identifier names, and its answer.\<close>

definition forwards ::
  "crates \<Rightarrow> 'c CasClient \<Rightarrow> string \<Rightarrow> string \<Rightarrow> (string + bytes) list \<Rightarrow> u64 \<Rightarrow> 'c \<Rightarrow> reqwest_error + upstream_response \<Rightarrow> 'c \<Rightarrow> bool" where
  "forwards C client oid token payload limit c answer c' \<longleftrightarrow>
     (\<exists>blocks. payload = map Inr blocks \<and> hex_encode C (sha256 C (concat blocks)) = oid \<and> length (concat blocks) \<le> unat limit \<and>
       cl_send client \<lparr>uq_method = ''PUT'', uq_url = cl_base_url client @ ''/lfs/objects/'' @ oid, uq_token = Some token, uq_body = concat blocks\<rparr> c =
         (answer, c'))"

lemma upload_cases:
  assumes run: "upload C lossy client True io opens oid token payload limit l c = (res, l', c')"
    and fits: "unat (charged_bytes l) + unat (reserved_bytes l) < 2 ^ 64" and sizes: "\<forall>b. Inr b \<in> set payload \<longrightarrow> length b < 2 ^ 64"
  shows "l' = l \<and> (c' = c \<and> (\<exists>e. res = Inl e) \<or>
    (\<exists>answer. forwards C client oid token payload limit c answer c' \<and> ((\<exists>u. res = Inr u) \<longleftrightarrow> (\<exists>resp. answer = Inr resp \<and> is_success (ur_status resp)))))"
proof -
  obtain sres l1 where w: "write_payload_to_temp_file_inner C io payload limit True l = (sres, l1)" by (metis surj_pair)
  note cases = write_payload_cases [OF w fits]
  show ?thesis
  proof (cases sres)
    case (Inl e)
    with run w cases show ?thesis by (auto simp: upload_def)
  next
    case (Inr stored)
    with cases obtain blocks where b: "drop_upload (su_reservation stored) l1 = l" "payload = map Inr blocks" "su_file stored = concat blocks"
        "su_sha256 stored = hex_encode C (sha256 C (concat blocks))"
        "unat (su_size stored) = (\<Sum>b\<leftarrow>blocks. unat (of_nat (length b) :: u64))" "su_size stored \<le> limit" by auto
    have "\<forall>b\<in>set blocks. length b < 2 ^ 64" using sizes b(2) by auto
    from sum_lengths [OF this] b(5,6) have len: "length (concat blocks) \<le> unat limit" by (simp only: word_le_nat_alt)
    show ?thesis
    proof (cases "su_sha256 stored = oid \<and> opens")
      case False
      with run w Inr b(1) show ?thesis by (auto simp: upload_def proxy_lfs_upload_from_path_def split: if_splits)
    next
      case True
      obtain answer c1 where s: "cl_send client \<lparr>uq_method = ''PUT'', uq_url = cl_base_url client @ ''/lfs/objects/'' @ oid, uq_token = Some token,
          uq_body = concat blocks\<rparr> c = (answer, c1)" by (metis surj_pair)
      have "su_sha256 stored = oid" "opens" using True by simp_all
      note eqs = run [unfolded upload_def w prod.case Inr sum.case this proxy_lfs_upload_from_path_def b(1,3) s]
      have r: "res = map_err (\<lambda>(status, message). Cas status message) (upload_answer lossy answer)" "l' = l" "c' = c1"
        using eqs True by simp_all
      then have iff: "(\<exists>u. res = Inr u) \<longleftrightarrow> (\<exists>resp. answer = Inr resp \<and> is_success (ur_status resp))"
        by (simp add: result_simps upload_answer_Inr)
      have "forwards C client oid token payload limit c answer c1" unfolding forwards_def
        by (intro exI [of _ blocks] conjI) (use b(2,4) True len s in simp_all)
      with iff show ?thesis unfolding r(2,3) by (intro conjI refl disjI2 exI [of _ answer])
    qed
  qed
qed


section \<open>Downloads through the front end\<close>

text \<open>What a client gets: the chunks before the first error.\<close>

definition client_gets :: "(string + bytes) list \<Rightarrow> bytes" where
  "client_gets items = payload_bytes (takeWhile (\<lambda>item. \<not> isl item) items)"

lemma client_gets_simps [simp]:
  "client_gets [] = []" "client_gets (Inl e # items) = []" "client_gets (Inr b # items) = b @ client_gets items"
  by (simp_all add: client_gets_def payload_bytes_def)

lemma max_bytes_received:
  assumes "\<forall>b. Inr b \<in> set items \<longrightarrow> length b < 2 ^ 63" "unat limit \<le> 2 ^ 63" "n \<le> limit"
  shows "unat n + length (client_gets (max_bytes_stream limit n items)) \<le> unat limit \<and>
    (\<exists>rest. client_gets items = client_gets (max_bytes_stream limit n items) @ rest) \<and>
    (unat n + length (payload_bytes items) \<le> unat limit \<longrightarrow> max_bytes_stream limit n items = items)"
  using assms
proof (induction limit n items rule: max_bytes_stream.induct)
  case (2 limit n err items)
  then show ?case by (auto simp: word_le_nat_alt payload_bytes_def)
next
  case (3 limit n chunk items)
  have len: "length chunk < 2 ^ 63" and rest: "\<forall>b. Inr b \<in> set items \<longrightarrow> length b < 2 ^ 63" using 3(2) by auto
  have "unat n \<le> 2 ^ 63" using 3(3,4) by (simp add: word_le_nat_alt)
  then have sum: "unat (n + of_nat (length chunk) :: u64) = unat n + length chunk" using len by (simp add: unat_word_ariths unat_of_nat)
  show ?case
  proof (cases "limit < n + of_nat (length chunk)")
    case True
    then show ?thesis using sum 3(4) by (auto simp: Let_def word_less_nat_alt word_le_nat_alt payload_bytes_def)
  next
    case False
    then have "n + of_nat (length chunk) \<le> limit" by simp
    from 3(1) [OF refl rest 3(3) this] sum False show ?thesis by (auto simp: Let_def payload_bytes_def)
  qed
qed (simp add: word_le_nat_alt payload_bytes_def)


section \<open>Batches through the front end\<close>

lemma json_get_insert:
  "json_get k (json_insert k' v (JObject kvs)) = (if k = k' then Some v else json_get k (JObject kvs))"
  by (simp add: update_conv')

lemma json_get_insert_some: "json_get k j = Some w \<Longrightarrow> json_get k' (json_insert k'' v j) = (if k' = k'' then Some v else json_get k' j)"
  by (cases j) (simp_all add: update_conv')

lemma json_get_remove: "json_get k (json_remove k' j) = (if k = k' then None else json_get k j)"
  by (cases j) (simp_all add: delete_conv')

text \<open>An action as the front end hands it out: its address at the front end with the token, and no other credential.\<close>

definition hub_action :: "'u url_crate \<Rightarrow> 'u \<Rightarrow> string \<Rightarrow> json \<Rightarrow> bool" where
  "hub_action U hub_url token action \<longleftrightarrow>
     (\<exists>url. json_get ''href'' action = Some (JString (uc_to_string U (uc_append_pair U ''token'' token
        (uc_set_port U (uc_port U hub_url) (uc_set_host U (uc_host_str U hub_url) (uc_set_scheme U (uc_scheme U hub_url) url))))))) \<and>
     (\<forall>header credential. json_get ''header'' action = Some header \<longrightarrow> json_get ''Authorization'' header = Some credential \<longrightarrow>
        credential = JString (''Bearer '' @ token))"

lemma rewrite_action_url_True:
  assumes "rewrite_action_url U action hub_url token = (True, action')"
  shows "hub_action U hub_url token action'"
proof -
  from assms obtain h url where h: "json_get ''href'' action = Some h" "Option.bind (json_as_str h) (uc_parse U) = Some url"
    by (auto simp: rewrite_action_url_def split: option.splits bind_splits)
  let ?url = "uc_append_pair U ''token'' token
      (uc_set_port U (uc_port U hub_url) (uc_set_host U (uc_host_str U hub_url) (uc_set_scheme U (uc_scheme U hub_url) url)))"
  let ?a = "json_insert ''href'' (JString (uc_to_string U ?url)) action"
  have href: "json_get ''href'' ?a = Some (JString (uc_to_string U ?url))" by (simp add: json_get_insert_some [OF h(1)])
  have a': "action' = (case Option.bind (json_get ''header'' ?a) (json_get ''Authorization'') of
      None \<Rightarrow> ?a | Some _ \<Rightarrow> (case json_get ''header'' ?a of None \<Rightarrow> ?a
        | Some header \<Rightarrow> json_insert ''header'' (json_insert ''Authorization'' (JString (''Bearer '' @ token)) header) ?a))"
  proof -
    have parsed: "Option.bind (Option.bind (json_get ''href'' action) json_as_str) (uc_parse U) = Some url" using h by simp
    have port: "(case uc_port U hub_url of None \<Rightarrow> uc_set_port U None x | Some port \<Rightarrow> uc_set_port U (Some port) x) = uc_set_port U (uc_port U hub_url) x" for x
      by (cases "uc_port U hub_url") simp_all
    show ?thesis using assms unfolding rewrite_action_url_def parsed option.case Let_def port by simp
  qed
  show ?thesis
  proof (cases "json_get ''header'' ?a")
    case None
    then show ?thesis using a' href unfolding hub_action_def by auto
  next
    case (Some header)
    show ?thesis
    proof (cases "json_get ''Authorization'' header")
      case None
      then show ?thesis using a' href Some unfolding hub_action_def by auto
    next
      case (Some cred)
      have "action' = json_insert ''header'' (json_insert ''Authorization'' (JString (''Bearer '' @ token)) header) ?a"
        using a' Some \<open>json_get ''header'' ?a = Some header\<close> by simp
      then show ?thesis using href unfolding hub_action_def
        by (simp add: json_get_insert_some [OF href] json_get_insert_some [OF Some]) blast
    qed
  qed
qed

text \<open>What is left of an action: nothing, or a rewritten one under a token signed for it. The other members stay.\<close>

lemma rewrite_action_spec:
  "json_get key (rewrite_action K U signer clock hub_url username oid operation actions) =
     (if key \<noteq> operation then json_get key actions
      else json_get operation (rewrite_action K U signer clock hub_url username oid operation actions))"
  "json_get operation (rewrite_action K U signer clock hub_url username oid operation actions) = Some action \<Longrightarrow>
     \<exists>token exp. sign_proxy K signer clock username oid operation [] [] = Inr (token, exp) \<and> hub_action U hub_url token action"
proof -
  show "json_get key (rewrite_action K U signer clock hub_url username oid operation actions) =
     (if key \<noteq> operation then json_get key actions
      else json_get operation (rewrite_action K U signer clock hub_url username oid operation actions))"
    by (auto simp: rewrite_action_def json_get_remove json_get_insert_some split: option.splits sum.splits prod.splits bool.splits)
  assume "json_get operation (rewrite_action K U signer clock hub_url username oid operation actions) = Some action"
  then show "\<exists>token exp. sign_proxy K signer clock username oid operation [] [] = Inr (token, exp) \<and> hub_action U hub_url token action"
    by (auto simp: rewrite_action_def json_get_remove json_get_insert_some rewrite_action_url_True
        split: option.splits sum.splits prod.splits bool.splits)
qed

definition object_oid :: "json \<Rightarrow> string" where
  "object_oid obj = (case Option.bind (json_get ''oid'' obj) json_as_str of Some oid \<Rightarrow> oid | None \<Rightarrow> [])"

text \<open>
  C24. No credential of the storage server leaves the front end with a batch. When the front end's own
  address parses, then in the answer to a batch every upload and download action of an object
  with a well-formed identifier points at the front end, and carries, in its address and in its
  header, a token that the front end signed for this object and this operation and no other. All
  other members of the answer are as the storage server sent them. When the address does not
  parse, the answer is handed on unchanged.
\<close>

theorem batch_actions_rewritten:
  assumes hub: "uc_parse U hub_base = Some hub_url" and arr: "json_get ''objects'' response = Some (JArray arr)"
  shows "\<exists>arr'. json_get ''objects'' (rewrite_batch_urls K U signer clock hub_base username response) = Some (JArray arr') \<and> length arr' = length arr \<and>
    (\<forall>i<length arr. validate_oid (object_oid (arr ! i)) \<longrightarrow>
      (\<forall>actions operation action. json_get ''actions'' (arr' ! i) = Some actions \<longrightarrow> operation \<in> {''upload'', ''download''} \<longrightarrow>
        json_get operation actions = Some action \<longrightarrow>
        (\<exists>time token exp. sign_proxy K signer time username (object_oid (arr ! i)) operation [] [] = Inr (token, exp) \<and> hub_action U hub_url token action))) \<and>
    (\<forall>key. key \<noteq> ''objects'' \<longrightarrow> json_get key (rewrite_batch_urls K U signer clock hub_base username response) = json_get key response) \<and>
    (\<forall>other. uc_parse U other = None \<longrightarrow> rewrite_batch_urls K U signer clock other username response = response)"
proof -
  let ?new = "map (\<lambda>i. rewrite_object K U signer (clock i) hub_url username (arr ! i)) [0..<length arr]"
  have r: "rewrite_batch_urls K U signer clock hub_base username response = json_insert ''objects'' (JArray ?new) response"
    using hub arr by (simp add: rewrite_batch_urls_def)
  have "\<exists>time token exp. sign_proxy K signer time username (object_oid (arr ! i)) operation [] [] = Inr (token, exp) \<and> hub_action U hub_url token action"
    if i: "i < length arr" "validate_oid (object_oid (arr ! i))" and a: "json_get ''actions'' (?new ! i) = Some actions"
      and op: "operation \<in> {''upload'', ''download''}" and act: "json_get operation actions = Some action" for i actions operation action
  proof -
    let ?up = "rewrite_action K U signer (fst (clock i)) hub_url username (object_oid (arr ! i)) ''upload''"
    let ?down = "rewrite_action K U signer (snd (clock i)) hub_url username (object_oid (arr ! i)) ''download''"
    have obj: "?new ! i = (case json_get ''actions'' (arr ! i) of None \<Rightarrow> arr ! i
        | Some acts \<Rightarrow> json_insert ''actions'' (?down (?up acts)) (arr ! i))"
    proof -
      have "?new ! i = rewrite_object K U signer (clock i) hub_url username (arr ! i)" using i by simp
      also have "\<dots> = (case json_get ''actions'' (arr ! i) of None \<Rightarrow> arr ! i | Some acts \<Rightarrow> json_insert ''actions'' (?down (?up acts)) (arr ! i))"
        using i(2) unfolding rewrite_object_def object_oid_def [symmetric] Let_def by simp
      finally show ?thesis .
    qed
    then obtain acts where acts: "json_get ''actions'' (arr ! i) = Some acts" using a by (cases "json_get ''actions'' (arr ! i)") auto
    with obj a have "actions = ?down (?up acts)" by (simp add: json_get_insert_some)
    then have act': "json_get operation (?down (?up acts)) = Some action" using act by simp
    have kept: "json_get ''upload'' (?down (?up acts)) = json_get ''upload'' (?up acts)" by (subst rewrite_action_spec(1)) simp
    show ?thesis
    proof (cases "operation = ''upload''")
      case True
      with act' kept have "json_get ''upload'' (?up acts) = Some action" by simp
      from rewrite_action_spec(2) [OF this] True show ?thesis by blast
    next
      case False
      with op act' have "operation = ''download''" "json_get ''download'' (?down (?up acts)) = Some action" by auto
      with rewrite_action_spec(2) [OF this(2)] show ?thesis by blast
    qed
  qed
  then show ?thesis unfolding r using arr
    by (intro exI [of _ ?new] conjI) (auto simp: json_get_insert_some rewrite_batch_urls_def simp del: nth_map)
qed

section \<open>Large files, run\<close>

text \<open>Crates whose signatures cover one set of claims only, and a server that keeps what it is asked.\<close>

definition sealed_crates :: "XetClaims \<Rightarrow> (string, string) token_crates" where
  "sealed_crates claims = inst_token_crates\<lparr>ed_verify := (\<lambda>pk m s. m = signing_input inst_token_crates claims)\<rparr>"

lemma sealed_contracts: "b64u_contract (sealed_crates claims)" "json_contract (sealed_crates claims)" "unforgeable (sealed_crates claims) pk {claims}"
proof -
  show "b64u_contract (sealed_crates claims)" "json_contract (sealed_crates claims)"
    using inst_b64u_contract inst_json_contract by (simp_all add: b64u_contract_def json_contract_def sealed_crates_def)
  have "signing_input (sealed_crates claims) c = signing_input inst_token_crates c" for c by (simp add: signing_input_def sealed_crates_def)
  then show "unforgeable (sealed_crates claims) pk {claims}" by (simp add: unforgeable_def) (simp add: sealed_crates_def)
qed

lemma sealed_verified:
  assumes valid: "validate_claims_for_kind claims kind = Inr ()" and now: "xc_iat claims \<le> now" "now < xc_exp claims" "now - xc_iat claims \<le> MAX_TOKEN_LIFETIME_SECS"
  shows "\<exists>token. verify_token_any_kind (sealed_crates claims) (Some now) token pk (xc_kid claims) = Inr (kind, claims) \<and> list_all visible token"
proof -
  let ?K = "sealed_crates claims"
  note K = sealed_contracts(1,2) [of claims]
  obtain token where sign: "sign_claims ?K claims ''key'' kind = Inr token" using valid sign_claims_iff [OF K(2)] by blast
  obtain h c s where parts: "token_parts token = Inr (kind, h, c, s)" "h @ ''.'' @ c = signing_input ?K claims"
    "b64u_decode ?K s = Some (ed_sign ?K ''key'' (signing_input ?K claims))" "decode_header ?K h = Inr (claims_header claims)"
    "b64u_decode ?K c = Some (the (claims_to_vec ?K claims))" "claims_from_slice ?K (the (claims_to_vec ?K claims)) = Some claims"
    by (rule issued_token_parts [OF K sign])
  have "length (ed_sign ?K ''key'' m) = 64" for m by (simp add: sealed_crates_def inst_token_crates_def tag_def)
  moreover have "ed_verify ?K pk (h @ ''.'' @ c) sg" for sg using parts(2) by (simp add: sealed_crates_def signing_input_def)
  ultimately have "verify_token_any_kind ?K (Some now) token pk (xc_kid claims) = Inr (kind, claims)"
    using parts valid now unfolding verify_Inr_iff
    by (intro exI conjI) (assumption | simp add: claims_header_def)+
  with issued_token_visible [OF K sign] show ?thesis by blast
qed

definition recording_client :: "upstream_request list CasClient" where
  "recording_client = \<lparr>cl_base_url = ''http://c'', cl_max_download_size = 10,
     cl_send = (\<lambda>q log. (Inr \<lparr>ur_status = 200, ur_headers = [], ur_content_length = None, ur_chunks = [Inr [1, 2], Inr [3]]\<rparr>, log @ [q]))\<rparr>"

definition demo_proxy_claims :: "string \<Rightarrow> XetClaims" where
  "demo_proxy_claims operation = \<lparr>xc_sub = ''u'', xc_scope = ''lfs-'' @ operation, xc_repo_id = [], xc_repo_type = [], xc_revision = [], xc_exp = 1300, xc_iat = 1000,
     xc_kid = ''kid'', xc_token_type = ''proxy'', xc_oid = Some demo_object_id, xc_operation = Some operation\<rparr>"

definition demo_json_crate :: json_crate where
  "demo_json_crate = \<lparr>jc_to_vec = (\<lambda>_. []), jc_from_slice = (\<lambda>_. None), jc_blob_state = (\<lambda>_. None)\<rparr>"

text \<open>An address is a scheme, a host, a port and the rest.\<close>

type_synonym demo_url = "string \<times> string option \<times> nat option \<times> string"

definition demo_url_crate :: "demo_url url_crate" where
  "demo_url_crate = \<lparr>uc_parse = (\<lambda>s. if strip_prefix ''http://'' s = None then None else Some (''http'', Some (drop 7 s), None, [])),
     uc_scheme = fst, uc_host_str = (\<lambda>u. fst (snd u)), uc_port = (\<lambda>u. fst (snd (snd u))),
     uc_set_scheme = (\<lambda>s (_, r). (s, r)), uc_set_host = (\<lambda>h (s, _, r). (s, h, r)), uc_set_port = (\<lambda>p (s, h, _, r). (s, h, p, r)),
     uc_append_pair = (\<lambda>k v (s, h, p, r). (s, h, p, r @ ''?'' @ k @ ''='' @ v)),
     uc_to_string = (\<lambda>(s, h, p, r). s @ ''://'' @ (case h of Some x \<Rightarrow> x | None \<Rightarrow> []) @ r)\<rparr>"

definition demo_lfs_hub :: "string \<Rightarrow> (string, string, demo_url, upstream_request list) lfs_hub" where
  "demo_lfs_hub operation = \<lparr>lh_hub = demo_hub\<lparr>hb_token_crates := sealed_crates (demo_proxy_claims operation)\<rparr>, lh_crates = inst_crates, lh_json = demo_json_crate,
     lh_url = demo_url_crate, lh_client = recording_client, lh_lossy = (\<lambda>_. []), lh_base_url = ''http://h'', lh_max_upload_size = 10, lh_max_download_size = 10,
     lh_temp_quota_bytes = 100, lh_temp_min_free_bytes = 0\<rparr>"

definition bearer_request :: "string \<Rightarrow> hub_request" where
  "bearer_request token = \<lparr>hr_authorization = Some (''Bearer '' @ token), hr_query = None, hr_decode = (\<lambda>_. None), hr_percent = (\<lambda>_. None)\<rparr>"

lemma bearer_request_token: "list_all visible token \<Longrightarrow> extract_proxy_token (bearer_request token) = Some token"
  using strip_prefix_append [of "''Bearer ''" token]
  by (simp add: extract_proxy_token_def extract_token_def bearer_request_def header_to_str_def visible_def)

lemma demo_lfs_simps [simp]:
  "hb_token_crates (lh_hub (demo_lfs_hub operation)) = sealed_crates (demo_proxy_claims operation)"
  "hb_signer (lh_hub (demo_lfs_hub operation)) = demo_signer"
  "lh_crates (demo_lfs_hub operation) = inst_crates" "lh_client (demo_lfs_hub operation) = recording_client"
  "lh_max_upload_size (demo_lfs_hub operation) = 10" "lh_max_download_size (demo_lfs_hub operation) = 10"
  by (simp_all add: demo_lfs_hub_def demo_hub_def)

lemma demo_guard:
  assumes "op = OpUpload \<or> op = OpDownload" "operation = lfs_operation_name op"
  shows "\<exists>token. extract_proxy_token (bearer_request token) = Some token \<and>
    guard_authorize (sealed_crates (demo_proxy_claims operation)) demo_signer (Some 1100) token demo_object_id op = Inr ()"
proof -
  let ?c = "demo_proxy_claims operation"
  have op: "operation = ''upload'' \<or> operation = ''download''" using assms by (cases op) auto
  have oid: "validate_oid demo_object_id" using demo_id_hash(2) by (simp add: validate_oid_def is_hex_oid_def)
  have "\<not> blank demo_object_id" using demo_id_hash(2) by (rule hex_oid_not_blank)
  then have "validate_claims_for_kind ?c Proxy = Inr ()" using op by (auto simp: validate_claims_iff demo_proxy_claims_def)
  moreover have "xc_iat ?c \<le> 1100" "1100 < xc_exp ?c" "1100 - xc_iat ?c \<le> MAX_TOKEN_LIFETIME_SECS" "xc_kid ?c = xs_kid demo_signer"
    by (simp_all add: demo_proxy_claims_def MAX_TOKEN_LIFETIME_SECS_def demo_signer_def new_signer_def new_with_internal_ttl_def)
  ultimately obtain token where t: "verify_token_any_kind (sealed_crates ?c) (Some 1100) token (ed_public (sealed_crates ?c) (xs_signing_key demo_signer)) (xs_kid demo_signer) =
      Inr (Proxy, ?c)" "list_all visible token" using sealed_verified by metis
  have "verify_proxy_token (sealed_crates ?c) demo_signer (Some 1100) token = Some ?c"
    using t(1) by (simp add: verify_proxy_token_def verify_token_inner_def verify_token_def)
  then have "guard_authorize (sealed_crates ?c) demo_signer (Some 1100) token demo_object_id op = Inr ()"
    using oid assms op proxy_scopes by (auto simp: guard_authorize_def validate_proxy_token_def demo_proxy_claims_def)
  with bearer_request_token [OF t(2)] show ?thesis by blast
qed



definition demo_batch_answer :: json where
  "demo_batch_answer = JObject [(''transfer'', JString ''basic''), (''objects'', JArray [JObject [(''oid'', JString demo_oid),
     (''actions'', JObject [(''upload'', JObject [(''href'', JString ''http://c''), (''header'', JObject [(''Authorization'', JString ''Bearer cas'')])])])]])]"

theorem batch_actions_rewritten_witness:
  "\<exists>arr. json_get ''objects'' (rewrite_batch_urls inst_token_crates demo_url_crate demo_signer (\<lambda>_. (Some 1000, Some 1000)) ''http://h'' ''u'' demo_batch_answer) = Some (JArray arr) \<and>
     length arr = 1 \<and>
     (\<forall>actions action. json_get ''actions'' (arr ! 0) = Some actions \<longrightarrow> json_get ''upload'' actions = Some action \<longrightarrow>
        (\<exists>token. hub_action demo_url_crate (''http'', Some ''h'', None, []) token action))"
proof -
  have hub: "uc_parse demo_url_crate ''http://h'' = Some (''http'', Some ''h'', None, [])" by code_simp
  have arr: "json_get ''objects'' demo_batch_answer = Some (JArray [JObject [(''oid'', JString demo_oid),
     (''actions'', JObject [(''upload'', JObject [(''href'', JString ''http://c''), (''header'', JObject [(''Authorization'', JString ''Bearer cas'')])])])]])"
    by (simp add: demo_batch_answer_def)
  have oid: "object_oid (JObject [(''oid'', JString demo_oid), (''actions'', a)]) = demo_oid" for a by (simp add: object_oid_def)
  from batch_actions_rewritten [OF hub arr, of inst_token_crates demo_signer "\<lambda>_. (Some 1000, Some 1000)" "''u''"] oid demo_oid_valid show ?thesis
    by fastforce
qed


section \<open>The client and the storage server\<close>

lemma digit_char: "n < 10 \<Longrightarrow> CHR ''0'' \<le> char_of (48 + n) \<and> char_of (48 + n) \<le> CHR ''9'' \<and> (of_char (char_of (48 + n) :: char) :: nat) = 48 + n"
  for n :: nat
proof -
  assume n: "n < 10"
  then have "(of_char (char_of (48 + n) :: char) :: nat) = 48 + n" by (simp add: of_char_mod_256)
  with n show ?thesis by (simp add: less_eq_char_def)
qed

lemma show_nat_digits:
  "list_all (\<lambda>c. CHR ''0'' \<le> c \<and> c \<le> CHR ''9'') (show_nat n) \<and> show_nat n \<noteq> [] \<and>
     foldl (\<lambda>n c. 10 * n + (of_char c - 48)) (0 :: nat) (show_nat n) = n"
proof (induction n rule: show_nat.induct)
  case (1 n)
  show ?case
  proof (cases "n < 10")
    case True
    then show ?thesis using digit_char [of n] by (subst show_nat.simps, subst (2) show_nat.simps, subst (3) show_nat.simps) simp
  next
    case False
    with 1 digit_char [of "n mod 10"] show ?thesis
      by (subst show_nat.simps, subst (2) show_nat.simps, subst (3) show_nat.simps) simp
  qed
qed

lemma digit_visible: "CHR ''0'' \<le> c \<Longrightarrow> c \<le> CHR ''9'' \<Longrightarrow> visible c \<and> c \<noteq> CHR ''+''"
  by (auto simp: less_eq_char_def visible_def Let_def)

lemma parse_show_u64: "n < 2 ^ 64 \<Longrightarrow> header_to_str (show_nat n) = Some (show_nat n) \<and> parse_u64 (show_nat n) = Some (of_nat n)"
proof -
  assume n: "n < 2 ^ 64"
  obtain c cs where s: "show_nat n = c # cs" using show_nat_digits [of n] by (cases "show_nat n") auto
  have d: "\<forall>x\<in>set (show_nat n). CHR ''0'' \<le> x \<and> x \<le> CHR ''9''" using show_nat_digits [of n] by (simp add: list_all_iff)
  have "c \<noteq> CHR ''+''" using d s digit_visible [of c] by simp
  then have p: "parse_u64 (show_nat n) = Some (of_nat n)"
    using show_nat_digits [of n] n unfolding parse_u64_def s by (simp add: Let_def)
  have "list_all visible (show_nat n)" using d digit_visible by (auto simp: list_all_iff)
  with p show ?thesis by (simp add: header_to_str_def)
qed

lemma hex_visible: "is_hex_oid oid \<Longrightarrow> header_to_str oid = Some oid"
proof -
  assume "is_hex_oid oid"
  moreover have "is_ascii_hexdigit c \<Longrightarrow> visible c" for c
    by (auto simp: is_ascii_hexdigit_def visible_def less_eq_char_def Let_def)
  ultimately show ?thesis by (auto simp: is_hex_oid_def header_to_str_def list_all_iff)
qed

text \<open>The size an object has at the storage server, as its index or its storage tells.\<close>

definition stored_size :: "('sk, 'pk, 's, 'u) cas \<Rightarrow> string \<Rightarrow> merkle_hash \<Rightarrow> 's cas_state \<Rightarrow> (StorageError + nat)" where
  "stored_size E oid h st = (case get_file_size (cs_index st) h of Some n \<Rightarrow> Inr n | None \<Rightarrow> get_size (cas_backend E) (cs_storage st) (object_key_of oid))"

text \<open>
  C25. The front end learns from the storage server what is stored there. When a request of the client for an object is
  answered by the handler of the storage server, under a token this server admits to internal
  endpoints, the client returns the state, the file identifier and exactly the size that the server
  has; it reports a missing object exactly when the server has none, and any other failure as an error of the server.
\<close>

theorem client_learns_stored_size:
  assumes oid: "mh_from_hex (cas_crates E) oid = Inr h" "is_hex_oid oid"
    and auth: "authorize E clock (Some (''Bearer '' @ token)) internal_need = Inr claims"
    and small: "\<forall>n. stored_size E oid h st = Inr n \<longrightarrow> n < 2 ^ 64"
    and send: "cl_send client \<lparr>uq_method = ''HEAD'', uq_url = cl_base_url client @ ''/internal/blob/'' @ oid, uq_token = Some token, uq_body = []\<rparr> c = (Inr resp, c')"
    and served: "ur_status resp = resp_status (Cas_Download.head_blob E clock (Some (''Bearer '' @ token)) oid st)"
      "ur_headers resp = resp_headers (Cas_Download.head_blob E clock (Some (''Bearer '' @ token)) oid st)"
  shows "client_head_blob client oid token c =
    (case stored_size E oid h st of
       Inr n \<Rightarrow> Inr (BlobState.make (if get_file_size (cs_index st) h = None then ''raw_only'' else ''xet_only'')
                  (if get_file_size (cs_index st) h = None then None else Some oid) (of_nat n) oid)
     | Inl (NotFound _) \<Rightarrow> Inl (HubNotFound (''Blob not found: '' @ oid))
     | Inl _ \<Rightarrow> Inl (HubCasError ''CAS returned an error''), c')"
proof -
  let ?r = "Cas_Download.head_blob E clock (Some (''Bearer '' @ token)) oid st"
  have names: "eq_ignore_ascii_case a a" "\<not> eq_ignore_ascii_case ''X-Storage-State'' ''X-Blob-Size''" "\<not> eq_ignore_ascii_case ''X-File-Id'' ''X-Blob-Size''"
    "\<not> eq_ignore_ascii_case ''X-Storage-State'' ''X-File-Id''" "\<not> eq_ignore_ascii_case ''X-Blob-Size'' ''X-File-Id''" for a
    by (simp add: eq_ignore_ascii_case_def, code_simp+)
  have words: "header_to_str ''xet_only'' = Some ''xet_only''" "header_to_str ''raw_only'' = Some ''raw_only''" by code_simp+
  have c: "client_head_blob client oid token c =
      (if ur_status resp = 200 then
         rbind (parse_blob_size (ur_headers resp)) (\<lambda>sz.
         Inr (BlobState.make (case Option.bind (header_get (ur_headers resp) ''X-Storage-State'') header_to_str of Some v \<Rightarrow> v | None \<Rightarrow> ''raw_only'')
           (Option.bind (header_get (ur_headers resp) ''X-File-Id'') header_to_str) sz oid))
       else if ur_status resp = 404 then Inl (HubNotFound (''Blob not found: '' @ oid)) else Inl (HubCasError ''CAS returned an error''), c')"
    unfolding client_head_blob_def send by (simp add: Let_def)
  show ?thesis
  proof (cases "get_file_size (cs_index st) h")
    case (Some n)
    then have "?r = head_response 200 [(''X-Storage-State'', ''xet_only''), (''X-File-Id'', oid), (''X-Blob-Size'', show_nat n)]"
      using oid(1) auth by (simp add: Cas_Download.head_blob_def)
    moreover have "stored_size E oid h st = Inr n" using Some by (simp add: stored_size_def)
    moreover from this small have "n < 2 ^ 64" by blast
    ultimately show ?thesis using parse_show_u64 [of n] Some hex_visible [OF oid(2)] unfolding c served
      by (simp add: head_response_def parse_blob_size_def header_get_def BLOB_SIZE_HEADER_def names words)
  next
    case None
    then have size: "stored_size E oid h st = get_size (cas_backend E) (cs_storage st) (object_key_of oid)" by (simp add: stored_size_def)
    show ?thesis
    proof (cases "stored_size E oid h st")
      case (Inr n)
      then have "?r = head_response 200 [(''X-Storage-State'', ''raw_only''), (''X-Blob-Size'', show_nat n)]"
        using oid(1) auth None size by (simp add: Cas_Download.head_blob_def)
      moreover from Inr small have "n < 2 ^ 64" by blast
      ultimately show ?thesis using parse_show_u64 [of n] None Inr unfolding c served
        by (simp add: head_response_def parse_blob_size_def header_get_def BLOB_SIZE_HEADER_def names words)
    next
      case (Inl e)
      then have "?r = head_response (case e of NotFound _ \<Rightarrow> 404 | _ \<Rightarrow> 500) []"
        using oid(1) auth None size by (cases e) (simp_all add: Cas_Download.head_blob_def)
      then show ?thesis using Inl unfolding c served by (cases e) (simp_all add: head_response_def)
    qed
  qed
qed

text \<open>A transport that hands requests to the storage server of the demonstration.\<close>

definition serving_client :: "string \<Rightarrow> unit CasClient" where
  "serving_client token = \<lparr>cl_base_url = ''http://c'', cl_max_download_size = 10,
     cl_send = (\<lambda>q c. let r = Cas_Download.head_blob demo_cas (Some 1001) (Some (''Bearer '' @ token)) demo_object_id demo_stored in
       (Inr \<lparr>ur_status = resp_status r, ur_headers = resp_headers r, ur_content_length = None, ur_chunks = []\<rparr>, c))\<rparr>"

theorem client_learns_stored_size_witness:
  "\<exists>token. client_head_blob (serving_client token) demo_object_id token () = (Inr (BlobState.make ''raw_only'' None 3 demo_object_id), ())"
proof -
  obtain token where sign: "sign_internal inst_token_crates demo_signer (Some 1000) = Inr (token, 87400)" using demo_tokens by blast
  let ?c = "\<lparr>xc_sub = ''hub-service'', xc_scope = ''internal'', xc_repo_id = [], xc_repo_type = [], xc_revision = [],
    xc_exp = 87400, xc_iat = 1000, xc_kid = xs_kid demo_signer, xc_token_type = ''internal'', xc_oid = None, xc_operation = None\<rparr>"
  have s: "sign_claims inst_token_crates ?c (xs_signing_key demo_signer) TokenKind.Internal = Inr token"
    using sign by (auto simp: sign_internal_def signer_now_def result_simps signer_Inr)
  have "split_whitespace ''internal'' = [''internal'']" by (simp add: split_whitespace_def ws_len_def)
  then have "admitted inst_token_crates Some demo_verifier 1001 token internal_need"
    using admitted_issued [OF inst_b64u_contract inst_json_contract inst_ed25519_contract s] demo_trust by (simp add: grant_of_def has_scope_def)
  then obtain claims where auth: "authorize demo_cas (Some 1001) (Some (''Bearer '' @ token)) internal_need = Inr claims"
    by (auto simp: admitted_def authorize_def demo_cas_def)
  have E: "cas_backend demo_cas = local_backend 0" "cas_crates demo_cas = inst_crates" by (simp_all add: demo_cas_def)
  obtain h where h: "mh_from_hex (cas_crates demo_cas) demo_object_id = Inr h" using demo_id_hash(1) by (auto simp: E)
  have none: "get_file_size (cs_index demo_stored) h = None" by (simp add: demo_stored_def get_file_size_def index_new_def)
  have "local_get_size 0 (cs_storage demo_stored) (object_key_of demo_object_id) = Inr 3"
    using local_size_content [OF demo_stored_facts(1,3)] by (simp add: demo_object_def)
  then have size3: "stored_size demo_cas demo_object_id h demo_stored = Inr 3" using none by (simp add: stored_size_def E local_backend_def)
  let ?r = "Cas_Download.head_blob demo_cas (Some 1001) (Some (''Bearer '' @ token)) demo_object_id demo_stored"
  have send: "cl_send (serving_client token) \<lparr>uq_method = ''HEAD'', uq_url = cl_base_url (serving_client token) @ ''/internal/blob/'' @ demo_object_id,
      uq_token = Some token, uq_body = []\<rparr> () =
      (Inr \<lparr>ur_status = resp_status ?r, ur_headers = resp_headers ?r, ur_content_length = None, ur_chunks = []\<rparr>, ())"
    by (simp add: serving_client_def Let_def)
  have small: "\<forall>n. stored_size demo_cas demo_object_id h demo_stored = Inr n \<longrightarrow> n < 2 ^ 64" using size3 by simp
  have "client_head_blob (serving_client token) demo_object_id token () = (Inr (BlobState.make ''raw_only'' None 3 demo_object_id), ())"
    using client_learns_stored_size [OF h demo_id_hash(2) auth small send] size3 none by simp
  then show ?thesis by (rule exI [of _ token])
qed

end
