(* ===== verification/Hub_Resolve.thy ===== *)
theory Hub_Resolve
  imports Hub_Lfs
begin

text \<open>
  The handler that serves the files of a repository (\<^verbatim>\<open>src/hub/src/api/resolve.rs\<close>): it resolves a path at a revision,
  describes the file, returns a small one from the storage server, or redirects to the front end's own object
  handler with a token for that object.

  A signer or a client that is not registered with the server is \<open>None\<close>. The content type is left out.
\<close>

section \<open>The handler\<close>

datatype resolve_body = NoContent | Content bytes

record resolve_response =
  rr_status :: nat
  rr_headers :: "(string \<times> string) list"
  rr_body :: resolve_body

fun resolve_service_error_response :: "ResolveServiceError \<Rightarrow> 'a hub_reply" where
  "resolve_service_error_response (RsNotFound msg) = HubFailure 404 msg ''NotFoundError''"
| "resolve_service_error_response (RsInternal msg) = hub_internal_error"

definition quoted :: "string \<Rightarrow> string" where
  "quoted s = [CHR 0x22] @ s @ [CHR 0x22]"

definition resolve_head :: "string \<Rightarrow> FileEntry \<Rightarrow> resolve_response" where
  "resolve_head commit_id file_entry =
     \<lparr>rr_status = 200, rr_headers = [(''Content-Length'', show_nat (unat (fe_size file_entry))), (''X-Repo-Commit'', commit_id),
        (''ETag'', quoted (fe_cas_hash file_entry)), (''X-Linked-Size'', show_nat (unat (fe_size file_entry))), (''X-Linked-Etag'', fe_cas_hash file_entry)],
      rr_body = NoContent\<rparr>"

definition resolve_inline :: "string \<Rightarrow> FileEntry \<Rightarrow> bytes \<Rightarrow> resolve_response" where
  "resolve_inline commit_id file_entry data =
     \<lparr>rr_status = 200, rr_headers = [(''X-Repo-Commit'', commit_id), (''ETag'', quoted (fe_cas_hash file_entry))], rr_body = Content data\<rparr>"

definition resolve_redirect :: "string \<Rightarrow> FileEntry \<Rightarrow> string \<Rightarrow> resolve_response" where
  "resolve_redirect commit_id file_entry download_url =
     \<lparr>rr_status = 302, rr_headers = [(''Location'', download_url), (''X-Repo-Commit'', commit_id),
        (''X-Linked-Size'', show_nat (unat (fe_size file_entry))), (''X-Linked-Etag'', fe_cas_hash file_entry)],
      rr_body = NoContent\<rparr>"

text \<open>The content of a small file, or the redirect when no read token could be signed. The two signings are at \<open>clock 0\<close> and \<open>clock 1\<close>.\<close>

definition resolve_content ::
  "('sk, 'pk, 'u, 'c) lfs_hub \<Rightarrow> 'sk XetSigner option \<Rightarrow> 'c CasClient option \<Rightarrow> u64 option \<Rightarrow> string \<Rightarrow> string \<Rightarrow> string \<Rightarrow> string \<Rightarrow>
     string \<Rightarrow> FileEntry \<Rightarrow> string \<Rightarrow> 'c \<Rightarrow> resolve_response hub_reply \<times> 'c" where
  "resolve_content L signer client clock username repo_id repo_type revision commit_id file_entry download_url c =
     (let redirect = (HubReply (resolve_redirect commit_id file_entry download_url), c) in
      if fe_size file_entry \<le> hb_inline_threshold (lh_hub L) then
        (case (signer, client) of
           (Some signer, Some cas) \<Rightarrow>
             (case sign (hb_token_crates (lh_hub L)) signer clock username ''read'' repo_id repo_type revision of
                Inr (cas_read_token, _) \<Rightarrow>
                  (case proxy_lfs_download (lh_crates L) cas (fe_cas_hash file_entry) (fe_size file_entry) cas_read_token c of
                     (Inr data, c) \<Rightarrow> (HubReply (resolve_inline commit_id file_entry data), c)
                   | (Inl (HubNotFound _), c) \<Rightarrow>
                       (HubFailure 404 (''File content not found in storage: '' @ fe_cas_hash file_entry) ''NotFoundError'', c)
                   | (Inl HubCasTimeout, c) \<Rightarrow> (HubFailure 504 CAS_ERROR_MESSAGE ''GatewayTimeout'', c)
                   | (Inl _, c) \<Rightarrow> (HubFailure 502 CAS_ERROR_MESSAGE ''BadGateway'', c))
              | Inl _ \<Rightarrow> redirect)
         | _ \<Rightarrow> redirect)
      else redirect)"

definition handle_resolve ::
  "('sk, 'pk, 'u, 'c) lfs_hub \<Rightarrow> 'sk XetSigner option \<Rightarrow> 'c CasClient option \<Rightarrow> (nat \<Rightarrow> bool) \<Rightarrow> u64 \<Rightarrow> token_db \<Rightarrow> (nat \<Rightarrow> u64 option) \<Rightarrow>
     (nat \<Rightarrow> db_env) \<Rightarrow> hub_db \<Rightarrow> RepoType \<Rightarrow> bool \<Rightarrow> string option \<Rightarrow> string \<times> string \<times> string \<times> string \<Rightarrow> 'c \<Rightarrow> resolve_response hub_reply \<times> 'c" where
  "handle_resolve L signer client fault now tdb clock D db repo_type is_head authorization path c =
     (case auth_user (hb_tokens (lh_hub L)) fault now tdb AuthRead authorization of
        Inl e \<Rightarrow> (auth_error_response e, c)
      | Inr info \<Rightarrow>
     (let (namespace, repo_name, revision, file_path) = path in
      case service_resolve_file D db \<lparr>rq_username = ti_username info, rq_namespace = namespace, rq_repo_name = repo_name, rq_repo_type = repo_type,
          rq_revision = revision, rq_file_path = file_path\<rparr> of
        Inl err \<Rightarrow> (resolve_service_error_response err, c)
      | Inr (commit_id, file_entry) \<Rightarrow>
          if is_head then (HubReply (resolve_head commit_id file_entry), c)
          else
            case (case signer of
                    Some signer \<Rightarrow>
                      map_sum id (\<lambda>(proxy_token, _). ''?token='' @ proxy_token)
                        (sign_proxy (hb_token_crates (lh_hub L)) signer (clock 0) (ti_username info) (fe_cas_hash file_entry) ''download''
                          (namespace @ ''/'' @ repo_name) (repo_type_name repo_type))
                  | None \<Rightarrow> Inr []) of
              Inl _ \<Rightarrow> (hub_internal_error, c)
            | Inr proxy_token_param \<Rightarrow>
                resolve_content L signer client (clock 1) (ti_username info) (namespace @ ''/'' @ repo_name) (repo_type_name repo_type) revision commit_id file_entry
                  (lh_base_url L @ ''/lfs/objects/'' @ fe_cas_hash file_entry @ proxy_token_param) c))"

section \<open>Properties\<close>

lemma resolve_content_reply:
  assumes "resolve_content L signer client clock username repo_id repo_type revision commit_id entry url c = (HubReply r, c')"
  shows "r = resolve_redirect commit_id entry url \<or>
    (\<exists>data. r = resolve_inline commit_id entry data \<and> fe_size entry \<le> hb_inline_threshold (lh_hub L) \<and>
       length data = unat (fe_size entry) \<and> eq_ignore_ascii_case (hex_encode (lh_crates L) (sha256 (lh_crates L) data)) (fe_cas_hash entry))"
proof (cases "fe_size entry \<le> hb_inline_threshold (lh_hub L) \<and> signer \<noteq> None \<and> client \<noteq> None")
  case False
  with assms show ?thesis by (auto simp: resolve_content_def Let_def split: option.splits)
next
  case True
  then obtain s cas where sc: "signer = Some s" "client = Some cas" "fe_size entry \<le> hb_inline_threshold (lh_hub L)" by auto
  show ?thesis
  proof (cases "sign (hb_token_crates (lh_hub L)) s clock username ''read'' repo_id repo_type revision")
    case (Inl e)
    with assms sc show ?thesis by (simp add: resolve_content_def Let_def)
  next
    case (Inr x)
    obtain token exp where x: "x = (token, exp)" by (cases x)
    obtain res c1 where d: "proxy_lfs_download (lh_crates L) cas (fe_cas_hash entry) (fe_size entry) token c = (res, c1)" by (metis surj_pair)
    have reply: "(HubReply r, c') = (case res of Inr data \<Rightarrow> HubReply (resolve_inline commit_id entry data)
        | Inl (HubNotFound _) \<Rightarrow> HubFailure 404 (''File content not found in storage: '' @ fe_cas_hash entry) ''NotFoundError''
        | Inl HubCasTimeout \<Rightarrow> HubFailure 504 CAS_ERROR_MESSAGE ''GatewayTimeout'' | Inl _ \<Rightarrow> HubFailure 502 CAS_ERROR_MESSAGE ''BadGateway'', c1)"
      using assms sc Inr x d by (auto simp: resolve_content_def Let_def split: sum.splits HubError.splits)
    then obtain data where "res = Inr data" "r = resolve_inline commit_id entry data"
      by (auto split: sum.splits HubError.splits)
    with client_download_verified [OF d [unfolded \<open>res = Inr data\<close>]] sc(3) show ?thesis by blast
  qed
qed

lemma resolve_errors_no_reply: "resolve_service_error_response e \<noteq> HubReply r" "hub_internal_error \<noteq> HubReply r"
  by (cases e) (simp_all add: hub_internal_error_def)

lemma resolve_file_Inr:
  assumes "service_resolve_file D db request = Inr (commit_id, entry)"
  obtains repo where "get_repo (D 0) db (rq_namespace request) (rq_repo_name request) (rq_repo_type request) = Inr repo"
    "can_access_repo repo (rq_username request)" "resolve_revision_id (D 1) db (rp_id repo) (rq_revision request) = Inr commit_id"
    "resolve_file (D 2) db (rp_id repo) commit_id (rq_file_path request) = Inr entry"
  using assms by (auto simp: service_resolve_file_def rs_load_repo_def result_simps)

text \<open>
  C23. A file is served as it was committed. A reply means that the caller's token may read, that the
  repository is public or the caller's own, and that the file is in the tree of the commit that the revision
  names. A description gives its size and hash; a content has exactly that size and hash, and is
  not over the threshold; a redirect leads to the front end's object handler with a token
  that opens this object for downloading and nothing else.
\<close>

theorem resolve_serves_committed_file:
  assumes K: "b64u_contract (hb_token_crates (lh_hub L))" "json_contract (hb_token_crates (lh_hub L))" "ed25519_contract (hb_token_crates (lh_hub L))"
    and run: "handle_resolve L (Some signer) client fault now tdb clock D db repo_type is_head authorization (namespace, repo_name, revision, file_path) c = (HubReply r, c')"
  shows "\<exists>bearer info repo commit_id entry. extract_bearer_from_request authorization = Some bearer \<and>
    validate_token (hb_tokens (lh_hub L)) fault now bearer tdb = Inr (Some info) \<and> scope_allows (ti_scope info) ''read'' \<and>
    get_repo (D 0) db namespace repo_name repo_type = Inr repo \<and> (rp_private repo \<longrightarrow> namespace = ti_username info) \<and>
    resolve_revision_id (D 1) db (rp_id repo) revision = Inr commit_id \<and> resolve_file (D 2) db (rp_id repo) commit_id file_path = Inr entry \<and>
    (if is_head then r = resolve_head commit_id entry
     else
       (\<exists>data. r = resolve_inline commit_id entry data \<and> length data = unat (fe_size entry) \<and> fe_size entry \<le> hb_inline_threshold (lh_hub L) \<and>
          eq_ignore_ascii_case (hex_encode (lh_crates L) (sha256 (lh_crates L) data)) (fe_cas_hash entry)) \<or>
       (\<exists>token t exp. r = resolve_redirect commit_id entry (lh_base_url L @ ''/lfs/objects/'' @ fe_cas_hash entry @ ''?token='' @ token) \<and>
          (\<forall>later oid op. guard_authorize (hb_token_crates (lh_hub L)) signer (Some later) token oid op = Inr () \<longleftrightarrow>
             validate_oid oid \<and> oid = fe_cas_hash entry \<and> op = OpDownload \<and> t \<le> later \<and> later < exp)))"
proof -
  let ?K = "hb_token_crates (lh_hub L)"
  obtain info where info: "auth_user (hb_tokens (lh_hub L)) fault now tdb AuthRead authorization = Inr info"
    using run by (cases "auth_user (hb_tokens (lh_hub L)) fault now tdb AuthRead authorization") (simp_all add: handle_resolve_def)
  let ?q = "\<lparr>rq_username = ti_username info, rq_namespace = namespace, rq_repo_name = repo_name, rq_repo_type = repo_type,
          rq_revision = revision, rq_file_path = file_path\<rparr>"
  obtain commit_id entry where f: "service_resolve_file D db ?q = Inr (commit_id, entry)"
    using run info by (cases "service_resolve_file D db ?q") (auto simp: handle_resolve_def resolve_errors_no_reply)
  obtain repo where repo: "get_repo (D 0) db namespace repo_name repo_type = Inr repo" "can_access_repo repo (ti_username info)"
    "resolve_revision_id (D 1) db (rp_id repo) revision = Inr commit_id" "resolve_file (D 2) db (rp_id repo) commit_id file_path = Inr entry"
    by (rule resolve_file_Inr [OF f]) simp
  let ?sign = "sign_proxy ?K signer (clock 0) (ti_username info) (fe_cas_hash entry) ''download'' (namespace @ ''/'' @ repo_name) (repo_type_name repo_type)"
  have served: "if is_head then r = resolve_head commit_id entry
     else
       (\<exists>data. r = resolve_inline commit_id entry data \<and> length data = unat (fe_size entry) \<and> fe_size entry \<le> hb_inline_threshold (lh_hub L) \<and>
          eq_ignore_ascii_case (hex_encode (lh_crates L) (sha256 (lh_crates L) data)) (fe_cas_hash entry)) \<or>
       (\<exists>token t exp. r = resolve_redirect commit_id entry (lh_base_url L @ ''/lfs/objects/'' @ fe_cas_hash entry @ ''?token='' @ token) \<and>
          (\<forall>later oid op. guard_authorize ?K signer (Some later) token oid op = Inr () \<longleftrightarrow>
             validate_oid oid \<and> oid = fe_cas_hash entry \<and> op = OpDownload \<and> t \<le> later \<and> later < exp))"
  proof (cases is_head)
    case True
    with run info f show ?thesis by (simp add: handle_resolve_def)
  next
    case False
    then obtain token exp where s: "?sign = Inr (token, exp)"
      using run info f by (cases ?sign) (auto simp: handle_resolve_def resolve_errors_no_reply)
    obtain t where t: "clock 0 = Some t" by (rule proxy_claims [OF s])
    have guard: "guard_authorize ?K signer (Some later) token oid op = Inr () \<longleftrightarrow>
        validate_oid oid \<and> oid = fe_cas_hash entry \<and> op = OpDownload \<and> t \<le> later \<and> later < exp" for later oid op
      using validate_proxy_issued(1) [OF K s [unfolded t]] by (cases op) (auto simp: guard_authorize_def)
    have "resolve_content L (Some signer) client (clock 1) (ti_username info) (namespace @ ''/'' @ repo_name) (repo_type_name repo_type) revision commit_id entry
        (lh_base_url L @ ''/lfs/objects/'' @ fe_cas_hash entry @ ''?token='' @ token) c = (HubReply r, c')"
      using run info f s False by (simp add: handle_resolve_def)
    from resolve_content_reply [OF this] show ?thesis
    proof
      assume r: "r = resolve_redirect commit_id entry (lh_base_url L @ ''/lfs/objects/'' @ fe_cas_hash entry @ ''?token='' @ token)"
      show ?thesis unfolding if_not_P [OF False]
        by (rule disjI2, rule exI [of _ token], rule exI [of _ t], rule exI [of _ exp], rule conjI [OF r]) (intro allI guard)
    qed (use False in auto)
  qed
  have "rp_private repo \<longrightarrow> namespace = ti_username info" using repo(2) get_repo_names [OF repo(1)] by (auto simp: can_access_repo_def)
  with info repo(1,3,4) served show ?thesis unfolding auth_user_Inr scope_check.simps by blast
qed

section \<open>A file, served\<close>

definition resolve_entry :: FileEntry where
  "resolve_entry = \<lparr>fe_path = ''a'', fe_repo_id = 1, fe_commit_id = ''c1'', fe_size = 20, fe_cas_hash = demo_oid, fe_is_lfs = True\<rparr>"

definition resolve_db :: hub_db where
  "resolve_db = demo_db2\<lparr>db_file_tree := [\<lparr>ft_path = ''a'', ft_repo_id = 1, ft_commit_id = ''c1'', ft_size = 20, ft_cas_hash = demo_oid, ft_is_lfs = 1\<rparr>]\<rparr>"

definition resolve_hub :: "(string, string, demo_url, upstream_request list) lfs_hub" where
  "resolve_hub = (demo_lfs_hub ''download'')\<lparr>lh_hub := demo_hub\<rparr>"

lemma resolve_hub_simps:
  "hb_token_crates (lh_hub resolve_hub) = inst_token_crates" "hb_tokens (lh_hub resolve_hub) = demo_store"
  "hb_inline_threshold (lh_hub resolve_hub) = 10" "lh_base_url resolve_hub = ''http://h''"
  by (simp_all add: resolve_hub_def demo_hub_def demo_lfs_hub_def)

lemma resolve_db_facts:
  "get_repo no_faults resolve_db ''u'' ''r'' Model = Inr \<lparr>rp_id = 1, rp_name = ''r'', rp_namespace = ''u'', rp_repo_type = Model,
     rp_sha = None, rp_private = False, rp_created_at = 0, rp_updated_at = 0\<rparr>"
  "resolve_revision_id no_faults resolve_db 1 ''main'' = Inr ''c1''"
  "resolve_file no_faults resolve_db 1 ''c1'' ''a'' = Inr resolve_entry"
proof -
  show "get_repo no_faults resolve_db ''u'' ''r'' Model = Inr \<lparr>rp_id = 1, rp_name = ''r'', rp_namespace = ''u'', rp_repo_type = Model,
     rp_sha = None, rp_private = False, rp_created_at = 0, rp_updated_at = 0\<rparr>"
    using demo_repo by (simp add: get_repo_def query_def resolve_db_def demo_db2_eq)
  show "resolve_revision_id no_faults resolve_db 1 ''main'' = Inr ''c1''"
    by (simp add: resolve_revision_id_def get_head_def query_def select_head_def resolve_db_def demo_db2_eq is_ascii_hexdigit_def)
  show "resolve_file no_faults resolve_db 1 ''c1'' ''a'' = Inr resolve_entry"
    by (simp add: resolve_file_def query_def resolve_db_def demo_db2_eq row_to_file_entry_def resolve_entry_def)
qed

theorem resolve_serves_committed_file_witness:
  "\<exists>token. fst (handle_resolve resolve_hub (Some demo_signer) None (\<lambda>_. False) 2000 demo_tokens_db (\<lambda>_. Some 1000) (\<lambda>_. no_faults) resolve_db Model False
       (Some ''Bearer hf_12'') (''u'', ''r'', ''main'', ''a'') []) =
       HubReply (resolve_redirect ''c1'' resolve_entry (''http://h/lfs/objects/'' @ demo_oid @ ''?token='' @ token)) \<and>
     guard_authorize inst_token_crates demo_signer (Some 1001) token demo_oid OpUpload \<noteq> Inr ()"
proof -
  obtain info where info: "auth_user demo_store (\<lambda>_. False) 2000 demo_tokens_db AuthRead (Some ''Bearer hf_12'') = Inr info" "ti_username info = ''u''"
    using demo_auth [of AuthRead] by auto
  have "\<not> blank demo_oid" using demo_oid_valid hex_oid_not_blank [of demo_oid] by (simp add: validate_oid_def is_hex_oid_def)
  then have "\<exists>token. sign_proxy inst_token_crates demo_signer (Some 1000) ''u'' demo_oid ''download'' ''u/r'' ''model'' = Inr (token, 1300)"
    by (simp add: sign_proxy_def signer_now_def expiration_def checked_add_def signer_Inr demo_signer_def new_signer_def new_with_internal_ttl_def)
      (rule sign_claims_valid, auto simp: validate_claims_iff)
  then obtain token where s: "sign_proxy inst_token_crates demo_signer (Some 1000) ''u'' demo_oid ''download'' ''u/r'' ''model'' = Inr (token, 1300)" by blast
  have e: "fe_cas_hash resolve_entry = demo_oid" "\<not> fe_size resolve_entry \<le> 10" by (simp_all add: resolve_entry_def)
  have found: "service_resolve_file (\<lambda>_. no_faults) resolve_db \<lparr>rq_username = ''u'', rq_namespace = ''u'', rq_repo_name = ''r'', rq_repo_type = Model,
      rq_revision = ''main'', rq_file_path = ''a''\<rparr> = Inr (''c1'', resolve_entry)"
    by (simp add: service_resolve_file_def rs_load_repo_def resolve_db_facts can_access_repo_def)
  have run: "handle_resolve resolve_hub (Some demo_signer) None (\<lambda>_. False) 2000 demo_tokens_db (\<lambda>_. Some 1000) (\<lambda>_. no_faults) resolve_db Model False
      (Some ''Bearer hf_12'') (''u'', ''r'', ''main'', ''a'') [] =
      (HubReply (resolve_redirect ''c1'' resolve_entry (''http://h/lfs/objects/'' @ demo_oid @ ''?token='' @ token)), [])"
    using info s by (simp add: handle_resolve_def resolve_hub_simps found resolve_content_def e)
  note served = resolve_serves_committed_file [of resolve_hub, unfolded resolve_hub_simps, OF inst_b64u_contract inst_json_contract inst_ed25519_contract run]
  from served obtain commit_id entry token' t exp where r:
    "resolve_redirect ''c1'' resolve_entry (''http://h/lfs/objects/'' @ demo_oid @ ''?token='' @ token) =
       resolve_redirect commit_id entry (''http://h/lfs/objects/'' @ fe_cas_hash entry @ ''?token='' @ token')"
    "\<forall>later oid op. guard_authorize inst_token_crates demo_signer (Some later) token' oid op = Inr () \<longleftrightarrow>
       validate_oid oid \<and> oid = fe_cas_hash entry \<and> op = OpDownload \<and> t \<le> later \<and> later < exp"
    by (auto simp: resolve_redirect_def resolve_inline_def)
  from r(1) have "fe_cas_hash entry = demo_oid" "token' = token" by (auto simp: resolve_redirect_def e)
  with r(2) have "guard_authorize inst_token_crates demo_signer (Some 1001) token demo_oid OpUpload \<noteq> Inr ()" by simp
  with run show ?thesis by (intro exI [of _ token]) simp
qed

end
