(* ===== verification/Spec2Isabelle.thy ===== *)
theory Spec2Isabelle
  imports Conversion_Restart Conversion_Scheduler Shard_Builder Hub_Resolve
begin

text \<open>
  A verification development for \<^verbatim>\<open>xet-server\<close>, a content-addressed storage service in Rust. The
  repository holds a storage server (\<^verbatim>\<open>src/src\<close>), a front end for repositories and commits
  (\<^verbatim>\<open>src/hub\<close>) and two shared crates (\<^verbatim>\<open>src/xet-common\<close>, \<^verbatim>\<open>src/xet-auth-types\<close>). This root theory
  imports the others and holds what spans storage and index.

  \<^bold>\<open>The program.\<close> A file is cut into chunks by a rolling hash; chunks are compressed and packed
  into a \<^emph>\<open>xorb\<close>, whose name is a Merkle hash of its chunks; a \<^emph>\<open>shard\<close> records which chunks of which
  xorbs make up which file. Xorbs and shards are objects of a storage backend. An in-memory
  index maps file hashes to shards and chunk hashes to xorbs; it is filled only with shards
  that were validated against the stored xorbs, and rebuilt from storage at start. Downloads
  reconstruct a file from its shard and xorbs and check its identity before they return it.
  Raw blobs are converted into xorbs and shards in the background, by workers behind a bounded
  queue, under a quota for temporary space. The endpoints of the storage server check a signed
  token, receive uploads into temporary files and admit them by content, stream downloads, and answer
  queries about files, chunks and blobs. The front end keeps repositories, revisions and file trees
  in an SQLite database; its services create and delete repositories, list trees, apply commits, check the access
  tokens of users, sign the tokens that the storage server verifies, and pass large files
  between a client and the storage server.

  \<^bold>\<open>Modelling conventions.\<close> Fixed-width integers are words and wrap; lengths and \<^verbatim>\<open>usize\<close> values are
  natural numbers with the source's checked additions written out. Fallible code returns a sum
  with the error on the left; \<open>Panic\<close> and \<open>CPanic\<close> stand for an index, slice or arithmetic panic.
  Crates outside the repository are the fields of the record \<open>crates\<close> (BLAKE3, SHA-256, hex,
  LZ4) and the rolling hash \<open>gear\<close>; what the code relies on is stated in contracts
  (\<open>lz4_contract\<close>, \<open>hex_contract\<close>, \<open>gear_contract\<close>), which \<open>Crate_Instance\<close> shows to be satisfiable by
  concrete functions. Hash functions are never assumed to be injective: where that matters,
  collisions appear in the conclusion.

  \<^bold>\<open>The theories\<close>, in the order of their imports, with the source they model:

  \<^item> \<open>Xet_Prelude\<close>: result types, checked arithmetic, shared lemmas and simplification sets.
  \<^item> \<open>Byte_Codec\<close>: \<^verbatim>\<open>format/io_utils.rs\<close>, \<^verbatim>\<open>error.rs\<close>: little-endian integers and their inverses.
  \<^item> \<open>Merkle_Hash\<close>: \<^verbatim>\<open>types/merkle_hash.rs\<close>, \<^verbatim>\<open>hash/blake3_hash.rs\<close>, \<^verbatim>\<open>util/streaming_hash.rs\<close>.
  \<^item> \<open>Merkle_Tree\<close>: \<^verbatim>\<open>hash/merkle_tree.rs\<close>: content-defined grouping, depth and binding.
  \<^item> \<open>Compression\<close>: \<^verbatim>\<open>format/compression.rs\<close>: byte grouping, the LZ4 guard, round trips.
  \<^item> \<open>Chunking\<close>: \<^verbatim>\<open>chunking/cdc.rs\<close>: the one-shot and the streaming chunker and their equivalence.
  \<^item> \<open>Xorb_Format\<close>: \<^verbatim>\<open>format/xorb.rs\<close>: header and footer codecs and both verifiers, with the exact
    set of files the file verifier accepts.
  \<^item> \<open>Xorb_Builder\<close>: \<^verbatim>\<open>format/xorb_builder.rs\<close>, \<^verbatim>\<open>xorb_reader.rs\<close>: building, and reading a chunk back.
  \<^item> \<open>Shard_Format\<close>, \<open>Shard_Builder\<close>: \<^verbatim>\<open>format/shard.rs\<close>, \<^verbatim>\<open>format/shard_builder.rs\<close>: the parser with its
    bounds, what an accepted shard consists of, and the build/parse round trip.
  \<^item> \<open>Reconstruction_Plan\<close>: \<^verbatim>\<open>reconstruction_plan.rs\<close>.
  \<^item> \<open>Storage_Access\<close>: \<^verbatim>\<open>storage/mod.rs\<close>, \<^verbatim>\<open>shard_io.rs\<close>: errors, retries, loading a shard.
  \<^item> \<open>Shard_Validation\<close>: \<^verbatim>\<open>shard_validation.rs\<close>: a shard against the stored xorbs.
  \<^item> \<open>Metadata_Index\<close>: \<^verbatim>\<open>index.rs\<close>: registration, queries, the batched rebuild.
  \<^item> \<open>Reconstruction_IO\<close>: \<^verbatim>\<open>reconstruction_io.rs\<close>: reconstruction of a file.
  \<^item> \<open>Object_Store\<close>: the contract of a storage backend, as a locale; \<open>Local_Storage\<close>:
    \<^verbatim>\<open>storage/local.rs\<close>, interpreted as an object store, with every intermediate state of a write.
  \<^item> \<open>Temp_Quota\<close>: \<^verbatim>\<open>xet-common/src/lib.rs\<close>: the quota ledger, sequential and interleaved.
  \<^item> \<open>Conversion\<close>, \<open>Conversion_Local\<close>, \<open>Conversion_Restart\<close>: \<^verbatim>\<open>conversion/mod.rs\<close>: the pipeline over any
    object store, its interpretation on the local backend, and conversions across a restart.
  \<^item> \<open>Conversion_Scheduler\<close>: \<^verbatim>\<open>conversion/converting_oids.rs\<close>: queue, workers and shutdown.
  \<^item> \<open>Rust_Strings\<close>: the string operations of the standard library that the theories below use.
  \<^item> \<open>Hub_Metadata\<close>: \<^verbatim>\<open>hub/src/metadata\<close>: the tables as lists of rows, the SQL statements as functions,
    the transaction of a commit and the reference implementation of the trait.
  \<^item> \<open>Hub_Tree\<close>, \<open>Hub_Repo\<close>, \<open>Hub_Commit\<close>: \<^verbatim>\<open>hub/src/services\<close>: listings with their cursors, repositories and
    their owners, commits, and what other requests do in between.
  \<^item> \<open>Xet_Token\<close>: \<^verbatim>\<open>xet-auth-types/src/lib.rs\<close>, \<^verbatim>\<open>hub/src/auth/xet_signer.rs\<close>: the token format and the
    signer; \<open>Token_Instance\<close> shows its contracts to be satisfiable.
  \<^item> \<open>Cas_Auth\<close>: \<^verbatim>\<open>api/auth.rs\<close>, \<^verbatim>\<open>api/guard.rs\<close>: the key ring, the verifier and the guard, against a
    policy of grants.
  \<^item> \<open>Upload_Stream\<close>: \<^verbatim>\<open>util/disk.rs\<close>, \<^verbatim>\<open>util/temp_file.rs\<close>, \<^verbatim>\<open>util/payload_stream.rs\<close>: a request body into a
    temporary file, with its quota.
  \<^item> \<open>Xorb_Identity\<close>: the name of a xorb determines its bytes, up to hash collisions.
  \<^item> \<open>Cas_Upload\<close>: \<^verbatim>\<open>api/xorb.rs\<close>, \<^verbatim>\<open>api/lfs.rs\<close>, \<^verbatim>\<open>api/shard.rs\<close>: the uploads, each as an admission and a
    store that interleave with others; the locale \<open>upload_store\<close> is what they need of a backend.
  \<^item> \<open>Cas_Download\<close>: the downloads of the same files, \<^verbatim>\<open>api/lfs/raw.rs\<close>, \<^verbatim>\<open>api/lfs/reconstruction.rs\<close>,
    \<^verbatim>\<open>api/reconstruction.rs\<close>, \<^verbatim>\<open>api/global_dedup.rs\<close>, \<^verbatim>\<open>api/internal.rs\<close>.
  \<^item> \<open>Cas_Batch\<close>: \<^verbatim>\<open>api/batch.rs\<close>: the Git LFS batch endpoint and its action tokens.
  \<^item> \<open>Hub_Access\<close>: \<^verbatim>\<open>hub/src/auth\<close> and the services \<^verbatim>\<open>token_exchange.rs\<close>, \<^verbatim>\<open>preupload.rs\<close>, \<^verbatim>\<open>whoami.rs\<close> with their
    handlers: the table of access tokens, the guard, the agreement on a salt.
  \<^item> \<open>Hub_Lfs\<close>: \<^verbatim>\<open>hub/src/cas_client\<close>, \<^verbatim>\<open>hub/src/lfs_proxy\<close>, the services \<^verbatim>\<open>lfs_batch.rs\<close>, \<^verbatim>\<open>lfs_object.rs\<close>,
    \<^verbatim>\<open>lfs_upload.rs\<close> and the handlers \<^verbatim>\<open>api/lfs_proxy.rs\<close>: large files through the front end.
  \<^item> \<open>Hub_Resolve\<close>: \<^verbatim>\<open>hub/src/api/resolve.rs\<close>: the files of a repository, described, returned or redirected.

  \<^bold>\<open>What is shown.\<close> Data is not lost and not forged along the whole path: what the verifiers
  accept is exactly determined, builders produce what the verifiers accept, validated shards
  and rebuilt indexes refer only to stored and verified data, every indexed file can be
  reconstructed, a reconstruction returns only the requested bytes, and a conversion leaves
  the blob available whatever happens, also after a restart. The endpoints keep this up: uploads
  in any interleaving store only objects that are what their names say and register only what is
  stored, every upload returns its quota, downloads deliver the named data or break off, and
  queries report what is stored. Whoever is admitted holds a current token that a trusted key signed for
  the request. In the front end a commit extends exactly the parent its client named, listings
  give every child once while others write, and only owners delete. An access token is valid from
  its creation until it is revoked or expires and buys no more at the storage server than it has; a
  token of the proxy opens one object for one operation on both sides; uploads are forwarded only
  when they are what their identifier names, and batches leave without a credential of the storage
  server; a file is served as it was committed. Concurrent parts (the
  ledger, the scheduler, uploads, the salt, the services of the front end) are step relations over single
  accesses to shared state.

  \<^bold>\<open>Loops.\<close> Structural loops are \<open>fun\<close>; the rebuild loop has a termination proof by the length of
  the listing; the chunkers, whose progress depends on the rolling hash, are partial functions
  into \<open>option\<close>, and the theorems state that they return. No fuel is used.

  \<^bold>\<open>Not modelled.\<close> The S3 backend, a sequence of calls to a network service behind the contract
  that the local backend satisfies; the request handlers of the front end for commits, repositories
  and trees, which extract parameters and render the results of its services; routing, middleware, metrics, logging,
  the parsing of environment variables, database connections and process start-up, which are
  input and output; the start-up cleanup and the lock of temporary directories.
\<close>

section \<open>Local storage and the rebuild\<close>

lemma short_shard_rejected:
  assumes "length data < 248"
  shows "\<exists>e. parse_path C key (Some data) = Inl e"
  using assms
  by (cases "hash_reader C data (length data)")
     (auto simp: parse_path_def parse_from_file_def parse_reader_def SHARD_HEADER_SIZE_def SHARD_FOOTER_SIZE_def)

lemma failed_shard_fails_rebuild:
  assumes "key \<in> set keys" "process_shard C fetch key = None"
  shows "\<exists>e. fst (rebuild_from_storage C fetch (map Inr keys) idx) = Inl e"
proof -
  let ?st0 = "\<lparr>rb_index = idx, rb_total_count = 0, rb_failure_count = 0\<rparr>"
  have listed: "listed (map Inr keys) = keys" by (induction keys) simp_all
  have "rb_failure_count (foldl register_result ?st0 (map (process_shard C fetch) keys)) \<noteq> 0"
    using register_fold_complete [of ?st0 "map (process_shard C fetch) keys"] assms by (fastforce simp: list_all_iff)
  then show ?thesis by (simp add: rebuild_from_storage_def rebuild_loop_eq listed)
qed



end
